(* ===== verification/Prelude.thy ===== *)
theory Prelude
  imports Main "HOL-Library.Word"
begin

text \<open>
  What every component shares: the integer types of the interpreter, the result type of its
  operations with its sequencing operator, a partial-correctness predicate on results that the
  simplifier computes with, and facts on words and lists.

  A C function that may not come back to its caller has the result type \<open>'a res\<close>:
    \<^item> \<open>Ok x\<close>: it returns \<open>x\<close>;
    \<^item> \<open>Stop e\<close>: the program ends there, with a call of \<open>os_fatal\<close> or with an access the C
      standard leaves undefined (an index outside an array, a null pointer, a zero divisor);
    \<^item> \<open>None\<close>: it does not return at all (a loop that runs forever).
\<close>

unbundle bit_operations_syntax

subsection \<open>Machine integers\<close>

text \<open>\<open>zbyte\<close>, \<open>zchar\<close> (unsigned char) and \<open>zword\<close> (unsigned short) of frotz.h.\<close>

type_synonym zbyte = "8 word"
type_synonym zchar = "8 word"
type_synonym zword = "16 word"

subsection \<open>Results\<close>

text \<open>
  Why the program stops: a fatal run-time error with its number, \<open>os_fatal\<close> with a message, or an
  operation the C standard gives no meaning to.
\<close>

datatype stop =
    Fatal int
  | Os_fatal string
  | Bad_memory int
  | Bad_stack int
  | Bad_buffer int
  | Null_pointer
  | Wild_pointer
  | Div_by_zero
  | Bad_shift int
  | Bad_opcode int
  | Call_depth
  | Story_overwritten
  | Newline_routine

type_synonym 'a res = "(stop + 'a) option"

abbreviation Ok :: "'a \<Rightarrow> 'a res" where
  "Ok x \<equiv> Some (Inr x)"

abbreviation Stop :: "stop \<Rightarrow> 'a res" where
  "Stop e \<equiv> Some (Inl e)"

text \<open>Sequencing, as the semicolon of the source: the rest runs only when the first part returns.\<close>

definition andthen :: "'a res \<Rightarrow> ('a \<Rightarrow> 'b res) \<Rightarrow> 'b res" where
  "andthen m f = (case m of None \<Rightarrow> None | Some (Inl e) \<Rightarrow> Stop e | Some (Inr x) \<Rightarrow> f x)"

lemma andthen_simps [simp]:
  "andthen (Ok x) f = f x"
  "andthen (Stop e) f = Stop e"
  "andthen None f = None"
  by (simp_all add: andthen_def)

lemma andthen_assoc: "andthen (andthen m f) g = andthen m (\<lambda>x. andthen (f x) g)"
  by (simp add: andthen_def split: option.splits sum.splits)

lemma andthen_Ok [simp]: "andthen m (\<lambda>x. Ok x) = m"
  by (simp add: andthen_def split: option.splits sum.splits)

lemma andthen_eq_Ok:
  "andthen m f = Ok y \<longleftrightarrow> (\<exists>x. m = Ok x \<and> f x = Ok y)"
  by (auto simp: andthen_def split: option.splits sum.splits)

lemma andthen_if:
  "andthen (if b then m else n) f = (if b then andthen m f else andthen n f)"
  by simp

lemma andthen_cong [fundef_cong]:
  "m = m' \<Longrightarrow> (\<And>x. m' = Ok x \<Longrightarrow> f x = f' x) \<Longrightarrow> andthen m f = andthen m' f'"
  by (auto simp: andthen_def split: option.splits sum.splits)

text \<open>Sequencing is monotone, so that \<open>partial_function (option)\<close> accepts loops written with it.\<close>

lemma andthen_bind:
  "andthen m f = Option.bind m (case_sum (\<lambda>e. Stop e) f)"
  by (simp add: andthen_def split: option.splits sum.splits)

lemma andthen_mono [partial_function_mono]:
  assumes "mono_option B" and "\<And>y. mono_option (\<lambda>f. C y f)"
  shows "mono_option (\<lambda>f. andthen (B f) (\<lambda>y. C y f))"
proof -
  have branch: "mono_option (\<lambda>f. case_sum (\<lambda>e. Stop e) (\<lambda>y. C y f) r)" for r
  proof (cases r)
    case (Inl e)
    then show ?thesis by (simp add: monotone_def flat_ord_def)
  next
    case (Inr y)
    then show ?thesis using assms(2) by simp
  qed
  show ?thesis
    unfolding andthen_bind by (rule bind_mono [OF assms(1) branch])
qed

subsection \<open>Partial correctness of a result\<close>

text \<open>
  \<open>post m P\<close>: if \<open>m\<close> returns a value, that value satisfies \<open>P\<close>. The equations push a
  postcondition backwards through the program, as a weakest precondition calculus does.
\<close>

definition post :: "'a res \<Rightarrow> ('a \<Rightarrow> bool) \<Rightarrow> bool" where
  "post m P \<longleftrightarrow> (\<forall>x. m = Ok x \<longrightarrow> P x)"

named_theorems post_rules "postconditions of operations"

lemma post_simps [simp]:
  "post (Ok x) P \<longleftrightarrow> P x"
  "post (Stop e) P"
  "post None P"
  by (simp_all add: post_def)

lemma post_andthen [simp]: "post (andthen m f) P \<longleftrightarrow> post m (\<lambda>x. post (f x) P)"
  by (auto simp: post_def andthen_eq_Ok)

lemma post_if [simp]:
  "post (if b then m else n) P \<longleftrightarrow> (b \<longrightarrow> post m P) \<and> (\<not> b \<longrightarrow> post n P)"
  by simp

lemma post_mono: "post m P \<Longrightarrow> (\<And>x. P x \<Longrightarrow> Q x) \<Longrightarrow> post m Q"
  by (simp add: post_def)

lemma postD: "post m P \<Longrightarrow> m = Ok x \<Longrightarrow> P x"
  by (simp add: post_def)

lemma postI: "(\<And>x. m = Ok x \<Longrightarrow> P x) \<Longrightarrow> post m P"
  by (simp add: post_def)

lemma post_conj: "post m (\<lambda>x. P x \<and> Q x) \<longleftrightarrow> post m P \<and> post m Q"
  by (auto simp: post_def)

lemma post_TrueI [simp]: "post m (\<lambda>x. True)"
  by (simp add: post_def)

text \<open>\<open>returns m P\<close>: the operation does return, and with a value that satisfies \<open>P\<close>.\<close>

definition returns :: "'a res \<Rightarrow> ('a \<Rightarrow> bool) \<Rightarrow> bool" where
  "returns m P \<longleftrightarrow> (\<exists>x. m = Ok x \<and> P x)"

lemma returns_simps [simp]:
  "returns (Ok x) P \<longleftrightarrow> P x"
  "\<not> returns (Stop e) P"
  "\<not> returns None P"
  by (simp_all add: returns_def)

lemma returns_andthen [simp]:
  "returns (andthen m f) P \<longleftrightarrow> returns m (\<lambda>x. returns (f x) P)"
  by (auto simp: returns_def andthen_eq_Ok)

text \<open>An executable test that an operation returned.\<close>

definition is_ok :: "'a res \<Rightarrow> bool" where
  "is_ok m = (case m of None \<Rightarrow> False | Some (Inl e) \<Rightarrow> False | Some (Inr x) \<Rightarrow> True)"

lemma is_okD: "is_ok m \<Longrightarrow> \<exists>x. m = Ok x"
  by (simp add: is_ok_def split: option.splits sum.splits)

subsection \<open>Parts of the state that an operation leaves alone\<close>

text \<open>
  \<open>keeps p c m\<close>: a state that \<open>m\<close> returns has the projection \<open>p\<close> equal to \<open>c\<close>; \<open>keeps2\<close> is the
  same for an operation that returns a value and a state. The introduction rules follow the
  structure of a program, so that \<open>auto intro!: keeps_intros\<close> decides it from the facts on the
  operations it calls.
\<close>

definition keeps :: "('s \<Rightarrow> 'c) \<Rightarrow> 'c \<Rightarrow> 's res \<Rightarrow> bool" where
  "keeps p c m \<longleftrightarrow> post m (\<lambda>s. p s = c)"

definition keeps2 :: "('s \<Rightarrow> 'c) \<Rightarrow> 'c \<Rightarrow> ('a \<times> 's) res \<Rightarrow> bool" where
  "keeps2 p c m \<longleftrightarrow> post m (\<lambda>(x, s). p s = c)"

definition keeps3 :: "('s \<Rightarrow> 'c) \<Rightarrow> 'c \<Rightarrow> ('a \<times> 'b \<times> 's) res \<Rightarrow> bool" where
  "keeps3 p c m \<longleftrightarrow> post m (\<lambda>(x, y, s). p s = c)"

lemma keeps_simps [simp]:
  "keeps p c (Ok s) \<longleftrightarrow> p s = c"
  "keeps p c (Stop e)"
  "keeps p c None"
  "keeps2 p c (Ok (x, s)) \<longleftrightarrow> p s = c"
  "keeps2 p c (Stop e)"
  "keeps2 p c None"
  "keeps3 p c (Ok (x, y, s)) \<longleftrightarrow> p s = c"
  "keeps3 p c (Stop e)"
  "keeps3 p c None"
  by (simp_all add: keeps_def keeps2_def keeps3_def)

lemma keeps_andthen:
  "keeps p c m \<Longrightarrow> (\<And>s. p s = c \<Longrightarrow> keeps q d (f s)) \<Longrightarrow> keeps q d (andthen m f)"
  "keeps p c m \<Longrightarrow> (\<And>s. p s = c \<Longrightarrow> keeps2 q d (g s)) \<Longrightarrow> keeps2 q d (andthen m g)"
  "keeps2 p c m' \<Longrightarrow> (\<And>x s. p s = c \<Longrightarrow> keeps q d (f' (x, s))) \<Longrightarrow> keeps q d (andthen m' f')"
  "keeps2 p c m' \<Longrightarrow> (\<And>x s. p s = c \<Longrightarrow> keeps2 q d (g' (x, s))) \<Longrightarrow> keeps2 q d (andthen m' g')"
  by (auto simp: keeps_def keeps2_def elim!: post_mono)

lemma keeps3_andthen:
  fixes n :: "zbyte res"
  shows
  "keeps p c m \<Longrightarrow> (\<And>s. p s = c \<Longrightarrow> keeps3 q d (f s)) \<Longrightarrow> keeps3 q d (andthen m f)"
  "keeps2 p c m' \<Longrightarrow> (\<And>x s. p s = c \<Longrightarrow> keeps3 q d (f' (x, s))) \<Longrightarrow> keeps3 q d (andthen m' f')"
  "keeps3 p c m'' \<Longrightarrow> (\<And>x y s. p s = c \<Longrightarrow> keeps q d (g (x, y, s))) \<Longrightarrow> keeps q d (andthen m'' g)"
  "keeps3 p c m'' \<Longrightarrow> (\<And>x y s. p s = c \<Longrightarrow> keeps2 q d (g' (x, y, s))) \<Longrightarrow>
    keeps2 q d (andthen m'' g')"
  "(\<And>x. keeps3 q d (h x)) \<Longrightarrow> keeps3 q d (andthen n h)"
  by (auto simp: keeps_def keeps2_def keeps3_def post_def andthen_eq_Ok)

lemma keeps3_if:
  "(b \<Longrightarrow> keeps3 p c m) \<Longrightarrow> (\<not> b \<Longrightarrow> keeps3 p c n) \<Longrightarrow> keeps3 p c (if b then m else n)"
  by auto

lemma keeps_read_any:
  "(\<And>x. keeps q d (f x)) \<Longrightarrow> keeps q d (andthen m f)"
  "(\<And>x. keeps2 q d (g x)) \<Longrightarrow> keeps2 q d (andthen m g)"
  by (auto simp: keeps_def keeps2_def post_def andthen_eq_Ok)

text \<open>The same for operations that only read, told by the type of their result.\<close>

lemma keeps_read:
  fixes m :: "zbyte res" and n :: "zword res" and k :: "int res"
  shows "(\<And>x. keeps q d (f x)) \<Longrightarrow> keeps q d (andthen m f)"
    and "(\<And>x. keeps2 q d (g x)) \<Longrightarrow> keeps2 q d (andthen m g)"
    and "(\<And>x. keeps q d (f' x)) \<Longrightarrow> keeps q d (andthen n f')"
    and "(\<And>x. keeps2 q d (g' x)) \<Longrightarrow> keeps2 q d (andthen n g')"
    and "(\<And>x. keeps q d (f'' x)) \<Longrightarrow> keeps q d (andthen k f'')"
    and "(\<And>x. keeps2 q d (g'' x)) \<Longrightarrow> keeps2 q d (andthen k g'')"
  by (simp_all add: keeps_read_any)

lemma keeps_if:
  "(b \<Longrightarrow> keeps p c m) \<Longrightarrow> (\<not> b \<Longrightarrow> keeps p c n) \<Longrightarrow> keeps p c (if b then m else n)"
  "(b \<Longrightarrow> keeps2 p c m') \<Longrightarrow> (\<not> b \<Longrightarrow> keeps2 p c n') \<Longrightarrow> keeps2 p c (if b then m' else n')"
  by auto

text \<open>For inductions over a loop, the rules that also remember what the first part returned.\<close>

lemma keeps_step:
  "keeps p c m \<Longrightarrow> (\<And>s. m = Ok s \<Longrightarrow> p s = c \<Longrightarrow> keeps q d (f s)) \<Longrightarrow> keeps q d (andthen m f)"
  "keeps p c m \<Longrightarrow> (\<And>s. m = Ok s \<Longrightarrow> p s = c \<Longrightarrow> keeps2 q d (g s)) \<Longrightarrow>
    keeps2 q d (andthen m g)"
  by (auto simp: keeps_def keeps2_def post_def andthen_eq_Ok)

lemma keeps_read_step:
  fixes m :: "zbyte res"
  shows "(\<And>x. m = Ok x \<Longrightarrow> keeps q d (f x)) \<Longrightarrow> keeps q d (andthen m f)"
    and "(\<And>x. m = Ok x \<Longrightarrow> keeps2 q d (g x)) \<Longrightarrow> keeps2 q d (andthen m g)"
  by (auto simp: keeps_def keeps2_def post_def andthen_eq_Ok)

lemmas keeps_intros = keeps_if keeps_andthen keeps_read

lemma keepsD: "keeps p c m \<Longrightarrow> m = Ok s \<Longrightarrow> p s = c"
  by (simp add: keeps_def)

lemma keeps2D: "keeps2 p c m \<Longrightarrow> m = Ok (x, s) \<Longrightarrow> p s = c"
  by (simp add: keeps2_def)

lemma keeps_weaken:
  "keeps p c m \<Longrightarrow> (\<And>s. p s = c \<Longrightarrow> q s = d) \<Longrightarrow> keeps q d m"
  "keeps2 p c m' \<Longrightarrow> (\<And>s. p s = c \<Longrightarrow> q s = d) \<Longrightarrow> keeps2 q d m'"
  by (auto simp: keeps_def keeps2_def elim!: post_mono)

named_theorems quiet_rules "operations that change nothing but the output"

subsection \<open>Bytes and words\<close>

text \<open>The macros \<open>hi\<close> and \<open>lo\<close>, and the big-endian composition used by \<open>LOW_WORD\<close>.\<close>

definition hi :: "zword \<Rightarrow> zbyte" where
  "hi v = ucast (drop_bit 8 v)"

definition lo :: "zword \<Rightarrow> zbyte" where
  "lo v = ucast (v AND 0xff)"

definition mk_word :: "zbyte \<Rightarrow> zbyte \<Rightarrow> zword" where
  "mk_word h l = push_bit 8 (ucast h) OR ucast l"

lemma bit_low_byte [simp]: "bit (255 :: int) n \<longleftrightarrow> n < 8"
proof -
  have "(255 :: int) = mask 8"
    by (simp add: mask_eq_exp_minus_1)
  then show ?thesis
    by (simp only: bit_mask_iff possible_bit_int) simp
qed

lemma mk_word_hi_lo [simp]: "mk_word (hi v) (lo v) = v"
  unfolding mk_word_def hi_def lo_def
  by (rule bit_word_eqI) (auto simp: bit_simps bit_ucast_iff not_less)

lemma hi_mk_word [simp]: "hi (mk_word h l) = h"
  unfolding mk_word_def hi_def
  by (rule bit_word_eqI) (auto simp: bit_simps bit_ucast_iff dest: bit_imp_le_length)

lemma lo_mk_word [simp]: "lo (mk_word h l) = l"
  unfolding mk_word_def lo_def
  by (rule bit_word_eqI) (auto simp: bit_simps bit_ucast_iff bit_low_byte)

text \<open>Words as numbers.\<close>

lemma uint_byte_bounds: "0 \<le> uint (b :: zbyte)" "uint (b :: zbyte) < 256"
  using uint_bounded [of b] by simp_all

lemma uint_word_bounds: "0 \<le> uint (w :: zword)" "uint (w :: zword) < 65536"
  using uint_bounded [of w] by simp_all

lemma uint_mk_word: "uint (mk_word h l) = uint h * 256 + uint l"
proof -
  have "push_bit 8 (uint h) + uint l = push_bit 8 (uint h) OR uint l"
    by (rule disjunctive_add_eq_or)
      (auto simp: bit_eq_iff bit_simps dest: bit_imp_le_length)
  moreover have "uint (mk_word h l) = push_bit 8 (uint h) OR uint l"
    unfolding mk_word_def
    by (rule bit_eqI) (auto simp: bit_simps dest: bit_imp_le_length)
  ultimately show ?thesis
    by (simp add: push_bit_eq_mult)
qed

lemma sint_zword: "sint (w :: zword) = (if uint w < 0x8000 then uint w else uint w - 0x10000)"
proof -
  have "sint w = (uint w + 0x8000) mod 0x10000 - 0x8000"
    by (simp add: sint_uint signed_take_bit_eq_take_bit_shift take_bit_eq_mod)
  moreover have "(x + 0x8000) mod 0x10000 - 0x8000 = (if x < 0x8000 then x else x - 0x10000)"
    if "0 \<le> x" "x < 0x10000" for x :: int
  proof (cases "x < 0x8000")
    case True
    with that show ?thesis by simp
  next
    case False
    have "(x + 0x8000) mod 0x10000 = ((x - 0x8000) + 0x10000) mod 0x10000"
      by (rule arg_cong [where f = "\<lambda>y. y mod 0x10000"]) simp
    also have "\<dots> = (x - 0x8000) mod 0x10000"
      by (rule mod_add_self2)
    finally show ?thesis
      using False that by simp
  qed
  ultimately show ?thesis
    using uint_word_bounds [of w] by simp
qed

lemma uint_ucast_byte [simp]: "uint (ucast (b :: zbyte) :: zword) = uint b"
proof -
  have "uint (ucast b :: zword) = take_bit 8 (uint b)"
    by (rule bit_eqI) (auto simp: bit_simps dest: bit_imp_le_length)
  also have "\<dots> = uint b"
    using uint_byte_bounds [of b] by (simp add: take_bit_int_eq_self)
  finally show ?thesis .
qed

end
