(* ===== verification/Machine.thy ===== *)
theory Machine
  imports Prelude
begin

text \<open>
  The state of the Z-machine interpreter of source/frotz-2.43d/src/common, gathered from the
  global variables of main.c, fastmem.c, process.c, random.c, buffer.c, redirect.c, err.c and
  files.c, and the data access macros of frotz.h. Memory and arrays are functions from indices
  with their bounds tested at each access; an access outside them is the \<open>Stop\<close> of that kind.
\<close>

subsection \<open>Constants of frotz.h\<close>

datatype story =
    BEYOND_ZORK | SHERLOCK | ZORK_ZERO | SHOGUN | ARTHUR | JOURNEY | LURKING_HORROR | UNKNOWN

abbreviation (input) "STACK_SIZE \<equiv> (1024 :: int)"
abbreviation (input) "TEXT_BUFFER_SIZE \<equiv> (200 :: int)"
abbreviation (input) "MAX_NESTING \<equiv> (16 :: int)"

abbreviation (input) "V1 \<equiv> (1 :: zbyte)"
abbreviation (input) "V2 \<equiv> (2 :: zbyte)"
abbreviation (input) "V3 \<equiv> (3 :: zbyte)"
abbreviation (input) "V4 \<equiv> (4 :: zbyte)"
abbreviation (input) "V5 \<equiv> (5 :: zbyte)"
abbreviation (input) "V6 \<equiv> (6 :: zbyte)"
abbreviation (input) "V7 \<equiv> (7 :: zbyte)"
abbreviation (input) "V8 \<equiv> (8 :: zbyte)"

abbreviation (input) "H_VERSION \<equiv> (0 :: int)"
abbreviation (input) "H_CONFIG \<equiv> (1 :: int)"
abbreviation (input) "H_RELEASE \<equiv> (2 :: int)"
abbreviation (input) "H_RESIDENT_SIZE \<equiv> (4 :: int)"
abbreviation (input) "H_START_PC \<equiv> (6 :: int)"
abbreviation (input) "H_DICTIONARY \<equiv> (8 :: int)"
abbreviation (input) "H_OBJECTS \<equiv> (10 :: int)"
abbreviation (input) "H_GLOBALS \<equiv> (12 :: int)"
abbreviation (input) "H_DYNAMIC_SIZE \<equiv> (14 :: int)"
abbreviation (input) "H_SERIAL \<equiv> (18 :: int)"
abbreviation (input) "H_ABBREVIATIONS \<equiv> (24 :: int)"
abbreviation (input) "H_FILE_SIZE \<equiv> (26 :: int)"
abbreviation (input) "H_CHECKSUM \<equiv> (28 :: int)"
abbreviation (input) "H_FUNCTIONS_OFFSET \<equiv> (40 :: int)"
abbreviation (input) "H_STRINGS_OFFSET \<equiv> (42 :: int)"
abbreviation (input) "H_TERMINATING_KEYS \<equiv> (46 :: int)"
abbreviation (input) "H_ALPHABET \<equiv> (52 :: int)"
abbreviation (input) "H_EXTENSION_TABLE \<equiv> (54 :: int)"
abbreviation (input) "H_FLAGS \<equiv> (16 :: int)"
abbreviation (input) "H_INTERPRETER_NUMBER \<equiv> (30 :: int)"
abbreviation (input) "H_INTERPRETER_VERSION \<equiv> (31 :: int)"
abbreviation (input) "H_SCREEN_ROWS \<equiv> (32 :: int)"
abbreviation (input) "H_SCREEN_COLS \<equiv> (33 :: int)"
abbreviation (input) "H_SCREEN_WIDTH \<equiv> (34 :: int)"
abbreviation (input) "H_SCREEN_HEIGHT \<equiv> (36 :: int)"
abbreviation (input) "H_FONT_HEIGHT \<equiv> (38 :: int)"
abbreviation (input) "H_FONT_WIDTH \<equiv> (39 :: int)"
abbreviation (input) "H_DEFAULT_BACKGROUND \<equiv> (44 :: int)"
abbreviation (input) "H_DEFAULT_FOREGROUND \<equiv> (45 :: int)"
abbreviation (input) "H_LINE_WIDTH \<equiv> (48 :: int)"
abbreviation (input) "H_STANDARD_HIGH \<equiv> (50 :: int)"
abbreviation (input) "H_STANDARD_LOW \<equiv> (51 :: int)"
abbreviation (input) "H_USER_NAME \<equiv> (56 :: int)"

abbreviation (input) "SCRIPTING_FLAG \<equiv> (0x0001 :: zword)"
abbreviation (input) "FIXED_FONT_FLAG \<equiv> (0x0002 :: zword)"
abbreviation (input) "GRAPHICS_FLAG \<equiv> (0x0008 :: zword)"
abbreviation (input) "CONFIG_BYTE_SWAPPED \<equiv> (0x01 :: zbyte)"

abbreviation (input) "FIXED_WIDTH_STYLE \<equiv> (8 :: zword)"

abbreviation (input) "ZC_NEW_STYLE \<equiv> (0x01 :: zchar)"
abbreviation (input) "ZC_NEW_FONT \<equiv> (0x02 :: zchar)"
abbreviation (input) "ZC_INDENT \<equiv> (0x09 :: zchar)"
abbreviation (input) "ZC_GAP \<equiv> (0x0b :: zchar)"
abbreviation (input) "ZC_RETURN \<equiv> (0x0d :: zchar)"
abbreviation (input) "ZC_SINGLE_CLICK \<equiv> (0x9b :: zchar)"
abbreviation (input) "ZC_DOUBLE_CLICK \<equiv> (0x9c :: zchar)"
abbreviation (input) "ZC_MENU_CLICK \<equiv> (0x9d :: zchar)"
abbreviation (input) "ZC_LATIN1_MIN \<equiv> (0xa0 :: zchar)"

text \<open>The character constants \<open>' '\<close>, \<open>'-'\<close>, \<open>'?'\<close>, \<open>'0'\<close> of the source.\<close>

abbreviation (input) "CH_SPACE \<equiv> (0x20 :: zchar)"
abbreviation (input) "CH_MINUS \<equiv> (0x2d :: zchar)"
abbreviation (input) "CH_QUERY \<equiv> (0x3f :: zchar)"
abbreviation (input) "CH_NEWLINE \<equiv> (0x0a :: zchar)"

text \<open>Error numbers.\<close>

abbreviation (input) "ERR_TEXT_BUF_OVF \<equiv> (1 :: int)"
abbreviation (input) "ERR_STORE_RANGE \<equiv> (2 :: int)"
abbreviation (input) "ERR_DIV_ZERO \<equiv> (3 :: int)"
abbreviation (input) "ERR_ILL_OBJ \<equiv> (4 :: int)"
abbreviation (input) "ERR_ILL_ATTR \<equiv> (5 :: int)"
abbreviation (input) "ERR_NO_PROP \<equiv> (6 :: int)"
abbreviation (input) "ERR_STK_OVF \<equiv> (7 :: int)"
abbreviation (input) "ERR_ILL_CALL_ADDR \<equiv> (8 :: int)"
abbreviation (input) "ERR_CALL_NON_RTN \<equiv> (9 :: int)"
abbreviation (input) "ERR_STK_UNDF \<equiv> (10 :: int)"
abbreviation (input) "ERR_ILL_OPCODE \<equiv> (11 :: int)"
abbreviation (input) "ERR_BAD_FRAME \<equiv> (12 :: int)"
abbreviation (input) "ERR_ILL_JUMP_ADDR \<equiv> (13 :: int)"
abbreviation (input) "ERR_SAVE_IN_INTER \<equiv> (14 :: int)"
abbreviation (input) "ERR_STR3_NESTING \<equiv> (15 :: int)"
abbreviation (input) "ERR_ILL_WIN \<equiv> (16 :: int)"
abbreviation (input) "ERR_ILL_WIN_PROP \<equiv> (17 :: int)"
abbreviation (input) "ERR_ILL_PRINT_ADDR \<equiv> (18 :: int)"
abbreviation (input) "ERR_MAX_FATAL \<equiv> (18 :: int)"
abbreviation (input) "ERR_JIN_0 \<equiv> (19 :: int)"
abbreviation (input) "ERR_GET_CHILD_0 \<equiv> (20 :: int)"
abbreviation (input) "ERR_GET_PARENT_0 \<equiv> (21 :: int)"
abbreviation (input) "ERR_GET_SIBLING_0 \<equiv> (22 :: int)"
abbreviation (input) "ERR_GET_PROP_ADDR_0 \<equiv> (23 :: int)"
abbreviation (input) "ERR_GET_PROP_0 \<equiv> (24 :: int)"
abbreviation (input) "ERR_PUT_PROP_0 \<equiv> (25 :: int)"
abbreviation (input) "ERR_CLEAR_ATTR_0 \<equiv> (26 :: int)"
abbreviation (input) "ERR_SET_ATTR_0 \<equiv> (27 :: int)"
abbreviation (input) "ERR_TEST_ATTR_0 \<equiv> (28 :: int)"
abbreviation (input) "ERR_MOVE_OBJECT_0 \<equiv> (29 :: int)"
abbreviation (input) "ERR_MOVE_OBJECT_TO_0 \<equiv> (30 :: int)"
abbreviation (input) "ERR_REMOVE_OBJECT_0 \<equiv> (31 :: int)"
abbreviation (input) "ERR_GET_NEXT_PROP_0 \<equiv> (32 :: int)"
abbreviation (input) "ERR_NUM_ERRORS \<equiv> (32 :: int)"

abbreviation (input) "ERR_REPORT_NEVER \<equiv> (0 :: int)"
abbreviation (input) "ERR_REPORT_ONCE \<equiv> (1 :: int)"
abbreviation (input) "ERR_REPORT_ALWAYS \<equiv> (2 :: int)"
abbreviation (input) "ERR_REPORT_FATAL \<equiv> (3 :: int)"

subsection \<open>The global variables\<close>

text \<open>The header fields cached by \<open>init_memory\<close> (frotz.h, "Story file header data").\<close>

record header =
  h_version :: zbyte
  h_config :: zbyte
  h_release :: zword
  h_resident_size :: zword
  h_start_pc :: zword
  h_dictionary :: zword
  h_objects :: zword
  h_globals :: zword
  h_dynamic_size :: zword
  h_flags :: zword
  h_serial :: "int \<Rightarrow> zbyte"
  h_abbreviations :: zword
  h_file_size :: zword
  h_checksum :: zword
  h_interpreter_number :: zbyte
  h_interpreter_version :: zbyte
  h_screen_rows :: zbyte
  h_screen_cols :: zbyte
  h_screen_width :: zword
  h_screen_height :: zword
  h_font_height :: zbyte
  h_font_width :: zbyte
  h_functions_offset :: zword
  h_strings_offset :: zword
  h_default_background :: zbyte
  h_default_foreground :: zbyte
  h_terminating_keys :: zword
  h_line_width :: zword
  h_standard_high :: zbyte
  h_standard_low :: zbyte
  h_alphabet :: zword
  h_extension_table :: zword
  h_user_name :: "int \<Rightarrow> zbyte"
  hx_table_size :: zword
  hx_unicode_table :: zword

text \<open>The user options of setup.h that the modelled code reads.\<close>

record f_setup_t =
  attribute_assignment :: bool
  attribute_testing :: bool
  object_locating :: bool
  object_movement :: bool
  ignore_errors :: bool
  piracy :: bool
  undo_slots :: int
  expand_abbreviations :: bool
  script_cols :: int
  save_quetzal :: bool
  err_report_mode :: int
  context_lines :: int
  left_margin :: int
  right_margin :: int

text \<open>An entry of \<open>redirect[]\<close> (redirect.c).\<close>

record redir =
  xsize :: zword
  table :: zword
  width :: zword
  total :: zword

text \<open>
  Calls that leave the modelled code, to the front end (\<open>os_*\<close>) and to the transcript file, and the
  three calls from stream.c to screen.c that print. The log keeps them in order with their arguments.
  \<open>Newline_interrupt\<close> is the call of a newline routine, which screen.c makes while it prints.
\<close>

datatype io_event =
    Screen_char zchar
  | Screen_word "zchar list"
  | Screen_new_line
  | Set_text_style zword
  | Os_set_font int
  | Os_set_colour int int
  | Os_set_cursor int int
  | Os_display_char zchar
  | Os_display_string "zchar list"
  | Os_scroll_area int int int int int
  | Os_erase_area int int int int
  | Os_draw_picture int int int
  | Os_more_prompt
  | Os_read_line int zword int bool
  | Os_read_key zword bool
  | Newline_interrupt zword
  | Os_beep int
  | Os_prepare_sample int
  | Os_start_sample int int int zword
  | Os_stop_sample
  | Os_finish_with_sample
  | Script_putc zchar
  | Script_seek int
  | Script_closed
  | Restart_game int

text \<open>
  Output state: the text buffer of buffer.c with \<open>bufpos\<close>, \<open>prev_c\<close> and the static flags of
  \<open>print_char\<close> (\<open>pc_flag\<close>) and \<open>flush_buffer\<close> (\<open>locked\<close>), the stream switches of main.c, the
  redirection stack of redirect.c, the transcript variables of files.c, the error counters of
  err.c, and the log of calls that leave the modelled code.
\<close>

record outstate =
  tbuf :: "int \<Rightarrow> zchar"
  bufpos :: int
  prev_c :: zchar
  pc_flag :: bool
  locked :: bool
  message :: bool
  ostream_screen :: bool
  ostream_script :: bool
  ostream_memory :: bool
  ostream_record :: bool
  istream_replay :: bool
  enable_scripting :: bool
  enable_buffering :: bool
  depth :: int
  redirect :: "int \<Rightarrow> redir"
  script_width :: int
  script_valid :: bool
  error_count :: "int \<Rightarrow> int"
  io_log :: "io_event list"

text \<open>The random number generator of random.c; \<open>long\<close> is 32 bits wide on the ARM target.\<close>

record rng =
  rA :: "32 word"
  interval :: int
  counter :: int

text \<open>
  An undo block (fastmem.c, \<open>struct undo_struct\<close>) with the diff and the stack words that follow
  it in memory.
\<close>

record undo_t =
  u_pc :: int
  u_diff :: "zbyte list"
  u_frame_count :: zword
  u_stack :: "zword list"
  u_frame_offset :: zword

text \<open>
  The doubly linked list \<open>first_undo\<close> .. \<open>last_undo\<close> is the list \<open>undo_list\<close>, oldest first;
  \<open>curr_undo\<close> is the position of the current block in it, -1 for \<open>NULL\<close>. \<open>undo_count\<close> is a
  variable of its own, as in the source; \<open>undo_mem\<close> says whether that pointer is set.
\<close>

record undostate =
  undo_list :: "undo_t list"
  curr_undo :: int
  undo_count :: int
  undo_mem :: bool
  prev_zmp :: "int \<Rightarrow> zbyte"

text \<open>
  Files and input devices. \<open>disk\<close> is the contents of the files by name. What the \<open>k\<close>-th call to the
  outside puts into a name or a line of input is \<open>os_name k\<close> and \<open>os_text k\<close>. \<open>save_name\<close>,
  \<open>auxilary_name\<close> and \<open>command_name\<close> are the variables of fastmem.c and files.c, \<open>rec_name\<close> is the
  name of the file behind \<open>rfp\<close>, \<open>pfp\<close> the command file that is played back, and the mouse position
  is kept twice, as in main.c. \<open>names_story\<close> are the names under which the system finds the story file:
  nothing keeps the player from giving one of them for a file that is written.
\<close>

record cfile =
  f_bytes :: "zbyte list"
  f_pos :: nat

record device =
  disk :: "string \<Rightarrow> zbyte list option"
  names_story :: "string \<Rightarrow> bool"
  os_name :: "nat \<Rightarrow> string"
  os_text :: "nat \<Rightarrow> zchar list"
  save_name :: string
  auxilary_name :: string
  command_name :: string
  rec_name :: string
  pfp :: cfile
  mouse_x :: int
  mouse_y :: int
  hx_mouse_x :: zword
  hx_mouse_y :: zword

text \<open>
  The windows of screen.c, their properties in the order of the struct, and the variables of screen.c
  and main.c that belong to them. \<open>cwp\<close> is the index of the window that the pointer \<open>cwp\<close> points to.
\<close>

record window =
  y_pos :: zword
  x_pos :: zword
  y_size :: zword
  x_size :: zword
  y_cursor :: zword
  x_cursor :: zword
  w_left :: zword
  w_right :: zword
  nl_routine :: zword
  nl_countdown :: zword
  w_style :: zword
  w_colour :: zword
  w_font :: zword
  w_font_size :: zword
  w_attribute :: zword
  line_count :: zword

record screen =
  wp :: "int \<Rightarrow> window"
  cwp :: int
  cwin :: int
  mwin :: int
  font_height :: int
  font_width :: int
  input_redraw :: bool
  more_prompts :: bool
  discarding :: bool
  cursor_on :: bool
  input_window :: int
  enable_wrapping :: bool
  enable_scrolling :: bool

text \<open>The variables of sound.c.\<close>

record sound =
  snd_routine :: zword
  next_sample :: int
  next_volume :: int
  snd_locked :: bool
  playing :: bool

text \<open>
  The whole state. \<open>decoded\<close> (10 characters) and \<open>encoded\<close> (3 words) are the static arrays of
  text.c. \<open>pcp\<close> is the offset \<open>pcp - zmp\<close>, \<open>sp\<close> and \<open>fp\<close> are offsets into \<open>stack\<close>.
  \<open>story_file\<close> is what \<open>story_fp\<close> reads, \<open>story_len\<close> bytes. \<open>os_answer k\<close> is what the \<open>k\<close>-th call to code
  outside the modelled part returns (\<open>os_random_seed\<close>, \<open>os_read_file_name\<close>, \<open>fopen\<close>,
  \<open>fputc\<close>, \<open>os_string_width\<close>, \<open>malloc\<close>, ...), and \<open>clock\<close> counts these calls.
\<close>

record zstate =
  zmp :: "int \<Rightarrow> zbyte"
  story_size :: int
  story_file :: "int \<Rightarrow> zbyte"
  story_len :: int
  pcp :: int
  stack :: "int \<Rightarrow> zword"
  sp :: int
  fp :: int
  frame_count :: zword
  zargs :: "int \<Rightarrow> zword"
  zargc :: int
  finished :: int
  first_restart :: bool
  story_id :: story
  hdr :: header
  f_setup :: f_setup_t
  rnd :: rng
  out :: outstate
  undo :: undostate
  decoded :: "int \<Rightarrow> zchar"
  encoded :: "int \<Rightarrow> zword"
  dev :: device
  scr :: screen
  sfx :: sound
  os_answer :: "nat \<Rightarrow> int"
  clock :: nat

abbreviation version :: "zstate \<Rightarrow> zbyte" where
  "version s \<equiv> h_version (hdr s)"

definition upd_out :: "(outstate \<Rightarrow> outstate) \<Rightarrow> zstate \<Rightarrow> zstate" where
  "upd_out f s = s\<lparr>out := f (out s)\<rparr>"

definition upd_hdr :: "(header \<Rightarrow> header) \<Rightarrow> zstate \<Rightarrow> zstate" where
  "upd_hdr f s = s\<lparr>hdr := f (hdr s)\<rparr>"

definition upd_dev :: "(device \<Rightarrow> device) \<Rightarrow> zstate \<Rightarrow> zstate" where
  "upd_dev f s = s\<lparr>dev := f (dev s)\<rparr>"

definition upd_scr :: "(screen \<Rightarrow> screen) \<Rightarrow> zstate \<Rightarrow> zstate" where
  "upd_scr f s = s\<lparr>scr := f (scr s)\<rparr>"

lemma upd_out_sel [simp]:
  "out (upd_out f s) = f (out s)"
  "zmp (upd_out f s) = zmp s"
  "story_size (upd_out f s) = story_size s"
  "story_file (upd_out f s) = story_file s"
  "story_len (upd_out f s) = story_len s"
  "pcp (upd_out f s) = pcp s"
  "stack (upd_out f s) = stack s"
  "sp (upd_out f s) = sp s"
  "fp (upd_out f s) = fp s"
  "frame_count (upd_out f s) = frame_count s"
  "zargs (upd_out f s) = zargs s"
  "zargc (upd_out f s) = zargc s"
  "finished (upd_out f s) = finished s"
  "first_restart (upd_out f s) = first_restart s"
  "story_id (upd_out f s) = story_id s"
  "f_setup (upd_out f s) = f_setup s"
  "rnd (upd_out f s) = rnd s"
  "undo (upd_out f s) = undo s"
  "decoded (upd_out f s) = decoded s"
  "encoded (upd_out f s) = encoded s"
  "dev (upd_out f s) = dev s"
  "scr (upd_out f s) = scr s"
  "os_answer (upd_out f s) = os_answer s"
  "hdr (upd_out f s) = hdr s"
  "clock (upd_out f s) = clock s"
  by (simp_all add: upd_out_def)

lemma upd_hdr_sel [simp]:
  "hdr (upd_hdr g s) = g (hdr s)"
  "zmp (upd_hdr g s) = zmp s"
  "story_size (upd_hdr g s) = story_size s"
  "story_file (upd_hdr g s) = story_file s"
  "story_len (upd_hdr g s) = story_len s"
  "pcp (upd_hdr g s) = pcp s"
  "stack (upd_hdr g s) = stack s"
  "sp (upd_hdr g s) = sp s"
  "fp (upd_hdr g s) = fp s"
  "frame_count (upd_hdr g s) = frame_count s"
  "zargs (upd_hdr g s) = zargs s"
  "zargc (upd_hdr g s) = zargc s"
  "finished (upd_hdr g s) = finished s"
  "first_restart (upd_hdr g s) = first_restart s"
  "story_id (upd_hdr g s) = story_id s"
  "f_setup (upd_hdr g s) = f_setup s"
  "rnd (upd_hdr g s) = rnd s"
  "undo (upd_hdr g s) = undo s"
  "decoded (upd_hdr g s) = decoded s"
  "encoded (upd_hdr g s) = encoded s"
  "dev (upd_hdr g s) = dev s"
  "scr (upd_hdr g s) = scr s"
  "os_answer (upd_hdr g s) = os_answer s"
  "out (upd_hdr g s) = out s"
  "clock (upd_hdr g s) = clock s"
  by (simp_all add: upd_hdr_def)

lemma upd_dev_sel [simp]:
  "dev (upd_dev d s) = d (dev s)"
  "scr (upd_dev d s) = scr s"
  "zmp (upd_dev d s) = zmp s"
  "story_size (upd_dev d s) = story_size s"
  "story_file (upd_dev d s) = story_file s"
  "story_len (upd_dev d s) = story_len s"
  "pcp (upd_dev d s) = pcp s"
  "stack (upd_dev d s) = stack s"
  "sp (upd_dev d s) = sp s"
  "fp (upd_dev d s) = fp s"
  "frame_count (upd_dev d s) = frame_count s"
  "zargs (upd_dev d s) = zargs s"
  "zargc (upd_dev d s) = zargc s"
  "finished (upd_dev d s) = finished s"
  "story_id (upd_dev d s) = story_id s"
  "f_setup (upd_dev d s) = f_setup s"
  "rnd (upd_dev d s) = rnd s"
  "undo (upd_dev d s) = undo s"
  "decoded (upd_dev d s) = decoded s"
  "encoded (upd_dev d s) = encoded s"
  "os_answer (upd_dev d s) = os_answer s"
  "hdr (upd_dev d s) = hdr s"
  "out (upd_dev d s) = out s"
  "clock (upd_dev d s) = clock s"
  by (simp_all add: upd_dev_def)

lemma upd_scr_sel [simp]:
  "dev (upd_scr c s) = dev s"
  "scr (upd_scr c s) = c (scr s)"
  "zmp (upd_scr c s) = zmp s"
  "story_size (upd_scr c s) = story_size s"
  "story_file (upd_scr c s) = story_file s"
  "story_len (upd_scr c s) = story_len s"
  "pcp (upd_scr c s) = pcp s"
  "stack (upd_scr c s) = stack s"
  "sp (upd_scr c s) = sp s"
  "fp (upd_scr c s) = fp s"
  "frame_count (upd_scr c s) = frame_count s"
  "zargs (upd_scr c s) = zargs s"
  "zargc (upd_scr c s) = zargc s"
  "first_restart (upd_scr c s) = first_restart s"
  "finished (upd_scr c s) = finished s"
  "story_id (upd_scr c s) = story_id s"
  "f_setup (upd_scr c s) = f_setup s"
  "rnd (upd_scr c s) = rnd s"
  "undo (upd_scr c s) = undo s"
  "decoded (upd_scr c s) = decoded s"
  "encoded (upd_scr c s) = encoded s"
  "os_answer (upd_scr c s) = os_answer s"
  "hdr (upd_scr c s) = hdr s"
  "out (upd_scr c s) = out s"
  "clock (upd_scr c s) = clock s"
  by (simp_all add: upd_scr_def)

text \<open>A call to the outside: its answer, and the clock moved on.\<close>

definition ask :: "zstate \<Rightarrow> int \<times> zstate" where
  "ask s = (os_answer s (clock s), s\<lparr>clock := Suc (clock s)\<rparr>)"

definition log_event :: "io_event \<Rightarrow> zstate \<Rightarrow> zstate" where
  "log_event e = upd_out (\<lambda>t. t\<lparr>io_log := io_log t @ [e]\<rparr>)"

subsection \<open>Data access macros\<close>

text \<open>\<open>LOW_BYTE\<close>, \<open>SET_BYTE\<close>, \<open>LOW_WORD\<close> (and \<open>HIGH_WORD\<close>), \<open>SET_WORD\<close>.\<close>

definition low_byte :: "int \<Rightarrow> zstate \<Rightarrow> zbyte res" where
  "low_byte a s = (if 0 \<le> a \<and> a < story_size s then Ok (zmp s a) else Stop (Bad_memory a))"

definition set_byte :: "int \<Rightarrow> zbyte \<Rightarrow> zstate \<Rightarrow> zstate res" where
  "set_byte a v s =
     (if 0 \<le> a \<and> a < story_size s then Ok (s\<lparr>zmp := (zmp s)(a := v)\<rparr>)
      else Stop (Bad_memory a))"

definition low_word :: "int \<Rightarrow> zstate \<Rightarrow> zword res" where
  "low_word a s =
     andthen (low_byte a s) (\<lambda>h. andthen (low_byte (a + 1) s) (\<lambda>l. Ok (mk_word h l)))"

definition set_word :: "int \<Rightarrow> zword \<Rightarrow> zstate \<Rightarrow> zstate res" where
  "set_word a v s = andthen (set_byte a (hi v) s) (set_byte (a + 1) (lo v))"

text \<open>\<open>CODE_BYTE\<close> and \<open>CODE_WORD\<close> read at the program counter and move it on.\<close>

definition code_byte :: "zstate \<Rightarrow> (zbyte \<times> zstate) res" where
  "code_byte s = andthen (low_byte (pcp s) s) (\<lambda>v. Ok (v, s\<lparr>pcp := pcp s + 1\<rparr>))"

definition code_word :: "zstate \<Rightarrow> (zword \<times> zstate) res" where
  "code_word s = andthen (low_word (pcp s) s) (\<lambda>v. Ok (v, s\<lparr>pcp := pcp s + 2\<rparr>))"

subsection \<open>The game stack\<close>

text \<open>\<open>*p\<close>, \<open>*p = v\<close>, \<open>*--sp = v\<close> and \<open>*sp++\<close> on the array \<open>stack\<close>.\<close>

definition stack_get :: "int \<Rightarrow> zstate \<Rightarrow> zword res" where
  "stack_get p s = (if 0 \<le> p \<and> p < STACK_SIZE then Ok (stack s p) else Stop (Bad_stack p))"

definition stack_set :: "int \<Rightarrow> zword \<Rightarrow> zstate \<Rightarrow> zstate res" where
  "stack_set p v s =
     (if 0 \<le> p \<and> p < STACK_SIZE then Ok (s\<lparr>stack := (stack s)(p := v)\<rparr>)
      else Stop (Bad_stack p))"

definition push :: "zword \<Rightarrow> zstate \<Rightarrow> zstate res" where
  "push v s = stack_set (sp s - 1) v (s\<lparr>sp := sp s - 1\<rparr>)"

definition pop :: "zstate \<Rightarrow> (zword \<times> zstate) res" where
  "pop s = andthen (stack_get (sp s) s) (\<lambda>v. Ok (v, s\<lparr>sp := sp s + 1\<rparr>))"

subsection \<open>Accesses that stay in bounds\<close>

text \<open>The memory cell \<open>a\<close> exists.\<close>

definition in_mem :: "int \<Rightarrow> zstate \<Rightarrow> bool" where
  "in_mem a s \<longleftrightarrow> 0 \<le> a \<and> a < story_size s"

lemma low_byte_Ok [simp]: "in_mem a s \<Longrightarrow> low_byte a s = Ok (zmp s a)"
  by (simp add: low_byte_def in_mem_def)

lemma set_byte_Ok [simp]: "in_mem a s \<Longrightarrow> set_byte a v s = Ok (s\<lparr>zmp := (zmp s)(a := v)\<rparr>)"
  by (simp add: set_byte_def in_mem_def)

lemma in_mem_frame [simp]:
  "in_mem a (s\<lparr>zmp := m\<rparr>) = in_mem a s"
  "in_mem a (s\<lparr>pcp := p\<rparr>) = in_mem a s"
  "in_mem a (s\<lparr>stack := k\<rparr>) = in_mem a s"
  "in_mem a (s\<lparr>sp := p\<rparr>) = in_mem a s"
  "in_mem a (s\<lparr>fp := p\<rparr>) = in_mem a s"
  "in_mem a (s\<lparr>frame_count := c\<rparr>) = in_mem a s"
  "in_mem a (s\<lparr>zargs := g\<rparr>) = in_mem a s"
  "in_mem a (s\<lparr>zargc := p\<rparr>) = in_mem a s"
  "in_mem a (s\<lparr>finished := p\<rparr>) = in_mem a s"
  "in_mem a (s\<lparr>rnd := r\<rparr>) = in_mem a s"
  "in_mem a (s\<lparr>undo := u\<rparr>) = in_mem a s"
  "in_mem a (s\<lparr>clock := n\<rparr>) = in_mem a s"
  "in_mem a (s\<lparr>decoded := d\<rparr>) = in_mem a s"
  "in_mem a (s\<lparr>encoded := e\<rparr>) = in_mem a s"
  "in_mem a (upd_out f s) = in_mem a s"
  "in_mem a (upd_hdr h s) = in_mem a s"
  "in_mem a (upd_dev w s) = in_mem a s"
  "in_mem a (upd_scr q s) = in_mem a s"
  by (simp_all add: in_mem_def)

lemma low_word_Ok [simp]:
  "in_mem a s \<Longrightarrow> in_mem (a + 1) s \<Longrightarrow> low_word a s = Ok (mk_word (zmp s a) (zmp s (a + 1)))"
  by (simp add: low_word_def)

lemma set_word_Ok [simp]:
  "in_mem a s \<Longrightarrow> in_mem (a + 1) s \<Longrightarrow>
    set_word a v s = Ok (s\<lparr>zmp := (zmp s)(a := hi v, a + 1 := lo v)\<rparr>)"
  by (simp add: set_word_def)

lemma low_byte_eq_Ok: "low_byte a s = Ok v \<longleftrightarrow> in_mem a s \<and> v = zmp s a"
  by (auto simp: low_byte_def in_mem_def)

lemma set_byte_eq_Ok:
  "set_byte a v s = Ok s' \<longleftrightarrow> in_mem a s \<and> s' = s\<lparr>zmp := (zmp s)(a := v)\<rparr>"
  by (auto simp: set_byte_def in_mem_def)

lemma low_word_eq_Ok:
  "low_word a s = Ok v \<longleftrightarrow>
    in_mem a s \<and> in_mem (a + 1) s \<and> v = mk_word (zmp s a) (zmp s (a + 1))"
  by (auto simp: low_word_def andthen_eq_Ok low_byte_eq_Ok)

lemma set_word_eq_Ok:
  "set_word a v s = Ok s' \<longleftrightarrow>
    in_mem a s \<and> in_mem (a + 1) s \<and> s' = s\<lparr>zmp := (zmp s)(a := hi v, a + 1 := lo v)\<rparr>"
  by (auto simp: set_word_def andthen_eq_Ok set_byte_eq_Ok)

lemma post_low_byte [simp]: "post (low_byte a s) P \<longleftrightarrow> (in_mem a s \<longrightarrow> P (zmp s a))"
  by (auto simp: post_def low_byte_eq_Ok)

lemma post_low_word [simp]:
  "post (low_word a s) P \<longleftrightarrow>
    (in_mem a s \<and> in_mem (a + 1) s \<longrightarrow> P (mk_word (zmp s a) (zmp s (a + 1))))"
  by (auto simp: post_def low_word_eq_Ok)

lemma post_set_byte [simp]:
  "post (set_byte a v s) P \<longleftrightarrow> (in_mem a s \<longrightarrow> P (s\<lparr>zmp := (zmp s)(a := v)\<rparr>))"
  by (auto simp: post_def set_byte_eq_Ok)

lemma post_set_word [simp]:
  "post (set_word a v s) P \<longleftrightarrow>
    (in_mem a s \<and> in_mem (a + 1) s \<longrightarrow> P (s\<lparr>zmp := (zmp s)(a := hi v, a + 1 := lo v)\<rparr>))"
  by (auto simp: post_def set_word_eq_Ok)

lemma code_byte_Ok [simp]:
  "in_mem (pcp s) s \<Longrightarrow> code_byte s = Ok (zmp s (pcp s), s\<lparr>pcp := pcp s + 1\<rparr>)"
  by (simp add: code_byte_def)

lemma code_word_Ok [simp]:
  "in_mem (pcp s) s \<Longrightarrow> in_mem (pcp s + 1) s \<Longrightarrow>
    code_word s = Ok (mk_word (zmp s (pcp s)) (zmp s (pcp s + 1)), s\<lparr>pcp := pcp s + 2\<rparr>)"
  by (simp add: code_word_def)

lemma post_code_byte [simp]:
  "post (code_byte s) P \<longleftrightarrow> (in_mem (pcp s) s \<longrightarrow> P (zmp s (pcp s), s\<lparr>pcp := pcp s + 1\<rparr>))"
  by (simp add: code_byte_def)

lemma post_code_word [simp]:
  "post (code_word s) P \<longleftrightarrow>
    (in_mem (pcp s) s \<and> in_mem (pcp s + 1) s \<longrightarrow>
      P (mk_word (zmp s (pcp s)) (zmp s (pcp s + 1)), s\<lparr>pcp := pcp s + 2\<rparr>))"
  by (simp add: code_word_def)

text \<open>Stack cells.\<close>

definition in_stack :: "int \<Rightarrow> bool" where
  "in_stack p \<longleftrightarrow> 0 \<le> p \<and> p < STACK_SIZE"

lemma stack_get_Ok [simp]: "in_stack p \<Longrightarrow> stack_get p s = Ok (stack s p)"
  by (simp add: stack_get_def in_stack_def)

lemma stack_set_Ok [simp]:
  "in_stack p \<Longrightarrow> stack_set p v s = Ok (s\<lparr>stack := (stack s)(p := v)\<rparr>)"
  by (simp add: stack_set_def in_stack_def)

lemma push_Ok [simp]:
  "in_stack (sp s - 1) \<Longrightarrow>
    push v s = Ok (s\<lparr>sp := sp s - 1, stack := (stack s)(sp s - 1 := v)\<rparr>)"
  by (simp add: push_def)

lemma pop_Ok [simp]: "in_stack (sp s) \<Longrightarrow> pop s = Ok (stack s (sp s), s\<lparr>sp := sp s + 1\<rparr>)"
  by (simp add: pop_def)

lemma post_stack_get [simp]: "post (stack_get p s) P \<longleftrightarrow> (in_stack p \<longrightarrow> P (stack s p))"
  by (simp add: stack_get_def in_stack_def)

lemma post_stack_set [simp]:
  "post (stack_set p v s) P \<longleftrightarrow> (in_stack p \<longrightarrow> P (s\<lparr>stack := (stack s)(p := v)\<rparr>))"
  by (simp add: stack_set_def in_stack_def)

lemma post_push [simp]:
  "post (push v s) P \<longleftrightarrow>
    (in_stack (sp s - 1) \<longrightarrow> P (s\<lparr>sp := sp s - 1, stack := (stack s)(sp s - 1 := v)\<rparr>))"
  by (simp add: push_def)

lemma post_pop [simp]:
  "post (pop s) P \<longleftrightarrow> (in_stack (sp s) \<longrightarrow> P (stack s (sp s), s\<lparr>sp := sp s + 1\<rparr>))"
  by (simp add: pop_def)

end
