(* ===== verification/Zscii.thy ===== *)
theory Zscii
  imports Machine
begin

text \<open>
  Character translation between ZSCII and ISO Latin-1: \<open>translate_from_zscii\<close> and
  \<open>translate_to_zscii\<close> of text.c, with the game's own Unicode table when the header extension
  names one. When the two are inverse to each other is shown in \<open>Zscii_Correct\<close>.
\<close>

definition zscii_to_latin1 :: "zchar list" where
  "zscii_to_latin1 =
    [0xe4, 0xf6, 0xfc, 0xc4, 0xd6, 0xdc, 0xdf, 0xbb,
     0xab, 0xeb, 0xef, 0xff, 0xcb, 0xcf, 0xe1, 0xe9,
     0xed, 0xf3, 0xfa, 0xfd, 0xc1, 0xc9, 0xcd, 0xd3,
     0xda, 0xdd, 0xe0, 0xe8, 0xec, 0xf2, 0xf9, 0xc0,
     0xc8, 0xcc, 0xd2, 0xd9, 0xe2, 0xea, 0xee, 0xf4,
     0xfb, 0xc2, 0xca, 0xce, 0xd4, 0xdb, 0xe5, 0xc5,
     0xf8, 0xd8, 0xe3, 0xf1, 0xf5, 0xc3, 0xd1, 0xd5,
     0xe6, 0xc6, 0xe7, 0xc7, 0xfe, 0xf0, 0xde, 0xd0,
     0xa3, 0x00, 0x00, 0xa1, 0xbf]"

definition translate_from_zscii :: "zbyte \<Rightarrow> zstate \<Rightarrow> zchar res" where
  "translate_from_zscii c s =
     (if c = 0xfc then Ok ZC_MENU_CLICK
      else if c = 0xfd then Ok ZC_DOUBLE_CLICK
      else if c = 0xfe then Ok ZC_SINGLE_CLICK
      else if 0x9b \<le> c \<and> story_id s \<noteq> BEYOND_ZORK then
        (if hx_unicode_table (hdr s) \<noteq> 0 then
           andthen (low_byte (uint (hx_unicode_table (hdr s))) s) (\<lambda>n.
             if uint c - 0x9b < uint n then
               (let addr = hx_unicode_table (hdr s) + 1 + 2 * word_of_int (uint c - 0x9b) in
                andthen (low_word (uint addr) s) (\<lambda>unicode.
                  Ok (if unicode < 0x100 then ucast unicode else CH_QUERY)))
             else Ok CH_QUERY)
         else if c \<le> 0xdf then
           (if c = 0xdc \<or> c = 0xdd then Ok CH_QUERY
            else Ok (zscii_to_latin1 ! (unat c - 0x9b)))
         else Ok CH_QUERY)
      else Ok c)"

text \<open>The two search loops of \<open>translate_to_zscii\<close>, over the codes still to be tried.\<close>

fun unicode_search :: "zchar \<Rightarrow> int list \<Rightarrow> zstate \<Rightarrow> zbyte res" where
  "unicode_search c [] s = Ok CH_QUERY"
| "unicode_search c (i # is) s =
     (let addr = hx_unicode_table (hdr s) + 1 + 2 * word_of_int (i - 0x9b) in
      andthen (low_word (uint addr) s) (\<lambda>unicode.
        if ucast c = unicode then Ok (word_of_int i) else unicode_search c is s))"

fun latin1_search :: "zchar \<Rightarrow> nat list \<Rightarrow> zbyte" where
  "latin1_search c [] = CH_QUERY"
| "latin1_search c (i # is) =
     (if c = zscii_to_latin1 ! (i - 0x9b) then of_nat i else latin1_search c is)"

definition translate_to_zscii :: "zchar \<Rightarrow> zstate \<Rightarrow> zbyte res" where
  "translate_to_zscii c s =
     (if c = ZC_SINGLE_CLICK then Ok 0xfe
      else if c = ZC_DOUBLE_CLICK then Ok 0xfd
      else if c = ZC_MENU_CLICK then Ok 0xfc
      else if ZC_LATIN1_MIN \<le> c then
        (if hx_unicode_table (hdr s) \<noteq> 0 then
           andthen (low_byte (uint (hx_unicode_table (hdr s))) s) (\<lambda>n.
             unicode_search c [0x9b..0x9b + uint n - 1] s)
         else Ok (latin1_search c [0x9b..<0xe0]))
      else if c = 0 then Ok CH_QUERY
      else Ok c)"

end
