(* ===== verification/ScreenText.thy ===== *)
theory ScreenText
  imports Machine "HOL-Library.Signed_Division"
begin

text \<open>
  The part of screen.c that the output streams call: cursor, line breaks, characters, words and input
  lines in the current window. Reading through the pointer \<open>cwp\<close> is reading the window of this number;
  what lies behind the eight windows is whatever \<open>wp\<close> has there. A newline routine (V6) is not run
  here: its call is logged.
\<close>

abbreviation (input) "INTERP_AMIGA \<equiv> (4 :: zbyte)"
abbreviation (input) "INTERP_MSDOS \<equiv> (6 :: zbyte)"

definition cwindow :: "zstate \<Rightarrow> window" where
  "cwindow s = wp (scr s) (cwp (scr s))"

definition upd_win :: "int \<Rightarrow> (window \<Rightarrow> window) \<Rightarrow> zstate \<Rightarrow> zstate" where
  "upd_win i g = upd_scr (\<lambda>c. c\<lparr>wp := (wp c)(i := g (wp c i))\<rparr>)"

definition upd_cwin :: "(window \<Rightarrow> window) \<Rightarrow> zstate \<Rightarrow> zstate" where
  "upd_cwin g s = upd_win (cwp (scr s)) g s"

definition update_cursor :: "zstate \<Rightarrow> zstate" where
  "update_cursor s =
     (let w = cwindow s in
      log_event (Os_set_cursor (uint (y_pos w) + uint (y_cursor w) - 1) (uint (x_pos w) + uint (x_cursor w) - 1)) s)"

definition set_more_prompts :: "bool \<Rightarrow> zstate \<Rightarrow> zstate" where
  "set_more_prompts flag s =
     (let s = (if flag \<and> \<not> more_prompts (scr s) then upd_cwin (\<lambda>w. w\<lparr>line_count := 0\<rparr>) s else s) in
      upd_scr (\<lambda>c. c\<lparr>more_prompts := flag\<rparr>) s)"

definition units_left :: "zstate \<Rightarrow> int" where
  "units_left s =
     (let w = cwindow s in uint (x_size w) - uint (w_right w) - uint (x_cursor w) + 1)"

text \<open>
  \<open>countdown\<close>. The source calls the newline routine here, in the middle of printing; the model writes down that it would, and ends after
  the instruction (\<open>step\<close>), so that no run goes on without what the routine does.
\<close>

definition countdown :: "zstate \<Rightarrow> zstate" where
  "countdown s =
     (if nl_countdown (cwindow s) \<noteq> 0 then
        (let s = upd_cwin (\<lambda>w. w\<lparr>nl_countdown := nl_countdown w - 1\<rparr>) s in
         if nl_countdown (cwindow s) = 0 then log_event (Newline_interrupt (nl_routine (cwindow s))) s else s)
      else s)"

definition interrupts :: "zstate \<Rightarrow> io_event list" where
  "interrupts s = filter (\<lambda>e. case e of Newline_interrupt r \<Rightarrow> True | _ \<Rightarrow> False) (io_log (out s))"

text \<open>Zork Zero under DOS handles newline interrupts at the end.\<close>

definition late_countdown :: "zstate \<Rightarrow> bool" where
  "late_countdown s \<longleftrightarrow>
     h_interpreter_number (hdr s) = INTERP_MSDOS \<and> story_id s = ZORK_ZERO \<and> h_release (hdr s) = 393"

text \<open>The cursor moves to the next line; at the bottom the window scrolls or starts again at the top.\<close>

definition next_line :: "zstate \<Rightarrow> zstate" where
  "next_line s =
     (let s = upd_cwin (\<lambda>w. w\<lparr>x_cursor := w_left w + 1\<rparr>) s; w = cwindow s; fh = font_height (scr s) in
      if uint (y_cursor w) + 2 * fh - 1 > uint (y_size w) then
        (if enable_scrolling (scr s) then
           log_event
             (Os_scroll_area (uint (y_pos w)) (uint (x_pos w)) (uint (y_pos w) + uint (y_size w) - 1)
               (uint (x_pos w) + uint (x_size w) - 1) fh) s
         else upd_cwin (\<lambda>w. w\<lparr>y_cursor := 1\<rparr>) s)
      else upd_cwin (\<lambda>w. w\<lparr>y_cursor := y_cursor w + word_of_int fh\<rparr>) s)"

text \<open>The more prompt, unless the game has set the line counter to -999.\<close>

definition count_line :: "zstate \<Rightarrow> zstate" where
  "count_line s =
     (if enable_scrolling (scr s) \<and> sint (line_count (cwindow s)) \<noteq> - 999 then
        (let w = cwindow s; fh = font_height (scr s);
             above = word_of_int ((uint (y_cursor w) - 1) sdiv fh) :: zword;
             below = word_of_int ((uint (y_size w) - uint (y_cursor w) + 1) sdiv fh) :: zword;
             s = upd_cwin (\<lambda>w. w\<lparr>line_count := line_count w + 1\<rparr>) s in
         if sint (line_count (cwindow s)) \<ge> sint above + uint below - 1 then
           (let s = (if more_prompts (scr s) then log_event Os_more_prompt s else s) in
            upd_cwin (\<lambda>w. w\<lparr>line_count := word_of_int (context_lines (f_setup s))\<rparr>) s)
         else s)
      else s)"

definition screen_new_line :: "zstate \<Rightarrow> zstate" where
  "screen_new_line s =
     (if discarding (scr s) then s
      else
        (let s = (if \<not> late_countdown s then countdown s else s);
             s = (if input_window (scr s) = cwin (scr s) then upd_scr (\<lambda>c. c\<lparr>input_redraw := True\<rparr>) s else s);
             s = count_line (update_cursor (next_line s)) in
         if late_countdown s then countdown s else s))"

text \<open>\<open>cwp->x_cursor += width\<close>.\<close>

definition advance :: "int \<Rightarrow> zstate \<Rightarrow> zstate" where
  "advance n = upd_cwin (\<lambda>w. w\<lparr>x_cursor := x_cursor w + word_of_int n\<rparr>)"

definition screen_char :: "zchar \<Rightarrow> zstate \<Rightarrow> zstate" where
  "screen_char c s =
     (if discarding (scr s) then s
      else
        (let c = (if c = ZC_INDENT \<and> x_cursor (cwindow s) \<noteq> w_left (cwindow s) + 1 then CH_SPACE else c);
             left = units_left s; (n, s) = ask s in
         if left < n \<and> \<not> enable_wrapping (scr s) then upd_cwin (\<lambda>w. w\<lparr>x_cursor := x_size w - w_right w\<rparr>) s
         else
           (let s = (if left < n then screen_new_line s else s) in
            advance n (log_event (Os_display_char c) s))))"

text \<open>
  A word that is clipped: character by character, with the changes of font and style in it. The
  argument of a change follows it (\<open>print_char\<close> sees to this).
\<close>

fun clip_word :: "zchar list \<Rightarrow> zstate \<Rightarrow> zstate" where
  "clip_word [] s = s"
| "clip_word (c # cs) s =
     (if c = ZC_NEW_FONT \<or> c = ZC_NEW_STYLE then
        (case cs of
           [] \<Rightarrow> s
         | arg # cs \<Rightarrow>
             clip_word cs
               (log_event (if c = ZC_NEW_FONT then Os_set_font (uint arg) else Set_text_style (ucast arg)) s))
      else clip_word cs (screen_char c s))"

definition screen_word :: "zchar list \<Rightarrow> zstate \<Rightarrow> zstate" where
  "screen_word cs s =
     (if discarding (scr s) then s
      else
        (let indent = cs \<noteq> [] \<and> hd cs = ZC_INDENT \<and> x_cursor (cwindow s) \<noteq> w_left (cwindow s) + 1;
             s = (if indent then screen_char ZC_INDENT s else s);
             cs = (if indent then tl cs else cs);
             left = units_left s; (n, s) = ask s in
         if left < n \<and> \<not> enable_wrapping (scr s) then clip_word cs s
         else if left < n then
           (let gap = cs \<noteq> [] \<and> (hd cs = CH_SPACE \<or> hd cs = ZC_INDENT \<or> hd cs = ZC_GAP);
                cs = (if gap then tl cs else cs);
                (n, s) = (if gap then ask s else (n, s));
                s = screen_new_line s in
            advance n (log_event (Os_display_string cs) s))
         else advance n (log_event (Os_display_string cs) s)))"

text \<open>Input lines that come from a command file.\<close>

definition screen_write_input :: "zchar list \<Rightarrow> zchar \<Rightarrow> zstate \<Rightarrow> zstate" where
  "screen_write_input buf key s =
     (let left = units_left s; (n, s) = ask s;
          s = (if left < n then screen_new_line s else s);
          s = advance n (log_event (Os_display_string buf) s) in
      if key = ZC_RETURN then screen_new_line s else s)"

definition screen_erase_input :: "zchar list \<Rightarrow> zstate \<Rightarrow> zstate" where
  "screen_erase_input buf s =
     (if buf \<noteq> [] then
        (let (n, s) = ask s; s = advance (- n) s; w = cwindow s;
             y = y_pos w + y_cursor w - 1; x = x_pos w + x_cursor w - 1 in
         log_event (Os_set_cursor (uint y) (uint x))
           (log_event (Os_erase_area (uint y) (uint x) (uint y + font_height (scr s) - 1) (uint x + n - 1)) s))
      else s)"

definition screen_mssg_on :: "zstate \<Rightarrow> zstate" where
  "screen_mssg_on s =
     (if cwin (scr s) = 0 then
        (let s = log_event (Set_text_style 0) s;
             s = (if x_cursor (cwindow s) \<noteq> w_left (cwindow s) + 1 then screen_new_line s else s) in
         screen_char ZC_INDENT s)
      else upd_scr (\<lambda>c. c\<lparr>discarding := True\<rparr>) s)"

text \<open>The flags that the attributes of the current window decide.\<close>

definition update_attributes :: "zstate \<Rightarrow> zstate" where
  "update_attributes s =
     (let a = w_attribute (cwindow s);
          s = upd_scr (\<lambda>c. c\<lparr>enable_wrapping := a AND 1 \<noteq> 0, enable_scrolling := a AND 2 \<noteq> 0\<rparr>) s;
          s = upd_out (\<lambda>t. t\<lparr>enable_scripting := a AND 4 \<noteq> 0, enable_buffering := a AND 8 \<noteq> 0\<rparr>) s in
      if cwin (scr s) = 0 \<and>
         (story_id s = ZORK_ZERO \<and> h_release (hdr s) = 366 \<or> story_id s = SHOGUN \<and> h_release (hdr s) \<le> 295)
      then upd_scr (\<lambda>c. c\<lparr>enable_wrapping := True\<rparr>) s else s)"

end
