(* ===== verification/Output.thy ===== *)
theory Output
  imports Zscii ScreenText
begin

text \<open>
  The output side of the interpreter: the text buffer (buffer.c), the output streams (stream.c),
  redirection to memory (redirect.c), the transcript (files.c), run-time errors (err.c) and the two
  memory writes that can print (\<open>storeb\<close>, \<open>storew\<close> of fastmem.c).

  These functions call each other in a circle: \<open>storeb\<close> reports errors, reporting prints, printing
  flushes the buffer, and a flush with stream 3 open calls \<open>storeb\<close>. Every circle passes through
  \<open>runtime_error\<close> or \<open>storeb\<close>, so each function below takes these two calls as a handler \<open>h\<close>, and
  \<open>out_call_n\<close> ties the knot with a bound on the nesting of the two.
\<close>

datatype out_call = Runtime_error int | Storeb zword zbyte

type_synonym handler = "out_call \<Rightarrow> zstate \<Rightarrow> zstate res"

text \<open>C strings of the source as lists of characters.\<close>

definition zs :: "string \<Rightarrow> zchar list" where
  "zs = map of_char"

subsection \<open>Transcript (files.c)\<close>

definition script_putc :: "zchar \<Rightarrow> zstate \<Rightarrow> zstate" where
  "script_putc c s =
     log_event (Script_putc c) (upd_out (\<lambda>t. t\<lparr>script_width := script_width t + 1\<rparr>) s)"

definition script_char :: "zchar \<Rightarrow> zstate \<Rightarrow> zstate" where
  "script_char c0 s =
     (let c = (if c0 = ZC_INDENT \<and> script_width (out s) \<noteq> 0 then CH_SPACE else c0) in
      if c = ZC_INDENT then script_putc CH_SPACE (script_putc CH_SPACE (script_putc CH_SPACE s))
      else if c = ZC_GAP then script_putc CH_SPACE (script_putc CH_SPACE s)
      else script_putc c s)"

definition script_close :: "zstate \<Rightarrow> zstate res" where
  "script_close s =
     (let s = upd_hdr (\<lambda>t. t\<lparr>h_flags := h_flags t AND NOT SCRIPTING_FLAG\<rparr>) s in
      andthen (set_word H_FLAGS (h_flags (hdr s)) s) (\<lambda>s.
        Ok (upd_out (\<lambda>t. t\<lparr>ostream_script := False\<rparr>) (log_event Script_closed s))))"

definition script_new_line :: "zstate \<Rightarrow> zstate res" where
  "script_new_line s =
     (let (ans, s) = ask s in
      andthen (if ans = -1 then script_close s else Ok (log_event (Script_putc CH_NEWLINE) s))
        (\<lambda>s. Ok (upd_out (\<lambda>t. t\<lparr>script_width := 0\<rparr>) s)))"

text \<open>The text buffer read as a C string; \<open>s[i]\<close> of the source is \<open>buf_at i\<close>.\<close>

definition buf_at :: "int \<Rightarrow> zstate \<Rightarrow> zchar res" where
  "buf_at i s =
     (if 0 \<le> i \<and> i < TEXT_BUFFER_SIZE then Ok (tbuf (out s) i) else Stop (Bad_buffer i))"

lemma buf_at_eq_Ok:
  "buf_at i s = Ok c \<longleftrightarrow> 0 \<le> i \<and> i < TEXT_BUFFER_SIZE \<and> c = tbuf (out s) i"
  by (auto simp: buf_at_def)

function script_measure :: "int \<Rightarrow> int \<Rightarrow> zstate \<Rightarrow> int res" where
  "script_measure i w s =
     andthen (buf_at i s) (\<lambda>c.
       if c = 0 then Ok w
       else if c = ZC_NEW_STYLE \<or> c = ZC_NEW_FONT then script_measure (i + 2) w s
       else if c = ZC_GAP then script_measure (i + 1) (w + 3) s
       else if c = ZC_INDENT then script_measure (i + 1) (w + 2) s
       else script_measure (i + 1) (w + 1) s)"
  by pat_completeness auto
termination
  by (relation "measure (\<lambda>(i, w, s). nat (TEXT_BUFFER_SIZE - i))") (auto simp: buf_at_eq_Ok)

function script_write :: "int \<Rightarrow> zstate \<Rightarrow> zstate res" where
  "script_write i s =
     andthen (buf_at i s) (\<lambda>c.
       if c = 0 then Ok s
       else if c = ZC_NEW_FONT \<or> c = ZC_NEW_STYLE then script_write (i + 2) s
       else script_write (i + 1) (script_char c s))"
  by pat_completeness auto
termination
  by (relation "measure (\<lambda>(i, s). nat (TEXT_BUFFER_SIZE - i))") (auto simp: buf_at_eq_Ok)

declare script_measure.simps [simp del] script_write.simps [simp del]

text \<open>\<open>script_word\<close> is only called on the text buffer, so \<open>s\<close> is an index into it.\<close>

definition script_word :: "zstate \<Rightarrow> zstate res" where
  "script_word s =
     andthen (buf_at 0 s) (\<lambda>c0.
       let skip = c0 = ZC_INDENT \<and> script_width (out s) \<noteq> 0;
           i0 = (if skip then 1 else 0 :: int);
           s = (if skip then script_char c0 s else s) in
       andthen (script_measure i0 0 s) (\<lambda>w.
         if script_cols (f_setup s) \<noteq> 0 \<and> script_cols (f_setup s) < script_width (out s) + w then
           andthen (buf_at i0 s) (\<lambda>c.
             let i1 = (if c = CH_SPACE \<or> c = ZC_INDENT \<or> c = ZC_GAP then i0 + 1 else i0) in
             andthen (script_new_line s) (script_write i1))
         else script_write i0 s))"

definition script_mssg_on :: "zstate \<Rightarrow> zstate res" where
  "script_mssg_on s =
     andthen (if script_width (out s) \<noteq> 0 then script_new_line s else Ok s)
       (\<lambda>s. Ok (script_char ZC_INDENT s))"

definition script_mssg_off :: "zstate \<Rightarrow> zstate res" where
  "script_mssg_off s = script_new_line s"

subsection \<open>Redirection to memory (redirect.c)\<close>

definition storew_h :: "handler \<Rightarrow> zword \<Rightarrow> zword \<Rightarrow> zstate \<Rightarrow> zstate res" where
  "storew_h h addr v s =
     andthen (h (Storeb (addr + 0) (hi v)) s) (h (Storeb (addr + 1) (lo v)))"

text \<open>\<open>redirect[depth]\<close>, read and written.\<close>

definition redirect_get :: "zstate \<Rightarrow> redir res" where
  "redirect_get s =
     (if 0 \<le> depth (out s) \<and> depth (out s) < MAX_NESTING
      then Ok (redirect (out s) (depth (out s))) else Stop (Bad_buffer (depth (out s))))"

definition redirect_upd :: "(redir \<Rightarrow> redir) \<Rightarrow> zstate \<Rightarrow> zstate res" where
  "redirect_upd f s =
     andthen (redirect_get s) (\<lambda>r.
       Ok (upd_out (\<lambda>t. t\<lparr>redirect := (redirect t)(depth t := f r)\<rparr>) s))"

definition memory_new_line_h :: "handler \<Rightarrow> zstate \<Rightarrow> zstate res" where
  "memory_new_line_h h s =
     andthen (redirect_upd (\<lambda>r. r\<lparr>total := total r + width r, width := 0\<rparr>) s) (\<lambda>s.
     andthen (redirect_get s) (\<lambda>r.
     andthen (low_word (uint (table r)) s) (\<lambda>size.
       let addr = table r + 2 in
       andthen
         (if xsize r \<noteq> 0xffff then
            andthen (redirect_upd (\<lambda>r. r\<lparr>table := addr + size\<rparr>) s) (\<lambda>s. Ok (0, s))
          else
            andthen (h (Storeb (addr + size) 13) s) (\<lambda>s. Ok (size + 1, s)))
         (\<lambda>(size, s). andthen (redirect_get s) (\<lambda>r. storew_h h (table r) size s)))))"

text \<open>The copying loop of \<open>memory_word\<close>; it re-reads the buffer as it goes, as \<open>*s++\<close> does.\<close>

function memory_copy_h :: "handler \<Rightarrow> int \<Rightarrow> zword \<Rightarrow> zword \<Rightarrow> zstate \<Rightarrow> (zword \<times> zstate) res" where
  "memory_copy_h h i addr sz s =
     andthen (buf_at i s) (\<lambda>c.
       if c = 0 then Ok (sz, s)
       else andthen (translate_to_zscii c s) (\<lambda>z.
         andthen (h (Storeb (addr + sz) z) s) (\<lambda>s.
           memory_copy_h h (i + 1) addr (sz + 1) s)))"
  by pat_completeness auto
termination
  by (relation "measure (\<lambda>(h, i, addr, size, s). nat (TEXT_BUFFER_SIZE - i))")
    (auto simp: buf_at_eq_Ok)

declare memory_copy_h.simps [simp del]

definition memory_word_h :: "handler \<Rightarrow> zstate \<Rightarrow> zstate res" where
  "memory_word_h h s =
     andthen
       (if version s = V6 then
          (let (w, s) = ask s in
           andthen (redirect_get s) (\<lambda>r.
           andthen
             (if xsize r \<noteq> 0xffff \<and> uint (xsize r) < uint (width r) + w then
                andthen (buf_at 0 s) (\<lambda>c.
                  let skip = c = CH_SPACE \<or> c = ZC_INDENT \<or> c = ZC_GAP;
                      (w, s) = (if skip then ask s else (w, s)) in
                  andthen (memory_new_line_h h s) (\<lambda>s. Ok (if skip then 1 else 0 :: int, w, s)))
              else Ok (0, w, s))
             (\<lambda>(i, w, s).
               andthen (redirect_upd (\<lambda>r. r\<lparr>width := width r + word_of_int w\<rparr>) s)
                 (\<lambda>s. Ok (i, s)))))
        else Ok (0, s))
       (\<lambda>(i, s).
          andthen (redirect_get s) (\<lambda>r.
          andthen (low_word (uint (table r)) s) (\<lambda>size.
          andthen (memory_copy_h h i (table r + 2) size s) (\<lambda>(size, s).
          andthen (redirect_get s) (\<lambda>r. storew_h h (table r) size s)))))"

subsection \<open>Output streams (stream.c)\<close>

definition to_script :: "zstate \<Rightarrow> bool" where
  "to_script s \<longleftrightarrow> ostream_script (out s) \<and> enable_scripting (out s)"

definition stream_char :: "zchar \<Rightarrow> zstate \<Rightarrow> zstate" where
  "stream_char c s =
     (let s = (if ostream_screen (out s) then screen_char c (log_event (Screen_char c) s) else s) in
      if to_script s then script_char c s else s)"

text \<open>The text handed to \<open>screen_word\<close>: the buffer up to \<open>bufpos\<close>.\<close>

definition buffer_text :: "zstate \<Rightarrow> zchar list" where
  "buffer_text s = map (tbuf (out s)) [0..bufpos (out s) - 1]"

definition stream_word_h :: "handler \<Rightarrow> zstate \<Rightarrow> zstate res" where
  "stream_word_h h s =
     (if ostream_memory (out s) \<and> \<not> message (out s) then memory_word_h h s
      else
        (let s = (if ostream_screen (out s)
                  then screen_word (buffer_text s) (log_event (Screen_word (buffer_text s)) s) else s)
         in if to_script s then script_word s else Ok s))"

definition stream_new_line_h :: "handler \<Rightarrow> zstate \<Rightarrow> zstate res" where
  "stream_new_line_h h s =
     (if ostream_memory (out s) \<and> \<not> message (out s) then memory_new_line_h h s
      else
        (let s = (if ostream_screen (out s) then screen_new_line (log_event Screen_new_line s) else s)
         in if to_script s then script_new_line s else Ok s))"

subsection \<open>The text buffer (buffer.c)\<close>

definition buf_set :: "int \<Rightarrow> zchar \<Rightarrow> zstate \<Rightarrow> zstate res" where
  "buf_set i c s =
     (if 0 \<le> i \<and> i < TEXT_BUFFER_SIZE then Ok (upd_out (\<lambda>t. t\<lparr>tbuf := (tbuf t)(i := c)\<rparr>) s)
      else Stop (Bad_buffer i))"

definition flush_buffer_h :: "handler \<Rightarrow> zstate \<Rightarrow> zstate res" where
  "flush_buffer_h h s =
     (if locked (out s) \<or> bufpos (out s) = 0 then Ok s
      else
        andthen (buf_set (bufpos (out s)) 0 s) (\<lambda>s.
        andthen (stream_word_h h (upd_out (\<lambda>t. t\<lparr>locked := True\<rparr>) s)) (\<lambda>s.
          Ok (upd_out (\<lambda>t. t\<lparr>locked := False, bufpos := 0, prev_c := 0\<rparr>) s))))"

definition new_line_h :: "handler \<Rightarrow> zstate \<Rightarrow> zstate res" where
  "new_line_h h s = andthen (flush_buffer_h h s) (stream_new_line_h h)"

text \<open>The last part of \<open>print_char\<close>: insert the character, then test for overflow.\<close>

definition buffer_put_h :: "handler \<Rightarrow> zchar \<Rightarrow> zstate \<Rightarrow> zstate res" where
  "buffer_put_h h c s =
     andthen (buf_set (bufpos (out s)) c s) (\<lambda>s.
       let s = upd_out (\<lambda>t. t\<lparr>bufpos := bufpos t + 1\<rparr>) s in
       if bufpos (out s) = TEXT_BUFFER_SIZE then h (Runtime_error ERR_TEXT_BUF_OVF) s else Ok s)"

definition print_char_h :: "handler \<Rightarrow> zchar \<Rightarrow> zstate \<Rightarrow> zstate res" where
  "print_char_h h c s =
     (if message (out s) \<or> ostream_memory (out s) \<or> enable_buffering (out s) then
        (if \<not> pc_flag (out s) then
           (if c = ZC_RETURN then new_line_h h s
            else if c = 0 then Ok s
            else
              andthen
                (if c = CH_SPACE \<or> c = ZC_INDENT \<or> c = ZC_GAP \<or>
                    (prev_c (out s) = CH_MINUS \<and> c \<noteq> CH_MINUS)
                 then flush_buffer_h h s else Ok s)
                (\<lambda>s. buffer_put_h h c
                  (upd_out (\<lambda>t. t\<lparr>pc_flag := pc_flag t \<or> c = ZC_NEW_FONT \<or> c = ZC_NEW_STYLE,
                                   prev_c := c\<rparr>) s)))
         else buffer_put_h h c (upd_out (\<lambda>t. t\<lparr>pc_flag := False\<rparr>) s))
      else Ok (stream_char c s))"

fun print_string_h :: "handler \<Rightarrow> zchar list \<Rightarrow> zstate \<Rightarrow> zstate res" where
  "print_string_h h [] s = Ok s"
| "print_string_h h (c # cs) s =
     andthen (if c = CH_NEWLINE then new_line_h h s else print_char_h h c s) (print_string_h h cs)"

text \<open>
  \<open>print_long\<close>: the divisors the loop goes through, then the loop. A divisor's digit is printed
  when the value reaches it, and the last digit always.
\<close>

definition long_divisors :: "nat \<Rightarrow> nat list" where
  "long_divisors base =
     map (\<lambda>k. base ^ k) (rev [0..<(if base = 10 then 10 else 8)])"

definition long_digit :: "nat \<Rightarrow> nat \<Rightarrow> nat \<Rightarrow> zchar" where
  "long_digit v i base =
     (let c = (v div i) mod base in of_nat (c + (if c \<le> 9 then 0x30 else 0x61 - 10)))"

definition long_string :: "nat \<Rightarrow> nat \<Rightarrow> zchar list" where
  "long_string v base =
     map (\<lambda>i. long_digit v i base) (filter (\<lambda>i. i \<le> v \<or> i = 1) (long_divisors base))"

fun print_chars_h :: "handler \<Rightarrow> zchar list \<Rightarrow> zstate \<Rightarrow> zstate res" where
  "print_chars_h h [] s = Ok s"
| "print_chars_h h (c # cs) s = andthen (print_char_h h c s) (print_chars_h h cs)"

definition print_long_h :: "handler \<Rightarrow> int \<Rightarrow> nat \<Rightarrow> zstate \<Rightarrow> zstate res" where
  "print_long_h h v base = print_chars_h h (long_string (nat (v mod 2 ^ 32)) base)"

subsection \<open>Run-time errors (err.c)\<close>

definition err_messages :: "string list" where
  "err_messages =
    [''Text buffer overflow'',
     ''Store out of dynamic memory'',
     ''Division by zero'',
     ''Illegal object'',
     ''Illegal attribute'',
     ''No such property'',
     ''Stack overflow'',
     ''Call to illegal address'',
     ''Call to non-routine'',
     ''Stack underflow'',
     ''Illegal opcode'',
     ''Bad stack frame'',
     ''Jump to illegal address'',
     ''Can't save while in interrupt'',
     ''Nesting stream #3 too deep'',
     ''Illegal window'',
     ''Illegal window property'',
     ''Print at illegal address'',
     ''@jin called with object 0'',
     ''@get_child called with object 0'',
     ''@get_parent called with object 0'',
     ''@get_sibling called with object 0'',
     ''@get_prop_addr called with object 0'',
     ''@get_prop called with object 0'',
     ''@put_prop called with object 0'',
     ''@clear_attr called with object 0'',
     ''@set_attr called with object 0'',
     ''@test_attr called with object 0'',
     ''@move_object called moving object 0'',
     ''@move_object called moving into object 0'',
     ''@remove_object called with object 0'',
     ''@get_next_prop called with object 0'']"

text \<open>Which errors end the program, and which are reported.\<close>

definition err_fatal :: "int \<Rightarrow> zstate \<Rightarrow> bool" where
  "err_fatal errnum s \<longleftrightarrow>
     err_report_mode (f_setup s) = ERR_REPORT_FATAL \<or>
     (\<not> ignore_errors (f_setup s) \<and> errnum \<le> ERR_MAX_FATAL)"

definition err_warning_h :: "handler \<Rightarrow> int \<Rightarrow> zstate \<Rightarrow> zstate res" where
  "err_warning_h h errnum s =
     andthen (print_string_h h (zs ''Warning: '') s) (\<lambda>s.
     andthen (print_string_h h (zs (err_messages ! nat (errnum - 1))) s) (\<lambda>s.
     andthen (print_string_h h (zs '' (PC = '') s) (\<lambda>s.
     andthen (print_long_h h (pcp s) 16 s) (\<lambda>s.
     andthen (print_char_h h 0x29 s) (\<lambda>s.
     andthen
       (if err_report_mode (f_setup s) = ERR_REPORT_ONCE then
          print_string_h h (zs '' (will ignore further occurrences)'') s
        else
          andthen (print_string_h h (zs '' (occurence '') s) (\<lambda>s.
          andthen (print_long_h h (error_count (out s) (errnum - 1)) 10 s) (print_char_h h 0x29)))
       (new_line_h h))))))"

definition runtime_error_h :: "handler \<Rightarrow> int \<Rightarrow> zstate \<Rightarrow> zstate res" where
  "runtime_error_h h errnum s =
     (if errnum \<le> 0 \<or> errnum > ERR_NUM_ERRORS then Ok s
      else if err_fatal errnum s then
        andthen (flush_buffer_h h s) (\<lambda>s. Stop (Fatal errnum))
      else
        (let wasfirst = error_count (out s) (errnum - 1) = 0;
             s = upd_out (\<lambda>t. t\<lparr>error_count :=
                   (error_count t)(errnum - 1 := error_count t (errnum - 1) + 1)\<rparr>) s in
         if err_report_mode (f_setup s) = ERR_REPORT_ALWAYS \<or>
            (err_report_mode (f_setup s) = ERR_REPORT_ONCE \<and> wasfirst)
         then err_warning_h h errnum s
         else Ok s))"

subsection \<open>Writes to dynamic memory (fastmem.c)\<close>

text \<open>\<open>refresh_text_style\<close> of screen.c, and \<open>script_open\<close> of files.c.\<close>

definition refresh_text_style_h :: "handler \<Rightarrow> zstate \<Rightarrow> zstate res" where
  "refresh_text_style_h h s =
     (let style =
        (if version s \<noteq> V6 then
           (if cwin (scr s) \<noteq> 0 \<or> h_flags (hdr s) AND FIXED_FONT_FLAG \<noteq> 0
            then w_style (wp (scr s) 0) OR FIXED_WIDTH_STYLE else w_style (wp (scr s) 0))
         else w_style (cwindow s)) in
      if \<not> ostream_memory (out s) \<and> ostream_screen (out s) \<and> enable_buffering (out s) then
        andthen (print_char_h h ZC_NEW_STYLE s) (print_char_h h (ucast style))
      else Ok (log_event (Set_text_style style) s))"

definition script_open_h :: "handler \<Rightarrow> zstate \<Rightarrow> zstate res" where
  "script_open_h h s =
     (let s = upd_hdr (\<lambda>t. t\<lparr>h_flags := h_flags t AND NOT SCRIPTING_FLAG\<rparr>) s;
          name = os_name (dev s) (clock s);
          want_name = V5 \<le> version s \<or> \<not> script_valid (out s);
          (named, s) = (if want_name then ask s else (1, s)) in
      andthen
        (if want_name \<and> named = 0 then Ok s
         else
           (let (append, s) = ask s;
                (opened, s) = (if append \<noteq> 0 then (append, s) else ask s) in
            if opened \<noteq> 0 \<and> want_name \<and> names_story (dev s) name then Stop Story_overwritten
            else if opened \<noteq> 0 then
              Ok (upd_out (\<lambda>t. t\<lparr>script_valid := True, ostream_script := True, script_width := 0\<rparr>)
                   (upd_hdr (\<lambda>t. t\<lparr>h_flags := h_flags t OR SCRIPTING_FLAG\<rparr>) s))
            else print_string_h h (zs ''Cannot open file'' @ [CH_NEWLINE]) s))
        (\<lambda>s. set_word H_FLAGS (h_flags (hdr s)) s))"

definition storeb_h :: "handler \<Rightarrow> zword \<Rightarrow> zbyte \<Rightarrow> zstate \<Rightarrow> zstate res" where
  "storeb_h h addr v s =
     andthen
       (if h_dynamic_size (hdr s) \<le> addr then h (Runtime_error ERR_STORE_RANGE) s else Ok s)
       (\<lambda>s.
     andthen
       (if uint addr = H_FLAGS + 1 then
          (let s = upd_hdr (\<lambda>t. t\<lparr>h_flags :=
                (h_flags t AND NOT (SCRIPTING_FLAG OR FIXED_FONT_FLAG)) OR
                (ucast v AND (SCRIPTING_FLAG OR FIXED_FONT_FLAG))\<rparr>) s in
           andthen
             (if ucast v AND SCRIPTING_FLAG \<noteq> 0 then
                (if \<not> ostream_script (out s) then script_open_h h s else Ok s)
              else
                (if ostream_script (out s) then script_close s else Ok s))
             (refresh_text_style_h h))
        else Ok s)
       (set_byte (uint addr) v))"

subsection \<open>Tying the knot\<close>

text \<open>
  \<open>out_call_n n\<close> allows \<open>n\<close> nested calls of \<open>runtime_error\<close> and \<open>storeb\<close>; deeper nesting is
  \<open>Stop Call_depth\<close> (in C it exhausts the stack). 64 is used: with fatal errors enabled, as they
  are by default, no run nests deeper than a few levels.
\<close>

primrec out_call_n :: "nat \<Rightarrow> handler" where
  "out_call_n 0 = (\<lambda>c s. Stop Call_depth)"
| "out_call_n (Suc n) = (\<lambda>c s.
     case c of
       Runtime_error e \<Rightarrow> runtime_error_h (out_call_n n) e s
     | Storeb a v \<Rightarrow> storeb_h (out_call_n n) a v s)"

definition out_call :: handler where
  "out_call = out_call_n 64"

definition inner_call :: handler where
  "inner_call = out_call_n 63"

definition runtime_error :: "int \<Rightarrow> zstate \<Rightarrow> zstate res" where
  "runtime_error e = out_call (Runtime_error e)"

definition storeb :: "zword \<Rightarrow> zbyte \<Rightarrow> zstate \<Rightarrow> zstate res" where
  "storeb a v = out_call (Storeb a v)"

definition storew :: "zword \<Rightarrow> zword \<Rightarrow> zstate \<Rightarrow> zstate res" where
  "storew = storew_h out_call"

definition flush_buffer :: "zstate \<Rightarrow> zstate res" where
  "flush_buffer = flush_buffer_h out_call"

definition new_line :: "zstate \<Rightarrow> zstate res" where
  "new_line = new_line_h out_call"

definition print_char :: "zchar \<Rightarrow> zstate \<Rightarrow> zstate res" where
  "print_char = print_char_h out_call"

definition print_string :: "zchar list \<Rightarrow> zstate \<Rightarrow> zstate res" where
  "print_string = print_string_h out_call"

lemma out_call_inner:
  "out_call (Runtime_error e) s = runtime_error_h inner_call e s"
  "out_call (Storeb a v) s = storeb_h inner_call a v s"
proof -
  have "out_call_n 64 = out_call_n (Suc 63)"
    by simp
  then show "out_call (Runtime_error e) s = runtime_error_h inner_call e s"
    and "out_call (Storeb a v) s = storeb_h inner_call a v s"
    unfolding out_call_def inner_call_def by (simp_all only: out_call_n.simps out_call.simps)
qed

subsection \<open>Opening and closing streams\<close>

text \<open>\<open>get_max_width\<close> of screen.c, which \<open>memory_open\<close> asks in V6.\<close>

definition get_max_width :: "zword \<Rightarrow> zstate \<Rightarrow> (zword \<times> zstate) res" where
  "get_max_width win s =
     (if version s = V6 then
        andthen (if win \<ge> 8 then runtime_error ERR_ILL_WIN s else Ok s) (\<lambda>s.
          if win \<ge> 8 then Stop (Bad_buffer (uint win))
          else
            (let w = wp (scr s) (uint win) in Ok (x_size w - w_left w - w_right w, s)))
      else Ok (0xffff, s))"

text \<open>\<open>memory_open\<close>, \<open>memory_close\<close>.\<close>

definition memory_open :: "zword \<Rightarrow> zword \<Rightarrow> bool \<Rightarrow> zstate \<Rightarrow> zstate res" where
  "memory_open tab xs buffering s =
     (let s = upd_out (\<lambda>t. t\<lparr>depth := depth t + 1\<rparr>) s in
      if depth (out s) < MAX_NESTING then
        andthen
          (if \<not> buffering then Ok (0xffff, s)
           else if sint xs \<le> 0 then get_max_width (word_of_int (- sint xs)) s
           else Ok (xs, s)) (\<lambda>(xs, s).
         andthen (storew tab 0 s) (\<lambda>s.
         andthen (redirect_upd (\<lambda>r. r\<lparr>table := tab, width := 0, total := 0, xsize := xs\<rparr>) s) (\<lambda>s.
           Ok (upd_out (\<lambda>t. t\<lparr>ostream_memory := True\<rparr>) s))))
      else runtime_error ERR_STR3_NESTING s)"

definition memory_close :: "zstate \<Rightarrow> zstate res" where
  "memory_close s =
     (if 0 \<le> depth (out s) then
        andthen (redirect_get s) (\<lambda>r.
        andthen (if xsize r \<noteq> 0xffff then memory_new_line_h out_call s else Ok s) (\<lambda>s.
        andthen
          (if version s = V6 then
             andthen (redirect_get s) (\<lambda>r.
               let s = upd_hdr (\<lambda>t. t\<lparr>h_line_width :=
                     (if xsize r \<noteq> 0xffff then total r else width r)\<rparr>) s in
               set_word H_LINE_WIDTH (h_line_width (hdr s)) s)
           else Ok s)
          (\<lambda>s.
             let s = (if depth (out s) = 0 then upd_out (\<lambda>t. t\<lparr>ostream_memory := False\<rparr>) s else s)
             in Ok (upd_out (\<lambda>t. t\<lparr>depth := depth t - 1\<rparr>) s))))
      else Ok s)"

text \<open>Debugging messages.\<close>

definition screen_mssg_off :: "zstate \<Rightarrow> zstate res" where
  "screen_mssg_off s =
     (if cwin (scr s) = 0 then refresh_text_style_h out_call (screen_new_line s)
      else Ok (upd_scr (\<lambda>c. c\<lparr>discarding := False\<rparr>) s))"

definition stream_mssg_on :: "zstate \<Rightarrow> zstate res" where
  "stream_mssg_on s =
     andthen (flush_buffer s) (\<lambda>s.
       let s = (if ostream_screen (out s) then screen_mssg_on s else s) in
       andthen (if to_script s then script_mssg_on s else Ok s) (\<lambda>s.
         Ok (upd_out (\<lambda>t. t\<lparr>message := True\<rparr>) s)))"

definition stream_mssg_off :: "zstate \<Rightarrow> zstate res" where
  "stream_mssg_off s =
     andthen (flush_buffer s) (\<lambda>s.
       andthen (if ostream_screen (out s) then screen_mssg_off s else Ok s) (\<lambda>s.
       andthen (if to_script s then script_mssg_off s else Ok s) (\<lambda>s.
         Ok (upd_out (\<lambda>t. t\<lparr>message := False\<rparr>) s))))"

text \<open>
  \<open>record_open\<close>, \<open>record_close\<close> (files.c) and the opcode that switches streams. A command file (or
  transcript) under the name of the story would be written over the story while it is played; the model
  ends there.
\<close>

definition record_open :: "zstate \<Rightarrow> zstate res" where
  "record_open s =
     (let name = os_name (dev s) (clock s); (named, s) = ask s in
      if named \<noteq> 0 then
        (let s = upd_dev (\<lambda>d. d\<lparr>command_name := name\<rparr>) s; (opened, s) = ask s in
         if opened \<noteq> 0 \<and> names_story (dev s) name then Stop Story_overwritten
         else if opened \<noteq> 0 then
           Ok (upd_out (\<lambda>t. t\<lparr>ostream_record := True\<rparr>)
             (upd_dev (\<lambda>d. d\<lparr>disk := (disk d)(name := Some []), rec_name := name\<rparr>) s))
         else print_string (zs ''Cannot open file'' @ [CH_NEWLINE]) s)
      else Ok s)"

definition record_close :: "zstate \<Rightarrow> zstate" where
  "record_close s = upd_out (\<lambda>t. t\<lparr>ostream_record := False\<rparr>) s"

definition z_output_stream :: "zstate \<Rightarrow> zstate res" where
  "z_output_stream s =
     andthen (flush_buffer s) (\<lambda>s.
       let n = sint (zargs s 0) in
       if n = 1 then Ok (upd_out (\<lambda>t. t\<lparr>ostream_screen := True\<rparr>) s)
       else if n = -1 then Ok (upd_out (\<lambda>t. t\<lparr>ostream_screen := False\<rparr>) s)
       else if n = 2 then (if \<not> ostream_script (out s) then script_open_h out_call s else Ok s)
       else if n = -2 then (if ostream_script (out s) then script_close s else Ok s)
       else if n = 3 then memory_open (zargs s 1) (zargs s 2) (3 \<le> zargc s) s
       else if n = -3 then memory_close s
       else if n = 4 then (if \<not> ostream_record (out s) then record_open s else Ok s)
       else if n = -4 then Ok (if ostream_record (out s) then record_close s else s)
       else Ok s)"

end
