(* ===== verification/Process.thy ===== *)
theory Process
  imports Output
begin

text \<open>
  Program control (process.c): operand decoding, storing results, branches, subroutine calls and
  returns, the frame opcodes. The opcode tables and the interpreter loop are in \<open>Interpreter\<close>.
\<close>

subsection \<open>Variables\<close>

text \<open>
  Every place that reads or writes a variable by number has the same three cases: the stack
  (number 0, treated differently by each caller), a local (1 to 15) at \<open>fp - variable\<close>, a global
  in memory. These are the last two.
\<close>

definition global_addr :: "zword \<Rightarrow> zstate \<Rightarrow> zword" where
  "global_addr v s = h_globals (hdr s) + 2 * (v - 16)"

definition get_var :: "zword \<Rightarrow> zstate \<Rightarrow> zword res" where
  "get_var v s =
     (if v < 16 then stack_get (fp s - uint v) s else low_word (uint (global_addr v s)) s)"

definition set_var :: "zword \<Rightarrow> zword \<Rightarrow> zstate \<Rightarrow> zstate res" where
  "set_var v x s =
     (if v < 16 then stack_set (fp s - uint v) x s else set_word (uint (global_addr v s)) x s)"

subsection \<open>Operands\<close>

definition add_arg :: "zword \<Rightarrow> zstate \<Rightarrow> zstate" where
  "add_arg v s = s\<lparr>zargs := (zargs s)(zargc s := v), zargc := zargc s + 1\<rparr>"

definition load_operand :: "zbyte \<Rightarrow> zstate \<Rightarrow> zstate res" where
  "load_operand type s =
     andthen
       (if type AND 2 \<noteq> 0 then
          andthen (code_byte s) (\<lambda>(variable, s).
            if variable = 0 then pop s
            else andthen (get_var (ucast variable) s) (\<lambda>v. Ok (v, s)))
        else if type AND 1 \<noteq> 0 then
          andthen (code_byte s) (\<lambda>(bvalue, s). Ok (ucast bvalue, s))
        else code_word s)
       (\<lambda>(value, s). Ok (add_arg value s))"

text \<open>The loop over \<open>i = 6, 4, 2, 0\<close>.\<close>

fun load_operands_from :: "nat list \<Rightarrow> zbyte \<Rightarrow> zstate \<Rightarrow> zstate res" where
  "load_operands_from [] specifier s = Ok s"
| "load_operands_from (i # is) specifier s =
     (let type = drop_bit i specifier AND 0x03 in
      if type = 3 then Ok s
      else andthen (load_operand type s) (load_operands_from is specifier))"

definition load_all_operands :: "zbyte \<Rightarrow> zstate \<Rightarrow> zstate res" where
  "load_all_operands = load_operands_from [6, 4, 2, 0]"

subsection \<open>Results\<close>

definition store :: "zword \<Rightarrow> zstate \<Rightarrow> zstate res" where
  "store value s =
     andthen (code_byte s) (\<lambda>(variable, s).
       if variable = 0 then push value s else set_var (ucast variable) value s)"

subsection \<open>Calls and returns\<close>

definition routine_addr :: "zword \<Rightarrow> zstate \<Rightarrow> int" where
  "routine_addr routine s =
     (if version s \<le> V3 then uint routine * 2
      else if version s \<le> V5 then uint routine * 4
      else if version s \<le> V7 then uint routine * 4 + uint (h_functions_offset (hdr s)) * 8
      else uint routine * 8)"

definition frame_shift :: "zstate \<Rightarrow> nat" where
  "frame_shift s = (if save_quetzal (f_setup s) then 12 else 8)"

text \<open>The four words of the frame.\<close>

definition push_frame :: "int \<Rightarrow> int \<Rightarrow> zstate \<Rightarrow> zstate res" where
  "push_frame argc ct s =
     (let pc = pcp s in
      andthen (push (word_of_int (pc div 2 ^ 9)) s) (\<lambda>s.
      andthen (push (word_of_int (pc mod 2 ^ 9)) s) (\<lambda>s.
      andthen (push (word_of_int (fp s - 1)) s) (\<lambda>s.
      andthen (push (word_of_int argc OR push_bit (frame_shift s) (word_of_int ct)) s) (\<lambda>s.
        Ok (s\<lparr>fp := sp s, frame_count := frame_count s + 1\<rparr>))))))"

text \<open>
  The loop over the locals: \<open>i\<close> counts up to \<open>count\<close>, \<open>argc\<close> down; \<open>value\<close> keeps the last default
  read (it stays 0 from V5 on).
\<close>

fun init_locals ::
    "nat \<Rightarrow> int \<Rightarrow> int \<Rightarrow> (int \<Rightarrow> zword) \<Rightarrow> zword \<Rightarrow> zstate \<Rightarrow> zstate res" where
  "init_locals 0 i argc args value s = Ok s"
| "init_locals (Suc n) i argc args value s =
     andthen (if version s \<le> V4 then code_word s else Ok (value, s)) (\<lambda>(value, s).
     andthen (push (if argc > 0 then args i else value) s)
       (init_locals n (i + 1) (argc - 1) args value))"

text \<open>
  \<open>call\<close> up to the direct-call loop (\<open>enter_routine\<close> is its part from the check of the new program
  counter on); \<open>interp\<close> is that loop (\<open>interpret\<close>).
\<close>

definition enter_routine :: "int \<Rightarrow> int \<Rightarrow> (int \<Rightarrow> zword) \<Rightarrow> zstate \<Rightarrow> zstate res" where
  "enter_routine pc argc args s =
     andthen (if story_size s \<le> pc then runtime_error ERR_ILL_CALL_ADDR s else Ok s) (\<lambda>s.
     andthen (code_byte (s\<lparr>pcp := pc\<rparr>)) (\<lambda>(count, s).
     andthen (if 15 < count then runtime_error ERR_CALL_NON_RTN s else Ok s) (\<lambda>s.
     andthen (if sp s < uint count then runtime_error ERR_STK_OVF s else Ok s) (\<lambda>s.
     andthen
       (if save_quetzal (f_setup s) then
          andthen (stack_get (fp s) s) (\<lambda>w.
            stack_set (fp s) (w OR push_bit 8 (ucast count)) s)
        else Ok s)
       (\<lambda>s. init_locals (unat count) 0 argc args 0 s)))))"

definition call_frame :: "zword \<Rightarrow> int \<Rightarrow> (int \<Rightarrow> zword) \<Rightarrow> int \<Rightarrow> zstate \<Rightarrow> zstate res" where
  "call_frame routine argc args ct s =
     andthen (if sp s < 4 then runtime_error ERR_STK_OVF s else Ok s) (\<lambda>s.
     andthen (push_frame argc ct s) (\<lambda>s.
       enter_routine (routine_addr routine s) argc args s))"

definition call ::
    "(zstate \<Rightarrow> zstate res) \<Rightarrow> zword \<Rightarrow> int \<Rightarrow> (int \<Rightarrow> zword) \<Rightarrow> int \<Rightarrow> zstate \<Rightarrow> zstate res" where
  "call interp routine argc args ct s =
     andthen (call_frame routine argc args ct s) (\<lambda>s. if ct = 2 then interp s else Ok s)"

definition ret :: "zword \<Rightarrow> zstate \<Rightarrow> zstate res" where
  "ret value s =
     andthen (if sp s > fp s then runtime_error ERR_STK_UNDF s else Ok s) (\<lambda>s.
     andthen (pop (s\<lparr>sp := fp s\<rparr>)) (\<lambda>(w, s).
       let ct = drop_bit (frame_shift s) w;
           s = s\<lparr>frame_count := frame_count s - 1\<rparr> in
       andthen (pop s) (\<lambda>(w, s).
       let s = s\<lparr>fp := 1 + uint w\<rparr> in
       andthen (pop s) (\<lambda>(plo, s).
       andthen (pop s) (\<lambda>(phi, s).
         let s = s\<lparr>pcp := (uint phi * 2 ^ 9) OR uint plo\<rparr> in
         andthen (if ct = 0 then store value s else Ok s) (\<lambda>s.
         andthen (if ct = 2 then push value s else Ok s) (\<lambda>s.
           Ok (if ct = 2 then s\<lparr>finished := finished s + 1\<rparr> else s))))))))"

text \<open>
  \<open>direct_call\<close> saves the operands around the call; its value is read as a signed number.
\<close>

definition direct_call :: "(zstate \<Rightarrow> zstate res) \<Rightarrow> zword \<Rightarrow> zstate \<Rightarrow> (int \<times> zstate) res" where
  "direct_call interp addr s =
     (if addr = 0 then Ok (0, s)
      else
        (let saved_zargs = zargs s; saved_zargc = zargc s in
         andthen (call interp addr 0 (\<lambda>i. 0) 2 s) (\<lambda>s.
           let s = s\<lparr>zargs := saved_zargs, zargc := saved_zargc\<rparr> in
           andthen (pop s) (\<lambda>(v, s). Ok (sint v, s)))))"

subsection \<open>Branches\<close>

definition branch :: "bool \<Rightarrow> zstate \<Rightarrow> zstate res" where
  "branch flag s =
     andthen (code_byte s) (\<lambda>(specifier, s).
       let off1 = specifier AND 0x3f;
           specifier = (if \<not> flag then specifier XOR 0x80 else specifier) in
       andthen
         (if specifier AND 0x40 = 0 then
            (let off1 = (if off1 AND 0x20 \<noteq> 0 then off1 OR 0xc0 else off1) in
             andthen (code_byte s) (\<lambda>(off2, s).
               Ok (push_bit 8 (ucast off1) OR ucast off2 :: zword, s)))
          else Ok (ucast off1, s))
         (\<lambda>(offset, s).
            if specifier AND 0x80 \<noteq> 0 then
              (if offset > 1 then Ok (s\<lparr>pcp := pcp s + sint offset - 2\<rparr>) else ret offset s)
            else Ok s))"

subsection \<open>Opcodes\<close>

definition z_catch :: "zstate \<Rightarrow> zstate res" where
  "z_catch s = store (if save_quetzal (f_setup s) then frame_count s else word_of_int (fp s)) s"

text \<open>The unwinding loop of \<open>z_throw\<close>: \<open>frame_count > zargs[1]\<close> frames are dropped.\<close>

function unwind :: "zword \<Rightarrow> zstate \<Rightarrow> zstate res" where
  "unwind target s =
     (if frame_count s > target then
        andthen (stack_get (fp s + 1) s) (\<lambda>w.
          unwind target (s\<lparr>fp := 1 + uint w, frame_count := frame_count s - 1\<rparr>))
      else Ok s)"
  by pat_completeness auto
termination
proof (relation "measure (\<lambda>(t, s). unat (frame_count s))", goal_cases)
  case 1
  then show ?case by simp
next
  case (2 target s w)
  then have "frame_count s \<noteq> 0"
    by auto
  then show ?case
    by (simp add: unat_minus_one unat_gt_0)
qed

declare unwind.simps [simp del]

definition z_throw :: "zstate \<Rightarrow> zstate res" where
  "z_throw s =
     andthen
       (if save_quetzal (f_setup s) then
          andthen (if zargs s 1 > frame_count s then runtime_error ERR_BAD_FRAME s else Ok s)
            (\<lambda>s. unwind (zargs s 1) s)
        else
          andthen (if uint (zargs s 1) > STACK_SIZE then runtime_error ERR_BAD_FRAME s else Ok s)
            (\<lambda>s. Ok (s\<lparr>fp := uint (zargs s 1)\<rparr>)))
       (\<lambda>s. ret (zargs s 0) s)"

text \<open>The arguments of a call start at \<open>zargs + 1\<close>.\<close>

definition call_args :: "zstate \<Rightarrow> int \<Rightarrow> zword" where
  "call_args s = (\<lambda>i. zargs s (i + 1))"

definition z_call_n :: "zstate \<Rightarrow> zstate res" where
  "z_call_n s =
     (if zargs s 0 \<noteq> 0 then call_frame (zargs s 0) (zargc s - 1) (call_args s) 1 s else Ok s)"

definition z_call_s :: "zstate \<Rightarrow> zstate res" where
  "z_call_s s =
     (if zargs s 0 \<noteq> 0 then call_frame (zargs s 0) (zargc s - 1) (call_args s) 0 s
      else store 0 s)"

definition z_check_arg_count :: "zstate \<Rightarrow> zstate res" where
  "z_check_arg_count s =
     (if fp s = STACK_SIZE then branch (zargs s 0 = 0) s
      else andthen (stack_get (fp s) s) (\<lambda>w. branch (zargs s 0 \<le> w AND 0xff) s))"

definition z_jump :: "zstate \<Rightarrow> zstate res" where
  "z_jump s =
     (let pc = pcp s + sint (zargs s 0) - 2 in
      andthen (if story_size s \<le> pc then runtime_error ERR_ILL_JUMP_ADDR s else Ok s)
        (\<lambda>s. Ok (s\<lparr>pcp := pc\<rparr>)))"

definition z_nop :: "zstate \<Rightarrow> zstate res" where
  "z_nop s = Ok s"

definition z_quit :: "zstate \<Rightarrow> zstate res" where
  "z_quit s = Ok (s\<lparr>finished := 9999\<rparr>)"

definition z_ret :: "zstate \<Rightarrow> zstate res" where
  "z_ret s = ret (zargs s 0) s"

definition z_ret_popped :: "zstate \<Rightarrow> zstate res" where
  "z_ret_popped s = andthen (pop s) (\<lambda>(v, s). ret v s)"

definition z_rfalse :: "zstate \<Rightarrow> zstate res" where
  "z_rfalse s = ret 0 s"

definition z_rtrue :: "zstate \<Rightarrow> zstate res" where
  "z_rtrue s = ret 1 s"

definition z_piracy :: "zstate \<Rightarrow> zstate res" where
  "z_piracy s = branch (\<not> piracy (f_setup s)) s"

definition illegal_opcode :: "zstate \<Rightarrow> zstate res" where
  "illegal_opcode s = runtime_error ERR_ILL_OPCODE s"

end
