(* ===== verification/Variables.thy ===== *)
theory Variables
  imports Process
begin

text \<open>
  Variable and stack opcodes (variable.c). Variable 0 is the top of the game stack, read and written
  in place by the opcodes that name a variable; \<open>peek_var\<close> and \<open>poke_var\<close> are that three-way case.
\<close>

definition peek_var :: "zword \<Rightarrow> zstate \<Rightarrow> zword res" where
  "peek_var v s = (if v = 0 then stack_get (sp s) s else get_var v s)"

definition poke_var :: "zword \<Rightarrow> zword \<Rightarrow> zstate \<Rightarrow> zstate res" where
  "poke_var v x s = (if v = 0 then stack_set (sp s) x s else set_var v x s)"

definition z_dec :: "zstate \<Rightarrow> zstate res" where
  "z_dec s =
     andthen (peek_var (zargs s 0) s) (\<lambda>value. poke_var (zargs s 0) (value - 1) s)"

definition z_dec_chk :: "zstate \<Rightarrow> zstate res" where
  "z_dec_chk s =
     andthen (peek_var (zargs s 0) s) (\<lambda>v.
       let value = v - 1 in
       andthen (poke_var (zargs s 0) value s) (\<lambda>s. branch (sint value < sint (zargs s 1)) s))"

definition z_inc :: "zstate \<Rightarrow> zstate res" where
  "z_inc s =
     andthen (peek_var (zargs s 0) s) (\<lambda>value. poke_var (zargs s 0) (value + 1) s)"

definition z_inc_chk :: "zstate \<Rightarrow> zstate res" where
  "z_inc_chk s =
     andthen (peek_var (zargs s 0) s) (\<lambda>v.
       let value = v + 1 in
       andthen (poke_var (zargs s 0) value s) (\<lambda>s. branch (sint value > sint (zargs s 1)) s))"

definition z_load :: "zstate \<Rightarrow> zstate res" where
  "z_load s = andthen (peek_var (zargs s 0) s) (\<lambda>value. store value s)"

definition z_pop :: "zstate \<Rightarrow> zstate res" where
  "z_pop s = Ok (s\<lparr>sp := sp s + 1\<rparr>)"

definition z_pop_stack :: "zstate \<Rightarrow> zstate res" where
  "z_pop_stack s =
     (if zargc s = 2 then
        (let addr = zargs s 1 in
         andthen (low_word (uint addr) s) (\<lambda>n. storew addr (n + zargs s 0) s))
      else Ok (s\<lparr>sp := sp s + uint (zargs s 0)\<rparr>))"

definition z_pull :: "zstate \<Rightarrow> zstate res" where
  "z_pull s =
     (if version s \<noteq> V6 then
        andthen (pop s) (\<lambda>(value, s). poke_var (zargs s 0) value s)
      else
        andthen
          (if zargc s = 1 then
             (let addr = zargs s 0 in
              andthen (low_word (uint addr) s) (\<lambda>n.
                let n = n + 1 in
                andthen (storew addr n s) (\<lambda>s.
                andthen (low_word (uint (addr + 2 * n)) s) (\<lambda>value. Ok (value, s)))))
           else pop s)
          (\<lambda>(value, s). store value s))"

definition z_push :: "zstate \<Rightarrow> zstate res" where
  "z_push s = push (zargs s 0) s"

definition z_push_stack :: "zstate \<Rightarrow> zstate res" where
  "z_push_stack s =
     (let addr = zargs s 1 in
      andthen (low_word (uint addr) s) (\<lambda>n.
      andthen
        (if n \<noteq> 0 then
           andthen (storew (addr + 2 * n) (zargs s 0) s) (\<lambda>s.
           andthen (storew addr (n - 1) s) (\<lambda>s. Ok (n - 1, s)))
         else Ok (n, s))
        (\<lambda>(n, s). branch (n \<noteq> 0) s)))"

definition z_store :: "zstate \<Rightarrow> zstate res" where
  "z_store s = poke_var (zargs s 0) (zargs s 1) s"

end
