(* ===== verification/ObjectBase.thy ===== *)
theory ObjectBase
  imports Output
begin

text \<open>
  Number printing (\<open>print_num\<close> of text.c) and the addresses of objects and of their names
  (\<open>object_address\<close>, \<open>object_name\<close> of object.c), which the text routines and the object opcodes
  share.
\<close>

subsection \<open>Printing a number\<close>

text \<open>The characters that the loop over \<open>i = 10000, 1000, 100, 10, 1\<close> prints.\<close>

definition num_digits :: "zword \<Rightarrow> zchar list" where
  "num_digits value =
     map (\<lambda>i. of_nat (0x30 + (unat value div i) mod 10))
       (filter (\<lambda>i. i \<le> unat value \<or> i = 1) [10000, 1000, 100, 10, 1])"

text \<open>The assignment \<open>value = - (short) value\<close> wraps for -32768, which stays as it is.\<close>

definition num_string :: "zword \<Rightarrow> zchar list" where
  "num_string value =
     (if sint value < 0 then CH_MINUS # num_digits (word_of_int (- sint value))
      else num_digits value)"

definition print_num :: "zword \<Rightarrow> zstate \<Rightarrow> zstate res" where
  "print_num value = print_chars_h out_call (num_string value)"

definition z_print_num :: "zstate \<Rightarrow> zstate res" where
  "z_print_num s = print_num (zargs s 0) s"

subsection \<open>Object addresses\<close>

abbreviation (input) "MAX_OBJECT \<equiv> (2000 :: zword)"
abbreviation (input) "O1_PARENT \<equiv> (4 :: zword)"
abbreviation (input) "O1_SIBLING \<equiv> (5 :: zword)"
abbreviation (input) "O1_CHILD \<equiv> (6 :: zword)"
abbreviation (input) "O1_PROPERTY_OFFSET \<equiv> (7 :: zword)"
abbreviation (input) "O1_SIZE \<equiv> (9 :: zword)"
abbreviation (input) "O4_PARENT \<equiv> (6 :: zword)"
abbreviation (input) "O4_SIBLING \<equiv> (8 :: zword)"
abbreviation (input) "O4_CHILD \<equiv> (10 :: zword)"
abbreviation (input) "O4_PROPERTY_OFFSET \<equiv> (12 :: zword)"
abbreviation (input) "O4_SIZE \<equiv> (14 :: zword)"

definition object_address :: "zword \<Rightarrow> zstate \<Rightarrow> (zword \<times> zstate) res" where
  "object_address obj s =
     andthen
       (if obj > (if version s \<le> V3 then 255 else MAX_OBJECT) then
          andthen (print_string (zs ''@Attempt to address illegal object '') s) (\<lambda>s.
          andthen (print_num obj s) (\<lambda>s.
          andthen (print_string (zs ''.  This is normally fatal.'') s) (\<lambda>s.
          andthen (new_line s) (runtime_error ERR_ILL_OBJ))))
        else Ok s)
       (\<lambda>s. Ok
         (if version s \<le> V3 then h_objects (hdr s) + ((obj - 1) * O1_SIZE + 62)
          else h_objects (hdr s) + ((obj - 1) * O4_SIZE + 126), s))"

definition object_name :: "zword \<Rightarrow> zstate \<Rightarrow> (zword \<times> zstate) res" where
  "object_name object s =
     andthen (object_address object s) (\<lambda>(obj_addr, s).
       let obj_addr =
         obj_addr + (if version s \<le> V3 then O1_PROPERTY_OFFSET else O4_PROPERTY_OFFSET) in
       andthen (low_word (uint obj_addr) s) (\<lambda>name_addr. Ok (name_addr, s)))"

end
