(* ===== verification/Text.thy ===== *)
theory Text
  imports ObjectBase Process
begin

text \<open>
  Text routines (text.c): the alphabets, encoding of dictionary words, decoding of Z-strings, the
  printing opcodes, dictionary look-up, the tokeniser and word completion.

  The two static arrays \<open>decoded\<close> and \<open>encoded\<close> are fields of the state; an index outside them is
  \<open>Stop (Bad_buffer i)\<close>.
\<close>

subsection \<open>The static arrays\<close>

definition decoded_get :: "int \<Rightarrow> zstate \<Rightarrow> zchar res" where
  "decoded_get i s = (if 0 \<le> i \<and> i < 10 then Ok (decoded s i) else Stop (Bad_buffer i))"

definition decoded_set :: "int \<Rightarrow> zchar \<Rightarrow> zstate \<Rightarrow> zstate res" where
  "decoded_set i c s =
     (if 0 \<le> i \<and> i < 10 then Ok (s\<lparr>decoded := (decoded s)(i := c)\<rparr>) else Stop (Bad_buffer i))"

lemma decoded_get_eq_Ok: "decoded_get i s = Ok c \<longleftrightarrow> 0 \<le> i \<and> i < 10 \<and> c = decoded s i"
  by (auto simp: decoded_get_def)

subsection \<open>The alphabets\<close>

definition alphabet_v1 :: "zchar list" where
  "alphabet_v1 =
     zs '' 0123456789.,!?_#'' @ [0x27, 0x22, 0x2f, 0x5c] @ zs ''<-:()''"

definition alphabet_v2 :: "zchar list" where
  "alphabet_v2 =
     zs '' ^0123456789.,!?_#'' @ [0x27, 0x22, 0x2f, 0x5c] @ zs ''-:()''"

definition alphabet :: "int \<Rightarrow> int \<Rightarrow> zstate \<Rightarrow> zchar res" where
  "alphabet cset index s =
     (if h_alphabet (hdr s) \<noteq> 0 then
        (let addr = h_alphabet (hdr s) + 26 * word_of_int cset + word_of_int index in
         andthen (low_byte (uint addr) s) (\<lambda>c. translate_from_zscii c s))
      else if cset = 0 then Ok (0x61 + word_of_int index)
      else if cset = 1 then Ok (0x41 + word_of_int index)
      else if version s = V1 then Ok (alphabet_v1 ! nat index)
      else Ok (alphabet_v2 ! nat index))"

subsection \<open>Encoding dictionary words\<close>

definition resolution :: "zstate \<Rightarrow> nat" where
  "resolution s = (if version s \<le> V3 then 2 else 3)"

text \<open>\<open>load_string\<close>: \<open>n\<close> positions to go, at position \<open>i\<close>.\<close>

fun load_chars :: "nat \<Rightarrow> int \<Rightarrow> zword \<Rightarrow> zword \<Rightarrow> zstate \<Rightarrow> zstate res" where
  "load_chars 0 i addr len s = Ok s"
| "load_chars (Suc n) i addr len s =
     (if i < uint len then
        andthen (low_byte (uint addr) s) (\<lambda>c.
        andthen (translate_from_zscii c s) (\<lambda>c.
        andthen (decoded_set i c s) (load_chars n (i + 1) (addr + 1) len)))
      else andthen (decoded_set i 0 s) (load_chars n (i + 1) addr len))"

definition load_string :: "zword \<Rightarrow> zword \<Rightarrow> zstate \<Rightarrow> zstate res" where
  "load_string addr len s = load_chars (3 * resolution s) 0 addr len s"

text \<open>
  Where \<open>ptr\<close> of \<open>encode_text\<close> points: into \<open>decoded\<close>, or into one of the three constant arrays.
\<close>

datatype text_ptr = In_decoded | In_constant "zchar list"

definition ptr_get :: "text_ptr \<Rightarrow> int \<Rightarrow> zstate \<Rightarrow> zchar res" where
  "ptr_get p i s =
     (case p of
        In_decoded \<Rightarrow> decoded_get i s
      | In_constant t \<Rightarrow>
          if 0 \<le> i \<and> i < int (length t) then Ok (t ! nat i) else Stop (Bad_buffer i))"

definition again :: "zchar list" where "again = zs ''again'' @ [0]"
definition examine :: "zchar list" where "examine = zs ''examine'' @ [0]"
definition wait :: "zchar list" where "wait = zs ''wait'' @ [0]"

definition encode_source :: "zbyte \<Rightarrow> zstate \<Rightarrow> text_ptr" where
  "encode_source padding s =
     (if expand_abbreviations (f_setup s) \<and> padding = 5 \<and> decoded s 1 = 0 then
        (if decoded s 0 = 0x67 then In_constant again
         else if decoded s 0 = 0x78 then In_constant examine
         else if decoded s 0 = 0x7a then In_constant wait
         else In_decoded)
      else In_decoded)"

text \<open>The two \<open>for\<close> loops that look a character up, over the positions still to be tried.\<close>

fun find_letter :: "zchar \<Rightarrow> (int \<times> int) list \<Rightarrow> zstate \<Rightarrow> (int \<times> int) option res" where
  "find_letter c [] s = Ok None"
| "find_letter c ((cset, index) # ps) s =
     andthen (alphabet cset index s) (\<lambda>a.
       if c = a then Ok (Some (cset, index)) else find_letter c ps s)"

definition alphabet_positions :: "(int \<times> int) list" where
  "alphabet_positions = concat (map (\<lambda>cset. map (Pair cset) [0..25]) [0, 1, 2])"

text \<open>The Z-characters of one character.\<close>

definition encode_char :: "zchar \<Rightarrow> zstate \<Rightarrow> zbyte list res" where
  "encode_char c s =
     andthen (find_letter c alphabet_positions s) (\<lambda>found.
       case found of
         None \<Rightarrow>
           andthen (translate_to_zscii c s) (\<lambda>c2. Ok [5, 6, drop_bit 5 c2, c2 AND 0x1f])
       | Some (cset, index) \<Rightarrow>
           Ok ((if cset \<noteq> 0 then [(if version s \<le> V2 then 1 else 3) + word_of_int cset] else []) @
               [word_of_int (index + 6)]))"

lemma encode_char_length:
  "encode_char c s = Ok zc \<Longrightarrow> 1 \<le> length zc \<and> length zc \<le> 4"
  by (auto simp: encode_char_def andthen_eq_Ok split: option.splits)

text \<open>
  The \<open>while\<close> loop. \<open>zchars\<close> is the array filled so far and \<open>limit\<close> is \<open>3 * resolution\<close>. The
  pointer moves on at every round, also when it has read the final zero.
\<close>

function encode_loop :: "nat \<Rightarrow> zbyte \<Rightarrow> text_ptr \<Rightarrow> int \<Rightarrow> zbyte list \<Rightarrow> zstate \<Rightarrow> zbyte list res" where
  "encode_loop limit padding p j zchars s =
     (if length zchars < limit then
        andthen (ptr_get p j s) (\<lambda>c.
          if c \<noteq> 0 then
            andthen (encode_char c s) (\<lambda>zc. encode_loop limit padding p (j + 1) (zchars @ zc) s)
          else encode_loop limit padding p (j + 1) (zchars @ [padding]) s)
      else Ok zchars)"
  by pat_completeness auto
termination
  by (relation "measure (\<lambda>(limit, padding, p, j, zchars, s). limit - length zchars)")
    (auto dest!: encode_char_length)

declare encode_loop.simps [simp del]

text \<open>Three Z-characters make a word.\<close>

definition pack_zchars :: "zbyte \<Rightarrow> zbyte \<Rightarrow> zbyte \<Rightarrow> zword" where
  "pack_zchars a b c = push_bit 10 (ucast a) OR push_bit 5 (ucast b) OR ucast c"

fun pack_words :: "nat \<Rightarrow> int \<Rightarrow> zbyte list \<Rightarrow> (int \<Rightarrow> zword) \<Rightarrow> (int \<Rightarrow> zword)" where
  "pack_words 0 i zchars e = e"
| "pack_words (Suc n) i zchars e =
     pack_words n (i + 1) zchars
       (e(i := pack_zchars (zchars ! nat (3 * i)) (zchars ! nat (3 * i + 1))
                 (zchars ! nat (3 * i + 2))))"

definition encode_text :: "zbyte \<Rightarrow> zstate \<Rightarrow> zstate res" where
  "encode_text padding s =
     (let r = resolution s in
      andthen (encode_loop (3 * r) padding (encode_source padding s) 0 [] s) (\<lambda>zchars.
        let e = pack_words r 0 zchars (encoded s) in
        Ok (s\<lparr>encoded := e(int r - 1 := e (int r - 1) OR 0x8000)\<rparr>)))"

definition z_check_unicode :: "zstate \<Rightarrow> zstate res" where
  "z_check_unicode s =
     (let c = zargs s 0 in
      if 0x20 \<le> c \<and> c \<le> 0x7e then store 3 s
      else if c = 0xa0 then store 1 s
      else if 0xa1 \<le> c \<and> c \<le> 0xff then store 3 s
      else store 0 s)"

definition z_encode_text :: "zstate \<Rightarrow> zstate res" where
  "z_encode_text s =
     andthen (load_string (zargs s 0 + zargs s 2) (zargs s 1) s) (\<lambda>s.
     andthen (encode_text 5 s) (\<lambda>s.
     andthen (storew (zargs s 3 + 0) (encoded s 0) s) (\<lambda>s.
     andthen (storew (zargs s 3 + 2) (encoded s 1) s) (\<lambda>s.
     storew (zargs s 3 + 4) (encoded s 2) s))))"

subsection \<open>Decoding Z-strings\<close>

datatype string_type = LOW_STRING | ABBREVIATION | HIGH_STRING | EMBEDDED_STRING | VOCABULARY

text \<open>The local variables of \<open>decode_text\<close> that live through its loop; \<open>d_ptr\<close> is \<open>ptr - decoded\<close>.\<close>

record decoder =
  d_addr :: zword
  d_byte_addr :: int
  d_ptr :: int
  d_prev :: zbyte
  d_shift :: int
  d_lock :: int
  d_status :: int

text \<open>The macro \<open>outchar\<close>.\<close>

definition outchar :: "string_type \<Rightarrow> zchar \<Rightarrow> decoder \<Rightarrow> zstate \<Rightarrow> (decoder \<times> zstate) res" where
  "outchar st c d s =
     (if st = VOCABULARY then
        andthen (decoded_set (d_ptr d) c s) (\<lambda>s. Ok (d\<lparr>d_ptr := d_ptr d + 1\<rparr>, s))
      else andthen (print_char c s) (\<lambda>s. Ok (d, s)))"

text \<open>
  The body of the \<open>for\<close> loop: one Z-character. \<open>rec\<close> prints an abbreviation (the recursive call).
\<close>

definition decode_zchar ::
    "(zword \<Rightarrow> zstate \<Rightarrow> zstate res) \<Rightarrow> string_type \<Rightarrow> zbyte \<Rightarrow> decoder \<Rightarrow> zstate \<Rightarrow>
      (decoder \<times> zstate) res" where
  "decode_zchar rec st c d s =
     andthen
       (let v = version s; unshift = (\<lambda>(d, s). Ok (d\<lparr>d_shift := d_lock d\<rparr>, s)) in
        if d_status d = 0 then
          (if d_shift d = 2 \<and> c = 6 then unshift (d\<lparr>d_status := 2\<rparr>, s)
           else if v = V1 \<and> c = 1 then andthen (new_line s) (\<lambda>s. unshift (d, s))
           else if V2 \<le> v \<and> d_shift d = 2 \<and> c = 7 then andthen (new_line s) (\<lambda>s. unshift (d, s))
           else if 6 \<le> c then
             andthen (alphabet (d_shift d) (uint c - 6) s) (\<lambda>a.
             andthen (outchar st a d s) unshift)
           else if c = 0 then andthen (outchar st CH_SPACE d s) unshift
           else if V2 \<le> v \<and> c = 1 then unshift (d\<lparr>d_status := 1\<rparr>, s)
           else if V3 \<le> v \<and> c \<le> 3 then unshift (d\<lparr>d_status := 1\<rparr>, s)
           else
             (let sh = (d_lock d + uint (c AND 1) + 1) mod 3 in
              Ok (d\<lparr>d_shift := sh, d_lock := (if v \<le> V2 \<and> 4 \<le> c then sh else d_lock d)\<rparr>, s)))
        else if d_status d = 1 then
          (let ptr_addr =
             h_abbreviations (hdr s) + 64 * (ucast (d_prev d) - 1) + 2 * ucast c in
           andthen (low_word (uint ptr_addr) s) (\<lambda>abbr_addr.
           andthen (rec abbr_addr s) (\<lambda>s. Ok (d\<lparr>d_status := 0\<rparr>, s))))
        else if d_status d = 2 then Ok (d\<lparr>d_status := 3\<rparr>, s)
        else
          andthen (translate_from_zscii (push_bit 5 (d_prev d) OR c) s) (\<lambda>c2.
          andthen (outchar st c2 d s) (\<lambda>(d, s). Ok (d\<lparr>d_status := 0\<rparr>, s))))
       (\<lambda>(d, s). Ok (d\<lparr>d_prev := c\<rparr>, s))"

lemma decode_zchar_mono [partial_function_mono]:
  assumes "\<And>a s. mono_option (\<lambda>f. R f a s)"
  shows "mono_option (\<lambda>f. decode_zchar (R f) st c d s)"
  unfolding decode_zchar_def Let_def by (intro andthen_mono if_mono call_mono option.const_mono assms)

text \<open>The next word of the string, and the three Z-characters in a word.\<close>

definition fetch_code :: "string_type \<Rightarrow> decoder \<Rightarrow> zstate \<Rightarrow> (zword \<times> decoder \<times> zstate) res" where
  "fetch_code st d s =
     (if st = LOW_STRING \<or> st = VOCABULARY then
        andthen (low_word (uint (d_addr d)) s) (\<lambda>code. Ok (code, d\<lparr>d_addr := d_addr d + 2\<rparr>, s))
      else if st = HIGH_STRING \<or> st = ABBREVIATION then
        andthen (low_word (d_byte_addr d) s) (\<lambda>code.
          Ok (code, d\<lparr>d_byte_addr := d_byte_addr d + 2\<rparr>, s))
      else andthen (code_word s) (\<lambda>(code, s). Ok (code, d, s)))"

definition zchar_at :: "nat \<Rightarrow> zword \<Rightarrow> zbyte" where
  "zchar_at i code = ucast (drop_bit i code AND 0x1f)"

definition decoder_init :: "zword \<Rightarrow> int \<Rightarrow> decoder" where
  "decoder_init addr byte_addr =
     \<lparr>d_addr = addr, d_byte_addr = byte_addr, d_ptr = 0, d_prev = 0, d_shift = 0, d_lock = 0,
      d_status = 0\<rparr>"

text \<open>
  The \<open>do\<close> loop with the recursive call for abbreviations in it. It need not end: an abbreviation
  may contain itself.
\<close>

partial_function (option) decode_loop ::
    "string_type \<Rightarrow> decoder \<Rightarrow> zstate \<Rightarrow> (decoder \<times> zstate) res" where
  "decode_loop st d s =
     andthen (fetch_code st d s) (\<lambda>(code, d, s).
     andthen (decode_zchar
       (\<lambda>a s. andthen (decode_loop ABBREVIATION (decoder_init a (2 * uint a)) s) (\<lambda>(d, s). Ok s))
       st (zchar_at 10 code) d s) (\<lambda>(d, s).
     andthen (decode_zchar
       (\<lambda>a s. andthen (decode_loop ABBREVIATION (decoder_init a (2 * uint a)) s) (\<lambda>(d, s). Ok s))
       st (zchar_at 5 code) d s) (\<lambda>(d, s).
     andthen (decode_zchar
       (\<lambda>a s. andthen (decode_loop ABBREVIATION (decoder_init a (2 * uint a)) s) (\<lambda>(d, s). Ok s))
       st (zchar_at 0 code) d s) (\<lambda>(d, s).
       if code AND 0x8000 \<noteq> 0 then Ok (d, s) else decode_loop st d s))))"

text \<open>The byte address of a packed string address.\<close>

definition string_addr :: "zword \<Rightarrow> zstate \<Rightarrow> int" where
  "string_addr addr s =
     (if version s \<le> V3 then uint addr * 2
      else if version s \<le> V5 then uint addr * 4
      else if version s \<le> V7 then uint addr * 4 + uint (h_strings_offset (hdr s)) * 8
      else uint addr * 8)"

definition decode_text :: "string_type \<Rightarrow> zword \<Rightarrow> zstate \<Rightarrow> zstate res" where
  "decode_text st addr s =
     (let byte_addr =
        (if st = ABBREVIATION then 2 * uint addr
         else if st = HIGH_STRING then string_addr addr s else 0) in
      andthen
        (if st = HIGH_STRING \<and> story_size s \<le> byte_addr then runtime_error ERR_ILL_PRINT_ADDR s
         else Ok s) (\<lambda>s.
      andthen (decode_loop st (decoder_init addr byte_addr) s) (\<lambda>(d, s).
        if st = VOCABULARY then decoded_set (d_ptr d) 0 s else Ok s)))"

subsection \<open>Printing opcodes\<close>

definition z_new_line :: "zstate \<Rightarrow> zstate res" where
  "z_new_line s = new_line s"

definition z_print :: "zstate \<Rightarrow> zstate res" where
  "z_print s = decode_text EMBEDDED_STRING 0 s"

definition z_print_addr :: "zstate \<Rightarrow> zstate res" where
  "z_print_addr s = decode_text LOW_STRING (zargs s 0) s"

definition z_print_char :: "zstate \<Rightarrow> zstate res" where
  "z_print_char s =
     andthen (translate_from_zscii (ucast (zargs s 0)) s) (\<lambda>c. print_char c s)"

text \<open>\<open>z_print_form\<close>: the inner loop over \<open>count\<close> characters, and the loop over the lines.\<close>

fun print_table_line :: "nat \<Rightarrow> zword \<Rightarrow> zstate \<Rightarrow> (zword \<times> zstate) res" where
  "print_table_line 0 addr s = Ok (addr, s)"
| "print_table_line (Suc n) addr s =
     andthen (low_byte (uint addr) s) (\<lambda>c.
     andthen (translate_from_zscii c s) (\<lambda>c.
     andthen (print_char c s) (print_table_line n (addr + 1))))"

partial_function (option) print_form_loop :: "bool \<Rightarrow> zword \<Rightarrow> zstate \<Rightarrow> zstate res" where
  "print_form_loop first addr s =
     andthen (low_word (uint addr) s) (\<lambda>count.
       if count = 0 then Ok s
       else
         andthen (if \<not> first then new_line s else Ok s) (\<lambda>s.
         andthen (print_table_line (unat count) (addr + 2) s) (\<lambda>(addr, s).
           print_form_loop False addr s)))"

definition z_print_form :: "zstate \<Rightarrow> zstate res" where
  "z_print_form s = print_form_loop True (zargs s 0) s"

definition print_object :: "zword \<Rightarrow> zstate \<Rightarrow> zstate res" where
  "print_object object s =
     andthen (object_name object s) (\<lambda>(addr, s).
     andthen (low_byte (uint addr) s) (\<lambda>length.
     let addr = addr + 1 in
     andthen (if length \<noteq> 0 then low_word (uint addr) s else Ok 0x94a5) (\<lambda>code.
       if code = 0x94a5 then
         andthen (print_string (zs ''object#'') s) (print_num object)
       else decode_text LOW_STRING addr s)))"

definition z_print_obj :: "zstate \<Rightarrow> zstate res" where
  "z_print_obj s = print_object (zargs s 0) s"

definition z_print_paddr :: "zstate \<Rightarrow> zstate res" where
  "z_print_paddr s = decode_text HIGH_STRING (zargs s 0) s"

definition z_print_ret :: "zstate \<Rightarrow> zstate res" where
  "z_print_ret s =
     andthen (decode_text EMBEDDED_STRING 0 s) (\<lambda>s. andthen (new_line s) (ret 1))"

definition z_print_unicode :: "zstate \<Rightarrow> zstate res" where
  "z_print_unicode s =
     print_char (if zargs s 0 \<le> 0xff then ucast (zargs s 0) else CH_QUERY) s"

subsection \<open>Dictionary look-up\<close>

text \<open>
  The comparison of \<open>encoded\<close> with an entry, \<open>n\<close> words to go: \<open>None\<close> when they are equal, and
  otherwise the two words in the first position where they differ (\<open>encoded[i]\<close>, \<open>entry\<close>).
\<close>

fun compare_entry :: "nat \<Rightarrow> int \<Rightarrow> zword \<Rightarrow> zstate \<Rightarrow> (zword \<times> zword) option res" where
  "compare_entry 0 i addr s = Ok None"
| "compare_entry (Suc n) i addr s =
     andthen (low_word (uint addr) s) (\<lambda>entry.
       if encoded s i \<noteq> entry then Ok (Some (encoded s i, entry))
       else compare_entry n (i + 1) (addr + 2) s)"

datatype search_result = Found zword | Not_found int int

text \<open>The search loop, binary or linear; it returns the final \<open>lower\<close> and \<open>upper\<close> when it fails.\<close>

function search_loop :: "bool \<Rightarrow> zword \<Rightarrow> zbyte \<Rightarrow> int \<Rightarrow> int \<Rightarrow> zstate \<Rightarrow> search_result res" where
  "search_loop srt dct entry_len lower upper s =
     (if lower \<le> upper then
        (let entry_number = (if srt then (lower + upper) div 2 else lower);
             entry_addr = dct + word_of_int entry_number * ucast entry_len in
         andthen (compare_entry (resolution s) 0 entry_addr s) (\<lambda>r.
           case r of
             None \<Rightarrow> Ok (Found entry_addr)
           | Some (e, entry) \<Rightarrow>
               if srt then
                 (if e > entry then search_loop srt dct entry_len (entry_number + 1) upper s
                  else search_loop srt dct entry_len lower (entry_number - 1) s)
               else search_loop srt dct entry_len (lower + 1) upper s))
      else Ok (Not_found lower upper))"
  by pat_completeness auto
termination
  by (relation "measure (\<lambda>(srt, dct, len, lower, upper, s). nat (upper - lower + 1))") auto

declare search_loop.simps [simp del]

definition lookup_text :: "zbyte \<Rightarrow> zword \<Rightarrow> zstate \<Rightarrow> (zword \<times> zstate) res" where
  "lookup_text padding dct s =
     andthen (encode_text padding s) (\<lambda>s.
     andthen (low_byte (uint dct) s) (\<lambda>sep_count.
     let dct = dct + (1 + ucast sep_count) in
     andthen (low_byte (uint dct) s) (\<lambda>entry_len.
     let dct = dct + 1 in
     andthen (low_word (uint dct) s) (\<lambda>count.
     let dct = dct + 2;
         srt = \<not> sint count < 0;
         entry_count = (if sint count < 0 then word_of_int (- sint count) else count) in
     andthen (search_loop srt dct entry_len 0 (uint entry_count - 1) s) (\<lambda>r.
       case r of
         Found entry_addr \<Rightarrow> Ok (entry_addr, s)
       | Not_found lower upper \<Rightarrow>
           if padding = 5 then Ok (0, s)
           else
             (let entry_number = (if padding = 0 then lower else upper) in
              if entry_number = -1 \<or> entry_number = uint entry_count then Ok (0, s)
              else Ok (dct + word_of_int entry_number * ucast entry_len, s)))))))"

subsection \<open>The tokeniser\<close>

definition tokenise_text ::
    "zword \<Rightarrow> zword \<Rightarrow> zword \<Rightarrow> zword \<Rightarrow> zword \<Rightarrow> bool \<Rightarrow> zstate \<Rightarrow> zstate res" where
  "tokenise_text text len from parse dct flag s =
     andthen (low_byte (uint parse) s) (\<lambda>token_max.
     let parse = parse + 1 in
     andthen (low_byte (uint parse) s) (\<lambda>token_count.
       if token_count < token_max then
         andthen (storeb parse (token_count + 1) s) (\<lambda>s.
         let parse = parse + 1 in
         andthen (load_string (text + from) len s) (\<lambda>s.
         andthen (lookup_text 5 dct s) (\<lambda>(addr, s).
           if addr \<noteq> 0 \<or> \<not> flag then
             (let parse = parse + 4 * ucast token_count in
              andthen (storew (parse + 0) addr s) (\<lambda>s.
              andthen (storeb (parse + 2) (ucast len) s) (\<lambda>s.
              storeb (parse + 3) (ucast from) s)))
           else Ok s)))
       else Ok s))"

text \<open>
  The separator loop of \<open>tokenise_line\<close>, whose counter is a byte: it returns the final
  \<open>sep_count\<close>, which is 0 when no separator is equal to \<open>c\<close>. \<open>n\<close> bounds the rounds; a byte that
  is decremented before each test comes to 0 within 256 of them.
\<close>

fun separator_loop :: "nat \<Rightarrow> zbyte \<Rightarrow> zword \<Rightarrow> zbyte \<Rightarrow> zstate \<Rightarrow> zbyte res" where
  "separator_loop 0 c sep_addr sep_count s = Ok sep_count"
| "separator_loop (Suc n) c sep_addr sep_count s =
     andthen (low_byte (uint sep_addr) s) (\<lambda>separator.
       if c \<noteq> separator then
         (if sep_count - 1 \<noteq> 0 then separator_loop n c (sep_addr + 1) (sep_count - 1) s
          else Ok 0)
       else Ok sep_count)"

text \<open>
  The main loop; \<open>addr1\<close> and \<open>addr2\<close> are its two pointers, \<open>len\<close> the length byte of a V5 text
  buffer. The addresses wrap, so the loop need not end.
\<close>

partial_function (option) tokenise_loop ::
    "zword \<Rightarrow> zword \<Rightarrow> zword \<Rightarrow> bool \<Rightarrow> zbyte \<Rightarrow> zword \<Rightarrow> zword \<Rightarrow> zstate \<Rightarrow> zstate res" where
  "tokenise_loop text token dct flag len addr1 addr2 s =
     (let addr1 = addr1 + 1 in
      andthen
        (if V5 \<le> version s \<and> uint addr1 = uint text + 2 + uint len then Ok 0
         else low_byte (uint addr1) s) (\<lambda>c.
      andthen (low_byte (uint dct) s) (\<lambda>count.
      andthen (separator_loop 256 c (dct + 1) count s) (\<lambda>sep_count.
      andthen
        (if sep_count = 0 \<and> c \<noteq> CH_SPACE \<and> c \<noteq> 0 then
           Ok (if addr2 = 0 then addr1 else addr2, s)
         else if addr2 \<noteq> 0 then
           andthen (tokenise_text text (addr1 - addr2) (addr2 - text) token dct flag s)
             (\<lambda>s. Ok (0, s))
         else Ok (addr2, s)) (\<lambda>(addr2, s).
      andthen
        (if sep_count \<noteq> 0 then tokenise_text text 1 (addr1 - text) token dct flag s else Ok s)
        (\<lambda>s.
           if c \<noteq> 0 then tokenise_loop text token dct flag len addr1 addr2 s else Ok s))))))"

definition tokenise_line :: "zword \<Rightarrow> zword \<Rightarrow> zword \<Rightarrow> bool \<Rightarrow> zstate \<Rightarrow> zstate res" where
  "tokenise_line text token dct flag s =
     (let dct = (if dct = 0 then h_dictionary (hdr s) else dct) in
      andthen (storeb (token + 1) 0 s) (\<lambda>s.
      andthen
        (if V5 \<le> version s then
           andthen (low_byte (uint (text + 1)) s) (\<lambda>len. Ok (text + 1, len))
         else Ok (text, 0)) (\<lambda>(addr1, len).
      tokenise_loop text token dct flag len addr1 0 s)))"

definition z_tokenise :: "zstate \<Rightarrow> zstate res" where
  "z_tokenise s =
     (let s = (if zargc s < 3 then s\<lparr>zargs := (zargs s)(2 := 0)\<rparr> else s);
          s = (if zargc s < 4 then s\<lparr>zargs := (zargs s)(3 := 0)\<rparr> else s) in
      tokenise_line (zargs s 0) (zargs s 1) (zargs s 2) (zargs s 3 \<noteq> 0) s)"

subsection \<open>Word completion\<close>

text \<open>The loop over the input line: the characters of its last word, at most nine.\<close>

fun copy_last_word :: "zchar list \<Rightarrow> int \<Rightarrow> zstate \<Rightarrow> (int \<times> zstate) res" where
  "copy_last_word [] n s = Ok (n, s)"
| "copy_last_word (c # buffer) n s =
     (if c \<noteq> CH_SPACE then
        (if n < 9 then andthen (decoded_set n c s) (copy_last_word buffer (n + 1))
         else copy_last_word buffer n s)
      else copy_last_word buffer 0 s)"

text \<open>The string in \<open>decoded\<close> from position \<open>i\<close> on.\<close>

function decoded_from :: "int \<Rightarrow> zstate \<Rightarrow> zchar list res" where
  "decoded_from i s =
     andthen (decoded_get i s) (\<lambda>c.
       if c \<noteq> 0 then andthen (decoded_from (i + 1) s) (\<lambda>cs. Ok (c # cs)) else Ok [])"
  by pat_completeness auto
termination
  by (relation "measure (\<lambda>(i, s). nat (10 - i))") (auto simp: decoded_get_eq_Ok)

declare decoded_from.simps [simp del]

fun common_prefix :: "zchar list \<Rightarrow> zchar list \<Rightarrow> zchar list" where
  "common_prefix (x # xs) (y # ys) = (if x = y then x # common_prefix xs ys else [])"
| "common_prefix _ _ = []"

text \<open>
  \<open>completion buffer\<close> returns the code and the string left in \<open>result\<close>. The input line \<open>buffer\<close>
  is given without its final zero.
\<close>

definition completion :: "zchar list \<Rightarrow> zstate \<Rightarrow> (int \<times> zchar list \<times> zstate) res" where
  "completion buffer s =
     andthen (copy_last_word buffer 0 s) (\<lambda>(len, s).
     andthen (decoded_set len 0 s) (\<lambda>s.
     andthen (lookup_text 0x00 (h_dictionary (hdr s)) s) (\<lambda>(minaddr, s).
     andthen (lookup_text 0x1f (h_dictionary (hdr s)) s) (\<lambda>(maxaddr, s).
       if minaddr = 0 \<or> maxaddr = 0 \<or> minaddr > maxaddr then Ok (2, [], s)
       else
         andthen (decode_text VOCABULARY minaddr s) (\<lambda>s.
         andthen (decoded_from len s) (\<lambda>result.
         andthen (decode_text VOCABULARY maxaddr s) (\<lambda>s.
         andthen (decoded_from len s) (\<lambda>second.
           Ok (if minaddr = maxaddr then 0 else 1, common_prefix result second, s)))))))))"

end
