(* ===== verification/Objects.thy ===== *)
theory Objects
  imports Text
begin

text \<open>
  Object opcodes (object.c): the object tree (parent, sibling and child links), attributes and
  properties. Up to V3 a link is a byte of the object's entry, from V4 on a word; the source writes
  every operation out for both layouts, and here the operation takes the layout's accesses and
  offsets from \<open>link_read\<close>, \<open>link_write\<close> and the offset functions.
\<close>

subsection \<open>The two layouts\<close>

definition link_read :: "zword \<Rightarrow> zstate \<Rightarrow> zword res" where
  "link_read addr s =
     (if version s \<le> V3 then andthen (low_byte (uint addr) s) (\<lambda>v. Ok (ucast v))
      else low_word (uint addr) s)"

definition link_write :: "zword \<Rightarrow> zword \<Rightarrow> zstate \<Rightarrow> zstate res" where
  "link_write addr v s =
     (if version s \<le> V3 then set_byte (uint addr) (ucast v) s else set_word (uint addr) v s)"

definition parent_offset :: "zstate \<Rightarrow> zword" where
  "parent_offset s = (if version s \<le> V3 then O1_PARENT else O4_PARENT)"

definition sibling_offset :: "zstate \<Rightarrow> zword" where
  "sibling_offset s = (if version s \<le> V3 then O1_SIBLING else O4_SIBLING)"

definition child_offset :: "zstate \<Rightarrow> zword" where
  "child_offset s = (if version s \<le> V3 then O1_CHILD else O4_CHILD)"

subsection \<open>Moving objects in the tree\<close>

text \<open>
  The \<open>do\<close> loop of \<open>unlink_object\<close> along the sibling chain, from the sibling \<open>younger\<close> on: it
  returns the address of the sibling link that holds \<open>object\<close>. The chain may be circular.
\<close>

partial_function (option) sibling_loop :: "zword \<Rightarrow> zword \<Rightarrow> zstate \<Rightarrow> (zword \<times> zstate) res" where
  "sibling_loop object younger s =
     andthen (object_address younger s) (\<lambda>(a, s).
     let sibling_addr = a + sibling_offset s in
     andthen (link_read sibling_addr s) (\<lambda>younger.
       if younger \<noteq> object then sibling_loop object younger s else Ok (sibling_addr, s)))"

definition unlink_object :: "zword \<Rightarrow> zstate \<Rightarrow> zstate res" where
  "unlink_object object s =
     (if object = 0 then runtime_error ERR_REMOVE_OBJECT_0 s
      else
        andthen (object_address object s) (\<lambda>(obj_addr, s).
        let obj_addr = obj_addr + parent_offset s in
        andthen (link_read obj_addr s) (\<lambda>parent.
          if parent = 0 then Ok s
          else
            andthen (link_write obj_addr 0 s) (\<lambda>s.
            let obj_addr = obj_addr + (sibling_offset s - parent_offset s) in
            andthen (link_read obj_addr s) (\<lambda>older_sibling.
            andthen (link_write obj_addr 0 s) (\<lambda>s.
            andthen (object_address parent s) (\<lambda>(a, s).
            let parent_addr = a + child_offset s in
            andthen (link_read parent_addr s) (\<lambda>younger_sibling.
              if younger_sibling = object then link_write parent_addr older_sibling s
              else
                andthen (sibling_loop object younger_sibling s) (\<lambda>(sibling_addr, s).
                  link_write sibling_addr older_sibling s)))))))))"

text \<open>The short notes that the debugging options ask for.\<close>

definition monitor :: "bool \<Rightarrow> (zstate \<Rightarrow> zstate res) \<Rightarrow> zstate \<Rightarrow> zstate res" where
  "monitor flag note s =
     (if flag then andthen (stream_mssg_on s) (\<lambda>s. andthen (note s) stream_mssg_off) else Ok s)"

definition note_object :: "string \<Rightarrow> zword \<Rightarrow> zstate \<Rightarrow> zstate res" where
  "note_object t obj s = andthen (print_string (zs t) s) (print_object obj)"

definition note_objects :: "string \<Rightarrow> zword \<Rightarrow> zword \<Rightarrow> zstate \<Rightarrow> zstate res" where
  "note_objects t obj1 obj2 s =
     andthen (note_object t obj1 s) (\<lambda>s.
     andthen (print_string (zs '' '') s) (print_object obj2))"

definition note_attr :: "string \<Rightarrow> zword \<Rightarrow> zword \<Rightarrow> zstate \<Rightarrow> zstate res" where
  "note_attr t obj attr s =
     andthen (note_object t obj s) (\<lambda>s.
     andthen (print_string (zs '' '') s) (print_num attr))"

definition z_insert_obj :: "zstate \<Rightarrow> zstate res" where
  "z_insert_obj s =
     (let obj1 = zargs s 0; obj2 = zargs s 1 in
      andthen (monitor (object_movement (f_setup s)) (note_objects ''@move_obj '' obj1 obj2) s) (\<lambda>s.
        if obj1 = 0 then runtime_error ERR_MOVE_OBJECT_0 s
        else if obj2 = 0 then runtime_error ERR_MOVE_OBJECT_TO_0 s
        else
          andthen (object_address obj1 s) (\<lambda>(obj1_addr, s).
          andthen (object_address obj2 s) (\<lambda>(obj2_addr, s).
          andthen (unlink_object obj1 s) (\<lambda>s.
          let obj1_addr = obj1_addr + parent_offset s in
          andthen (link_write obj1_addr obj2 s) (\<lambda>s.
          let obj2_addr = obj2_addr + child_offset s in
          andthen (link_read obj2_addr s) (\<lambda>child.
          andthen (link_write obj2_addr obj1 s) (\<lambda>s.
          link_write (obj1_addr + (sibling_offset s - parent_offset s)) child s))))))))"

definition z_remove_obj :: "zstate \<Rightarrow> zstate res" where
  "z_remove_obj s =
     andthen (monitor (object_movement (f_setup s)) (note_object ''@remove_obj '' (zargs s 0)) s)
       (\<lambda>s. unlink_object (zargs s 0) s)"

definition z_jin :: "zstate \<Rightarrow> zstate res" where
  "z_jin s =
     andthen (monitor (object_locating (f_setup s))
       (note_objects ''@jin '' (zargs s 0) (zargs s 1)) s) (\<lambda>s.
       if zargs s 0 = 0 then
         andthen (runtime_error ERR_JIN_0 s) (\<lambda>s. branch (0 = zargs s 1) s)
       else
         andthen (object_address (zargs s 0) s) (\<lambda>(obj_addr, s).
         andthen (link_read (obj_addr + parent_offset s) s) (\<lambda>parent.
           branch (parent = zargs s 1) s)))"

definition z_get_child :: "zstate \<Rightarrow> zstate res" where
  "z_get_child s =
     andthen (monitor (object_locating (f_setup s)) (note_object ''@get_child '' (zargs s 0)) s) (\<lambda>s.
       if zargs s 0 = 0 then
         andthen (runtime_error ERR_GET_CHILD_0 s) (\<lambda>s. andthen (store 0 s) (branch False))
       else
         andthen (object_address (zargs s 0) s) (\<lambda>(obj_addr, s).
         andthen (link_read (obj_addr + child_offset s) s) (\<lambda>child.
         andthen (store child s) (branch (child \<noteq> 0)))))"

definition z_get_parent :: "zstate \<Rightarrow> zstate res" where
  "z_get_parent s =
     andthen (monitor (object_locating (f_setup s)) (note_object ''@get_parent '' (zargs s 0)) s)
      (\<lambda>s.
       if zargs s 0 = 0 then andthen (runtime_error ERR_GET_PARENT_0 s) (store 0)
       else
         andthen (object_address (zargs s 0) s) (\<lambda>(obj_addr, s).
         andthen (link_read (obj_addr + parent_offset s) s) (\<lambda>parent. store parent s)))"

definition z_get_sibling :: "zstate \<Rightarrow> zstate res" where
  "z_get_sibling s =
     (if zargs s 0 = 0 then
        andthen (runtime_error ERR_GET_SIBLING_0 s) (\<lambda>s. andthen (store 0 s) (branch False))
      else
        andthen (object_address (zargs s 0) s) (\<lambda>(obj_addr, s).
        andthen (link_read (obj_addr + sibling_offset s) s) (\<lambda>sibling.
        andthen (store sibling s) (branch (sibling \<noteq> 0)))))"

subsection \<open>Attributes\<close>

definition max_attr :: "zstate \<Rightarrow> zword" where
  "max_attr s = (if version s \<le> V3 then 31 else 47)"

text \<open>The bit of an attribute in its byte, \<open>0x80 >> (attr & 7)\<close>.\<close>

definition attr_bit :: "zword \<Rightarrow> zbyte" where
  "attr_bit attr = drop_bit (unat (attr AND 7)) 0x80"

definition check_attr :: "zstate \<Rightarrow> zstate res" where
  "check_attr s = (if zargs s 1 > max_attr s then runtime_error ERR_ILL_ATTR s else Ok s)"

definition z_clear_attr :: "zstate \<Rightarrow> zstate res" where
  "z_clear_attr s =
     (if story_id s = SHERLOCK \<and> zargs s 1 = 48 then Ok s
      else
        andthen (check_attr s) (\<lambda>s.
        andthen (monitor (attribute_assignment (f_setup s))
          (note_attr ''@clear_attr '' (zargs s 0) (zargs s 1)) s) (\<lambda>s.
          if zargs s 0 = 0 then runtime_error ERR_CLEAR_ATTR_0 s
          else
            andthen (object_address (zargs s 0) s) (\<lambda>(a, s).
            let obj_addr = a + zargs s 1 div 8 in
            andthen (low_byte (uint obj_addr) s) (\<lambda>value.
              set_byte (uint obj_addr) (value AND NOT (attr_bit (zargs s 1))) s)))))"

definition z_set_attr :: "zstate \<Rightarrow> zstate res" where
  "z_set_attr s =
     (if story_id s = SHERLOCK \<and> zargs s 1 = 48 then Ok s
      else
        andthen (check_attr s) (\<lambda>s.
        andthen (monitor (attribute_assignment (f_setup s))
          (note_attr ''@set_attr '' (zargs s 0) (zargs s 1)) s) (\<lambda>s.
          if zargs s 0 = 0 then runtime_error ERR_SET_ATTR_0 s
          else
            andthen (object_address (zargs s 0) s) (\<lambda>(a, s).
            let obj_addr = a + zargs s 1 div 8 in
            andthen (low_byte (uint obj_addr) s) (\<lambda>value.
              set_byte (uint obj_addr) (value OR attr_bit (zargs s 1)) s)))))"

definition z_test_attr :: "zstate \<Rightarrow> zstate res" where
  "z_test_attr s =
     andthen (check_attr s) (\<lambda>s.
     andthen (monitor (attribute_testing (f_setup s))
       (note_attr ''@test_attr '' (zargs s 0) (zargs s 1)) s) (\<lambda>s.
       if zargs s 0 = 0 then andthen (runtime_error ERR_TEST_ATTR_0 s) (branch False)
       else
         andthen (object_address (zargs s 0) s) (\<lambda>(a, s).
         let obj_addr = a + zargs s 1 div 8 in
         andthen (low_byte (uint obj_addr) s) (\<lambda>value.
           branch (value AND attr_bit (zargs s 1) \<noteq> 0) s))))"

subsection \<open>Property lists\<close>

definition first_property :: "zword \<Rightarrow> zstate \<Rightarrow> (zword \<times> zstate) res" where
  "first_property obj s =
     andthen (object_name obj s) (\<lambda>(prop_addr, s).
     andthen (low_byte (uint prop_addr) s) (\<lambda>len.
       Ok (prop_addr + 1 + 2 * ucast len, s)))"

definition next_property :: "zword \<Rightarrow> zstate \<Rightarrow> zword res" where
  "next_property prop_addr s =
     andthen (low_byte (uint prop_addr) s) (\<lambda>value.
     let prop_addr = prop_addr + 1 in
     andthen
       (if version s \<le> V3 then Ok (drop_bit 5 value)
        else if value AND 0x80 = 0 then Ok (drop_bit 6 value)
        else
          andthen (low_byte (uint prop_addr) s) (\<lambda>value.
            let value = value AND 0x3f in Ok (if value = 0 then 64 else value)))
       (\<lambda>value. Ok (prop_addr + ucast value + 1)))"

definition prop_mask :: "zstate \<Rightarrow> zbyte" where
  "prop_mask s = (if version s \<le> V3 then 0x1f else 0x3f)"

text \<open>The number of a property, \<open>value & mask\<close>, compared with \<open>zargs[1]\<close>.\<close>

definition prop_id :: "zbyte \<Rightarrow> zstate \<Rightarrow> zword" where
  "prop_id value s = ucast (value AND prop_mask s)"

text \<open>The scan for the first property whose number is not above \<open>n\<close>: its address and first byte.\<close>

partial_function (option) scan_property :: "zword \<Rightarrow> zword \<Rightarrow> zstate \<Rightarrow> (zword \<times> zbyte) res" where
  "scan_property n prop_addr s =
     andthen (low_byte (uint prop_addr) s) (\<lambda>value.
       if prop_id value s \<le> n then Ok (prop_addr, value)
       else andthen (next_property prop_addr s) (\<lambda>prop_addr. scan_property n prop_addr s))"

text \<open>The \<open>do\<close> loop of \<open>z_get_next_prop\<close>, which ends one property further.\<close>

partial_function (option) scan_next_property :: "zword \<Rightarrow> zword \<Rightarrow> zstate \<Rightarrow> (zword \<times> zbyte) res" where
  "scan_next_property n prop_addr s =
     andthen (low_byte (uint prop_addr) s) (\<lambda>value.
     andthen (next_property prop_addr s) (\<lambda>prop_addr.
       if prop_id value s > n then scan_next_property n prop_addr s else Ok (prop_addr, value)))"

text \<open>A property of one byte.\<close>

definition byte_prop :: "zbyte \<Rightarrow> zstate \<Rightarrow> bool" where
  "byte_prop value s \<longleftrightarrow>
     (version s \<le> V3 \<and> value AND 0xe0 = 0) \<or> (V4 \<le> version s \<and> value AND 0xc0 = 0)"

definition z_get_next_prop :: "zstate \<Rightarrow> zstate res" where
  "z_get_next_prop s =
     (if zargs s 0 = 0 then andthen (runtime_error ERR_GET_NEXT_PROP_0 s) (store 0)
      else
        andthen (first_property (zargs s 0) s) (\<lambda>(prop_addr, s).
        andthen
          (if zargs s 1 \<noteq> 0 then
             andthen (scan_next_property (zargs s 1) prop_addr s) (\<lambda>(prop_addr, value).
             andthen
               (if prop_id value s \<noteq> zargs s 1 then runtime_error ERR_NO_PROP s else Ok s)
               (\<lambda>s. Ok (prop_addr, s)))
           else Ok (prop_addr, s))
          (\<lambda>(prop_addr, s).
             andthen (low_byte (uint prop_addr) s) (\<lambda>value. store (prop_id value s) s))))"

definition z_get_prop :: "zstate \<Rightarrow> zstate res" where
  "z_get_prop s =
     (if zargs s 0 = 0 then andthen (runtime_error ERR_GET_PROP_0 s) (store 0)
      else
        andthen (first_property (zargs s 0) s) (\<lambda>(prop_addr, s).
        andthen (scan_property (zargs s 1) prop_addr s) (\<lambda>(prop_addr, value).
        andthen
          (if prop_id value s = zargs s 1 then
             (let prop_addr = prop_addr + 1 in
              if byte_prop value s then
                andthen (low_byte (uint prop_addr) s) (\<lambda>b. Ok (ucast b))
              else low_word (uint prop_addr) s)
           else low_word (uint (h_objects (hdr s) + 2 * (zargs s 1 - 1))) s)
          (\<lambda>wprop_val. store wprop_val s))))"

definition z_get_prop_addr :: "zstate \<Rightarrow> zstate res" where
  "z_get_prop_addr s =
     (if zargs s 0 = 0 then andthen (runtime_error ERR_GET_PROP_ADDR_0 s) (store 0)
      else if story_id s = BEYOND_ZORK \<and> zargs s 0 > MAX_OBJECT then store 0 s
      else
        andthen (first_property (zargs s 0) s) (\<lambda>(prop_addr, s).
        andthen (scan_property (zargs s 1) prop_addr s) (\<lambda>(prop_addr, value).
          if prop_id value s = zargs s 1 then
            (let prop_addr =
               (if V4 \<le> version s \<and> value AND 0x80 \<noteq> 0 then prop_addr + 1 else prop_addr) in
             store (prop_addr + 1) s)
          else store 0 s)))"

definition z_get_prop_len :: "zstate \<Rightarrow> zstate res" where
  "z_get_prop_len s =
     andthen (low_byte (uint (zargs s 0 - 1)) s) (\<lambda>value.
       let value =
         (if version s \<le> V3 then drop_bit 5 value + 1
          else if value AND 0x80 = 0 then drop_bit 6 value + 1
          else (let value = value AND 0x3f in if value = 0 then 64 else value)) in
       store (ucast value) s)"

definition z_put_prop :: "zstate \<Rightarrow> zstate res" where
  "z_put_prop s =
     (if zargs s 0 = 0 then runtime_error ERR_PUT_PROP_0 s
      else
        andthen (first_property (zargs s 0) s) (\<lambda>(prop_addr, s).
        andthen (scan_property (zargs s 1) prop_addr s) (\<lambda>(prop_addr, value).
        andthen (if prop_id value s \<noteq> zargs s 1 then runtime_error ERR_NO_PROP s else Ok s) (\<lambda>s.
        let prop_addr = prop_addr + 1 in
        if byte_prop value s then set_byte (uint prop_addr) (ucast (zargs s 2)) s
        else set_word (uint prop_addr) (zargs s 2) s))))"

end
