(* ===== verification/Files.thy ===== *)
theory Files
  imports Output
begin

text \<open>
  Files as the save functions use them: bytes with a position, the stdio calls on them, and functions
  that leave early. A file that is read is a value of its own; writing asks the outside at every
  byte, as any \<open>fputc\<close> can fail.
\<close>

subsection \<open>stdio\<close>

text \<open>\<open>fgetc\<close>, with \<open>None\<close> for \<open>EOF\<close>, and the same with its result thrown away.\<close>

definition get_c :: "cfile \<Rightarrow> (zbyte \<times> cfile) option" where
  "get_c f =
     (if f_pos f < length (f_bytes f) then Some (f_bytes f ! f_pos f, f\<lparr>f_pos := Suc (f_pos f)\<rparr>)
      else None)"

definition skip_c :: "cfile \<Rightarrow> cfile" where
  "skip_c f = (case get_c f of None \<Rightarrow> f | Some (b, f) \<Rightarrow> f)"

text \<open>The value of \<open>fgetc\<close> as the C function returns it, -1 at the end.\<close>

definition fgetc :: "cfile \<Rightarrow> int \<times> cfile" where
  "fgetc f = (case get_c f of None \<Rightarrow> (-1, f) | Some (b, f) \<Rightarrow> (uint b, f))"

text \<open>What is still to be read.\<close>

definition bytes_left :: "cfile \<Rightarrow> nat" where
  "bytes_left f = length (f_bytes f) - f_pos f"

lemma fgetc_left:
  "fgetc f = (b, f') \<Longrightarrow> bytes_left f' = bytes_left f - 1 \<and> (b = -1 \<longleftrightarrow> bytes_left f = 0)"
  by (auto simp: fgetc_def get_c_def bytes_left_def split: if_splits)
    (metis (no_types) uint_ge_0 zero_less_one le_minus_one_simps(3) not_le)+

text \<open>\<open>fputc\<close> at the position of the file; \<open>False\<close> for \<open>EOF\<close>.\<close>

definition write_at :: "zbyte \<Rightarrow> cfile \<Rightarrow> cfile" where
  "write_at b f =
     \<lparr>f_bytes =
        (if f_pos f < length (f_bytes f) then (f_bytes f)[f_pos f := b]
         else f_bytes f @ replicate (f_pos f - length (f_bytes f)) 0 @ [b]),
      f_pos = Suc (f_pos f)\<rparr>"

definition put_c :: "zbyte \<Rightarrow> cfile \<Rightarrow> zstate \<Rightarrow> bool \<times> cfile \<times> zstate" where
  "put_c b f s = (let (ans, s) = ask s in if ans = -1 then (False, f, s) else (True, write_at b f, s))"

text \<open>A sequence of \<open>fputc\<close> calls joined by \<open>&&\<close>.\<close>

fun put_bytes :: "zbyte list \<Rightarrow> cfile \<Rightarrow> zstate \<Rightarrow> bool \<times> cfile \<times> zstate" where
  "put_bytes [] f s = (True, f, s)"
| "put_bytes (b # bs) f s =
     (let (ok, f, s) = put_c b f s in if ok then put_bytes bs f s else (False, f, s))"

text \<open>\<open>fopen\<close> for reading: the file must exist and the outside must grant it.\<close>

definition open_read :: "string \<Rightarrow> zstate \<Rightarrow> cfile option \<times> zstate" where
  "open_read name s =
     (let (ans, s) = ask s in
      (if ans = 0 then None
       else map_option (\<lambda>bs. \<lparr>f_bytes = bs, f_pos = 0\<rparr>) (disk (dev s) name), s))"

text \<open>
  The contents of a file on the disk. When the name is one of the story's own, these bytes are also what
  \<open>story_fp\<close> reads from now on.
\<close>

definition store_file :: "string \<Rightarrow> zbyte list \<Rightarrow> zstate \<Rightarrow> zstate" where
  "store_file name bs s =
     (let s = upd_dev (\<lambda>d. d\<lparr>disk := (disk d)(name := Some bs)\<rparr>) s in
      if names_story (dev s) name
      then s\<lparr>story_file := (\<lambda>k. if 0 \<le> k \<and> k < int (length bs) then bs ! nat k else 0),
             story_len := int (length bs)\<rparr>
      else s)"

lemma store_file_other:
  "\<not> names_story (dev s) name \<Longrightarrow> store_file name bs s = upd_dev (\<lambda>d. d\<lparr>disk := (disk d)(name := Some bs)\<rparr>) s"
  by (simp add: store_file_def)

lemma store_file_sel [simp]:
  "zmp (store_file name bs s) = zmp s" "hdr (store_file name bs s) = hdr s"
  "stack (store_file name bs s) = stack s" "sp (store_file name bs s) = sp s"
  "fp (store_file name bs s) = fp s" "pcp (store_file name bs s) = pcp s"
  "frame_count (store_file name bs s) = frame_count s" "zargs (store_file name bs s) = zargs s"
  "zargc (store_file name bs s) = zargc s" "story_size (store_file name bs s) = story_size s"
  "f_setup (store_file name bs s) = f_setup s" "os_answer (store_file name bs s) = os_answer s"
  "clock (store_file name bs s) = clock s" "names_story (dev (store_file name bs s)) = names_story (dev s)"
  "disk (dev (store_file name bs s)) = (disk (dev s))(name := Some bs)"
  by (simp_all add: store_file_def Let_def upd_dev_def)

text \<open>\<open>fopen\<close> for writing empties the file; \<open>close_write\<close> puts the written bytes on the disk.\<close>

definition open_write :: "string \<Rightarrow> zstate \<Rightarrow> cfile option \<times> zstate" where
  "open_write name s =
     (let (ans, s) = ask s in
      if ans = 0 then (None, s)
      else (Some \<lparr>f_bytes = [], f_pos = 0\<rparr>,
            store_file name [] s))"

definition close_write :: "string \<Rightarrow> cfile \<Rightarrow> zstate \<Rightarrow> zstate" where
  "close_write name f = store_file name (f_bytes f)"

text \<open>A byte of the story file, \<open>None\<close> behind its end.\<close>

definition story_c :: "int \<Rightarrow> zstate \<Rightarrow> zbyte option" where
  "story_c k s = (if 0 \<le> k \<and> k < story_len s then Some (story_file s k) else None)"

subsection \<open>Leaving a function early\<close>

text \<open>
  A part of a C function that has \<open>return\<close> statements in the middle: \<open>leave r\<close> returns \<open>r\<close> from the
  function, \<open>go_on x\<close> comes to the end of the part.
\<close>

type_synonym ('r, 'a) early = "('r + 'a) res"

definition leave :: "'r \<Rightarrow> ('r, 'a) early" where
  "leave r = Ok (Inl r)"

definition go_on :: "'a \<Rightarrow> ('r, 'a) early" where
  "go_on x = Ok (Inr x)"

definition proceed :: "('r, 'a) early \<Rightarrow> ('a \<Rightarrow> ('r, 'b) early) \<Rightarrow> ('r, 'b) early" where
  "proceed m f = andthen m (case_sum (\<lambda>r. Ok (Inl r)) f)"

text \<open>\<open>finish\<close> turns the body of a function into its result.\<close>

definition finish :: "('r, 'r) early \<Rightarrow> 'r res" where
  "finish m = andthen m (case_sum (\<lambda>r. Ok r) (\<lambda>r. Ok r))"

text \<open>A read that makes the function return \<open>r\<close> when it meets the end of the file.\<close>

definition need :: "'b option \<Rightarrow> 'r \<Rightarrow> ('b \<Rightarrow> ('r, 'a) early) \<Rightarrow> ('r, 'a) early" where
  "need m r f = (case m of None \<Rightarrow> leave r | Some x \<Rightarrow> f x)"

lemma early_simps [simp]:
  "proceed (go_on x) f = f x"
  "proceed (leave r) f = leave r"
  "proceed (Stop e) f = Stop e"
  "proceed None f = None"
  "finish (go_on r) = Ok r"
  "finish (leave r) = Ok r"
  "need (Some y) r g = g y"
  "need None r g = leave r"
  by (simp_all add: proceed_def go_on_def leave_def finish_def need_def)

lemma leave_neq_go_on [simp]: "leave r \<noteq> go_on x" "go_on x \<noteq> leave r" "go_on x = go_on y \<longleftrightarrow> x = y"
  by (simp_all add: go_on_def leave_def)

lemma proceed_assoc: "proceed (proceed m f) g = proceed m (\<lambda>x. proceed (f x) g)"
  by (simp add: proceed_def andthen_def split: option.splits sum.splits)

lemma proceed_eq_go_on: "proceed m f = go_on y \<longleftrightarrow> (\<exists>x. m = go_on x \<and> f x = go_on y)"
  by (auto simp: proceed_def go_on_def andthen_eq_Ok split: sum.splits) (metis sum.exhaust)

lemma need_eq_go_on: "need m r f = go_on y \<longleftrightarrow> (\<exists>x. m = Some x \<and> f x = go_on y)"
  by (simp add: need_def split: option.splits)

text \<open>What holds at the end of a part whenever that end is reached.\<close>

definition arrives :: "('r, 'a) early \<Rightarrow> ('a \<Rightarrow> bool) \<Rightarrow> bool" where
  "arrives m P \<longleftrightarrow> (\<forall>x. m = go_on x \<longrightarrow> P x)"

lemma arrives_simps [simp]:
  "arrives (go_on x) P \<longleftrightarrow> P x"
  "arrives (leave r) P"
  "arrives (andthen n f) P \<longleftrightarrow> post n (\<lambda>x. arrives (f x) P)"
  "arrives (proceed m g) P \<longleftrightarrow> arrives m (\<lambda>x. arrives (g x) P)"
  "arrives (need k r e) P \<longleftrightarrow> (\<forall>x. k = Some x \<longrightarrow> arrives (e x) P)"
  by (auto simp: arrives_def go_on_def leave_def andthen_eq_Ok post_def proceed_eq_go_on [unfolded go_on_def]
      need_eq_go_on [unfolded go_on_def])

lemma arrives_mono: "arrives m P \<Longrightarrow> (\<And>x. P x \<Longrightarrow> Q x) \<Longrightarrow> arrives m Q"
  by (simp add: arrives_def)

lemma arrivesD: "arrives m P \<Longrightarrow> m = go_on x \<Longrightarrow> P x"
  by (simp add: arrives_def)

lemma proceed_cong [fundef_cong]:
  "m = m' \<Longrightarrow> (\<And>x. m' = go_on x \<Longrightarrow> f x = f' x) \<Longrightarrow> proceed m f = proceed m' f'"
  unfolding proceed_def go_on_def by (rule andthen_cong) (auto split: sum.splits)

lemma need_cong [fundef_cong]:
  "m = m' \<Longrightarrow> r = r' \<Longrightarrow> (\<And>x. m' = Some x \<Longrightarrow> f x = f' x) \<Longrightarrow> need m r f = need m' r' f'"
  by (auto simp: need_def split: option.splits)

text \<open>Loops that may not end can be written with these parts.\<close>

lemma proceed_mono [partial_function_mono]:
  assumes "mono_option B" and "\<And>y. mono_option (\<lambda>f. C y f)"
  shows "mono_option (\<lambda>f. proceed (B f) (\<lambda>y. C y f))"
proof -
  have "mono_option (\<lambda>f. case_sum (\<lambda>r. Ok (Inl r)) (\<lambda>y. C y f) z)" for z
    using assms(2) by (cases z) (simp_all add: monotone_def flat_ord_def)
  then show ?thesis
    unfolding proceed_def by (rule andthen_mono [OF assms(1)])
qed

lemma need_mono [partial_function_mono]:
  assumes "\<And>y. mono_option (\<lambda>f. C y f)"
  shows "mono_option (\<lambda>f. need m r (\<lambda>y. C y f))"
  using assms by (cases m) (simp_all add: monotone_def flat_ord_def)

subsection \<open>Numbers in files\<close>

definition read_word :: "cfile \<Rightarrow> (zword \<times> cfile) option" where
  "read_word f =
     Option.bind (get_c f) (\<lambda>(a, f).
     Option.bind (get_c f) (\<lambda>(b, f). Some (mk_word a b, f)))"

definition mk_long :: "zbyte \<Rightarrow> zbyte \<Rightarrow> zbyte \<Rightarrow> zbyte \<Rightarrow> 32 word" where
  "mk_long a b c d = push_bit 24 (ucast a) OR push_bit 16 (ucast b) OR push_bit 8 (ucast c) OR ucast d"

definition read_long :: "cfile \<Rightarrow> (32 word \<times> cfile) option" where
  "read_long f =
     Option.bind (get_c f) (\<lambda>(a, f).
     Option.bind (get_c f) (\<lambda>(b, f).
     Option.bind (get_c f) (\<lambda>(c, f).
     Option.bind (get_c f) (\<lambda>(d, f). Some (mk_long a b c d, f)))))"

text \<open>The bytes that \<open>write_word\<close>, \<open>write_long\<close> and \<open>write_chnk\<close> write.\<close>

definition word_bytes :: "zword \<Rightarrow> zbyte list" where
  "word_bytes w = [ucast (drop_bit 8 w), ucast w]"

definition long_bytes :: "32 word \<Rightarrow> zbyte list" where
  "long_bytes l = [ucast (drop_bit 24 l), ucast (drop_bit 16 l), ucast (drop_bit 8 l), ucast l]"

definition chnk_bytes :: "32 word \<Rightarrow> 32 word \<Rightarrow> zbyte list" where
  "chnk_bytes ident len = long_bytes ident @ long_bytes len"

text \<open>\<open>long\<close> and \<open>unsigned long\<close> are 32 bits wide on the target.\<close>

definition makeid :: "char \<Rightarrow> char \<Rightarrow> char \<Rightarrow> char \<Rightarrow> 32 word" where
  "makeid a b c d = mk_long (of_char a) (of_char b) (of_char c) (of_char d)"

end
