(* ===== verification/Quetzal.thy ===== *)
theory Quetzal
  imports Files Process
begin

text \<open>
  Saving and restoring in the Quetzal format (quetzal.c). The local variables of the two functions
  are passed from part to part; the story file is read by position, the save file is a value. A
  return value goes with the state (and, for saving, with the file).
\<close>

subsection \<open>Constants\<close>

definition ID_FORM :: "32 word" where "ID_FORM = makeid CHR ''F'' CHR ''O'' CHR ''R'' CHR ''M''"
definition ID_IFZS :: "32 word" where "ID_IFZS = makeid CHR ''I'' CHR ''F'' CHR ''Z'' CHR ''S''"
definition ID_IFhd :: "32 word" where "ID_IFhd = makeid CHR ''I'' CHR ''F'' CHR ''h'' CHR ''d''"
definition ID_UMem :: "32 word" where "ID_UMem = makeid CHR ''U'' CHR ''M'' CHR ''e'' CHR ''m''"
definition ID_CMem :: "32 word" where "ID_CMem = makeid CHR ''C'' CHR ''M'' CHR ''e'' CHR ''m''"
definition ID_Stks :: "32 word" where "ID_Stks = makeid CHR ''S'' CHR ''t'' CHR ''k'' CHR ''s''"

abbreviation (input) GOT_HEADER :: zbyte where "GOT_HEADER \<equiv> 0x01"
abbreviation (input) GOT_STACK :: zbyte where "GOT_STACK \<equiv> 0x02"
abbreviation (input) GOT_MEMORY :: zbyte where "GOT_MEMORY \<equiv> 0x04"
abbreviation (input) GOT_NONE :: zbyte where "GOT_NONE \<equiv> 0x00"
abbreviation (input) GOT_ALL :: zbyte where "GOT_ALL \<equiv> 0x07"
abbreviation (input) GOT_ERROR :: zbyte where "GOT_ERROR \<equiv> 0x80"

text \<open>A message that ends in a new line.\<close>

definition complain :: "string \<Rightarrow> zstate \<Rightarrow> zstate res" where
  "complain t = print_string (zs t @ [CH_NEWLINE])"

subsection \<open>Restoring: the header chunk\<close>

type_synonym 'a restoring = "(zword \<times> zstate, 'a) early"

fun check_serial :: "int list \<Rightarrow> zbyte \<Rightarrow> zword \<Rightarrow> cfile \<Rightarrow> zstate \<Rightarrow> (zbyte \<times> cfile) restoring" where
  "check_serial [] progress fatal f s = go_on (progress, f)"
| "check_serial (i # is) progress fatal f s =
     need (get_c f) (fatal, s) (\<lambda>(x, f).
     andthen (low_byte i s) (\<lambda>b.
       check_serial is (if x \<noteq> b then GOT_ERROR else progress) fatal f s))"

text \<open>The loop over the rest of the chunk; its counter has 16 bits, the length 32.\<close>

partial_function (option) skip_header :: "zword \<Rightarrow> 32 word \<Rightarrow> cfile \<Rightarrow> cfile res" where
  "skip_header i currlen f =
     (if ucast i < currlen then skip_header (i + 1) currlen (skip_c f) else Ok f)"

declare skip_header.simps [code]

definition ifhd_chunk ::
    "32 word \<Rightarrow> zbyte \<Rightarrow> zword \<Rightarrow> cfile \<Rightarrow> zstate \<Rightarrow> (zbyte \<times> zword \<times> cfile \<times> zstate) restoring" where
  "ifhd_chunk currlen progress fatal f s =
     (if progress AND GOT_HEADER \<noteq> 0 then
        andthen (complain ''Save file has two IFZS chunks!'' s) (\<lambda>s. leave (fatal, s))
      else
        (let progress = progress OR GOT_HEADER in
         if currlen < 13 then leave (fatal, s)
         else
           need (read_word f) (fatal, s) (\<lambda>(tmpw, f).
           let progress = (if tmpw \<noteq> h_release (hdr s) then GOT_ERROR else progress) in
           proceed (check_serial [H_SERIAL..H_SERIAL + 5] progress fatal f s) (\<lambda>(progress, f).
           need (read_word f) (fatal, s) (\<lambda>(tmpw, f).
           let progress = (if tmpw \<noteq> h_checksum (hdr s) then GOT_ERROR else progress) in
           if progress AND GOT_ERROR \<noteq> 0 then
             andthen (complain ''File was not saved from this story!'' s) (\<lambda>s. leave (fatal, s))
           else
             need (get_c f) (fatal, s) (\<lambda>(x, f).
             let pc = push_bit 16 (ucast x) :: 32 word in
             need (get_c f) (fatal, s) (\<lambda>(x, f).
             let pc = pc OR push_bit 8 (ucast x) in
             need (get_c f) (fatal, s) (\<lambda>(x, f).
             let pc = pc OR ucast x in
             andthen (skip_header 13 currlen f) (\<lambda>f.
               go_on (progress, -1, f, s\<lparr>pcp := uint pc\<rparr>))))))))))"

subsection \<open>Restoring: the stack chunk\<close>

text \<open>\<open>read_word (svf, --sp)\<close>, \<open>n\<close> times.\<close>

fun pull_words :: "nat \<Rightarrow> zword \<Rightarrow> cfile \<Rightarrow> zstate \<Rightarrow> (cfile \<times> zstate) restoring" where
  "pull_words 0 fatal f s = go_on (f, s)"
| "pull_words (Suc n) fatal f s =
     (let s = s\<lparr>sp := sp s - 1\<rparr> in
      need (read_word f) (fatal, s) (\<lambda>(w, f).
      andthen (stack_set (sp s) w s) (pull_words n fatal f)))"

definition too_much_stack :: "zword \<Rightarrow> zstate \<Rightarrow> 'a restoring" where
  "too_much_stack fatal s =
     andthen (complain ''Save-file has too much stack (and I can't cope).'' s)
       (\<lambda>s. leave (fatal, s))"

text \<open>The faked frame of the versions other than V6, and the stack outside all routines.\<close>

fun six_zeros :: "nat \<Rightarrow> zword \<Rightarrow> cfile \<Rightarrow> zstate \<Rightarrow> cfile restoring" where
  "six_zeros 0 fatal f s = go_on f"
| "six_zeros (Suc n) fatal f s =
     need (get_c f) (fatal, s) (\<lambda>(b, f). if b \<noteq> 0 then leave (fatal, s) else six_zeros n fatal f s)"

definition base_stack ::
    "32 word \<Rightarrow> zword \<Rightarrow> cfile \<Rightarrow> zstate \<Rightarrow> (32 word \<times> cfile \<times> zstate) restoring" where
  "base_stack currlen fatal f s =
     (if version s \<noteq> V6 then
        (if currlen < 8 then leave (fatal, s)
         else
           proceed (six_zeros 6 fatal f s) (\<lambda>f.
           need (read_word f) (fatal, s) (\<lambda>(tmpw, f).
             if uint tmpw > STACK_SIZE then too_much_stack fatal s
             else
               (let currlen = currlen - 8 in
                if currlen < 2 * ucast tmpw then leave (fatal, s)
                else
                  proceed (pull_words (unat tmpw) fatal f s) (\<lambda>(f, s).
                    go_on (currlen - 2 * ucast tmpw, f, s))))))
      else go_on (currlen, f, s))"

text \<open>The loop \<open>for (i=0; i<8; ++i) if (x & (1<<i)) break\<close>.\<close>

definition first_bit :: "int \<Rightarrow> nat" where
  "first_bit x = (case find (bit x) [0..<8] of None \<Rightarrow> 8 | Some i \<Rightarrow> i)"

text \<open>
  One frame, the body of the loop over the stack frames. First the word with the type of the call and
  the number of locals, and the program counter of the caller, from the first five bytes.
\<close>

definition frame_head :: "zword \<Rightarrow> cfile \<Rightarrow> zstate \<Rightarrow> (zword \<times> 32 word \<times> zword \<times> cfile \<times> zstate) restoring" where
  "frame_head fatal f s =
     need (read_long f) (fatal, s) (\<lambda>(tmpl, f).
     let y = ucast (tmpl AND 0x0F) :: zword; tmpw = push_bit 8 y in
     need (get_c f) (fatal, s) (\<lambda>(x, f).
       if tmpl AND 0x10 \<noteq> 0 then go_on (tmpw OR 0x1000, drop_bit 8 tmpl, y, f, s)
       else
         (let tmpl = drop_bit 8 tmpl - 1 in
          andthen (low_byte (uint tmpl) s) (\<lambda>b.
            if b \<noteq> x then
              andthen
                (complain
                  ''Save-file has wrong variable number on stack (possibly wrong game version?)'' s)
                (\<lambda>s. leave (fatal, s))
            else go_on (tmpw, tmpl, y, f, s)))))"

definition restore_frame ::
    "32 word \<Rightarrow> zword \<Rightarrow> cfile \<Rightarrow> zstate \<Rightarrow> (32 word \<times> cfile \<times> zstate) restoring" where
  "restore_frame currlen fatal f s =
     (if currlen < 8 then leave (fatal, s)
      else if sp s < 4 then too_much_stack fatal s
      else
        proceed (frame_head fatal f s) (\<lambda>(tmpw, tmpl, y, f, s).
        andthen (push (ucast (drop_bit 9 tmpl)) s) (\<lambda>s.
        andthen (push (ucast (tmpl AND 0x1FF)) s) (\<lambda>s.
        andthen (push (word_of_int (fp s - 1)) s) (\<lambda>s.
        need (get_c f) (fatal, s) (\<lambda>(x, f).
        let x = uint x + 1; i = first_bit x in
        if x XOR 2 ^ i \<noteq> 0 then
          andthen
            (complain ''Save-file uses incomplete argument lists (which I can't handle)'' s)
            (\<lambda>s. leave (fatal, s))
        else
          andthen (push (tmpw OR of_nat i) s) (\<lambda>s.
          let s = s\<lparr>fp := sp s\<rparr> in
          need (read_word f) (fatal, s) (\<lambda>(tmpw, f).
          let tmpw = tmpw + y in
          if sp s \<le> uint tmpw then too_much_stack fatal s
          else if currlen < 2 * ucast tmpw then leave (fatal, s)
          else
            proceed (pull_words (unat tmpw) fatal f s) (\<lambda>(f, s).
              go_on (currlen - 2 * ucast tmpw, f, s))))))))))"

text \<open>Every frame takes at least four words of the stack, so the loop comes to an end.\<close>

lemma pull_words_sp: "arrives (pull_words n fatal f s) (\<lambda>(f', s'). sp s' = sp s - int n)"
proof (induction n fatal f s rule: pull_words.induct)
  case (2 n fatal f s)
  show ?case
    by (auto simp: Let_def intro!: arrives_mono [OF 2])
qed simp

lemma frame_head_sp: "arrives (frame_head fatal f s) (\<lambda>(w, l, y, f, t). t = s)"
  by (auto simp: frame_head_def Let_def)

lemma restore_frame_sp:
  "arrives (restore_frame currlen fatal f s) (\<lambda>(c, f, t). 4 \<le> sp s \<and> sp t \<le> sp s - 4)"
  by (auto simp: restore_frame_def too_much_stack_def Let_def
      intro!: arrives_mono [OF frame_head_sp] arrives_mono [OF pull_words_sp])

function restore_frames ::
    "32 word \<Rightarrow> zword \<Rightarrow> cfile \<Rightarrow> zstate \<Rightarrow> (cfile \<times> zstate) restoring" where
  "restore_frames currlen fatal f s =
     (if currlen > 0 then
        proceed (restore_frame currlen fatal f s) (\<lambda>(currlen, f, s).
          restore_frames (currlen - 8) fatal f (s\<lparr>frame_count := frame_count s + 1\<rparr>))
      else go_on (f, s))"
  by pat_completeness auto
termination
  by (relation "measure (\<lambda>(c, fatal, f, s). nat (sp s))")
    (auto dest!: arrivesD [OF restore_frame_sp])

declare restore_frames.simps [simp del]

definition stks_chunk ::
    "32 word \<Rightarrow> zbyte \<Rightarrow> zword \<Rightarrow> cfile \<Rightarrow> zstate \<Rightarrow> (zbyte \<times> zword \<times> cfile \<times> zstate) restoring" where
  "stks_chunk currlen progress fatal f s =
     (if progress AND GOT_STACK \<noteq> 0 then
        andthen (complain ''File contains two stack chunks!'' s)
          (\<lambda>s. go_on (progress, fatal, f, s))
      else
        (let progress = progress OR GOT_STACK; fatal = -1 in
         proceed (base_stack currlen fatal f (s\<lparr>sp := STACK_SIZE\<rparr>)) (\<lambda>(currlen, f, s).
         proceed (restore_frames currlen fatal f (s\<lparr>fp := STACK_SIZE, frame_count := 0\<rparr>))
           (\<lambda>(f, s). go_on (progress, fatal, f, s)))))"

subsection \<open>Restoring: the memory chunks\<close>

text \<open>
  Bytes of the story file copied to memory: the loop of a run, \<open>n\<close> bytes at most, up to the end of
  dynamic memory. \<open>i\<close> is the position in memory, \<open>k\<close> that in the story file.
\<close>

fun story_run :: "nat \<Rightarrow> zword \<Rightarrow> int \<Rightarrow> zword \<Rightarrow> zstate \<Rightarrow> (zword \<times> int \<times> zstate) restoring" where
  "story_run 0 i k fatal s = go_on (i, k, s)"
| "story_run (Suc n) i k fatal s =
     (if i < h_dynamic_size (hdr s) then
        need (story_c k s) (fatal, s) (\<lambda>y.
        andthen (set_byte (uint i) y s) (\<lambda>s. story_run n (i + 1) (k + 1) fatal s))
      else go_on (i, k, s))"

fun skip_n :: "nat \<Rightarrow> cfile \<Rightarrow> cfile" where
  "skip_n 0 f = f"
| "skip_n (Suc n) f = skip_n n (skip_c f)"

text \<open>
  The loop of the compressed memory chunk, by the bytes that are left in it. The result has the
  value of \<open>currlen\<close> after the loop, which is nonzero when the loop was left by \<open>break\<close>.
  \<open>cmem_long\<close> is the test at the end of the body, for the case that there is too much data.
\<close>

definition cmem_long ::
    "nat \<Rightarrow> zword \<Rightarrow> int \<Rightarrow> cfile \<Rightarrow> zstate \<Rightarrow> (nat \<times> zword \<times> int \<times> cfile \<times> zstate) restoring" where
  "cmem_long n i k f s =
     andthen (complain ''warning: `CMem' chunk too long!'' s) (\<lambda>s. go_on (1, i, k, skip_n n f, s))"

fun cmem_loop ::
    "nat \<Rightarrow> zword \<Rightarrow> int \<Rightarrow> zword \<Rightarrow> cfile \<Rightarrow> zstate \<Rightarrow> (nat \<times> zword \<times> int \<times> cfile \<times> zstate) restoring" where
  "cmem_loop 0 i k fatal f s = go_on (0, i, k, f, s)"
| "cmem_loop (Suc n) i k fatal f s =
     need (get_c f) (fatal, s) (\<lambda>(x, f).
       if x = 0 then
         (case n of
            0 \<Rightarrow> andthen (complain ''File contains bogus `CMem' chunk.'' s)
                   (\<lambda>s. go_on (1, 0xFFFF, k, skip_c f, s))
          | Suc m \<Rightarrow>
              need (get_c f) (fatal, s) (\<lambda>(x, f).
              proceed (story_run (unat x + 1) i k fatal s) (\<lambda>(i, k, s).
                if i > h_dynamic_size (hdr s) then cmem_long m i k f s
                else cmem_loop m i k fatal f s)))
       else
         need (story_c k s) (fatal, s) (\<lambda>y.
         andthen (set_byte (uint i) (x XOR y) s) (\<lambda>s.
           let i = i + 1; k = k + 1 in
           if i > h_dynamic_size (hdr s) then cmem_long n i k f s
           else cmem_loop n i k fatal f s)))"

definition cmem_chunk ::
    "32 word \<Rightarrow> zbyte \<Rightarrow> zword \<Rightarrow> cfile \<Rightarrow> zstate \<Rightarrow> (zbyte \<times> cfile \<times> zstate) restoring" where
  "cmem_chunk currlen progress fatal f s =
     proceed (cmem_loop (unat currlen) 0 0 fatal f s) (\<lambda>(n, i, k, f, s).
     proceed (story_run (unat (h_dynamic_size (hdr s)) - unat i) i k fatal s) (\<lambda>(i, k, s).
       go_on (if n = 0 then progress OR GOT_MEMORY else progress, f, s)))"

text \<open>The default case: \<open>fseek (svf, currlen, SEEK_CUR)\<close>.\<close>

definition skip_chunk :: "32 word \<Rightarrow> cfile \<Rightarrow> cfile" where
  "skip_chunk currlen f = f\<lparr>f_pos := f_pos f + unat currlen\<rparr>"

text \<open>\<open>fread\<close> of the uncompressed memory chunk; a short file still changes memory.\<close>

fun put_mem :: "int \<Rightarrow> zbyte list \<Rightarrow> zstate \<Rightarrow> zstate res" where
  "put_mem a [] s = Ok s"
| "put_mem a (b # bs) s = andthen (set_byte a b s) (put_mem (a + 1) bs)"

definition umem_chunk ::
    "32 word \<Rightarrow> zbyte \<Rightarrow> cfile \<Rightarrow> zstate \<Rightarrow> (zbyte \<times> cfile \<times> zstate) restoring" where
  "umem_chunk currlen progress f s =
     (if currlen = ucast (h_dynamic_size (hdr s)) then
        (let bs = take (unat currlen) (drop (f_pos f) (f_bytes f));
             f = f\<lparr>f_pos := f_pos f + length bs\<rparr> in
         andthen (put_mem 0 bs s) (\<lambda>s.
           if length bs = unat currlen \<and> currlen \<noteq> 0 then go_on (progress OR GOT_MEMORY, f, s)
           else go_on (progress, skip_chunk currlen f, s)))
      else
        andthen (complain ''`UMem' chunk wrong size!'' s) (\<lambda>s.
          go_on (progress, skip_chunk currlen f, s)))"

subsection \<open>Restoring: all chunks\<close>

text \<open>The \<open>switch\<close>. The memory cases fall through to the default when there is memory already.\<close>

definition one_chunk ::
    "32 word \<Rightarrow> 32 word \<Rightarrow> zbyte \<Rightarrow> zword \<Rightarrow> cfile \<Rightarrow> zstate \<Rightarrow>
      (zbyte \<times> zword \<times> cfile \<times> zstate) restoring" where
  "one_chunk tmpl currlen progress fatal f s =
     (if tmpl = ID_IFhd then ifhd_chunk currlen progress fatal f s
      else if tmpl = ID_Stks then stks_chunk currlen progress fatal f s
      else if tmpl = ID_CMem \<and> progress AND GOT_MEMORY = 0 then
        proceed (cmem_chunk currlen progress fatal f s)
          (\<lambda>(progress, f, s). go_on (progress, fatal, f, s))
      else if tmpl = ID_UMem \<and> progress AND GOT_MEMORY = 0 then
        proceed (umem_chunk currlen progress f s)
          (\<lambda>(progress, f, s). go_on (progress, fatal, f, s))
      else go_on (progress, fatal, skip_chunk currlen f, s))"

partial_function (option) restore_chunks ::
    "32 word \<Rightarrow> zbyte \<Rightarrow> zword \<Rightarrow> cfile \<Rightarrow> zstate \<Rightarrow> (zbyte \<times> zword \<times> zstate) restoring" where
  "restore_chunks ifzslen progress fatal f s =
     (if ifzslen > 0 then
        (if ifzslen < 8 then leave (0, s)
         else
           need (read_long f) (0, s) (\<lambda>(tmpl, f).
           need (read_long f) (0, s) (\<lambda>(currlen, f).
           let ifzslen = ifzslen - 8 in
           if ifzslen < currlen then leave (0, s)
           else
             (let skip = currlen AND 1; ifzslen = ifzslen - (currlen + skip) in
              proceed (one_chunk tmpl currlen progress fatal f s) (\<lambda>(progress, fatal, f, s).
                restore_chunks ifzslen progress fatal (if skip \<noteq> 0 then skip_c f else f) s)))))
      else go_on (progress, fatal, s))"

declare restore_chunks.simps [code]

definition restore_result :: "zbyte \<Rightarrow> zword \<Rightarrow> zstate \<Rightarrow> (zword \<times> zstate) res" where
  "restore_result progress fatal s =
     andthen
       (if progress AND GOT_HEADER = 0 then
          complain ''error: no valid header (`IFhd') chunk in file.'' s else Ok s) (\<lambda>s.
     andthen
       (if progress AND GOT_STACK = 0 then
          complain ''error: no valid stack (`Stks') chunk in file.'' s else Ok s) (\<lambda>s.
     andthen
       (if progress AND GOT_MEMORY = 0 then
          complain ''error: no valid memory (`CMem' or `UMem') chunk in file.'' s else Ok s) (\<lambda>s.
       Ok (if progress = GOT_ALL then 2 else fatal, s))))"

definition restore_quetzal :: "cfile \<Rightarrow> zstate \<Rightarrow> (zword \<times> zstate) res" where
  "restore_quetzal f s =
     finish
       (need (read_long f) (0, s) (\<lambda>(tmpl, f).
        need (read_long f) (0, s) (\<lambda>(ifzslen, f).
        need (read_long f) (0, s) (\<lambda>(currlen, f).
          if tmpl \<noteq> ID_FORM \<or> currlen \<noteq> ID_IFZS then
            andthen (complain ''This is not a saved game file!'' s) (\<lambda>s. leave (0, s))
          else if ifzslen AND 1 \<noteq> 0 \<or> ifzslen < 4 then leave (0, s)
          else
            proceed (restore_chunks (ifzslen - 4) GOT_NONE 0 f s) (\<lambda>(progress, fatal, s).
              andthen (restore_result progress fatal s) go_on)))))"

subsection \<open>Saving\<close>

text \<open>A write that makes \<open>save_quetzal\<close> return 0 when it fails.\<close>

type_synonym 'a saving = "(zword \<times> cfile \<times> zstate, 'a) early"

definition wr :: "zbyte list \<Rightarrow> cfile \<Rightarrow> zstate \<Rightarrow> (cfile \<times> zstate) saving" where
  "wr bs f s =
     (let (ok, f, s) = put_bytes bs f s in if ok then go_on (f, s) else leave (0, f, s))"

text \<open>\<open>ftell\<close>; its answer -1 is an error.\<close>

definition tell :: "cfile \<Rightarrow> zstate \<Rightarrow> (nat \<times> zstate) saving" where
  "tell f s = (let (ans, s) = ask s in if ans = -1 then leave (0, f, s) else go_on (f_pos f, s))"

text \<open>The bytes that are written for a run of \<open>j\<close> equal bytes, \<open>j > 0\<close>.\<close>

fun run_bytes :: "nat \<Rightarrow> zbyte list" where
  "run_bytes j = (if j > 0x100 then [0, 0xFF] @ run_bytes (j - 0x100) else [0, of_nat (j - 1)])"

declare run_bytes.simps [simp del]

text \<open>The loop over dynamic memory; \<open>j\<close> is the current run, \<open>cmemlen\<close> what has been written.\<close>

fun save_cmem ::
    "int list \<Rightarrow> nat \<Rightarrow> 32 word \<Rightarrow> cfile \<Rightarrow> zstate \<Rightarrow> (32 word \<times> cfile \<times> zstate) saving" where
  "save_cmem [] j cmemlen f s = go_on (cmemlen, f, s)"
| "save_cmem (i # is) j cmemlen f s =
     need (story_c i s) (0, f, s) (\<lambda>c.
     andthen (low_byte i s) (\<lambda>b.
       let c = c XOR b in
       if c = 0 then save_cmem is (j + 1) cmemlen f s
       else
         (let runs = (if j > 0 then run_bytes j else []) in
          proceed (wr runs f s) (\<lambda>(f, s).
          proceed (wr [c] f s) (\<lambda>(f, s).
            save_cmem is 0 (cmemlen + of_nat (length runs) + 1) f s)))))"

text \<open>
  The list \<open>frames[1], ..., frames[n]\<close>, most recent first; \<open>room\<close> places of the array are left
  (\<open>frames\<close> has \<open>STACK_SIZE/4 + 1\<close> of them, the first for \<open>frames[0]\<close>).
\<close>

fun frame_chain :: "nat \<Rightarrow> zword \<Rightarrow> zstate \<Rightarrow> zword list res" where
  "frame_chain 0 i s = (if uint i < STACK_SIZE + 4 then Stop (Bad_buffer 257) else Ok [])"
| "frame_chain (Suc room) i s =
     (if uint i < STACK_SIZE + 4 then
        andthen (stack_get (uint i - 3) s) (\<lambda>w.
        andthen (frame_chain room (w + 5) s) (\<lambda>is. Ok (i # is)))
      else Ok [])"

text \<open>The loop that writes the stack outside all routines; its counter \<open>j\<close> is unsigned.\<close>

function save_base :: "zword \<Rightarrow> zword \<Rightarrow> cfile \<Rightarrow> zstate \<Rightarrow> (cfile \<times> zstate) saving" where
  "save_base j low f s =
     (if j \<ge> low then
        andthen (stack_get (uint j) s) (\<lambda>w.
        proceed (wr (word_bytes w) f s) (\<lambda>(f, s). save_base (j - 1) low f s))
      else go_on (f, s))"
  by pat_completeness auto
termination
proof (relation "measure (\<lambda>(j, low, f, s). if uint j < STACK_SIZE then Suc (unat j) else 0)",
    goal_cases)
  case 1
  then show ?case by simp
next
  case (2 j low f s w y f' s')
  then have "uint j < STACK_SIZE"
    by (auto simp: stack_get_def split: if_splits)
  moreover have "uint (j - 1) < STACK_SIZE \<Longrightarrow> unat (j - 1) < unat j"
    by (cases "j = 0")
      (simp_all add: unat_minus_one unat_gt_0 unsigned_minus_1_eq_mask mask_eq_exp_minus_1)
  ultimately show ?case
    by auto
qed

declare save_base.simps [simp del]

text \<open>The words of a frame, \<open>n\<close> of them from \<open>p\<close> downwards.\<close>

fun save_words :: "nat \<Rightarrow> int \<Rightarrow> cfile \<Rightarrow> zstate \<Rightarrow> (cfile \<times> zstate) saving" where
  "save_words 0 p f s = go_on (f, s)"
| "save_words (Suc n) p f s =
     andthen (stack_get p s) (\<lambda>w.
     proceed (wr (word_bytes w) f s) (\<lambda>(f, s). save_words n (p - 1) f s))"

text \<open>The fields of the first word of a frame, and the program counter in the last two.\<close>

definition frame_locals :: "zword \<Rightarrow> zword" where
  "frame_locals w = drop_bit 8 (w AND 0x0F00)"

definition frame_args :: "zword \<Rightarrow> zword" where
  "frame_args w = w AND 0x00FF"

definition frame_type :: "zword \<Rightarrow> zword" where
  "frame_type w = w AND 0xF000"

definition pc_of_words :: "zword \<Rightarrow> zword \<Rightarrow> 32 word" where
  "pc_of_words h l = push_bit 9 (ucast h) OR ucast l"

text \<open>
  One frame: \<open>fi\<close> is \<open>frames[i]\<close> and \<open>fi1\<close> is \<open>frames[i-1]\<close>. The words are written from \<open>p + 1\<close> on,
  as the source has it. A shift count beyond 30 has no meaning in C.
\<close>

definition save_frame ::
    "zword \<Rightarrow> zword \<Rightarrow> 32 word \<Rightarrow> cfile \<Rightarrow> zstate \<Rightarrow> (32 word \<times> cfile \<times> zstate) saving" where
  "save_frame fi fi1 stkslen f s =
     (let p = uint fi - 4 in
      andthen (stack_get p s) (\<lambda>p0.
      let nvars = frame_locals p0;
          nargs = frame_args p0;
          nstk = fi - fi1 - nvars - 4 in
      andthen (stack_get (p + 3) s) (\<lambda>p3.
      andthen (stack_get (p + 2) s) (\<lambda>p2.
      let pc = pc_of_words p3 p2;
          ty = frame_type p0 in
      proceed
        (if ty = 0x0000 then
           andthen (low_byte (uint pc) s) (\<lambda>var.
             go_on (var, push_bit 8 (pc + 1) OR ucast nvars, s))
         else if ty = 0x1000 then go_on (0, push_bit 8 pc OR 0x10 OR ucast nvars, s)
         else andthen (runtime_error ERR_SAVE_IN_INTER s) (\<lambda>s. leave (0, f, s)))
        (\<lambda>(var, pc, s).
      andthen
        (if nargs \<noteq> 0 then
           (if 31 \<le> nargs then Stop (Bad_shift (uint nargs)) else Ok (2 ^ unat nargs - 1))
         else Ok 0) (\<lambda>nargs :: zword.
      proceed (wr (long_bytes pc) f s) (\<lambda>(f, s).
      proceed (wr [var] f s) (\<lambda>(f, s).
      proceed (wr [ucast nargs] f s) (\<lambda>(f, s).
      proceed (wr (word_bytes nstk) f s) (\<lambda>(f, s).
      proceed (save_words (unat nvars + unat nstk) (p + 1) f s) (\<lambda>(f, s).
        go_on (stkslen + 8 + 2 * (ucast nvars + ucast nstk), f, s))))))))))))"

text \<open>The frames from \<open>frames[n]\<close> down to \<open>frames[1]\<close>, given in this order with \<open>frames[0]\<close> last.\<close>

fun save_frames ::
    "zword list \<Rightarrow> 32 word \<Rightarrow> cfile \<Rightarrow> zstate \<Rightarrow> (32 word \<times> cfile \<times> zstate) saving" where
  "save_frames (fi # fi1 # fs) stkslen f s =
     proceed (save_frame fi fi1 stkslen f s) (\<lambda>(stkslen, f, s).
       save_frames (fi1 # fs) stkslen f s)"
| "save_frames fs stkslen f s = go_on (stkslen, f, s)"

text \<open>The whole stack chunk, from the construction of \<open>frames\<close> on.\<close>

definition save_stks :: "cfile \<Rightarrow> zstate \<Rightarrow> (32 word \<times> cfile \<times> zstate) saving" where
  "save_stks f s =
     andthen (frame_chain 256 (word_of_int (fp s + 4)) s) (\<lambda>fs.
     let frames = rev (word_of_int (sp s) # fs); frames_n = hd frames in
     proceed
       (if version s \<noteq> V6 then
          (let nstk = word_of_int STACK_SIZE - frames_n in
           proceed (wr [0, 0, 0, 0, 0, 0] f s) (\<lambda>(f, s).
           proceed (wr (word_bytes nstk) f s) (\<lambda>(f, s).
           proceed (save_base (word_of_int (STACK_SIZE - 1)) frames_n f s) (\<lambda>(f, s).
             go_on (8 + 2 * ucast nstk :: 32 word, f, s)))))
        else go_on (0, f, s))
       (\<lambda>(stkslen, f, s). save_frames frames stkslen f s))"

fun save_serial :: "int list \<Rightarrow> cfile \<Rightarrow> zstate \<Rightarrow> (cfile \<times> zstate) saving" where
  "save_serial [] f s = go_on (f, s)"
| "save_serial (i # is) f s =
     andthen (low_byte i s) (\<lambda>b. proceed (wr [b] f s) (\<lambda>(f, s). save_serial is f s))"

definition save_header :: "cfile \<Rightarrow> zstate \<Rightarrow> (cfile \<times> zstate) saving" where
  "save_header f s =
     proceed (wr (chnk_bytes ID_FORM 0) f s) (\<lambda>(f, s).
     proceed (wr (long_bytes ID_IFZS) f s) (\<lambda>(f, s).
     let pc = word_of_int (pcp s) :: 32 word in
     proceed (wr (chnk_bytes ID_IFhd 13) f s) (\<lambda>(f, s).
     proceed (wr (word_bytes (h_release (hdr s))) f s) (\<lambda>(f, s).
     proceed (save_serial [H_SERIAL..H_SERIAL + 5] f s) (\<lambda>(f, s).
     proceed (wr (word_bytes (h_checksum (hdr s))) f s) (\<lambda>(f, s).
       wr (long_bytes (push_bit 8 pc)) f s))))))"

text \<open>\<open>fseek (svf, pos, SEEK_SET)\<close> and \<open>write_long\<close>.\<close>

definition patch_long :: "nat \<Rightarrow> 32 word \<Rightarrow> cfile \<Rightarrow> zstate \<Rightarrow> (cfile \<times> zstate) saving" where
  "patch_long pos l f s = wr (long_bytes l) (f\<lparr>f_pos := pos\<rparr>) s"

text \<open>\<open>save_quetzal\<close>; the name is taken by the option.\<close>

definition save_quetzal_file :: "cfile \<Rightarrow> zstate \<Rightarrow> (zword \<times> cfile \<times> zstate) res" where
  "save_quetzal_file f s =
     finish
       (proceed (save_header f s) (\<lambda>(f, s).
        proceed (tell f s) (\<lambda>(cmempos, s).
        proceed (wr (chnk_bytes ID_CMem 0) f s) (\<lambda>(f, s).
        proceed (save_cmem [0..uint (h_dynamic_size (hdr s)) - 1] 0 0 f s) (\<lambda>(cmemlen, f, s).
        proceed (wr (if cmemlen AND 1 \<noteq> 0 then [0] else []) f s) (\<lambda>(f, s).
        proceed (tell f s) (\<lambda>(stkspos, s).
        proceed (wr (chnk_bytes ID_Stks 0) f s) (\<lambda>(f, s).
        proceed (save_stks f s) (\<lambda>(stkslen, f, s).
        let ifzslen = 3 * 8 + 4 + 14 + cmemlen + stkslen;
            ifzslen = (if cmemlen AND 1 \<noteq> 0 then ifzslen + 1 else ifzslen) in
        proceed (patch_long 4 ifzslen f s) (\<lambda>(f, s).
        proceed (patch_long (cmempos + 4) cmemlen f s) (\<lambda>(f, s).
        proceed (patch_long (stkspos + 4) stkslen f s) (\<lambda>(f, s).
          go_on (1, f, s)))))))))))))"

end
