(* ===== verification/MemDiff.thy ===== *)
theory MemDiff
  imports Prelude
begin

text \<open>
  The Quetzal-like difference of two memory images: \<open>mem_diff\<close> and \<open>mem_undiff\<close> of fastmem.c, on
  byte lists. \<open>mem_diff a b\<close> is the content of \<open>diff\<close>; the buffer \<open>b\<close> becomes \<open>a\<close> in passing
  (\<open>diff_target\<close>). The lemmas say that the difference applied to \<open>a\<close> gives \<open>b\<close> back, applied to
  \<open>b\<close> gives \<open>a\<close>, and that it fits into the buffer that \<open>init_undo\<close> allocates.
\<close>

subsection \<open>Computing a difference\<close>

text \<open>
  One round of the outer loop: the inner \<open>for\<close> counts the equal bytes in \<open>j\<close>, and stops at the end
  of the data (\<open>None\<close>) or at the first byte that differs.
\<close>

fun count_equal :: "zbyte list \<Rightarrow> zbyte list \<Rightarrow> nat \<Rightarrow> (nat \<times> zbyte \<times> zbyte list \<times> zbyte list) option" where
  "count_equal (x # a) (y # b) j =
     (if x XOR y = 0 then count_equal a b (j + 1) else Some (j, x XOR y, a, b))"
| "count_equal _ _ j = None"

text \<open>What is written for \<open>j\<close> equal bytes: at most two runs.\<close>

definition short_run :: "nat \<Rightarrow> zbyte list" where
  "short_run j =
     (if j > 0 then
        (let j = j - 1 in
         if j \<le> 0x7f then [0, of_nat j]
         else [0, (of_nat j AND 0x7f) OR 0x80, of_nat (j mod 0x8000 div 0x80)])
      else [])"

definition zero_run :: "nat \<Rightarrow> zbyte list" where
  "zero_run j =
     (if j > 0x8000 then [0, 0xff, 0xff] @ short_run (j - 0x8000) else short_run j)"

lemma count_equal_shorter:
  "count_equal a b j = Some (j', c, a', b') \<Longrightarrow> length a' < length a"
  by (induction a b j rule: count_equal.induct) (auto split: if_splits)

function mem_diff :: "zbyte list \<Rightarrow> zbyte list \<Rightarrow> zbyte list" where
  "mem_diff a b =
     (case count_equal a b 0 of
        None \<Rightarrow> []
      | Some (j, c, a', b') \<Rightarrow> zero_run j @ c # mem_diff a' b')"
  by pat_completeness auto
termination
  by (relation "measure (\<lambda>(a, b). length a)") (auto dest: count_equal_shorter)

declare mem_diff.simps [simp del]

text \<open>The side effect on \<open>b\<close>: \<open>*(b - 1) ^= c\<close> at every byte that differs.\<close>

fun diff_target :: "zbyte list \<Rightarrow> zbyte list \<Rightarrow> zbyte list" where
  "diff_target (x # a) (y # b) =
     (if x XOR y = 0 then y else y XOR (x XOR y)) # diff_target a b"
| "diff_target _ b = b"

subsection \<open>Applying a difference\<close>

text \<open>
  \<open>mem_undiff diff dest\<close>; \<open>dest\<close> is the memory from the current position on. The pointer is moved by
  a run without being used, and dereferenced only at a non-zero byte; \<open>None\<close> is a write beyond the
  memory given.
\<close>

fun mem_undiff :: "zbyte list \<Rightarrow> zbyte list \<Rightarrow> zbyte list option" where
  "mem_undiff [] dest = Some dest"
| "mem_undiff (c # diff) dest =
     (if c = 0 then
        (case diff of
           [] \<Rightarrow> Some dest
         | r # diff1 \<Rightarrow>
             if r AND 0x80 \<noteq> 0 then
               (case diff1 of
                  [] \<Rightarrow> Some dest
                | e # diff2 \<Rightarrow>
                    (let runlen = unat (r AND 0x7f) + 128 * unat e in
                     map_option ((@) (take (runlen + 1) dest))
                       (mem_undiff diff2 (drop (runlen + 1) dest))))
             else
               map_option ((@) (take (unat r + 1) dest))
                 (mem_undiff diff1 (drop (unat r + 1) dest)))
      else
        (case dest of
           [] \<Rightarrow> None
         | x # dest \<Rightarrow> map_option ((#) (x XOR c)) (mem_undiff diff dest)))"

lemma run_length:
  assumes "map_option ((@) (take k dest)) (f (drop k dest)) = Some m'"
    and "\<And>x. f (drop k dest) = Some x \<Longrightarrow> length x = length (drop k dest)"
  shows "length m' = length dest"
  using assms by auto

lemma mem_undiff_length: "mem_undiff d m = Some m' \<Longrightarrow> length m' = length m"
proof (induction d m arbitrary: m' rule: mem_undiff.induct)
  case (2 c diff dest)
  consider "c = 0" "diff = []" | r diff1 where "c = 0" "diff = r # diff1" "r AND 0x80 = 0"
    | r where "c = 0" "diff = [r]" "r AND 0x80 \<noteq> 0"
    | r e diff2 where "c = 0" "diff = r # e # diff2" "r AND 0x80 \<noteq> 0"
    | "c \<noteq> 0"
    by (metis list.exhaust)
  then show ?case
  proof cases
    case 2
    show ?thesis
      by (rule run_length [where f = "mem_undiff diff1"])
        (use "2.prems" 2 "2.IH"(2) [of r diff1] in auto)
  next
    case (4 r e diff2)
    show ?thesis
      by (rule run_length [where f = "mem_undiff diff2" and k = "unat (r AND 0x7f) + 128 * unat e + 1"])
        (use "2.prems" "2.IH"(1) 4 in \<open>simp_all add: Let_def\<close>)
  next
    case 5
    then show ?thesis
      using "2.prems" "2.IH"(3) by (cases dest) auto
  qed (use "2.prems" in simp_all)
qed simp

subsection \<open>What the counting loop finds\<close>

lemma xor_zero_iff [simp]: "x XOR y = 0 \<longleftrightarrow> x = (y :: 'a :: len word)"
  by (metis bit.xor_self bit.xor_left_self xor.right_neutral)

lemma count_equal_None:
  "length a = length b \<Longrightarrow> count_equal a b j = None \<Longrightarrow> a = b"
  by (induction a b j rule: count_equal.induct) (auto split: if_splits)

lemma count_equal_Some:
  assumes "length a = length b" and "count_equal a b j = Some (j', c, a', b')"
  shows "\<exists>eq x y. a = eq @ x # a' \<and> b = eq @ y # b' \<and> c = x XOR y \<and> c \<noteq> 0 \<and>
           j' = j + length eq \<and> length a' = length b'"
  using assms
proof (induction a b j rule: count_equal.induct)
  case (1 x a y b j)
  show ?case
  proof (cases "x XOR y = 0")
    case True
    with 1 obtain eq x' y' where
      "a = eq @ x' # a'" "b = eq @ y' # b'" "c = x' XOR y'" "c \<noteq> 0"
      "j' = j + 1 + length eq" "length a' = length b'"
      by auto
    moreover from True have "x = y"
      by simp
    ultimately show ?thesis
      by (intro exI [of _ "x # eq"] exI [of _ x'] exI [of _ y']) simp
  next
    case False
    with 1 show ?thesis
      by (intro exI [of _ "[]"]) auto
  qed
qed auto

subsection \<open>Reading a run back\<close>

lemma xor_cancel [simp]: "y XOR x XOR y = (x :: 'a :: len word)"
  by (metis bit.xor_left_self xor.commute)

lemma run_low_bits:
  "((of_nat n AND 0x7f) OR 0x80 :: zbyte) AND 0x7f = of_nat n AND 0x7f"
  "((of_nat n AND 0x7f) OR 0x80 :: zbyte) AND 0x80 \<noteq> 0"
  by (simp_all add: bit.conj_disj_distrib2 and.assoc)

lemma run_high_bit: "(x AND 0x7f) AND 0x80 = (0 :: zbyte)"
  by (simp add: and.assoc)

lemma run_low_value: "unat (of_nat n AND 0x7f :: zbyte) = n mod 128"
proof -
  have "(0x7f :: zbyte) = mask 7"
    by (simp add: mask_eq_exp_minus_1)
  then have "(of_nat n AND 0x7f :: zbyte) = take_bit 7 (of_nat n)"
    by (simp add: take_bit_eq_mask)
  then show ?thesis
    by (simp add: take_bit_eq_mod unat_mod unat_of_nat mod_mod_cancel)
qed

lemma mem_undiff_short_run:
  assumes "j \<le> 0x8000"
  shows "mem_undiff (short_run j @ diff) dest =
    map_option ((@) (take j dest)) (mem_undiff diff (drop j dest))"
proof -
  consider "j = 0" | k where "j = Suc k" "k \<le> 0x7f" | k where "j = Suc k" "0x7f < k" "k < 0x8000"
    using assms by (cases j) fastforce+
  then show ?thesis
  proof cases
    case 1
    then show ?thesis
      by (cases "mem_undiff diff dest") (simp_all add: short_run_def)
  next
    case 2
    have "of_nat k = (of_nat k AND 0x7f :: zbyte)"
      using 2 by (simp add: word_unat_eq_iff run_low_value unat_of_nat)
    then have "(of_nat k AND 0x80 :: zbyte) = 0"
      by (metis (no_types, lifting) and.assoc and.right_idem run_high_bit)
    then show ?thesis using 2
      by (simp add: short_run_def unat_of_nat)
  next
    case 3
    then show ?thesis
      by (simp add: short_run_def run_low_bits run_low_value unat_of_nat)
  qed
qed

lemma mem_undiff_zero_run:
  assumes "j < 0x10000"
  shows "mem_undiff (zero_run j @ diff) dest =
    map_option ((@) (take j dest)) (mem_undiff diff (drop j dest))"
proof (cases "j > 0x8000")
  case True
  have "take j dest = take 0x8000 dest @ take (j - 0x8000) (drop 0x8000 dest)"
    using True by (simp flip: take_add)
  with True assms show ?thesis
    by (simp add: zero_run_def mem_undiff_short_run option.map_comp comp_def
        del: append_take_drop_id append_assoc flip: append_assoc)
next
  case False
  then show ?thesis
    by (simp add: zero_run_def mem_undiff_short_run)
qed

subsection \<open>The round trip\<close>

text \<open>Equal images, or images that agree on a prefix and differ at the byte after it.\<close>

lemma diff_induct [consumes 2, case_names same differ]:
  assumes "length a = length b" and "length a < 0x10000"
    and same: "\<And>a. mem_diff a a = [] \<Longrightarrow> P a a"
    and differ: "\<And>eq x y a b. x \<noteq> y \<Longrightarrow> length a = length b \<Longrightarrow> length eq < 0x10000 \<Longrightarrow>
      mem_diff (eq @ x # a) (eq @ y # b) = zero_run (length eq) @ (x XOR y) # mem_diff a b \<Longrightarrow>
      P a b \<Longrightarrow> P (eq @ x # a) (eq @ y # b)"
  shows "P a b"
  using assms(1,2)
proof (induction a b rule: mem_diff.induct)
  case (1 a b)
  show ?case
  proof (cases "count_equal a b 0")
    case None
    then have "a = b"
      using "1.prems" by (simp add: count_equal_None)
    then show ?thesis
      using None same [of b] by (simp add: mem_diff.simps)
  next
    case (Some r)
    then obtain j c a' b' where r: "count_equal a b 0 = Some (j, c, a', b')"
      by (cases r) auto
    from count_equal_Some [OF "1.prems"(1) r] obtain eq x y where
      eq: "a = eq @ x # a'" "b = eq @ y # b'" "c = x XOR y" "c \<noteq> 0" "j = length eq"
        "length a' = length b'"
      by auto
    have "mem_diff a b = zero_run j @ c # mem_diff a' b'"
      by (subst mem_diff.simps) (simp add: r)
    moreover have "P a' b'"
      by (rule "1.IH" [OF r refl refl refl]) (use "1.prems" eq in auto)
    ultimately show ?thesis
      using "1.prems"(2) eq differ [of x y a' b' eq] by simp
  qed
qed

text \<open>The difference turns the first image into the second, and the second into the first.\<close>

lemma mem_undiff_forth:
  "length a = length b \<Longrightarrow> length a < 0x10000 \<Longrightarrow> mem_undiff (mem_diff a b) a = Some b"
  by (induction rule: diff_induct) (simp_all add: mem_undiff_zero_run)

lemma mem_undiff_back:
  "length a = length b \<Longrightarrow> length a < 0x10000 \<Longrightarrow> mem_undiff (mem_diff a b) b = Some a"
  by (induction rule: diff_induct) (simp_all add: mem_undiff_zero_run)

lemma diff_target_eq: "length a = length b \<Longrightarrow> diff_target a b = a"
  by (induction a b rule: diff_target.induct) auto

text \<open>A run of \<open>j\<close> equal bytes costs at most \<open>3 * (j + 1) - 1\<close> bytes, its last byte included.\<close>

lemma zero_run_length: "2 * length (zero_run j) \<le> 3 * j + 1"
  by (auto simp: zero_run_def short_run_def Let_def)

lemma mem_diff_length:
  "length a = length b \<Longrightarrow> length a < 0x10000 \<Longrightarrow> 2 * length (mem_diff a b) \<le> 3 * length a"
proof (induction rule: diff_induct)
  case (same a)
  then show ?case by simp
next
  case (differ eq x y a b)
  then show ?case
    using zero_run_length [of "length eq"] by simp
qed

lemma mem_diff_length_le:
  "length a = length b \<Longrightarrow> length a < 0x10000 \<Longrightarrow> length (mem_diff a b) \<le> length a * 3 div 2"
  using mem_diff_length by fastforce

subsection \<open>Difference codecs\<close>

text \<open>
  What the undo mechanism needs of the pair: a difference of two images of one size that leads from
  each of them to the other.
\<close>

locale diff_codec =
  fixes enc :: "zbyte list \<Rightarrow> zbyte list \<Rightarrow> zbyte list"
    and dec :: "zbyte list \<Rightarrow> zbyte list \<Rightarrow> zbyte list option"
    and limit :: nat
  assumes forth: "length a = length b \<Longrightarrow> length a < limit \<Longrightarrow> dec (enc a b) a = Some b"
    and undo: "length a = length b \<Longrightarrow> length a < limit \<Longrightarrow> dec (enc a b) b = Some a"
begin

text \<open>A chain of images, each saved as the difference to the one before it.\<close>

primrec encode_chain :: "zbyte list \<Rightarrow> zbyte list list \<Rightarrow> zbyte list list" where
  "encode_chain base [] = []"
| "encode_chain base (m # ms) = enc m base # encode_chain m ms"

primrec decode_chain :: "zbyte list \<Rightarrow> zbyte list list \<Rightarrow> zbyte list option" where
  "decode_chain m [] = Some m"
| "decode_chain m (d # ds) = Option.bind (dec d m) (\<lambda>m. decode_chain m ds)"

lemma decode_chain_append:
  "decode_chain m (ds @ es) = Option.bind (decode_chain m ds) (\<lambda>m. decode_chain m es)"
  by (induction ds arbitrary: m) (auto simp: bind_eq_Some_conv split: bind_splits)

text \<open>Applying the differences from the last one back leads to the first image.\<close>

lemma decode_encode_chain:
  assumes "length base < limit" and "\<forall>m \<in> set ms. length m = length base"
  shows "decode_chain (last (base # ms)) (rev (encode_chain base ms)) = Some base"
  using assms
proof (induction ms arbitrary: base)
  case (Cons m ms)
  then have "decode_chain (last (m # ms)) (rev (encode_chain m ms)) = Some m"
    by simp
  with Cons.prems show ?case
    by (simp add: decode_chain_append forth)
qed simp

lemma differences_determine:
  "length a = length b \<Longrightarrow> length a < limit \<Longrightarrow> length a = length c \<Longrightarrow>
    enc a b = enc a c \<Longrightarrow> b = c"
  using forth by (metis option.inject)

end

interpretation quetzal_diff: diff_codec mem_diff mem_undiff "0x10000"
  by unfold_locales (simp_all add: mem_undiff_forth mem_undiff_back)

subsection \<open>Properties\<close>

text \<open>
  C24. The difference of two memory images of the same size turns each of them into the other, and
  computing it copies the first image over the second.
\<close>

theorem mem_diff_roundtrip:
  assumes "length a = length b" and "length a < 0x10000"
  shows "mem_undiff (mem_diff a b) b = Some a \<and> mem_undiff (mem_diff a b) a = Some b \<and>
    diff_target a b = a"
  using assms by (simp add: mem_undiff_forth mem_undiff_back diff_target_eq)

theorem mem_diff_roundtrip_witness:
  "mem_undiff (mem_diff [1, 2, 2, 7] [1, 2, 2, 9]) [1, 2, 2, 9] = Some [1, 2, 2, 7]"
  using mem_diff_roundtrip [of "[1, 2, 2, 7]" "[1, 2, 2, 9]"] by simp

text \<open>
  A difference fits into the buffer of one and a half times the image size that \<open>init_undo\<close>
  allocates for it.
\<close>

theorem mem_diff_fits:
  assumes "length a = length b" and "length a < 0x10000"
  shows "length (mem_diff a b) \<le> length a * 3 div 2"
  using assms by (rule mem_diff_length_le)

theorem mem_diff_fits_witness: "length (mem_diff [1, 2, 3] [1, 5, 3]) \<le> 3 * 3 div 2"
  using mem_diff_fits [of "[1, 2, 3]" "[1, 5, 3]"] by simp

end
