(* ===== verification/Arith.thy ===== *)
theory Arith
  imports Process "HOL-Library.Signed_Division"
begin

text \<open>
  Arithmetic, comparison and logic opcodes (math.c) and the random number generator (random.c).
  The cast \<open>(short)\<close> is \<open>sint\<close>; the cast \<open>(zword)\<close> of an \<open>int\<close> is \<open>word_of_int\<close>. Division and
  remainder of C truncate towards zero, which is \<open>sdiv\<close> and \<open>smod\<close>. A shift count of 32 or more is
  undefined for a 32-bit \<open>int\<close>.
\<close>

definition z_add :: "zstate \<Rightarrow> zstate res" where
  "z_add s = store (word_of_int (sint (zargs s 0) + sint (zargs s 1))) s"

definition z_and :: "zstate \<Rightarrow> zstate res" where
  "z_and s = store (zargs s 0 AND zargs s 1) s"

definition z_art_shift :: "zstate \<Rightarrow> zstate res" where
  "z_art_shift s =
     (let n = sint (zargs s 1) in
      if \<bar>n\<bar> \<ge> 32 then Stop (Bad_shift n)
      else if n > 0 then store (word_of_int (sint (zargs s 0) * 2 ^ nat n)) s
      else store (word_of_int (sint (zargs s 0) div 2 ^ nat (- n))) s)"

definition z_div :: "zstate \<Rightarrow> zstate res" where
  "z_div s =
     andthen (if zargs s 1 = 0 then runtime_error ERR_DIV_ZERO s else Ok s) (\<lambda>s.
       if zargs s 1 = 0 then Stop Div_by_zero
       else store (word_of_int (sint (zargs s 0) sdiv sint (zargs s 1))) s)"

definition z_je :: "zstate \<Rightarrow> zstate res" where
  "z_je s =
     branch
       (zargc s > 1 \<and> (zargs s 0 = zargs s 1 \<or>
        (zargc s > 2 \<and> (zargs s 0 = zargs s 2 \<or>
         (zargc s > 3 \<and> zargs s 0 = zargs s 3))))) s"

definition z_jg :: "zstate \<Rightarrow> zstate res" where
  "z_jg s = branch (sint (zargs s 0) > sint (zargs s 1)) s"

definition z_jl :: "zstate \<Rightarrow> zstate res" where
  "z_jl s = branch (sint (zargs s 0) < sint (zargs s 1)) s"

definition z_jz :: "zstate \<Rightarrow> zstate res" where
  "z_jz s = branch (sint (zargs s 0) = 0) s"

definition z_log_shift :: "zstate \<Rightarrow> zstate res" where
  "z_log_shift s =
     (let n = sint (zargs s 1) in
      if \<bar>n\<bar> \<ge> 32 then Stop (Bad_shift n)
      else if n > 0 then store (word_of_int (uint (zargs s 0) * 2 ^ nat n)) s
      else store (word_of_int (uint (zargs s 0) div 2 ^ nat (- n))) s)"

definition z_mod :: "zstate \<Rightarrow> zstate res" where
  "z_mod s =
     andthen (if zargs s 1 = 0 then runtime_error ERR_DIV_ZERO s else Ok s) (\<lambda>s.
       if zargs s 1 = 0 then Stop Div_by_zero
       else store (word_of_int (sint (zargs s 0) smod sint (zargs s 1))) s)"

definition z_mul :: "zstate \<Rightarrow> zstate res" where
  "z_mul s = store (word_of_int (sint (zargs s 0) * sint (zargs s 1))) s"

definition z_not :: "zstate \<Rightarrow> zstate res" where
  "z_not s = store (NOT (zargs s 0)) s"

definition z_or :: "zstate \<Rightarrow> zstate res" where
  "z_or s = store (zargs s 0 OR zargs s 1) s"

definition z_sub :: "zstate \<Rightarrow> zstate res" where
  "z_sub s = store (word_of_int (sint (zargs s 0) - sint (zargs s 1))) s"

definition z_test :: "zstate \<Rightarrow> zstate res" where
  "z_test s = branch (zargs s 0 AND zargs s 1 = zargs s 1) s"

subsection \<open>Random numbers\<close>

definition seed_random :: "int \<Rightarrow> zstate \<Rightarrow> zstate" where
  "seed_random value s =
     (if value = 0 then
        (let (seed, s) = ask s in s\<lparr>rnd := (rnd s)\<lparr>rA := word_of_int seed, interval := 0\<rparr>\<rparr>)
      else if value < 1000 then s\<lparr>rnd := (rnd s)\<lparr>counter := 0, interval := value\<rparr>\<rparr>
      else s\<lparr>rnd := (rnd s)\<lparr>rA := word_of_int value, interval := 0\<rparr>\<rparr>)"

text \<open>The next number before the reduction to the range, and the generator after it.\<close>

definition next_random :: "rng \<Rightarrow> zword \<times> rng" where
  "next_random r =
     (if interval r \<noteq> 0 then
        (let c = counter r + 1 in
         (word_of_int (counter r), r\<lparr>counter := (if c = interval r then 0 else c)\<rparr>))
      else
        (let a = 0x015a4e35 * rA r + 1 in
         (ucast (drop_bit 16 a AND 0x7fff), r\<lparr>rA := a\<rparr>)))"

definition z_random :: "zstate \<Rightarrow> zstate res" where
  "z_random s =
     (if sint (zargs s 0) \<le> 0 then store 0 (seed_random (- sint (zargs s 0)) s)
      else
        (let (result, r) = next_random (rnd s) in
         store (result mod zargs s 0 + 1) (s\<lparr>rnd := r\<rparr>)))"

end
