(* ===== verification/Tables.thy ===== *)
theory Tables
  imports Process
begin

text \<open>
  Table opcodes (table.c): reading and writing bytes and words of tables, copying and clearing a
  table, and searching one.
\<close>

text \<open>The loop bodies of \<open>z_copy_table\<close>, run over the list of offsets the loop goes through.\<close>

fun zero_bytes :: "zword \<Rightarrow> int list \<Rightarrow> zstate \<Rightarrow> zstate res" where
  "zero_bytes a [] s = Ok s"
| "zero_bytes a (i # is) s = andthen (storeb (a + word_of_int i) 0 s) (zero_bytes a is)"

fun copy_bytes :: "zword \<Rightarrow> zword \<Rightarrow> int list \<Rightarrow> zstate \<Rightarrow> zstate res" where
  "copy_bytes a b [] s = Ok s"
| "copy_bytes a b (i # is) s =
     andthen (low_byte (uint (a + word_of_int i)) s) (\<lambda>v.
     andthen (storeb (b + word_of_int i) v s) (copy_bytes a b is))"

definition z_copy_table :: "zstate \<Rightarrow> zstate res" where
  "z_copy_table s =
     (let sz = zargs s 2 in
      if zargs s 1 = 0 then zero_bytes (zargs s 0) [0..uint sz - 1] s
      else if sint sz < 0 \<or> zargs s 0 > zargs s 1 then
        copy_bytes (zargs s 0) (zargs s 1)
          [0..(if sint sz < 0 then - sint sz else uint sz) - 1] s
      else copy_bytes (zargs s 0) (zargs s 1) (rev [0..uint sz - 1]) s)"

definition z_loadb :: "zstate \<Rightarrow> zstate res" where
  "z_loadb s =
     andthen (low_byte (uint (zargs s 0 + zargs s 1)) s) (\<lambda>value. store (ucast value) s)"

definition z_loadw :: "zstate \<Rightarrow> zstate res" where
  "z_loadw s =
     andthen (low_word (uint (zargs s 0 + 2 * zargs s 1)) s) (\<lambda>value. store value s)"

text \<open>The search loop of \<open>z_scan_table\<close> with \<open>n\<close> entries to go; 0 when it finds nothing.\<close>

fun scan_table :: "nat \<Rightarrow> zword \<Rightarrow> zword \<Rightarrow> zword \<Rightarrow> zstate \<Rightarrow> zword res" where
  "scan_table 0 target form addr s = Ok 0"
| "scan_table (Suc n) target form addr s =
     (if form AND 0x80 \<noteq> 0 then
        andthen (low_word (uint addr) s) (\<lambda>wvalue.
          if wvalue = target then Ok addr
          else scan_table n target form (addr + (form AND 0x7f)) s)
      else
        andthen (low_byte (uint addr) s) (\<lambda>bvalue.
          if ucast bvalue = target then Ok addr
          else scan_table n target form (addr + (form AND 0x7f)) s))"

definition z_scan_table :: "zstate \<Rightarrow> zstate res" where
  "z_scan_table s =
     (let s = (if zargc s < 4 then s\<lparr>zargs := (zargs s)(3 := 0x82)\<rparr> else s) in
      andthen (scan_table (unat (zargs s 2)) (zargs s 0) (zargs s 3) (zargs s 1) s) (\<lambda>addr.
      andthen (store addr s) (branch (addr \<noteq> 0))))"

definition z_storeb :: "zstate \<Rightarrow> zstate res" where
  "z_storeb s = storeb (zargs s 0 + zargs s 1) (ucast (zargs s 2)) s"

definition z_storew :: "zstate \<Rightarrow> zstate res" where
  "z_storew s = storew (zargs s 0 + 2 * zargs s 1) (zargs s 2) s"

end
