(* ===== verification/Memory.thy ===== *)
theory Memory
  imports MemDiff Arith Tables
begin

text \<open>
  Memory management (fastmem.c): the header and its extension, loading the story file, restarting,
  the undo mechanism and the checksum. \<open>storeb\<close> and \<open>storew\<close> are in \<open>Output\<close>, because they can
  print; the two halves of the undo difference are in \<open>MemDiff\<close>.
\<close>

subsection \<open>Header extension\<close>

definition get_header_extension :: "int \<Rightarrow> zstate \<Rightarrow> zword res" where
  "get_header_extension entry s =
     (if h_extension_table (hdr s) = 0 \<or> entry > uint (hx_table_size (hdr s)) then Ok 0
      else low_word (uint (h_extension_table (hdr s) + 2 * word_of_int entry)) s)"

definition set_header_extension :: "int \<Rightarrow> zword \<Rightarrow> zstate \<Rightarrow> zstate res" where
  "set_header_extension entry val s =
     (if h_extension_table (hdr s) = 0 \<or> entry > uint (hx_table_size (hdr s)) then Ok s
      else set_word (uint (h_extension_table (hdr s) + 2 * word_of_int entry)) val s)"

subsection \<open>The header\<close>

text \<open>The loop that stores the user name, over the positions still to be stored.\<close>

fun store_user_name :: "int list \<Rightarrow> zstate \<Rightarrow> zstate res" where
  "store_user_name [] s = Ok s"
| "store_user_name (i # is) s =
     andthen (storeb (word_of_int (H_USER_NAME + i)) (h_user_name (hdr s) i) s) (store_user_name is)"

definition restart_header :: "zstate \<Rightarrow> zstate res" where
  "restart_header s =
     andthen (set_byte H_CONFIG (h_config (hdr s)) s) (\<lambda>s.
     andthen (set_word H_FLAGS (h_flags (hdr s)) s) (\<lambda>s.
     andthen
       (if V4 \<le> version s then
          andthen (set_byte H_INTERPRETER_NUMBER (h_interpreter_number (hdr s)) s) (\<lambda>s.
          andthen (set_byte H_INTERPRETER_VERSION (h_interpreter_version (hdr s)) s) (\<lambda>s.
          andthen (set_byte H_SCREEN_ROWS (h_screen_rows (hdr s)) s) (\<lambda>s.
          set_byte H_SCREEN_COLS (h_screen_cols (hdr s)) s)))
        else Ok s) (\<lambda>s.
     let v6 = version s = V6;
         screen_x_size = (if \<not> v6 then ucast (h_screen_cols (hdr s)) else h_screen_width (hdr s));
         screen_y_size = (if \<not> v6 then ucast (h_screen_rows (hdr s)) else h_screen_height (hdr s));
         font_x_size = (if \<not> v6 then 1 else h_font_width (hdr s));
         font_y_size = (if \<not> v6 then 1 else h_font_height (hdr s)) in
     andthen
       (if V5 \<le> version s then
          andthen (set_word H_SCREEN_WIDTH screen_x_size s) (\<lambda>s.
          andthen (set_word H_SCREEN_HEIGHT screen_y_size s) (\<lambda>s.
          andthen (set_byte H_FONT_HEIGHT font_y_size s) (\<lambda>s.
          andthen (set_byte H_FONT_WIDTH font_x_size s) (\<lambda>s.
          andthen (set_byte H_DEFAULT_BACKGROUND (h_default_background (hdr s)) s) (\<lambda>s.
          set_byte H_DEFAULT_FOREGROUND (h_default_foreground (hdr s)) s)))))
        else Ok s) (\<lambda>s.
     andthen (if version s = V6 then store_user_name [0..7] s else Ok s) (\<lambda>s.
     andthen (set_byte H_STANDARD_HIGH (h_standard_high (hdr s)) s) (\<lambda>s.
     set_byte H_STANDARD_LOW (h_standard_low (hdr s)) s))))))"

subsection \<open>Loading the story file\<close>

definition records :: "(story \<times> zword \<times> string) list" where
  "records =
    [(SHERLOCK, 21, ''871214''),
     (SHERLOCK, 26, ''880127''),
     (BEYOND_ZORK, 47, ''870915''),
     (BEYOND_ZORK, 49, ''870917''),
     (BEYOND_ZORK, 51, ''870923''),
     (BEYOND_ZORK, 57, ''871221''),
     (ZORK_ZERO, 296, ''881019''),
     (ZORK_ZERO, 366, ''890323''),
     (ZORK_ZERO, 383, ''890602''),
     (ZORK_ZERO, 393, ''890714''),
     (SHOGUN, 292, ''890314''),
     (SHOGUN, 295, ''890321''),
     (SHOGUN, 311, ''890510''),
     (SHOGUN, 322, ''890706''),
     (ARTHUR, 54, ''890606''),
     (ARTHUR, 63, ''890622''),
     (ARTHUR, 74, ''890714''),
     (JOURNEY, 26, ''890316''),
     (JOURNEY, 30, ''890322''),
     (JOURNEY, 77, ''890616''),
     (JOURNEY, 83, ''890706''),
     (LURKING_HORROR, 203, ''870506''),
     (LURKING_HORROR, 219, ''870912''),
     (LURKING_HORROR, 221, ''870918'')]"

text \<open>The loop over the records: a later match replaces an earlier one.\<close>

fun match_records :: "(story \<times> zword \<times> string) list \<Rightarrow> header \<Rightarrow> story \<Rightarrow> story" where
  "match_records [] h found = found"
| "match_records ((st, release, serial) # rs) h found =
     match_records rs h
       (if h_release h = release \<and> map (h_serial h) [0..5] = zs serial then st else found)"

text \<open>The size of the story file in bytes.\<close>

definition story_bytes :: "zbyte \<Rightarrow> zword \<Rightarrow> int \<Rightarrow> int" where
  "story_bytes v file_size len =
     (if file_size \<noteq> 0 then
        2 * uint file_size * (if V4 \<le> v then 2 else 1) * (if V6 \<le> v then 2 else 1)
      else len)"

text \<open>\<open>fread\<close> of \<open>n\<close> bytes of the story file from position \<open>pos\<close> to the memory at \<open>pos\<close>.\<close>

definition read_story :: "int \<Rightarrow> int \<Rightarrow> zstate \<Rightarrow> zstate res" where
  "read_story pos n s =
     (if story_size s < pos + n then Stop (Bad_memory (story_size s))
      else if story_len s < pos + n then Stop (Os_fatal ''Story file read error'')
      else Ok (s\<lparr>zmp := (\<lambda>a. if pos \<le> a \<and> a < pos + n then story_file s a else zmp s a)\<rparr>))"

lemma read_story_eq_Ok:
  "read_story pos n s = Ok s' \<longleftrightarrow> pos + n \<le> story_size s \<and> pos + n \<le> story_len s \<and>
     s' = s\<lparr>zmp := (\<lambda>a. if pos \<le> a \<and> a < pos + n then story_file s a else zmp s a)\<rparr>"
  by (auto simp: read_story_def)

text \<open>The loop that loads the story file in chunks of 32KB.\<close>

function load_chunks :: "int \<Rightarrow> zstate \<Rightarrow> zstate res" where
  "load_chunks pos s =
     (if pos < story_size s then
        (let n = (if story_size s - pos < 0x8000 then story_size s - pos else 0x8000) in
         andthen (read_story pos n (s\<lparr>pcp := pos\<rparr>)) (load_chunks (pos + n)))
      else Ok s)"
  by pat_completeness auto
termination
  by (relation "measure (\<lambda>(pos, s). nat (story_size s - pos))") (auto simp: read_story_eq_Ok)

declare load_chunks.simps [simp del]

text \<open>The header words that \<open>init_memory\<close> copies to the global variables.\<close>

definition read_header :: "zstate \<Rightarrow> zstate" where
  "read_header s =
     (let w = (\<lambda>a. mk_word (zmp s a) (zmp s (a + 1))) in
      upd_hdr (\<lambda>h. h\<lparr>
        h_release := w H_RELEASE, h_resident_size := w H_RESIDENT_SIZE,
        h_start_pc := w H_START_PC, h_dictionary := w H_DICTIONARY, h_objects := w H_OBJECTS,
        h_globals := w H_GLOBALS, h_dynamic_size := w H_DYNAMIC_SIZE, h_flags := w H_FLAGS,
        h_serial := (\<lambda>i. zmp s (H_SERIAL + i)),
        h_abbreviations := w H_ABBREVIATIONS, h_file_size := w H_FILE_SIZE,
        h_checksum := w H_CHECKSUM, h_alphabet := w H_ALPHABET,
        h_functions_offset := w H_FUNCTIONS_OFFSET, h_strings_offset := w H_STRINGS_OFFSET,
        h_terminating_keys := w H_TERMINATING_KEYS, h_extension_table := w H_EXTENSION_TABLE\<rparr>) s)"

text \<open>
  \<open>init_memory\<close>. The answers from outside are those of \<open>os_path_open\<close>, of \<open>malloc\<close> for the header
  and of \<open>realloc\<close> for the story. The change to the opcode tables is in \<open>Interpreter\<close>.
\<close>

definition init_memory :: "zstate \<Rightarrow> zstate res" where
  "init_memory s =
     (let (opened, s) = ask s in
      if opened = 0 then Stop (Os_fatal ''Cannot open story file'')
      else
        (let (mem, s) = ask s in
         if mem = 0 then Stop (Os_fatal ''Out of memory'')
         else
           andthen (read_story 0 64 (s\<lparr>story_size := 64\<rparr>)) (\<lambda>s.
           let s = upd_hdr (\<lambda>h. h\<lparr>h_version := zmp s H_VERSION\<rparr>) s in
           if version s < V1 \<or> version s > V8 then Stop (Os_fatal ''Unknown Z-code version'')
           else
             (let s = upd_hdr (\<lambda>h. h\<lparr>h_config := zmp s H_CONFIG\<rparr>) s in
              if version s = V3 \<and> h_config (hdr s) AND CONFIG_BYTE_SWAPPED \<noteq> 0
              then Stop (Os_fatal ''Byte swapped story file'')
              else
                (let s = read_header s;
                     s = s\<lparr>story_id := match_records records (hdr s) UNKNOWN\<rparr>;
                     s = (if story_id s = ZORK_ZERO \<and> h_release (hdr s) = 296
                          then upd_hdr (\<lambda>h. h\<lparr>h_flags := h_flags h OR GRAPHICS_FLAG\<rparr>) s else s);
                     s = s\<lparr>story_size := story_bytes (version s) (h_file_size (hdr s)) (story_len s)\<rparr>;
                     (mem, s) = ask s in
                 if mem = 0 then Stop (Os_fatal ''Out of memory'')
                 else
                   andthen (load_chunks 64 s) (\<lambda>s.
                   andthen (get_header_extension 0 s) (\<lambda>n.
                   let s = upd_hdr (\<lambda>h. h\<lparr>hx_table_size := n\<rparr>) s in
                   andthen (get_header_extension 3 s) (\<lambda>u.
                     Ok (upd_hdr (\<lambda>h. h\<lparr>hx_unicode_table := u\<rparr>) s)))))))))"

subsection \<open>Undo\<close>

text \<open>The first \<open>h_dynamic_size\<close> bytes of a memory, as a list.\<close>

definition dyn_size :: "zstate \<Rightarrow> int" where
  "dyn_size s = uint (h_dynamic_size (hdr s))"

lemma dyn_size_frame [simp]:
  "dyn_size (s\<lparr>zmp := v0\<rparr>) = dyn_size s"
  "dyn_size (s\<lparr>pcp := v1\<rparr>) = dyn_size s"
  "dyn_size (s\<lparr>sp := v2\<rparr>) = dyn_size s"
  "dyn_size (s\<lparr>fp := v3\<rparr>) = dyn_size s"
  "dyn_size (s\<lparr>frame_count := v4\<rparr>) = dyn_size s"
  "dyn_size (s\<lparr>stack := v5\<rparr>) = dyn_size s"
  "dyn_size (s\<lparr>undo := v6\<rparr>) = dyn_size s"
  "dyn_size (s\<lparr>clock := v7\<rparr>) = dyn_size s"
  "dyn_size (s\<lparr>zargs := v8\<rparr>) = dyn_size s"
  "dyn_size (s\<lparr>zargc := v9\<rparr>) = dyn_size s"
  "dyn_size (s\<lparr>rnd := v10\<rparr>) = dyn_size s"
  "dyn_size (s\<lparr>finished := v11\<rparr>) = dyn_size s"
  "dyn_size (s\<lparr>out := v12\<rparr>) = dyn_size s"
  "dyn_size (s\<lparr>first_restart := v13\<rparr>) = dyn_size s"
  by (simp_all add: dyn_size_def)

definition mem_image :: "int \<Rightarrow> (int \<Rightarrow> zbyte) \<Rightarrow> zbyte list" where
  "mem_image n m = map m [0..n - 1]"

text \<open>Overwrite the start of a memory with a list (\<open>memcpy\<close>).\<close>

definition overwrite :: "(int \<Rightarrow> 'a) \<Rightarrow> int \<Rightarrow> 'a list \<Rightarrow> (int \<Rightarrow> 'a)" where
  "overwrite m pos xs =
     (\<lambda>a. if pos \<le> a \<and> a < pos + int (length xs) then xs ! nat (a - pos) else m a)"

text \<open>
  \<open>init_undo\<close>; \<open>reserve_mem\<close> is the global of main.c. When the reserve cannot be allocated the
  function returns at once, and \<open>undo_slots\<close> keeps its value.
\<close>

definition init_undo :: "int \<Rightarrow> zstate \<Rightarrow> zstate" where
  "init_undo reserve_mem s =
     (let (reserved, s) = (if reserve_mem \<noteq> 0 then ask s else (1, s)) in
      if reserved = 0 then s
      else
        (let (mem, s) = ask s in
         if mem \<noteq> 0 then
           s\<lparr>undo := (undo s)\<lparr>undo_mem := True,
               prev_zmp := overwrite (prev_zmp (undo s)) 0 (mem_image (dyn_size s) (zmp s))\<rparr>\<rparr>
         else s\<lparr>f_setup := (f_setup s)\<lparr>undo_slots := 0\<rparr>\<rparr>))"

text \<open>\<open>free_undo\<close>: the loop, and the function with its adjustment of \<open>count\<close>.\<close>

fun free_loop :: "nat \<Rightarrow> undostate \<Rightarrow> undostate res" where
  "free_loop 0 u = Ok u"
| "free_loop (Suc n) u =
     (case undo_list u of
        [] \<Rightarrow> Stop Null_pointer
      | p # ps \<Rightarrow>
          free_loop n (u\<lparr>undo_list := ps,
            curr_undo := (if curr_undo u = 0 then (if ps = [] then -1 else 0)
                          else if curr_undo u = -1 then -1 else curr_undo u - 1),
            undo_count := undo_count u - 1\<rparr>))"

definition free_undo :: "int \<Rightarrow> undostate \<Rightarrow> undostate res" where
  "free_undo count u =
     (let count = (if count > undo_count u then undo_count u else count) in
      if count < 0 then Stop Null_pointer else free_loop (nat count) u)"

text \<open>The loop of \<open>save_undo\<close> that frees the blocks after the current one.\<close>

function drop_newer :: "undostate \<Rightarrow> undostate res" where
  "drop_newer u =
     (if int (length (undo_list u)) - 1 = curr_undo u then Ok u
      else if undo_list u = [] then Stop Null_pointer
      else drop_newer (u\<lparr>undo_list := butlast (undo_list u), undo_count := undo_count u - 1\<rparr>))"
  by pat_completeness auto
termination
  by (relation "measure (\<lambda>u. length (undo_list u))") auto

declare drop_newer.simps [simp del]

text \<open>The \<open>malloc\<close> loop: it frees the oldest block after each failure, until none is left.\<close>

lemma free_undo_count:
  "free_undo 1 u = Ok u' \<Longrightarrow> undo_count u' = undo_count u - (if undo_count u = 0 then 0 else 1)"
  by (auto simp: free_undo_def Let_def numeral_eq_Suc split: if_splits list.splits)

function alloc_loop :: "undostate \<Rightarrow> zstate \<Rightarrow> (bool \<times> undostate \<times> zstate) res" where
  "alloc_loop u s =
     (let (p, s) = ask s in
      if p \<noteq> 0 then Ok (True, u, s)
      else
        andthen (free_undo 1 u) (\<lambda>u.
          if undo_count u \<noteq> 0 then alloc_loop u s else Ok (False, u, s)))"
  by pat_completeness auto
termination
proof (relation "measure (\<lambda>(u, s). nat (undo_count u))", goal_cases)
  case 1
  then show ?case by simp
next
  case (2 u s x p s' u')
  then have "undo_count u \<ge> 0"
    by (auto simp: free_undo_def Let_def split: if_splits)
  moreover have "undo_count u' = (if undo_count u = 0 then 0 else undo_count u - 1)"
    using 2 free_undo_count [of u u'] by (auto split: if_splits)
  ultimately show ?case
    using 2 by (auto split: if_splits)
qed

declare alloc_loop.simps [simp del]

definition stack_words :: "int \<Rightarrow> int \<Rightarrow> zstate \<Rightarrow> zword list res" where
  "stack_words p n s =
     (if 0 \<le> p \<and> p + n \<le> STACK_SIZE then Ok (map (stack s) [p..p + n - 1]) else Stop (Bad_stack p))"

text \<open>The rest of \<open>save_undo\<close> once there is room for a block in the list: compute and append it.\<close>

definition save_block :: "undostate \<Rightarrow> zstate \<Rightarrow> (int \<times> zstate) res" where
  "save_block u s =
     (if dyn_size s \<noteq> 0 \<and> \<not> undo_mem u then Stop Null_pointer
      else if story_size s < dyn_size s then Stop (Bad_memory (story_size s))
      else
        (let new = mem_image (dyn_size s) (zmp s);
             old = mem_image (dyn_size s) (prev_zmp u);
             diff = mem_diff new old;
             u = u\<lparr>prev_zmp := overwrite (prev_zmp u) 0 (diff_target new old)\<rparr>;
             stack_size = word_of_int (STACK_SIZE - sp s) :: zword in
         andthen (alloc_loop u s) (\<lambda>(p, u, s).
           if \<not> p then Ok (-1, s\<lparr>undo := u\<rparr>)
           else
             andthen (stack_words (sp s) (uint stack_size) s) (\<lambda>words.
               Ok (1, s\<lparr>undo := u\<lparr>
                 undo_list := undo_list u @
                   [\<lparr>u_pc = pcp s, u_diff = diff, u_frame_count = frame_count s,
                     u_stack = words, u_frame_offset = word_of_int (fp s)\<rparr>],
                 curr_undo := int (length (undo_list u)),
                 undo_count := undo_count u + 1\<rparr>\<rparr>)))))"

text \<open>
  \<open>save_undo\<close>. Its first statement reads \<open>p->pc\<close> through a pointer not yet set: whether this read
  faults is an answer from outside, and the value read is never used.
\<close>

definition save_undo :: "zstate \<Rightarrow> (int \<times> zstate) res" where
  "save_undo s =
     (let (readable, s) = ask s in
      if readable = 0 then Stop Wild_pointer
      else if undo_slots (f_setup s) = 0 then Ok (-1, s)
      else
        andthen (drop_newer (undo s)) (\<lambda>u.
        andthen (if undo_count u = undo_slots (f_setup s) then free_undo 1 u else Ok u) (\<lambda>u.
          save_block u s)))"

definition z_save_undo :: "zstate \<Rightarrow> zstate res" where
  "z_save_undo s = andthen (save_undo s) (\<lambda>(v, s). store (word_of_int v) s)"

text \<open>
  \<open>restore_undo\<close>. It reads \<open>curr_undo->pc\<close> before it tests \<open>curr_undo\<close>, which makes the second
  test unreachable.
\<close>

definition restore_undo :: "zstate \<Rightarrow> (int \<times> zstate) res" where
  "restore_undo s =
     (let u = undo s in
      if curr_undo u = -1 then Stop Null_pointer
      else
        (let b = undo_list u ! nat (curr_undo u); pc = u_pc b in
         if undo_slots (f_setup s) = 0 then Ok (-1, s)
         else if curr_undo u = -1 then Ok (0, s)
         else if dyn_size s \<noteq> 0 \<and> \<not> undo_mem u then Stop Null_pointer
         else if story_size s < dyn_size s then Stop (Bad_memory (story_size s))
         else
           (let s = s\<lparr>zmp := overwrite (zmp s) 0 (mem_image (dyn_size s) (prev_zmp u)),
                      pcp := pc,
                      sp := STACK_SIZE - int (length (u_stack b)),
                      fp := uint (u_frame_offset b),
                      frame_count := u_frame_count b\<rparr> in
            case mem_undiff (u_diff b) (mem_image (dyn_size s) (prev_zmp u)) of
              None \<Rightarrow> Stop (Bad_memory (dyn_size s))
            | Some old \<Rightarrow>
                if sp s < 0 then Stop (Bad_stack (sp s))
                else
                  (let s = s\<lparr>stack := overwrite (stack s) (sp s) (u_stack b),
                       undo := u\<lparr>prev_zmp := overwrite (prev_zmp u) 0 old,
                                 curr_undo := curr_undo u - 1\<rparr>\<rparr> in
                   andthen (restart_header s) (\<lambda>s. Ok (2, s))))))"

definition z_restore_undo :: "zstate \<Rightarrow> zstate res" where
  "z_restore_undo s = andthen (restore_undo s) (\<lambda>(v, s). store (word_of_int v) s)"

text \<open>\<open>reset_memory\<close>: the story file is closed and all memory is given back.\<close>

definition reset_memory :: "zstate \<Rightarrow> zstate res" where
  "reset_memory s =
     andthen (if undo_mem (undo s) then free_undo (undo_count (undo s)) (undo s) else Ok (undo s)) (\<lambda>u.
       Ok (s\<lparr>undo := u\<lparr>undo_mem := False, undo_count := 0\<rparr>, story_size := 0\<rparr>))"

subsection \<open>Restart and verification\<close>

text \<open>
  \<open>z_restart\<close>; \<open>restart_screen\<close> of screen.c is its first argument. \<open>os_restart_game\<close> is called with
  \<open>RESTART_BEGIN\<close> (0) and \<open>RESTART_END\<close> (2).
\<close>

definition z_restart :: "(zstate \<Rightarrow> zstate res) \<Rightarrow> zstate \<Rightarrow> zstate res" where
  "z_restart restart_screen s =
     andthen (flush_buffer s) (\<lambda>s.
     let s = seed_random 0 (log_event (Restart_game 0) s) in
     andthen
       (if \<not> first_restart s then read_story 0 (dyn_size s) s
        else Ok (s\<lparr>first_restart := False\<rparr>)) (\<lambda>s.
     andthen (restart_header s) (\<lambda>s.
     andthen (restart_screen s) (\<lambda>s.
     let s = s\<lparr>sp := STACK_SIZE, fp := STACK_SIZE, frame_count := 0\<rparr> in
     andthen
       (if version s \<noteq> V6 then Ok (s\<lparr>pcp := uint (h_start_pc (hdr s))\<rparr>)
        else call_frame (h_start_pc (hdr s)) 0 (\<lambda>i. 0) 0 s) (\<lambda>s.
       Ok (log_event (Restart_game 2) s))))))"

text \<open>\<open>fgetc\<close> on the story file: -1 at its end.\<close>

definition story_getc :: "zstate \<Rightarrow> int \<Rightarrow> int" where
  "story_getc s i = (if i < story_len s then uint (story_file s i) else -1)"

definition z_verify :: "zstate \<Rightarrow> zstate res" where
  "z_verify s =
     (let checksum = foldl (\<lambda>c i. c + word_of_int (story_getc s i)) 0 [64..story_size s - 1] in
      branch (checksum = h_checksum (hdr s)) s)"

end
