(* ===== verification/SaveGame.thy ===== *)
theory SaveGame
  imports Quetzal Memory
begin

text \<open>
  Saving and restoring a game or a part of memory (\<open>get_default_name\<close>, \<open>z_save\<close>, \<open>z_restore\<close> of
  fastmem.c). The format of a saved game is Quetzal or frotz's old one, as the options say. Reading a
  file does not fail but at its end, so \<open>ferror\<close> is 0 after reading; what \<open>fclose\<close> returns for a file
  that was written is an answer from outside. \<open>os_read_file_name\<close> puts a name into \<open>new_name\<close> and
  answers 0 when the player gave none.
\<close>

abbreviation (input) "MAX_FILE_NAME \<equiv> (80 :: int)"

subsection \<open>The name of an auxiliary file\<close>

text \<open>The bytes up to the first zero, as a string.\<close>

definition c_string :: "zbyte list \<Rightarrow> string" where
  "c_string bs = map (\<lambda>b. char_of (unat b)) (takeWhile (\<lambda>b. b \<noteq> 0) bs)"

text \<open>The characters of a name, \<open>n\<close> of them from \<open>addr\<close> on, for the places of \<open>default_name\<close> from \<open>i\<close> on.\<close>

fun name_chars :: "nat \<Rightarrow> int \<Rightarrow> zword \<Rightarrow> zstate \<Rightarrow> zbyte list res" where
  "name_chars 0 i addr s = Ok []"
| "name_chars (Suc n) i addr s =
     andthen (low_byte (uint addr) s) (\<lambda>c.
       let c = (if 0x41 \<le> c \<and> c \<le> 0x5A then c + 0x20 else c) in
       if i > MAX_FILE_NAME then Stop (Bad_buffer i)
       else andthen (name_chars n (i + 1) (addr + 1) s) (\<lambda>cs. Ok (c # cs)))"

definition get_default_name :: "zword \<Rightarrow> zstate \<Rightarrow> string res" where
  "get_default_name addr s =
     (if addr \<noteq> 0 then
        andthen (low_byte (uint addr) s) (\<lambda>len.
        andthen (name_chars (unat len) 0 (addr + 1) s) (\<lambda>cs.
          let i = int (length cs) in
          if i > MAX_FILE_NAME then Stop (Bad_buffer i)
          else if CHR ''.'' \<notin> set (c_string cs) then
            (if i + 4 > MAX_FILE_NAME then Stop (Bad_buffer (i + 4))
             else Ok (c_string (cs @ zs ''.AUX'')))
          else Ok (c_string cs)))
      else Ok (auxilary_name (dev s)))"

text \<open>The end of both opcodes.\<close>

definition save_result :: "zword \<Rightarrow> zstate \<Rightarrow> zstate res" where
  "save_result success s = (if version s \<le> V3 then branch (success \<noteq> 0) s else store success s)"

subsection \<open>Saving\<close>

text \<open>\<open>fputc\<close> calls whose results are not looked at.\<close>

fun put_all :: "zbyte list \<Rightarrow> cfile \<Rightarrow> zstate \<Rightarrow> cfile \<times> zstate" where
  "put_all [] f s = (f, s)"
| "put_all (b # bs) f s = (let (ok, f, s) = put_c b f s in put_all bs f s)"

text \<open>The words of the stack from \<open>i\<close> to \<open>STACK_SIZE - 1\<close>, as bytes.\<close>

fun stack_bytes :: "int list \<Rightarrow> zstate \<Rightarrow> zbyte list res" where
  "stack_bytes [] s = Ok []"
| "stack_bytes (i # is) s =
     andthen (stack_get i s) (\<lambda>w.
     andthen (stack_bytes is s) (\<lambda>bs. Ok (hi w # lo w # bs)))"

text \<open>
  The loop over dynamic memory of the old format: the number of bytes that equal those of the story
  file, then a byte of memory.
\<close>

fun memory_runs :: "int list \<Rightarrow> zbyte \<Rightarrow> zstate \<Rightarrow> zbyte list res" where
  "memory_runs [] skip s = Ok []"
| "memory_runs (a # as) skip s =
     andthen (low_byte a s) (\<lambda>b.
       if uint b \<noteq> story_getc s a \<or> skip = 255 \<or> a + 1 = uint (h_dynamic_size (hdr s)) then
         andthen (memory_runs as 0 s) (\<lambda>bs. Ok (skip # b # bs))
       else memory_runs as (skip + 1) s)"

definition save_old :: "cfile \<Rightarrow> zstate \<Rightarrow> (cfile \<times> zstate) res" where
  "save_old f s =
     (let pc = word_of_int (pcp s) :: 32 word;
          nsp = word_of_int (sp s) :: zword;
          nfp = word_of_int (fp s) :: zword in
      andthen (stack_bytes [uint nsp..STACK_SIZE - 1] s) (\<lambda>ws.
      andthen (memory_runs [0..uint (h_dynamic_size (hdr s)) - 1] 0 s) (\<lambda>ms.
        Ok (put_all
          ([hi (h_release (hdr s)), lo (h_release (hdr s)), hi (h_checksum (hdr s)), lo (h_checksum (hdr s)),
            ucast (drop_bit 16 pc), ucast (drop_bit 8 pc), ucast pc, hi nsp, lo nsp, hi nfp, lo nfp] @ ws @ ms)
          f s))))"

text \<open>
  The two parts of \<open>z_save\<close>, each with the value of \<open>success\<close>. For a saved game the last assignment
  replaces what \<open>save_quetzal\<close> returned.
\<close>

definition save_area :: "zstate \<Rightarrow> (zword \<times> zstate) res" where
  "save_area s =
     andthen (get_default_name (if 3 \<le> zargc s then zargs s 2 else 0) s) (\<lambda>default_name.
     let new_name = os_name (dev s) (clock s); (named, s) = ask s in
     if named = 0 then Ok (0, s)
     else
       (case open_write new_name (upd_dev (\<lambda>d. d\<lparr>auxilary_name := default_name\<rparr>) s) of
          (None, s) \<Rightarrow> Ok (0, s)
        | (Some f, s) \<Rightarrow>
            let a = uint (zargs s 0); n = uint (zargs s 1) in
            if story_size s < a + n then Stop (Bad_memory (story_size s))
            else
              (let (ok, f, s) = put_bytes (map (zmp s) [a..a + n - 1]) f s in
               Ok (if ok \<and> n \<noteq> 0 then 1 else 0, close_write new_name f s))))"

definition save_game :: "zstate \<Rightarrow> (zword \<times> zstate) res" where
  "save_game s =
     (let new_name = os_name (dev s) (clock s); (named, s) = ask s in
      if named = 0 then Ok (0, s)
      else
        (case open_write new_name (upd_dev (\<lambda>d. d\<lparr>save_name := new_name\<rparr>) s) of
           (None, s) \<Rightarrow> Ok (0, s)
         | (Some f, s) \<Rightarrow>
             andthen
               (if save_quetzal (f_setup s) then save_quetzal_file f s
                else andthen (save_old f s) (\<lambda>(f, s). Ok (0, f, s)))
               (\<lambda>(success, f, s).
                 let (closed, s) = ask (close_write new_name f s) in
                 if closed = -1 then
                   andthen (complain ''Error writing save file'' s) (\<lambda>s. Ok (success, s))
                 else Ok (1, s))))"

definition z_save :: "zstate \<Rightarrow> zstate res" where
  "z_save s =
     andthen (if zargc s \<noteq> 0 then save_area s else save_game s) (\<lambda>(success, s). save_result success s)"

subsection \<open>Restoring\<close>

definition restore_area :: "zstate \<Rightarrow> (zword \<times> zstate) res" where
  "restore_area s =
     andthen (get_default_name (if 3 \<le> zargc s then zargs s 2 else 0) s) (\<lambda>default_name.
     let new_name = os_name (dev s) (clock s); (named, s) = ask s in
     if named = 0 then Ok (0, s)
     else
       (case open_read new_name (upd_dev (\<lambda>d. d\<lparr>auxilary_name := default_name\<rparr>) s) of
          (None, s) \<Rightarrow> Ok (0, s)
        | (Some f, s) \<Rightarrow>
            let bs = take (unat (zargs s 1)) (f_bytes f) in
            andthen (put_mem (uint (zargs s 0)) bs s) (\<lambda>s. Ok (of_nat (length bs), s))))"

text \<open>A word from two \<open>fgetc\<close> calls; the end of the file counts as -1.\<close>

definition getc_word :: "cfile \<Rightarrow> zword \<times> cfile" where
  "getc_word f =
     (let (a, f) = fgetc f; (b, f) = fgetc f in (push_bit 8 (word_of_int a) OR word_of_int b, f))"

definition getc_offset :: "cfile \<Rightarrow> int \<times> cfile" where
  "getc_offset f = (let (a, f) = fgetc f; (b, f) = fgetc f in (256 * a + b, f))"

fun get_stack :: "int list \<Rightarrow> cfile \<Rightarrow> zstate \<Rightarrow> (cfile \<times> zstate) res" where
  "get_stack [] f s = Ok (f, s)"
| "get_stack (i # is) f s =
     (let (w, f) = getc_word f in andthen (stack_set i w s) (get_stack is f))"

text \<open>\<open>zmp[addr++] = fgetc (story_fp)\<close>, \<open>n\<close> times; \<open>k\<close> is the position in the story file.\<close>

fun copy_story :: "nat \<Rightarrow> zword \<Rightarrow> int \<Rightarrow> zstate \<Rightarrow> (zword \<times> int \<times> zstate) res" where
  "copy_story 0 addr k s = Ok (addr, k, s)"
| "copy_story (Suc n) addr k s =
     andthen (set_byte (uint addr) (word_of_int (story_getc s k)) s) (copy_story n (addr + 1) (k + 1))"

text \<open>
  The loop that reads memory; \<open>n\<close> is \<open>h_dynamic_size\<close>. It comes to an end because every turn takes
  something from the file, and behind the end of the file only moves \<open>addr\<close> on by one.
\<close>

function get_memory :: "zword \<Rightarrow> zword \<Rightarrow> int \<Rightarrow> cfile \<Rightarrow> zstate \<Rightarrow> (zword \<times> cfile \<times> zstate) res" where
  "get_memory n addr k f s =
     (if addr < n then
        (let (skip, f) = fgetc f in
         andthen (copy_story (nat skip) addr k s) (\<lambda>(addr, k, s).
         let (b, f) = fgetc f in
         andthen (set_byte (uint addr) (word_of_int b) s) (\<lambda>s. get_memory n (addr + 1) (k + 1) f s)))
      else Ok (addr, f, s))"
  by pat_completeness auto
termination
proof (relation "measures [\<lambda>(n, addr, k, f, s). bytes_left f, \<lambda>(n, addr, k, f, s). unat n - unat addr]", goal_cases)
  case (2 n addr k f s p skip f1 q addr' r k' s' c b f2 t)
  have left: "bytes_left f1 = bytes_left f - 1" "skip = -1 \<longleftrightarrow> bytes_left f = 0" "bytes_left f2 = bytes_left f1 - 1"
    using 2 fgetc_left [of f skip f1] fgetc_left [of f1 b f2] by auto
  show ?case
  proof (cases "bytes_left f = 0")
    case True
    then have "addr' = addr"
      using 2 left(2) by auto
    moreover have "unat (addr + 1) = unat addr + 1"
      using 2(1) unsigned_less [where 'a = nat, of n] by (simp add: unat_word_ariths word_less_nat_alt)
    ultimately show ?thesis
      using True 2(1) left by (simp add: word_less_nat_alt)
  next
    case False
    then show ?thesis
      using left by simp
  qed
qed simp

declare get_memory.simps [simp del]

definition restore_old :: "cfile \<Rightarrow> zstate \<Rightarrow> (zword \<times> zstate) res" where
  "restore_old f s =
     (let (release, f) = getc_word f; (x, f) = fgetc f; (x, f) = fgetc f in
      if release = h_release (hdr s) then
        (let (a, f) = fgetc f; (b, f) = fgetc f; (c, f) = fgetc f;
             pc = push_bit 16 (word_of_int a) OR push_bit 8 (word_of_int b) OR word_of_int c :: 32 word;
             (nsp, f) = getc_offset f; (nfp, f) = getc_offset f;
             s = s\<lparr>pcp := sint pc, sp := nsp, fp := nfp\<rparr> in
         andthen (get_stack [nsp..STACK_SIZE - 1] f s) (\<lambda>(f, s).
         andthen (get_memory (h_dynamic_size (hdr s)) 0 0 f s) (\<lambda>(addr, f, s).
           Ok (if addr \<noteq> h_dynamic_size (hdr s) then -1 else 2, s))))
      else andthen (complain ''Invalid save file'' s) (\<lambda>s. Ok (0, s)))"

text \<open>
  After a game has been restored: \<open>split_window\<close> and \<open>erase_window\<close> of screen.c are the first two
  arguments.
\<close>

definition restored_game ::
    "(zword \<Rightarrow> zstate \<Rightarrow> zstate res) \<Rightarrow> (zword \<Rightarrow> zstate \<Rightarrow> zstate res) \<Rightarrow> zstate \<Rightarrow> zstate res" where
  "restored_game split_window erase_window s =
     andthen (if version s = V3 then split_window 0 s else Ok s) (\<lambda>s.
     andthen (low_byte H_SCREEN_ROWS s) (\<lambda>old_screen_rows.
     andthen (low_byte H_SCREEN_COLS s) (\<lambda>old_screen_cols.
     andthen (restart_header s) (\<lambda>s.
       if version s > V3 \<and> version s \<noteq> V6 \<and>
          (h_screen_rows (hdr s) \<noteq> old_screen_rows \<or> h_screen_cols (hdr s) \<noteq> old_screen_cols)
       then erase_window 1 s else Ok s))))"

definition restore_game ::
    "(zword \<Rightarrow> zstate \<Rightarrow> zstate res) \<Rightarrow> (zword \<Rightarrow> zstate \<Rightarrow> zstate res) \<Rightarrow> zstate \<Rightarrow> (zword \<times> zstate) res" where
  "restore_game split_window erase_window s =
     (let new_name = os_name (dev s) (clock s); (named, s) = ask s in
      if named = 0 then Ok (0, s)
      else
        (case open_read new_name (upd_dev (\<lambda>d. d\<lparr>save_name := new_name\<rparr>) s) of
           (None, s) \<Rightarrow> Ok (0, s)
         | (Some f, s) \<Rightarrow>
             andthen (if save_quetzal (f_setup s) then restore_quetzal f s else restore_old f s)
               (\<lambda>(success, s).
                 if 0 \<le> sint success then
                   andthen
                     (if 0 < sint success then restored_game split_window erase_window s else Ok s)
                     (\<lambda>s. Ok (success, s))
                 else Stop (Os_fatal ''Error reading save file''))))"

definition z_restore ::
    "(zword \<Rightarrow> zstate \<Rightarrow> zstate res) \<Rightarrow> (zword \<Rightarrow> zstate \<Rightarrow> zstate res) \<Rightarrow> zstate \<Rightarrow> zstate res" where
  "z_restore split_window erase_window s =
     andthen (if zargc s \<noteq> 0 then restore_area s else restore_game split_window erase_window s)
       (\<lambda>(success, s). save_result success s)"

end
