(* ===== verification/Screen.thy ===== *)
theory Screen
  imports Text Memory
begin

text \<open>
  The screen model (screen.c): windows, cursor, colours, fonts, pictures, the status line, and reading
  from the keyboard. The functions that the output streams call are in \<open>ScreenText\<close>. The front end is
  an answer from outside when it returns something (\<open>os_font_data\<close>, \<open>os_picture_data\<close>,
  \<open>os_peek_colour\<close>, \<open>os_char_width\<close>, \<open>os_read_line\<close>, ...) and an entry of the log otherwise.
\<close>

abbreviation (input) "REVERSE_STYLE \<equiv> (1 :: zchar)"
abbreviation (input) "TEXT_FONT \<equiv> (1 :: zword)"
abbreviation (input) "CONFIG_TIME \<equiv> (2 :: zbyte)"
abbreviation (input) "HX_MOUSE_X \<equiv> (1 :: int)"
abbreviation (input) "HX_MOUSE_Y \<equiv> (2 :: int)"
abbreviation (input) "ZC_TIME_OUT \<equiv> (0x00 :: zchar)"
abbreviation (input) "ZC_BAD \<equiv> (0x7f :: zchar)"

subsection \<open>Helpers\<close>

text \<open>C's division, which must not meet a zero.\<close>

definition div_c :: "int \<Rightarrow> int \<Rightarrow> int res" where
  "div_c a b = (if b = 0 then Stop Div_by_zero else Ok (a sdiv b))"

definition winarg0 :: "zstate \<Rightarrow> (zword \<times> zstate) res" where
  "winarg0 s =
     (if version s = V6 \<and> sint (zargs s 0) = -3 then Ok (word_of_int (cwin (scr s)), s)
      else
        andthen (if zargs s 0 \<ge> (if version s = V6 then 8 else 2) then runtime_error ERR_ILL_WIN s else Ok s)
          (\<lambda>s. Ok (zargs s 0, s)))"

definition winarg2 :: "zstate \<Rightarrow> (zword \<times> zstate) res" where
  "winarg2 s =
     (if zargc s < 3 \<or> sint (zargs s 2) = -3 then Ok (word_of_int (cwin (scr s)), s)
      else
        andthen (if zargs s 2 \<ge> 8 then runtime_error ERR_ILL_WIN s else Ok s) (\<lambda>s. Ok (zargs s 2, s)))"

text \<open>
  The window number as an index of \<open>wp\<close>. Only with the option that ignores fatal errors can it lie
  behind the array.
\<close>

definition window_index :: "(zword \<times> zstate) res \<Rightarrow> (int \<times> zstate) res" where
  "window_index m = andthen m (\<lambda>(win, s). if win < 8 then Ok (uint win, s) else Stop (Bad_buffer (uint win)))"

definition the_window :: "int \<Rightarrow> zstate \<Rightarrow> window" where
  "the_window win s = wp (scr s) win"

definition refresh_text_style :: "zstate \<Rightarrow> zstate res" where
  "refresh_text_style = refresh_text_style_h out_call"

definition reset_cursor :: "int \<Rightarrow> zstate \<Rightarrow> zstate res" where
  "reset_cursor win s =
     (let font_size = w_font_size (the_window 0 s) in
      andthen
        (if version s \<le> V4 \<and> win = 0 then
           andthen (div_c (uint (y_size (the_window 0 s))) (uint (hi font_size))) (\<lambda>q. Ok (q - 1))
         else Ok 0) (\<lambda>lines.
      let s = upd_win win (\<lambda>w. w\<lparr>y_cursor := word_of_int (uint (hi font_size) * lines + 1),
                              x_cursor := w_left w + 1\<rparr>) s in
      Ok (if win = cwin (scr s) then update_cursor s else s)))"

text \<open>\<open>os_font_data (font, &font_height, &font_width)\<close>; a font that is not there leaves both alone.\<close>

definition font_data :: "zstate \<Rightarrow> bool \<times> zstate" where
  "font_data s =
     (let (available, s) = ask s in
      if available = 0 then (False, s)
      else
        (let (h, s) = ask s; (w, s) = ask s in
         (True, upd_scr (\<lambda>c. c\<lparr>font_height := h, font_width := w\<rparr>) s)))"

text \<open>\<open>os_picture_data\<close>: what it returns, the height and the width.\<close>

definition picture_data :: "zstate \<Rightarrow> int \<times> int \<times> int \<times> zstate" where
  "picture_data s = (let (a, s) = ask s; (h, s) = ask s; (w, s) = ask s in (a, h, w, s))"

definition window_colour :: "window \<Rightarrow> zstate \<Rightarrow> zstate" where
  "window_colour w = log_event (Os_set_colour (uint (lo (w_colour w))) (uint (hi (w_colour w))))"

subsection \<open>Windows\<close>

definition set_window :: "int \<Rightarrow> zstate \<Rightarrow> zstate res" where
  "set_window win s =
     andthen (flush_buffer s) (\<lambda>s.
     let s = update_attributes (upd_scr (\<lambda>c. c\<lparr>cwin := win, cwp := win\<rparr>) s) in
     andthen
       (if version s = V6 then
          (let s = window_colour (cwindow s) s; (available, s) = font_data s;
               s = (if available then log_event (Os_set_font (uint (w_font (cwindow s)))) s else s) in
           Ok (log_event (Set_text_style (w_style (cwindow s))) s))
        else refresh_text_style s) (\<lambda>s.
     let s = (if version s \<noteq> V6 \<and> win \<noteq> 0 then upd_win win (\<lambda>w. w\<lparr>y_cursor := 1, x_cursor := 1\<rparr>) s else s) in
     Ok (update_cursor s)))"

definition erase_window :: "int \<Rightarrow> zstate \<Rightarrow> zstate res" where
  "erase_window win s =
     (let w = the_window win s; y = uint (y_pos w); x = uint (x_pos w);
          other_colour = version s = V6 \<and> win \<noteq> cwin (scr s) \<and> h_interpreter_number (hdr s) \<noteq> INTERP_AMIGA;
          s = (if other_colour then window_colour w s else s);
          s = log_event (Os_erase_area y x (y + uint (y_size w) - 1) (x + uint (x_size w) - 1)) s;
          s = (if other_colour then window_colour (cwindow s) s else s) in
      andthen (reset_cursor win s) (\<lambda>s. Ok (upd_win win (\<lambda>w. w\<lparr>line_count := 0\<rparr>) s)))"

definition split_window :: "zword \<Rightarrow> zstate \<Rightarrow> zstate res" where
  "split_window height s =
     andthen (flush_buffer s) (\<lambda>s.
     let height = (if version s \<noteq> V6 then height * ucast (hi (w_font_size (the_window 1 s))) else height);
         stat_height = (if version s \<le> V3 then ucast (hi (w_font_size (the_window 7 s))) else 0);
         s = upd_win 1 (\<lambda>w. w\<lparr>y_cursor := y_cursor w + (y_pos w - 1 - stat_height),
                            y_pos := 1 + stat_height, y_size := height\<rparr>) s in
     andthen
       (if sint (y_cursor (the_window 1 s)) > sint (y_size (the_window 1 s)) then reset_cursor 1 s else Ok s) (\<lambda>s.
     let s = upd_win 0 (\<lambda>w. w\<lparr>y_cursor := y_cursor w + (y_pos w - 1 - stat_height - height),
                            y_pos := 1 + stat_height + height,
                            y_size := h_screen_height (hdr s) - stat_height - height\<rparr>) s in
     andthen (if sint (y_cursor (the_window 0 s)) < 1 then reset_cursor 0 s else Ok s) (\<lambda>s.
       if version s = V3 \<and> height \<noteq> 0 then erase_window 1 s else Ok s)))"

definition clear_line_counts :: "zstate \<Rightarrow> zstate" where
  "clear_line_counts =
     upd_scr (\<lambda>c. c\<lparr>wp := (\<lambda>i. if 0 \<le> i \<and> i < 8 then (wp c i)\<lparr>line_count := 0\<rparr> else wp c i)\<rparr>)"

definition erase_screen :: "zword \<Rightarrow> zstate \<Rightarrow> zstate res" where
  "erase_screen win s =
     (let s = log_event (Os_erase_area 1 1 (uint (h_screen_height (hdr s))) (uint (h_screen_width (hdr s)))) s in
      andthen
        (if sint win = -1 then
           andthen (split_window 0 s) (\<lambda>s. andthen (set_window 0 s) (reset_cursor 0))
         else Ok s)
        (\<lambda>s. Ok (clear_line_counts s)))"

definition resize_screen :: "zstate \<Rightarrow> zstate" where
  "resize_screen s =
     (if version s \<noteq> V6 then
        (let width = h_screen_width (hdr s);
             s = upd_win 0 (\<lambda>w. w\<lparr>x_size := width\<rparr>) s;
             s = upd_win 1 (\<lambda>w. w\<lparr>x_size := width\<rparr>) s;
             s = upd_win 7 (\<lambda>w. w\<lparr>x_size := width\<rparr>) s in
         upd_win 0 (\<lambda>w. w\<lparr>y_size := h_screen_height (hdr s) - y_size (the_window 1 s) - y_size (the_window 7 s)\<rparr>) s)
      else s)"

text \<open>The properties that \<open>restart_screen\<close> gives to every window.\<close>

definition fresh_window :: "zstate \<Rightarrow> window \<Rightarrow> window" where
  "fresh_window s w =
     w\<lparr>y_pos := 1, x_pos := 1, y_size := 0, x_size := 0, y_cursor := 1, x_cursor := 1, w_left := 0, w_right := 0,
       nl_routine := 0, nl_countdown := 0, w_style := 0,
       w_colour := push_bit 8 (ucast (h_default_background (hdr s))) OR ucast (h_default_foreground (hdr s)),
       w_font := TEXT_FONT,
       w_font_size := word_of_int (256 * font_height (scr s) OR font_width (scr s)), w_attribute := 8\<rparr>"

text \<open>After the loop over the windows the pointer \<open>cwp\<close> is behind the array.\<close>

definition restart_screen :: "zstate \<Rightarrow> zstate res" where
  "restart_screen s =
     (let s = log_event (Os_set_colour (uint (h_default_foreground (hdr s))) (uint (h_default_background (hdr s)))) s;
          (available, s) = font_data s;
          s = (if available then log_event (Os_set_font (uint TEXT_FONT)) s else s);
          s = log_event (Set_text_style 0) s;
          s = upd_scr (\<lambda>c. c\<lparr>cursor_on := True, mwin := 1,
                wp := (\<lambda>i. if 0 \<le> i \<and> i < 8 then fresh_window s (wp c i) else wp c i), cwp := 8\<rparr>) s;
          s = upd_win 0 (\<lambda>w. w\<lparr>w_attribute := 15, w_left := word_of_int (left_margin (f_setup s)),
                w_right := word_of_int (right_margin (f_setup s)), x_size := h_screen_width (hdr s)\<rparr>) s;
          s = upd_win 1 (\<lambda>w. w\<lparr>x_size := h_screen_width (hdr s)\<rparr>) s;
          s = (if version s \<le> V3 then upd_win 7 (\<lambda>w. w\<lparr>x_size := h_screen_width (hdr s)\<rparr>) s else s) in
      erase_screen (- 1) (log_event (Restart_game 1) s))"

end
