(* ===== verification/ScreenOps.thy ===== *)
theory ScreenOps
  imports Screen
begin

text \<open>
  The opcodes of screen.c, the mouse, and the keyboard functions that the input streams call.
\<close>

subsection \<open>The mouse\<close>

text \<open>A coordinate of a click relative to the mouse window (or the screen); \<open>None\<close> when it lies outside.\<close>

definition mouse_in :: "int \<Rightarrow> zword \<Rightarrow> zword \<Rightarrow> zword option" where
  "mouse_in m pos extent =
     (if m < uint pos \<or> m \<ge> uint pos + uint extent then None else Some (word_of_int (m - uint pos + 1)))"

definition mouse_on_screen :: "int \<Rightarrow> zword \<Rightarrow> zword option" where
  "mouse_on_screen m extent = (if m < 1 \<or> m > uint extent then None else Some (word_of_int m))"

definition to_grid :: "zword \<Rightarrow> zbyte \<Rightarrow> zword res" where
  "to_grid x unit = andthen (div_c (uint x - 1) (uint unit)) (\<lambda>q. Ok (word_of_int (q + 1)))"

definition validate_click :: "zstate \<Rightarrow> (bool \<times> zstate) res" where
  "validate_click s =
     (let d = dev s; m = mwin (scr s);
          y = (if m \<ge> 0 then mouse_in (mouse_y d) (y_pos (the_window m s)) (y_size (the_window m s))
               else mouse_on_screen (mouse_y d) (h_screen_height (hdr s)));
          x = (if m \<ge> 0 then mouse_in (mouse_x d) (x_pos (the_window m s)) (x_size (the_window m s))
               else mouse_on_screen (mouse_x d) (h_screen_width (hdr s))) in
      if m > 7 then Stop (Bad_buffer m)
      else
        (case (y, x) of
           (Some y, Some x) \<Rightarrow>
             andthen (if version s \<noteq> V6 then to_grid y (h_font_height (hdr s)) else Ok y) (\<lambda>y.
             andthen (if version s \<noteq> V6 then to_grid x (h_font_width (hdr s)) else Ok x) (\<lambda>x.
             let s = upd_dev (\<lambda>d. d\<lparr>hx_mouse_y := y, hx_mouse_x := x\<rparr>) s in
             andthen (set_header_extension HX_MOUSE_Y y s) (\<lambda>s.
             andthen (set_header_extension HX_MOUSE_X x s) (\<lambda>s. Ok (True, s)))))
         | _ \<Rightarrow> Ok (False, s)))"

definition z_mouse_window :: "zstate \<Rightarrow> zstate res" where
  "z_mouse_window s =
     (if sint (zargs s 0) = -1 then Ok (upd_scr (\<lambda>c. c\<lparr>mwin := -1\<rparr>) s)
      else andthen (winarg0 s) (\<lambda>(win, s). Ok (upd_scr (\<lambda>c. c\<lparr>mwin := uint win\<rparr>) s)))"

subsection \<open>Reading from the keyboard\<close>

text \<open>
  \<open>console_read_input\<close>; \<open>buf\<close> is the text of the buffer up to its final 0, and the result has the
  text that \<open>os_read_line\<close> leaves there.
\<close>

definition console_read_input ::
    "int \<Rightarrow> zchar list \<Rightarrow> zword \<Rightarrow> bool \<Rightarrow> zstate \<Rightarrow> zchar \<times> zchar list \<times> zstate" where
  "console_read_input maxlen buf timeout continued s =
     (let (n, t) = ask s;
          s = (if cwin (scr s) = 0
               then (if units_left s + n < 10 * font_width (scr s) then screen_new_line t else t) else s);
          s = (if continued \<and> input_redraw (scr s) then screen_write_input buf (- 1) s else s);
          s = upd_scr (\<lambda>c. c\<lparr>input_window := cwin c, input_redraw := False\<rparr>) s;
          (n, s) = ask s; s = advance (- n) s;
          s = log_event (Os_read_line maxlen timeout (units_left s) continued) s;
          buf = os_text (dev s) (clock s); (key, s) = ask s; key = (word_of_int key :: zchar);
          (n, s) = ask s; s = advance n s;
          s = (if key \<noteq> ZC_TIME_OUT then clear_line_counts s else s);
          s = (if key = ZC_RETURN then screen_new_line s else s) in
      (key, buf, s))"

definition console_read_key :: "zword \<Rightarrow> zstate \<Rightarrow> zchar \<times> zstate" where
  "console_read_key timeout s =
     (let s = log_event (Os_read_key timeout (cursor_on (scr s))) s; (key, s) = ask s; key = word_of_int key in
      (key, if key \<noteq> ZC_TIME_OUT then clear_line_counts s else s))"

subsection \<open>Text, cursor and windows\<close>

definition z_buffer_mode :: "zstate \<Rightarrow> zstate res" where
  "z_buffer_mode s =
     (if version s \<noteq> V6 then
        andthen (flush_buffer s) (\<lambda>s.
        let on = zargs s 0 \<noteq> 0;
            s = upd_win 0 (\<lambda>w. w\<lparr>w_attribute := (let a = w_attribute w AND NOT 8 in if on then a OR 8 else a)\<rparr>) s in
        Ok (update_attributes s))
      else Ok s)"

definition z_erase_line :: "zstate \<Rightarrow> zstate res" where
  "z_erase_line s =
     (let pixels = zargs s 0 - 1 in
      andthen (flush_buffer s) (\<lambda>s.
      let pixels = (if pixels = 0 \<or> uint pixels > units_left s then word_of_int (units_left s) else pixels);
          w = cwindow s; y = y_pos w + y_cursor w - 1; x = x_pos w + x_cursor w - 1 in
      Ok (log_event
        (Os_erase_area (uint y) (uint x) (uint y + font_height (scr s) - 1) (uint x + uint pixels - 1)) s)))"

definition z_erase_window :: "zstate \<Rightarrow> zstate res" where
  "z_erase_window s =
     andthen (flush_buffer s) (\<lambda>s.
       if sint (zargs s 0) = -1 \<or> sint (zargs s 0) = -2 then erase_screen (zargs s 0) s
       else andthen (window_index (winarg0 s)) (\<lambda>(win, s). erase_window win s))"

definition z_get_cursor :: "zstate \<Rightarrow> zstate res" where
  "z_get_cursor s =
     andthen (flush_buffer s) (\<lambda>s.
     let y = y_cursor (cwindow s); x = x_cursor (cwindow s) in
     andthen (if version s \<noteq> V6 then to_grid y (h_font_height (hdr s)) else Ok y) (\<lambda>y.
     andthen (if version s \<noteq> V6 then to_grid x (h_font_width (hdr s)) else Ok x) (\<lambda>x.
     andthen (storew (zargs s 0 + 0) y s) (\<lambda>s. storew (zargs s 0 + 2) x s))))"

text \<open>The sixteen words of a window by number.\<close>

definition window_words :: "window \<Rightarrow> zword list" where
  "window_words w =
     [y_pos w, x_pos w, y_size w, x_size w, y_cursor w, x_cursor w, w_left w, w_right w, nl_routine w,
      nl_countdown w, w_style w, w_colour w, w_font w, w_font_size w, w_attribute w, line_count w]"

definition window_of_words :: "zword list \<Rightarrow> window" where
  "window_of_words ws =
     \<lparr>y_pos = ws ! 0, x_pos = ws ! 1, y_size = ws ! 2, x_size = ws ! 3, y_cursor = ws ! 4, x_cursor = ws ! 5,
      w_left = ws ! 6, w_right = ws ! 7, nl_routine = ws ! 8, nl_countdown = ws ! 9, w_style = ws ! 10,
      w_colour = ws ! 11, w_font = ws ! 12, w_font_size = ws ! 13, w_attribute = ws ! 14, line_count = ws ! 15\<rparr>"

text \<open>
  The place of a property in the array of all the windows, read as one array of words: a number of 16
  or more (when errors are ignored) is a property of a later window.
\<close>

definition prop_place :: "int \<Rightarrow> zword \<Rightarrow> (int \<times> nat) res" where
  "prop_place win prop =
     (let i = 16 * win + uint prop in if i < 128 then Ok (i div 16, nat (i mod 16)) else Stop (Bad_buffer i))"

definition z_get_wind_prop :: "zstate \<Rightarrow> zstate res" where
  "z_get_wind_prop s =
     andthen (flush_buffer s) (\<lambda>s.
     andthen (if zargs s 1 \<ge> 16 then runtime_error ERR_ILL_WIN_PROP s else Ok s) (\<lambda>s.
     andthen (window_index (winarg0 s)) (\<lambda>(win, s).
     andthen (prop_place win (zargs s 1)) (\<lambda>(w, i). store (window_words (the_window w s) ! i) s))))"

definition z_put_wind_prop :: "zstate \<Rightarrow> zstate res" where
  "z_put_wind_prop s =
     andthen (flush_buffer s) (\<lambda>s.
     andthen (if zargs s 1 \<ge> 16 then runtime_error ERR_ILL_WIN_PROP s else Ok s) (\<lambda>s.
     andthen (window_index (winarg0 s)) (\<lambda>(win, s).
     andthen (prop_place win (zargs s 1)) (\<lambda>(w, i).
       Ok (upd_win w (\<lambda>v. window_of_words ((window_words v)[i := zargs s 2])) s)))))"

definition z_move_window :: "zstate \<Rightarrow> zstate res" where
  "z_move_window s =
     andthen (window_index (winarg0 s)) (\<lambda>(win, s).
     andthen (flush_buffer s) (\<lambda>s.
     let s = upd_win win (\<lambda>w. w\<lparr>y_pos := zargs s 1, x_pos := zargs s 2\<rparr>) s in
     Ok (if win = cwin (scr s) then update_cursor s else s)))"

definition z_scroll_window :: "zstate \<Rightarrow> zstate res" where
  "z_scroll_window s =
     andthen (window_index (winarg0 s)) (\<lambda>(win, s).
     andthen (flush_buffer s) (\<lambda>s.
     let w = the_window win s; y = uint (y_pos w); x = uint (x_pos w);
         other_colour = win \<noteq> cwin (scr s) \<and> h_interpreter_number (hdr s) \<noteq> INTERP_AMIGA;
         s = (if other_colour then window_colour w s else s);
         s = log_event
           (Os_scroll_area y x (y + uint (y_size w) - 1) (x + uint (x_size w) - 1) (sint (zargs s 1))) s in
     Ok (if other_colour then window_colour (cwindow s) s else s)))"

text \<open>Colours of the other windows when window 0 changes on an Amiga: only those below 16.\<close>

definition recolour :: "zword \<Rightarrow> zword \<Rightarrow> window \<Rightarrow> window \<Rightarrow> window" where
  "recolour fg bg w0 w =
     (let bg2 = ucast (hi (w_colour w)) :: zword; fg2 = ucast (lo (w_colour w)) :: zword;
          bg2 = (if bg2 < 16 then (if bg2 = ucast (lo (w_colour w0)) then fg else bg) else bg2);
          fg2 = (if fg2 < 16 then (if fg2 = ucast (lo (w_colour w0)) then fg else bg) else fg2) in
      w\<lparr>w_colour := push_bit 8 bg2 OR fg2\<rparr>)"

definition peek_colour :: "zword \<Rightarrow> zstate \<Rightarrow> zword \<times> zstate" where
  "peek_colour c s = (if sint c = -1 then (let (a, s) = ask s in (word_of_int a, s)) else (c, s))"

definition z_set_colour :: "zstate \<Rightarrow> zstate res" where
  "z_set_colour s =
     andthen (if version s = V6 then window_index (winarg2 s) else Ok (0, s)) (\<lambda>(win, s).
     let fg = zargs s 0; bg = zargs s 1 in
     andthen (flush_buffer s) (\<lambda>s.
     let (fg, s) = peek_colour fg s; (bg, s) = peek_colour bg s;
         fg = (if fg = 0 then ucast (lo (w_colour (the_window win s))) else fg);
         bg = (if bg = 0 then ucast (hi (w_colour (the_window win s))) else bg);
         fg = (if fg = 1 then ucast (h_default_foreground (hdr s)) else fg);
         bg = (if bg = 1 then ucast (h_default_background (hdr s)) else bg);
         s = (if version s = V6 \<and> h_interpreter_number (hdr s) = INTERP_AMIGA \<and> win = 0 then
                upd_scr (\<lambda>c. c\<lparr>wp := (\<lambda>i. if 1 \<le> i \<and> i < 8 then recolour fg bg (wp c 0) (wp c i) else wp c i)\<rparr>) s
              else s);
         s = upd_win win (\<lambda>w. w\<lparr>w_colour := push_bit 8 bg OR fg\<rparr>) s in
     Ok (if win = cwin (scr s) \<or> version s \<noteq> V6
         then log_event (Os_set_colour (uint fg) (uint bg)) s else s)))"

definition z_set_font :: "zstate \<Rightarrow> zstate res" where
  "z_set_font s =
     (let win = (if version s = V6 then cwin (scr s) else 0); font = zargs s 0 in
      if font \<noteq> 0 then
        (let (available, s) = font_data s in
         if available then
           andthen (store (w_font (the_window win s)) s) (\<lambda>s.
           let s = upd_win win (\<lambda>w. w\<lparr>w_font := font,
                 w_font_size := word_of_int (256 * font_height (scr s) OR font_width (scr s))\<rparr>) s in
           if \<not> ostream_memory (out s) \<and> ostream_screen (out s) \<and> enable_buffering (out s) then
             andthen (print_char ZC_NEW_FONT s) (print_char (ucast font))
           else Ok (log_event (Os_set_font (uint font)) s))
         else store 0 s)
      else store (w_font (the_window win s)) s)"

definition z_set_cursor :: "zstate \<Rightarrow> zstate res" where
  "z_set_cursor s =
     andthen (if version s = V6 then window_index (winarg2 s) else Ok (1, s)) (\<lambda>(win, s).
     let y = zargs s 0; x = zargs s 1 in
     andthen (flush_buffer s) (\<lambda>s.
     let s = (if zargc s < 3 then s\<lparr>zargs := (zargs s)(2 := - 3)\<rparr> else s) in
     if sint y < 0 then
       Ok (if sint y = -2 then upd_scr (\<lambda>c. c\<lparr>cursor_on := True\<rparr>) s
           else if sint y = -1 then upd_scr (\<lambda>c. c\<lparr>cursor_on := False\<rparr>) s else s)
     else if version s \<noteq> V6 \<and> cwin (scr s) = 0 then Ok s
     else
       (let y = (if version s \<noteq> V6 then (y - 1) * ucast (h_font_height (hdr s)) + 1 else y);
            x = (if version s \<noteq> V6 then (x - 1) * ucast (h_font_width (hdr s)) + 1 else x);
            w = the_window win s;
            y = (if y = 0 then y_cursor w else y);
            x = (if x = 0 then x_cursor w else x);
            x = (if x \<le> w_left w \<or> uint x > uint (x_size w) - uint (w_right w) then w_left w + 1 else x);
            s = upd_win win (\<lambda>w. w\<lparr>y_cursor := y, x_cursor := x\<rparr>) s in
        Ok (if win = cwin (scr s) then update_cursor s else s))))"

definition z_set_margins :: "zstate \<Rightarrow> zstate res" where
  "z_set_margins s =
     andthen (window_index (winarg2 s)) (\<lambda>(win, s).
     andthen (flush_buffer s) (\<lambda>s.
     let l = zargs s 0; r = zargs s 1;
         s = upd_win win (\<lambda>w. w\<lparr>w_left := l, w_right := r\<rparr>) s; w = the_window win s in
     if x_cursor w \<le> l \<or> uint (x_cursor w) > uint (x_size w) - uint r then
       (let s = upd_win win (\<lambda>w. w\<lparr>x_cursor := l + 1\<rparr>) s in
        Ok (if win = cwin (scr s) then update_cursor s else s))
     else Ok s))"

definition z_set_text_style :: "zstate \<Rightarrow> zstate res" where
  "z_set_text_style s =
     (let win = (if version s = V6 then cwin (scr s) else 0); style = zargs s 0 in
      refresh_text_style
        (upd_win win (\<lambda>w. w\<lparr>w_style := (if style = 0 then 0 else w_style w OR style)\<rparr>) s))"

definition z_set_window :: "zstate \<Rightarrow> zstate res" where
  "z_set_window s = andthen (window_index (winarg0 s)) (\<lambda>(win, s). set_window win s)"

definition z_split_window :: "zstate \<Rightarrow> zstate res" where
  "z_split_window s = split_window (zargs s 0) s"

definition z_window_size :: "zstate \<Rightarrow> zstate res" where
  "z_window_size s =
     andthen (window_index (winarg0 s)) (\<lambda>(win, s).
     andthen (flush_buffer s) (\<lambda>s.
     let s = upd_win win (\<lambda>w. w\<lparr>y_size := zargs s 1, x_size := zargs s 2\<rparr>) s; w = the_window win s in
     if y_cursor w > zargs s 1 \<or> x_cursor w > zargs s 2 then reset_cursor win s else Ok s))"

definition z_window_style :: "zstate \<Rightarrow> zstate res" where
  "z_window_style s =
     andthen (window_index (winarg0 s)) (\<lambda>(win, s).
     let flags = zargs s 1 in
     andthen (flush_buffer s) (\<lambda>s.
     let s = (if zargc s < 3 then s\<lparr>zargs := (zargs s)(2 := 0)\<rparr> else s);
         operation = zargs s 2;
         s = upd_win win (\<lambda>w. w\<lparr>w_attribute :=
               (if operation = 0 then flags
                else if operation = 1 then w_attribute w OR flags
                else if operation = 2 then w_attribute w AND NOT flags
                else if operation = 3 then w_attribute w XOR flags else w_attribute w)\<rparr>) s in
     Ok (if cwin (scr s) = win then update_attributes s else s)))"

subsection \<open>Pictures\<close>

definition mapper :: "(story \<times> zword \<times> zword \<times> zword) list" where
  "mapper =
    [(ZORK_ZERO, 5, 497, 498), (ZORK_ZERO, 6, 501, 502), (ZORK_ZERO, 7, 499, 500), (ZORK_ZERO, 8, 503, 504),
     (ARTHUR, 54, 170, 171), (SHOGUN, 50, 61, 62)]"

text \<open>A coordinate operand: 0 stands for the cursor; the window's place is added.\<close>

definition picture_place :: "zword \<Rightarrow> zword \<Rightarrow> zword \<Rightarrow> zword" where
  "picture_place arg cursor pos = (if arg = 0 then cursor else arg) + (pos - 1)"

text \<open>The loop of \<open>z_draw_picture\<close>: the parts of a picture that the graphics files split.\<close>

fun draw_parts :: "(story \<times> zword \<times> zword \<times> zword) list \<Rightarrow> zword \<Rightarrow> int \<Rightarrow> int \<Rightarrow> zstate \<Rightarrow> zstate" where
  "draw_parts [] pic y x s = s"
| "draw_parts ((st, p, p1, p2) # ms) pic y x s =
     draw_parts ms pic y x
       (if story_id s = st \<and> pic = p then
          (let (a1, height1, width1, s) = picture_data s; (a2, height2, width2, s) = picture_data s;
               delta = (if story_id s = ARTHUR \<and> pic = 54 then uint (h_screen_width (hdr s)) sdiv 160 else 0);
               s = log_event (Os_draw_picture (uint p1) (y + height1) (x + delta)) s in
           log_event (Os_draw_picture (uint p2) (y + height1) (x + width1 - width2 - delta)) s)
        else s)"

definition z_draw_picture :: "zstate \<Rightarrow> zstate res" where
  "z_draw_picture s =
     (let pic = zargs s 0 in
      andthen (flush_buffer s) (\<lambda>s.
      let w = cwindow s;
          y = uint (picture_place (zargs s 1) (y_cursor w) (y_pos w));
          x = uint (picture_place (zargs s 2) (x_cursor w) (x_pos w));
          s = log_event (Os_draw_picture (uint pic) y x) (draw_parts mapper pic y x s) in
      Ok (if story_id s = SHOGUN \<and> pic = 3 then
            (let (a, height, width, s) = picture_data s in
             log_event (Os_draw_picture 59 y (uint (h_screen_width (hdr s)) - width + 1)) s)
          else s)))"

definition z_erase_picture :: "zstate \<Rightarrow> zstate res" where
  "z_erase_picture s =
     andthen (flush_buffer s) (\<lambda>s.
     let w = cwindow s; (a, height, width, s) = picture_data s;
         y = uint (picture_place (zargs s 1) (y_cursor w) (y_pos w));
         x = uint (picture_place (zargs s 2) (x_cursor w) (x_pos w)) in
     Ok (log_event (Os_erase_area y x (y + height - 1) (x + width - 1)) s))"

text \<open>The loop of \<open>z_picture_data\<close>, over \<open>avail\<close> and the height.\<close>

fun picture_parts ::
    "(story \<times> zword \<times> zword \<times> zword) list \<Rightarrow> zword \<Rightarrow> int \<Rightarrow> int \<Rightarrow> zstate \<Rightarrow> int \<times> int \<times> zstate" where
  "picture_parts [] pic avail height s = (avail, height, s)"
| "picture_parts ((st, p, p1, p2) # ms) pic avail height s =
     (if story_id s = st \<and> pic = p then
        (let (a1, height2, width2, s) = picture_data s; (a2, height2, width2, s) = picture_data s in
         picture_parts ms pic (avail AND a1 AND a2) (height + height2) s)
      else if story_id s = st \<and> (pic = p1 \<or> pic = p2) then picture_parts ms pic 0 height s
      else picture_parts ms pic avail height s)"

definition z_picture_data :: "zstate \<Rightarrow> zstate res" where
  "z_picture_data s =
     (let pic = zargs s 0; tab = zargs s 1; (avail, height, width, s) = picture_data s;
          (avail, height, s) = picture_parts mapper pic avail height s in
      andthen (storew (tab + 0) (word_of_int height) s) (\<lambda>s.
      andthen (storew (tab + 2) (word_of_int width) s) (\<lambda>s. branch (avail \<noteq> 0) s)))"

definition z_picture_table :: "zstate \<Rightarrow> zstate res" where
  "z_picture_table s = Ok s"

subsection \<open>A rectangle of text\<close>

text \<open>One line of the rectangle, then the lines after the first.\<close>

fun table_line :: "nat \<Rightarrow> zword \<Rightarrow> zstate \<Rightarrow> (zword \<times> zstate) res" where
  "table_line 0 addr s = Ok (addr, s)"
| "table_line (Suc n) addr s =
     andthen (low_byte (uint addr) s) (\<lambda>c.
     andthen (print_char c s) (\<lambda>s. table_line n (addr + 1) s))"

fun table_lines :: "nat \<Rightarrow> bool \<Rightarrow> zword \<Rightarrow> zword \<Rightarrow> zstate \<Rightarrow> zstate res" where
  "table_lines 0 first x addr s = Ok s"
| "table_lines (Suc n) first x addr s =
     andthen
       (if first then Ok s
        else
          andthen (flush_buffer s) (\<lambda>s.
            Ok (update_cursor (upd_cwin (\<lambda>w. w\<lparr>y_cursor := y_cursor w + word_of_int (font_height (scr s)),
                  x_cursor := x\<rparr>) s)))) (\<lambda>s.
     andthen (table_line (unat (zargs s 1)) addr s) (\<lambda>(addr, s).
       table_lines n False x (addr + zargs s 3) s))"

definition z_print_table :: "zstate \<Rightarrow> zstate res" where
  "z_print_table s =
     (let addr = zargs s 0 in
      andthen (flush_buffer s) (\<lambda>s.
      let s = (if zargc s < 3 then s\<lparr>zargs := (zargs s)(2 := 1)\<rparr> else s);
          s = (if zargc s < 4 then s\<lparr>zargs := (zargs s)(3 := 0)\<rparr> else s) in
      table_lines (unat (zargs s 2)) True (x_cursor (cwindow s)) addr s))"

subsection \<open>The status line\<close>

definition pad_status_line :: "int \<Rightarrow> zstate \<Rightarrow> zstate res" where
  "pad_status_line column s =
     andthen (flush_buffer s) (\<lambda>s.
     let left = units_left s; (n, s) = ask s in
     andthen (div_c left n) (\<lambda>q. Ok ((screen_char CH_SPACE ^^ nat (q - column)) s)))"

text \<open>\<open>print_char (' '); print_num (n)\<close> with a leading character for a one-digit number.\<close>

definition print_num2 :: "zchar \<Rightarrow> zword \<Rightarrow> zstate \<Rightarrow> zstate res" where
  "print_num2 c n s = andthen (if n < 10 then print_char c s else Ok s) (print_num n)"

definition print_time :: "zword \<Rightarrow> zword \<Rightarrow> bool \<Rightarrow> zstate \<Rightarrow> zstate res" where
  "print_time global1 global2 brief s =
     (let hours = word_of_int ((uint global1 + 11) mod 12 + 1) in
      andthen (pad_status_line (if brief then 15 else 20) s) (\<lambda>s.
      andthen (print_string (zs ''Time: '') s) (\<lambda>s.
      andthen (print_num2 CH_SPACE hours s) (\<lambda>s.
      andthen (print_char 0x3a s) (\<lambda>s.
      andthen (print_num2 0x30 global2 s) (\<lambda>s.
      andthen (print_char CH_SPACE s) (\<lambda>s.
      andthen (print_char (if global1 \<ge> 12 then 0x70 else 0x61) s) (print_char 0x6d))))))))"

definition print_score :: "zword \<Rightarrow> zword \<Rightarrow> bool \<Rightarrow> zstate \<Rightarrow> zstate res" where
  "print_score global1 global2 brief s =
     andthen (pad_status_line (if brief then 15 else 30) s) (\<lambda>s.
     andthen (print_string (zs (if brief then ''S: '' else ''Score: '')) s) (\<lambda>s.
     andthen (print_num global1 s) (\<lambda>s.
     andthen (pad_status_line (if brief then 8 else 14) s) (\<lambda>s.
     andthen (print_string (zs (if brief then ''M: '' else ''Moves: '')) s) (print_num global2)))))"

definition z_show_status :: "zstate \<Rightarrow> zstate res" where
  "z_show_status s =
     (if version s \<ge> V4 then Ok s
      else
        (let addr = h_globals (hdr s) in
         andthen (low_word (uint addr) s) (\<lambda>global0.
         andthen (low_word (uint (addr + 2)) s) (\<lambda>global1.
         andthen (low_word (uint (addr + 4)) s) (\<lambda>global2.
         andthen (set_window 7 s) (\<lambda>s.
         andthen (print_char ZC_NEW_STYLE s) (\<lambda>s.
         andthen (print_char (REVERSE_STYLE OR ucast FIXED_WIDTH_STYLE) s) (\<lambda>s.
         let brief = h_screen_cols (hdr s) < 55 in
         andthen (print_char CH_SPACE s) (\<lambda>s.
         andthen (print_object global0 s) (\<lambda>s.
         andthen
           (if h_config (hdr s) AND CONFIG_TIME \<noteq> 0 then print_time global1 global2 brief s
            else print_score global1 global2 brief s) (\<lambda>s.
         andthen (pad_status_line 0 s) (set_window 0))))))))))))"

end
