(* ===== verification/Commands.thy ===== *)
theory Commands
  imports ScreenOps Files
begin

text \<open>
  The command file (files.c): recording the player's input and playing it back, and the input lines in
  the transcript. Recording appends to the file \<open>rec_name\<close> on the disk; every \<open>fputc\<close> asks the outside
  and can fail. The file played back is \<open>pfp\<close>. A number in it that does not fit into an \<open>int\<close>, which C
  leaves undefined, is read as it stands.
\<close>

abbreviation (input) "ZC_HKEY_MIN \<equiv> (0x0e :: zchar)"
abbreviation (input) "ZC_HKEY_MAX \<equiv> (0x15 :: zchar)"
abbreviation (input) "ZC_ARROW_MIN \<equiv> (0x81 :: zchar)"

definition is_click :: "zchar \<Rightarrow> bool" where
  "is_click c \<longleftrightarrow> c = ZC_SINGLE_CLICK \<or> c = ZC_DOUBLE_CLICK"

definition is_hot_key :: "zchar \<Rightarrow> bool" where
  "is_hot_key c \<longleftrightarrow> ZC_HKEY_MIN \<le> c \<and> c \<le> ZC_HKEY_MAX"

subsection \<open>Input lines in the transcript\<close>

definition script_write_input :: "zchar list \<Rightarrow> zchar \<Rightarrow> zstate \<Rightarrow> zstate res" where
  "script_write_input buf key s =
     andthen
       (if script_cols (f_setup s) \<noteq> 0 \<and> script_width (out s) + int (length buf) > script_cols (f_setup s)
        then script_new_line s else Ok s) (\<lambda>s.
     let s = fold script_char buf s in
     if key = ZC_RETURN then script_new_line s else Ok s)"

definition script_erase_input :: "zchar list \<Rightarrow> zstate \<Rightarrow> zstate" where
  "script_erase_input buf s =
     (let n = int (length buf) in
      upd_out (\<lambda>t. t\<lparr>script_width := script_width t - n\<rparr>) (log_event (Script_seek (- n)) s))"

subsection \<open>Recording\<close>

definition rec_putc :: "zbyte \<Rightarrow> zstate \<Rightarrow> bool \<times> zstate" where
  "rec_putc b s =
     (let (ans, s) = ask s in
      if ans = -1 then (False, s)
      else
        (True, upd_dev (\<lambda>d. d\<lparr>disk := (disk d)(rec_name d :=
           Some (case disk d (rec_name d) of None \<Rightarrow> [b] | Some bs \<Rightarrow> bs @ [b]))\<rparr>) s))"

text \<open>\<open>fputc\<close> calls whose results are not looked at.\<close>

definition rec_bytes :: "zbyte list \<Rightarrow> zstate \<Rightarrow> zstate" where
  "rec_bytes bs s = fold (\<lambda>b s. snd (rec_putc b s)) bs s"

text \<open>What \<open>record_code\<close> writes: the character, or its number in brackets.\<close>

definition code_digits :: "int \<Rightarrow> zbyte list" where
  "code_digits c =
     map (\<lambda>i. word_of_int (0x30 + (c sdiv i) smod 10)) (filter (\<lambda>i. c \<ge> i \<or> i = 1) [10000, 1000, 100, 10, 1])"

definition code_text :: "int \<Rightarrow> bool \<Rightarrow> zbyte list" where
  "code_text c force_encoding =
     (if force_encoding \<or> c = 0x5b \<or> c < 0x20 \<or> c > 0x7e then 0x5b # code_digits c @ [0x5d]
      else [word_of_int c])"

definition record_code :: "int \<Rightarrow> bool \<Rightarrow> zstate \<Rightarrow> zstate" where
  "record_code c force_encoding = rec_bytes (code_text c force_encoding)"

definition record_char :: "zchar \<Rightarrow> zstate \<Rightarrow> zstate res" where
  "record_char c s =
     (if c \<noteq> ZC_RETURN then
        (if \<not> is_hot_key c then
           andthen (translate_to_zscii c s) (\<lambda>z.
           let s = record_code (uint z) False s in
           Ok (if is_click c then record_code (mouse_y (dev s)) True (record_code (mouse_x (dev s)) True s) else s))
         else Ok (record_code (1000 + uint c - uint ZC_HKEY_MIN) True s))
      else Ok s)"

text \<open>The end of both functions: a newline, and the file is closed when it cannot be written.\<close>

definition record_end :: "zstate \<Rightarrow> zstate" where
  "record_end s = (let (ok, s) = rec_putc CH_NEWLINE s in if ok then s else record_close s)"

definition record_write_key :: "zchar \<Rightarrow> zstate \<Rightarrow> zstate res" where
  "record_write_key key s = andthen (record_char key s) (\<lambda>s. Ok (record_end s))"

fun record_chars :: "zchar list \<Rightarrow> zstate \<Rightarrow> zstate res" where
  "record_chars [] s = Ok s"
| "record_chars (c # cs) s = andthen (record_char c s) (record_chars cs)"

definition record_write_input :: "zchar list \<Rightarrow> zchar \<Rightarrow> zstate \<Rightarrow> zstate res" where
  "record_write_input buf key s =
     andthen (record_chars buf s) (\<lambda>s. andthen (record_char key s) (\<lambda>s. Ok (record_end s)))"

subsection \<open>Playing back\<close>

definition replay_close :: "zstate \<Rightarrow> zstate" where
  "replay_close s = upd_out (\<lambda>t. t\<lparr>istream_replay := False\<rparr>) (set_more_prompts True s)"

text \<open>The loop over the digits, with the character that ends them.\<close>

function replay_digits :: "int \<Rightarrow> cfile \<Rightarrow> int \<times> int \<times> cfile" where
  "replay_digits c f =
     (let (c2, f) = fgetc f in
      if c2 \<noteq> -1 \<and> 0x30 \<le> c2 \<and> c2 \<le> 0x39 then replay_digits (10 * c + c2 - 0x30) f else (c, c2, f))"
  by pat_completeness auto
termination
proof (relation "measure (\<lambda>(c, f). bytes_left f)", goal_cases)
  case (2 c f p c2 f2)
  then show ?case
    using fgetc_left [of f c2 f2] by auto
qed simp

declare replay_digits.simps [simp del]

definition replay_code :: "cfile \<Rightarrow> int \<times> cfile" where
  "replay_code f =
     (let (c, f) = fgetc f in
      if c = 0x5b then (let (c, c2, f) = replay_digits 0 f in (if c2 = 0x5d then c else -1, f)) else (c, f))"

text \<open>\<open>ungetc ('\n', pfp)\<close> after a character has been read.\<close>

definition unget_newline :: "cfile \<Rightarrow> cfile" where
  "unget_newline f = \<lparr>f_bytes = (f_bytes f)[f_pos f - 1 := CH_NEWLINE], f_pos = f_pos f - 1\<rparr>"

definition set_pfp :: "cfile \<Rightarrow> zstate \<Rightarrow> zstate" where
  "set_pfp f = upd_dev (\<lambda>d. d\<lparr>pfp := f\<rparr>)"

definition replay_char :: "zstate \<Rightarrow> (zchar \<times> zstate) res" where
  "replay_char s =
     (let (c, f) = replay_code (pfp (dev s)) in
      if c \<noteq> -1 then
        (if c \<noteq> uint CH_NEWLINE then
           (if c < 1000 then
              andthen (translate_from_zscii (word_of_int c) s) (\<lambda>k.
                if is_click k then
                  (let (x, f) = replay_code f; (y, f) = replay_code f in
                   Ok (k, upd_dev (\<lambda>d. d\<lparr>mouse_x := x, mouse_y := y\<rparr>) (set_pfp f s)))
                else Ok (k, set_pfp f s))
            else Ok (ZC_HKEY_MIN + word_of_int (c - 1000), set_pfp f s))
         else Ok (ZC_RETURN, set_pfp (unget_newline f) s))
      else Ok (ZC_BAD, set_pfp f s))"

text \<open>The last test of both functions: the line must end here.\<close>

definition replay_end :: "zchar \<Rightarrow> zstate \<Rightarrow> zchar \<times> zstate" where
  "replay_end key s =
     (let (c, f) = fgetc (pfp (dev s)); s = set_pfp f s in
      if c \<noteq> uint CH_NEWLINE then (ZC_BAD, replay_close s) else (key, s))"

definition replay_read_key :: "zstate \<Rightarrow> (zchar \<times> zstate) res" where
  "replay_read_key s = andthen (replay_char s) (\<lambda>(key, s). Ok (replay_end key s))"

text \<open>
  \<open>is_terminator\<close> of input.c, with its loop over the table of terminating keys: it goes on until a 0, a
  255 or the key, and round and round when the memory has none of them.
\<close>

partial_function (option) terminator_loop :: "zword \<Rightarrow> zchar \<Rightarrow> zstate \<Rightarrow> bool res" where
  "terminator_loop addr key s =
     andthen (low_byte (uint addr) s) (\<lambda>c.
     andthen (if c = 255 then Ok key else translate_from_zscii c s) (\<lambda>k.
       if key = k then Ok True
       else if c \<noteq> 0 then terminator_loop (addr + 1) key s else Ok False))"

definition is_terminator :: "zchar \<Rightarrow> zstate \<Rightarrow> bool res" where
  "is_terminator key s =
     (if key = ZC_TIME_OUT \<or> key = ZC_RETURN \<or> is_hot_key key then Ok True
      else if h_terminating_keys (hdr s) \<noteq> 0 \<and> ZC_ARROW_MIN \<le> key \<and> key \<le> ZC_MENU_CLICK
      then terminator_loop (h_terminating_keys (hdr s)) key s
      else Ok False)"

text \<open>
  The loop of \<open>replay_read_input\<close> with the stores to the buffer, which has room for \<open>n\<close> characters from
  place \<open>i\<close> on; the final 0 takes a place, too. The C function does not know the size of the buffer.
\<close>

fun replay_text :: "nat \<Rightarrow> int \<Rightarrow> zstate \<Rightarrow> (zchar \<times> zchar list \<times> zstate) res" where
  "replay_text 0 i s =
     andthen (replay_char s) (\<lambda>(c, s).
     andthen (if c = ZC_BAD then Ok True else is_terminator c s) (\<lambda>e. Stop (Bad_buffer i)))"
| "replay_text (Suc n) i s =
     andthen (replay_char s) (\<lambda>(c, s).
     andthen (if c = ZC_BAD then Ok True else is_terminator c s) (\<lambda>e.
       if e then Ok (c, [], s)
       else andthen (replay_text n (i + 1) s) (\<lambda>(k, cs, s). Ok (k, c # cs, s))))"

text \<open>As with every buffer here, its text is what stands before the first 0.\<close>

definition c_text :: "zchar list \<Rightarrow> zchar list" where
  "c_text cs = takeWhile (\<lambda>c. c \<noteq> 0) cs"

definition replay_read_input :: "nat \<Rightarrow> zstate \<Rightarrow> (zchar \<times> zchar list \<times> zstate) res" where
  "replay_read_input room s =
     andthen (replay_text room 0 s) (\<lambda>(key, cs, s).
     let (key, s) = replay_end key s in Ok (key, c_text cs, s))"

end
