(* ===== verification/Input.thy ===== *)
theory Input
  imports Commands Process
begin

text \<open>
  Reading keys and lines (stream.c, input.c) and the hot keys (hotkey.c). The argument \<open>interp\<close> is the
  interpreter that \<open>direct_call\<close> starts for the routine of a timeout.

  In the source \<open>stream_read_key\<close> calls \<open>handle_hot_key\<close>, which reads keys with the hot keys switched
  off. The two streams therefore take the function for hot keys as an argument \<open>hk\<close>: reading without hot
  keys gets one that is never called, and the hot keys are built on it.
\<close>

type_synonym interp = "zstate \<Rightarrow> zstate res"
type_synonym hot_key = "zchar \<Rightarrow> zstate \<Rightarrow> (bool \<times> zstate) res"

abbreviation (input) "INPUT_BUFFER_SIZE \<equiv> (200 :: nat)"

abbreviation (input) "ZC_HKEY_RECORD \<equiv> (0x0e :: zchar)"
abbreviation (input) "ZC_HKEY_PLAYBACK \<equiv> (0x0f :: zchar)"
abbreviation (input) "ZC_HKEY_SEED \<equiv> (0x10 :: zchar)"
abbreviation (input) "ZC_HKEY_UNDO \<equiv> (0x11 :: zchar)"
abbreviation (input) "ZC_HKEY_RESTART \<equiv> (0x12 :: zchar)"
abbreviation (input) "ZC_HKEY_QUIT \<equiv> (0x13 :: zchar)"
abbreviation (input) "ZC_HKEY_DEBUG \<equiv> (0x14 :: zchar)"
abbreviation (input) "ZC_HKEY_HELP \<equiv> (0x15 :: zchar)"

subsection \<open>The input streams\<close>

text \<open>Parts that both functions have: the mouse, the command file, the routine of a timeout.\<close>

definition valid_key :: "zchar \<Rightarrow> zstate \<Rightarrow> (bool \<times> zstate) res" where
  "valid_key key s = (if is_click key then validate_click s else Ok (True, s))"

definition recording :: "zstate \<Rightarrow> bool" where
  "recording s \<longleftrightarrow> ostream_record (out s) \<and> \<not> istream_replay (out s)"

text \<open>The value is \<open>False\<close> when the input goes on after a timeout.\<close>

definition timed_out :: "interp \<Rightarrow> zword \<Rightarrow> zchar \<Rightarrow> zstate \<Rightarrow> (bool \<times> zstate) res" where
  "timed_out interp routine key s =
     (if key = ZC_TIME_OUT then andthen (direct_call interp routine s) (\<lambda>(v, s). Ok (v \<noteq> 0, s))
      else Ok (True, s))"

text \<open>The inner loop of \<open>stream_read_key\<close>.\<close>

partial_function (option) next_key :: "zword \<Rightarrow> zstate \<Rightarrow> (zchar \<times> zstate) res" where
  "next_key timeout s =
     andthen (if istream_replay (out s) then replay_read_key s else Ok (console_read_key timeout s)) (\<lambda>(key, s).
       if key = ZC_BAD then next_key timeout s else Ok (key, s))"

partial_function (option) read_key_loop ::
    "hot_key \<Rightarrow> interp \<Rightarrow> zword \<Rightarrow> zword \<Rightarrow> bool \<Rightarrow> zstate \<Rightarrow> (zchar \<times> zstate) res" where
  "read_key_loop hk interp timeout routine hot_keys s =
     andthen (next_key timeout s) (\<lambda>(key, s).
     andthen (valid_key key s) (\<lambda>(valid, s).
       if \<not> valid then read_key_loop hk interp timeout routine hot_keys s
       else
         andthen (if recording s then record_write_key key s else Ok s) (\<lambda>s.
         andthen (timed_out interp routine key s) (\<lambda>(ended, s).
           if \<not> ended then read_key_loop hk interp timeout routine hot_keys s
           else if hot_keys \<and> is_hot_key key then
             (if version s = V4 \<and> key = ZC_HKEY_UNDO then read_key_loop hk interp timeout routine hot_keys s
              else
                andthen (hk key s) (\<lambda>(aborting, s).
                  if \<not> aborting then read_key_loop hk interp timeout routine hot_keys s
                  else Ok (ZC_BAD, s)))
           else Ok (key, s)))))"

definition stream_read_key_h ::
    "hot_key \<Rightarrow> interp \<Rightarrow> zword \<Rightarrow> zword \<Rightarrow> bool \<Rightarrow> zstate \<Rightarrow> (zchar \<times> zstate) res" where
  "stream_read_key_h hk interp timeout routine hot_keys s =
     andthen (flush_buffer s) (read_key_loop hk interp timeout routine hot_keys)"

text \<open>
  \<open>stream_read_input\<close>: \<open>room\<close> is the size of the buffer, \<open>buf\<close> its text. The key of the last round tells
  \<open>console_read_input\<close> whether the line is continued.
\<close>

partial_function (option) next_line_input ::
    "nat \<Rightarrow> int \<Rightarrow> zword \<Rightarrow> zchar \<Rightarrow> zchar list \<Rightarrow> zstate \<Rightarrow> (zchar \<times> zchar list \<times> zstate) res" where
  "next_line_input room maxlen timeout key buf s =
     andthen
       (if istream_replay (out s) then replay_read_input room s
        else Ok (console_read_input maxlen buf timeout (key \<noteq> ZC_BAD) s)) (\<lambda>(key, buf, s).
       if key = ZC_BAD then next_line_input room maxlen timeout key buf s else Ok (key, buf, s))"

partial_function (option) read_input_loop ::
    "hot_key \<Rightarrow> interp \<Rightarrow> nat \<Rightarrow> int \<Rightarrow> zword \<Rightarrow> zword \<Rightarrow> bool \<Rightarrow> zchar \<Rightarrow> zchar list \<Rightarrow> zstate \<Rightarrow>
      (zchar \<times> zchar list \<times> zstate) res" where
  "read_input_loop hk interp room maxlen timeout routine hot_keys key buf s =
     andthen (next_line_input room maxlen timeout key buf s) (\<lambda>(key, buf, s).
     andthen (valid_key key s) (\<lambda>(valid, s).
       if \<not> valid then read_input_loop hk interp room maxlen timeout routine hot_keys key buf s
       else
         andthen (if recording s then record_write_input buf key s else Ok s) (\<lambda>s.
         andthen (timed_out interp routine key s) (\<lambda>(ended, s).
           if \<not> ended then read_input_loop hk interp room maxlen timeout routine hot_keys key buf s
           else if hot_keys \<and> is_hot_key key then
             andthen (hk key s) (\<lambda>(aborting, s).
               if \<not> aborting then read_input_loop hk interp room maxlen timeout routine hot_keys key buf s
               else Ok (ZC_BAD, buf, s))
           else Ok (key, buf, s)))))"

text \<open>An aborted line is not copied to the transcript or the screen.\<close>

definition stream_read_input_h ::
    "hot_key \<Rightarrow> interp \<Rightarrow> nat \<Rightarrow> int \<Rightarrow> zchar list \<Rightarrow> zword \<Rightarrow> zword \<Rightarrow> bool \<Rightarrow> bool \<Rightarrow> zstate \<Rightarrow>
      (zchar \<times> zchar list \<times> zstate) res" where
  "stream_read_input_h hk interp room maxlen buf timeout routine hot_keys no_scripting s =
     andthen (flush_buffer s) (\<lambda>s.
     let s = (if to_script s \<and> \<not> no_scripting then script_erase_input buf s else s);
         s = (if istream_replay (out s) then screen_erase_input buf s else s) in
     andthen (read_input_loop hk interp room maxlen timeout routine hot_keys ZC_BAD buf s) (\<lambda>(key, buf, s).
       if key = ZC_BAD then Ok (key, buf, s)
       else
         andthen (if to_script s \<and> \<not> no_scripting then script_write_input buf key s else Ok s) (\<lambda>s.
         Ok (key, buf, if istream_replay (out s) then screen_write_input buf key s else s))))"

subsection \<open>Questions\<close>

text \<open>Reading without hot keys.\<close>

definition no_hot_key :: hot_key where
  "no_hot_key key s = Ok (True, s)"

definition plain_read_key :: "interp \<Rightarrow> zstate \<Rightarrow> (zchar \<times> zstate) res" where
  "plain_read_key interp = stream_read_key_h no_hot_key interp 0 0 False"

definition plain_read_input ::
    "interp \<Rightarrow> nat \<Rightarrow> int \<Rightarrow> zchar list \<Rightarrow> zstate \<Rightarrow> (zchar \<times> zchar list \<times> zstate) res" where
  "plain_read_input interp room maxlen buf = stream_read_input_h no_hot_key interp room maxlen buf 0 0 False False"

definition print_line :: "string \<Rightarrow> zstate \<Rightarrow> zstate res" where
  "print_line t = print_string (zs t @ [CH_NEWLINE])"

definition read_yes_or_no :: "interp \<Rightarrow> string \<Rightarrow> zstate \<Rightarrow> (bool \<times> zstate) res" where
  "read_yes_or_no interp t s =
     andthen (print_string (zs t) s) (\<lambda>s.
     andthen (print_string (zs ''? (y/n) >'') s) (\<lambda>s.
     andthen (plain_read_key interp s) (\<lambda>(key, s).
       if key = of_char CHR ''y'' \<or> key = of_char CHR ''Y'' then
         andthen (print_line ''y'' s) (\<lambda>s. Ok (True, s))
       else andthen (print_line ''n'' s) (\<lambda>s. Ok (False, s)))))"

partial_function (option) read_string_loop ::
    "interp \<Rightarrow> nat \<Rightarrow> int \<Rightarrow> zchar list \<Rightarrow> zstate \<Rightarrow> (zchar list \<times> zstate) res" where
  "read_string_loop interp room maxlen buf s =
     andthen (plain_read_input interp room maxlen buf s) (\<lambda>(key, buf, s).
       if key \<noteq> ZC_RETURN then read_string_loop interp room maxlen buf s else Ok (buf, s))"

definition read_string :: "interp \<Rightarrow> nat \<Rightarrow> int \<Rightarrow> zstate \<Rightarrow> (zchar list \<times> zstate) res" where
  "read_string interp room maxlen = read_string_loop interp room maxlen []"

text \<open>The digits of a line; other characters are skipped.\<close>

definition number_of_text :: "zchar list \<Rightarrow> int" where
  "number_of_text buf =
     foldl (\<lambda>v c. if 0x30 \<le> c \<and> c \<le> 0x39 then 10 * v + uint c - 0x30 else v) 0 buf"

definition read_number :: "interp \<Rightarrow> zstate \<Rightarrow> (int \<times> zstate) res" where
  "read_number interp s = andthen (read_string interp 6 5 s) (\<lambda>(buf, s). Ok (number_of_text buf, s))"

subsection \<open>Playback and hot keys\<close>

definition replay_open :: "interp \<Rightarrow> zstate \<Rightarrow> zstate res" where
  "replay_open interp s =
     (let new_name = os_name (dev s) (clock s); (named, s) = ask s in
      if named \<noteq> 0 then
        (case open_read new_name (upd_dev (\<lambda>d. d\<lparr>command_name := new_name\<rparr>) s) of
           (None, s) \<Rightarrow> print_line ''Cannot open file'' s
         | (Some f, s) \<Rightarrow>
             andthen (read_yes_or_no interp ''Do you want MORE prompts'' (set_pfp f s)) (\<lambda>(yes, s).
               Ok (upd_out (\<lambda>t. t\<lparr>istream_replay := True\<rparr>) (set_more_prompts yes s))))
      else Ok s)"

definition z_input_stream :: "interp \<Rightarrow> zstate \<Rightarrow> zstate res" where
  "z_input_stream interp s =
     andthen (flush_buffer s) (\<lambda>s.
     let s = (if zargs s 0 = 0 \<and> istream_replay (out s) then replay_close s else s) in
     if zargs s 0 = 1 \<and> \<not> istream_replay (out s) then replay_open interp s else Ok s)"

definition upd_setup :: "(f_setup_t \<Rightarrow> f_setup_t) \<Rightarrow> zstate \<Rightarrow> zstate" where
  "upd_setup g s = s\<lparr>f_setup := g (f_setup s)\<rparr>"

definition hot_key_debugging :: "interp \<Rightarrow> zstate \<Rightarrow> (bool \<times> zstate) res" where
  "hot_key_debugging interp s =
     andthen (print_line ''Debugging options'' s) (\<lambda>s.
     andthen (read_yes_or_no interp ''Watch attribute assignment'' s) (\<lambda>(b, s).
     let s = upd_setup (\<lambda>f. f\<lparr>attribute_assignment := b\<rparr>) s in
     andthen (read_yes_or_no interp ''Watch attribute testing'' s) (\<lambda>(b, s).
     let s = upd_setup (\<lambda>f. f\<lparr>attribute_testing := b\<rparr>) s in
     andthen (read_yes_or_no interp ''Watch object movement'' s) (\<lambda>(b, s).
     let s = upd_setup (\<lambda>f. f\<lparr>object_movement := b\<rparr>) s in
     andthen (read_yes_or_no interp ''Watch object locating'' s) (\<lambda>(b, s).
     Ok (False, upd_setup (\<lambda>f. f\<lparr>object_locating := b\<rparr>) s))))))"

definition help_lines :: "string list" where
  "help_lines =
     [[], ''Alt-D  debugging options'', ''Alt-H  help'', ''Alt-N  new game'', ''Alt-P  playback on'',
      ''Alt-R  recording on/off'', ''Alt-S  seed random numbers'', ''Alt-U  undo one turn'',
      ''Alt-X  exit game'']"

definition hot_key_help :: "zstate \<Rightarrow> (bool \<times> zstate) res" where
  "hot_key_help s =
     andthen (print_line ''Help'' s) (\<lambda>s.
     andthen (print_string (concat (map (\<lambda>t. zs t @ [CH_NEWLINE]) help_lines)) s) (\<lambda>s. Ok (False, s)))"

definition hot_key_playback :: "interp \<Rightarrow> zstate \<Rightarrow> (bool \<times> zstate) res" where
  "hot_key_playback interp s =
     andthen (print_line ''Playback on'' s) (\<lambda>s.
     andthen (if \<not> istream_replay (out s) then replay_open interp s else Ok s) (\<lambda>s. Ok (False, s)))"

definition hot_key_recording :: "zstate \<Rightarrow> (bool \<times> zstate) res" where
  "hot_key_recording s =
     andthen
       (if istream_replay (out s) then
          andthen (print_line ''Playback off'' s) (\<lambda>s. Ok (replay_close s))
        else if ostream_record (out s) then
          andthen (print_line ''Recording off'' s) (\<lambda>s. Ok (record_close s))
        else andthen (print_line ''Recording on'' s) record_open)
       (\<lambda>s. Ok (False, s))"

definition hot_key_seed :: "interp \<Rightarrow> zstate \<Rightarrow> (bool \<times> zstate) res" where
  "hot_key_seed interp s =
     andthen (print_line ''Seed random numbers'' s) (\<lambda>s.
     andthen (print_string (zs ''Enter seed value (or return to randomize): '') s) (\<lambda>s.
     andthen (read_number interp s) (\<lambda>(n, s). Ok (False, seed_random n s))))"

definition hot_key_undo :: "zstate \<Rightarrow> (bool \<times> zstate) res" where
  "hot_key_undo s =
     andthen (print_line ''Undo one turn'' s) (\<lambda>s.
     andthen (restore_undo s) (\<lambda>(result, s).
       if result \<noteq> 0 then
         (if version s \<ge> V5 then andthen (store 2 s) (\<lambda>s. Ok (True, s))
          else if version s \<le> V3 then andthen (z_show_status s) (\<lambda>s. Ok (False, s))
          else Ok (False, s))
       else andthen (print_line ''No more undo information available.'' s) (\<lambda>s. Ok (False, s))))"

definition hot_key_restart :: "interp \<Rightarrow> zstate \<Rightarrow> (bool \<times> zstate) res" where
  "hot_key_restart interp s =
     andthen (print_line ''New game'' s) (\<lambda>s.
     andthen (read_yes_or_no interp ''Do you wish to restart'' s) (\<lambda>(yes, s).
       if yes then andthen (z_restart restart_screen s) (\<lambda>s. Ok (True, s)) else Ok (False, s)))"

definition hot_key_quit :: "interp \<Rightarrow> zstate \<Rightarrow> (bool \<times> zstate) res" where
  "hot_key_quit interp s =
     andthen (print_line ''Exit game'' s) (\<lambda>s.
     andthen (read_yes_or_no interp ''Do you wish to quit'' s) (\<lambda>(yes, s).
       if yes then andthen (z_quit s) (\<lambda>s. Ok (True, s)) else Ok (False, s)))"

definition hot_key_action :: "interp \<Rightarrow> hot_key" where
  "hot_key_action interp key s =
     (if key = ZC_HKEY_RECORD then hot_key_recording s
      else if key = ZC_HKEY_PLAYBACK then hot_key_playback interp s
      else if key = ZC_HKEY_SEED then hot_key_seed interp s
      else if key = ZC_HKEY_UNDO then hot_key_undo s
      else if key = ZC_HKEY_RESTART then hot_key_restart interp s
      else if key = ZC_HKEY_QUIT then hot_key_quit interp s
      else if key = ZC_HKEY_DEBUG then hot_key_debugging interp s
      else if key = ZC_HKEY_HELP then hot_key_help s
      else Ok (False, s))"

definition handle_hot_key :: "interp \<Rightarrow> hot_key" where
  "handle_hot_key interp key s =
     (if cwin (scr s) = 0 then
        andthen (print_string (CH_NEWLINE # zs ''Hot key -- '') s) (\<lambda>s.
        andthen (hot_key_action interp key s) (\<lambda>(aborting, s).
          if aborting then Ok (True, s)
          else andthen (print_string (CH_NEWLINE # zs ''Continue input...'' @ [CH_NEWLINE]) s) (\<lambda>s. Ok (False, s))))
      else Ok (False, s))"

definition stream_read_key :: "interp \<Rightarrow> zword \<Rightarrow> zword \<Rightarrow> zstate \<Rightarrow> (zchar \<times> zstate) res" where
  "stream_read_key interp timeout routine =
     stream_read_key_h (handle_hot_key interp) interp timeout routine True"

definition stream_read_input ::
    "interp \<Rightarrow> nat \<Rightarrow> int \<Rightarrow> zchar list \<Rightarrow> zword \<Rightarrow> zword \<Rightarrow> bool \<Rightarrow> zstate \<Rightarrow>
      (zchar \<times> zchar list \<times> zstate) res" where
  "stream_read_input interp room maxlen buf timeout routine no_scripting =
     stream_read_input_h (handle_hot_key interp) interp room maxlen buf timeout routine True no_scripting"

subsection \<open>Opcodes\<close>

definition z_make_menu :: "zstate \<Rightarrow> zstate res" where
  "z_make_menu s = branch False s"

text \<open>The text already in the buffer: \<open>n\<close> more characters, the next for place \<open>i\<close> of the local buffer.\<close>

fun initial_text :: "nat \<Rightarrow> int \<Rightarrow> zword \<Rightarrow> zstate \<Rightarrow> zchar list res" where
  "initial_text 0 i addr s = (if i < int INPUT_BUFFER_SIZE then Ok [] else Stop (Bad_buffer i))"
| "initial_text (Suc n) i addr s =
     andthen (low_byte (uint (addr + 1)) s) (\<lambda>c.
     andthen (translate_from_zscii c s) (\<lambda>k.
       if i < int INPUT_BUFFER_SIZE then
         andthen (initial_text n (i + 1) (addr + 1) s) (\<lambda>cs. Ok (k # cs))
       else Stop (Bad_buffer i)))"

definition lower_char :: "zchar \<Rightarrow> zchar" where
  "lower_char c =
     (let c = (if 0x41 \<le> c \<and> c \<le> 0x5a then c + 0x20 else c) in
      if 0xc0 \<le> c \<and> c \<le> 0xde \<and> c \<noteq> 0xd7 then c + 0x20 else c)"

text \<open>The loop that copies the line to memory from the address on.\<close>

fun store_text :: "bool \<Rightarrow> zchar list \<Rightarrow> zword \<Rightarrow> zstate \<Rightarrow> zstate res" where
  "store_text lower [] addr s = Ok s"
| "store_text lower (c # cs) addr s =
     andthen (translate_to_zscii (if lower then lower_char c else c) s) (\<lambda>z.
     andthen (storeb addr z s) (store_text lower cs (addr + 1)))"

text \<open>What \<open>z_read\<close> does with a line and the key that ended it.\<close>

definition store_line :: "zchar \<Rightarrow> zchar list \<Rightarrow> zstate \<Rightarrow> zstate res" where
  "store_line key buf s =
     andthen (if version s \<le> V4 then andthen (save_undo s) (\<lambda>(r, s). Ok s) else Ok s) (\<lambda>s.
     let old = version s \<le> V4; i = word_of_int (int (length buf)) in
     andthen (store_text (key = ZC_RETURN) buf (zargs s 0 + (if old then 1 else 2)) s) (\<lambda>s.
     andthen
       (if old then storeb (zargs s 0 + 1 + i) 0 s
        else storeb (zargs s 0 + 1) (ucast i) s) (\<lambda>s.
     andthen
       (if key = ZC_RETURN \<and> zargs s 1 \<noteq> 0 then tokenise_line (zargs s 0) (zargs s 1) 0 False s else Ok s) (\<lambda>s.
       if \<not> old then andthen (translate_to_zscii key s) (\<lambda>z. store (ucast z) s) else Ok s))))"

definition z_read :: "interp \<Rightarrow> zstate \<Rightarrow> zstate res" where
  "z_read interp s =
     (let s = (if zargc s < 3 then s\<lparr>zargs := (zargs s)(2 := 0)\<rparr> else s); addr = zargs s 0 in
      andthen (low_byte (uint addr) s) (\<lambda>m.
      let m = (if version s \<le> V4 then m - 1 else m);
          maxlen = (if int INPUT_BUFFER_SIZE \<le> uint m then int INPUT_BUFFER_SIZE - 1 else uint m);
          addr = (if version s \<ge> V5 then addr + 1 else addr) in
      andthen (if version s \<ge> V5 then low_byte (uint addr) s else Ok 0) (\<lambda>n.
      andthen (initial_text (unat n) 0 addr s) (\<lambda>cs.
      andthen (if version s \<le> V3 then z_show_status s else Ok s) (\<lambda>s.
      andthen
        (stream_read_input interp INPUT_BUFFER_SIZE maxlen (c_text cs) (zargs s 2) (zargs s 3) (version s = V6) s)
        (\<lambda>(key, buf, s). if key = ZC_BAD then Ok s else store_line key buf s))))))"

definition z_read_char :: "interp \<Rightarrow> zstate \<Rightarrow> zstate res" where
  "z_read_char interp s =
     (let s = (if zargc s < 2 then s\<lparr>zargs := (zargs s)(1 := 0)\<rparr> else s) in
      andthen (stream_read_key interp (zargs s 1) (zargs s 2) s) (\<lambda>(key, s).
        if key = ZC_BAD then Ok s else andthen (translate_to_zscii key s) (\<lambda>z. store (ucast z) s)))"

definition z_read_mouse :: "zstate \<Rightarrow> zstate res" where
  "z_read_mouse s =
     andthen (storew (zargs s 0 + 0) (hx_mouse_y (dev s)) s) (\<lambda>s.
     andthen (storew (zargs s 0 + 2) (hx_mouse_x (dev s)) s) (\<lambda>s.
     andthen (storew (zargs s 0 + 4) 1 s) (storew (zargs s 0 + 6) 0)))"

end
