(* ===== verification/Sound.thy ===== *)
theory Sound
  imports Process
begin

text \<open>
  Sound effects (sound.c). \<open>end_of_sound\<close> is called by the front end when a sample is over; its argument
  \<open>interp\<close> is the interpreter that \<open>direct_call\<close> starts.
\<close>

definition upd_sfx :: "(sound \<Rightarrow> sound) \<Rightarrow> zstate \<Rightarrow> zstate" where
  "upd_sfx f s = s\<lparr>sfx := f (sfx s)\<rparr>"

definition lh_repeats :: "zbyte list" where
  "lh_repeats =
    [0x00, 0x00, 0x00, 0x01, 0xff, 0x00, 0x01, 0x01, 0x01, 0x01,
     0xff, 0x01, 0x01, 0xff, 0x00, 0xff, 0xff, 0xff, 0xff, 0xff]"

definition start_sample :: "int \<Rightarrow> int \<Rightarrow> int \<Rightarrow> zword \<Rightarrow> zstate \<Rightarrow> zstate res" where
  "start_sample number volume repeats eos s =
     andthen
       (if story_id s = LURKING_HORROR then
          (if 0 \<le> number \<and> number < 20 then Ok (uint (lh_repeats ! nat number)) else Stop (Bad_buffer number))
        else Ok repeats) (\<lambda>repeats.
     Ok (upd_sfx (\<lambda>t. t\<lparr>snd_routine := eos, playing := True\<rparr>)
       (log_event (Os_start_sample number volume repeats eos) s)))"

definition start_next_sample :: "zstate \<Rightarrow> zstate res" where
  "start_next_sample s =
     andthen
       (if next_sample (sfx s) \<noteq> 0 then start_sample (next_sample (sfx s)) (next_volume (sfx s)) 0 0 s else Ok s)
       (\<lambda>s. Ok (upd_sfx (\<lambda>t. t\<lparr>next_sample := 0, next_volume := 0\<rparr>) s))"

definition end_of_sound :: "(zstate \<Rightarrow> zstate res) \<Rightarrow> zstate \<Rightarrow> zstate res" where
  "end_of_sound interp s =
     (let s = upd_sfx (\<lambda>t. t\<lparr>playing := False\<rparr>) s in
      if \<not> snd_locked (sfx s) then
        andthen (if story_id s = LURKING_HORROR then start_next_sample s else Ok s) (\<lambda>s.
        andthen (direct_call interp (snd_routine (sfx s)) s) (\<lambda>(v, s). Ok s))
      else Ok s)"

abbreviation (input) "EFFECT_PREPARE \<equiv> (1 :: zword)"
abbreviation (input) "EFFECT_PLAY \<equiv> (2 :: zword)"
abbreviation (input) "EFFECT_STOP \<equiv> (3 :: zword)"
abbreviation (input) "EFFECT_FINISH_WITH \<equiv> (4 :: zword)"

text \<open>The delayed samples of The Lurking Horror, and the others.\<close>

definition delayed_sample :: "zword \<Rightarrow> zword \<Rightarrow> zword \<Rightarrow> zstate \<Rightarrow> zstate res" where
  "delayed_sample number effect volume s =
     (if effect = EFFECT_PLAY then
        (let s = upd_sfx (\<lambda>t. t\<lparr>next_sample := uint number, next_volume := uint volume, snd_locked := False\<rparr>) s in
         if \<not> playing (sfx s) then start_next_sample s else Ok s)
      else Ok (upd_sfx (\<lambda>t. t\<lparr>snd_locked := False\<rparr>) s))"

definition sample_effect :: "zword \<Rightarrow> zword \<Rightarrow> zword \<Rightarrow> zstate \<Rightarrow> zstate res" where
  "sample_effect number effect volume s =
     (let s = upd_sfx (\<lambda>t. t\<lparr>playing := False\<rparr>) s in
      andthen
        (if effect = EFFECT_PREPARE then Ok (log_event (Os_prepare_sample (uint number)) s)
         else if effect = EFFECT_PLAY then
           start_sample (uint number) (uint (lo volume)) (uint (hi volume)) (if zargc s = 4 then zargs s 3 else 0) s
         else if effect = EFFECT_STOP then Ok (log_event Os_stop_sample s)
         else if effect = EFFECT_FINISH_WITH then Ok (log_event Os_finish_with_sample s)
         else Ok s)
        (\<lambda>s. Ok (upd_sfx (\<lambda>t. t\<lparr>snd_locked := False\<rparr>) s)))"

definition z_sound_effect :: "zstate \<Rightarrow> zstate res" where
  "z_sound_effect s =
     (let number = (if zargc s < 1 then 1 else zargs s 0);
          effect = (if zargc s < 2 then EFFECT_PLAY else zargs s 1);
          volume = (if zargc s < 3 then 8 else zargs s 2) in
      if 3 \<le> number \<or> number = 0 then
        (let s = upd_sfx (\<lambda>t. t\<lparr>snd_locked := True\<rparr>) s in
         if story_id s = LURKING_HORROR \<and> (number = 9 \<or> number = 16)
         then delayed_sample number effect volume s
         else sample_effect number effect volume s)
      else Ok (log_event (Os_beep (uint number)) s))"

end
