(* ===== verification/Initial.thy ===== *)
theory Initial
  imports Machine
begin

text \<open>
  The state in which the program starts: the initial values that main.c, buffer.c, redirect.c,
  random.c, sound.c, screen.c and fastmem.c give to their variables, and the initialisation functions of buffer.c, sound.c
  and err.c. The user options, the story file and the answers from outside are arguments.
\<close>

subsection \<open>Initial values\<close>

definition initial_header :: header where
  "initial_header =
    \<lparr>h_version = 0, h_config = 0, h_release = 0, h_resident_size = 0, h_start_pc = 0,
     h_dictionary = 0, h_objects = 0, h_globals = 0, h_dynamic_size = 0, h_flags = 0,
     h_serial = (\<lambda>i. 0), h_abbreviations = 0, h_file_size = 0, h_checksum = 0,
     h_interpreter_number = 0, h_interpreter_version = 0, h_screen_rows = 0, h_screen_cols = 0,
     h_screen_width = 0, h_screen_height = 0, h_font_height = 1, h_font_width = 1,
     h_functions_offset = 0, h_strings_offset = 0, h_default_background = 0,
     h_default_foreground = 0, h_terminating_keys = 0, h_line_width = 0, h_standard_high = 1,
     h_standard_low = 0, h_alphabet = 0, h_extension_table = 0, h_user_name = (\<lambda>i. 0),
     hx_table_size = 0, hx_unicode_table = 0\<rparr>"

definition initial_out :: outstate where
  "initial_out =
    \<lparr>tbuf = (\<lambda>i. 0), bufpos = 0, prev_c = 0, pc_flag = False, locked = False, message = False,
     ostream_screen = True, ostream_script = False, ostream_memory = False,
     ostream_record = False, istream_replay = False, enable_scripting = False,
     enable_buffering = False, depth = -1,
     redirect = (\<lambda>i. \<lparr>xsize = 0, table = 0, width = 0, total = 0\<rparr>), script_width = 0,
     script_valid = False, error_count = (\<lambda>i. 0), io_log = []\<rparr>"

definition initial_undo :: undostate where
  "initial_undo =
    \<lparr>undo_list = [], curr_undo = -1, undo_count = 0, undo_mem = False, prev_zmp = (\<lambda>a. 0)\<rparr>"

definition initial_dev :: device where
  "initial_dev =
    \<lparr>disk = (\<lambda>n. None), names_story = (\<lambda>n. n = ''story.z5''), os_name = (\<lambda>k. ''game''), os_text = (\<lambda>k. []), save_name = ''story.sav'',
     auxilary_name = ''story.aux'', command_name = ''story.rec'', rec_name = [],
     pfp = \<lparr>f_bytes = [], f_pos = 0\<rparr>, mouse_x = 0, mouse_y = 0, hx_mouse_x = 0, hx_mouse_y = 0\<rparr>"

definition initial_window :: window where
  "initial_window =
    \<lparr>y_pos = 0, x_pos = 0, y_size = 0, x_size = 0, y_cursor = 0, x_cursor = 0, w_left = 0, w_right = 0,
     nl_routine = 0, nl_countdown = 0, w_style = 0, w_colour = 0, w_font = 0, w_font_size = 0,
     w_attribute = 0, line_count = 0\<rparr>"

definition initial_scr :: screen where
  "initial_scr =
    \<lparr>wp = (\<lambda>i. initial_window), cwp = 0, cwin = 0, mwin = 0, font_height = 1, font_width = 1,
     input_redraw = False, more_prompts = True, discarding = False, cursor_on = True, input_window = 0,
     enable_wrapping = False, enable_scrolling = False\<rparr>"

definition initial_sound :: sound where
  "initial_sound =
    \<lparr>snd_routine = 0, next_sample = 0, next_volume = 0, snd_locked = False, playing = False\<rparr>"

definition initial_state ::
    "f_setup_t \<Rightarrow> (int \<Rightarrow> zbyte) \<Rightarrow> int \<Rightarrow> (nat \<Rightarrow> int) \<Rightarrow> zstate" where
  "initial_state opts file len answers =
    \<lparr>zmp = (\<lambda>a. 0), story_size = 0, story_file = file, story_len = len, pcp = 0,
     stack = (\<lambda>i. 0), sp = 0, fp = 0, frame_count = 0, zargs = (\<lambda>i. 0), zargc = 0, finished = 0,
     first_restart = True, story_id = UNKNOWN, hdr = initial_header, f_setup = opts,
     rnd = \<lparr>rA = 1, interval = 0, counter = 0\<rparr>, out = initial_out, undo = initial_undo,
     decoded = (\<lambda>i. 0), encoded = (\<lambda>i. 0), dev = initial_dev, scr = initial_scr, sfx = initial_sound,
     os_answer = answers, clock = 0\<rparr>"

text \<open>The default options: \<open>os_init_setup\<close> of curses/ux_init.c.\<close>

definition default_setup :: f_setup_t where
  "default_setup =
    \<lparr>attribute_assignment = False, attribute_testing = False, object_locating = False,
     object_movement = False, ignore_errors = False, piracy = False, undo_slots = 500,
     expand_abbreviations = False, script_cols = 80, save_quetzal = True,
     err_report_mode = ERR_REPORT_ONCE, context_lines = 0, left_margin = 0, right_margin = 0\<rparr>"

subsection \<open>Initialisation functions\<close>

definition init_buffer :: "zstate \<Rightarrow> zstate" where
  "init_buffer = upd_out (\<lambda>t. t\<lparr>
     tbuf := (\<lambda>i. if 0 \<le> i \<and> i < TEXT_BUFFER_SIZE then 0 else tbuf t i), bufpos := 0, prev_c := 0\<rparr>)"

definition init_sound :: "zstate \<Rightarrow> zstate" where
  "init_sound s = s\<lparr>sfx := (sfx s)\<lparr>snd_locked := False, playing := False\<rparr>\<rparr>"

definition init_err :: "zstate \<Rightarrow> zstate" where
  "init_err = upd_out (\<lambda>t. t\<lparr>
     error_count := (\<lambda>i. if 0 \<le> i \<and> i < ERR_NUM_ERRORS then 0 else error_count t i)\<rparr>)"

subsection \<open>A small machine\<close>

text \<open>
  A running machine of version \<open>v\<close> with 4096 bytes of memory, all of them dynamic, that holds the
  given bytes from address 64 on and has an empty stack. The examples below it in the development
  use it.
\<close>

definition small_machine :: "zbyte \<Rightarrow> zbyte list \<Rightarrow> zstate" where
  "small_machine v bytes =
     (initial_state default_setup (\<lambda>a. 0) 4096 (\<lambda>k. 1))
       \<lparr>zmp := (\<lambda>a. if 64 \<le> a \<and> a < 64 + int (length bytes) then bytes ! nat (a - 64) else 0),
        story_size := 4096, pcp := 64, sp := STACK_SIZE, fp := STACK_SIZE,
        hdr := initial_header\<lparr>h_version := v, h_dynamic_size := 4096, h_objects := 0x100,
          h_globals := 0x40, h_dictionary := 0x400\<rparr>\<rparr>"

lemma small_machine_sel [simp]:
  "zmp (small_machine v bytes) =
    (\<lambda>a. if 64 \<le> a \<and> a < 64 + int (length bytes) then bytes ! nat (a - 64) else 0)"
  "story_size (small_machine v bytes) = 4096" "pcp (small_machine v bytes) = 64"
  "sp (small_machine v bytes) = STACK_SIZE" "fp (small_machine v bytes) = STACK_SIZE"
  "frame_count (small_machine v bytes) = 0" "stack (small_machine v bytes) = (\<lambda>i. 0)"
  "f_setup (small_machine v bytes) = default_setup"
  "hdr (small_machine v bytes) = initial_header\<lparr>h_version := v, h_dynamic_size := 4096,
     h_objects := 0x100, h_globals := 0x40, h_dictionary := 0x400\<rparr>"
  "story_id (small_machine v bytes) = UNKNOWN" "zargc (small_machine v bytes) = 0"
  "in_mem a (small_machine v bytes) \<longleftrightarrow> 0 \<le> a \<and> a < 4096"
  by (simp_all add: small_machine_def initial_state_def in_mem_def)

end
