(* ===== verification/Interpreter.thy ===== *)
theory Interpreter
  imports Variables Objects SaveGame Input Sound Initial
begin

text \<open>
  The interpreter loop (process.c): the opcode tables, extended opcodes, decoding of one instruction
  and \<open>interpret\<close>, and the main program (main.c). A table is the list of its entries, in order. The
  opcodes that read input start a nested interpreter when a timeout routine is called; it is their
  argument \<open>interp\<close>, and \<open>interpret\<close> ties the knot with a bound on the nesting.
\<close>

type_synonym op = "zstate \<Rightarrow> zstate res"

subsection \<open>Opcode tables\<close>

text \<open>The last instructions of \<open>init_memory\<close> put \<open>z_pop\<close> and \<open>z_not\<close> into the tables up to V4.\<close>

definition old_tables :: "zbyte \<Rightarrow> bool" where
  "old_tables v \<longleftrightarrow> v \<le> V4"

text \<open>\<open>erase_window\<close> with the window number as \<open>z_restore\<close> passes it.\<close>

definition erase_win :: "zword \<Rightarrow> op" where
  "erase_win win = erase_window (uint win)"

definition ext_opcodes :: "op \<Rightarrow> op list" where
  "ext_opcodes interp =
    [z_save, z_restore split_window erase_win, z_log_shift, z_art_shift, z_set_font,
     z_draw_picture, z_picture_data, z_erase_picture,
     z_set_margins, z_save_undo, z_restore_undo, z_print_unicode, z_check_unicode,
     illegal_opcode, illegal_opcode, illegal_opcode, z_move_window,
     z_window_size, z_window_style, z_get_wind_prop,
     z_scroll_window, z_pop_stack, z_read_mouse, z_mouse_window,
     z_push_stack, z_put_wind_prop, z_print_form, z_make_menu,
     z_picture_table]"

definition extended :: "op \<Rightarrow> op" where
  "extended interp s =
     andthen (code_byte s) (\<lambda>(opcode, s).
     andthen (code_byte s) (\<lambda>(specifier, s).
     andthen (load_all_operands specifier s) (\<lambda>s.
       if opcode < 0x1d then (ext_opcodes interp ! unat opcode) s else Ok s)))"

definition op0_opcodes :: "op \<Rightarrow> zbyte \<Rightarrow> op list" where
  "op0_opcodes interp v =
    [z_rtrue, z_rfalse, z_print, z_print_ret, z_nop, z_save, z_restore split_window erase_win,
     z_restart restart_screen, z_ret_popped, if old_tables v then z_pop else z_catch, z_quit,
     z_new_line, z_show_status, z_verify, extended interp, z_piracy]"

definition op1_opcodes :: "zbyte \<Rightarrow> op list" where
  "op1_opcodes v =
    [z_jz, z_get_sibling, z_get_child, z_get_parent, z_get_prop_len, z_inc, z_dec, z_print_addr,
     z_call_s, z_remove_obj, z_print_obj, z_ret, z_jump, z_print_paddr, z_load,
     if old_tables v then z_not else z_call_n]"

definition var_opcodes :: "op \<Rightarrow> op list" where
  "var_opcodes interp =
    [illegal_opcode, z_je, z_jl, z_jg, z_dec_chk, z_inc_chk, z_jin, z_test, z_or, z_and,
     z_test_attr, z_set_attr, z_clear_attr, z_store, z_insert_obj, z_loadw, z_loadb, z_get_prop,
     z_get_prop_addr, z_get_next_prop, z_add, z_sub, z_mul, z_div, z_mod, z_call_s, z_call_n,
     z_set_colour, z_throw, illegal_opcode, illegal_opcode, illegal_opcode,
     z_call_s, z_storew, z_storeb, z_put_prop, z_read interp, z_print_char, z_print_num,
     z_random, z_push, z_pull, z_split_window, z_set_window, z_call_s,
     z_erase_window, z_erase_line, z_set_cursor,
     z_get_cursor, z_set_text_style, z_buffer_mode,
     z_output_stream, z_input_stream interp, z_sound_effect, z_read_char interp,
     z_scan_table, z_not, z_call_n, z_call_n, z_tokenise, z_encode_text, z_copy_table,
     z_print_table, z_check_arg_count]"

subsection \<open>The loop\<close>

definition init_process :: "zstate \<Rightarrow> zstate" where
  "init_process s = s\<lparr>finished := 0\<rparr>"

text \<open>Operands of a VAR instruction; the two call opcodes have a second specifier byte.\<close>

definition load_var_operands :: "zbyte \<Rightarrow> op" where
  "load_var_operands opcode s =
     (if opcode = 0xec \<or> opcode = 0xfa then
        andthen (code_byte s) (\<lambda>(specifier1, s).
        andthen (code_byte s) (\<lambda>(specifier2, s).
        andthen (load_all_operands specifier1 s) (load_all_operands specifier2)))
      else
        andthen (code_byte s) (\<lambda>(specifier1, s). load_all_operands specifier1 s))"

text \<open>The body of the loop: one instruction.\<close>

definition instruction :: "op \<Rightarrow> op" where
  "instruction interp s =
     andthen (code_byte s) (\<lambda>(opcode, s).
     let s = s\<lparr>zargc := 0\<rparr> in
     if opcode < 0x80 then
       andthen (load_operand (if opcode AND 0x40 \<noteq> 0 then 2 else 1) s) (\<lambda>s.
       andthen (load_operand (if opcode AND 0x20 \<noteq> 0 then 2 else 1) s) (\<lambda>s.
         (var_opcodes interp ! unat (opcode AND 0x1f)) s))
     else if opcode < 0xb0 then
       andthen (load_operand (drop_bit 4 opcode) s) (\<lambda>s.
         (op1_opcodes (version s) ! unat (opcode AND 0x0f)) s)
     else if opcode < 0xc0 then
       (op0_opcodes interp (version s) ! unat (opcode - 0xb0)) s
     else
       andthen (load_var_operands opcode s) (\<lambda>s.
         (var_opcodes interp ! unat (opcode - 0xc0)) s))"

text \<open>One turn. The model ends when the instruction has printed so much that a newline routine was called.\<close>

definition step :: "op \<Rightarrow> op" where
  "step interp s =
     andthen (instruction interp s) (\<lambda>t. if interrupts t = interrupts s then Ok t else Stop Newline_routine)"

partial_function (option) interpret_loop :: "op \<Rightarrow> zstate \<Rightarrow> zstate res" where
  "interpret_loop interp s =
     andthen (step interp s) (\<lambda>s.
       if finished s = 0 then interpret_loop interp s else Ok s)"

definition interpret_main :: "op \<Rightarrow> op" where
  "interpret_main interp s =
     andthen (interpret_loop interp s) (\<lambda>s. Ok (s\<lparr>finished := finished s - 1\<rparr>))"

text \<open>
  \<open>interpret\<close>, with at most 16 routines of timeouts running inside each other; deeper nesting is
  \<open>Stop Call_depth\<close> (in C every level takes its frames from the stack of the process).
\<close>

primrec interpret_n :: "nat \<Rightarrow> op" where
  "interpret_n 0 = (\<lambda>s. Stop Call_depth)"
| "interpret_n (Suc n) = interpret_main (interpret_n n)"

definition interpret_game :: op where
  "interpret_game = interpret_n 17"

text \<open>
  \<open>main\<close>. The options that \<open>os_init_setup\<close> and \<open>os_process_arguments\<close> set are those of the state it
  starts in; \<open>os_init_screen\<close>, which fills in the header fields of the screen, is an argument.
\<close>

definition main_program :: "op \<Rightarrow> int \<Rightarrow> op" where
  "main_program os_init_screen reserve_mem s =
     andthen (init_memory (init_err (init_buffer s))) (\<lambda>s.
     andthen (os_init_screen (init_sound (init_process s))) (\<lambda>s.
     andthen (z_restart restart_screen (init_undo reserve_mem s)) (\<lambda>s.
     andthen (interpret_game s) reset_memory)))"

end
