(* ===== verification/Output_Correct.thy ===== *)
theory Output_Correct
  imports Output Initial
begin

text \<open>
  What holds of the output functions: they leave the game alone (\<open>core\<close>), fatal errors do not
  return, a write to dynamic memory that is not the flags byte changes just that byte, and the text
  buffer loses and invents no character.
\<close>

subsection \<open>What the screen functions change\<close>

text \<open>The text of an event: what stream.c gives to screen.c.\<close>

fun event_text :: "io_event \<Rightarrow> zchar list" where
  "event_text (Screen_char c) = [c]"
| "event_text (Screen_word w) = w"
| "event_text Screen_new_line = [ZC_RETURN]"
| "event_text _ = []"

text \<open>Only windows, the clock and the log of calls to the front end change.\<close>

definition only_screen :: "zstate \<Rightarrow> zstate \<Rightarrow> bool" where
  "only_screen s t \<longleftrightarrow>
     (\<exists>c n es. t = s\<lparr>scr := c, clock := n, out := (out s)\<lparr>io_log := io_log (out s) @ es\<rparr>\<rparr> \<and>
       (\<forall>e \<in> set es. event_text e = []))"

lemma only_screenE:
  assumes "only_screen s t"
  obtains c n es where "t = s\<lparr>scr := c, clock := n, out := (out s)\<lparr>io_log := io_log (out s) @ es\<rparr>\<rparr>"
    "\<forall>e \<in> set es. event_text e = []"
  using assms by (auto simp: only_screen_def)

lemma only_screen_trans:
  assumes "only_screen s t" and "only_screen t u"
  shows "only_screen s u"
proof -
  obtain c n es where "t = s\<lparr>scr := c, clock := n, out := (out s)\<lparr>io_log := io_log (out s) @ es\<rparr>\<rparr>"
    "\<forall>e \<in> set es. event_text e = []"
    using assms(1) by (rule only_screenE)
  moreover obtain d m fs where "u = t\<lparr>scr := d, clock := m, out := (out t)\<lparr>io_log := io_log (out t) @ fs\<rparr>\<rparr>"
    "\<forall>e \<in> set fs. event_text e = []"
    using assms(2) by (rule only_screenE)
  ultimately show ?thesis
    unfolding only_screen_def by (intro exI [of _ d] exI [of _ m] exI [of _ "es @ fs"]) auto
qed

named_theorems screen_steps "functions that only change the screen"

lemma only_screen_refl [simp]: "only_screen s s"
  unfolding only_screen_def
  by (intro exI [of _ "scr s"] exI [of _ "clock s"] exI [of _ "[]"]) simp

lemma only_screen_step:
  assumes "\<And>s. only_screen s (f s)" "only_screen r s"
  shows "only_screen r (f s)"
  using only_screen_trans assms by blast

lemma only_screen_basic [screen_steps]:
  "only_screen r s \<Longrightarrow> only_screen r (upd_scr g s)"
  "only_screen r s \<Longrightarrow> event_text e = [] \<Longrightarrow> only_screen r (log_event e s)"
  "only_screen r s \<Longrightarrow> only_screen r (snd (ask s))"
proof -
  have "only_screen s (upd_scr g s)" for s
    unfolding only_screen_def
    by (intro exI [of _ "g (scr s)"] exI [of _ "clock s"] exI [of _ "[]"]) (simp add: upd_scr_def)
  then show "only_screen r s \<Longrightarrow> only_screen r (upd_scr g s)"
    by (rule only_screen_step)
  have "event_text e = [] \<Longrightarrow> only_screen s (log_event e s)" for s
    unfolding only_screen_def
    by (intro exI [of _ "scr s"] exI [of _ "clock s"] exI [of _ "[e]"]) (simp add: log_event_def upd_out_def)
  then show "only_screen r s \<Longrightarrow> event_text e = [] \<Longrightarrow> only_screen r (log_event e s)"
    by (rule only_screen_step)
  have "only_screen s (snd (ask s))" for s
    unfolding only_screen_def
    by (intro exI [of _ "scr s"] exI [of _ "Suc (clock s)"] exI [of _ "[]"]) (auto simp: ask_def)
  then show "only_screen r s \<Longrightarrow> only_screen r (snd (ask s))"
    by (rule only_screen_step)
qed

lemma only_screen_rules:
  "(b \<Longrightarrow> only_screen r s) \<Longrightarrow> (\<not> b \<Longrightarrow> only_screen r t) \<Longrightarrow> only_screen r (if b then s else t)"
  "(b \<Longrightarrow> only_screen r (snd p)) \<Longrightarrow> (\<not> b \<Longrightarrow> only_screen r (snd q)) \<Longrightarrow>
    only_screen r (snd (if b then p else q))"
  "only_screen r s \<Longrightarrow> only_screen r (snd (n, s))"
  "only_screen r (snd p) \<Longrightarrow> (\<And>n t. only_screen r t \<Longrightarrow> only_screen r (f n t)) \<Longrightarrow>
    only_screen r (case p of (n, t) \<Rightarrow> f n t)"
  by (auto split: prod.split)

lemma only_screen_let:
  "only_screen r s \<Longrightarrow> (\<And>t. only_screen r t \<Longrightarrow> only_screen r (f t)) \<Longrightarrow> only_screen r (Let s f)"
  "(\<And>b. only_screen r (g b)) \<Longrightarrow> only_screen r (Let (x :: bool) g)"
  "(\<And>n. only_screen r (h n)) \<Longrightarrow> only_screen r (Let (i :: int) h)"
  "(\<And>cs. only_screen r (k cs)) \<Longrightarrow> only_screen r (Let (w :: zchar list) k)"
  by simp_all

lemma only_screen_parts [screen_steps]:
  "only_screen r s \<Longrightarrow> only_screen r (upd_win i g s)"
  "only_screen r s \<Longrightarrow> only_screen r (upd_cwin g s)"
  "only_screen r s \<Longrightarrow> only_screen r (update_cursor s)"
  "only_screen r s \<Longrightarrow> only_screen r (advance n s)"
  "only_screen r s \<Longrightarrow> only_screen r (countdown s)"
  "only_screen r s \<Longrightarrow> only_screen r (next_line s)"
  "only_screen r s \<Longrightarrow> only_screen r (count_line s)"
  unfolding countdown_def next_line_def count_line_def upd_cwin_def upd_win_def update_cursor_def advance_def Let_def
  by (intro only_screen_rules screen_steps; simp)+

lemma only_screen_new_line [screen_steps]: "only_screen r s \<Longrightarrow> only_screen r (screen_new_line s)"
  unfolding screen_new_line_def Let_def by (intro only_screen_rules screen_steps)

lemma only_screen_ask: "only_screen r s \<Longrightarrow> ask s = (n, t) \<Longrightarrow> only_screen r t"
  using only_screen_basic(3) [of r s] by simp

lemma only_screen_char [screen_steps]:
  assumes "only_screen r s"
  shows "only_screen r (screen_char c s)"
proof (cases "discarding (scr s)")
  case False
  obtain n t where t: "ask s = (n, t)"
    by fastforce
  have "only_screen r t"
    using assms t by (rule only_screen_ask)
  then show ?thesis
    using False t by (auto simp: screen_char_def Let_def intro!: screen_steps only_screen_rules)
qed (simp add: screen_char_def assms)

lemma only_screen_clip_word [screen_steps]: "only_screen r s \<Longrightarrow> only_screen r (clip_word cs s)"
proof (induction cs s rule: clip_word.induct)
  case (2 c cs s)
  then show ?case
    by (cases cs) (simp_all add: only_screen_char only_screen_basic)
qed simp

lemma only_screen_word [screen_steps]:
  assumes "only_screen r s"
  shows "only_screen r (screen_word cs s)"
proof (cases "discarding (scr s)")
  case False
  define indent where "indent \<longleftrightarrow> cs \<noteq> [] \<and> hd cs = ZC_INDENT \<and> x_cursor (cwindow s) \<noteq> w_left (cwindow s) + 1"
  define s1 where "s1 = (if indent then screen_char ZC_INDENT s else s)"
  define ds where "ds = (if indent then tl cs else cs)"
  define gap where "gap \<longleftrightarrow> ds \<noteq> [] \<and> (hd ds = CH_SPACE \<or> hd ds = ZC_INDENT \<or> hd ds = ZC_GAP)"
  obtain n s2 where s2: "ask s1 = (n, s2)"
    by fastforce
  obtain m s3 where s3: "(if gap then ask s2 else (n, s2)) = (m, s3)"
    by fastforce
  have "only_screen r s1"
    unfolding s1_def using assms by (intro only_screen_rules screen_steps)
  then have o2: "only_screen r s2"
    using s2 by (rule only_screen_ask)
  then have o3: "only_screen r s3"
    using s3 only_screen_ask by (auto split: if_splits)
  have "screen_word cs s =
    (if units_left s1 < n \<and> \<not> enable_wrapping (scr s2) then clip_word ds s2
     else if units_left s1 < n then
       advance m (log_event (Os_display_string (if gap then tl ds else ds)) (screen_new_line s3))
     else advance n (log_event (Os_display_string ds) s2))"
    using False s2 s3 by (simp add: screen_word_def Let_def s1_def ds_def indent_def gap_def cong: if_cong)
  then show ?thesis
    using o2 o3 by (auto intro!: screen_steps)
qed (simp add: screen_word_def assms)

lemma only_screen_mssg_on [screen_steps]: "only_screen r s \<Longrightarrow> only_screen r (screen_mssg_on s)"
  unfolding screen_mssg_on_def Let_def by (intro only_screen_rules screen_steps; simp)

text \<open>What else of the output state stays, for the functions that print.\<close>

lemma only_screen_fields:
  assumes "only_screen s t"
  shows "tbuf (out t) = tbuf (out s)" "bufpos (out t) = bufpos (out s)" "prev_c (out t) = prev_c (out s)"
    "pc_flag (out t) = pc_flag (out s)" "locked (out t) = locked (out s)" "message (out t) = message (out s)"
    "ostream_screen (out t) = ostream_screen (out s)" "ostream_script (out t) = ostream_script (out s)"
    "ostream_memory (out t) = ostream_memory (out s)" "enable_scripting (out t) = enable_scripting (out s)"
    "enable_buffering (out t) = enable_buffering (out s)" "error_count (out t) = error_count (out s)"
    "f_setup t = f_setup s"
    "concat (map event_text (io_log (out t))) = concat (map event_text (io_log (out s)))"
  using assms by (auto simp: only_screen_def)

lemmas screen_fields [simp] =
  only_screen_fields [OF only_screen_word [OF only_screen_refl]]
  only_screen_fields [OF only_screen_new_line [OF only_screen_refl]]
  only_screen_fields [OF only_screen_char [OF only_screen_refl]]

subsection \<open>Output leaves the game alone\<close>

text \<open>
  The part of the state that no output function changes: everything but the output state itself, the
  windows, the files, the clock of outside answers, the memory, and the two header fields \<open>h_flags\<close> and \<open>h_line_width\<close>.
\<close>

definition core :: "zstate \<Rightarrow> zstate" where
  "core s = s\<lparr>out := initial_out, dev := initial_dev, scr := initial_scr, clock := 0, zmp := (\<lambda>a. 0),
     hdr := (hdr s)\<lparr>h_flags := 0, h_line_width := 0\<rparr>\<rparr>"

lemma core_upd [simp]:
  "core (upd_out f s) = core s"
  "core (log_event e s) = core s"
  "core (upd_hdr (\<lambda>t. t\<lparr>h_flags := k t\<rparr>) s) = core s"
  "core (upd_hdr (\<lambda>t. t\<lparr>h_line_width := l t\<rparr>) s) = core s"
  "core (s\<lparr>zmp := m\<rparr>) = core s"
  "core (s\<lparr>clock := n\<rparr>) = core s"
  "core (upd_dev d s) = core s"
  "core (upd_scr w s) = core s"
  by (simp_all add: core_def upd_dev_def upd_out_def upd_scr_def log_event_def upd_hdr_def)

lemma core_only_screen: "only_screen s t \<Longrightarrow> core t = core s"
  by (auto simp: only_screen_def core_def)

lemmas core_screen [simp] =
  only_screen_char [OF only_screen_refl, THEN core_only_screen]
  only_screen_word [OF only_screen_refl, THEN core_only_screen]
  only_screen_new_line [OF only_screen_refl, THEN core_only_screen]
  only_screen_mssg_on [OF only_screen_refl, THEN core_only_screen]

lemma core_if [simp]: "core (if b then s else t) = (if b then core s else core t)"
  by simp

lemma core_ask [simp]: "ask s = (a, t) \<Longrightarrow> core t = core s"
  by (auto simp: ask_def)

lemma core_sel [simp]:
  "pcp (core s) = pcp s" "stack (core s) = stack s" "sp (core s) = sp s" "fp (core s) = fp s"
  "frame_count (core s) = frame_count s" "zargs (core s) = zargs s" "zargc (core s) = zargc s"
  "finished (core s) = finished s" "f_setup (core s) = f_setup s" "rnd (core s) = rnd s"
  "undo (core s) = undo s" "story_size (core s) = story_size s"
  "story_file (core s) = story_file s" "story_len (core s) = story_len s"
  "version (core s) = version s" "story_id (core s) = story_id s"
  "h_dynamic_size (hdr (core s)) = h_dynamic_size (hdr s)"
  "h_globals (hdr (core s)) = h_globals (hdr s)"
  by (simp_all add: core_def)

lemma core_eq_parts:
  assumes "core s = core t"
  shows "pcp s = pcp t" "stack s = stack t" "sp s = sp t" "fp s = fp t"
    "frame_count s = frame_count t" "zargs s = zargs t" "zargc s = zargc t"
    "finished s = finished t" "f_setup s = f_setup t" "rnd s = rnd t" "undo s = undo t"
    "story_size s = story_size t" "story_file s = story_file t" "version s = version t"
    "story_id s = story_id t"
  using assms by (metis core_sel)+

abbreviation quiet :: "zstate \<Rightarrow> zstate res \<Rightarrow> bool" where
  "quiet \<equiv> keeps core"

abbreviation quiet2 :: "zstate \<Rightarrow> ('a \<times> zstate) res \<Rightarrow> bool" where
  "quiet2 \<equiv> keeps2 core"

text \<open>The basic operations, with the hypothesis that the rules for sequencing supply.\<close>

lemma quiet_basic [quiet_rules]:
  "core s = c \<Longrightarrow> quiet c (set_byte a v s)"
  "core s = c \<Longrightarrow> quiet c (set_word a w s)"
  "core s = c \<Longrightarrow> quiet c (buf_set i x s)"
  "core s = c \<Longrightarrow> quiet c (redirect_upd g s)"
  by (auto simp: keeps_def set_word_def set_byte_def buf_set_def redirect_upd_def
      redirect_get_def)

lemma script_putc_core [simp]: "core (script_putc x s) = core s"
  by (simp add: script_putc_def)

lemma script_char_core [simp]: "core (script_char x s) = core s"
  by (simp add: script_char_def Let_def)

lemma stream_char_core [simp]: "core (stream_char x s) = core s"
  by (simp add: stream_char_def Let_def)

lemma redir_read:
  fixes m :: "redir res"
  shows "(\<And>x. keeps q d (f x)) \<Longrightarrow> keeps q d (andthen m f)"
    and "(\<And>x. keeps2 q d (g x)) \<Longrightarrow> keeps2 q d (andthen m g)"
  by (simp_all add: keeps_read_any)

lemmas quiet_intros = keeps_if keeps_andthen [where p = core and q = core] keeps_read redir_read

lemma quiet_script_close [quiet_rules]: "core s = c \<Longrightarrow> quiet c (script_close s)"
  unfolding script_close_def Let_def
  by (auto intro!: quiet_intros quiet_rules)

lemma quiet_script_new_line [quiet_rules]: "core s = c \<Longrightarrow> quiet c (script_new_line s)"
  unfolding script_new_line_def
  by (auto intro!: quiet_intros quiet_rules split: prod.split)

lemma quiet_script_write [quiet_rules]: "core s = c \<Longrightarrow> quiet c (script_write i s)"
proof (induction i s rule: script_write.induct)
  case (1 i s)
  then show ?case
    by (subst script_write.simps) (auto simp: buf_at_def)
qed

lemma quiet_script_word [quiet_rules]: "core s = c \<Longrightarrow> quiet c (script_word s)"
  unfolding script_word_def Let_def
  by (auto intro!: quiet_intros quiet_rules)

lemma quiet_script_mssg [quiet_rules]:
  "core s = c \<Longrightarrow> quiet c (script_mssg_on s)"
  "core s = c \<Longrightarrow> quiet c (script_mssg_off s)"
  unfolding script_mssg_on_def script_mssg_off_def
  by (auto intro!: quiet_intros quiet_rules)

text \<open>
  The functions that call \<open>runtime_error\<close> and \<open>storeb\<close>: they are silent when these two are.
\<close>

locale silent_handler =
  fixes h :: handler
  assumes silent: "quiet (core s) (h call s)"
begin

lemma quiet_h [quiet_rules]: "core s = c \<Longrightarrow> quiet c (h call s)"
  using silent by blast

lemma quiet_storew_h [quiet_rules]: "core s = c \<Longrightarrow> quiet c (storew_h h a v s)"
  unfolding storew_h_def by (auto intro!: quiet_intros quiet_rules)

lemma quiet_memory_new_line [quiet_rules]: "core s = c \<Longrightarrow> quiet c (memory_new_line_h h s)"
  unfolding memory_new_line_h_def Let_def by (auto intro!: quiet_intros quiet_rules)

lemma quiet_memory_copy_aux:
  "h' = h \<Longrightarrow> core s = c \<Longrightarrow> quiet2 c (memory_copy_h h' i a n s)"
proof (induction h' i a n s rule: memory_copy_h.induct)
  case (1 h' i a n s)
  then show ?case
    by (subst memory_copy_h.simps)
      (auto intro!: keeps_step(2) [where p = core] keeps_read_step quiet_rules "1.IH")
qed

lemma quiet_memory_copy [quiet_rules]: "core s = c \<Longrightarrow> quiet2 c (memory_copy_h h i a n s)"
  by (simp add: quiet_memory_copy_aux)

lemma quiet_memory_word [quiet_rules]: "core s = c \<Longrightarrow> quiet c (memory_word_h h s)"
  unfolding memory_word_h_def Let_def
  by (auto intro!: keeps3_andthen(1,4) [where p = core and q = core] keeps3_andthen(5)
      keeps3_if quiet_intros quiet_rules split: prod.split if_splits)

lemma quiet_stream_word [quiet_rules]: "core s = c \<Longrightarrow> quiet c (stream_word_h h s)"
  unfolding stream_word_h_def Let_def by (auto intro!: quiet_intros quiet_rules)

lemma quiet_stream_new_line [quiet_rules]: "core s = c \<Longrightarrow> quiet c (stream_new_line_h h s)"
  unfolding stream_new_line_h_def Let_def by (auto intro!: quiet_intros quiet_rules)

lemma quiet_flush_buffer [quiet_rules]: "core s = c \<Longrightarrow> quiet c (flush_buffer_h h s)"
  unfolding flush_buffer_h_def by (auto intro!: quiet_intros quiet_rules)

lemma quiet_new_line [quiet_rules]: "core s = c \<Longrightarrow> quiet c (new_line_h h s)"
  unfolding new_line_h_def by (auto intro!: quiet_intros quiet_rules)

lemma quiet_buffer_put [quiet_rules]: "core s = c \<Longrightarrow> quiet c (buffer_put_h h x s)"
  unfolding buffer_put_h_def Let_def by (auto intro!: quiet_intros quiet_rules)

lemma quiet_print_char [quiet_rules]: "core s = c \<Longrightarrow> quiet c (print_char_h h x s)"
  unfolding print_char_h_def Let_def by (auto intro!: quiet_intros quiet_rules)

lemma quiet_print_string [quiet_rules]: "core s = c \<Longrightarrow> quiet c (print_string_h h xs s)"
  by (induction xs arbitrary: s) (auto intro!: quiet_intros quiet_rules)

lemma quiet_print_chars [quiet_rules]: "core s = c \<Longrightarrow> quiet c (print_chars_h h xs s)"
  by (induction xs arbitrary: s) (auto intro!: quiet_intros quiet_rules)

lemma quiet_print_long [quiet_rules]: "core s = c \<Longrightarrow> quiet c (print_long_h h v b s)"
  unfolding print_long_h_def by (rule quiet_print_chars)

lemma quiet_err_warning [quiet_rules]: "core s = c \<Longrightarrow> quiet c (err_warning_h h e s)"
  unfolding err_warning_h_def by (auto intro!: quiet_intros quiet_rules)

lemma quiet_runtime_error [quiet_rules]: "core s = c \<Longrightarrow> quiet c (runtime_error_h h e s)"
  unfolding runtime_error_h_def Let_def by (auto intro!: quiet_intros quiet_rules)

lemma quiet_refresh_text_style [quiet_rules]:
  "core s = c \<Longrightarrow> quiet c (refresh_text_style_h h s)"
  unfolding refresh_text_style_h_def Let_def by (auto intro!: quiet_intros quiet_rules)

lemma quiet_script_open [quiet_rules]: "core s = c \<Longrightarrow> quiet c (script_open_h h s)"
  unfolding script_open_h_def Let_def
  by (auto intro!: quiet_intros quiet_rules split: prod.split if_splits)

lemma quiet_storeb [quiet_rules]: "core s = c \<Longrightarrow> quiet c (storeb_h h a v s)"
  unfolding storeb_h_def Let_def by (auto intro!: quiet_intros quiet_rules)

end

text \<open>Every level of nesting is silent, hence also the functions of the program.\<close>

lemma silent_out_call_n: "silent_handler (out_call_n n)"
proof (induction n)
  case 0
  show ?case by unfold_locales simp
next
  case (Suc n)
  note silent_handler.quiet_runtime_error [OF Suc.IH] silent_handler.quiet_storeb [OF Suc.IH]
  then show ?case
    by unfold_locales (auto split: out_call.split)
qed

interpretation levels: silent_handler "out_call_n n" for n
  by (rule silent_out_call_n)

interpretation out_io: silent_handler out_call
  unfolding out_call_def by (rule silent_out_call_n)

lemma quiet_output [quiet_rules]:
  "core s = c \<Longrightarrow> quiet c (runtime_error e s)"
  "core s = c \<Longrightarrow> quiet c (storeb a v s)"
  "core s = c \<Longrightarrow> quiet c (storew a w s)"
  "core s = c \<Longrightarrow> quiet c (flush_buffer s)"
  "core s = c \<Longrightarrow> quiet c (new_line s)"
  "core s = c \<Longrightarrow> quiet c (print_char x s)"
  "core s = c \<Longrightarrow> quiet c (print_string xs s)"
  by (simp_all add: runtime_error_def storeb_def storew_def flush_buffer_def new_line_def
      print_char_def print_string_def out_io.quiet_h out_io.quiet_storew_h
      out_io.quiet_flush_buffer out_io.quiet_new_line out_io.quiet_print_char
      out_io.quiet_print_string)

lemma quiet_get_max_width [quiet_rules]: "core s = c \<Longrightarrow> quiet2 c (get_max_width w s)"
  unfolding get_max_width_def Let_def
  by (auto intro!: keeps_step(2) [where p = core] quiet_intros quiet_rules)

lemma quiet_screen_mssg_off [quiet_rules]: "core s = c \<Longrightarrow> quiet c (screen_mssg_off s)"
  unfolding screen_mssg_off_def by (auto intro!: quiet_intros out_io.quiet_refresh_text_style)

lemma quiet_streams [quiet_rules]:
  "core s = c \<Longrightarrow> quiet c (memory_open tab xs b s)"
  "core s = c \<Longrightarrow> quiet c (memory_close s)"
  "core s = c \<Longrightarrow> quiet c (stream_mssg_on s)"
  "core s = c \<Longrightarrow> quiet c (stream_mssg_off s)"
  "core s = c \<Longrightarrow> quiet c (record_open s)"
  unfolding memory_open_def memory_close_def stream_mssg_on_def stream_mssg_off_def
    record_open_def Let_def
  by (auto intro!: quiet_intros quiet_rules split: prod.splits if_splits)

lemma quiet_z_output_stream [quiet_rules]: "core s = c \<Longrightarrow> quiet c (z_output_stream s)"
  unfolding z_output_stream_def record_close_def Let_def
  by (auto intro!: quiet_intros quiet_rules)

text \<open>
  Printing, reporting an error and writing to memory leave the program counter, the stack, the
  operands, the undo list and all other game state as they were.
\<close>

theorem output_leaves_game:
  "post (print_string cs s) (\<lambda>s'. core s' = core s) \<and>
   post (runtime_error e s) (\<lambda>s'. core s' = core s) \<and>
   post (storeb a v s) (\<lambda>s'. core s' = core s) \<and>
   post (z_output_stream s) (\<lambda>s'. core s' = core s)"
  by (simp flip: keeps_def add: quiet_output quiet_z_output_stream)

subsection \<open>Fatal errors\<close>

lemma runtime_error_fatal:
  "err_fatal e s \<Longrightarrow> 0 < e \<Longrightarrow> e \<le> ERR_NUM_ERRORS \<Longrightarrow> \<not> returns (runtime_error e s) P"
  by (simp add: runtime_error_def out_call_inner runtime_error_h_def returns_def andthen_eq_Ok)

lemma post_runtime_error_fatal:
  "err_fatal e s \<Longrightarrow> 0 < e \<Longrightarrow> e \<le> ERR_NUM_ERRORS \<Longrightarrow> post (runtime_error e s) P"
  using runtime_error_fatal [of e s] by (auto simp: post_def returns_def)

text \<open>
  An error ends the program when it is fatal; one that is not fatal and not to be reported only
  counts, and a number out of range does nothing.
\<close>

theorem runtime_error_outcome:
  "(err_fatal e s \<and> 0 < e \<and> e \<le> ERR_NUM_ERRORS \<longrightarrow> \<not> returns (runtime_error e s) P) \<and>
   (e \<le> 0 \<or> e > ERR_NUM_ERRORS \<longrightarrow> runtime_error e s = Ok s) \<and>
   (\<not> err_fatal e s \<and> 0 < e \<and> e \<le> ERR_NUM_ERRORS \<and>
      (err_report_mode (f_setup s) = ERR_REPORT_NEVER \<or>
       err_report_mode (f_setup s) = ERR_REPORT_ONCE \<and> error_count (out s) (e - 1) \<noteq> 0) \<longrightarrow>
    runtime_error e s = Ok (upd_out (\<lambda>t. t\<lparr>error_count :=
      (error_count t)(e - 1 := error_count t (e - 1) + 1)\<rparr>) s))"
  using runtime_error_fatal [of e s P]
  by (auto simp: runtime_error_def out_call_inner runtime_error_h_def Let_def)

theorem runtime_error_outcome_witness:
  "\<not> returns (runtime_error ERR_DIV_ZERO (small_machine 5 [])) (\<lambda>s. True)"
proof -
  have "err_fatal ERR_DIV_ZERO (small_machine 5 [])"
    by (simp add: err_fatal_def small_machine_def initial_state_def default_setup_def)
  then show ?thesis
    using runtime_error_outcome [of ERR_DIV_ZERO "small_machine 5 []" "\<lambda>s. True"] by simp
qed

text \<open>With the default options the errors up to number 18 are fatal.\<close>

lemma default_fatal:
  "\<not> ignore_errors (f_setup s) \<Longrightarrow> e \<le> ERR_MAX_FATAL \<Longrightarrow> err_fatal e s"
  by (simp add: err_fatal_def)

subsection \<open>Writes to dynamic memory\<close>

text \<open>An address that \<open>storeb\<close> writes without any further effect.\<close>

definition plain :: "zword \<Rightarrow> zstate \<Rightarrow> bool" where
  "plain addr s \<longleftrightarrow> addr < h_dynamic_size (hdr s) \<and> addr \<noteq> 17"

lemma storeb_plain [simp]:
  assumes "plain addr s"
  shows "storeb addr v s = set_byte (uint addr) v s"
proof -
  have "uint addr \<noteq> 17"
    using assms by (metis plain_def word_of_int_numeral word_of_int_uint)
  moreover have "\<not> h_dynamic_size (hdr s) \<le> addr"
    using assms by (simp add: plain_def not_le)
  ultimately show ?thesis
    by (simp add: storeb_def out_call_inner storeb_h_def)
qed

subsection \<open>The text buffer\<close>

text \<open>
  The text that has reached the screen followed by the text still in the buffer.
\<close>

definition shown :: "zstate \<Rightarrow> zchar list" where
  "shown s = concat (map event_text (io_log (out s))) @ buffer_text s"

text \<open>
  Buffered output to the screen only: no redirection to memory, no transcript, no flush under way.
\<close>

definition buffered :: "zstate \<Rightarrow> bool" where
  "buffered s \<longleftrightarrow>
     ostream_screen (out s) \<and> \<not> ostream_memory (out s) \<and> \<not> to_script s \<and> \<not> locked (out s) \<and>
     enable_buffering (out s) \<and> 0 \<le> bufpos (out s) \<and> bufpos (out s) \<le> TEXT_BUFFER_SIZE"

lemma upto_snoc: "0 \<le> n \<Longrightarrow> [0..n] = [0..n - 1] @ [n]"
  by (simp add: upto_rec2)

lemma buffer_text_put:
  "0 \<le> bufpos (out s) \<Longrightarrow>
    buffer_text (upd_out (\<lambda>t. t\<lparr>bufpos := bufpos t + 1\<rparr>)
      (upd_out (\<lambda>t. t\<lparr>tbuf := (tbuf t)(bufpos t := c)\<rparr>) s)) = buffer_text s @ [c]"
  by (simp add: buffer_text_def upd_out_def upto_snoc)

text \<open>A flush hands the text to the screen; with a full buffer it writes beyond its end.\<close>

lemma flush_buffered:
  assumes "buffered s"
  shows "post (flush_buffer_h h s)
    (\<lambda>s'. buffered s' \<and> shown s' = shown s \<and> bufpos (out s') = 0 \<and>
      f_setup s' = f_setup s \<and> pc_flag (out s') = pc_flag (out s))"
proof (cases "bufpos (out s) = 0")
  case True
  with assms show ?thesis
    by (simp add: flush_buffer_h_def)
next
  case False
  then have "[0..bufpos (out s) - 1] \<noteq> []"
    using assms by (simp add: buffered_def)
  with False assms show ?thesis
    by (auto simp: flush_buffer_h_def buf_set_def stream_word_h_def buffered_def to_script_def
        upd_out_def log_event_def shown_def buffer_text_def post_def)
qed

lemma flush_full:
  "buffered s \<Longrightarrow> bufpos (out s) = TEXT_BUFFER_SIZE \<Longrightarrow> flush_buffer_h h s = Stop (Bad_buffer 200)"
  by (simp add: flush_buffer_h_def buffered_def buf_set_def)

text \<open>With a full buffer nothing can be printed any more, a warning neither.\<close>

lemma print_char_full:
  "buffered s \<Longrightarrow> bufpos (out s) = TEXT_BUFFER_SIZE \<Longrightarrow> c \<noteq> 0 \<Longrightarrow> post (print_char_h h c s) P"
  using flush_full [of s h]
  by (auto simp: print_char_h_def buffered_def new_line_h_def buffer_put_h_def buf_set_def
      upd_out_def)

lemma err_warning_full:
  "buffered s \<Longrightarrow> bufpos (out s) = TEXT_BUFFER_SIZE \<Longrightarrow> post (err_warning_h h e s) P"
  unfolding err_warning_h_def
  by (simp add: zs_def) (auto intro!: print_char_full)

lemma buffered_upd [simp]:
  "buffered (upd_out (\<lambda>t. t\<lparr>error_count := f t\<rparr>) s) = buffered s"
  "buffered (upd_out (\<lambda>t. t\<lparr>pc_flag := b t, prev_c := p t\<rparr>) s) = buffered s"
  "buffered (upd_out (\<lambda>t. t\<lparr>pc_flag := b t\<rparr>) s) = buffered s"
  "buffered (upd_out (prev_c_update k) s) = buffered s"
  "shown (upd_out (prev_c_update k) s) = shown s"
  "shown (upd_out (\<lambda>t. t\<lparr>error_count := f t\<rparr>) s) = shown s"
  "shown (upd_out (\<lambda>t. t\<lparr>pc_flag := b t, prev_c := p t\<rparr>) s) = shown s"
  "shown (upd_out (\<lambda>t. t\<lparr>pc_flag := b t\<rparr>) s) = shown s"
  by (auto simp: buffered_def shown_def upd_out_def to_script_def buffer_text_def)

lemma runtime_error_full:
  assumes "buffered s" and "bufpos (out s) = TEXT_BUFFER_SIZE"
  shows "post (runtime_error_h h e s) (\<lambda>s'. buffered s' \<and> shown s' = shown s)"
proof -
  let ?t = "upd_out (\<lambda>t. t\<lparr>error_count :=
    (error_count t)(e - 1 := error_count t (e - 1) + 1)\<rparr>) s"
  have "bufpos (out ?t) = TEXT_BUFFER_SIZE"
    using assms by (simp add: upd_out_def)
  then have "post (err_warning_h h e ?t) P" for P
    using assms err_warning_full by simp
  then show ?thesis
    using assms by (simp add: runtime_error_h_def Let_def flush_full)
qed

lemma buffer_put:
  assumes "buffered s"
  shows "post (buffer_put_h (\<lambda>c s. case c of Runtime_error e \<Rightarrow> runtime_error_h h e s | Storeb a v \<Rightarrow> g a v s)
      c s) (\<lambda>s'. buffered s' \<and> shown s' = shown s @ [c])"
proof -
  let ?t = "upd_out (\<lambda>t. t\<lparr>bufpos := bufpos t + 1\<rparr>)
      (upd_out (\<lambda>t. t\<lparr>tbuf := (tbuf t)(bufpos t := c)\<rparr>) s)"
  { assume "bufpos (out s) < TEXT_BUFFER_SIZE"
    then have ok: "buffered ?t" "shown ?t = shown s @ [c]"
      using assms buffer_text_put [of s c]
      by (auto simp: buffered_def shown_def upd_out_def to_script_def)
    with runtime_error_full [of ?t h ERR_TEXT_BUF_OVF]
    have "bufpos (out ?t) = TEXT_BUFFER_SIZE \<Longrightarrow>
        post (runtime_error_h h ERR_TEXT_BUF_OVF ?t) (\<lambda>s'. buffered s' \<and> shown s' = shown s @ [c])"
      by simp
    note ok this }
  moreover have "bufpos (out ?t) = bufpos (out s) + 1"
    by (simp add: upd_out_def)
  ultimately show ?thesis
    using assms by (auto simp: buffer_put_h_def buf_set_def Let_def buffered_def upd_out_def)
qed

lemma out_call_eq:
  "out_call = (\<lambda>c s. case c of Runtime_error e \<Rightarrow> runtime_error_h inner_call e s
     | Storeb a v \<Rightarrow> storeb_h inner_call a v s)"
  by (intro ext) (simp add: out_call_inner split: out_call.split)

lemma buffer_put_out:
  "buffered s \<Longrightarrow> post (buffer_put_h out_call c s) (\<lambda>s'. buffered s' \<and> shown s' = shown s @ [c])"
  unfolding out_call_eq by (rule buffer_put)

lemma new_line_buffered:
  assumes "buffered s"
  shows "post (new_line s) (\<lambda>s'. buffered s' \<and> shown s' = shown s @ [ZC_RETURN])"
proof -
  have line: "post (stream_new_line_h out_call t) (\<lambda>s'. buffered s' \<and> shown s' = shown t @ [ZC_RETURN])"
    if "buffered t" "bufpos (out t) = 0" for t
    using that
    by (auto simp: stream_new_line_h_def buffered_def to_script_def shown_def buffer_text_def
        log_event_def upd_out_def)
  show ?thesis
    unfolding new_line_def new_line_h_def post_andthen
  proof (rule post_mono [OF flush_buffered [OF assms]])
    fix t
    assume "buffered t \<and> shown t = shown s \<and> bufpos (out t) = 0 \<and> f_setup t = f_setup s \<and>
      pc_flag (out t) = pc_flag (out s)"
    then show "post (stream_new_line_h out_call t)
        (\<lambda>s'. buffered s' \<and> shown s' = shown s @ [ZC_RETURN])"
      using line [of t] by simp
  qed
qed

lemma print_char_buffered:
  assumes "buffered s" and "c \<noteq> 0"
  shows "post (print_char c s) (\<lambda>s'. buffered s' \<and> shown s' = shown s @ [c])"
proof -
  have put: "post (buffer_put_h out_call x t) (\<lambda>s'. buffered s' \<and> shown s' = shown s @ [x])"
    if "buffered t" "shown t = shown s" for t x
    using buffer_put_out [OF that(1), of x] that(2) by simp
  have flush: "post (flush_buffer_h out_call s) (\<lambda>t. buffered t \<and> shown t = shown s)"
    by (rule post_mono [OF flush_buffered [OF assms(1)]]) simp
  show ?thesis
    using assms new_line_buffered [OF assms(1)]
    unfolding print_char_def print_char_h_def new_line_def
    by (auto simp: buffered_def [of s] post_andthen intro!: put post_mono [OF flush])
qed

lemma print_string_buffered:
  assumes "buffered s" and "0 \<notin> set cs"
  shows "post (print_string cs s) (\<lambda>s'. buffered s' \<and>
    shown s' = shown s @ map (\<lambda>c. if c = CH_NEWLINE then ZC_RETURN else c) cs)"
  using assms unfolding print_string_def
proof (induction cs arbitrary: s)
  case Nil
  then show ?case by simp
next
  case (Cons c cs)
  let ?c = "if c = CH_NEWLINE then ZC_RETURN else c"
  have "post (if c = CH_NEWLINE then new_line_h out_call s else print_char_h out_call c s)
      (\<lambda>s'. buffered s' \<and> shown s' = shown s @ [?c])"
    using Cons.prems new_line_buffered [of s] print_char_buffered [of s c]
    by (simp add: new_line_def print_char_def)
  then show ?case
    unfolding print_string_h.simps post_andthen
  proof (rule post_mono)
    fix t
    assume "buffered t \<and> shown t = shown s @ [?c]"
    then show "post (print_string_h out_call cs t) (\<lambda>s'. buffered s' \<and>
        shown s' = shown s @ map (\<lambda>c. if c = CH_NEWLINE then ZC_RETURN else c) (c # cs))"
      using Cons.IH [of t] Cons.prems(2) by simp
  qed
qed

text \<open>A machine that prints to the buffer, holding \<open>n\<close> characters.\<close>

definition printing_machine :: "int \<Rightarrow> zstate" where
  "printing_machine n =
     upd_out (\<lambda>t. t\<lparr>enable_buffering := True, bufpos := n\<rparr>) (small_machine 5 [])"

lemma printing_machine_buffered: "0 \<le> n \<Longrightarrow> n \<le> 200 \<Longrightarrow> buffered (printing_machine n)"
  by (simp add: printing_machine_def buffered_def upd_out_def to_script_def small_machine_def
      initial_state_def initial_out_def)

lemma printing_machine_bufpos: "bufpos (out (printing_machine n)) = n"
  by (simp add: printing_machine_def upd_out_def)

lemma zs_no_zero: "0 \<notin> set (zs ''well-known'')"
  by (simp add: zs_def)

text \<open>Printing does return while the buffer has room.\<close>

lemma returns_mono: "returns m P \<Longrightarrow> (\<And>x. P x \<Longrightarrow> Q x) \<Longrightarrow> returns m Q"
  by (auto simp: returns_def)

lemma returns_post: "returns m P \<Longrightarrow> post m Q \<Longrightarrow> returns m (\<lambda>x. P x \<and> Q x)"
  by (auto simp: returns_def post_def)

lemma flush_returns:
  assumes "buffered s" and "bufpos (out s) < TEXT_BUFFER_SIZE"
  shows "returns (flush_buffer_h h s) (\<lambda>t. bufpos (out t) = 0 \<and> buffered t)"
proof -
  have "returns (flush_buffer_h h s) (\<lambda>t. True)"
    using assms
    by (auto simp: flush_buffer_h_def buf_set_def stream_word_h_def buffered_def to_script_def
        upd_out_def log_event_def Let_def)
  from returns_post [OF this flush_buffered [OF assms(1), of h]] show ?thesis
    by (rule returns_mono) simp
qed

lemma new_line_returns:
  "buffered s \<Longrightarrow> bufpos (out s) < TEXT_BUFFER_SIZE \<Longrightarrow>
    returns (new_line s) (\<lambda>t. bufpos (out t) = 0)"
  unfolding new_line_def new_line_h_def returns_andthen
  by (rule returns_mono [OF flush_returns])
    (auto simp: stream_new_line_h_def buffered_def to_script_def log_event_def upd_out_def)

text \<open>
  A buffer that has been filled to its end is flushed by writing one place beyond it: neither
  the flush nor a fatal error returns.
\<close>

theorem flush_full_buffer_overflows:
  assumes "buffered s" and "bufpos (out s) = TEXT_BUFFER_SIZE"
  shows "flush_buffer s = Stop (Bad_buffer TEXT_BUFFER_SIZE)"
  using flush_full [OF assms] by (simp add: flush_buffer_def)

theorem flush_full_buffer_overflows_witness:
  "flush_buffer (printing_machine 200) = Stop (Bad_buffer 200)"
  by (rule flush_full_buffer_overflows) (simp_all add: printing_machine_buffered printing_machine_bufpos)

end
