(* ===== verification/Print_Correct.thy ===== *)
theory Print_Correct
  imports Output_Correct
begin

text \<open>
  Printing through the text buffer of buffer.c as a whole: text whose words fit the buffer is printed, none of it is lost, and no
  newline routine is called, provided that none is pending. (The model does not run newline routines.)
\<close>

subsection \<open>No newline interrupt\<close>

definition no_interrupt :: "zstate \<Rightarrow> bool" where
  "no_interrupt s \<longleftrightarrow> nl_countdown (cwindow s) = 0"

text \<open>The current window waits for no newline, and the interrupts logged are \<open>es\<close>.\<close>

definition undisturbed :: "io_event list \<Rightarrow> zstate \<Rightarrow> bool" where
  "undisturbed es s \<longleftrightarrow> no_interrupt s \<and> interrupts s = es"

named_theorems undisturbed_rules "steps that call no newline routine"

lemma undisturbed_basic [undisturbed_rules]:
  "undisturbed es s \<Longrightarrow> (case e of Newline_interrupt r \<Rightarrow> False | _ \<Rightarrow> True) \<Longrightarrow> undisturbed es (log_event e s)"
  "undisturbed es s \<Longrightarrow> undisturbed es (snd (ask s))"
  "undisturbed es s \<Longrightarrow> undisturbed es (countdown s)"
  "undisturbed es s \<Longrightarrow> undisturbed es (update_cursor s)"
  "undisturbed es s \<Longrightarrow> undisturbed es (advance n s)"
  "undisturbed es s \<Longrightarrow> undisturbed es (s\<lparr>clock := k\<rparr>)"
  by (auto simp: undisturbed_def no_interrupt_def interrupts_def log_event_def upd_out_def ask_def countdown_def update_cursor_def
      advance_def upd_cwin_def upd_win_def upd_scr_def cwindow_def Let_def split: io_event.splits)

lemma undisturbed_cwin [undisturbed_rules]:
  "undisturbed es s \<Longrightarrow> (\<And>w. nl_countdown (g w) = nl_countdown w) \<Longrightarrow> undisturbed es (upd_cwin g s)"
  by (simp add: undisturbed_def no_interrupt_def interrupts_def upd_cwin_def upd_win_def upd_scr_def cwindow_def)

lemma undisturbed_flags [undisturbed_rules]:
  "undisturbed es s \<Longrightarrow> (\<And>c. wp (g c) = wp c \<and> cwp (g c) = cwp c) \<Longrightarrow> undisturbed es (upd_scr g s)"
  by (simp add: undisturbed_def no_interrupt_def interrupts_def upd_scr_def cwindow_def)

lemma undisturbed_ask: "undisturbed es s \<Longrightarrow> ask s = (n, t) \<Longrightarrow> undisturbed es t"
  using undisturbed_basic(2) [of es s] by simp

lemma undisturbed_if [undisturbed_rules]: "(b \<Longrightarrow> undisturbed es s) \<Longrightarrow> (\<not> b \<Longrightarrow> undisturbed es t) \<Longrightarrow> undisturbed es (if b then s else t)"
  by simp

lemma undisturbed_lines [undisturbed_rules]:
  "undisturbed es s \<Longrightarrow> undisturbed es (next_line s)" "undisturbed es s \<Longrightarrow> undisturbed es (count_line s)"
  unfolding next_line_def count_line_def Let_def by (intro undisturbed_rules; simp)+

lemma undisturbed_new_line [undisturbed_rules]: "undisturbed es s \<Longrightarrow> undisturbed es (screen_new_line s)"
  unfolding screen_new_line_def Let_def by (intro undisturbed_rules; simp)

lemma undisturbed_char [undisturbed_rules]:
  assumes "undisturbed es s"
  shows "undisturbed es (screen_char c s)"
proof (cases "discarding (scr s)")
  case False
  obtain n t where t: "ask s = (n, t)"
    by fastforce
  then show ?thesis
    using False undisturbed_ask [OF assms t] by (auto simp: screen_char_def Let_def intro!: undisturbed_rules)
qed (simp add: screen_char_def assms)

lemma undisturbed_clip_word [undisturbed_rules]: "undisturbed es s \<Longrightarrow> undisturbed es (clip_word cs s)"
proof (induction cs s rule: clip_word.induct)
  case (2 c cs s)
  then show ?case
    by (cases cs) (simp_all add: undisturbed_char undisturbed_basic)
qed simp

lemma undisturbed_word [undisturbed_rules]:
  assumes "undisturbed es s"
  shows "undisturbed es (screen_word cs s)"
proof (cases "discarding (scr s)")
  case False
  define indent where "indent \<longleftrightarrow> cs \<noteq> [] \<and> hd cs = ZC_INDENT \<and> x_cursor (cwindow s) \<noteq> w_left (cwindow s) + 1"
  define s1 where "s1 = (if indent then screen_char ZC_INDENT s else s)"
  define ds where "ds = (if indent then tl cs else cs)"
  define gap where "gap \<longleftrightarrow> ds \<noteq> [] \<and> (hd ds = CH_SPACE \<or> hd ds = ZC_INDENT \<or> hd ds = ZC_GAP)"
  obtain n s2 where s2: "ask s1 = (n, s2)"
    by fastforce
  obtain m s3 where s3: "(if gap then ask s2 else (n, s2)) = (m, s3)"
    by fastforce
  have "undisturbed es s1"
    unfolding s1_def using assms by (intro undisturbed_rules)
  then have c2: "undisturbed es s2"
    using s2 by (rule undisturbed_ask)
  then have c3: "undisturbed es s3"
    using s3 undisturbed_ask by (auto split: if_splits)
  have "screen_word cs s =
    (if units_left s1 < n \<and> \<not> enable_wrapping (scr s2) then clip_word ds s2
     else if units_left s1 < n then
       advance m (log_event (Os_display_string (if gap then tl ds else ds)) (screen_new_line s3))
     else advance n (log_event (Os_display_string ds) s2))"
    using False s2 s3 by (simp add: screen_word_def Let_def s1_def ds_def indent_def gap_def cong: if_cong)
  then show ?thesis
    using c2 c3 by (auto intro!: undisturbed_rules)
qed (simp add: screen_word_def assms)

subsection \<open>Text that fits\<close>

text \<open>
  The buffer fills up with the characters of a word; a new line empties it, a blank starts it again. \<open>n\<close> bounds the characters
  in the buffer, \<open>arg\<close> says that the next character is the argument of a change of font or style.
\<close>

fun fits :: "int \<Rightarrow> bool \<Rightarrow> zchar list \<Rightarrow> bool" where
  "fits n arg [] = True"
| "fits n arg (c # cs) =
     (if c = CH_NEWLINE then fits 0 arg cs
      else if arg then n + 1 < TEXT_BUFFER_SIZE \<and> fits (n + 1) False cs
      else if c = ZC_RETURN then fits 0 False cs
      else if c = CH_SPACE \<or> c = ZC_INDENT \<or> c = ZC_GAP then fits 1 False cs
      else n + 1 < TEXT_BUFFER_SIZE \<and> fits (n + 1) (c = ZC_NEW_FONT \<or> c = ZC_NEW_STYLE) cs)"

text \<open>What is true before and after every character of such a text.\<close>

definition printing :: "io_event list \<Rightarrow> int \<Rightarrow> bool \<Rightarrow> zstate \<Rightarrow> bool" where
  "printing es n arg s \<longleftrightarrow>
     buffered s \<and> undisturbed es s \<and> pc_flag (out s) = arg \<and> bufpos (out s) \<le> n \<and> n < TEXT_BUFFER_SIZE"

lemma undisturbed_fields:
  "undisturbed es (upd_out (\<lambda>t. t\<lparr>pc_flag := b t, prev_c := p t\<rparr>) s) = undisturbed es s"
  "undisturbed es (upd_out (\<lambda>t. t\<lparr>pc_flag := b t\<rparr>) s) = undisturbed es s"
  "undisturbed es (upd_out (\<lambda>t. t\<lparr>bufpos := i t\<rparr>) s) = undisturbed es s"
  "undisturbed es (upd_out (\<lambda>t. t\<lparr>tbuf := f t\<rparr>) s) = undisturbed es s"
  "undisturbed es (upd_out (\<lambda>t. t\<lparr>locked := b t\<rparr>) s) = undisturbed es s"
  "undisturbed es (upd_out (\<lambda>t. t\<lparr>locked := b t, bufpos := i t, prev_c := p t\<rparr>) s) = undisturbed es s"
  by (simp_all add: undisturbed_def no_interrupt_def interrupts_def upd_out_def cwindow_def)

lemma flush_printing:
  assumes "printing es n arg s"
  shows "returns (flush_buffer_h h s) (\<lambda>t. printing es 0 arg t \<and> shown t = shown s)"
proof -
  have s: "buffered s" "undisturbed es s" "bufpos (out s) < TEXT_BUFFER_SIZE"
    using assms by (auto simp: printing_def)
  have "returns (flush_buffer_h h s) (undisturbed es)"
  proof (cases "bufpos (out s) = 0")
    case True
    then show ?thesis
      using s(2) by (simp add: flush_buffer_h_def)
  next
    case False
    define t where "t = upd_out (\<lambda>t. t\<lparr>locked := True\<rparr>) (upd_out (\<lambda>t. t\<lparr>tbuf := (tbuf t)(bufpos (out s) := 0)\<rparr>) s)"
    have t: "undisturbed es t" "ostream_screen (out t)" "\<not> ostream_memory (out t)" "\<not> to_script t"
      using s by (simp_all add: t_def undisturbed_fields) (simp_all add: buffered_def upd_out_def to_script_def)
    have "undisturbed es (screen_word (buffer_text t) (log_event (Screen_word (buffer_text t)) t))"
      using t(1) by (intro undisturbed_rules) simp_all
    moreover have "\<not> to_script (screen_word (buffer_text t) (log_event (Screen_word (buffer_text t)) t))"
      using t(4) by (simp add: to_script_def log_event_def upd_out_def)
    ultimately have "returns (stream_word_h h t) (undisturbed es)"
      using t by (simp add: stream_word_h_def)
    then show ?thesis
      using False s by (auto simp: flush_buffer_h_def buf_set_def buffered_def t_def returns_andthen undisturbed_fields elim: returns_mono)
  qed
  from returns_post [OF this flush_buffered [OF s(1)]] show ?thesis
    by (rule returns_mono) (use assms in \<open>auto simp: printing_def\<close>)
qed

lemma new_line_printing:
  assumes "printing es n arg s"
  shows "returns (new_line_h out_call s) (\<lambda>t. printing es 0 arg t \<and> shown t = shown s @ [ZC_RETURN])"
proof -
  have "returns (stream_new_line_h out_call t) (\<lambda>u. printing es 0 arg u)" if t: "printing es 0 arg t" for t
  proof -
    have "undisturbed es (screen_new_line (log_event Screen_new_line t))"
      using t by (intro undisturbed_rules) (simp_all add: printing_def)
    then show ?thesis
      using t by (auto simp: stream_new_line_h_def printing_def buffered_def to_script_def log_event_def upd_out_def)
  qed
  then have "returns (new_line_h out_call s) (printing es 0 arg)"
    unfolding new_line_h_def returns_andthen by (auto intro: returns_mono [OF flush_printing [OF assms]])
  moreover have "post (new_line_h out_call s) (\<lambda>t. buffered t \<and> shown t = shown s @ [ZC_RETURN])"
    using new_line_buffered [of s] assms by (simp add: new_line_def printing_def)
  ultimately show ?thesis
    by (rule returns_mono [OF returns_post]) simp
qed

lemma put_printing:
  assumes "printing es n arg s" "n + 1 < TEXT_BUFFER_SIZE"
  shows "returns (buffer_put_h out_call c s) (\<lambda>t. printing es (n + 1) arg t \<and> shown t = shown s @ [c])"
proof -
  have "returns (buffer_put_h out_call c s) (\<lambda>t. undisturbed es t \<and> pc_flag (out t) = arg \<and> bufpos (out t) \<le> n + 1)"
    using assms
    by (auto simp: buffer_put_h_def buf_set_def printing_def buffered_def Let_def undisturbed_fields)
  moreover have "post (buffer_put_h out_call c s) (\<lambda>t. buffered t \<and> shown t = shown s @ [c])"
    using assms(1) by (intro buffer_put_out) (simp add: printing_def)
  ultimately show ?thesis
    by (rule returns_mono [OF returns_post]) (use assms(2) in \<open>auto simp: printing_def\<close>)
qed

lemma set_fields:
  "printing es n arg (upd_out (\<lambda>t. t\<lparr>pc_flag := b t, prev_c := p t\<rparr>) s) \<longleftrightarrow> printing es n arg (s\<lparr>out := (out s)\<lparr>pc_flag := b (out s)\<rparr>\<rparr>)"
  "printing es n arg (upd_out (\<lambda>t. t\<lparr>pc_flag := b t\<rparr>) s) \<longleftrightarrow> printing es n arg (s\<lparr>out := (out s)\<lparr>pc_flag := b (out s)\<rparr>\<rparr>)"
  by (simp_all add: printing_def buffered_def to_script_def undisturbed_def no_interrupt_def interrupts_def upd_out_def cwindow_def)

lemma flag_printing:
  assumes "printing es n arg s"
  shows "printing es n arg' (s\<lparr>out := (out s)\<lparr>pc_flag := arg'\<rparr>\<rparr>)"
  using assms by (simp add: printing_def buffered_def to_script_def undisturbed_def no_interrupt_def interrupts_def cwindow_def)

lemma print_char_printing:
  assumes "printing es n arg s" "fits n arg (c # cs)" "c \<noteq> 0" "c \<noteq> CH_NEWLINE"
  shows "returns (print_char_h out_call c s) (\<lambda>t. shown t = shown s @ [c] \<and> (\<exists>m arg'. printing es m arg' t \<and> fits m arg' cs))"
proof -
  have s: "pc_flag (out s) = arg" "enable_buffering (out s)"
    using assms(1) by (simp_all add: printing_def buffered_def)
  let ?put = "\<lambda>t. buffer_put_h out_call c (upd_out (\<lambda>t. t\<lparr>pc_flag := pc_flag t \<or> c = ZC_NEW_FONT \<or> c = ZC_NEW_STYLE, prev_c := c\<rparr>) t)"
  let ?break = "c = CH_SPACE \<or> c = ZC_INDENT \<or> c = ZC_GAP"
  let ?post = "\<lambda>t. shown t = shown s @ [c] \<and> (\<exists>m arg'. printing es m arg' t \<and> fits m arg' cs)"
  show ?thesis
  proof (cases arg)
    case True
    have "printing es n False (upd_out (\<lambda>t. t\<lparr>pc_flag := False\<rparr>) s)"
      using flag_printing [OF assms(1), of False] by (simp add: set_fields)
    then have "returns (buffer_put_h out_call c (upd_out (\<lambda>t. t\<lparr>pc_flag := False\<rparr>) s))
        (\<lambda>t. printing es (n + 1) False t \<and> shown t = shown (upd_out (\<lambda>t. t\<lparr>pc_flag := False\<rparr>) s) @ [c])"
      using assms(2,4) True by (intro put_printing) simp_all
    then show ?thesis
      using s True assms(2,4) by (auto simp: print_char_h_def elim!: returns_mono)
  next
    case False
    have put: "returns (?put t) ?post"
      if t: "printing es m False t" "m + 1 < TEXT_BUFFER_SIZE" "fits (m + 1) (c = ZC_NEW_FONT \<or> c = ZC_NEW_STYLE) cs" "shown t = shown s" for m t
    proof -
      have "pc_flag (out t) = False"
        using t(1) by (simp add: printing_def)
      then have "printing es m (c = ZC_NEW_FONT \<or> c = ZC_NEW_STYLE)
          (upd_out (\<lambda>t. t\<lparr>pc_flag := pc_flag t \<or> c = ZC_NEW_FONT \<or> c = ZC_NEW_STYLE, prev_c := c\<rparr>) t)"
        using flag_printing [OF t(1)] by (simp add: set_fields)
      from put_printing [OF this t(2), of c] show ?thesis
        by (rule returns_mono) (use t(3,4) in auto)
    qed
    show ?thesis
    proof (cases "c = ZC_RETURN")
      case True
      then show ?thesis
        using new_line_printing [OF assms(1)] s False assms(2,4) by (auto simp: print_char_h_def elim!: returns_mono)
    next
      case no_return: False
      have char: "print_char_h out_call c s =
          andthen (if ?break \<or> prev_c (out s) = CH_MINUS \<and> c \<noteq> CH_MINUS then flush_buffer_h out_call s else Ok s) ?put"
        using s False no_return assms(3) by (simp add: print_char_h_def)
      have flushed: "returns (flush_buffer_h out_call s) (\<lambda>t. printing es 0 False t \<and> shown t = shown s)"
        using flush_printing [OF assms(1)] False by simp
      show ?thesis
      proof (cases ?break)
        case True
        then have rest: "fits (0 + 1) (c = ZC_NEW_FONT \<or> c = ZC_NEW_STYLE) cs"
          using assms(2,4) False no_return by auto
        have "returns (?put t) ?post" if "printing es 0 False t \<and> shown t = shown s" for t
          using that rest by (intro put [of 0]) simp_all
        then show ?thesis
          using True unfolding char returns_andthen by (simp add: returns_mono [OF flushed])
      next
        case no_break: False
        then have room: "n + 1 < TEXT_BUFFER_SIZE" "fits (n + 1) (c = ZC_NEW_FONT \<or> c = ZC_NEW_STYLE) cs"
          using assms(2,4) False no_return by auto
        have "returns (?put t) ?post" if "printing es 0 False t \<and> shown t = shown s" for t
        proof (rule put [OF _ room])
          show "printing es n False t" "shown t = shown s"
            using that assms(1) by (auto simp: printing_def buffered_def)
        qed
        moreover have "returns (?put s) ?post"
          using assms(1) False by (intro put [OF _ room]) simp_all
        moreover from calculation(1) have "returns (andthen (flush_buffer_h out_call s) ?put) ?post"
          unfolding returns_andthen by (rule returns_mono [OF flushed])
        ultimately show ?thesis
          unfolding char by (cases "?break \<or> prev_c (out s) = CH_MINUS \<and> c \<noteq> CH_MINUS") (simp_all only: if_True if_False andthen_simps)
      qed
    qed
  qed
qed

lemma print_string_printing:
  "printing es n arg s \<Longrightarrow> fits n arg cs \<Longrightarrow> 0 \<notin> set cs \<Longrightarrow>
    returns (print_string_h out_call cs s) (\<lambda>t. buffered t \<and> undisturbed es t \<and>
      shown t = shown s @ map (\<lambda>c. if c = CH_NEWLINE then ZC_RETURN else c) cs)"
proof (induction cs arbitrary: n arg s)
  case Nil
  then show ?case
    by (simp add: printing_def)
next
  case (Cons c cs)
  have "returns (if c = CH_NEWLINE then new_line_h out_call s else print_char_h out_call c s)
      (\<lambda>t. shown t = shown s @ [if c = CH_NEWLINE then ZC_RETURN else c] \<and> (\<exists>m arg'. printing es m arg' t \<and> fits m arg' cs))"
  proof (cases "c = CH_NEWLINE")
    case True
    then show ?thesis
      using new_line_printing [OF Cons.prems(1)] Cons.prems(2) by (auto elim!: returns_mono)
  next
    case False
    then show ?thesis
      using print_char_printing [OF Cons.prems(1,2)] Cons.prems(3) by simp
  qed
  then show ?case
    unfolding print_string_h.simps returns_andthen
    by (rule returns_mono) (use Cons.IH Cons.prems(3) in \<open>fastforce elim: returns_mono\<close>)
qed

text \<open>
  C30. Printing in buffered mode to the screen (\<open>print_string\<close> over buffer.c and stream.c, \<open>screen_word\<close> and \<open>screen_new_line\<close> of screen.c)
  returns for every text without a run of more characters between blanks and new lines than the buffer holds, and it
  neither loses, duplicates nor reorders any of it: the text that has been sent to the screen followed by the text still
  buffered is what it was, followed by the string (a newline character counting as a carriage return). The buffer
  position stays within the buffer. No newline interrupt may be pending in the current window; none is called then.
\<close>

theorem print_string_conserves:
  assumes "buffered s" and "no_interrupt s" and "0 \<notin> set cs"
    and "bufpos (out s) < TEXT_BUFFER_SIZE" and "fits (bufpos (out s)) (pc_flag (out s)) cs"
  shows "\<exists>t. print_string cs s = Ok t \<and>
    shown t = shown s @ map (\<lambda>c. if c = CH_NEWLINE then ZC_RETURN else c) cs \<and>
    0 \<le> bufpos (out t) \<and> bufpos (out t) \<le> TEXT_BUFFER_SIZE \<and>
    no_interrupt t \<and> interrupts t = interrupts s"
proof -
  have "printing (interrupts s) (bufpos (out s)) (pc_flag (out s)) s"
    using assms by (simp add: printing_def undisturbed_def)
  from print_string_printing [OF this assms(5,3)] show ?thesis
    by (auto simp: returns_def print_string_def buffered_def undisturbed_def)
qed

text \<open>Four words, more than the buffer has room for.\<close>

definition four_words :: "zchar list" where
  "four_words = concat (replicate 4 (replicate 80 0x61 @ [CH_SPACE]))"

theorem print_string_conserves_witness:
  "\<exists>t. print_string four_words (printing_machine 0) = Ok t \<and> shown t = four_words"
proof -
  have start: "no_interrupt (printing_machine 0)" "pc_flag (out (printing_machine 0)) = False" "shown (printing_machine 0) = []"
    by (simp_all add: no_interrupt_def cwindow_def printing_machine_def upd_out_def shown_def buffer_text_def small_machine_def
        initial_state_def initial_scr_def initial_window_def initial_out_def)
  have "fits 0 False four_words" "0 \<notin> set four_words" "CH_NEWLINE \<notin> set four_words"
    by (code_simp, simp add: four_words_def, simp add: four_words_def)
  moreover from this(3) have "map (\<lambda>c. if c = CH_NEWLINE then ZC_RETURN else c) four_words = four_words"
    by (intro map_idI) auto
  ultimately show ?thesis
    using print_string_conserves [OF printing_machine_buffered [of 0] start(1), of four_words] start printing_machine_bufpos [of 0] by auto
qed

end
