(* ===== verification/Undo_Correct.thy ===== *)
theory Undo_Correct
  imports Memory Output_Correct
begin

text \<open>
  The undo mechanism of fastmem.c against its specification. A snapshot is a complete saved state:
  the dynamic memory, the program counter, the used part of the stack and the frame. The undo list
  represents a stack of snapshots, newest first (\<open>snapshots\<close>): only the newest memory image is
  stored (\<open>prev_zmp\<close>), and each block holds the difference to the image before. \<open>save_undo\<close> pushes
  the current state and drops the oldest snapshot when there are more than \<open>undo_slots\<close>;
  \<open>restore_undo\<close> pops.
\<close>

subsection \<open>Snapshots\<close>

record snapshot =
  sn_memory :: "zbyte list"
  sn_pc :: int
  sn_stack :: "zword list"
  sn_frame_offset :: zword
  sn_frame_count :: zword

definition snapshot_of :: "zbyte list \<Rightarrow> undo_t \<Rightarrow> snapshot" where
  "snapshot_of m b =
     \<lparr>sn_memory = m, sn_pc = u_pc b, sn_stack = u_stack b, sn_frame_offset = u_frame_offset b,
      sn_frame_count = u_frame_count b\<rparr>"

definition current :: "zstate \<Rightarrow> snapshot" where
  "current s =
     \<lparr>sn_memory = mem_image (dyn_size s) (zmp s), sn_pc = pcp s,
      sn_stack = map (stack s) [sp s..STACK_SIZE - 1], sn_frame_offset = word_of_int (fp s),
      sn_frame_count = frame_count s\<rparr>"

text \<open>The blocks from the current one back, with the memory image of the first of them.\<close>

fun unroll :: "undo_t list \<Rightarrow> zbyte list \<Rightarrow> snapshot list" where
  "unroll [] m = []"
| "unroll (b # bs) m =
     snapshot_of m b # (case mem_undiff (u_diff b) m of None \<Rightarrow> [] | Some m' \<Rightarrow> unroll bs m')"

fun chain_ok :: "undo_t list \<Rightarrow> zbyte list \<Rightarrow> bool" where
  "chain_ok [] m = True"
| "chain_ok (b # bs) m =
     (length (u_stack b) \<le> 1024 \<and>
      (case mem_undiff (u_diff b) m of None \<Rightarrow> False | Some m' \<Rightarrow> chain_ok bs m'))"

definition past :: "undostate \<Rightarrow> undo_t list" where
  "past u = rev (take (nat (curr_undo u + 1)) (undo_list u))"

definition snapshots :: "zstate \<Rightarrow> snapshot list" where
  "snapshots s = unroll (past (undo s)) (mem_image (dyn_size s) (prev_zmp (undo s)))"

definition undo_ok :: "zstate \<Rightarrow> bool" where
  "undo_ok s \<longleftrightarrow>
     undo_mem (undo s) \<and> undo_count (undo s) = int (length (undo_list (undo s))) \<and>
     -1 \<le> curr_undo (undo s) \<and> curr_undo (undo s) < int (length (undo_list (undo s))) \<and>
     0 < undo_slots (f_setup s) \<and>
     int (length (undo_list (undo s))) \<le> undo_slots (f_setup s) \<and>
     dyn_size s \<le> story_size s \<and>
     chain_ok (past (undo s)) (mem_image (dyn_size s) (prev_zmp (undo s)))"

subsection \<open>Memory images\<close>

lemma length_mem_image [simp]: "length (mem_image n m) = nat n"
  by (simp add: mem_image_def)

lemma nth_mem_image: "i < nat n \<Longrightarrow> mem_image n m ! i = m (int i)"
  by (simp add: mem_image_def)

lemma mem_image_overwrite [simp]:
  "length xs = nat n \<Longrightarrow> mem_image n (overwrite m 0 xs) = xs"
  by (rule nth_equalityI) (auto simp: nth_mem_image overwrite_def)

lemma dyn_size_nonneg [simp]: "0 \<le> dyn_size s"
  by (simp add: dyn_size_def)

lemma dyn_size_less: "nat (dyn_size s) < 0x10000"
proof -
  have "dyn_size s < 0x10000"
    using uint_bounded [of "h_dynamic_size (hdr s)"] by (simp add: dyn_size_def)
  then show ?thesis
    by linarith
qed

lemma take_unroll:
  "chain_ok bs m \<Longrightarrow> length (unroll bs m) = length bs"
  "chain_ok (bs @ cs) m \<Longrightarrow> unroll bs m = take (length bs) (unroll (bs @ cs) m)"
  "chain_ok (bs @ cs) m \<Longrightarrow> chain_ok bs m"
  by (induction bs arbitrary: m) (auto split: option.splits)

subsection \<open>The parts of \<open>save_undo\<close>\<close>

lemma drop_newer_eq:
  "-1 \<le> curr_undo u \<Longrightarrow> curr_undo u < int (length (undo_list u)) \<Longrightarrow>
    drop_newer u = Ok (u\<lparr>undo_list := take (nat (curr_undo u + 1)) (undo_list u),
      undo_count := undo_count u - (int (length (undo_list u)) - 1 - curr_undo u)\<rparr>)"
proof (induction u rule: drop_newer.induct)
  case (1 u)
  show ?case
  proof (cases "int (length (undo_list u)) - 1 = curr_undo u")
    case True
    then show ?thesis
      by (subst drop_newer.simps) simp
  next
    case False
    then have "undo_list u \<noteq> []" "curr_undo u < int (length (undo_list u)) - 1"
      using "1.prems" by auto
    with False "1.IH" "1.prems" show ?thesis
      by (subst drop_newer.simps) (simp add: butlast_conv_take min_def algebra_simps)
  qed
qed

lemma free_undo_one:
  assumes "undo_list u = b # bs" and "undo_count u = int (length (undo_list u))"
    and "curr_undo u = int (length (undo_list u)) - 1"
  shows "free_undo 1 u =
    Ok (u\<lparr>undo_list := bs, curr_undo := curr_undo u - 1, undo_count := undo_count u - 1\<rparr>)"
  using assms by (simp add: free_undo_def numeral_eq_Suc)

lemma alloc_loop_first:
  "os_answer s (clock s) \<noteq> 0 \<Longrightarrow> alloc_loop u s = Ok (True, u, snd (ask s))"
  by (subst alloc_loop.simps) (simp add: ask_def)

lemma stack_words_used:
  "0 \<le> sp s \<Longrightarrow> sp s \<le> STACK_SIZE \<Longrightarrow>
    stack_words (sp s) (uint (word_of_int (STACK_SIZE - sp s) :: zword)) t =
      Ok (map (stack t) [sp s..STACK_SIZE - 1])"
proof -
  assume sp: "0 \<le> sp s" "sp s \<le> STACK_SIZE"
  have "uint (word_of_int (STACK_SIZE - sp s) :: zword) = STACK_SIZE - sp s"
    by (subst uint_word_of_int) (use sp in simp)
  then show ?thesis
    using sp unfolding stack_words_def by simp
qed

text \<open>The list that \<open>save_undo\<close> starts from: at most \<open>undo_slots - 1\<close> of the past blocks.\<close>

lemma make_room:
  assumes "undo_ok s"
  obtains L where
    "andthen (drop_newer (undo s)) (\<lambda>u.
       if undo_count u = undo_slots (f_setup s) then free_undo 1 u else Ok u) =
     Ok ((undo s)\<lparr>undo_list := L, curr_undo := int (length L) - 1, undo_count := int (length L)\<rparr>)"
    and "int (length L) < undo_slots (f_setup s)"
    and "\<exists>old. rev old @ L = take (nat (curr_undo (undo s) + 1)) (undo_list (undo s)) \<and>
           (old \<noteq> [] \<longrightarrow> int (length L) + 1 = undo_slots (f_setup s))"
proof -
  define K where "K = take (nat (curr_undo (undo s) + 1)) (undo_list (undo s))"
  let ?u = "(undo s)\<lparr>undo_list := K, curr_undo := int (length K) - 1, undo_count := int (length K)\<rparr>"
  have len: "int (length K) = curr_undo (undo s) + 1"
    using assms by (auto simp: K_def undo_ok_def min_def)
  have drop: "drop_newer (undo s) = Ok ?u"
    using assms len by (simp add: drop_newer_eq undo_ok_def K_def [symmetric])
  show ?thesis
  proof (cases "int (length K) = undo_slots (f_setup s)")
    case True
    then have "K \<noteq> []"
      using assms by (auto simp: undo_ok_def)
    then obtain b bs where K: "K = b # bs"
      by (cases K) auto
    then have "free_undo 1 ?u = Ok (?u\<lparr>undo_list := bs, curr_undo := int (length K) - 2,
        undo_count := int (length K) - 1\<rparr>)"
      by (subst free_undo_one [of _ b bs]) simp_all
    with True drop K show ?thesis
      by (intro that [of bs]) (auto simp: K_def [symmetric] intro!: exI [of _ "[b]"])
  next
    case False
    moreover have "int (length K) \<le> undo_slots (f_setup s)"
      using assms by (auto simp: K_def undo_ok_def min_def)
    ultimately show ?thesis
      using drop by (intro that [of K]) (auto simp: K_def [symmetric] intro!: exI [of _ "[]"])
  qed
qed

subsection \<open>Saving pushes\<close>

lemma save_undo_pushes:
  assumes ok: "undo_ok s" and "os_answer s (clock s) \<noteq> 0" and "os_answer s (Suc (clock s)) \<noteq> 0"
    and "0 \<le> sp s" and "sp s \<le> STACK_SIZE"
  obtains u where
    "save_undo s = Ok (1, s\<lparr>clock := clock s + 2, undo := u\<rparr>)"
    "undo_ok (s\<lparr>clock := clock s + 2, undo := u\<rparr>)"
    "snapshots (s\<lparr>clock := clock s + 2, undo := u\<rparr>) =
       take (nat (undo_slots (f_setup s))) (current s # snapshots s)"
proof -
  from make_room [OF ok] obtain L old where
    room: "andthen (drop_newer (undo s)) (\<lambda>u.
       if undo_count u = undo_slots (f_setup s) then free_undo 1 u else Ok u) =
     Ok ((undo s)\<lparr>undo_list := L, curr_undo := int (length L) - 1, undo_count := int (length L)\<rparr>)"
    and L: "int (length L) < undo_slots (f_setup s)"
    and old: "rev old @ L = take (nat (curr_undo (undo s) + 1)) (undo_list (undo s))"
      "old \<noteq> [] \<Longrightarrow> int (length L) + 1 = undo_slots (f_setup s)"
    by blast
  define new where "new = mem_image (dyn_size s) (zmp s)"
  define prev where "prev = mem_image (dyn_size s) (prev_zmp (undo s))"
  define b where "b = \<lparr>u_pc = pcp s, u_diff = mem_diff new prev, u_frame_count = frame_count s,
    u_stack = map (stack s) [sp s..STACK_SIZE - 1], u_frame_offset = word_of_int (fp s)\<rparr>"
  define u where "u = (undo s)\<lparr>undo_list := L @ [b], curr_undo := int (length L),
    undo_count := int (length L) + 1, prev_zmp := overwrite (prev_zmp (undo s)) 0 new\<rparr>"
  let ?s = "s\<lparr>clock := clock s + 2, undo := u\<rparr>"
  have past: "past (undo s) = rev L @ old"
    using old(1) by (simp add: past_def flip: old(1))
  have same: "length new = length prev" "length new < 0x10000"
    using dyn_size_less [of s] by (simp_all add: new_def prev_def)
  let ?u = "(undo s)\<lparr>undo_list := L, curr_undo := int (length L) - 1, undo_count := int (length L)\<rparr>"
  let ?t = "s\<lparr>clock := Suc (clock s)\<rparr>"
  have "save_block ?u ?t = Ok (1, ?s)"
  proof -
    have alloc: "alloc_loop v ?t = Ok (True, v, s\<lparr>clock := clock s + 2\<rparr>)" for v
      using assms(3) alloc_loop_first [of ?t v] by (simp add: ask_def)
    have words: "stack_words (sp s) (uint (word_of_int (STACK_SIZE - sp s) :: zword)) v =
        Ok (map (stack v) [sp s..STACK_SIZE - 1])" for v
      using assms(4,5) by (rule stack_words_used)
    have "diff_target new prev = new"
      using same by (simp add: diff_target_eq)
    with ok words show ?thesis
      by (simp add: save_block_def alloc undo_ok_def dyn_size_def u_def b_def new_def prev_def Let_def)
  qed
  then have "save_undo s = Ok (1, ?s)"
    using assms(2) ok room
    by (simp add: save_undo_def ask_def undo_ok_def flip: andthen_assoc)
  moreover have chain: "chain_ok (rev L @ old) prev"
    using ok past by (simp add: undo_ok_def prev_def)
  have dec: "mem_undiff (u_diff b) new = Some prev"
    using same by (simp add: b_def quetzal_diff.forth)
  have past': "past u = b # rev L"
    by (simp add: past_def u_def)
  have image': "mem_image (dyn_size ?s) (prev_zmp u) = new"
    by (simp add: u_def dyn_size_def new_def)
  have "undo_ok ?s"
    using ok L past' image' dec take_unroll(3) [OF chain] assms(4)
    by (simp add: undo_ok_def u_def b_def dyn_size_def)
  moreover have "snapshots ?s = take (nat (undo_slots (f_setup s))) (current s # snapshots s)"
  proof -
    have "snapshots ?s = snapshot_of new b # take (length L) (unroll (rev L @ old) prev)"
      using dec past' image' take_unroll(2) [OF chain] by (simp add: snapshots_def)
    moreover have "snapshot_of new b = current s"
      by (simp add: snapshot_of_def current_def b_def new_def)
    moreover have "unroll (rev L @ old) prev = snapshots s"
      using past by (simp add: snapshots_def prev_def)
    moreover have "take (length L) (snapshots s) = take (nat (undo_slots (f_setup s)) - 1) (snapshots s)"
    proof (cases "old = []")
      case True
      then have "length (snapshots s) = length L"
        using take_unroll(1) [OF chain] past by (simp add: snapshots_def prev_def)
      with L show ?thesis
        by simp
    next
      case False
      with old(2) have "length L = nat (undo_slots (f_setup s)) - 1"
        by linarith
      then show ?thesis
        by simp
    qed
    moreover have "nat (undo_slots (f_setup s)) \<noteq> 0"
      using L by simp
    ultimately show ?thesis
      by (simp add: take_Cons')
  qed
  ultimately show ?thesis
    by (intro that)
qed

subsection \<open>Restoring pops\<close>

lemma current_unfold:
  assumes "undo_ok s" and "snapshots s = sn # rest"
  obtains b bs old where
    "past (undo s) = b # bs" "undo_list (undo s) ! nat (curr_undo (undo s)) = b"
    "0 \<le> curr_undo (undo s)"
    "past ((undo s)\<lparr>curr_undo := curr_undo (undo s) - 1\<rparr>) = bs"
    "sn = snapshot_of (mem_image (dyn_size s) (prev_zmp (undo s))) b"
    "mem_undiff (u_diff b) (mem_image (dyn_size s) (prev_zmp (undo s))) = Some old"
    "rest = unroll bs old" "chain_ok bs old" "length (u_stack b) \<le> 1024"
proof -
  let ?u = "undo s"
  have "past ?u \<noteq> []"
    using assms by (auto simp: snapshots_def)
  then have k: "0 \<le> curr_undo ?u"
    by (auto simp: past_def)
  define k where "k = nat (curr_undo ?u)"
  have "k < length (undo_list ?u)" and n: "nat (curr_undo ?u + 1) = Suc k"
    using assms(1) k by (auto simp: k_def undo_ok_def)
  then have past: "past ?u = undo_list ?u ! k # rev (take k (undo_list ?u))"
    by (simp add: past_def take_Suc_conv_app_nth)
  have past': "past (?u\<lparr>curr_undo := curr_undo ?u - 1\<rparr>) = rev (take k (undo_list ?u))"
    by (simp add: past_def k_def)
  show ?thesis
    using assms k past past'
    by (intro that [of "undo_list ?u ! k" "rev (take k (undo_list ?u))"
          "the (mem_undiff (u_diff (undo_list ?u ! k)) (mem_image (dyn_size s) (prev_zmp ?u)))"])
      (auto simp: snapshots_def undo_ok_def k_def split: option.splits)
qed

lemma restore_undo_pops:
  assumes ok: "undo_ok s" and sn: "snapshots s = sn # rest"
  obtains t where
    "restore_undo s = andthen (restart_header t) (\<lambda>s. Ok (2, s))"
    "undo_ok t" "snapshots t = rest" "current t = sn"
    "hdr t = hdr s" "f_setup t = f_setup s" "story_size t = story_size s"
    "\<forall>a. a < 0 \<or> dyn_size s \<le> a \<longrightarrow> zmp t a = zmp s a"
proof -
  from current_unfold [OF ok sn] obtain b bs old where
    b: "past (undo s) = b # bs" "undo_list (undo s) ! nat (curr_undo (undo s)) = b"
      "0 \<le> curr_undo (undo s)"
      "past ((undo s)\<lparr>curr_undo := curr_undo (undo s) - 1\<rparr>) = bs"
      "sn = snapshot_of (mem_image (dyn_size s) (prev_zmp (undo s))) b"
      "mem_undiff (u_diff b) (mem_image (dyn_size s) (prev_zmp (undo s))) = Some old"
      "rest = unroll bs old" "chain_ok bs old" "length (u_stack b) \<le> 1024" .
  let ?img = "mem_image (dyn_size s) (prev_zmp (undo s))"
  let ?sp = "STACK_SIZE - int (length (u_stack b))"
  define t where "t = s\<lparr>zmp := overwrite (zmp s) 0 ?img, pcp := u_pc b, sp := ?sp,
    fp := uint (u_frame_offset b), frame_count := u_frame_count b,
    stack := overwrite (stack s) ?sp (u_stack b),
    undo := (undo s)\<lparr>prev_zmp := overwrite (prev_zmp (undo s)) 0 old,
      curr_undo := curr_undo (undo s) - 1\<rparr>\<rparr>"
  have len: "length old = nat (dyn_size s)"
    using mem_undiff_length [OF b(6)] by simp
  have past_t: "past (undo t) = bs"
    using b(4) by (simp add: t_def past_def)
  have img_t: "mem_image (dyn_size t) (prev_zmp (undo t)) = old"
    using len by (simp add: t_def dyn_size_def)
  have "restore_undo s = andthen (restart_header t) (\<lambda>s. Ok (2, s))"
    using ok b(2,3,6,9) by (simp add: restore_undo_def undo_ok_def t_def Let_def)
  moreover have "undo_ok t"
    using ok b(3,8) past_t img_t
    by (simp add: undo_ok_def) (simp add: t_def dyn_size_def)
  moreover have "snapshots t = rest"
    using past_t img_t b(7) by (simp add: snapshots_def)
  moreover have "current t = sn"
  proof -
    have "map (overwrite (stack s) ?sp (u_stack b)) [?sp..STACK_SIZE - 1] = u_stack b"
      using b(9) by (intro nth_equalityI) (auto simp: overwrite_def)
    then show ?thesis
      using b(5) by (simp add: current_def t_def dyn_size_def snapshot_of_def)
  qed
  ultimately show ?thesis
    by (intro that [of t]) (auto simp: t_def overwrite_def)
qed

subsection \<open>Properties\<close>

lemma init_undo_establishes:
  assumes "undo s = initial_undo" and "0 < undo_slots (f_setup s)" and "dyn_size s \<le> story_size s"
    and "os_answer s (clock s) \<noteq> 0"
  shows "undo_ok (init_undo 0 s)" and "snapshots (init_undo 0 s) = []"
  using assms
  by (auto simp: init_undo_def ask_def undo_ok_def snapshots_def initial_undo_def past_def dyn_size_def)

definition undo_machine :: zstate where
  "undo_machine = init_undo 0 (small_machine 5 [1, 2, 3])"

lemma undo_machine_ok:
  "undo_ok undo_machine" "snapshots undo_machine = []" "sp undo_machine = STACK_SIZE"
  "os_answer undo_machine = (\<lambda>k. 1)" "undo_slots (f_setup undo_machine) = 500"
proof -
  have "undo (small_machine 5 [1, 2, 3]) = initial_undo"
    "0 < undo_slots (f_setup (small_machine 5 [1, 2, 3]))"
    "dyn_size (small_machine 5 [1, 2, 3]) \<le> story_size (small_machine 5 [1, 2, 3])"
    "os_answer (small_machine 5 [1, 2, 3]) (clock (small_machine 5 [1, 2, 3])) \<noteq> 0"
    by (simp_all add: small_machine_def initial_state_def default_setup_def dyn_size_def)
  from init_undo_establishes [OF this]
  show "undo_ok undo_machine" "snapshots undo_machine = []"
    by (simp_all add: undo_machine_def)
qed (simp_all add: undo_machine_def init_undo_def ask_def small_machine_def initial_state_def
    default_setup_def)

text \<open>
  \<open>init_undo\<close> establishes the invariant of the undo mechanism with an empty stack of snapshots.
\<close>

theorem init_undo_ok:
  assumes "undo s = initial_undo" and "0 < undo_slots (f_setup s)" and "dyn_size s \<le> story_size s"
    and "os_answer s (clock s) \<noteq> 0"
  shows "undo_ok (init_undo 0 s) \<and> snapshots (init_undo 0 s) = []"
  using init_undo_establishes [OF assms] by simp

theorem init_undo_ok_witness:
  "undo_ok (init_undo 0 (small_machine 5 [])) \<and> snapshots (init_undo 0 (small_machine 5 [])) = []"
  by (rule init_undo_ok)
    (simp_all add: small_machine_def initial_state_def default_setup_def dyn_size_def)

text \<open>
  C15. \<open>save_undo\<close> implements a bounded push: it returns 1, keeps the invariant, changes nothing
  outside the undo state, and the stack of snapshots becomes the current state followed by the old
  snapshots, cut off after \<open>undo_slots\<close> entries.
\<close>

theorem save_undo_refines_push:
  assumes "undo_ok s" and "os_answer s (clock s) \<noteq> 0" and "os_answer s (Suc (clock s)) \<noteq> 0"
    and "0 \<le> sp s" and "sp s \<le> STACK_SIZE"
  shows "\<exists>u. let s' = s\<lparr>clock := clock s + 2, undo := u\<rparr> in
    save_undo s = Ok (1, s') \<and> undo_ok s' \<and>
    snapshots s' = take (nat (undo_slots (f_setup s))) (current s # snapshots s)"
  by (rule save_undo_pushes [OF assms]) (auto simp: Let_def)

theorem save_undo_refines_push_witness:
  "\<exists>s'. save_undo undo_machine = Ok (1, s') \<and> undo_ok s' \<and> snapshots s' = [current undo_machine]"
  using save_undo_refines_push [of undo_machine] by (auto simp: undo_machine_ok Let_def)

text \<open>
  C16. \<open>restore_undo\<close> implements a pop: the state it hands to \<open>restart_header\<close> is the newest
  snapshot (memory, program counter, stack and frame), the remaining snapshots are kept, and memory
  outside the dynamic area and all options are as before.
\<close>

theorem restore_undo_refines_pop:
  assumes "undo_ok s" and "snapshots s = sn # rest"
  shows "\<exists>t. restore_undo s = andthen (restart_header t) (\<lambda>s. Ok (2, s)) \<and>
    undo_ok t \<and> snapshots t = rest \<and> current t = sn \<and> hdr t = hdr s \<and> f_setup t = f_setup s \<and>
    (\<forall>a. a < 0 \<or> dyn_size s \<le> a \<longrightarrow> zmp t a = zmp s a)"
  by (rule restore_undo_pops [OF assms]) blast

text \<open>What the invariant and the snapshots depend on.\<close>

lemma undo_view_cong:
  assumes "undo t = undo s" and "f_setup t = f_setup s" and "story_size t = story_size s"
    and "dyn_size t = dyn_size s"
  shows "undo_ok t = undo_ok s" and "snapshots t = snapshots s"
  using assms by (simp_all add: undo_ok_def snapshots_def)

lemma saved_machine:
  obtains s' where "save_undo undo_machine = Ok (1, s')" "undo_ok s'"
    "snapshots s' = [current undo_machine]"
proof -
  have "take (nat (undo_slots (f_setup undo_machine))) (current undo_machine # snapshots undo_machine)
      = [current undo_machine]"
    by (simp add: undo_machine_ok)
  then show ?thesis
    using save_undo_pushes [OF undo_machine_ok(1)] that
    by (metis undo_machine_ok(3,4) order_refl one_neq_zero zero_le_numeral)
qed

theorem restore_undo_refines_pop_witness:
  "\<exists>s t. restore_undo s = andthen (restart_header t) (\<lambda>s. Ok (2, s)) \<and> current t = current undo_machine"
proof -
  obtain s' where "undo_ok s'" "snapshots s' = [current undo_machine]"
    using saved_machine by metis
  from restore_undo_refines_pop [OF this] show ?thesis
    by blast
qed

text \<open>
  C1. Undo undoes: after \<open>save_undo\<close>, whatever the game does to its memory, stack and registers
  without touching the undo state, \<open>restore_undo\<close> restores the saved state, up to the header fields
  that \<open>restart_header\<close> then refreshes, and earlier snapshots remain available.
\<close>

theorem undo_restores_saved_state:
  assumes "undo_ok s" and "os_answer s (clock s) \<noteq> 0" and "os_answer s (Suc (clock s)) \<noteq> 0"
    and "0 \<le> sp s" and "sp s \<le> STACK_SIZE" and "save_undo s = Ok (r, s1)"
    and "undo t = undo s1" and "f_setup t = f_setup s" and "story_size t = story_size s"
    and "hdr t = hdr s"
  shows "\<exists>t'. restore_undo t = andthen (restart_header t') (\<lambda>s. Ok (2, s)) \<and>
    current t' = current s \<and> undo_ok t' \<and>
    snapshots t' = take (nat (undo_slots (f_setup s)) - 1) (snapshots s)"
proof -
  from save_undo_pushes [OF assms(1-5)] obtain u where
    u: "save_undo s = Ok (1, s\<lparr>clock := clock s + 2, undo := u\<rparr>)"
      "undo_ok (s\<lparr>clock := clock s + 2, undo := u\<rparr>)"
      "snapshots (s\<lparr>clock := clock s + 2, undo := u\<rparr>) =
        take (nat (undo_slots (f_setup s))) (current s # snapshots s)" .
  then have s1: "s1 = s\<lparr>clock := clock s + 2, undo := u\<rparr>"
    using assms(6) by simp
  have "undo_ok t" and snaps: "snapshots t = snapshots s1"
    using undo_view_cong [of t s1] u(2) assms(7-10) s1 by (simp_all add: dyn_size_def)
  have "nat (undo_slots (f_setup s)) \<noteq> 0"
    using assms(1) by (simp add: undo_ok_def)
  then have "snapshots t = current s # take (nat (undo_slots (f_setup s)) - 1) (snapshots s)"
    using snaps u(3) s1 by (simp add: take_Cons')
  from restore_undo_pops [OF \<open>undo_ok t\<close> this] show ?thesis
    by metis
qed

theorem undo_restores_saved_state_witness:
  "\<exists>s1 t'. save_undo undo_machine = Ok (1, s1) \<and>
    restore_undo (s1\<lparr>zmp := (\<lambda>a. 0), pcp := 99\<rparr>) = andthen (restart_header t') (\<lambda>s. Ok (2, s)) \<and>
    current t' = current undo_machine"
proof -
  obtain u where u: "save_undo undo_machine =
      Ok (1, undo_machine\<lparr>clock := clock undo_machine + 2, undo := u\<rparr>)"
    by (rule save_undo_pushes [OF undo_machine_ok(1)]) (simp_all add: undo_machine_ok)
  from undo_restores_saved_state [OF undo_machine_ok(1) _ _ _ _ u,
      of "undo_machine\<lparr>clock := clock undo_machine + 2, undo := u, zmp := (\<lambda>a. 0), pcp := 99\<rparr>"] u
  show ?thesis
    by (auto simp: undo_machine_ok)
qed

text \<open>
  \<open>restore_undo\<close> reads the current block before it tests that there is one: with nothing saved
  it reads through a null pointer, even when undo is switched off.
\<close>

theorem restore_undo_without_save:
  assumes "undo_ok s" and "snapshots s = []"
  shows "restore_undo s = Stop Null_pointer"
proof -
  have "past (undo s) = []"
    using assms(2) unfolding snapshots_def by (cases "past (undo s)") auto
  then have "curr_undo (undo s) = -1"
    using assms(1) by (auto simp: past_def undo_ok_def)
  then show ?thesis
    by (simp add: restore_undo_def)
qed

theorem restore_undo_without_save_witness: "restore_undo undo_machine = Stop Null_pointer"
  by (rule restore_undo_without_save) (simp_all add: undo_machine_ok)

end
