(* ===== verification/Cells.thy ===== *)
theory Cells
  imports Machine
begin

text \<open>
  The interface of addressable storage: a read, a write, and a condition under which a write to one
  cell leaves a read of another alone. Memory bytes, memory words, the game's variables and the links
  of the object tree all have it. Read-modify-write operations are studied once for all of them.
\<close>

locale cells =
  fixes rd :: "'k \<Rightarrow> 's \<Rightarrow> 'v res"
    and wr :: "'k \<Rightarrow> 'v \<Rightarrow> 's \<Rightarrow> 's res"
    and apart :: "'k \<Rightarrow> 'k \<Rightarrow> 's \<Rightarrow> bool"
    and fits :: "'k \<Rightarrow> 'v \<Rightarrow> 's \<Rightarrow> bool"
  assumes rd_wr: "wr k v s = Ok t \<Longrightarrow> fits k v s \<Longrightarrow> rd k t = Ok v"
    and rd_wr_apart: "wr k v s = Ok t \<Longrightarrow> apart j k s \<Longrightarrow> rd j t = rd j s"
    and wr_rd: "rd k s = Ok v \<Longrightarrow> wr k v s = Ok s"
    and wr_wr: "wr k v s = Ok t \<Longrightarrow> wr k w t = wr k w s"
    and wr_defined: "rd k s = Ok u \<Longrightarrow> \<exists>t. wr k v s = Ok t"
    and apart_wr: "wr k v s = Ok t \<Longrightarrow> apart i j t = apart i j s"
begin

definition modify :: "'k \<Rightarrow> ('v \<Rightarrow> 'v) \<Rightarrow> 's \<Rightarrow> 's res" where
  "modify k f s = andthen (rd k s) (\<lambda>v. wr k (f v) s)"

lemma modify_modify:
  assumes "\<And>v. fits k (f v) s"
  shows "andthen (modify k f s) (modify k g) = modify k (\<lambda>v. g (f v)) s"
proof (cases "rd k s")
  case None
  then show ?thesis by (simp add: modify_def)
next
  case (Some r)
  show ?thesis
  proof (cases r)
    case (Inl e)
    with Some show ?thesis by (simp add: modify_def)
  next
    case (Inr v)
    then obtain t where t: "wr k (f v) s = Ok t"
      using Some wr_defined by blast
    then show ?thesis
      using Some Inr assms rd_wr [OF t] wr_wr [OF t] by (simp add: modify_def)
  qed
qed

text \<open>An operation and its inverse leave everything as it was.\<close>

lemma modify_inverse:
  assumes "modify k f s = Ok t" and "\<And>v. fits k (f v) s" and "\<And>v. g (f v) = v"
  shows "modify k g t = Ok s"
proof -
  have "andthen (modify k f s) (modify k g) = modify k (\<lambda>v. v) s"
    using modify_modify [of k f s g] assms(2,3) by simp
  moreover have "modify k (\<lambda>v. v) s = Ok s"
    using assms(1) wr_rd by (auto simp: modify_def andthen_eq_Ok)
  ultimately show ?thesis
    using assms(1) by simp
qed

lemma modify_apart:
  "modify k f s = Ok t \<Longrightarrow> apart j k s \<Longrightarrow> rd j t = rd j s"
  using rd_wr_apart by (auto simp: modify_def andthen_eq_Ok)

text \<open>Two writes: the reads afterwards of the cells written and of a third one.\<close>

lemma two_writes:
  assumes "wr k v s = Ok t" and "wr j w t = Ok u" and "apart k j s" and "fits k v s" and "fits j w t"
  shows "rd k u = Ok v" and "rd j u = Ok w" and "apart i k s \<Longrightarrow> apart i j s \<Longrightarrow> rd i u = rd i s"
  using assms rd_wr rd_wr_apart apart_wr by metis+

end

subsection \<open>Memory\<close>

interpretation mem_bytes: cells low_byte set_byte "\<lambda>a b s. a \<noteq> b" "\<lambda>a v s. True"
  by unfold_locales (auto simp: low_byte_def set_byte_def split: if_splits)

definition words_apart :: "int \<Rightarrow> int \<Rightarrow> bool" where
  "words_apart a b \<longleftrightarrow> a + 1 < b \<or> b + 1 < a"

lemma fun_upd_same: "m a = x \<Longrightarrow> m(a := x) = m"
  by auto

interpretation mem_words: cells low_word set_word "\<lambda>a b s. words_apart a b" "\<lambda>a v s. True"
proof
  fix k v s t
  assume "set_word k v s = Ok t"
  then show "low_word k t = Ok v"
    by (auto simp: set_word_eq_Ok low_word_def low_byte_def in_mem_def)
next
  fix k v s t j
  assume "set_word k v s = Ok t" "words_apart j k"
  then show "low_word j t = low_word j s"
    by (auto simp: set_word_eq_Ok low_word_def low_byte_def words_apart_def)
next
  fix k s v
  assume "low_word k s = Ok v"
  then show "set_word k v s = Ok s"
    by (auto simp: low_word_eq_Ok set_word_eq_Ok)
next
  fix k v s t w
  assume "set_word k v s = Ok t"
  then show "set_word k w t = set_word k w s"
    by (auto simp: set_word_eq_Ok)
next
  fix k s u v
  assume "low_word k s = Ok u"
  then show "\<exists>t. set_word k v s = Ok t"
    by (auto simp: low_word_eq_Ok set_word_eq_Ok)
qed simp

end
