(* ===== verification/Process_Correct.thy ===== *)
theory Process_Correct
  imports Variables Output_Correct
begin

text \<open>
  Program control against its specification: calls and returns, locals, variables, branches, operand
  decoding, and the frames that \<open>z_throw\<close> unwinds.
\<close>

subsection \<open>Guards that report fatal errors\<close>

lemma guard_Ok:
  assumes "\<not> ignore_errors (f_setup s)" and "0 < e" and "e \<le> ERR_MAX_FATAL"
  shows "andthen (if c then runtime_error e s else Ok s) f = Ok r \<longleftrightarrow> \<not> c \<and> f s = Ok r"
proof -
  have "\<not> returns (runtime_error e s) (\<lambda>t. True)"
    using assms by (intro runtime_error_fatal) (auto intro: default_fatal)
  then have "runtime_error e s \<noteq> Ok t" for t
    by (auto simp: returns_def)
  then show ?thesis
    by (auto simp: andthen_eq_Ok)
qed

subsection \<open>Words of a frame\<close>

lemma join_pc: "(pc div 2 ^ 9) * 2 ^ 9 OR (pc mod 2 ^ 9) = (pc :: int)"
proof -
  have "push_bit 9 (drop_bit 9 pc) OR take_bit 9 pc = pc"
    by (rule bit_eqI) (auto simp: bit_simps)
  then show ?thesis
    by (simp add: push_bit_eq_mult drop_bit_eq_div take_bit_eq_mod)
qed

lemma frame_pc:
  assumes "0 \<le> pc" and "pc < 2 ^ 25"
  shows "uint (word_of_int (pc div 2 ^ 9) :: zword) * 2 ^ 9 OR uint (word_of_int (pc mod 2 ^ 9) :: zword) = pc"
proof -
  have "uint (word_of_int (pc div 2 ^ 9) :: zword) = pc div 2 ^ 9"
    using assms by (subst uint_word_of_int) (simp add: div_less_iff_less_mult pos_imp_zdiv_nonneg_iff)
  moreover have "uint (word_of_int (pc mod 2 ^ 9) :: zword) = pc mod 2 ^ 9"
  proof -
    have "0 \<le> pc mod 2 ^ 9" "pc mod 2 ^ 9 < 2 ^ 9"
      by (simp_all only: pos_mod_sign pos_mod_bound zero_less_power zero_less_numeral)
    then show ?thesis
      by (subst uint_word_of_int) simp
  qed
  ultimately show ?thesis
    using join_pc by simp
qed

text \<open>The call type survives in the frame word, next to the argument and local counts.\<close>

lemma small_word: "unat (a :: zword) < 2 ^ k \<Longrightarrow> take_bit k a = a"
  by (simp add: word_unat_eq_iff unsigned_take_bit_eq take_bit_nat_eq_self)

lemma small_int:
  assumes "0 \<le> x" and "x < 2 ^ k"
  shows "take_bit k (word_of_int x :: zword) = word_of_int x"
proof -
  have "bit x n \<longleftrightarrow> n < k \<and> bit x n" for n
    using assms by (metis bit_take_bit_iff take_bit_int_eq_self)
  then show ?thesis
    by (intro bit_word_eqI) (auto simp: bit_simps)
qed

lemma small_count:
  assumes "c \<le> (15 :: zbyte)"
  shows "take_bit 4 (ucast c :: zword) = ucast c"
proof -
  have "unat c < 2 ^ 4"
    using assms by (simp add: word_le_nat_alt)
  then have "take_bit 4 c = c"
    by (simp add: word_unat_eq_iff unsigned_take_bit_eq take_bit_nat_eq_self)
  moreover have "(ucast (take_bit 4 c) :: zword) = take_bit 4 (ucast c)"
    by (rule bit_word_eqI) (auto simp: bit_simps)
  ultimately show ?thesis
    by simp
qed

lemma frame_type:
  assumes "k = 8 \<and> c = 0 \<or> k = 12" and "take_bit 8 a = a" and "take_bit 4 c = c"
    and "take_bit 4 t = t"
  shows "drop_bit k ((a OR push_bit k t) OR push_bit 8 c :: zword) = t"
proof -
  have "drop_bit k ((take_bit 8 a OR push_bit k (take_bit 4 t)) OR push_bit 8 (take_bit 4 c)) =
      take_bit 4 t"
    by (rule bit_word_eqI) (use assms(1) in \<open>auto simp: bit_simps\<close>)
  then show ?thesis
    using assms by simp
qed

subsection \<open>Entering a routine\<close>

lemma push_frame_eq:
  assumes "4 \<le> sp s" and "sp s \<le> STACK_SIZE"
  shows "push_frame argc ct s = Ok (s\<lparr>sp := sp s - 4, fp := sp s - 4, frame_count := frame_count s + 1,
    stack := (stack s)(sp s - 1 := word_of_int (pcp s div 2 ^ 9), sp s - 2 := word_of_int (pcp s mod 2 ^ 9),
      sp s - 3 := word_of_int (fp s - 1),
      sp s - 4 := word_of_int argc OR push_bit (frame_shift s) (word_of_int ct))\<rparr>)"
  using assms by (simp add: push_frame_def in_stack_def frame_shift_def Let_def)

text \<open>The default value of local number \<open>k + 1\<close>, when the initial values start at \<open>pc\<close>.\<close>

definition local_default :: "zstate \<Rightarrow> int \<Rightarrow> nat \<Rightarrow> zword" where
  "local_default s pc k =
     (if version s \<le> V4 then mk_word (zmp s (pc + 2 * int k)) (zmp s (pc + 2 * int k + 1)) else 0)"

lemma init_locals_Ok:
  assumes "init_locals n i argc args d s = Ok s'" and "V4 < version s \<Longrightarrow> d = 0"
  shows "\<exists>st pc. s' = s\<lparr>sp := sp s - int n, pcp := pc, stack := st\<rparr> \<and>
    (\<forall>p \<ge> sp s. st p = stack s p) \<and>
    (\<forall>k < n. st (sp s - 1 - int k) =
      (if int k < argc then args (i + int k) else local_default s (pcp s) k))"
  using assms
proof (induction n arbitrary: i argc d s)
  case 0
  then show ?case
    by (intro exI [of _ "stack s"] exI [of _ "pcp s"]) simp
next
  case (Suc n)
  define v where "v = (if version s \<le> V4 then local_default s (pcp s) 0 else d)"
  define pc where "pc = (if version s \<le> V4 then pcp s + 2 else pcp s)"
  define x where "x = (if argc > 0 then args i else v)"
  let ?t = "s\<lparr>pcp := pc, sp := sp s - 1, stack := (stack s)(sp s - 1 := x)\<rparr>"
  have v0: "V4 < version ?t \<Longrightarrow> v = 0"
    using Suc.prems(2) by (auto simp: v_def)
  have step: "init_locals n (i + 1) (argc - 1) args v ?t = Ok s'"
    using Suc.prems(1)
    by (auto simp: andthen_eq_Ok code_word_def low_word_eq_Ok push_def stack_set_def v_def pc_def x_def
        local_default_def split: if_splits)
  from Suc.IH [OF step v0] obtain st pc' where
    st: "s' = ?t\<lparr>sp := sp ?t - int n, pcp := pc', stack := st\<rparr>"
      "\<forall>p \<ge> sp ?t. st p = stack ?t p"
      "\<forall>k < n. st (sp ?t - 1 - int k) =
        (if int k < argc - 1 then args (i + 1 + int k) else local_default ?t pc k)"
    by auto
  have "st (sp s - 1 - int k) =
      (if int k < argc then args (i + int k) else local_default s (pcp s) k)" if "k < Suc n" for k
  proof (cases k)
    case 0
    then have "st (sp s - 1 - int k) = x"
      using st(2) by simp
    then show ?thesis
      using 0 Suc.prems(2) by (auto simp: x_def v_def local_default_def)
  next
    case (Suc m)
    then have "st (sp ?t - 1 - int m) =
        (if int m < argc - 1 then args (i + 1 + int m) else local_default ?t pc m)"
      using st(3) that by simp
    then show ?thesis
      using Suc by (simp add: algebra_simps local_default_def pc_def)
  qed
  then show ?case
    using st(1,2) by (intro exI [of _ st] exI [of _ pc']) (auto simp: algebra_simps)
qed

text \<open>The stack cells of the frame that \<open>call\<close> builds, from \<open>fp\<close> upwards.\<close>

definition frame_word :: "zstate \<Rightarrow> int \<Rightarrow> int \<Rightarrow> zbyte \<Rightarrow> zword" where
  "frame_word s argc ct count =
     (word_of_int argc OR push_bit (frame_shift s) (word_of_int ct)) OR
     (if save_quetzal (f_setup s) then push_bit 8 (ucast count) else 0)"

lemma enter_routine_Ok:
  assumes strict: "\<not> ignore_errors (f_setup s)" and fp: "in_stack (fp s)"
    and enter: "enter_routine a argc args s = Ok s1"
  shows "in_mem a s \<and> zmp s a \<le> 15 \<and> uint (zmp s a) \<le> sp s \<and>
    init_locals (unat (zmp s a)) 0 argc args 0 (s\<lparr>pcp := a + 1,
      stack := (stack s)(fp s := stack s (fp s) OR
        (if save_quetzal (f_setup s) then push_bit 8 (ucast (zmp s a)) else 0))\<rparr>) = Ok s1"
proof -
  have "in_mem a s"
    using enter strict
    by (simp add: enter_routine_def guard_Ok)
      (auto simp: andthen_eq_Ok code_byte_def low_byte_eq_Ok in_mem_def)
  with enter strict fp show ?thesis
    by (simp add: enter_routine_def guard_Ok not_less) (simp split: if_splits)
qed

lemma call_frame_Ok:
  assumes strict: "\<not> ignore_errors (f_setup s)" and top: "sp s \<le> STACK_SIZE"
    and call: "call_frame r argc args ct s = Ok s1"
  shows "\<exists>st pc. let a = routine_addr r s; count = zmp s a in
    4 \<le> sp s \<and> in_mem a s \<and> count \<le> 15 \<and> uint count \<le> sp s - 4 \<and>
    s1 = s\<lparr>sp := sp s - 4 - uint count, fp := sp s - 4, frame_count := frame_count s + 1,
      pcp := pc, stack := st\<rparr> \<and>
    (\<forall>p \<ge> sp s. st p = stack s p) \<and>
    st (sp s - 1) = word_of_int (pcp s div 2 ^ 9) \<and> st (sp s - 2) = word_of_int (pcp s mod 2 ^ 9) \<and>
    st (sp s - 3) = word_of_int (fp s - 1) \<and> st (sp s - 4) = frame_word s argc ct count \<and>
    (\<forall>k < unat count. st (sp s - 5 - int k) =
      (if int k < argc then args (int k) else local_default s (a + 1) k))"
proof -
  let ?a = "routine_addr r s"
  let ?count = "zmp s ?a"
  have sp: "4 \<le> sp s"
    using call strict by (simp add: call_frame_def guard_Ok)
  let ?f = "s\<lparr>sp := sp s - 4, fp := sp s - 4, frame_count := frame_count s + 1,
    stack := (stack s)(sp s - 1 := word_of_int (pcp s div 2 ^ 9), sp s - 2 := word_of_int (pcp s mod 2 ^ 9),
      sp s - 3 := word_of_int (fp s - 1),
      sp s - 4 := word_of_int argc OR push_bit (frame_shift s) (word_of_int ct))\<rparr>"
  have "routine_addr r ?f = ?a"
    by (simp add: routine_addr_def)
  then have enter: "enter_routine ?a argc args ?f = Ok s1"
    using call strict sp top by (simp add: call_frame_def guard_Ok push_frame_eq)
  let ?g = "?f\<lparr>pcp := ?a + 1, stack := (stack ?f)(sp s - 4 := frame_word s argc ct ?count)\<rparr>"
  have "in_stack (fp ?f)" "\<not> ignore_errors (f_setup ?f)"
    using sp top strict by (simp_all add: in_stack_def)
  from enter_routine_Ok [OF this(2,1) enter]
  have rest: "in_mem ?a s" "?count \<le> 15" "uint ?count \<le> sp s - 4"
    and locals: "init_locals (unat ?count) 0 argc args 0 ?g = Ok s1"
    by (simp_all add: frame_word_def cong: if_cong)
  from init_locals_Ok [OF locals] obtain st pc where
    "s1 = ?g\<lparr>sp := sp ?g - int (unat ?count), pcp := pc, stack := st\<rparr>"
    "\<forall>p \<ge> sp ?g. st p = stack ?g p"
    "\<forall>k < unat ?count. st (sp ?g - 1 - int k) =
      (if int k < argc then args (0 + int k) else local_default ?g (pcp ?g) k)"
    by auto
  with sp rest show ?thesis
    by (intro exI [of _ st] exI [of _ pc]) (simp add: Let_def local_default_def)
qed

subsection \<open>Returning\<close>

text \<open>What \<open>ret\<close> does with the value, by call type.\<close>

definition deliver :: "int \<Rightarrow> zword \<Rightarrow> zstate \<Rightarrow> zstate res" where
  "deliver ct v s =
     (if ct = 0 then store v s
      else if ct = 2 then andthen (push v s) (\<lambda>s. Ok (s\<lparr>finished := finished s + 1\<rparr>))
      else Ok s)"

text \<open>
  C13. A routine returns to where it was called: after \<open>call\<close> and the setting up of the locals,
  \<open>ret\<close> goes back to the stack pointer, frame, frame count and program counter of the call, and
  delivers the value there as the call type asks, for both ways of laying out the frame word.
\<close>

theorem call_then_ret:
  assumes "\<not> ignore_errors (f_setup s)" and "sp s \<le> STACK_SIZE" and "1 \<le> fp s" and "fp s \<le> STACK_SIZE"
    and "0 \<le> pcp s" and "pcp s < 2 ^ 25" and "0 \<le> argc" and "argc < 256" and "ct \<in> {0, 1, 2}"
    and "call_frame r argc args ct s = Ok s1"
  shows "ret v s1 =
    deliver ct v (s1\<lparr>sp := sp s, fp := fp s, frame_count := frame_count s, pcp := pcp s\<rparr>) \<and>
    (\<forall>p \<ge> sp s. stack s1 p = stack s p)"
proof -
  let ?count = "zmp s (routine_addr r s)"
  from call_frame_Ok [OF assms(1,2,10)] obtain st pc where
    frame: "4 \<le> sp s" "?count \<le> 15"
      "s1 = s\<lparr>sp := sp s - 4 - uint ?count, fp := sp s - 4, frame_count := frame_count s + 1,
        pcp := pc, stack := st\<rparr>"
      "\<forall>p \<ge> sp s. st p = stack s p"
      "st (sp s - 1) = word_of_int (pcp s div 2 ^ 9)" "st (sp s - 2) = word_of_int (pcp s mod 2 ^ 9)"
      "st (sp s - 3) = word_of_int (fp s - 1)" "st (sp s - 4) = frame_word s argc ct ?count"
    by (auto simp: Let_def)
  have ct: "drop_bit (frame_shift s) (frame_word s argc ct ?count) = word_of_int ct"
  proof -
    have "take_bit 8 (word_of_int argc :: zword) = word_of_int argc"
      using assms(7,8) by (intro small_int) simp_all
    moreover have "take_bit 4 (ucast ?count :: zword) = ucast ?count"
      using frame(2) by (rule small_count)
    moreover have "take_bit 4 (word_of_int ct :: zword) = word_of_int ct"
      using assms(9) by auto
    ultimately show ?thesis
      using frame_type [of 8 0] frame_type [of 12]
      by (simp add: frame_word_def frame_shift_def)
  qed
  have fp: "1 + uint (word_of_int (fp s - 1) :: zword) = fp s"
    by (subst uint_word_of_int) (use assms(3,4) in simp)
  have zero: "(word_of_int ct :: zword) = 0 \<longleftrightarrow> ct = 0" "(word_of_int ct :: zword) = 2 \<longleftrightarrow> ct = 2"
    using assms(9) by auto
  have "ret v s1 = deliver ct v (s1\<lparr>sp := sp s, fp := fp s, frame_count := frame_count s, pcp := pcp s\<rparr>)"
    using frame assms(2) ct zero fp frame_pc [OF assms(5,6)]
    by (simp add: ret_def pop_def stack_get_def deliver_def frame_shift_def Let_def)
  with frame(3,4) show ?thesis
    by simp
qed

text \<open>A call on a small machine: the routine at address 64 has two locals.\<close>

definition two_locals :: zstate where
  "two_locals = small_machine 5 [2]"

lemma two_locals_call: "\<exists>s1. call_frame 16 1 (\<lambda>i. 7) 1 two_locals = Ok s1"
proof -
  have "is_ok (call_frame 16 1 (\<lambda>i. 7) 1 two_locals)"
    by code_simp
  then show ?thesis
    by (rule is_okD)
qed

theorem call_then_ret_witness:
  "\<exists>s1. call_frame 16 1 (\<lambda>i. 7) 1 two_locals = Ok s1 \<and>
    ret 9 s1 = Ok (s1\<lparr>sp := STACK_SIZE, fp := STACK_SIZE, frame_count := 0, pcp := 64\<rparr>)"
proof -
  obtain s1 where s1: "call_frame 16 1 (\<lambda>i. 7) 1 two_locals = Ok s1"
    using two_locals_call by blast
  from call_then_ret [OF _ _ _ _ _ _ _ _ _ s1, of 9] s1 show ?thesis
    by (auto simp: two_locals_def default_setup_def deliver_def)
qed

text \<open>
  C25. A routine starts with its locals set: local \<open>k\<close> (numbered from 1 to the count in the routine's
  first byte) is the \<open>k\<close>-th argument when there is one, and otherwise the default value that follows
  the count up to V4, and 0 from V5 on.
\<close>

theorem call_sets_locals:
  assumes "\<not> ignore_errors (f_setup s)" and "sp s \<le> STACK_SIZE"
    and "call_frame r argc args ct s = Ok s1"
    and "k < unat (zmp s (routine_addr r s))"
  shows "get_var (of_nat (k + 1)) s1 =
    Ok (if int k < argc then args (int k) else local_default s (routine_addr r s + 1) k)"
proof -
  let ?count = "zmp s (routine_addr r s)"
  from call_frame_Ok [OF assms(1,2,3)] obtain st pc where
    frame: "4 \<le> sp s" "?count \<le> 15" "uint ?count \<le> sp s - 4"
      "s1 = s\<lparr>sp := sp s - 4 - uint ?count, fp := sp s - 4, frame_count := frame_count s + 1,
        pcp := pc, stack := st\<rparr>"
      "\<forall>k < unat ?count. st (sp s - 5 - int k) =
        (if int k < argc then args (int k) else local_default s (routine_addr r s + 1) k)"
    by (auto simp: Let_def)
  have k: "k + 1 < 16"
    using frame(2) assms(4) by (simp add: word_le_nat_alt)
  have k2: "int k < uint ?count"
    using assms(4) by (metis unat_eq_nat_uint zless_nat_eq_int_zless)
  have number: "uint (of_nat (k + 1) :: zword) = int k + 1"
    using k by (simp only: unsigned_of_nat) (simp add: take_bit_nat_eq_self)
  then have "(of_nat (k + 1) :: zword) < 16"
    using k by (simp add: word_less_def)
  then have "get_var (of_nat (k + 1)) s1 = stack_get (sp s - 4 - (int k + 1)) s1"
    using frame(4) number by (simp add: get_var_def)
  also have "\<dots> = Ok (st (sp s - 5 - int k))"
    using frame(1,3,4) assms(2) k2 by (simp add: stack_get_def algebra_simps)
  finally show ?thesis
    using frame(5) assms(4) by simp
qed

theorem call_sets_locals_witness:
  "\<exists>s1. call_frame 16 1 (\<lambda>i. 7) 1 two_locals = Ok s1 \<and> get_var 1 s1 = Ok 7 \<and> get_var 2 s1 = Ok 0"
proof -
  obtain s1 where s1: "call_frame 16 1 (\<lambda>i. 7) 1 two_locals = Ok s1"
    using two_locals_call by blast
  from call_sets_locals [OF _ _ s1, of 0] call_sets_locals [OF _ _ s1, of 1] s1 show ?thesis
    by (auto simp: two_locals_def default_setup_def routine_addr_def local_default_def
        initial_header_def)
qed

subsection \<open>Branches\<close>

text \<open>
  The offset that a branch instruction encodes: six bits when bit 6 of the first byte is set,
  otherwise a signed number of 14 bits over two bytes.
\<close>

definition branch_offset :: "zbyte \<Rightarrow> zbyte \<Rightarrow> int" where
  "branch_offset b1 b2 =
     (if b1 AND 0x40 \<noteq> 0 then uint b1 mod 64
      else
        (let v = (uint b1 mod 64) * 256 + uint b2 in
         if v < 0x2000 then v else v - 0x4000))"

lemma low6: "b AND 0x3f = take_bit 6 (b :: zbyte)"
proof -
  have "(0x3f :: zbyte) = mask 6"
    by (simp add: mask_eq_exp_minus_1)
  then show ?thesis
    by (simp add: take_bit_eq_mask)
qed

lemma uint_low6: "uint (b AND 0x3f :: zbyte) = uint b mod 64"
  by (simp only: low6 unsigned_take_bit_eq) (simp add: take_bit_eq_mod)

text \<open>The sign extension of the high byte, on all 64 values of its low six bits.\<close>

definition extend6 :: "zbyte \<Rightarrow> zbyte" where
  "extend6 x = (if x AND 0x20 \<noteq> 0 then x OR 0xc0 else x)"

lemma extend6_values:
  "list_all (\<lambda>m. uint (extend6 (word_of_int m)) = (if m < 32 then m else m + 192)) [0..63]"
  by code_simp

lemma uint_extend6:
  "uint (extend6 (b AND 0x3f)) =
    (if uint b mod 64 < 32 then uint b mod 64 else uint b mod 64 + 192)"
proof -
  let ?m = "uint b mod 64"
  have "?m \<in> set [0..63]"
    by simp
  with extend6_values have "uint (extend6 (word_of_int ?m)) = (if ?m < 32 then ?m else ?m + 192)"
    unfolding list_all_iff by blast
  moreover have "word_of_int ?m = b AND 0x3f"
    by (metis uint_low6 word_of_int_uint)
  ultimately show ?thesis
    by simp
qed

lemma offset_arith:
  "0 \<le> m \<Longrightarrow> m < 64 \<Longrightarrow> 0 \<le> l \<Longrightarrow> l < 256 \<Longrightarrow>
    u = (if m < 32 then m else m + 192) * 256 + l \<Longrightarrow>
    (if u < 0x8000 then u else u - 0x10000) =
    (let v = m * 256 + l in if v < 0x2000 then v else v - (0x4000 :: int))"
  by (auto simp: Let_def)

lemma long_offset:
  "sint (mk_word (extend6 (b1 AND 0x3f)) b2) =
    (let v = (uint b1 mod 64) * 256 + uint b2 in if v < 0x2000 then v else v - 0x4000)"
  unfolding sint_zword
  by (rule offset_arith) (simp_all add: uint_mk_word uint_extend6 uint_byte_bounds)

lemma mk_word_eq: "push_bit 8 (ucast h) OR ucast l = mk_word h l"
  by (simp add: mk_word_def)

lemma bit_test:
  "b AND 0x80 = 0 \<longleftrightarrow> \<not> bit (b :: zbyte) 7" "b AND 0x40 = 0 \<longleftrightarrow> \<not> bit (b :: zbyte) 6"
  using and_exp_eq_0_iff_not_bit [of b 7] and_exp_eq_0_iff_not_bit [of b 6] by simp_all

lemma bit_80: "bit (0x80 :: zbyte) n \<longleftrightarrow> n = 7"
proof -
  have "(0x80 :: zbyte) = 2 ^ 7"
    by simp
  then show ?thesis
    by (simp only: bit_exp_iff) auto
qed

lemma not_flag_bits:
  "(b XOR 0x80) AND 0x40 = 0 \<longleftrightarrow> b AND (0x40 :: zbyte) = 0"
  "(b XOR 0x80) AND 0x80 = 0 \<longleftrightarrow> b AND 0x80 \<noteq> (0 :: zbyte)"
  by (simp_all add: bit_test bit_xor_iff bit_80)

text \<open>The branch after its offset is known.\<close>

definition take_branch :: "bool \<Rightarrow> int \<Rightarrow> zstate \<Rightarrow> zstate res" where
  "take_branch jump off s =
     (if \<not> jump then Ok s
      else if off = 0 then ret 0 s
      else if off = 1 then ret 1 s
      else Ok (s\<lparr>pcp := pcp s + off - 2\<rparr>))"

lemma offset_word:
  "(w :: zword) > 1 \<longleftrightarrow> sint w \<noteq> 0 \<and> sint w \<noteq> 1"
  "sint (w :: zword) = 0 \<longleftrightarrow> w = 0" "sint (w :: zword) = 1 \<longleftrightarrow> w = 1"
proof -
  have eq: "w = 0 \<longleftrightarrow> uint w = 0" "w = 1 \<longleftrightarrow> uint w = 1"
    by (simp_all add: word_uint_eq_iff)
  have range: "uint w = 0 \<or> uint w = 1 \<or> 1 < uint w"
    using uint_word_bounds(1) [of w] by linarith
  from eq show "w > 1 \<longleftrightarrow> sint w \<noteq> 0 \<and> sint w \<noteq> 1" "sint w = 0 \<longleftrightarrow> w = 0" "sint w = 1 \<longleftrightarrow> w = 1"
    using range uint_word_bounds(2) [of w] by (auto simp: sint_zword word_less_def)
qed

lemma final_step:
  "(if jump then if w > 1 then Ok (s\<lparr>pcp := pcp s + sint w - 2\<rparr>) else ret w s else Ok s) =
    take_branch jump (sint (w :: zword)) s"
  by (auto simp: take_branch_def offset_word)

text \<open>
  C29. A branch is decoded as the Z-machine defines it: the first byte says on which truth value to
  branch and whether one or two bytes hold the offset; the offset is the unsigned six-bit or signed
  fourteen-bit number in them; offsets 0 and 1 return false and true, any other moves the program
  counter by the offset less two from the end of the instruction.
\<close>

theorem branch_decodes:
  assumes "in_mem (pcp s) s" and "zmp s (pcp s) AND 0x40 = 0 \<Longrightarrow> in_mem (pcp s + 1) s"
  shows "branch flag s =
    (let b1 = zmp s (pcp s); b2 = zmp s (pcp s + 1) in
     take_branch (flag = (b1 AND 0x80 \<noteq> 0)) (branch_offset b1 b2)
       (s\<lparr>pcp := pcp s + (if b1 AND 0x40 \<noteq> 0 then 1 else 2)\<rparr>))"
proof -
  let ?b1 = "zmp s (pcp s)" and ?b2 = "zmp s (pcp s + 1)"
  show ?thesis
  proof (cases "?b1 AND 0x40 = 0")
    case True
    let ?w = "mk_word (extend6 (?b1 AND 0x3f)) ?b2" and ?t = "s\<lparr>pcp := pcp s + 2\<rparr>"
    have "branch flag s =
        (if flag = (?b1 AND 0x80 \<noteq> 0) then
           if ?w > 1 then Ok (?t\<lparr>pcp := pcp ?t + sint ?w - 2\<rparr>) else ret ?w ?t
         else Ok ?t)"
      using assms True
      by (cases flag, simp_all add: branch_def Let_def not_flag_bits mk_word_eq
          flip: extend6_def, simp_all add: add.commute)
    then show ?thesis
      using True unfolding final_step by (simp add: branch_offset_def long_offset Let_def)
  next
    case False
    let ?w = "ucast (?b1 AND 0x3f) :: zword" and ?t = "s\<lparr>pcp := pcp s + 1\<rparr>"
    have "branch flag s =
        (if flag = (?b1 AND 0x80 \<noteq> 0) then
           if ?w > 1 then Ok (?t\<lparr>pcp := pcp ?t + sint ?w - 2\<rparr>) else ret ?w ?t
         else Ok ?t)"
      using assms False by (cases flag) (simp_all add: branch_def Let_def not_flag_bits)
    moreover have "sint ?w = uint ?b1 mod 64"
      using uint_low6 [of ?b1] pos_mod_bound [of 64 "uint ?b1"] by (simp add: sint_zword)
    ultimately show ?thesis
      using False unfolding final_step by (simp add: branch_offset_def Let_def)
  qed
qed

theorem branch_decodes_witness:
  "branch True (small_machine 5 [0xbf, 0xfe]) = Ok ((small_machine 5 [0xbf, 0xfe])\<lparr>pcp := 62\<rparr>)"
  using branch_decodes [of "small_machine 5 [0xbf, 0xfe]" True]
  by (simp add: Let_def take_branch_def branch_offset_def)

end
