(* ===== verification/Stack_Correct.thy ===== *)
theory Stack_Correct
  imports Interpreter Process_Correct Initial
begin

text \<open>
  The game stack as a list, the operands of an instruction, and the unwinding of frames: push and
  pull refine the operations of an abstract stack, an instruction never fills more than the eight
  places of \<open>zargs\<close>, and a throw finds the frame of the catch, however deep it is below it.
\<close>

subsection \<open>The stack as a list\<close>

text \<open>The words on the stack, the top first.\<close>

definition game_stack :: "zstate \<Rightarrow> zword list" where
  "game_stack s = map (stack s) [sp s .. STACK_SIZE - 1]"

definition stack_ok :: "zstate \<Rightarrow> bool" where
  "stack_ok s \<longleftrightarrow> 0 \<le> sp s \<and> sp s \<le> STACK_SIZE"

lemma length_game_stack: "stack_ok s \<Longrightarrow> int (length (game_stack s)) = STACK_SIZE - sp s"
  by (simp add: game_stack_def stack_ok_def)

lemma game_stack_nonempty:
  "sp s < STACK_SIZE \<Longrightarrow> game_stack s = stack s (sp s) # game_stack (s\<lparr>sp := sp s + 1\<rparr>)"
  unfolding game_stack_def by (subst upto_rec1) auto

lemma game_stack_empty: "STACK_SIZE \<le> sp s \<Longrightarrow> game_stack s = []"
  by (simp add: game_stack_def)

lemma game_stack_below:
  "p < sp s \<Longrightarrow> game_stack (s\<lparr>stack := (stack s)(p := v)\<rparr>) = game_stack s"
  by (simp add: game_stack_def)

lemma game_stack_push:
  assumes "sp s \<le> STACK_SIZE"
  shows "game_stack (s\<lparr>sp := sp s - 1, stack := (stack s)(sp s - 1 := v)\<rparr>) = v # game_stack s"
proof -
  have "[sp s - 1 .. STACK_SIZE - 1] = (sp s - 1) # [sp s .. STACK_SIZE - 1]"
    using assms by (subst upto_rec1) auto
  then show ?thesis
    by (simp add: game_stack_def)
qed

text \<open>
  The stack opcodes are those of an abstract stack of at most 1024 words: \<open>push\<close> puts a word on
  the list, \<open>pop\<close> takes the top word off it; \<open>push\<close> on a full stack and \<open>pop\<close> on an empty one are
  accesses outside the array \<open>stack\<close>.
\<close>

theorem stack_refines_list:
  assumes "stack_ok s"
  shows "(if length (game_stack s) < 1024
          then \<exists>t. push v s = Ok t \<and> stack_ok t \<and> game_stack t = v # game_stack s
          else push v s = Stop (Bad_stack (-1))) \<and>
    (case game_stack s of
       [] \<Rightarrow> pop s = Stop (Bad_stack STACK_SIZE)
     | w # ws \<Rightarrow> \<exists>t. pop s = Ok (w, t) \<and> stack_ok t \<and> game_stack t = ws)"
proof
  show "if length (game_stack s) < 1024
      then \<exists>t. push v s = Ok t \<and> stack_ok t \<and> game_stack t = v # game_stack s
      else push v s = Stop (Bad_stack (-1))"
    using assms length_game_stack [OF assms] game_stack_push [of s v]
    by (auto simp: stack_ok_def in_stack_def push_def stack_set_def)
  show "case game_stack s of
       [] \<Rightarrow> pop s = Stop (Bad_stack STACK_SIZE)
     | w # ws \<Rightarrow> \<exists>t. pop s = Ok (w, t) \<and> stack_ok t \<and> game_stack t = ws"
  proof (cases "sp s < STACK_SIZE")
    case True
    with assms show ?thesis
      by (simp add: game_stack_nonempty in_stack_def stack_ok_def)
  next
    case False
    with assms have "sp s = STACK_SIZE"
      by (simp add: stack_ok_def)
    then show ?thesis
      by (simp add: game_stack_empty pop_def stack_get_def)
  qed
qed

theorem stack_refines_list_witness:
  "\<exists>t. push 7 (small_machine 5 []) = Ok t \<and> game_stack t = [7]"
  using stack_refines_list [of "small_machine 5 []" 7]
  by (auto simp: stack_ok_def game_stack_empty)

subsection \<open>Operands\<close>

text \<open>What decoding operands may do to \<open>zargs\<close>: it fills the places from \<open>zargc\<close> on.\<close>

definition adds_args :: "int \<Rightarrow> zstate \<Rightarrow> zstate \<Rightarrow> bool" where
  "adds_args n s t \<longleftrightarrow>
     zargc s \<le> zargc t \<and> zargc t \<le> zargc s + n \<and>
     (\<forall>i. i < zargc s \<or> zargc t \<le> i \<longrightarrow> zargs t i = zargs s i)"

lemma adds_args_refl [simp]: "0 \<le> n \<Longrightarrow> adds_args n s s"
  by (simp add: adds_args_def)

lemma adds_args_trans: "adds_args m s t \<Longrightarrow> adds_args n t u \<Longrightarrow> adds_args (m + n) s u"
  by (auto simp: adds_args_def)

lemma adds_args_weaken: "adds_args m s t \<Longrightarrow> m \<le> n \<Longrightarrow> adds_args n s t"
  by (auto simp: adds_args_def)

lemma load_operand_adds: "load_operand ty s = Ok t \<Longrightarrow> adds_args 1 s t"
  by (auto simp: load_operand_def andthen_eq_Ok add_arg_def adds_args_def code_byte_def code_word_def
      pop_def split: if_splits)

lemma load_operands_adds:
  "load_operands_from is b s = Ok t \<Longrightarrow> adds_args (int (length is)) s t"
proof (induction "is" arbitrary: s)
  case Nil
  then show ?case by simp
next
  case (Cons i "is")
  show ?case
  proof (cases "drop_bit i b AND 0x03 = 3")
    case True
    with Cons.prems show ?thesis by (simp add: Let_def)
  next
    case False
    with Cons.prems obtain u where
      "load_operand (drop_bit i b AND 0x03) s = Ok u" "load_operands_from is b u = Ok t"
      by (auto simp: Let_def andthen_eq_Ok)
    then have "adds_args (1 + int (length is)) s t"
      using load_operand_adds Cons.IH adds_args_trans by blast
    then show ?thesis by simp
  qed
qed

lemma load_all_operands_adds: "load_all_operands b s = Ok t \<Longrightarrow> adds_args 4 s t"
  unfolding load_all_operands_def by (drule load_operands_adds) simp

text \<open>
  No instruction has more than eight operands: decoding the operands of a VAR instruction, with
  one or two specifier bytes, stays within the eight places of \<open>zargs\<close> and leaves the places from
  \<open>zargc\<close> on as they were.
\<close>

theorem operands_fit:
  assumes "load_var_operands opcode (s\<lparr>zargc := 0\<rparr>) = Ok t"
  shows "0 \<le> zargc t \<and> zargc t \<le> 8 \<and> (\<forall>i. i < 0 \<or> zargc t \<le> i \<longrightarrow> zargs t i = zargs s i)"
proof -
  have code: "adds_args 0 u v" if "code_byte u = Ok (b, v)" for u v b
    using that by (auto simp: code_byte_def andthen_eq_Ok adds_args_def)
  have "adds_args 8 (s\<lparr>zargc := 0\<rparr>) t"
  proof (cases "opcode = 0xec \<or> opcode = 0xfa")
    case True
    with assms obtain b1 b2 u v w where
      "code_byte (s\<lparr>zargc := 0\<rparr>) = Ok (b1, u)" "code_byte u = Ok (b2, v)"
      "load_all_operands b1 v = Ok w" "load_all_operands b2 w = Ok t"
      by (auto simp: load_var_operands_def andthen_eq_Ok)
    then have "adds_args (0 + (0 + (4 + 4))) (s\<lparr>zargc := 0\<rparr>) t"
      by (blast intro: adds_args_trans code load_all_operands_adds)
    then show ?thesis by simp
  next
    case False
    with assms obtain b u where "code_byte (s\<lparr>zargc := 0\<rparr>) = Ok (b, u)" "load_all_operands b u = Ok t"
      by (auto simp: load_var_operands_def andthen_eq_Ok)
    then have "adds_args (0 + 4) (s\<lparr>zargc := 0\<rparr>) t"
      by (blast intro: adds_args_trans code load_all_operands_adds)
    then show ?thesis
      by (rule adds_args_weaken) simp
  qed
  then show ?thesis
    by (simp add: adds_args_def)
qed

theorem operands_fit_witness:
  "\<exists>t. load_var_operands 0xec ((small_machine 5 [0x55, 0x55, 1, 2, 3, 4, 5, 6, 7, 8])\<lparr>zargc := 0\<rparr>) = Ok t \<and>
    zargc t \<le> 8"
proof -
  have "is_ok (load_var_operands 0xec
      ((small_machine 5 [0x55, 0x55, 1, 2, 3, 4, 5, 6, 7, 8])\<lparr>zargc := 0\<rparr>))"
    by code_simp
  then obtain t where
    "load_var_operands 0xec ((small_machine 5 [0x55, 0x55, 1, 2, 3, 4, 5, 6, 7, 8])\<lparr>zargc := 0\<rparr>) = Ok t"
    using is_okD by blast
  with operands_fit [OF this] show ?thesis
    by blast
qed

subsection \<open>Catch and throw\<close>

text \<open>
  \<open>deeper s n t\<close>: the game went from \<open>s\<close> to \<open>t\<close> by \<open>n\<close> calls that have not returned and by steps
  that leave the frames alone, that is the frame pointer, the count and the words from \<open>fp\<close> upwards.
\<close>

inductive deeper :: "zstate \<Rightarrow> nat \<Rightarrow> zstate \<Rightarrow> bool" for s where
  here: "deeper s 0 s"
| work: "deeper s n t \<Longrightarrow> fp u = fp t \<Longrightarrow> frame_count u = frame_count t \<Longrightarrow> f_setup u = f_setup t \<Longrightarrow>
    (\<forall>p \<ge> fp t. stack u p = stack t p) \<Longrightarrow> sp u \<le> fp u \<Longrightarrow> deeper s n u"
| enter: "deeper s n t \<Longrightarrow> call_frame r argc args ct t = Ok u \<Longrightarrow> deeper s (Suc n) u"

inductive_cases deeper_zero: "deeper s 0 t"

text \<open>The frame pointer stays at or below that of the start, and the saved frame pointers lead back.\<close>

definition caller_fp :: "(int \<Rightarrow> zword) \<Rightarrow> int \<Rightarrow> int" where
  "caller_fp st p = 1 + uint (st (p + 1))"

lemma unwind_chain:
  assumes "unat (frame_count t) = unat target + n" and "\<forall>k < n. in_stack ((caller_fp (stack t) ^^ k) (fp t) + 1)"
  shows "unwind target t = Ok (t\<lparr>fp := (caller_fp (stack t) ^^ n) (fp t), frame_count := target\<rparr>)"
  using assms
proof (induction n arbitrary: t)
  case 0
  then have "frame_count t = target"
    by (simp add: word_unat_eq_iff)
  moreover have "t\<lparr>fp := fp t, frame_count := frame_count t\<rparr> = t"
    by simp
  ultimately show ?case
    by (subst unwind.simps) auto
next
  case (Suc n)
  let ?t = "t\<lparr>fp := caller_fp (stack t) (fp t), frame_count := frame_count t - 1\<rparr>"
  have "frame_count t \<noteq> 0"
    using Suc.prems(1) by auto
  then have count: "unat (frame_count ?t) = unat target + n"
    using Suc.prems(1) by (simp add: unat_minus_one)
  have "\<forall>k < n. in_stack ((caller_fp (stack ?t) ^^ k) (fp ?t) + 1)"
    using Suc.prems(2) by (auto simp: funpow_swap1 [symmetric] dest: spec [of _ "Suc _"])
  note rest = Suc.IH [OF count this]
  have "target < frame_count t" "in_stack (fp t + 1)"
    using Suc.prems by (auto simp: word_less_nat_alt)
  then show ?case
    using rest
    by (subst unwind.simps) (simp add: caller_fp_def [of "stack t" "fp t", symmetric] funpow_swap1)
qed

lemma frame_chain_cong:
  assumes "\<And>k. k < n \<Longrightarrow> f ((f ^^ k) p) = g ((f ^^ k) p)"
  shows "(g ^^ n) p = (f ^^ n) p"
  using assms by (induction n) simp_all

text \<open>Every frame of the chain lies at or above the current one, inside the stack.\<close>

definition frames_back :: "nat \<Rightarrow> zstate \<Rightarrow> zstate \<Rightarrow> bool" where
  "frames_back n s t \<longleftrightarrow>
     (caller_fp (stack t) ^^ n) (fp t) = fp s \<and>
     (\<forall>k < n. fp t \<le> (caller_fp (stack t) ^^ k) (fp t) \<and>
       in_stack ((caller_fp (stack t) ^^ k) (fp t) + 1))"

lemma frames_back_chain:
  assumes fr: "frames_back n s t" and q: "q \<le> fp t" and st: "\<forall>p \<ge> q. stack u p = stack t p"
    and "k \<le> n"
  shows "(caller_fp (stack u) ^^ k) (fp t) = (caller_fp (stack t) ^^ k) (fp t)"
proof (rule frame_chain_cong)
  fix j
  assume "j < k"
  then have "fp t \<le> (caller_fp (stack t) ^^ j) (fp t)"
    using fr \<open>k \<le> n\<close> by (simp add: frames_back_def)
  then have "q \<le> (caller_fp (stack t) ^^ j) (fp t) + 1"
    using q by simp
  with st show "caller_fp (stack t) ((caller_fp (stack t) ^^ j) (fp t)) =
      caller_fp (stack u) ((caller_fp (stack t) ^^ j) (fp t))"
    unfolding caller_fp_def by (metis (no_types))
qed

lemma frames_back_cong:
  assumes "frames_back n s t" and "fp u = fp t" and "\<forall>p \<ge> fp t. stack u p = stack t p"
  shows "frames_back n s u"
proof -
  have chain: "(caller_fp (stack u) ^^ k) (fp t) = (caller_fp (stack t) ^^ k) (fp t)" if "k \<le> n" for k
    using frames_back_chain [OF assms(1) order_refl assms(3) that] .
  from assms show ?thesis
    unfolding frames_back_def by (auto simp: chain)
qed

lemma frames_back_enter:
  assumes fr: "frames_back n s t" and fp: "4 \<le> sp t" "sp t \<le> fp t" "fp t \<le> STACK_SIZE"
    and u: "fp u = sp t - 4" "\<forall>p \<ge> sp t. stack u p = stack t p"
      "stack u (sp t - 3) = word_of_int (fp t - 1)"
  shows "frames_back (Suc n) s u"
proof -
  have caller: "caller_fp (stack u) (fp u) = fp t"
  proof -
    have "uint (word_of_int (fp t - 1) :: zword) = fp t - 1"
      by (subst uint_word_of_int) (use fp in simp)
    moreover have "fp u + 1 = sp t - 3"
      using u by simp
    ultimately show ?thesis
      using u by (simp add: caller_fp_def)
  qed
  have chain: "(caller_fp (stack u) ^^ k) (fp t) = (caller_fp (stack t) ^^ k) (fp t)" if "k \<le> n" for k
    using frames_back_chain [OF fr fp(2) u(2) that] .
  have "fp u \<le> (caller_fp (stack u) ^^ k) (fp u) \<and> in_stack ((caller_fp (stack u) ^^ k) (fp u) + 1)"
    if "k < Suc n" for k
  proof (cases k)
    case 0
    with fp u show ?thesis by (simp add: in_stack_def)
  next
    case (Suc j)
    with that fr have "fp t \<le> (caller_fp (stack t) ^^ j) (fp t)"
        "in_stack ((caller_fp (stack t) ^^ j) (fp t) + 1)"
      by (simp_all add: frames_back_def)
    moreover have "(caller_fp (stack u) ^^ k) (fp u) = (caller_fp (stack t) ^^ j) (fp t)"
      using Suc that by (simp add: funpow_Suc_right caller chain del: funpow.simps)
    ultimately show ?thesis
      using fp u by simp
  qed
  moreover have "(caller_fp (stack u) ^^ Suc n) (fp u) = fp s"
    using fr by (simp add: funpow_swap1 caller chain frames_back_def)
  ultimately show ?thesis
    by (simp add: frames_back_def del: funpow.simps)
qed

lemma deeper_frames:
  assumes "deeper s n t" and "\<not> ignore_errors (f_setup s)" and "sp s \<le> fp s" and "fp s \<le> STACK_SIZE"
  shows "f_setup t = f_setup s \<and> frame_count t = frame_count s + of_nat n \<and> sp t \<le> fp t \<and>
    fp t \<le> fp s \<and> frames_back n s t"
  using assms
proof (induction rule: deeper.induct)
  case here
  then show ?case by (simp add: frames_back_def)
next
  case (work n t u)
  then show ?case by (auto intro: frames_back_cong)
next
  case (enter n t r argc args ct u)
  then have t: "f_setup t = f_setup s" "frame_count t = frame_count s + of_nat n" "sp t \<le> fp t"
      "fp t \<le> fp s" "frames_back n s t"
    by auto
  then have "\<not> ignore_errors (f_setup t)" "sp t \<le> STACK_SIZE"
    using enter.prems by simp_all
  from call_frame_Ok [OF this enter.hyps(2)] obtain st pc c where
    u: "4 \<le> sp t" "u = t\<lparr>sp := sp t - 4 - uint (c :: zbyte), fp := sp t - 4,
        frame_count := frame_count t + 1, pcp := pc, stack := st\<rparr>"
      "\<forall>p \<ge> sp t. st p = stack t p" "st (sp t - 3) = word_of_int (fp t - 1)"
    by (auto simp: Let_def)
  have "frames_back (Suc n) s u"
    by (rule frames_back_enter [OF t(5) u(1) t(3)]) (use t u enter.prems in simp_all)
  with t u show ?case
    using uint_byte_bounds [of c] by simp
qed

text \<open>
  C14. A throw finds the frame of its catch: from \<open>n\<close> calls deeper, however each of them used the
  stack, \<open>throw\<close> with the value that \<open>catch\<close> stores returns from the routine that did the catch,
  with either meaning of that value (a frame count, or the old stack offset).
\<close>

theorem throw_returns_to_catch:
  assumes "deeper s n t" and "\<not> ignore_errors (f_setup s)" and "0 \<le> sp s" and "sp s \<le> fp s"
    and "fp s \<le> STACK_SIZE" and "unat (frame_count s) + n < 65536"
    and "zargs t 1 = (if save_quetzal (f_setup s) then frame_count s else word_of_int (fp s))"
  shows "z_throw t = ret (zargs t 0)
    (t\<lparr>fp := fp s, frame_count := if save_quetzal (f_setup s) then frame_count s else frame_count t\<rparr>)"
proof -
  have t: "f_setup t = f_setup s" "frame_count t = frame_count s + of_nat n" "frames_back n s t"
    using deeper_frames [OF assms(1,2,4,5)] by simp_all
  have "unat (of_nat n :: zword) = n"
    using assms(6) by (simp add: unat_of_nat take_bit_nat_eq_self)
  then have count: "unat (frame_count t) = unat (frame_count s) + n"
    using t(2) assms(6) by (subst t(2), subst unat_add_lem [THEN iffD1]) simp_all
  show ?thesis
  proof (cases "save_quetzal (f_setup s)")
    case True
    have "\<not> frame_count s > frame_count t"
      using count by (simp add: word_less_nat_alt)
    moreover have "unwind (frame_count s) t = Ok (t\<lparr>fp := fp s, frame_count := frame_count s\<rparr>)"
      using unwind_chain [OF count] t(3) by (simp add: frames_back_def)
    ultimately show ?thesis
      using True assms(7) t(1) by (simp add: z_throw_def)
  next
    case False
    have "uint (word_of_int (fp s) :: zword) = fp s"
      by (subst uint_word_of_int) (use assms(3-5) in simp)
    with False assms(5,7) t(1) show ?thesis
      by (simp add: z_throw_def)
  qed
qed

text \<open>A call, a push inside the called routine, and a throw back out of it.\<close>

definition thrown :: "zstate \<Rightarrow> zword \<Rightarrow> zstate" where
  "thrown s1 v = s1\<lparr>zargs := (\<lambda>i. if i = 0 then v else 0)\<rparr>"

theorem throw_returns_to_catch_witness:
  "\<exists>s1. call_frame 16 1 (\<lambda>i. 7) 1 two_locals = Ok s1 \<and>
    z_throw (thrown s1 9) = ret 9 ((thrown s1 9)\<lparr>fp := STACK_SIZE, frame_count := 0\<rparr>)"
proof -
  obtain s1 where s1: "call_frame 16 1 (\<lambda>i. 7) 1 two_locals = Ok s1"
    using two_locals_call by blast
  have "deeper two_locals (Suc 0) s1"
    by (rule deeper.enter [OF deeper.here s1])
  moreover have "sp s1 \<le> fp s1"
    using call_frame_Ok [OF _ _ s1] uint_byte_bounds
    by (auto simp: two_locals_def default_setup_def Let_def)
  ultimately have "deeper two_locals (Suc 0) (thrown s1 9)"
    by (auto simp: thrown_def intro: deeper.work)
  from throw_returns_to_catch [OF this] s1 show ?thesis
    by (auto simp: two_locals_def default_setup_def thrown_def)
qed

end
