(* ===== verification/Arith_Correct.thy ===== *)
theory Arith_Correct
  imports Arith Output_Correct
begin

text \<open>
  The arithmetic opcodes compute in the 16-bit integers: sum, difference and product wrap around,
  quotient and remainder are those of truncated division, the two shifts are the bit operations of
  their names. A random number lies in the range asked for, and the predictable generator counts
  round and round.
\<close>

subsection \<open>Addition, subtraction, multiplication\<close>

lemma of_int_signed [simp]: "of_int (sint w) = (w :: zword)"
  by simp

text \<open>
  Sum, difference and product are those of the 16-bit words, so they wrap around: the signed casts of the
  source make no difference to the result.
\<close>

theorem arithmetic_wraps:
  "z_add s = store (zargs s 0 + zargs s 1) s \<and> z_sub s = store (zargs s 0 - zargs s 1) s \<and>
   z_mul s = store (zargs s 0 * zargs s 1) s"
  by (simp add: z_add_def z_sub_def z_mul_def)

subsection \<open>Division\<close>

lemma sint_of_sint_range:
  assumes "- 0x8000 \<le> x" and "x < 0x8000"
  shows "sint (word_of_int x :: zword) = x"
  using assms by (simp add: sint_sbintrunc' signed_take_bit_int_eq_self)

lemma sint_word_bounds: "- 0x8000 \<le> sint (w :: zword)" "sint (w :: zword) < 0x8000"
proof -
  have "(if u < 0x8000 then u else u - 0x10000) \<in> {- 0x8000 ..< 0x8000}"
    if "0 \<le> u" "u < 0x10000" for u :: int
    using that by auto
  then show "- 0x8000 \<le> sint w" "sint w < 0x8000"
    using uint_word_bounds [of w] unfolding sint_zword by force+
qed

text \<open>The quotient of two 16-bit integers fits into 16 bits, but for -32768 divided by -1.\<close>

lemma sdiv_fits:
  assumes "- 0x8000 \<le> a" and "a < 0x8000" and "b \<noteq> 0" and "\<not> (a = - 0x8000 \<and> b = - 1)"
  shows "a sdiv b < (0x8000 :: int)"
proof (cases "a = - 0x8000")
  case False
  then show ?thesis
    using sdiv_int_range [of a b] assms(1,2) by auto
next
  case True
  show ?thesis
  proof (cases "0 < b")
    case True
    then have "0 \<le> 0x8000 div b"
      by (simp add: pos_imp_zdiv_nonneg_iff)
    with True \<open>a = - 0x8000\<close> show ?thesis
      by (simp add: signed_divide_int_def)
  next
    case False
    with assms \<open>a = - 0x8000\<close> have "2 \<le> \<bar>b\<bar>"
      by auto
    then have "0x8000 div \<bar>b\<bar> \<le> 0x8000 div (2 :: int)"
      by (intro zdiv_mono2) auto
    with \<open>a = - 0x8000\<close> False show ?thesis
      by (simp add: signed_divide_int_def sgn_if)
  qed
qed

lemma zero_divisor:
  assumes "zargs s 1 = 0"
  shows "\<not> returns (z_div s) (\<lambda>t. True)" and "\<not> returns (z_mod s) (\<lambda>t. True)"
proof -
  have "keeps core (core s) (runtime_error ERR_DIV_ZERO s)"
    by (simp add: quiet_output)
  then have "post (runtime_error ERR_DIV_ZERO s) (\<lambda>t. zargs t 1 = 0)"
    unfolding keeps_def by (rule post_mono) (metis assms core_sel(6))
  then show "\<not> returns (z_div s) (\<lambda>t. True)" "\<not> returns (z_mod s) (\<lambda>t. True)"
    using assms by (auto simp: z_div_def z_mod_def returns_def post_def andthen_eq_Ok)
qed

text \<open>Quotient and remainder, cut to 16 bits.\<close>

definition quot :: "zword \<Rightarrow> zword \<Rightarrow> zword" where
  "quot a b = word_of_int (sint a sdiv sint b)"

definition remainder :: "zword \<Rightarrow> zword \<Rightarrow> zword" where
  "remainder a b = word_of_int (sint a smod sint b)"

lemma quot_remainder: "a = quot a b * b + remainder a b"
proof -
  have "word_of_int (sint a sdiv sint b * sint b + sint a smod sint b) = (word_of_int (sint a) :: zword)"
    by (simp only: sdiv_mult_smod_eq)
  then show ?thesis
    by (simp add: quot_def remainder_def)
qed

lemma sint_eq_0: "sint (b :: zword) = 0 \<longleftrightarrow> b = 0"
  by (metis sint_0 signed_word_eqI)

lemma sint_remainder: "b \<noteq> 0 \<Longrightarrow> sint (remainder a b) = sint a smod sint b"
  unfolding remainder_def
  using smod_int_range [of "sint b" "sint a"] sint_word_bounds [of b]
  by (intro sint_of_sint_range) (auto simp: sint_eq_0)

lemma remainder_small: "b \<noteq> 0 \<Longrightarrow> \<bar>sint (remainder a b)\<bar> < \<bar>sint b\<bar>"
  using smod_int_range [of "sint b" "sint a"] by (auto simp: sint_remainder sint_eq_0)

lemma remainder_sign:
  assumes "b \<noteq> 0"
  shows "remainder a b = 0 \<or> (0 < sint (remainder a b) \<longleftrightarrow> 0 < sint a)"
proof -
  have "0 \<le> \<bar>sint a\<bar> mod \<bar>sint b\<bar>"
    using assms by (simp add: sint_eq_0)
  then show ?thesis
    using sint_remainder [OF assms, of a] by (auto simp: remainder_def signed_modulo_int_def sgn_if)
qed

lemma quot_overflow: "sint a = - 0x8000 \<Longrightarrow> sint b = - 1 \<Longrightarrow> quot a b = a"
  using of_int_signed [of a] by (simp add: quot_def)

lemma sint_quot:
  assumes "b \<noteq> 0" and "\<not> (sint a = - 0x8000 \<and> sint b = - 1)"
  shows "sint (quot a b) = sint a sdiv sint b"
  unfolding quot_def
proof (rule sint_of_sint_range)
  show "- 0x8000 \<le> sint a sdiv sint b"
    using sdiv_int_range [of "sint a" "sint b"] sint_word_bounds [of a] by auto
  show "sint a sdiv sint b < 0x8000"
    using sint_word_bounds [of a] assms by (intro sdiv_fits) (simp_all add: sint_eq_0)
qed

text \<open>
  Division truncates towards zero: quotient and remainder give back the dividend, the remainder
  is smaller than the divisor and has the sign of the dividend, and only -32768 divided by -1 wraps
  around. With divisor zero neither operation returns.
\<close>

theorem division_truncates:
  fixes s defines "a \<equiv> zargs s 0" and "b \<equiv> zargs s 1"
  shows "if b = 0 then \<not> returns (z_div s) (\<lambda>t. True) \<and> \<not> returns (z_mod s) (\<lambda>t. True)
    else \<exists>q r. z_div s = store q s \<and> z_mod s = store r s \<and> a = q * b + r \<and>
      \<bar>sint r\<bar> < \<bar>sint b\<bar> \<and> (r = 0 \<or> (0 < sint r \<longleftrightarrow> 0 < sint a)) \<and>
      (if sint a = - 0x8000 \<and> sint b = - 1 then q = a else sint a = sint q * sint b + sint r)"
proof (cases "b = 0")
  case True
  then show ?thesis
    using zero_divisor [of s] by (simp add: b_def)
next
  case False
  have "z_div s = store (quot a b) s" "z_mod s = store (remainder a b) s"
    using False by (simp_all add: z_div_def z_mod_def a_def b_def quot_def remainder_def)
  moreover have "if sint a = - 0x8000 \<and> sint b = - 1 then quot a b = a
      else sint a = sint (quot a b) * sint b + sint (remainder a b)"
    using False quot_overflow sint_quot sint_remainder by (auto simp: sdiv_mult_smod_eq)
  ultimately have "\<exists>q r. z_div s = store q s \<and> z_mod s = store r s \<and> a = q * b + r \<and>
      \<bar>sint r\<bar> < \<bar>sint b\<bar> \<and> (r = 0 \<or> (0 < sint r \<longleftrightarrow> 0 < sint a)) \<and>
      (if sint a = - 0x8000 \<and> sint b = - 1 then q = a else sint a = sint q * sint b + sint r)"
    using quot_remainder remainder_small [OF False] remainder_sign [OF False] by blast
  with False show ?thesis
    by (simp only: if_False)
qed

definition seven_by_two :: zstate where
  "seven_by_two = (small_machine 5 [])\<lparr>zargs := (\<lambda>i. if i = 0 then - 7 else 2)\<rparr>"

theorem division_truncates_witness:
  "\<exists>q r. z_div seven_by_two = store q seven_by_two \<and> z_mod seven_by_two = store r seven_by_two \<and>
    - 7 = q * 2 + r \<and> (r = 0 \<or> \<not> 0 < sint r)"
  using division_truncates [of seven_by_two] by (auto simp: seven_by_two_def)

subsection \<open>Shifts\<close>

lemma sint_two_power_mult: "word_of_int (sint a * 2 ^ n) = push_bit n (a :: zword)"
  by (simp add: push_bit_eq_mult)

lemma drop_signed: "word_of_int (sint a div 2 ^ n) = signed_drop_bit n (a :: zword)"
  by (rule bit_word_eqI) (simp add: bit_simps flip: drop_bit_eq_div)

lemma drop_unsigned: "word_of_int (uint a div 2 ^ n) = drop_bit n (a :: zword)"
  by (rule bit_word_eqI) (auto simp: bit_simps simp flip: drop_bit_eq_div dest: bit_imp_le_length)

text \<open>
  The two shifts are the bit operations of their names for counts from -31 to 31, a positive count
  shifting left: the logical one fills with zeros, the arithmetic one with the sign bit. Any other
  count is an undefined shift of the C type \<open>int\<close>.
\<close>

theorem shifts_are_bit_shifts:
  fixes s defines "n \<equiv> sint (zargs s 1)"
  shows "z_log_shift s =
      (if \<bar>n\<bar> \<ge> 32 then Stop (Bad_shift n)
       else store (if 0 < n then push_bit (nat n) (zargs s 0) else drop_bit (nat (- n)) (zargs s 0)) s) \<and>
    z_art_shift s =
      (if \<bar>n\<bar> \<ge> 32 then Stop (Bad_shift n)
       else store (if 0 < n then push_bit (nat n) (zargs s 0)
                   else signed_drop_bit (nat (- n)) (zargs s 0)) s)"
proof -
  have "word_of_int (uint (zargs s 0) * 2 ^ k) = push_bit k (zargs s 0)" for k
    by (simp add: push_bit_eq_mult)
  then show ?thesis
    by (simp add: z_log_shift_def z_art_shift_def n_def Let_def sint_two_power_mult drop_signed
        drop_unsigned)
qed

subsection \<open>Random numbers\<close>

lemma mod_range:
  assumes "(0 :: zword) < n" and "sint n > 0"
  shows "1 \<le> x mod n + 1 \<and> x mod n + 1 \<le> n"
proof -
  have "uint n < 0x8000"
    using assms(2) uint_word_bounds [of n] by (simp add: sint_zword split: if_splits)
  moreover have "uint (x mod n) = uint x mod uint n"
    by (rule uint_mod)
  moreover have "uint x mod uint n < uint n" "0 \<le> uint x mod uint n"
    using assms(1) by (simp_all add: word_less_def)
  ultimately have "uint (x mod n + 1) = uint (x mod n) + 1" "uint (x mod n) < uint n"
    by (simp_all add: uint_word_ariths)
  then show ?thesis
    by (simp add: word_le_def)
qed

text \<open>
  A random number for a positive range \<open>n\<close> lies between 1 and \<open>n\<close>; the opcode changes only the
  generator and stores the number.
\<close>

theorem random_in_range:
  assumes "0 < sint (zargs s 0)"
  shows "\<exists>v r. z_random s = store v (s\<lparr>rnd := r\<rparr>) \<and> 1 \<le> v \<and> v \<le> zargs s 0"
proof -
  obtain x r where "next_random (rnd s) = (x, r)"
    by (cases "next_random (rnd s)")
  then have "z_random s = store (x mod zargs s 0 + 1) (s\<lparr>rnd := r\<rparr>)"
    using assms by (simp add: z_random_def)
  moreover have "0 < zargs s 0"
    using assms by (metis less_irrefl sint_0 word_gt_0)
  ultimately show ?thesis
    using mod_range assms by blast
qed

theorem random_in_range_witness:
  "\<exists>v r. z_random ((small_machine 5 [])\<lparr>zargs := (\<lambda>i. 6)\<rparr>) =
     store v ((small_machine 5 [])\<lparr>zargs := (\<lambda>i. 6), rnd := r\<rparr>) \<and> 1 \<le> v \<and> v \<le> 6"
  using random_in_range [of "(small_machine 5 [])\<lparr>zargs := (\<lambda>i. 6)\<rparr>"] by simp

text \<open>The generator after \<open>i\<close> numbers.\<close>

definition rng_after :: "nat \<Rightarrow> rng \<Rightarrow> rng" where
  "rng_after i = (\<lambda>r. snd (next_random r)) ^^ i"

lemma rng_after_counts:
  assumes "0 < k" and "k < 1000" and "interval r = k" and "counter r = 0"
  shows "interval (rng_after i r) = k \<and> counter (rng_after i r) = int i mod k"
proof (induction i)
  case 0
  with assms show ?case by (simp add: rng_after_def)
next
  case (Suc i)
  have "(int i mod k + 1) mod k = (int i + 1) mod k"
    by (simp add: mod_add_left_eq)
  moreover have "int i mod k < k" "0 \<le> int i mod k"
    using assms(1) by simp_all
  ultimately have "int (Suc i) mod k = (if int i mod k + 1 = k then 0 else int i mod k + 1)"
    by (auto simp: add.commute mod_pos_pos_trivial)
  with Suc assms show ?case
    by (simp add: rng_after_def next_random_def Let_def)
qed

text \<open>
  After \<open>random\<close> with a number between -999 and -1 the generator is predictable: its raw numbers
  count 0, 1, ... up to one below the magnitude of that number, and start again.
\<close>

theorem predictable_random_counts:
  assumes "0 < k" and "k < 1000"
  shows "fst (next_random (rng_after i (rnd (seed_random k s)))) = word_of_int (int i mod k)"
proof -
  have "interval (rng_after i (rnd (seed_random k s))) = k \<and>
      counter (rng_after i (rnd (seed_random k s))) = int i mod k"
    using assms by (intro rng_after_counts) (simp_all add: seed_random_def)
  with assms show ?thesis
    by (simp add: next_random_def Let_def)
qed

theorem predictable_random_counts_witness:
  "fst (next_random (rng_after 7 (rnd (seed_random 3 (small_machine 5 []))))) = 1"
  using predictable_random_counts [of 3 7 "small_machine 5 []"] by simp

end
