(* ===== verification/Tables_Correct.thy ===== *)
theory Tables_Correct
  imports Tables Output_Correct Initial
begin

text \<open>
  The table opcodes: copying a table gives the bytes it had before the copy, whether or not source
  and destination overlap; a forced forward copy over itself repeats its beginning; and searching
  finds the first entry that matches.
\<close>

subsection \<open>Addresses\<close>

lemma uint_plus_offset:
  assumes "0 \<le> i" and "uint (a :: zword) + i < 65536"
  shows "uint (a + word_of_int i) = uint a + i"
proof -
  have "uint a + i = uint (word_of_int (uint a + i) :: zword)"
    by (subst uint_word_of_int) (use assms uint_word_bounds [of a] in simp)
  then show ?thesis
    by simp
qed

text \<open>\<open>n\<close> bytes from \<open>a\<close> on, all of them in memory, without a wrap-around of the address.\<close>

definition region :: "zword \<Rightarrow> int \<Rightarrow> zstate \<Rightarrow> bool" where
  "region a n s \<longleftrightarrow> uint a + n \<le> 65536 \<and> uint a + n \<le> story_size s"

text \<open>A region that \<open>storeb\<close> writes byte by byte, without a further effect.\<close>

definition writable :: "zword \<Rightarrow> int \<Rightarrow> zstate \<Rightarrow> bool" where
  "writable a n s \<longleftrightarrow>
     region a n s \<and> (\<forall>i. 0 \<le> i \<and> i < n \<longrightarrow> plain (a + word_of_int i) s)"

lemma region_in_mem: "region a n s \<Longrightarrow> 0 \<le> i \<Longrightarrow> i < n \<Longrightarrow> in_mem (uint a + i) s"
  by (auto simp: region_def in_mem_def)

lemma region_uint: "region a n s \<Longrightarrow> 0 \<le> i \<Longrightarrow> i < n \<Longrightarrow> uint (a + word_of_int i) = uint a + i"
  by (rule uint_plus_offset) (auto simp: region_def)

lemma region_frame [simp]: "region a n (s\<lparr>zmp := m\<rparr>) = region a n s"
  by (simp add: region_def)

lemma writable_frame [simp]: "writable a n (s\<lparr>zmp := m\<rparr>) = writable a n s"
  by (simp add: writable_def plain_def)

lemma storeb_writable:
  "writable a n s \<Longrightarrow> 0 \<le> i \<Longrightarrow> i < n \<Longrightarrow>
    storeb (a + word_of_int i) v s = Ok (s\<lparr>zmp := (zmp s)(uint a + i := v)\<rparr>)"
  using region_uint [of a n s i] region_in_mem [of a n s i] by (simp add: writable_def)

subsection \<open>Copying\<close>

text \<open>Memory after the bytes with the offsets in \<open>I\<close> have been copied from \<open>a\<close> to \<open>b\<close>.\<close>

definition moved :: "int set \<Rightarrow> int \<Rightarrow> int \<Rightarrow> (int \<Rightarrow> zbyte) \<Rightarrow> int \<Rightarrow> zbyte" where
  "moved I a b m = (\<lambda>x. if x - b \<in> I then m (a + (x - b)) else m x)"

lemma copy_bytes_step:
  assumes "region a n s" and "writable b n s" and "0 \<le> i" and "i < n"
  shows "copy_bytes a b (i # is) s =
    copy_bytes a b is (s\<lparr>zmp := (zmp s)(uint b + i := zmp s (uint a + i))\<rparr>)"
  using assms region_uint [of a n s i] region_in_mem [of a n s i] storeb_writable [of b n s i] by simp

text \<open>When no byte is read after it has been overwritten, the copy is simultaneous.\<close>

lemma copy_bytes_moves:
  assumes "region a n s" and "writable b n s" and "\<forall>i \<in> set is. 0 \<le> i \<and> i < n" and "distinct is"
    and "sorted_wrt (\<lambda>i j. uint a + j \<noteq> uint b + i) is"
  shows "copy_bytes a b is s = Ok (s\<lparr>zmp := moved (set is) (uint a) (uint b) (zmp s)\<rparr>)"
  using assms
proof (induction "is" arbitrary: s)
  case Nil
  then show ?case by (simp add: moved_def)
next
  case (Cons i "is")
  let ?t = "s\<lparr>zmp := (zmp s)(uint b + i := zmp s (uint a + i))\<rparr>"
  have "copy_bytes a b (i # is) s = copy_bytes a b is ?t"
    using Cons.prems by (intro copy_bytes_step) auto
  also have "\<dots> = Ok (?t\<lparr>zmp := moved (set is) (uint a) (uint b) (zmp ?t)\<rparr>)"
    using Cons.prems by (intro Cons.IH) auto
  also have "moved (set is) (uint a) (uint b) (zmp ?t) = moved (set (i # is)) (uint a) (uint b) (zmp s)"
    using Cons.prems by (auto simp: moved_def fun_eq_iff)
  finally show ?case by simp
qed

lemma copy_bytes_append:
  "copy_bytes a b (is @ js) = (\<lambda>s. andthen (copy_bytes a b is s) (copy_bytes a b js))"
  by (induction "is") (auto simp: andthen_assoc intro!: ext)

lemma zero_bytes_clears:
  assumes "writable a n s" and "\<forall>i \<in> set is. 0 \<le> i \<and> i < n"
  shows "zero_bytes a is s = Ok (s\<lparr>zmp := (\<lambda>x. if x - uint a \<in> set is then 0 else zmp s x)\<rparr>)"
  using assms
proof (induction "is" arbitrary: s)
  case Nil
  then show ?case by simp
next
  case (Cons i "is")
  let ?t = "s\<lparr>zmp := (zmp s)(uint a + i := 0)\<rparr>"
  have "zero_bytes a (i # is) s = zero_bytes a is ?t"
    using Cons.prems storeb_writable [of a n s i 0] by simp
  also have "\<dots> = Ok (?t\<lparr>zmp := (\<lambda>x. if x - uint a \<in> set is then 0 else zmp ?t x)\<rparr>)"
    using Cons.prems by (intro Cons.IH) auto
  also have "(\<lambda>x. if x - uint a \<in> set is then 0 else zmp ?t x) =
      (\<lambda>x. if x - uint a \<in> set (i # is) then 0 else zmp s x)"
    by (auto simp: fun_eq_iff)
  finally show ?case by simp
qed

lemma sorted_wrt_upto: "sorted_wrt (<) [i..j]"
  by (induction i j rule: upto.induct) (subst upto.simps, auto)

lemma signed_size:
  "0 \<le> sint (w :: zword) \<Longrightarrow> uint w = sint w"
  using uint_word_bounds [of w] by (simp add: sint_zword split: if_splits)

text \<open>
  C40. \<open>copy_table\<close> with a destination copies the table as it was before, also when source and
  destination overlap, unless a negative size forces a forward copy onto a later part of itself;
  without a destination it clears the table.
\<close>

theorem copy_table_moves:
  fixes s defines "n \<equiv> \<bar>sint (zargs s 2)\<bar>" and "a \<equiv> uint (zargs s 0)" and "b \<equiv> uint (zargs s 1)"
  assumes "zargs s 1 = 0 \<Longrightarrow> writable (zargs s 0) (uint (zargs s 2)) s"
    and "zargs s 1 \<noteq> 0 \<Longrightarrow> region (zargs s 0) n s \<and> writable (zargs s 1) n s"
    and "0 \<le> sint (zargs s 2) \<or> b \<le> a \<or> a + n \<le> b"
  shows "z_copy_table s = Ok (s\<lparr>zmp :=
    if zargs s 1 = 0 then (\<lambda>x. if a \<le> x \<and> x < a + uint (zargs s 2) then 0 else zmp s x)
    else (\<lambda>x. if b \<le> x \<and> x < b + n then zmp s (a + (x - b)) else zmp s x)\<rparr>)"
proof (cases "zargs s 1 = 0")
  case True
  then show ?thesis
    using zero_bytes_clears [OF assms(4), of "[0..uint (zargs s 2) - 1]"]
    by (simp add: z_copy_table_def a_def diff_less_eq add.commute)
next
  case False
  have shape: "moved {0..n - 1} a b (zmp s) = (\<lambda>x. if b \<le> x \<and> x < b + n then zmp s (a + (x - b)) else zmp s x)"
    by (auto simp: moved_def fun_eq_iff)
  have forward: "copy_bytes (zargs s 0) (zargs s 1) [0..n - 1] s =
      Ok (s\<lparr>zmp := moved {0..n - 1} a b (zmp s)\<rparr>)" if "b \<le> a \<or> a + n \<le> b"
  proof -
    have "sorted_wrt (\<lambda>i j. a + j \<noteq> b + i) [0..n - 1]"
      by (rule sorted_wrt_mono_rel [OF _ sorted_wrt_upto]) (use that in auto)
    then show ?thesis
      using assms(5) False copy_bytes_moves [of "zargs s 0" n s "zargs s 1" "[0..n - 1]"]
      by (simp add: a_def b_def)
  qed
  have backward: "copy_bytes (zargs s 0) (zargs s 1) (rev [0..n - 1]) s =
      Ok (s\<lparr>zmp := moved {0..n - 1} a b (zmp s)\<rparr>)" if "a \<le> b"
  proof -
    have "sorted_wrt (\<lambda>i j. a + j \<noteq> b + i) (rev [0..n - 1])"
      unfolding sorted_wrt_rev by (rule sorted_wrt_mono_rel [OF _ sorted_wrt_upto]) (use that in auto)
    then show ?thesis
      using assms(5) False copy_bytes_moves [of "zargs s 0" n s "zargs s 1" "rev [0..n - 1]"]
      by (simp add: a_def b_def)
  qed
  have "zargs s 0 > zargs s 1 \<longleftrightarrow> b < a"
    by (simp add: a_def b_def word_less_def)
  then show ?thesis
    using False forward backward assms(6) signed_size [of "zargs s 2"] shape
    by (auto simp: z_copy_table_def n_def Let_def)
qed

text \<open>Ten bytes copied four places up, over themselves.\<close>

definition table_machine :: "zword \<Rightarrow> zstate" where
  "table_machine sz = (small_machine 5 [1, 2, 3, 4, 5, 6, 7, 8, 9, 10])
     \<lparr>zargs := (\<lambda>i. if i = 0 then 64 else if i = 1 then 68 else sz), zargc := 3\<rparr>"

lemma table_machine_regions:
  "region 64 10 (table_machine k)" "writable 68 10 (table_machine k)"
proof -
  show "region 64 10 (table_machine k)"
    by (simp add: region_def table_machine_def)
  have "plain (68 + word_of_int i) (table_machine k)" if "0 \<le> i" "i < 10" for i
  proof -
    have "uint (68 + word_of_int i :: zword) = 68 + i"
      using uint_plus_offset [of i 68] that by simp
    moreover have "68 + word_of_int i \<noteq> (17 :: zword)"
    proof
      assume "68 + word_of_int i = (17 :: zword)"
      then have "uint (68 + word_of_int i :: zword) = uint (17 :: zword)"
        by (rule arg_cong)
      with calculation that show False
        by simp
    qed
    ultimately show ?thesis
      using that by (simp add: plain_def table_machine_def word_less_def)
  qed
  then show "writable 68 10 (table_machine k)"
    by (simp add: writable_def) (simp add: region_def table_machine_def)
qed

lemma table_machine_sel:
  "zargs (table_machine k) 0 = 64" "zargs (table_machine k) 1 = 68" "zargs (table_machine k) 2 = k"
  "zmp (table_machine k) 64 = 1" "zmp (table_machine k) 65 = 2" "zmp (table_machine k) 73 = 10"
  by (simp_all add: table_machine_def)

theorem copy_table_moves_witness:
  "\<exists>m. z_copy_table (table_machine 10) = Ok ((table_machine 10)\<lparr>zmp := m\<rparr>) \<and> m 68 = 1 \<and> m 77 = 10 \<and> m 64 = 1"
proof -
  have "z_copy_table (table_machine 10) = Ok ((table_machine 10)\<lparr>zmp :=
      (\<lambda>x. if 68 \<le> x \<and> x < 78 then zmp (table_machine 10) (64 + (x - 68)) else zmp (table_machine 10) x)\<rparr>)"
    using copy_table_moves [of "table_machine 10"] table_machine_regions [of 10]
    by (simp add: table_machine_sel cong: if_cong)
  then show ?thesis
    by (intro exI conjI) (assumption, simp_all add: table_machine_sel)
qed

text \<open>A forward copy onto a later part of the table repeats its first \<open>b - a\<close> bytes.\<close>

lemma copy_bytes_repeats:
  fixes a b s defines "d \<equiv> uint b - uint a"
  assumes "region a n s" and "writable b n s" and "0 < d" and "int k \<le> n"
  shows "copy_bytes a b [0..int k - 1] s = Ok (s\<lparr>zmp := (\<lambda>x.
    if uint b \<le> x \<and> x < uint b + int k then zmp s (uint a + (x - uint b) mod d) else zmp s x)\<rparr>)"
  using assms(5)
proof (induction k)
  case 0
  have "(\<lambda>x. if uint b \<le> x \<and> x < uint b + int 0 then zmp s (uint a + (x - uint b) mod d) else zmp s x) = zmp s"
    by (auto simp: fun_eq_iff)
  then show ?case by (simp add: fun_eq_iff)
next
  case (Suc k)
  let ?m = "\<lambda>k x. if uint b \<le> x \<and> x < uint b + int k then zmp s (uint a + (x - uint b) mod d) else zmp s x"
  have read: "?m k (uint a + int k) = zmp s (uint a + int k mod d)"
  proof (cases "uint b \<le> uint a + int k")
    case True
    have "(uint a + int k - uint b) mod d = (int k - d) mod d"
      by (simp add: d_def algebra_simps)
    also have "\<dots> = int k mod d"
      by (rule minus_mod_self2)
    finally show ?thesis
      using True assms(4) by (simp add: d_def)
  next
    case False
    then have "int k mod d = int k"
      by (simp add: d_def)
    with False show ?thesis by simp
  qed
  have "copy_bytes a b [0..int (Suc k) - 1] s = copy_bytes a b [int k] (s\<lparr>zmp := ?m k\<rparr>)"
    using Suc upto_snoc [of "int k"] by (simp add: copy_bytes_append)
  also have "\<dots> = copy_bytes a b [] (s\<lparr>zmp := ?m k, zmp := (?m k)(uint b + int k := ?m k (uint a + int k))\<rparr>)"
    using Suc.prems assms(2,3) by (subst copy_bytes_step [where n = n]) simp_all
  also have "(?m k)(uint b + int k := ?m k (uint a + int k)) = ?m (Suc k)"
    unfolding read by (auto simp: fun_eq_iff)
  finally show ?case by simp
qed

text \<open>
  A negative size forces a forward copy: onto a later part of the table itself it fills the
  destination with copies of the bytes between the two addresses.
\<close>

theorem copy_table_fills:
  fixes s defines "n \<equiv> \<bar>sint (zargs s 2)\<bar>" and "a \<equiv> uint (zargs s 0)" and "b \<equiv> uint (zargs s 1)"
  assumes "region (zargs s 0) n s" and "writable (zargs s 1) n s" and "sint (zargs s 2) < 0" and "a < b"
  shows "z_copy_table s = Ok (s\<lparr>zmp := (\<lambda>x.
    if b \<le> x \<and> x < b + n then zmp s (a + (x - b) mod (b - a)) else zmp s x)\<rparr>)"
proof -
  have "zargs s 1 \<noteq> 0"
    using assms(7) uint_word_bounds [of "zargs s 0"] by (auto simp: a_def b_def)
  then have "z_copy_table s = copy_bytes (zargs s 0) (zargs s 1) [0..int (nat n) - 1] s"
    using assms(6) by (simp add: z_copy_table_def n_def Let_def)
  also have "\<dots> = Ok (s\<lparr>zmp := (\<lambda>x. if b \<le> x \<and> x < b + int (nat n)
      then zmp s (a + (x - b) mod (b - a)) else zmp s x)\<rparr>)"
    unfolding a_def b_def
    by (rule copy_bytes_repeats [OF assms(4,5)]) (use assms(7) in \<open>simp_all add: a_def b_def n_def\<close>)
  finally show ?thesis
    by (simp add: n_def)
qed

theorem copy_table_fills_witness:
  "\<exists>m. z_copy_table (table_machine (- 10)) = Ok ((table_machine (- 10))\<lparr>zmp := m\<rparr>) \<and> m 68 = 1 \<and> m 77 = 2"
proof -
  have "z_copy_table (table_machine (- 10)) = Ok ((table_machine (- 10))\<lparr>zmp :=
      (\<lambda>x. if 68 \<le> x \<and> x < 78 then zmp (table_machine (- 10)) (64 + (x - 68) mod 4)
        else zmp (table_machine (- 10)) x)\<rparr>)"
    using copy_table_fills [of "table_machine (- 10)"] table_machine_regions [of "- 10"]
    by (simp add: table_machine_sel cong: if_cong)
  then show ?thesis
    by (intro exI conjI) (assumption, simp_all add: table_machine_sel)
qed

subsection \<open>Searching\<close>

text \<open>The entry at an address matches: a word or a byte, as the form says.\<close>

definition entry_matches :: "zword \<Rightarrow> zword \<Rightarrow> zstate \<Rightarrow> zword \<Rightarrow> bool" where
  "entry_matches target form s addr \<longleftrightarrow>
     (if form AND 0x80 \<noteq> 0 then mk_word (zmp s (uint addr)) (zmp s (uint addr + 1)) = target
      else ucast (zmp s (uint addr)) = target)"

definition table_entry :: "zword \<Rightarrow> zword \<Rightarrow> nat \<Rightarrow> zword" where
  "table_entry form addr k = addr + of_nat k * (form AND 0x7f)"

lemma table_entry_simps [simp]:
  "table_entry form addr 0 = addr"
  "table_entry form (addr + (form AND 0x7f)) k = table_entry form addr (Suc k)"
  by (simp_all add: table_entry_def algebra_simps)

definition first_match :: "nat \<Rightarrow> zword \<Rightarrow> zword \<Rightarrow> zstate \<Rightarrow> zword \<Rightarrow> zword \<Rightarrow> bool" where
  "first_match n target form s addr r \<longleftrightarrow>
     (\<exists>k < n. r = table_entry form addr k \<and> entry_matches target form s r \<and>
        (\<forall>j < k. \<not> entry_matches target form s (table_entry form addr j))) \<or>
     (r = 0 \<and> (\<forall>j < n. \<not> entry_matches target form s (table_entry form addr j)))"

lemma first_match_here:
  "entry_matches target form s addr \<Longrightarrow> first_match (Suc n) target form s addr addr"
  unfolding first_match_def by (rule disjI1, rule exI [of _ 0]) simp

lemma first_match_later:
  assumes "\<not> entry_matches target form s addr" and "first_match n target form s (addr + (form AND 0x7f)) r"
  shows "first_match (Suc n) target form s addr r"
  using assms(2)
proof (unfold first_match_def [of n], elim disjE exE conjE)
  fix k
  assume "k < n" "r = table_entry form (addr + (form AND 0x7f)) k" "entry_matches target form s r"
    "\<forall>j < k. \<not> entry_matches target form s (table_entry form (addr + (form AND 0x7f)) j)"
  then show ?thesis
    unfolding first_match_def using assms(1)
    by (intro disjI1 exI [of _ "Suc k"]) (auto simp: less_Suc_eq_0_disj)
next
  assume "r = 0" "\<forall>j < n. \<not> entry_matches target form s (table_entry form (addr + (form AND 0x7f)) j)"
  then show ?thesis
    unfolding first_match_def using assms(1) by (intro disjI2) (auto simp: less_Suc_eq_0_disj)
qed

lemma scan_table_first:
  "scan_table n target form addr s = Ok r \<Longrightarrow> first_match n target form s addr r"
proof (induction n arbitrary: addr)
  case 0
  then show ?case by (simp add: first_match_def)
next
  case (Suc n)
  show ?case
  proof (cases "entry_matches target form s addr")
    case True
    with Suc.prems have "r = addr"
      by (auto simp: entry_matches_def andthen_eq_Ok low_word_eq_Ok low_byte_eq_Ok split: if_splits)
    with True show ?thesis
      by (simp add: first_match_here)
  next
    case False
    with Suc.prems have "scan_table n target form (addr + (form AND 0x7f)) s = Ok r"
      by (auto simp: entry_matches_def andthen_eq_Ok low_word_eq_Ok low_byte_eq_Ok split: if_splits)
    with False Suc.IH show ?thesis
      by (blast intro: first_match_later)
  qed
qed

text \<open>
  \<open>scan_table\<close> stores the address of the first entry that matches, and branches; it stores 0 and
  does not branch when none does. With fewer than four operands the entries are words.
\<close>

theorem scan_table_finds_first:
  assumes "z_scan_table s = Ok t"
  defines "s' \<equiv> (if zargc s < 4 then s\<lparr>zargs := (zargs s)(3 := 0x82)\<rparr> else s)"
  shows "\<exists>r. first_match (unat (zargs s' 2)) (zargs s' 0) (zargs s' 3) s' (zargs s' 1) r \<and>
    andthen (store r s') (branch (r \<noteq> 0)) = Ok t"
  using assms(1) scan_table_first
  unfolding z_scan_table_def Let_def s'_def [symmetric] andthen_eq_Ok by blast

definition scan_machine :: zstate where
  "scan_machine = (small_machine 5 [16, 0xc2, 1, 2, 3, 4])
     \<lparr>zargs := (\<lambda>i. if i = 0 then 3 else if i = 1 then 66 else if i = 2 then 4 else 1), zargc := 4\<rparr>"

theorem scan_table_finds_first_witness:
  "\<exists>t r. z_scan_table scan_machine = Ok t \<and> first_match 4 3 1 scan_machine 66 r"
proof -
  have "is_ok (z_scan_table scan_machine)"
    by code_simp
  then obtain t where "z_scan_table scan_machine = Ok t"
    using is_okD by blast
  from scan_table_finds_first [OF this] this show ?thesis
    by (auto simp: scan_machine_def)
qed

subsection \<open>Stores of the game\<close>

lemma storeb_outside:
  assumes "\<not> ignore_errors (f_setup s)" and "h_dynamic_size (hdr s) \<le> a"
  shows "\<not> returns (storeb a v s) P"
proof -
  have "err_fatal ERR_STORE_RANGE s"
    using assms(1) by (rule default_fatal) simp
  then show ?thesis
    using assms(2)
    by (simp add: storeb_def out_call_inner storeb_h_def returns_def andthen_eq_Ok)
       (simp add: inner_call_def numeral_eq_Suc runtime_error_h_def andthen_eq_Ok)
qed

lemma storew_parts: "storew a w s = andthen (storeb a (hi w) s) (storeb (a + 1) (lo w))"
  by (simp add: storew_def storew_h_def storeb_def)

lemma storeb_view:
  assumes "storeb a v s = Ok t"
  shows "h_dynamic_size (hdr t) = h_dynamic_size (hdr s)" "f_setup t = f_setup s" "story_size t = story_size s"
proof -
  have core: "core t = core s"
    using quiet_output(2) [OF refl, of s a v] assms by (auto simp: keeps_def)
  then show "f_setup t = f_setup s" "story_size t = story_size s"
    by (rule core_eq_parts)+
  from core have "h_dynamic_size (hdr (core t)) = h_dynamic_size (hdr (core s))"
    by simp
  then show "h_dynamic_size (hdr t) = h_dynamic_size (hdr s)"
    by simp
qed

text \<open>
  C20. Stores stay in dynamic memory: as long as errors are not ignored, \<open>storeb\<close> and \<open>storew\<close>, the opcodes, return
  only when every byte they write lies below \<open>h_dynamic_size\<close>, with the address computed modulo 2^16. They change
  exactly these bytes, and nothing else at all unless one of them is the flags byte at 17 (a change there
  starts and stops the transcript); where dynamic memory exists they do return.
\<close>

theorem stores_stay_dynamic:
  assumes "\<not> ignore_errors (f_setup s)" and "uint (h_dynamic_size (hdr s)) \<le> story_size s"
  shows "let d = h_dynamic_size (hdr s); a = zargs s 0 + zargs s 1; b = zargs s 0 + 2 * zargs s 1; v = zargs s 2 in
    (returns (z_storeb s) (\<lambda>t. True) \<longrightarrow> a < d) \<and>
    (a < d \<and> a \<noteq> 17 \<longrightarrow> z_storeb s = Ok (s\<lparr>zmp := (zmp s)(uint a := ucast v)\<rparr>)) \<and>
    (returns (z_storew s) (\<lambda>t. True) \<longrightarrow> b < d \<and> b + 1 < d) \<and>
    (b < d \<and> b + 1 < d \<and> b \<noteq> 17 \<and> b + 1 \<noteq> 17 \<longrightarrow>
      z_storew s = Ok (s\<lparr>zmp := (zmp s)(uint b := hi v, uint (b + 1) := lo v)\<rparr>))"
proof -
  have byte: "storeb a v s' = Ok (s'\<lparr>zmp := (zmp s')(uint a := v)\<rparr>)"
    if "a < h_dynamic_size (hdr s)" "a \<noteq> 17" "hdr s' = hdr s" "story_size s' = story_size s" for a v s'
    using that assms(2) by (simp add: plain_def set_byte_def word_less_def)
  have outside: "storeb a v s' = Ok t \<Longrightarrow> a < h_dynamic_size (hdr s')" if "\<not> ignore_errors (f_setup s')" for a v s' t
    using storeb_outside [OF that, of a v "\<lambda>t. True"] unfolding returns_def by (meson not_le)
  have first: "returns (storeb a v s) (\<lambda>t. True) \<longrightarrow> a < h_dynamic_size (hdr s)" for a v
    using outside [OF assms(1)] unfolding returns_def by blast
  have second: "returns (storew b w s) (\<lambda>t. True) \<longrightarrow> b < h_dynamic_size (hdr s) \<and> b + 1 < h_dynamic_size (hdr s)" for b w
  proof (unfold returns_def storew_parts andthen_eq_Ok, clarify)
    fix t u
    assume t: "storeb b (hi w) s = Ok t" and "storeb (b + 1) (lo w) t = Ok u"
    then show "b < h_dynamic_size (hdr s) \<and> b + 1 < h_dynamic_size (hdr s)"
      using outside [of s b "hi w" t] outside [of t "b + 1" "lo w" u] storeb_view [OF t] assms(1) by simp
  qed
  have word: "storew b w s = Ok (s\<lparr>zmp := (zmp s)(uint b := hi w, uint (b + 1) := lo w)\<rparr>)"
    if "b < h_dynamic_size (hdr s)" "b + 1 < h_dynamic_size (hdr s)" "b \<noteq> 17" "b + 1 \<noteq> 17" for b w
    using that by (simp add: storew_parts byte)
  show ?thesis
    unfolding Let_def z_storeb_def z_storew_def using first second byte [of _ s] word by blast
qed

text \<open>A machine in which the game stores a word at the beginning of memory.\<close>

definition storing_machine :: "zword \<Rightarrow> zstate" where
  "storing_machine index = (small_machine 5 [])\<lparr>zargs := (\<lambda>i. if i = 0 then 64 else if i = 1 then index else 0x102)\<rparr>"

theorem stores_stay_dynamic_witness:
  "zmp (storing_machine 3) 70 = 0 \<and> returns (z_storew (storing_machine 3)) (\<lambda>t. zmp t 70 = 1 \<and> zmp t 71 = 2) \<and>
   \<not> returns (z_storew (storing_machine 0x7e0)) (\<lambda>t. True)"
proof -
  have "\<not> ignore_errors (f_setup (storing_machine i))"
    "uint (h_dynamic_size (hdr (storing_machine i))) \<le> story_size (storing_machine i)" for i
    by (simp_all add: storing_machine_def small_machine_def initial_state_def default_setup_def)
  note stores_stay_dynamic [OF this, of 3] stores_stay_dynamic [OF this, of "0x7e0"]
  then show ?thesis
    by (simp add: Let_def storing_machine_def hi_def lo_def)
qed

end
