(* ===== verification/Object_Tree.thy ===== *)
theory Object_Tree
  imports Objects Cells Output_Correct Initial
begin

text \<open>
  The object tree. The links of the objects are cells of memory, in either layout. A tree maps every
  object to the list of its children; the parent, sibling and child links represent it when the child
  link starts a sibling chain through exactly the objects whose parent link names the object. Removing
  and inserting an object are proved to be the list operations on this view.
\<close>

subsection \<open>Links as cells\<close>

definition links_apart :: "zword \<Rightarrow> zword \<Rightarrow> zstate \<Rightarrow> bool" where
  "links_apart a b s \<longleftrightarrow> (if version s \<le> V3 then uint a \<noteq> uint b else words_apart (uint a) (uint b))"

definition link_fits :: "zword \<Rightarrow> zword \<Rightarrow> zstate \<Rightarrow> bool" where
  "link_fits a v s \<longleftrightarrow> (version s \<le> V3 \<longrightarrow> v < 256)"

lemma ucast_byte_word:
  assumes "v < (256 :: zword)"
  shows "ucast (ucast v :: zbyte) = v"
proof -
  have "uint v < 2 ^ 8"
    using assms by (simp add: word_less_def)
  then have "take_bit 8 (uint v) = uint v"
    by (simp add: take_bit_int_eq_self)
  then have "take_bit 8 v = v"
    by (simp add: word_uint_eq_iff unsigned_take_bit_eq)
  moreover have "ucast (ucast v :: zbyte) = take_bit 8 v"
    by (rule bit_word_eqI) (auto simp: bit_simps)
  ultimately show ?thesis
    by simp
qed

lemma ucast_word_byte [simp]: "ucast (ucast (b :: zbyte) :: zword) = b"
  by (rule bit_word_eqI) (auto simp: bit_simps)

lemma set_byte_version: "set_byte a v s = Ok t \<Longrightarrow> version t = version s"
  by (auto simp: set_byte_eq_Ok)

lemma link_write_version: "link_write a v s = Ok t \<Longrightarrow> version t = version s"
  by (auto simp: link_write_def set_byte_eq_Ok set_word_eq_Ok split: if_splits)

interpretation links: cells link_read link_write links_apart link_fits
proof
  fix k v s t
  assume w: "link_write k v s = Ok t" and f: "link_fits k v s"
  show "link_read k t = Ok v"
    using w f ucast_byte_word [of v] mem_words.rd_wr [of "uint k" v s t] link_write_version [OF w]
    by (auto simp: link_write_def link_read_def link_fits_def set_byte_eq_Ok split: if_splits)
next
  fix k v s t j
  assume w: "link_write k v s = Ok t" and a: "links_apart j k s"
  show "link_read j t = link_read j s"
    using w a mem_bytes.rd_wr_apart [of "uint k" "ucast v" s t "uint j"]
      mem_words.rd_wr_apart [of "uint k" v s t "uint j"] link_write_version [OF w]
    by (auto simp: link_write_def link_read_def links_apart_def split: if_splits)
next
  fix k s v
  assume "link_read k s = Ok v"
  then show "link_write k v s = Ok s"
    using mem_words.wr_rd [of "uint k" s v]
    by (auto simp: link_write_def link_read_def andthen_eq_Ok low_byte_eq_Ok set_byte_eq_Ok
        split: if_splits)
next
  fix k v s t w
  assume "link_write k v s = Ok t"
  then show "link_write k w t = link_write k w s"
    using mem_bytes.wr_wr mem_words.wr_wr link_write_version [of k v s t]
    by (auto simp: link_write_def split: if_splits)
next
  fix k s u v
  assume "link_read k s = Ok u"
  then show "\<exists>t. link_write k v s = Ok t"
    using mem_words.wr_defined [of "uint k" s u v]
    by (auto simp: link_write_def link_read_def andthen_eq_Ok low_byte_eq_Ok set_byte_eq_Ok
        split: if_splits)
next
  fix k v s t i j
  assume "link_write k v s = Ok t"
  then show "links_apart i j t = links_apart i j s"
    by (simp add: links_apart_def link_write_version)
qed

subsection \<open>The links of the objects\<close>

datatype link_field = Parent | Sibling | Child

definition field_offset :: "link_field \<Rightarrow> zstate \<Rightarrow> zword" where
  "field_offset f s =
     (case f of Parent \<Rightarrow> parent_offset s | Sibling \<Rightarrow> sibling_offset s | Child \<Rightarrow> child_offset s)"

definition base_addr :: "zword \<Rightarrow> zstate \<Rightarrow> zword" where
  "base_addr obj s =
     (if version s \<le> V3 then h_objects (hdr s) + ((obj - 1) * O1_SIZE + 62)
      else h_objects (hdr s) + ((obj - 1) * O4_SIZE + 126))"

definition link_addr :: "link_field \<Rightarrow> zword \<Rightarrow> zstate \<Rightarrow> zword" where
  "link_addr f obj s = base_addr obj s + field_offset f s"

definition link :: "link_field \<Rightarrow> zstate \<Rightarrow> zword \<Rightarrow> zword" where
  "link f s obj =
     (let a = uint (link_addr f obj s) in
      if version s \<le> V3 then ucast (zmp s a) else mk_word (zmp s a) (zmp s (a + 1)))"

text \<open>The objects 1 to \<open>n\<close>, and a table of \<open>n\<close> objects in memory.\<close>

definition valid :: "nat \<Rightarrow> zword \<Rightarrow> bool" where
  "valid n obj \<longleftrightarrow> obj \<noteq> 0 \<and> unat obj \<le> n"

definition table_end :: "nat \<Rightarrow> zstate \<Rightarrow> int" where
  "table_end n s =
     uint (h_objects (hdr s)) + (if version s \<le> V3 then 62 + int n * 9 else 126 + int n * 14)"

definition object_table :: "nat \<Rightarrow> zstate \<Rightarrow> bool" where
  "object_table n s \<longleftrightarrow> table_end n s \<le> story_size s \<and> table_end n s \<le> 65536 \<and>
     n \<le> (if version s \<le> V3 then 255 else 2000)"

lemma object_table_frame [simp]: "object_table n (s\<lparr>zmp := m\<rparr>) = object_table n s"
  by (simp add: object_table_def table_end_def)

lemma base_addr_frame [simp]: "base_addr obj (s\<lparr>zmp := m\<rparr>) = base_addr obj s"
  by (simp add: base_addr_def)

lemma link_addr_frame [simp]: "link_addr f obj (s\<lparr>zmp := m\<rparr>) = link_addr f obj s"
  by (simp add: link_addr_def field_offset_def parent_offset_def sibling_offset_def child_offset_def
      split: link_field.split)

lemma valid_uint: "valid n obj \<longleftrightarrow> 1 \<le> uint obj \<and> uint obj \<le> int n"
proof -
  have "uint obj = int (unat obj)"
    by simp
  moreover have "obj \<noteq> 0 \<longleftrightarrow> unat obj \<noteq> 0"
    by (simp add: unat_eq_zero)
  ultimately show ?thesis
    unfolding valid_def by linarith
qed

lemma object_address_Ok:
  assumes "object_table n s" and "valid n obj"
  shows "object_address obj s = Ok (base_addr obj s, s)"
proof -
  have "\<not> obj > (if version s \<le> V3 then 255 else 2000)"
    using assms by (auto simp: object_table_def valid_uint word_less_def split: if_splits)
  then show ?thesis
    by (simp add: object_address_def base_addr_def)
qed

text \<open>The entries as numbers: they do not overlap, and the link fields lie inside.\<close>

definition entry_size :: "zstate \<Rightarrow> int" where
  "entry_size s = (if version s \<le> V3 then 9 else 14)"

definition entry_start :: "zstate \<Rightarrow> zword \<Rightarrow> int" where
  "entry_start s obj =
     uint (h_objects (hdr s)) + (if version s \<le> V3 then 62 else 126) + (uint obj - 1) * entry_size s"

definition offset_num :: "link_field \<Rightarrow> zstate \<Rightarrow> int" where
  "offset_num f s =
     (case f of Parent \<Rightarrow> if version s \<le> V3 then 4 else 6
      | Sibling \<Rightarrow> if version s \<le> V3 then 5 else 8
      | Child \<Rightarrow> if version s \<le> V3 then 6 else 10)"

lemma base_addr_eq: "base_addr obj s = word_of_int (entry_start s obj)"
  by (simp add: base_addr_def entry_start_def entry_size_def algebra_simps)

lemma link_addr_eq: "link_addr f obj s = word_of_int (entry_start s obj + offset_num f s)"
  by (simp add: link_addr_def base_addr_eq field_offset_def parent_offset_def sibling_offset_def
      child_offset_def offset_num_def split: link_field.split)

lemma entry_bounds:
  assumes "object_table n s" and "valid n obj"
  shows "0 \<le> entry_start s obj" and "entry_start s obj + entry_size s \<le> table_end n s"
  using assms uint_word_bounds(1) [of "h_objects (hdr s)"]
  by (auto simp: valid_uint entry_start_def entry_size_def table_end_def)

lemma offset_bounds: "4 \<le> offset_num f s" "offset_num f s + (if version s \<le> V3 then 1 else 2) \<le> entry_size s"
  by (auto simp: offset_num_def entry_size_def split: link_field.split)

lemma uint_link_addr:
  assumes "object_table n s" and "valid n obj"
  shows "uint (link_addr f obj s) = entry_start s obj + offset_num f s"
  unfolding link_addr_eq
  by (subst uint_word_of_int)
    (use assms entry_bounds [OF assms] offset_bounds [of f s] in
      \<open>auto simp: object_table_def split: if_splits\<close>)

lemma link_in_mem:
  assumes "object_table n s" and "valid n obj"
  shows "in_mem (uint (link_addr f obj s)) s"
    and "\<not> version s \<le> V3 \<Longrightarrow> in_mem (uint (link_addr f obj s) + 1) s"
  using assms entry_bounds [OF assms] offset_bounds [of f s]
  by (auto simp: uint_link_addr in_mem_def object_table_def split: if_splits)

lemma entries_apart:
  assumes "valid n obj" and "valid n obj'" and "obj \<noteq> obj'"
  shows "entry_start s obj + entry_size s \<le> entry_start s obj' \<or>
    entry_start s obj' + entry_size s \<le> entry_start s obj"
proof -
  have "uint obj < uint obj' \<or> uint obj' < uint obj"
    using assms(3) by (auto simp: word_uint_eq_iff)
  then show ?thesis
    by (auto simp: entry_start_def entry_size_def)
qed

lemma fields_apart:
  assumes "f \<noteq> g"
  shows "\<bar>offset_num f s - offset_num g s\<bar> \<ge> (if version s \<le> V3 then 1 else 2)"
  using assms by (cases f; cases g) (simp_all add: offset_num_def)

lemma link_cells_apart:
  assumes "object_table n s" and "valid n o1" and "valid n o2" and "f \<noteq> g \<or> o1 \<noteq> o2"
  shows "links_apart (link_addr f o1 s) (link_addr g o2 s) s"
proof (cases "o1 = o2")
  case True
  then have "f \<noteq> g"
    using assms(4) by simp
  from fields_apart [OF this, of s] True assms show ?thesis
    by (auto simp: links_apart_def words_apart_def uint_link_addr split: if_splits)
next
  case False
  with assms(2,3) entries_apart [of n o1 o2 s] offset_bounds [of f s] offset_bounds [of g s] assms(1)
  show ?thesis
    by (auto simp: links_apart_def words_apart_def uint_link_addr split: if_splits)
qed

subsection \<open>Reading and writing links\<close>

lemma link_read_Ok:
  assumes "object_table n s" and "valid n obj"
  shows "link_read (link_addr f obj s) s = Ok (link f s obj)"
  using link_in_mem [OF assms, of f] by (simp add: link_read_def link_def Let_def)

lemma link_read_via:
  "object_table n t \<Longrightarrow> valid n obj \<Longrightarrow> link_addr f obj t = link_addr f obj s \<Longrightarrow>
    link_read (link_addr f obj s) t = Ok (link f t obj)"
  using link_read_Ok by metis

definition set_link :: "link_field \<Rightarrow> zword \<Rightarrow> zword \<Rightarrow> zstate \<Rightarrow> zstate" where
  "set_link f obj v s =
     (let a = uint (link_addr f obj s) in
      s\<lparr>zmp := if version s \<le> V3 then (zmp s)(a := ucast v) else (zmp s)(a := hi v, a + 1 := lo v)\<rparr>)"

lemma link_write_Ok:
  assumes "object_table n s" and "valid n obj"
  shows "link_write (link_addr f obj s) v s = Ok (set_link f obj v s)"
  using link_in_mem [OF assms, of f] by (simp add: link_write_def set_link_def Let_def)

lemma link_write_via:
  "object_table n t \<Longrightarrow> valid n obj \<Longrightarrow> link_addr f obj t = link_addr f obj s \<Longrightarrow>
    link_write (link_addr f obj s) v t = Ok (set_link f obj v t)"
  using link_write_Ok by metis

lemma set_link_frame [simp]:
  "object_table n (set_link f obj v s) = object_table n s"
  "base_addr o' (set_link f obj v s) = base_addr o' s"
  "link_addr g o' (set_link f obj v s) = link_addr g o' s"
  "version (set_link f obj v s) = version s"
  "parent_offset (set_link f obj v s) = parent_offset s"
  "sibling_offset (set_link f obj v s) = sibling_offset s"
  "child_offset (set_link f obj v s) = child_offset s"
  by (simp_all add: set_link_def Let_def parent_offset_def sibling_offset_def child_offset_def)

text \<open>A link written is read back, and no other link changes.\<close>

lemma link_set_link:
  assumes "object_table n s" and "valid n obj" and "valid n o'" and "v = 0 \<or> valid n v"
  shows "link g (set_link f obj v s) o' = (if g = f \<and> o' = obj then v else link g s o')"
proof -
  let ?t = "set_link f obj v s"
  have w: "link_write (link_addr f obj s) v s = Ok ?t"
    using assms by (simp add: link_write_Ok)
  have r: "link_read (link_addr g o' s) ?t = Ok (link g ?t o')"
    using link_read_Ok [of n ?t o' g] assms by simp
  have fits: "link_fits (link_addr f obj s) v s"
    using assms(1,4) by (auto simp: link_fits_def object_table_def valid_uint word_less_def split: if_splits)
  show ?thesis
  proof (cases "g = f \<and> o' = obj")
    case True
    then show ?thesis
      using links.rd_wr [OF w fits] r by simp
  next
    case False
    then have "links_apart (link_addr g o' s) (link_addr f obj s) s"
      using assms by (intro link_cells_apart) auto
    then have "link g ?t o' = link g s o'"
      using links.rd_wr_apart [OF w] r link_read_Ok [of n s o' g] assms by simp
    with False show ?thesis
      by (simp only: if_False)
  qed
qed

end
