(* ===== verification/Objects_Correct.thy ===== *)
theory Objects_Correct
  imports Object_Tree
begin

text \<open>
  Moving objects: \<open>unlink_object\<close>, \<open>z_remove_obj\<close> and \<open>z_insert_obj\<close> refine the operations of a
  tree whose nodes have lists of children, and touch no other byte of memory.
\<close>

subsection \<open>Sibling chains\<close>

text \<open>Following the sibling links from \<open>x\<close> to \<open>z\<close>, and a chain, which ends with 0.\<close>

fun path :: "(zword \<Rightarrow> zword) \<Rightarrow> zword \<Rightarrow> zword list \<Rightarrow> zword \<Rightarrow> bool" where
  "path sib x [] z \<longleftrightarrow> x = z"
| "path sib x (y # ys) z \<longleftrightarrow> x = y \<and> y \<noteq> 0 \<and> path sib (sib y) ys z"

definition chain :: "(zword \<Rightarrow> zword) \<Rightarrow> zword \<Rightarrow> zword list \<Rightarrow> bool" where
  "chain sib x ys \<longleftrightarrow> path sib x ys 0"

lemma chain_Cons [simp]: "chain sib x (y # ys) \<longleftrightarrow> x = y \<and> y \<noteq> 0 \<and> chain sib (sib y) ys"
  by (simp add: chain_def)

lemma path_append: "path sib x (as @ bs) z \<longleftrightarrow> (\<exists>y. path sib x as y \<and> path sib y bs z)"
  by (induction as arbitrary: x) auto

lemma chain_cong: "(\<And>y. y \<in> set ys \<Longrightarrow> f y = g y) \<Longrightarrow> chain f x ys = chain g x ys"
  unfolding chain_def by (induction ys arbitrary: x) simp_all

lemma chain_upd: "u \<notin> set ys \<Longrightarrow> chain (sib(u := v)) x ys = chain sib x ys"
  by (rule chain_cong) auto

lemma path_relink:
  "path sib x as y \<Longrightarrow> as \<noteq> [] \<Longrightarrow> distinct as \<Longrightarrow> path (sib(last as := v)) x as v"
proof (induction as arbitrary: x)
  case Nil
  then show ?case by simp
next
  case (Cons a as)
  show ?case
  proof (cases "as = []")
    case True
    with Cons.prems show ?thesis by simp
  next
    case False
    then have "last as \<noteq> a"
      using Cons.prems(3) by auto
    with False Cons show ?thesis by simp
  qed
qed

text \<open>Taking an element out of a chain.\<close>

lemma chain_remove:
  assumes "chain sib x (as @ b # bs)" and "distinct (as @ b # bs)"
  shows "if as = [] then chain sib (sib b) bs else chain (sib(last as := sib b)) x (as @ bs)"
proof (cases "as = []")
  case True
  with assms show ?thesis by simp
next
  case False
  have "path sib x as b" "path sib (sib b) bs 0"
    using assms(1) by (auto simp: chain_def path_append)
  moreover have "last as \<notin> set bs"
    using False assms(2) last_in_set [of as] by (auto simp: disjoint_iff)
  ultimately have "path (sib(last as := sib b)) x as (sib b)" "path (sib(last as := sib b)) (sib b) bs 0"
    using False assms(2) path_relink [of sib x as b "sib b"] chain_upd [of "last as" bs sib "sib b" "sib b"]
    by (simp_all add: chain_def)
  with False show ?thesis
    by (auto simp: chain_def path_append)
qed

subsection \<open>Trees\<close>

text \<open>
  The three link functions represent the tree \<open>kids\<close> on the objects 1 to \<open>n\<close>. A tree in this sense
  may contain a cycle, as the game may put an object into itself.
\<close>

definition tree ::
    "nat \<Rightarrow> (zword \<Rightarrow> zword) \<Rightarrow> (zword \<Rightarrow> zword) \<Rightarrow> (zword \<Rightarrow> zword) \<Rightarrow> (zword \<Rightarrow> zword list) \<Rightarrow> bool" where
  "tree n par sib chi kids \<longleftrightarrow>
     (\<forall>p. valid n p \<longrightarrow> chain sib (chi p) (kids p) \<and> distinct (kids p) \<and>
        set (kids p) = {c. valid n c \<and> par c = p}) \<and>
     (\<forall>c. valid n c \<longrightarrow> par c = 0 \<or> valid n (par c))"

lemma valid_nonzero: "valid n c \<Longrightarrow> c \<noteq> 0"
  by (simp add: valid_def)

lemma tree_cong:
  assumes "\<And>c. valid n c \<Longrightarrow> par c = par' c" and "\<And>c. valid n c \<Longrightarrow> sib c = sib' c"
    and "\<And>c. valid n c \<Longrightarrow> chi c = chi' c" and "tree n par sib chi kids"
  shows "tree n par' sib' chi' kids"
proof -
  have "chain sib' (chi' p) (kids p)" if "valid n p" for p
  proof -
    have "set (kids p) \<subseteq> {c. valid n c}" "chain sib (chi p) (kids p)"
      using assms(4) that by (auto simp: tree_def)
    then show ?thesis
      using assms(2,3) that chain_cong [of "kids p" sib sib' "chi p"] by auto
  qed
  moreover have "{c. valid n c \<and> par' c = p} = {c. valid n c \<and> par c = p}" for p
    using assms(1) by auto
  ultimately show ?thesis
    using assms(1,4) by (simp add: tree_def)
qed

text \<open>The tree without one object: the object is no longer in any list of children.\<close>

definition without :: "zword \<Rightarrow> (zword \<Rightarrow> zword list) \<Rightarrow> zword \<Rightarrow> zword list" where
  "without c kids = (\<lambda>p. filter (\<lambda>d. d \<noteq> c) (kids p))"

lemma without_same: "c \<notin> set (kids p) \<Longrightarrow> without c kids p = kids p"
  unfolding without_def by (rule filter_True) auto

lemma without_split:
  "kids p = as @ c # bs \<Longrightarrow> distinct (kids p) \<Longrightarrow> without c kids p = as @ bs"
  using without_same [of c "\<lambda>q. as" p] without_same [of c "\<lambda>q. bs" p] by (simp add: without_def)

lemma tree_orphan:
  assumes "tree n par sib chi kids" and "valid n c" and "par c = 0"
  shows "tree n par sib chi (without c kids)"
proof -
  have "without c kids p = kids p" if "valid n p" for p
    using assms that by (intro without_same) (auto simp: tree_def dest: valid_nonzero)
  with assms(1) show ?thesis
    by (simp add: tree_def)
qed

text \<open>Taking an object out of the chain of its parent.\<close>

lemma tree_unlink:
  assumes t: "tree n par sib chi kids" and c: "valid n c" "par c = p" "p \<noteq> 0"
    and p: "kids p = as @ c # bs"
  shows "tree n (par(c := 0))
    (if as = [] then sib(c := 0) else sib(c := 0, last as := sib c))
    (if as = [] then chi(p := sib c) else chi) (without c kids)"
    (is "tree n ?par ?sib ?chi _")
proof -
  have vp: "valid n p"
    using t c by (auto simp: tree_def)
  have dist: "distinct (as @ c # bs)" and ch: "chain sib (chi p) (as @ c # bs)"
    using t vp unfolding tree_def p [symmetric] by blast+
  have mem: "set (kids q) = {d. valid n d \<and> par d = q}" if "valid n q" for q
    using t that by (simp add: tree_def)
  have "chain ?sib (?chi q) (without c kids q)" if q: "valid n q" for q
  proof (cases "q = p")
    case True
    have "without c kids p = as @ bs"
      using p dist by (intro without_split) simp_all
    moreover have "chain ?sib (?chi p) (as @ bs)"
    proof (cases "as = []")
      case True
      with chain_remove [OF ch dist] dist show ?thesis
        by (simp add: chain_upd)
    next
      case False
      then have "c \<noteq> last as"
        using dist last_in_set [of as] by auto
      then have "sib(c := 0, last as := sib c) = sib(last as := sib c, c := 0)"
        by (rule fun_upd_twist)
      with False chain_remove [OF ch dist] dist show ?thesis
        by (simp add: chain_upd)
    qed
    ultimately show ?thesis
      using True by simp
  next
    case False
    then have "c \<notin> set (kids q)" "as \<noteq> [] \<Longrightarrow> last as \<notin> set (kids q)"
      using mem [OF q] mem [OF vp] c p last_in_set [of as] by auto
    then show ?thesis
      using t q False by (auto simp: without_same chain_upd tree_def)
  qed
  moreover have "set (without c kids q) = {d. valid n d \<and> ?par d = q}" if "valid n q" for q
    using mem [OF that] valid_nonzero [OF that] by (auto simp: without_def)
  moreover have "distinct (without c kids q)" if "valid n q" for q
    using t that by (simp add: without_def tree_def)
  ultimately show ?thesis
    using t by (simp add: tree_def)
qed

text \<open>Putting an object without a parent in front of the children of another.\<close>

lemma tree_insert:
  assumes t: "tree n par sib chi kids" and c: "valid n c" "par c = 0" and q: "valid n q"
  shows "tree n (par(c := q)) (sib(c := chi q)) (chi(q := c)) (kids(q := c # kids q))"
proof -
  have mem: "set (kids p) = {d. valid n d \<and> par d = p}" if "valid n p" for p
    using t that by (simp add: tree_def)
  then have "c \<notin> set (kids p)" if "valid n p" for p
    using that c by (auto dest: valid_nonzero)
  then show ?thesis
    using t c q mem by (auto simp: tree_def chain_upd valid_nonzero)
qed

subsection \<open>The tree in memory\<close>

definition tree_view :: "nat \<Rightarrow> zstate \<Rightarrow> (zword \<Rightarrow> zword list) \<Rightarrow> bool" where
  "tree_view n s kids \<longleftrightarrow>
     object_table n s \<and> tree n (link Parent s) (link Sibling s) (link Child s) kids"

text \<open>The bytes that hold links.\<close>

definition link_cells :: "nat \<Rightarrow> zstate \<Rightarrow> int set" where
  "link_cells n s = {a. \<exists>f obj. valid n obj \<and>
     (a = uint (link_addr f obj s) \<or> (\<not> version s \<le> V3 \<and> a = uint (link_addr f obj s) + 1))}"

definition links_only :: "nat \<Rightarrow> zstate \<Rightarrow> zstate \<Rightarrow> bool" where
  "links_only n s t \<longleftrightarrow> (\<exists>m. t = s\<lparr>zmp := m\<rparr> \<and> (\<forall>a. a \<notin> link_cells n s \<longrightarrow> m a = zmp s a))"

lemma links_only_refl: "links_only n s s"
  unfolding links_only_def by (rule exI [of _ "zmp s"]) simp

lemma links_only_trans:
  assumes "links_only n s t" and "links_only n t u"
  shows "links_only n s u"
proof -
  obtain m where m: "t = s\<lparr>zmp := m\<rparr>" "\<forall>a. a \<notin> link_cells n s \<longrightarrow> m a = zmp s a"
    using assms(1) by (auto simp: links_only_def)
  moreover from this obtain k where "u = t\<lparr>zmp := k\<rparr>" "\<forall>a. a \<notin> link_cells n t \<longrightarrow> k a = zmp t a"
    using assms(2) by (auto simp: links_only_def)
  moreover have "link_cells n t = link_cells n s"
    by (simp add: m(1) link_cells_def)
  ultimately show ?thesis
    unfolding links_only_def by (intro exI [of _ k]) simp
qed

lemma links_only_set_link: "valid n obj \<Longrightarrow> links_only n s (set_link f obj v s)"
  unfolding links_only_def set_link_def Let_def link_cells_def
  by (intro exI [of _ "if version s \<le> V3 then (zmp s)(uint (link_addr f obj s) := ucast v)
      else (zmp s)(uint (link_addr f obj s) := hi v, uint (link_addr f obj s) + 1 := lo v)"] conjI) auto

lemma link_addr_alt:
  "base_addr obj s + parent_offset s = link_addr Parent obj s"
  "base_addr obj s + sibling_offset s = link_addr Sibling obj s"
  "base_addr obj s + child_offset s = link_addr Child obj s"
  "link_addr Parent obj s + (sibling_offset s - parent_offset s) = link_addr Sibling obj s"
  by (simp_all add: link_addr_def field_offset_def)

lemma link_after:
  assumes "object_table n s" and "valid n obj" and "v = 0 \<or> valid n v" and "valid n c"
  shows "link g (set_link f obj v s) c = (if g = f then (link f s)(obj := v) else link g s) c"
  using link_set_link [OF assms(1,2,4,3)] by simp

text \<open>The walk along the siblings stops at the one before the object.\<close>

lemma sibling_loop_stops:
  assumes "object_table n s" and "path (link Sibling s) y us z" and "link Sibling s z = obj"
    and "\<forall>u \<in> set us. valid n u \<and> u \<noteq> obj" and "valid n z" and "z \<noteq> obj"
  shows "sibling_loop obj y s = Ok (link_addr Sibling z s, s)"
  using assms(2,4)
proof (induction us arbitrary: y)
  case Nil
  with assms show ?case
    by (subst sibling_loop.simps) (simp add: object_address_Ok link_addr_alt link_read_Ok Let_def)
next
  case (Cons u us)
  have "link Sibling s u \<noteq> obj"
    using Cons.prems assms(6) by (cases us) auto
  with Cons assms(1) show ?case
    by (subst sibling_loop.simps) (simp add: object_address_Ok link_addr_alt link_read_Ok Let_def)
qed

text \<open>The state that \<open>unlink_object\<close> leaves, with the elder siblings \<open>as\<close> of the object.\<close>

definition unlinked :: "zword \<Rightarrow> zword \<Rightarrow> zword list \<Rightarrow> zstate \<Rightarrow> zstate" where
  "unlinked obj p as s =
     (let older = link Sibling s obj; s2 = set_link Sibling obj 0 (set_link Parent obj 0 s) in
      if as = [] then set_link Child p older s2 else set_link Sibling (last as) older s2)"

lemma unlink_object_eq:
  assumes table: "object_table n s" and obj: "valid n obj" and p: "link Parent s obj = p" "valid n p"
    and valid: "\<forall>u \<in> set as. valid n u" and dist: "distinct (as @ obj # bs)"
    and ch: "chain (link Sibling s) (link Child s p) (as @ obj # bs)"
  shows "unlink_object obj s = Ok (unlinked obj p as s)"
proof -
  let ?s1 = "set_link Parent obj 0 s" and ?s2 = "set_link Sibling obj 0 (set_link Parent obj 0 s)"
  have keep: "link Child ?s2 p = link Child s p" "link Sibling ?s1 obj = link Sibling s obj"
    "\<And>u. valid n u \<Longrightarrow> u \<noteq> obj \<Longrightarrow> link Sibling ?s2 u = link Sibling s u"
    using table obj p by (simp_all add: link_set_link)
  have walk: "sibling_loop obj (link Child s p) ?s2 = Ok (link_addr Sibling (last as) s, ?s2)" if ne: "as \<noteq> []"
  proof -
    obtain us z where as: "as = us @ [z]"
      using ne by (cases as rule: rev_cases) auto
    then have "path (link Sibling s) (link Child s p) us z" "link Sibling s z = obj"
      using ch by (auto simp: chain_def path_append)
    moreover have "path (link Sibling ?s2) x us z \<longleftrightarrow> path (link Sibling s) x us z" for x
      using valid dist as keep(3) by (induction us arbitrary: as x) auto
    ultimately show ?thesis
      using sibling_loop_stops [of n ?s2 "link Child s p" us z obj] table valid dist as keep(3) by auto
  qed
  have first: "link Child s p = obj \<longleftrightarrow> as = []"
    using ch dist by (cases as) auto
  show ?thesis
    using table obj p first walk keep valid_nonzero [OF obj] valid_nonzero [OF p(2)] valid
    by (simp add: unlink_object_def object_address_Ok link_addr_alt link_read_via link_write_via
        unlinked_def Let_def)
qed

lemma unlinked_links:
  assumes "object_table n s" and "valid n obj" and "valid n p" and "\<forall>u \<in> set as. valid n u"
    and "link Sibling s obj = 0 \<or> valid n (link Sibling s obj)" and "valid n c"
  shows "link Parent (unlinked obj p as s) c = ((link Parent s)(obj := 0)) c"
    and "link Sibling (unlinked obj p as s) c =
      (if as = [] then (link Sibling s)(obj := 0)
       else (link Sibling s)(obj := 0, last as := link Sibling s obj)) c"
    and "link Child (unlinked obj p as s) c =
      (if as = [] then (link Child s)(p := link Sibling s obj) else link Child s) c"
  using assms by (cases "as = []"; simp add: unlinked_def Let_def link_set_link)+

lemma unlinked_frame:
  assumes "object_table n s" and "valid n obj" and "valid n p" and "\<forall>u \<in> set as. valid n u"
  shows "object_table n (unlinked obj p as s)" and "links_only n s (unlinked obj p as s)"
proof -
  show "object_table n (unlinked obj p as s)"
    using assms by (simp add: unlinked_def Let_def)
  show "links_only n s (unlinked obj p as s)"
    unfolding unlinked_def Let_def if_distrib [where f = "links_only n s"]
    using assms(2-4) by (auto intro!: links_only_trans [OF _ links_only_set_link] links_only_set_link)
qed

lemma chain_start_valid: "chain sib x ys \<Longrightarrow> \<forall>y \<in> set ys. valid n y \<Longrightarrow> x = 0 \<or> valid n x"
  by (cases ys) (auto simp: chain_def)

lemma chain_next_valid:
  assumes "chain sib x (as @ obj # bs)" and "\<forall>u \<in> set (as @ obj # bs). valid n u"
  shows "sib obj = 0 \<or> valid n (sib obj)"
  using assms by (cases bs) (auto simp: chain_def path_append)

text \<open>\<open>unlink_object\<close> takes the object out of the tree, wherever it is.\<close>

lemma unlink_object_tree:
  assumes view: "tree_view n s kids" and obj: "valid n obj"
  shows "\<exists>t. unlink_object obj s = Ok t \<and> tree_view n t (without obj kids) \<and>
    link Parent t obj = 0 \<and> links_only n s t"
proof (cases "link Parent s obj = 0")
  case True
  have "unlink_object obj s = Ok s"
    using True obj view [unfolded tree_view_def, THEN conjunct1] valid_nonzero [OF obj]
    by (simp add: unlink_object_def object_address_Ok link_addr_alt link_read_Ok Let_def)
  moreover have "tree_view n s (without obj kids)"
    using True obj view tree_orphan by (auto simp: tree_view_def)
  ultimately show ?thesis
    using True links_only_refl by blast
next
  case False
  define p where "p = link Parent s obj"
  have table: "object_table n s" and tr: "tree n (link Parent s) (link Sibling s) (link Child s) kids"
    using view by (simp_all add: tree_view_def)
  then have p: "valid n p"
    using False obj by (auto simp: tree_def p_def)
  then have kids: "chain (link Sibling s) (link Child s p) (kids p)" "distinct (kids p)"
      "set (kids p) = {c. valid n c \<and> link Parent s c = p}"
    using tr by (simp_all add: tree_def)
  then have "obj \<in> set (kids p)"
    using obj by (simp add: p_def)
  then obtain as bs where split: "kids p = as @ obj # bs"
    by (meson split_list)
  have valid: "\<forall>u \<in> set (as @ obj # bs). valid n u"
    using kids(3) unfolding split by blast
  then have va: "\<forall>u \<in> set as. valid n u" and nxt: "link Sibling s obj = 0 \<or> valid n (link Sibling s obj)"
    using chain_next_valid [OF kids(1) [unfolded split] valid] by simp_all
  let ?t = "unlinked obj p as s"
  have "unlink_object obj s = Ok ?t"
    by (rule unlink_object_eq [OF table obj p_def [symmetric] p va kids(2,1) [unfolded split]])
  moreover have "tree_view n ?t (without obj kids)"
  proof -
    have "p \<noteq> 0"
      using p by (simp add: valid_nonzero)
    note tr' = tree_unlink [OF tr obj p_def [symmetric] this split]
    have "tree n (link Parent ?t) (link Sibling ?t) (link Child ?t) (without obj kids)"
      by (rule tree_cong [OF _ _ _ tr']) (simp_all add: unlinked_links [OF table obj p va nxt])
    then show ?thesis
      using unlinked_frame [OF table obj p va] by (simp add: tree_view_def)
  qed
  moreover have "link Parent ?t obj = 0"
    using unlinked_links(1) [OF table obj p va nxt obj] by simp
  ultimately show ?thesis
    using unlinked_frame(2) [OF table obj p va] by blast
qed

text \<open>Three objects without links, and the same with object 1 inside object 2.\<close>

definition orphans :: zstate where
  "orphans = (small_machine 5 [])\<lparr>zargs := (\<lambda>i. if i = 0 then 1 else 2)\<rparr>"

definition family :: zstate where
  "family = set_link Child 2 1 (set_link Parent 1 2 orphans)"

lemma orphans_link: "link f orphans c = 0"
proof -
  have "zmp orphans = (\<lambda>a. 0)"
    by (auto simp: orphans_def fun_eq_iff)
  then show ?thesis
    by (simp add: link_def mk_word_def Let_def)
qed

lemma orphans_view: "tree_view 3 orphans (\<lambda>p. [])"
proof -
  show ?thesis
    using orphans_link
    by (auto simp: tree_view_def tree_def chain_def orphans_def object_table_def table_end_def valid_def
        initial_header_def)
qed

lemma family_view: "tree_view 3 family ((\<lambda>p. [])(2 := [1]))"
proof -
  have tr: "tree 3 (link Parent orphans) (link Sibling orphans) (link Child orphans) (\<lambda>p. [])"
    and table: "object_table 3 orphans"
    using orphans_view by (simp_all add: tree_view_def)
  have v: "valid 3 1" "valid 3 2"
    by (simp_all add: valid_def)
  note zero = orphans_link
  note ins = tree_insert [OF tr v(1) zero v(2)]
  have "tree 3 (link Parent family) (link Sibling family) (link Child family) ((\<lambda>p. [])(2 := [1]))"
    by (rule tree_cong [OF _ _ _ ins]) (use table v zero in \<open>simp_all add: family_def link_set_link\<close>)
  with table show ?thesis
    by (simp add: tree_view_def family_def)
qed

lemma family_sel [simp]: "zargs family = zargs orphans" "f_setup family = default_setup"
  by (simp_all add: family_def set_link_def Let_def orphans_def)

text \<open>
  C19. \<open>remove_obj\<close> takes the object out of its parent's list of children, keeps the order of the
  others and their children, and changes no byte of memory but links; with the debugging notes off
  it does nothing else.
\<close>

theorem remove_obj_refines_tree:
  assumes "tree_view n s kids" and "valid n (zargs s 0)" and "\<not> object_movement (f_setup s)"
  shows "\<exists>t. z_remove_obj s = Ok t \<and> tree_view n t (without (zargs s 0) kids) \<and> links_only n s t"
  using unlink_object_tree [OF assms(1,2)] assms(3) by (auto simp: z_remove_obj_def monitor_def)

theorem remove_obj_refines_tree_witness:
  "\<exists>t. z_remove_obj family = Ok t \<and> tree_view 3 t (\<lambda>p. [])"
proof -
  have "without 1 ((\<lambda>p. [])(2 := [1])) = (\<lambda>p. [])"
    by (auto simp: without_def)
  moreover have "zargs family 0 = 1" "valid 3 1"
    by (simp_all add: orphans_def valid_def)
  ultimately show ?thesis
    using remove_obj_refines_tree [OF family_view] by (auto simp: default_setup_def)
qed

text \<open>
  C17. \<open>insert_obj\<close> moves an object: it disappears from the children of its old parent and becomes
  the first child of the new one, in front of the children that one has; no byte of memory changes
  but links. This holds too when both parents are the same, and when the object is put into itself.
\<close>

theorem insert_obj_refines_tree:
  assumes view: "tree_view n s kids" and obj: "valid n (zargs s 0)" "valid n (zargs s 1)"
    and quiet: "\<not> object_movement (f_setup s)"
  defines "kids' \<equiv> without (zargs s 0) kids"
  shows "\<exists>t. z_insert_obj s = Ok t \<and>
    tree_view n t (kids'(zargs s 1 := zargs s 0 # kids' (zargs s 1))) \<and> links_only n s t"
proof -
  let ?c = "zargs s 0" and ?q = "zargs s 1"
  obtain t where t: "unlink_object ?c s = Ok t" "tree_view n t kids'" "link Parent t ?c = 0" "links_only n s t"
    using unlink_object_tree [OF view obj(1)] unfolding kids'_def by blast
  have table: "object_table n s" "object_table n t"
    using view t(2) by (simp_all add: tree_view_def)
  obtain m where m: "t = s\<lparr>zmp := m\<rparr>"
    using t(4) by (auto simp: links_only_def)
  have addr: "link_addr f o' t = link_addr f o' s" for f o'
    by (simp add: m)
  have offsets: "parent_offset t = parent_offset s" "sibling_offset t = sibling_offset s"
      "child_offset t = child_offset s"
    by (simp_all add: m parent_offset_def sibling_offset_def child_offset_def)
  have tr: "tree n (link Parent t) (link Sibling t) (link Child t) kids'"
    using t(2) by (simp add: tree_view_def)
  have child: "link Child t ?q = 0 \<or> valid n (link Child t ?q)"
  proof (rule chain_start_valid)
    show "chain (link Sibling t) (link Child t ?q) (kids' ?q)" "\<forall>c \<in> set (kids' ?q). valid n c"
      using tr obj(2) by (simp_all add: tree_def)
  qed
  let ?u = "set_link Sibling ?c (link Child t ?q) (set_link Child ?q ?c (set_link Parent ?c ?q t))"
  have "link Child (set_link Parent ?c ?q t) ?q = link Child t ?q"
    using table obj by (simp add: link_set_link)
  then have "z_insert_obj s = Ok ?u"
    using table obj quiet t(1) addr valid_nonzero [OF obj(1)] valid_nonzero [OF obj(2)]
    by (simp add: z_insert_obj_def monitor_def object_address_Ok offsets link_addr_alt link_read_via
        link_write_via Let_def)
  moreover have "tree_view n ?u (kids'(?q := ?c # kids' ?q))"
  proof -
    have "tree n (link Parent ?u) (link Sibling ?u) (link Child ?u) (kids'(?q := ?c # kids' ?q))"
      by (rule tree_cong [OF _ _ _ tree_insert [OF tr obj(1) t(3) obj(2)]])
        (use table obj child in \<open>simp_all add: link_set_link\<close>)
    with table show ?thesis
      by (simp add: tree_view_def)
  qed
  moreover have "links_only n s ?u"
    using obj by (auto intro!: links_only_trans [OF _ links_only_set_link] t(4))
  ultimately show ?thesis
    by blast
qed

theorem insert_obj_refines_tree_witness:
  "\<exists>t. z_insert_obj orphans = Ok t \<and> tree_view 3 t ((\<lambda>p. [])(2 := [1]))"
proof -
  have args: "zargs orphans 0 = 1" "zargs orphans 1 = 2" "valid 3 1" "valid 3 2"
    by (simp_all add: orphans_def valid_def)
  have none: "without 1 (\<lambda>p. []) = (\<lambda>p. [])"
    by (simp add: without_def)
  have "\<not> object_movement (f_setup orphans)"
    by (simp add: orphans_def default_setup_def)
  from insert_obj_refines_tree [OF orphans_view _ _ this] show ?thesis
    unfolding args none using args(3,4) by auto
qed

end
