(* ===== verification/Attributes_Correct.thy ===== *)
theory Attributes_Correct
  imports Objects_Correct Process_Correct
begin

text \<open>
  Attributes: the attribute bits of an object are a set of numbers, and the three opcodes are the
  insertion, the removal and the membership test of that set. They leave the object tree alone.
\<close>

definition attr_index :: "zword \<Rightarrow> nat" where
  "attr_index a = 7 - unat a mod 8"

lemma attr_bit_exact: "bit (attr_bit a) k \<longleftrightarrow> k = attr_index a"
proof -
  have "a AND 7 = a mod 8"
    using take_bit_eq_mask [of 3 a] by (simp add: take_bit_eq_mod mask_eq_exp_minus_1)
  then have "unat (a AND 7) = unat a mod 8"
    by (simp add: unat_mod)
  moreover have "bit (attr_bit a) k \<longleftrightarrow> unat (a AND 7) + k = 7"
    unfolding attr_bit_def bit_drop_bit_eq o_def bit_80 ..
  moreover have "unat a mod 8 < 8"
    by simp
  ultimately show ?thesis
    by (auto simp: attr_index_def)
qed

lemma attr_index_less: "attr_index a < 8"
  by (simp add: attr_index_def)

lemma attr_test: "v AND attr_bit a \<noteq> 0 \<longleftrightarrow> bit v (attr_index a)"
proof -
  have "v AND attr_bit a = 0 \<longleftrightarrow> \<not> bit v (attr_index a)"
  proof
    assume "v AND attr_bit a = 0"
    then have "\<not> bit (v AND attr_bit a) (attr_index a)"
      by simp
    then show "\<not> bit v (attr_index a)"
      by (simp add: bit_and_iff attr_bit_exact)
  next
    assume "\<not> bit v (attr_index a)"
    then show "v AND attr_bit a = 0"
      by (intro bit_word_eqI) (auto simp: bit_and_iff attr_bit_exact)
  qed
  then show ?thesis by simp
qed

text \<open>The byte with the attribute, and the set of the attributes of an object.\<close>

definition attr_addr :: "zstate \<Rightarrow> zword \<Rightarrow> zword \<Rightarrow> int" where
  "attr_addr s obj a = entry_start s obj + uint a div 8"

definition attrs :: "zstate \<Rightarrow> zword \<Rightarrow> zword set" where
  "attrs s obj = {a. a \<le> max_attr s \<and> bit (zmp s (attr_addr s obj a)) (attr_index a)}"

lemma attr_offset:
  assumes "a \<le> max_attr s"
  shows "uint a div 8 < (if version s \<le> V3 then 4 else 6)" and "0 \<le> uint a div 8"
proof -
  have "uint a \<le> (if version s \<le> V3 then 31 else 47)"
    using assms by (auto simp: max_attr_def word_le_def split: if_splits)
  then show "uint a div 8 < (if version s \<le> V3 then 4 else 6)"
    by (auto split: if_splits)
  show "0 \<le> uint a div 8"
    using uint_word_bounds(1) [of a] by (simp add: pos_imp_zdiv_nonneg_iff)
qed

lemma attr_word_addr:
  assumes "object_table n s" and "valid n obj" and "a \<le> max_attr s"
  shows "uint (base_addr obj s + a div 8) = attr_addr s obj a" and "in_mem (attr_addr s obj a) s"
proof -
  have "a div 8 = word_of_int (uint a div 8)"
    by (simp add: word_div_def)
  then have "base_addr obj s + a div 8 = word_of_int (attr_addr s obj a)"
    by (simp add: base_addr_eq attr_addr_def)
  moreover have range: "0 \<le> attr_addr s obj a" "attr_addr s obj a < table_end n s"
    using entry_bounds [OF assms(1,2)] attr_offset [OF assms(3)]
    by (auto simp: attr_addr_def entry_size_def split: if_splits)
  ultimately show "uint (base_addr obj s + a div 8) = attr_addr s obj a"
    using assms(1) by (simp add: uint_word_of_int object_table_def)
  show "in_mem (attr_addr s obj a) s"
    using range assms(1) by (simp add: in_mem_def object_table_def)
qed

lemma same_attr:
  assumes "attr_addr s obj a = attr_addr s obj b" and "attr_index a = attr_index b"
  shows "a = b"
proof -
  have "uint a div 8 = uint b div 8"
    using assms(1) by (simp add: attr_addr_def)
  moreover have "uint a mod 8 = uint b mod 8"
  proof -
    have "unat a mod 8 = unat b mod 8"
      using assms(2) by (simp add: attr_index_def)
    then have "int (unat a) mod 8 = int (unat b) mod 8"
      by (metis of_nat_mod of_nat_numeral)
    then show ?thesis by simp
  qed
  ultimately have "uint a = uint b"
    by (metis div_mult_mod_eq)
  then show ?thesis by (rule word_uint_eqI)
qed

lemma attr_apart:
  assumes "valid n obj" and "valid n obj'" and "a \<le> max_attr s" and "b \<le> max_attr s" and "obj \<noteq> obj'"
  shows "attr_addr s obj a \<noteq> attr_addr s obj' b"
  using entries_apart [OF assms(1,2,5), of s] attr_offset [OF assms(3)] attr_offset [OF assms(4)]
  unfolding attr_addr_def entry_size_def by (cases "version s \<le> V3") (simp_all only: if_True if_False, linarith+)

text \<open>No attribute byte holds a link.\<close>

lemma attr_not_link:
  assumes "object_table n s" and "valid n obj" and "valid n obj'" and "a \<le> max_attr s"
  shows "attr_addr s obj a \<noteq> uint (link_addr f obj' s)"
    and "\<not> version s \<le> V3 \<Longrightarrow> attr_addr s obj a \<noteq> uint (link_addr f obj' s) + 1"
proof -
  have "entry_start s obj + entry_size s \<le> entry_start s obj' \<or>
      entry_start s obj' + entry_size s \<le> entry_start s obj \<or> obj = obj'"
    using entries_apart [OF assms(2,3), of s] by blast
  then show "attr_addr s obj a \<noteq> uint (link_addr f obj' s)"
    "\<not> version s \<le> V3 \<Longrightarrow> attr_addr s obj a \<noteq> uint (link_addr f obj' s) + 1"
    unfolding uint_link_addr [OF assms(1,3)]
    using attr_offset [OF assms(4)]
    by (cases f; auto simp: attr_addr_def entry_size_def offset_num_def split: if_splits)+
qed

lemma link_attr_write:
  assumes "object_table n s" and "valid n obj" and "valid n obj'" and "a \<le> max_attr s"
  shows "link f (s\<lparr>zmp := (zmp s)(attr_addr s obj a := v)\<rparr>) obj' = link f s obj'"
  using attr_not_link [OF assms, of f] by (auto simp: link_def Let_def)

lemma tree_view_attr_write:
  assumes "tree_view n s kids" and "valid n obj" and "a \<le> max_attr s"
  shows "tree_view n (s\<lparr>zmp := (zmp s)(attr_addr s obj a := v)\<rparr>) kids"
proof -
  have table: "object_table n s" and tr: "tree n (link Parent s) (link Sibling s) (link Child s) kids"
    using assms(1) by (simp_all add: tree_view_def)
  let ?t = "s\<lparr>zmp := (zmp s)(attr_addr s obj a := v)\<rparr>"
  have "tree n (link Parent ?t) (link Sibling ?t) (link Child ?t) kids"
    by (rule tree_cong [OF _ _ _ tr]) (simp_all add: link_attr_write [OF table assms(2) _ assms(3)])
  with table show ?thesis
    by (simp add: tree_view_def)
qed

text \<open>Changing one bit of the byte changes one member of one set.\<close>

lemma attrs_write:
  assumes table: "object_table n s" and obj: "valid n obj" and a: "a \<le> max_attr s"
    and v: "\<And>k. bit v k \<longleftrightarrow> (if k = attr_index a then on else bit (zmp s (attr_addr s obj a)) k)"
    and obj': "valid n obj'"
  shows "attrs (s\<lparr>zmp := (zmp s)(attr_addr s obj a := v)\<rparr>) obj' =
    (if obj' = obj then if on then insert a (attrs s obj) else attrs s obj - {a} else attrs s obj')"
proof -
  let ?t = "s\<lparr>zmp := (zmp s)(attr_addr s obj a := v)\<rparr>"
  have same: "max_attr ?t = max_attr s" "attr_addr ?t c b = attr_addr s c b" for b c
    by (simp_all add: max_attr_def attr_addr_def entry_start_def entry_size_def)
  have member: "b \<in> attrs ?t obj' \<longleftrightarrow> (if obj' = obj \<and> b = a then on else b \<in> attrs s obj')" for b
  proof (cases "b \<le> max_attr s")
    case False
    with a show ?thesis
      by (auto simp: attrs_def same)
  next
    case True
    then show ?thesis
      using attr_apart [OF obj' obj True a] same_attr [of s obj b a] a v
      by (cases "obj' = obj"; cases "attr_addr s obj' b = attr_addr s obj a") (auto simp: attrs_def same)
  qed
  show ?thesis
    by (rule set_eqI) (use member in auto)
qed

text \<open>An attribute opcode in its plain case: a valid object and attribute, no debugging notes.\<close>

definition attr_call :: "nat \<Rightarrow> zstate \<Rightarrow> bool" where
  "attr_call n s \<longleftrightarrow> object_table n s \<and> valid n (zargs s 0) \<and> zargs s 1 \<le> max_attr s \<and>
     \<not> attribute_assignment (f_setup s) \<and> \<not> attribute_testing (f_setup s)"

lemma attr_call_not_48: "zargs s 1 \<le> max_attr s \<Longrightarrow> zargs s 1 \<noteq> 48"
  by (auto simp: max_attr_def split: if_splits)

lemma attr_opcodes:
  assumes "attr_call n s"
  defines "a \<equiv> attr_addr s (zargs s 0) (zargs s 1)"
  shows "z_set_attr s = Ok (s\<lparr>zmp := (zmp s)(a := zmp s a OR attr_bit (zargs s 1))\<rparr>)"
    and "z_clear_attr s = Ok (s\<lparr>zmp := (zmp s)(a := zmp s a AND NOT (attr_bit (zargs s 1)))\<rparr>)"
    and "z_test_attr s = branch (zargs s 1 \<in> attrs s (zargs s 0)) s"
proof -
  have call: "object_table n s" "valid n (zargs s 0)" "zargs s 1 \<le> max_attr s" "\<not> zargs s 1 > max_attr s"
    "\<not> attribute_assignment (f_setup s)" "\<not> attribute_testing (f_setup s)" "zargs s 0 \<noteq> 0"
    using assms(1) by (auto simp: attr_call_def dest: valid_nonzero)
  note simps = check_attr_def monitor_def object_address_Ok [OF call(1,2)]
    attr_word_addr [OF call(1-3)] attr_call_not_48 [OF call(3)] call(4-7) Let_def
  show "z_set_attr s = Ok (s\<lparr>zmp := (zmp s)(a := zmp s a OR attr_bit (zargs s 1))\<rparr>)"
    by (simp add: z_set_attr_def a_def simps)
  show "z_clear_attr s = Ok (s\<lparr>zmp := (zmp s)(a := zmp s a AND NOT (attr_bit (zargs s 1)))\<rparr>)"
    by (simp add: z_clear_attr_def a_def simps)
  show "z_test_attr s = branch (zargs s 1 \<in> attrs s (zargs s 0)) s"
    using call(3) by (simp add: z_test_attr_def simps attr_test attrs_def)
qed

text \<open>
  The attribute opcodes are those of a set: \<open>set_attr\<close> inserts the number, \<open>clear_attr\<close> removes
  it and \<open>test_attr\<close> branches on membership. The attributes of the other objects and the object tree
  stay as they are.
\<close>

theorem attributes_refine_sets:
  assumes "attr_call n s"
  defines "obj \<equiv> zargs s 0" and "a \<equiv> zargs s 1"
  shows "(\<exists>t. z_set_attr s = Ok t \<and>
      (\<forall>c. valid n c \<longrightarrow> attrs t c = ((attrs s)(obj := insert a (attrs s obj))) c) \<and>
      (\<forall>kids. tree_view n s kids \<longrightarrow> tree_view n t kids)) \<and>
    (\<exists>t. z_clear_attr s = Ok t \<and>
      (\<forall>c. valid n c \<longrightarrow> attrs t c = ((attrs s)(obj := attrs s obj - {a})) c) \<and>
      (\<forall>kids. tree_view n s kids \<longrightarrow> tree_view n t kids)) \<and>
    z_test_attr s = branch (a \<in> attrs s obj) s"
proof -
  have call: "object_table n s" "valid n obj" "a \<le> max_attr s"
    using assms(1) by (simp_all add: attr_call_def obj_def a_def)
  note ops = attr_opcodes [OF assms(1), folded obj_def a_def]
  have set: "bit (w OR attr_bit a) k \<longleftrightarrow> (if k = attr_index a then True else bit w k)" for w k
    by (simp add: bit_or_iff attr_bit_exact)
  have clear: "bit (w AND NOT (attr_bit a)) k \<longleftrightarrow> (if k = attr_index a then False else bit w k)" for w k
    using bit_imp_le_length [of w k] by (auto simp: bit_and_iff bit_not_iff attr_bit_exact)
  show ?thesis
    unfolding ops
    using attrs_write [OF call set] attrs_write [OF call clear] tree_view_attr_write [OF _ call(2,3)]
    by auto
qed

theorem attributes_refine_sets_witness:
  "\<exists>t. z_set_attr family = Ok t \<and> 2 \<in> attrs t 1 \<and> tree_view 3 t ((\<lambda>p. [])(2 := [1]))"
proof -
  have "attr_call 3 family"
    using family_view by (simp add: attr_call_def tree_view_def) (simp add: valid_def orphans_def
      max_attr_def default_setup_def family_def)
  from attributes_refine_sets [OF this] family_view show ?thesis
    by (auto simp: orphans_def valid_def)
qed

end
