(* ===== verification/Properties_Correct.thy ===== *)
theory Properties_Correct
  imports Object_Tree Process_Correct
begin

text \<open>
  Property lists. In memory a property list is a sequence of entries, a header of one or two bytes
  and the data, in descending order of their numbers, with a zero byte at the end. As a list of
  numbers with their data it is an association list; the opcodes look up, update and enumerate it.
\<close>

subsection \<open>Property lists in memory\<close>

definition prop_num :: "zstate \<Rightarrow> int \<Rightarrow> zword" where
  "prop_num s a = prop_id (zmp s a) s"

definition prop_head :: "zstate \<Rightarrow> int \<Rightarrow> int" where
  "prop_head s a = (if version s \<le> V3 \<or> zmp s a AND 0x80 = 0 then 1 else 2)"

definition prop_len :: "zstate \<Rightarrow> int \<Rightarrow> int" where
  "prop_len s a =
     (if version s \<le> V3 then uint (drop_bit 5 (zmp s a)) + 1
      else if zmp s a AND 0x80 = 0 then uint (drop_bit 6 (zmp s a)) + 1
      else (let l = zmp s (a + 1) AND 0x3f in if l = 0 then 64 else uint l))"

definition prop_next :: "zstate \<Rightarrow> int \<Rightarrow> int" where
  "prop_next s a = a + prop_head s a + prop_len s a"

text \<open>An entry within memory, and its data.\<close>

definition prop_fits :: "zstate \<Rightarrow> int \<Rightarrow> bool" where
  "prop_fits s a \<longleftrightarrow> 0 \<le> a \<and> prop_next s a < 65536 \<and> prop_next s a < story_size s"

definition prop_data :: "zstate \<Rightarrow> int \<Rightarrow> zbyte list" where
  "prop_data s a = map (zmp s) [a + prop_head s a .. prop_next s a - 1]"

fun props_at :: "zstate \<Rightarrow> int \<Rightarrow> (zword \<times> zbyte list) list \<Rightarrow> bool" where
  "props_at s a [] \<longleftrightarrow> in_mem a s \<and> a < 65536 \<and> prop_num s a = 0"
| "props_at s a ((k, d) # ps) \<longleftrightarrow>
     k = prop_num s a \<and> k \<noteq> 0 \<and> d = prop_data s a \<and> prop_fits s a \<and>
     (\<forall>k' \<in> fst ` set ps. k' < k) \<and> props_at s (prop_next s a) ps"

text \<open>Where the search for number \<open>n\<close> stops.\<close>

fun prop_pos :: "zstate \<Rightarrow> int \<Rightarrow> (zword \<times> zbyte list) list \<Rightarrow> zword \<Rightarrow> int" where
  "prop_pos s a [] n = a"
| "prop_pos s a ((k, d) # ps) n = (if k \<le> n then a else prop_pos s (prop_next s a) ps n)"

lemma prop_head_bounds: "1 \<le> prop_head s a" "prop_head s a \<le> 2"
  by (simp_all add: prop_head_def)

lemma prop_len_pos: "1 \<le> prop_len s a"
proof -
  have "1 \<le> uint (zmp s (a + 1) AND 0x3f)" if "zmp s (a + 1) AND 0x3f \<noteq> 0"
  proof -
    have "uint (zmp s (a + 1) AND 0x3f) \<noteq> 0"
      using that by (simp only: word_uint_eq_iff) simp
    then show ?thesis
      using uint_byte_bounds(1) [of "zmp s (a + 1) AND 0x3f"] by linarith
  qed
  then show ?thesis
    using uint_byte_bounds(1) [of "drop_bit 5 (zmp s a)"] uint_byte_bounds(1) [of "drop_bit 6 (zmp s a)"]
    by (simp add: prop_len_def Let_def)
qed

lemma prop_next_greater: "a + 2 \<le> prop_next s a"
  using prop_head_bounds [of s a] prop_len_pos [of s a] by (simp add: prop_next_def)

lemma prop_fits_in_mem:
  "prop_fits s a \<Longrightarrow> a \<le> x \<Longrightarrow> x \<le> prop_next s a \<Longrightarrow> in_mem x s"
  by (simp add: prop_fits_def in_mem_def)

lemma length_prop_data: "int (length (prop_data s a)) = prop_len s a"
  using prop_len_pos [of s a] by (simp add: prop_data_def prop_next_def)

lemma uint_word_of_addr: "0 \<le> a \<Longrightarrow> a < 65536 \<Longrightarrow> uint (word_of_int a :: zword) = a"
  by (simp add: uint_word_of_int)

lemma word_of_byte: "word_of_int (uint (b :: zbyte)) = (ucast b :: zword)"
  by (rule word_uint_eqI) (use uint_byte_bounds [of b] in \<open>simp add: uint_word_of_int\<close>)

text \<open>The code's step from one entry to the next.\<close>

lemma next_property_Ok:
  assumes "prop_fits s a"
  shows "next_property (word_of_int a) s = Ok (word_of_int (prop_next s a))"
proof -
  have a: "0 \<le> a" "a + 1 < 65536" "in_mem a s" "in_mem (a + 1) s"
    using assms prop_next_greater [of a s] by (auto simp: prop_fits_def in_mem_def)
  have next_byte: "uint (word_of_int a + 1 :: zword) = a + 1"
    using uint_word_of_addr [of "a + 1"] a by (simp add: add.commute)
  show ?thesis
  proof (cases "version s \<le> V3")
    case True
    with a show ?thesis
      by (simp add: next_property_def uint_word_of_addr prop_next_def prop_head_def prop_len_def word_of_byte)
  next
    case wide: False
    show ?thesis
    proof (cases "zmp s a AND 0x80 = 0")
      case True
      with a wide show ?thesis
        by (simp add: next_property_def uint_word_of_addr prop_next_def prop_head_def prop_len_def word_of_byte)
    next
      case False
      with a wide next_byte show ?thesis
        by (simp add: next_property_def uint_word_of_addr prop_next_def prop_head_def prop_len_def Let_def
            word_of_byte)
    qed
  qed
qed

lemma props_at_start:
  "props_at s a ps \<Longrightarrow> 0 \<le> a \<and> a < 65536 \<and> in_mem a s"
  using prop_next_greater [of a s] by (cases ps) (auto simp: prop_fits_def in_mem_def)

lemma read_header: "props_at s a ps \<Longrightarrow> low_byte (uint (word_of_int a :: zword)) s = Ok (zmp s a)"
  using props_at_start [of s a ps] by (simp add: uint_word_of_addr)

lemma scan_property_stops:
  "props_at s a ps \<Longrightarrow>
    scan_property n (word_of_int a) s = Ok (word_of_int (prop_pos s a ps n), zmp s (prop_pos s a ps n))"
proof (induction ps arbitrary: a)
  case Nil
  then show ?case
    using read_header [OF Nil]
    by (subst scan_property.simps) (simp add: prop_num_def)
next
  case (Cons p ps)
  obtain k d where p: "p = (k, d)"
    by (cases p)
  note header = read_header [OF Cons.prems]
  have k: "prop_id (zmp s a) s = k" and fits: "prop_fits s a" and rest: "props_at s (prop_next s a) ps"
    using Cons.prems by (simp_all add: p prop_num_def)
  show ?case
    by (subst scan_property.simps) (simp add: header k p next_property_Ok [OF fits] Cons.IH [OF rest])
qed

text \<open>The place found: the entry with number \<open>n\<close> and its data when there is one.\<close>

lemma prop_pos_found:
  assumes "props_at s a ps" and "map_of ps n = Some d"
  shows "prop_num s (prop_pos s a ps n) = n \<and> prop_data s (prop_pos s a ps n) = d \<and>
    prop_fits s (prop_pos s a ps n) \<and> a \<le> prop_pos s a ps n"
  using assms
proof (induction ps arbitrary: a)
  case Nil
  then show ?case by simp
next
  case (Cons p ps)
  obtain k e where p: "p = (k, e)"
    by (cases p)
  show ?case
  proof (cases "k = n")
    case True
    with Cons.prems show ?thesis by (simp add: p)
  next
    case False
    then have rest: "map_of ps n = Some d"
      using Cons.prems(2) by (simp add: p)
    then have "n \<in> fst ` set ps"
      by (auto simp: image_iff dest!: map_of_SomeD intro!: bexI [of _ "(n, d)"])
    then have "\<not> k \<le> n"
      using Cons.prems(1) by (auto simp: p not_le)
    then show ?thesis
      using Cons rest prop_next_greater [of a s] by (fastforce simp: p)
  qed
qed

lemma prop_pos_missing:
  assumes "props_at s a ps" and "map_of ps n = None" and "n \<noteq> 0"
  shows "prop_num s (prop_pos s a ps n) \<noteq> n"
  using assms
proof (induction ps arbitrary: a)
  case Nil
  then show ?case by auto
next
  case (Cons p ps)
  then show ?case by (cases p) (auto split: if_splits)
qed

subsection \<open>The property list of an object\<close>

definition prop_table :: "zstate \<Rightarrow> zword \<Rightarrow> int" where
  "prop_table s obj =
     (let a = entry_start s obj + (if version s \<le> V3 then 7 else 12) in
      uint (mk_word (zmp s a) (zmp s (a + 1))))"

definition prop_first :: "zstate \<Rightarrow> zword \<Rightarrow> int" where
  "prop_first s obj = prop_table s obj + 1 + 2 * uint (zmp s (prop_table s obj))"

text \<open>The properties of an object; property tables lie behind the object table.\<close>

definition props_of :: "nat \<Rightarrow> zstate \<Rightarrow> zword \<Rightarrow> (zword \<times> zbyte list) list \<Rightarrow> bool" where
  "props_of n s obj ps \<longleftrightarrow> object_table n s \<and> valid n obj \<and> table_end n s \<le> prop_table s obj \<and>
     props_at s (prop_first s obj) ps"

lemma first_property_Ok:
  assumes "props_of n s obj ps"
  shows "first_property obj s = Ok (word_of_int (prop_first s obj), s)"
proof -
  have table: "object_table n s" and obj: "valid n obj"
    and first: "0 \<le> prop_first s obj" "prop_first s obj < 65536" "in_mem (prop_first s obj) s"
    using assms props_at_start by (auto simp: props_of_def)
  define off where "off = (if version s \<le> V3 then 7 else 12 :: int)"
  have range: "0 \<le> entry_start s obj + off" "entry_start s obj + off + 1 < table_end n s"
    using entry_bounds [OF table obj] by (auto simp: off_def entry_size_def split: if_splits)
  have cell: "uint (base_addr obj s + (if version s \<le> V3 then O1_PROPERTY_OFFSET else O4_PROPERTY_OFFSET)) =
      entry_start s obj + off"
  proof -
    have "base_addr obj s + (if version s \<le> V3 then O1_PROPERTY_OFFSET else O4_PROPERTY_OFFSET) =
        word_of_int (entry_start s obj + off)"
      by (simp add: base_addr_eq off_def)
    then show ?thesis
      using range table uint_word_of_addr [of "entry_start s obj + off"] by (simp add: object_table_def)
  qed
  have mem: "in_mem (entry_start s obj + off) s" "in_mem (entry_start s obj + off + 1) s"
    using range table by (auto simp: in_mem_def object_table_def)
  have name: "object_name obj s = Ok (word_of_int (prop_table s obj), s)"
    using mem cell
    by (simp add: object_name_def object_address_Ok [OF table obj] Let_def prop_table_def off_def)
  have tab: "0 \<le> prop_table s obj" "prop_table s obj < 65536" "in_mem (prop_table s obj) s"
  proof -
    show bounds: "0 \<le> prop_table s obj" "prop_table s obj < 65536"
      unfolding prop_table_def Let_def by (rule uint_word_bounds)+
    show "in_mem (prop_table s obj) s"
      using first bounds uint_byte_bounds(1) [of "zmp s (prop_table s obj)"]
      unfolding in_mem_def prop_first_def by linarith
  qed
  show ?thesis
    using name tab by (simp add: first_property_def uint_word_of_addr prop_first_def word_of_byte)
qed

subsection \<open>Looking up\<close>

text \<open>
  A property that \<open>get_prop\<close> and \<open>put_prop\<close> are for has one header byte; its value is its byte or
  its first two bytes.
\<close>

definition prop_value :: "zbyte list \<Rightarrow> zword" where
  "prop_value d = (if length d = 1 then ucast (d ! 0) else mk_word (d ! 0) (d ! 1))"

definition plain_prop :: "zstate \<Rightarrow> zword \<Rightarrow> (zword \<times> zbyte list) list \<Rightarrow> zword \<Rightarrow> bool" where
  "plain_prop s obj ps n \<longleftrightarrow> prop_head s (prop_pos s (prop_first s obj) ps n) = 1"

lemma high_bits_zero:
  "v AND 0xe0 = 0 \<longleftrightarrow> drop_bit 5 v = (0 :: zbyte)" "v AND 0xc0 = 0 \<longleftrightarrow> drop_bit 6 v = (0 :: zbyte)"
proof -
  have masks: "(0xe0 :: zbyte) = NOT (mask 5)" "(0xc0 :: zbyte) = NOT (mask 6)"
    by (simp_all add: mask_eq_exp_minus_1)
  have "v AND NOT (mask k) = push_bit k (drop_bit k v)" for k
    by (rule bit_word_eqI) (auto simp: bit_simps)
  moreover have "push_bit k (drop_bit k v) = 0 \<longleftrightarrow> drop_bit k v = 0" for k
  proof
    assume zero: "push_bit k (drop_bit k v) = 0"
    have "drop_bit k (push_bit k (drop_bit k v)) = drop_bit k v"
      by (rule bit_word_eqI) (auto simp: bit_simps dest: bit_imp_le_length)
    with zero show "drop_bit k v = 0"
      by simp
  qed simp
  ultimately show "v AND 0xe0 = 0 \<longleftrightarrow> drop_bit 5 v = 0" "v AND 0xc0 = 0 \<longleftrightarrow> drop_bit 6 v = 0"
    unfolding masks by simp_all
qed

lemma uint_eq_0: "uint (w :: zbyte) = 0 \<longleftrightarrow> w = 0"
  by (metis unsigned_0 word_uint_eqI)

lemma not_old_version: "V4 \<le> v \<longleftrightarrow> \<not> v \<le> (V3 :: zbyte)"
  by (auto simp: word_le_def)

lemma byte_prop_length:
  assumes "prop_head s a = 1"
  shows "byte_prop (zmp s a) s \<longleftrightarrow> length (prop_data s a) = 1"
proof -
  have "byte_prop (zmp s a) s \<longleftrightarrow> prop_len s a = 1"
    using assms
    by (auto simp: byte_prop_def prop_head_def prop_len_def high_bits_zero not_old_version uint_eq_0 split: if_splits)
  then show ?thesis
    using length_prop_data [of s a] by linarith
qed

lemma data_bytes:
  assumes "prop_head s a = 1"
  shows "prop_data s a ! 0 = zmp s (a + 1)" and "2 \<le> length (prop_data s a) \<Longrightarrow> prop_data s a ! 1 = zmp s (a + 2)"
  using assms prop_len_pos [of s a] length_prop_data [of s a]
  by (auto simp: prop_data_def prop_next_def add.assoc)

text \<open>The two bytes behind the header of an entry found.\<close>

lemma found_addr:
  assumes "prop_fits s q"
  shows "uint (word_of_int q + 1 :: zword) = q + 1" and "in_mem (q + 1) s" and "in_mem (q + 1 + 1) s"
proof -
  have q: "0 \<le> q" "q + 2 \<le> prop_next s q" "prop_next s q < 65536" "prop_next s q < story_size s"
    using assms prop_next_greater [of q s] by (simp_all add: prop_fits_def)
  then show "uint (word_of_int q + 1 :: zword) = q + 1"
    using uint_word_of_addr [of "q + 1"] by simp
  show "in_mem (q + 1) s" "in_mem (q + 1 + 1) s"
    using q by (simp_all add: in_mem_def)
qed

lemma found_length:
  assumes "props_of n s obj ps" and "map_of ps k = Some d" and "length d \<noteq> 1"
  shows "2 \<le> length d"
proof -
  have "int (length d) = prop_len s (prop_pos s (prop_first s obj) ps k)"
    using assms(1,2) prop_pos_found [of s "prop_first s obj" ps k d] length_prop_data
    by (auto simp: props_of_def)
  then show ?thesis
    using prop_len_pos [of s "prop_pos s (prop_first s obj) ps k"] assms(3) by linarith
qed

text \<open>
  C32. \<open>get_prop\<close> looks the number up in the object's property list: it stores the value of the
  property when the object has it, and otherwise the default word of that number from the table in
  front of the objects.
\<close>

theorem get_prop_looks_up:
  assumes props: "props_of n s (zargs s 0) ps" and k: "zargs s 1 \<noteq> 0"
    and plain: "map_of ps (zargs s 1) \<noteq> None \<Longrightarrow> plain_prop s (zargs s 0) ps (zargs s 1)"
  shows "z_get_prop s =
    (case map_of ps (zargs s 1) of
       Some d \<Rightarrow> store (prop_value d) s
     | None \<Rightarrow> andthen (low_word (uint (h_objects (hdr s) + 2 * (zargs s 1 - 1))) s) (\<lambda>w. store w s))"
proof -
  let ?a = "prop_first s (zargs s 0)"
  let ?q = "prop_pos s ?a ps (zargs s 1)"
  have at: "props_at s ?a ps" and obj: "zargs s 0 \<noteq> 0"
    using props by (auto simp: props_of_def valid_def)
  note start = first_property_Ok [OF props] scan_property_stops [OF at]
  show ?thesis
  proof (cases "map_of ps (zargs s 1)")
    case None
    then have "prop_id (zmp s ?q) s \<noteq> zargs s 1"
      using prop_pos_missing [OF at None k] by (simp add: prop_num_def)
    with None obj show ?thesis
      by (simp add: z_get_prop_def start)
  next
    case (Some d)
    have q: "prop_id (zmp s ?q) s = zargs s 1" "prop_data s ?q = d" "prop_fits s ?q"
      using prop_pos_found [OF at Some] by (simp_all add: prop_num_def)
    have head: "prop_head s ?q = 1"
      using plain Some by (simp add: plain_prop_def)
    note byte = byte_prop_length [OF head, unfolded q(2)] and data = data_bytes [OF head, unfolded q(2)]
    show ?thesis
      using Some obj q(1) byte data found_addr [OF q(3)] found_length [OF props Some]
      by (simp add: z_get_prop_def start prop_value_def Let_def add.assoc)
  qed
qed

subsection \<open>An example\<close>

text \<open>Object 1 with the properties 2 (two bytes) and 1 (one byte).\<close>

definition prop_machine :: "zword \<Rightarrow> zword \<Rightarrow> zstate" where
  "prop_machine k v = (small_machine 5 [])\<lparr>
     zmp := (\<lambda>a. 0)(394 := 2, 513 := 0x42, 514 := 0x12, 515 := 0x34, 516 := 1, 517 := 7),
     zargs := (\<lambda>i. if i = 0 then 1 else if i = 1 then k else v)\<rparr>"

definition example_props :: "(zword \<times> zbyte list) list" where
  "example_props = [(2, [0x12, 0x34]), (1, [7])]"

lemma prop_machine_props:
  "props_of 1 (prop_machine k v) 1 example_props" "plain_prop (prop_machine 2 v) 1 example_props 2"
  by code_simp+

lemma prop_machine_sel [simp]:
  "zargs (prop_machine k v) 0 = 1" "zargs (prop_machine k v) 1 = k" "zargs (prop_machine k v) 2 = v"
  "f_setup (prop_machine k v) = default_setup"
  by (simp_all add: prop_machine_def)

theorem get_prop_looks_up_witness: "z_get_prop (prop_machine 2 0) = store 0x1234 (prop_machine 2 0)"
proof -
  have "map_of example_props 2 = Some [0x12, 0x34]" "prop_value [0x12, 0x34] = 0x1234"
    by (simp_all add: example_props_def prop_value_def mk_word_def)
  then show ?thesis
    using get_prop_looks_up [of 1 "prop_machine 2 0" example_props] prop_machine_props by simp
qed

subsection \<open>Updating\<close>

lemma entry_frame:
  fixes m and s :: zstate defines "t \<equiv> s\<lparr>zmp := m\<rparr>"
  assumes "\<And>x. a \<le> x \<Longrightarrow> x < a + prop_head s a \<Longrightarrow> m x = zmp s x"
  shows "prop_num t a = prop_num s a" and "prop_head t a = prop_head s a" and "prop_next t a = prop_next s a"
    and "prop_fits t a = prop_fits s a"
proof -
  have first: "m a = zmp s a"
    using assms(2) [of a] prop_head_bounds [of s a] by simp
  have second: "m (a + 1) = zmp s (a + 1)" if "\<not> version s \<le> V3" "zmp s a AND 0x80 \<noteq> 0"
    using assms(2) [of "a + 1"] that by (simp add: prop_head_def)
  show num: "prop_num t a = prop_num s a"
    by (simp add: t_def prop_num_def prop_id_def prop_mask_def first)
  show head: "prop_head t a = prop_head s a"
    by (simp add: t_def prop_head_def first)
  have "prop_len t a = prop_len s a"
    using second by (simp add: t_def prop_len_def first)
  then show nxt: "prop_next t a = prop_next s a"
    by (simp add: prop_next_def head)
  show "prop_fits t a = prop_fits s a"
    by (simp add: prop_fits_def nxt) (simp add: t_def)
qed

lemma data_frame:
  fixes m and s :: zstate defines "t \<equiv> s\<lparr>zmp := m\<rparr>"
  assumes "\<And>x. a \<le> x \<Longrightarrow> x < prop_next s a \<Longrightarrow> m x = zmp s x"
  shows "prop_data t a = prop_data s a"
proof -
  have head: "a + prop_head s a \<le> prop_next s a"
    using prop_len_pos [of s a] by (simp add: prop_next_def)
  then have "prop_head t a = prop_head s a" "prop_next t a = prop_next s a"
    unfolding t_def using assms(2) by (auto intro!: entry_frame)
  moreover have "m x = zmp s x" if "x \<in> set [a + prop_head s a..prop_next s a - 1]" for x
    using that assms(2) [of x] prop_head_bounds [of s a] by simp
  ultimately show ?thesis
    by (simp add: prop_data_def t_def)
qed

lemma props_at_above:
  assumes "\<And>x. a \<le> x \<Longrightarrow> m x = zmp s x"
  shows "props_at (s\<lparr>zmp := m\<rparr>) a ps = props_at s a ps"
  using assms
proof (induction ps arbitrary: a)
  case Nil
  then show ?case
    by (simp add: prop_num_def prop_id_def prop_mask_def)
next
  case (Cons p ps)
  have "props_at (s\<lparr>zmp := m\<rparr>) (prop_next s a) ps = props_at s (prop_next s a) ps"
    using Cons.prems prop_next_greater [of a s] by (intro Cons.IH) simp
  moreover have "prop_num (s\<lparr>zmp := m\<rparr>) a = prop_num s a" "prop_next (s\<lparr>zmp := m\<rparr>) a = prop_next s a"
    "prop_fits (s\<lparr>zmp := m\<rparr>) a = prop_fits s a" "prop_data (s\<lparr>zmp := m\<rparr>) a = prop_data s a"
    using Cons.prems by (auto intro!: entry_frame data_frame)
  ultimately show ?case
    by (cases p) simp
qed

definition replace_data :: "zword \<Rightarrow> zbyte list \<Rightarrow> (zword \<times> zbyte list) list \<Rightarrow> (zword \<times> zbyte list) list" where
  "replace_data k d ps = map (\<lambda>(j, e). (j, if j = k then d else e)) ps"

lemma replace_data_Cons [simp]:
  "replace_data k d ((j, e) # ps) = (j, if j = k then d else e) # replace_data k d ps"
  by (simp add: replace_data_def)

lemma keys_replace_data [simp]: "fst ` set (replace_data k d ps) = fst ` set ps"
  by (force simp: replace_data_def)

lemma replace_data_missing: "k \<notin> fst ` set ps \<Longrightarrow> replace_data k d ps = ps"
  unfolding replace_data_def by (rule map_idI) (auto simp: image_iff)

text \<open>Writing into the data of one entry changes this entry of the list.\<close>

lemma props_at_update:
  assumes "props_at s a ps" and "map_of ps k = Some d"
    and "\<And>x. x \<le> prop_pos s a ps k \<or> prop_next s (prop_pos s a ps k) \<le> x \<Longrightarrow> m x = zmp s x"
    and "prop_head s (prop_pos s a ps k) = 1"
  shows "props_at (s\<lparr>zmp := m\<rparr>) a (replace_data k (prop_data (s\<lparr>zmp := m\<rparr>) (prop_pos s a ps k)) ps)"
  using assms
proof (induction ps arbitrary: a)
  case Nil
  then show ?case by simp
next
  case (Cons p ps)
  let ?t = "s\<lparr>zmp := m\<rparr>"
  obtain j e where p: "p = (j, e)"
    by (cases p)
  have entry: "j = prop_num s a" "j \<noteq> 0" "e = prop_data s a" "prop_fits s a" "\<forall>i \<in> fst ` set ps. i < j"
    and rest: "props_at s (prop_next s a) ps"
    using Cons.prems(1) unfolding p by auto
  show ?case
  proof (cases "j = k")
    case True
    then have pos: "prop_pos s a (p # ps) k = a"
      by (simp add: p)
    have "prop_num ?t a = prop_num s a" "prop_next ?t a = prop_next s a" "prop_fits ?t a = prop_fits s a"
      using Cons.prems(3,4) unfolding pos by (auto intro!: entry_frame)
    moreover have "props_at ?t (prop_next s a) ps"
      using rest Cons.prems(3) unfolding pos by (subst props_at_above) auto
    moreover have "k \<notin> fst ` set ps"
      using entry(5) True by auto
    ultimately show ?thesis
      unfolding pos using entry True
      by (simp add: p replace_data_missing)
  next
    case False
    then have some: "map_of ps k = Some d"
      using Cons.prems(2) by (simp add: p)
    then have "k \<in> fst ` set ps"
      by (auto simp: image_iff dest!: map_of_SomeD intro!: bexI [of _ "(k, d)"])
    then have pos: "prop_pos s a (p # ps) k = prop_pos s (prop_next s a) ps k"
      using entry(5) by (auto simp: p not_le)
    have above: "prop_next s a \<le> prop_pos s a (p # ps) k"
      unfolding pos using prop_pos_found [OF rest some] by simp
    then have keep: "m x = zmp s x" if "x < prop_next s a" for x
      using Cons.prems(3) [of x] that by simp
    moreover have "a + prop_head s a \<le> prop_next s a"
      using prop_len_pos [of s a] by (simp add: prop_next_def)
    ultimately have "prop_num ?t a = prop_num s a" "prop_next ?t a = prop_next s a"
      "prop_fits ?t a = prop_fits s a" "prop_data ?t a = prop_data s a"
      by (auto intro!: entry_frame data_frame)
    moreover have "props_at ?t (prop_next s a) (replace_data k (prop_data ?t (prop_pos s (prop_next s a) ps k)) ps)"
      using Cons.prems(3,4) unfolding pos by (intro Cons.IH [OF rest some])
    ultimately show ?thesis
      unfolding pos using entry False keys_replace_data [of k _ ps]
      by (simp add: p)
  qed
qed

text \<open>The data after \<open>put_prop\<close> with the value \<open>v\<close>.\<close>

definition put_value :: "zword \<Rightarrow> zbyte list \<Rightarrow> zbyte list" where
  "put_value v d = (if length d = 1 then [ucast v] else d[0 := hi v, 1 := lo v])"

lemma data_after_put:
  fixes v and s :: zstate
  assumes head: "prop_head s q = 1"
  defines "m \<equiv> (if length (prop_data s q) = 1 then (zmp s)(q + 1 := ucast v)
    else (zmp s)(q + 1 := hi v, q + 1 + 1 := lo v))"
  shows "prop_data (s\<lparr>zmp := m\<rparr>) q = put_value v (prop_data s q)"
proof -
  have below: "m x = zmp s x" if "x \<le> q" for x
    using that by (simp add: m_def)
  then have frame: "prop_head (s\<lparr>zmp := m\<rparr>) q = 1" "prop_next (s\<lparr>zmp := m\<rparr>) q = prop_next s q"
    using head by (auto intro!: entry_frame simp: entry_frame(2))
  have len: "prop_next s q = q + 1 + int (length (prop_data s q))"
    using length_prop_data [of s q] head by (simp add: prop_next_def)
  show ?thesis
  proof (rule nth_equalityI)
    show "length (prop_data (s\<lparr>zmp := m\<rparr>) q) = length (put_value v (prop_data s q))"
      by (simp add: prop_data_def [of "s\<lparr>zmp := m\<rparr>"] frame len put_value_def)
    fix i
    assume "i < length (prop_data (s\<lparr>zmp := m\<rparr>) q)"
    then have i: "i < length (prop_data s q)"
      by (simp add: prop_data_def [of "s\<lparr>zmp := m\<rparr>"] frame len)
    then have old: "prop_data s q ! i = zmp s (q + 1 + int i)"
      by (simp add: prop_data_def head)
    have new: "prop_data (s\<lparr>zmp := m\<rparr>) q ! i = m (q + 1 + int i)"
      using i by (simp add: prop_data_def [of "s\<lparr>zmp := m\<rparr>"] frame len)
    show "prop_data (s\<lparr>zmp := m\<rparr>) q ! i = put_value v (prop_data s q) ! i"
      unfolding new using i old by (auto simp: m_def put_value_def nth_list_update)
  qed
qed

lemma first_frame:
  assumes "props_of n s obj ps" and "\<And>x. x < prop_first s obj \<Longrightarrow> m x = zmp s x"
  shows "prop_table (s\<lparr>zmp := m\<rparr>) obj = prop_table s obj" and "prop_first (s\<lparr>zmp := m\<rparr>) obj = prop_first s obj"
proof -
  define off where "off = (if version s \<le> V3 then 7 else 12 :: int)"
  have table: "object_table n s" "valid n obj" "table_end n s \<le> prop_table s obj"
    using assms(1) by (simp_all add: props_of_def)
  then have "entry_start s obj + off + 1 < prop_table s obj"
    using entry_bounds [OF table(1,2)] by (auto simp: off_def entry_size_def split: if_splits)
  moreover have above: "prop_table s obj < prop_first s obj"
    using uint_byte_bounds(1) [of "zmp s (prop_table s obj)"] unfolding prop_first_def by linarith
  ultimately have cells: "m (entry_start s obj + off) = zmp s (entry_start s obj + off)"
      "m (entry_start s obj + off + 1) = zmp s (entry_start s obj + off + 1)"
      "m (prop_table s obj) = zmp s (prop_table s obj)"
    using assms(2) by simp_all
  have start: "entry_start (s\<lparr>zmp := m\<rparr>) obj = entry_start s obj"
    by (simp add: entry_start_def entry_size_def)
  show eq: "prop_table (s\<lparr>zmp := m\<rparr>) obj = prop_table s obj"
    unfolding prop_table_def Let_def start using cells(1,2) by (simp add: off_def)
  show "prop_first (s\<lparr>zmp := m\<rparr>) obj = prop_first s obj"
    unfolding prop_first_def eq using cells(3) by simp
qed

text \<open>
  C33. \<open>put_prop\<close> replaces the value of a property in the object's list: a one-byte property gets the
  low byte of the value, a longer one the value in its first two bytes. The rest of the list stays
  as it is. A property that the object does not have is a fatal error.
\<close>

theorem put_prop_updates:
  assumes props: "props_of n s (zargs s 0) ps" and k: "zargs s 1 \<noteq> 0"
    and plain: "map_of ps (zargs s 1) \<noteq> None \<Longrightarrow> plain_prop s (zargs s 0) ps (zargs s 1)"
    and strict: "\<not> ignore_errors (f_setup s)"
  shows "case map_of ps (zargs s 1) of
      Some d \<Rightarrow> \<exists>t. z_put_prop s = Ok t \<and>
        props_of n t (zargs s 0) (replace_data (zargs s 1) (put_value (zargs s 2) d) ps)
    | None \<Rightarrow> \<not> returns (z_put_prop s) (\<lambda>t. True)"
proof -
  let ?a = "prop_first s (zargs s 0)"
  let ?q = "prop_pos s ?a ps (zargs s 1)"
  have at: "props_at s ?a ps" and obj: "zargs s 0 \<noteq> 0"
    using props by (auto simp: props_of_def valid_def)
  note start = first_property_Ok [OF props] scan_property_stops [OF at]
  show ?thesis
  proof (cases "map_of ps (zargs s 1)")
    case None
    then have "prop_id (zmp s ?q) s \<noteq> zargs s 1"
      using prop_pos_missing [OF at None k] by (simp add: prop_num_def)
    moreover have "\<not> returns (runtime_error ERR_NO_PROP s) P" for P
      using strict by (intro runtime_error_fatal default_fatal) simp_all
    ultimately show ?thesis
      using None obj by (simp add: z_put_prop_def start)
  next
    case (Some d)
    have q: "prop_id (zmp s ?q) s = zargs s 1" "prop_data s ?q = d" "prop_fits s ?q" "?a \<le> ?q"
      using prop_pos_found [OF at Some] by (simp_all add: prop_num_def)
    have head: "prop_head s ?q = 1"
      using plain Some by (simp add: plain_prop_def)
    define m where "m = (if length d = 1 then (zmp s)(?q + 1 := ucast (zargs s 2))
      else (zmp s)(?q + 1 := hi (zargs s 2), ?q + 1 + 1 := lo (zargs s 2)))"
    have "z_put_prop s = Ok (s\<lparr>zmp := m\<rparr>)"
      using obj q(1) byte_prop_length [OF head, unfolded q(2)] found_addr [OF q(3)]
      by (simp add: z_put_prop_def start Let_def m_def)
    moreover have "prop_data (s\<lparr>zmp := m\<rparr>) ?q = put_value (zargs s 2) d"
      using data_after_put [OF head, of "zargs s 2"] by (simp only: q(2) m_def)
    moreover have "props_at (s\<lparr>zmp := m\<rparr>) ?a (replace_data (zargs s 1) (prop_data (s\<lparr>zmp := m\<rparr>) ?q) ps)"
    proof (rule props_at_update [OF at Some _ head])
      have "prop_next s ?q = ?q + 1 + int (length d)"
        using length_prop_data [of s ?q] head q(2) by (simp add: prop_next_def)
      moreover have "length d \<noteq> 1 \<Longrightarrow> 2 \<le> length d"
        by (rule found_length [OF props Some])
      ultimately show "m x = zmp s x" if "x \<le> ?q \<or> prop_next s ?q \<le> x" for x
        using that by (auto simp: m_def)
    qed
    moreover have "m x = zmp s x" if "x < ?a" for x
      using that q(4) by (auto simp: m_def)
    note first_frame [OF props this]
    ultimately show ?thesis
      using Some props by (simp add: props_of_def table_end_def)
  qed
qed

theorem put_prop_updates_witness:
  "\<exists>t. z_put_prop (prop_machine 2 0xabcd) = Ok t \<and> props_of 1 t 1 [(2, [0xab, 0xcd]), (1, [7])]"
proof -
  have "map_of example_props 2 = Some [0x12, 0x34]"
    "replace_data 2 (put_value 0xabcd [0x12, 0x34]) example_props = [(2, [0xab, 0xcd]), (1, [7])]"
    by (simp_all add: example_props_def put_value_def replace_data_def hi_def lo_def)
  then show ?thesis
    using put_prop_updates [of 1 "prop_machine 2 0xabcd" example_props] prop_machine_props
    by (simp add: default_setup_def)
qed

subsection \<open>Enumerating\<close>

lemma scan_next_property_finds:
  "props_at s a ps \<Longrightarrow> map_of ps n = Some d \<Longrightarrow>
    scan_next_property n (word_of_int a) s =
      Ok (word_of_int (prop_next s (prop_pos s a ps n)), zmp s (prop_pos s a ps n))"
proof (induction ps arbitrary: a)
  case Nil
  then show ?case by simp
next
  case (Cons p ps)
  obtain k e where p: "p = (k, e)"
    by (cases p)
  note header = read_header [OF Cons.prems(1)]
  have k: "prop_id (zmp s a) s = k" and fits: "prop_fits s a" and rest: "props_at s (prop_next s a) ps"
    and sorted: "\<forall>k' \<in> fst ` set ps. k' < k"
    using Cons.prems(1) unfolding p by (auto simp: prop_num_def)
  show ?case
  proof (cases "k \<le> n")
    case True
    then show ?thesis
      by (subst scan_next_property.simps) (simp add: header k p next_property_Ok [OF fits] not_less [symmetric])
  next
    case False
    then have "map_of ps n = Some d"
      using Cons.prems(2) by (auto simp: p split: if_splits)
    moreover have "n < k"
      using False by simp
    ultimately show ?thesis
      using False by (subst scan_next_property.simps)
        (simp add: header k p next_property_Ok [OF fits] Cons.IH [OF rest])
  qed
qed

text \<open>The number of the first entry, and the number after \<open>n\<close>; 0 at the end of the list.\<close>

fun first_key :: "(zword \<times> zbyte list) list \<Rightarrow> zword" where
  "first_key [] = 0"
| "first_key ((k, d) # ps) = k"

fun following_key :: "(zword \<times> zbyte list) list \<Rightarrow> zword \<Rightarrow> zword" where
  "following_key [] n = 0"
| "following_key ((k, d) # ps) n = (if k = n then first_key ps else following_key ps n)"

lemma first_key_num: "props_at s a ps \<Longrightarrow> prop_num s a = first_key ps"
  by (cases ps) auto

lemma following_key_num:
  "props_at s a ps \<Longrightarrow> map_of ps n = Some d \<Longrightarrow>
    prop_num s (prop_next s (prop_pos s a ps n)) = following_key ps n \<and>
    (\<exists>qs. props_at s (prop_next s (prop_pos s a ps n)) qs)"
proof (induction ps arbitrary: a)
  case Nil
  then show ?case by simp
next
  case (Cons p ps)
  obtain k e where p: "p = (k, e)"
    by (cases p)
  have rest: "props_at s (prop_next s a) ps" and sorted: "\<forall>k' \<in> fst ` set ps. k' < k"
    using Cons.prems(1) unfolding p by auto
  show ?case
  proof (cases "k = n")
    case True
    with rest first_key_num [OF rest] show ?thesis
      by (auto simp: p)
  next
    case False
    then have some: "map_of ps n = Some d"
      using Cons.prems(2) by (simp add: p)
    then have "n \<in> fst ` set ps"
      by (auto simp: image_iff dest!: map_of_SomeD intro!: bexI [of _ "(n, d)"])
    then have "\<not> k \<le> n"
      using sorted by (auto simp: not_le)
    with False Cons.IH [OF rest some] show ?thesis
      by (simp add: p)
  qed
qed

text \<open>
  \<open>get_next_prop\<close> enumerates the properties: called with 0 it stores the number of the first
  entry, called with the number of a property that of the following entry, and 0 at the end of the
  list.
\<close>

theorem next_prop_enumerates:
  assumes props: "props_of n s (zargs s 0) ps"
    and k: "zargs s 1 = 0 \<or> zargs s 1 \<in> fst ` set ps"
  shows "z_get_next_prop s =
    store (if zargs s 1 = 0 then first_key ps else following_key ps (zargs s 1)) s"
proof -
  let ?a = "prop_first s (zargs s 0)"
  let ?q = "prop_next s (prop_pos s ?a ps (zargs s 1))"
  have at: "props_at s ?a ps" and obj: "zargs s 0 \<noteq> 0"
    using props by (auto simp: props_of_def valid_def)
  note first = first_property_Ok [OF props]
  show ?thesis
  proof (cases "zargs s 1 = 0")
    case True
    then show ?thesis
      using obj first_key_num [OF at] by (simp add: z_get_next_prop_def first read_header [OF at] prop_num_def)
  next
    case False
    then obtain d where d: "map_of ps (zargs s 1) = Some d"
      using k by (cases "map_of ps (zargs s 1)") (auto simp: map_of_eq_None_iff)
    obtain qs where nxt: "prop_num s ?q = following_key ps (zargs s 1)" "props_at s ?q qs"
      using following_key_num [OF at d] by blast
    have "prop_id (zmp s (prop_pos s ?a ps (zargs s 1))) s = zargs s 1"
      using prop_pos_found [OF at d] by (simp add: prop_num_def)
    then show ?thesis
      using False obj nxt(1)
      by (simp add: z_get_next_prop_def first scan_next_property_finds [OF at d] read_header [OF nxt(2)]
          prop_num_def)
  qed
qed

theorem next_prop_enumerates_witness: "z_get_next_prop (prop_machine 2 0) = store 1 (prop_machine 2 0)"
  using next_prop_enumerates [of 1 "prop_machine 2 0" example_props] prop_machine_props
  by (simp add: example_props_def)

end
