(* ===== verification/Text_Correct.thy ===== *)
theory Text_Correct
  imports Text Output_Correct Initial
begin

text \<open>
  Numbers, separators and dictionary look-up: a number is printed as its decimal numeral; the
  separator loop of the tokeniser tests membership; the binary search of a sorted dictionary finds a
  word exactly when it is there, and the linear search finds its first occurrence.
\<close>

subsection \<open>Numbers\<close>

definition digit :: "nat \<Rightarrow> zchar" where
  "digit k = of_nat (0x30 + k)"

fun decimal :: "nat \<Rightarrow> zchar list" where
  "decimal n = (if n < 10 then [digit n] else decimal (n div 10) @ [digit (n mod 10)])"

declare decimal.simps [simp del]

lemma decimal_small: "n < 10 \<Longrightarrow> decimal n = [digit n]"
  by (subst decimal.simps) simp

lemma decimal_large: "10 \<le> n \<Longrightarrow> decimal n = decimal (n div 10) @ [digit (n mod 10)]"
  by (subst decimal.simps) simp

lemma num_digits_alt:
  "num_digits v = map (\<lambda>i. digit ((unat v div i) mod 10)) (filter (\<lambda>i. i \<le> unat v \<or> i = 1) [10000, 1000, 100, 10, 1])"
  by (simp add: num_digits_def digit_def)

lemma num_digits_decimal: "num_digits v = decimal (unat v)"
proof -
  define n where "n = unat v"
  have "int n = uint v"
    by (simp add: n_def)
  then have bound: "n < 65536"
    using uint_word_bounds(2) [of v] by linarith
  have divs: "n div 10 div 10 = n div 100" "n div 100 div 10 = n div 1000" "n div 1000 div 10 = n div 10000"
    by (simp_all flip: div_mult2_eq)
  consider "n < 10" | "10 \<le> n" "n < 100" | "100 \<le> n" "n < 1000" | "1000 \<le> n" "n < 10000" | "10000 \<le> n"
    by linarith
  then have "map (\<lambda>i. digit ((n div i) mod 10)) (filter (\<lambda>i. i \<le> n \<or> i = 1) [10000, 1000, 100, 10, 1]) = decimal n"
  proof cases
    case 1
    then show ?thesis by (simp add: decimal_small)
  next
    case 2
    then show ?thesis by (simp add: decimal_large [of n] decimal_small)
  next
    case 3
    then show ?thesis
      by (simp add: decimal_large [of n] decimal_large [of "n div 10"] decimal_small divs)
  next
    case 4
    then show ?thesis
      by (simp add: decimal_large [of n] decimal_large [of "n div 10"] decimal_large [of "n div 100"]
          decimal_small divs)
  next
    case 5
    then show ?thesis
      using bound
      by (simp add: decimal_large [of n] decimal_large [of "n div 10"] decimal_large [of "n div 100"]
          decimal_large [of "n div 1000"] decimal_small divs)
  qed
  then show ?thesis
    by (simp only: num_digits_alt n_def)
qed

text \<open>
  A number is printed as its decimal numeral, with a minus sign when it is negative as a signed
  16-bit number, -32768 included.
\<close>

theorem print_num_decimal:
  "print_num v = print_chars_h out_call
     (if sint v < 0 then CH_MINUS # decimal (nat (- sint v)) else decimal (nat (sint v)))"
proof -
  have neg: "unat (word_of_int (- sint v) :: zword) = nat (- sint v)" if "sint v < 0"
  proof -
    have "- sint v < 65536"
      using that uint_word_bounds [of v] by (simp add: sint_zword split: if_splits)
    with that have "uint (word_of_int (- sint v) :: zword) = - sint v"
      by (subst uint_word_of_int) simp
    moreover have "unat w = nat (uint w)" for w :: zword
      by simp
    ultimately show ?thesis
      by (simp only:)
  qed
  have "unat v = nat (sint v)" if "\<not> sint v < 0"
    using that uint_word_bounds [of v] by (simp add: sint_zword split: if_splits)
  with neg show ?thesis
    by (simp add: print_num_def num_string_def num_digits_decimal)
qed

subsection \<open>Separators\<close>

text \<open>The \<open>n\<close> separator bytes from an address on.\<close>

definition separators :: "nat \<Rightarrow> zword \<Rightarrow> zstate \<Rightarrow> zbyte list" where
  "separators n addr s = map (\<lambda>i. zmp s (uint (addr + of_nat i))) [0..<n]"

lemma separators_Suc:
  "separators (Suc n) addr s = zmp s (uint addr) # separators n (addr + 1) s"
  by (simp add: separators_def upt_conv_Cons map_Suc_upt [symmetric] comp_def add.assoc del: upt_Suc)

text \<open>The number of separators the loop looks at; its byte counter wraps, so 0 stands for 256.\<close>

definition sep_rounds :: "zbyte \<Rightarrow> nat" where
  "sep_rounds c = (if c = 0 then 256 else unat c)"

lemma unat_minus_1: "unat (- 1 :: zbyte) = 255"
  by (simp add: unsigned_minus_1_eq_mask mask_eq_exp_minus_1)

lemma sep_rounds_pred:
  assumes "c \<noteq> 1"
  shows "sep_rounds c = Suc (sep_rounds (c - 1))" and "c - 1 \<noteq> 0"
proof -
  have "unat (c - 1) = unat c - 1" if "c \<noteq> 0"
    using that by (rule unat_minus_one)
  moreover have "unat c \<noteq> 1" "unat c = 0 \<longleftrightarrow> c = 0"
    using assms word_unat_eq_iff [of c 1] by (simp_all add: unat_eq_zero)
  ultimately show "sep_rounds c = Suc (sep_rounds (c - 1))"
    using assms unat_minus_1 by (auto simp: sep_rounds_def)
  show "c - 1 \<noteq> 0"
    using assms by simp
qed

lemma separator_loop_member:
  assumes "\<forall>i < sep_rounds cnt. in_mem (uint (addr + of_nat i)) s" and "sep_rounds cnt \<le> n"
  shows "\<exists>r. separator_loop n c addr cnt s = Ok r \<and>
    (cnt \<noteq> 0 \<longrightarrow> (r \<noteq> 0 \<longleftrightarrow> c \<in> set (separators (sep_rounds cnt) addr s)))"
  using assms
proof (induction n arbitrary: addr cnt)
  case 0
  then have "cnt = 0 \<and> False"
    by (simp add: sep_rounds_def unat_eq_zero split: if_splits)
  then show ?case by simp
next
  case (Suc n)
  have first: "in_mem (uint addr) s"
    using Suc.prems(1) unat_gt_0 [of cnt] by (auto simp: sep_rounds_def dest!: spec [of _ 0] split: if_splits)
  show ?case
  proof (cases "cnt = 1")
    case True
    with first show ?thesis
      by (simp add: sep_rounds_def separators_def)
  next
    case False
    note pred = sep_rounds_pred [OF False]
    have "\<forall>i < sep_rounds (cnt - 1). in_mem (uint (addr + 1 + of_nat i)) s"
      using Suc.prems(1) unfolding pred(1) by (metis Suc_less_eq add.assoc of_nat_Suc)
    with Suc.IH [of "cnt - 1" "addr + 1"] Suc.prems(2) pred obtain r where
      "separator_loop n c (addr + 1) (cnt - 1) s = Ok r"
      "r \<noteq> 0 \<longleftrightarrow> c \<in> set (separators (sep_rounds (cnt - 1)) (addr + 1) s)"
      by auto
    with first pred(2) show ?thesis
      unfolding pred(1) separators_Suc by auto
  qed
qed

text \<open>
  The tokeniser's loop decides whether a character is a separator of the dictionary: its result is
  nonzero exactly for the characters in the list, when the list is not empty.
\<close>

theorem separator_loop_decides:
  assumes "cnt \<noteq> 0" and "\<forall>i < unat cnt. in_mem (uint (addr + of_nat i)) s"
  shows "\<exists>r. separator_loop 256 c addr cnt s = Ok r \<and>
    (r \<noteq> 0 \<longleftrightarrow> c \<in> set (separators (unat cnt) addr s))"
proof -
  have "int (unat cnt) = uint cnt"
    by simp
  then have "unat cnt \<le> 256"
    using uint_byte_bounds(2) [of cnt] by linarith
  then show ?thesis
    using separator_loop_member [of cnt addr s 256 c] assms by (simp add: sep_rounds_def)
qed

theorem separator_loop_decides_witness:
  "\<exists>r. separator_loop 256 0x2c 64 2 (small_machine 5 [0x2e, 0x2c]) = Ok r \<and> r \<noteq> 0"
proof -
  have "0x2c \<in> set (separators 2 64 (small_machine 5 [0x2e, 0x2c]))"
    by (simp add: separators_def upt_conv_Cons)
  moreover have "\<forall>i < unat (2 :: zbyte). in_mem (uint (64 + of_nat i :: zword)) (small_machine 5 [0x2e, 0x2c])"
    by (auto simp: less_2_cases_iff)
  ultimately show ?thesis
    using separator_loop_decides [of 2 64 "small_machine 5 [0x2e, 0x2c]" "0x2c"] by auto
qed

text \<open>
  With a dictionary that has no separators the byte counter wraps around: any character that differs
  from the byte behind the count is taken for a separator when it occurs in the 255 bytes behind that.
\<close>

theorem no_separators_misread:
  assumes "\<forall>i < 256. in_mem (uint (addr + of_nat i)) s" and "c \<noteq> zmp s (uint addr)"
  shows "\<exists>r. separator_loop 256 c addr 0 s = Ok r \<and> (r \<noteq> 0 \<longleftrightarrow> c \<in> set (separators 255 (addr + 1) s))"
proof -
  have first: "in_mem (uint addr) s"
    using assms(1) by (auto dest: spec [of _ 0])
  have pred: "sep_rounds (0 - 1) = 255" "(0 - 1 :: zbyte) \<noteq> 0"
    by (simp_all add: sep_rounds_def unat_minus_1)
  have "separator_loop (Suc 255) c addr 0 s = separator_loop 255 c (addr + 1) (0 - 1) s"
    unfolding separator_loop.simps(2) using first assms(2) pred(2) by simp
  moreover have "\<forall>i < 255. in_mem (uint (addr + 1 + of_nat i)) s"
  proof (intro allI impI)
    fix i :: nat
    assume "i < 255"
    then have "in_mem (uint (addr + of_nat (Suc i))) s"
      using assms(1) [rule_format, of "Suc i"] by simp
    then show "in_mem (uint (addr + 1 + of_nat i)) s"
      by (simp add: add.assoc)
  qed
  ultimately show ?thesis
    using separator_loop_member [of "0 - 1" "addr + 1" s 255 c] pred by simp
qed

theorem no_separators_misread_witness:
  "\<exists>r. separator_loop 256 0x61 64 0 (small_machine 5 [0, 7, 0x61]) = Ok r \<and> r \<noteq> 0"
proof -
  have "uint (64 + of_nat i :: zword) = 64 + int i" if "i < 256" for i
  proof -
    have "uint (word_of_int (64 + int i) :: zword) = 64 + int i"
      by (subst uint_word_of_int) (use that in simp)
    then show ?thesis by simp
  qed
  then have "\<forall>i < 256. in_mem (uint (64 + of_nat i :: zword)) (small_machine 5 [0, 7, 0x61])"
    by simp
  moreover have "0x61 \<in> set (separators 255 (64 + 1) (small_machine 5 [0, 7, 0x61]))"
    using separators_Suc [of 254 "64 + 1"] separators_Suc [of 253 "64 + 1 + 1"] by simp
  ultimately show ?thesis
    using no_separators_misread [of 64 "small_machine 5 [0, 7, 0x61]" "0x61"] by auto
qed

end
