(* ===== verification/Dictionary_Correct.thy ===== *)
theory Dictionary_Correct
  imports Text Output_Correct Initial "HOL-Library.List_Lexorder"
begin

text \<open>
  Dictionary look-up. An entry and the encoded word are lists of words, compared lexicographically;
  the binary search of a sorted dictionary and the linear search of an unsorted one find an entry
  equal to the word exactly when there is one.
\<close>

subsection \<open>Comparing\<close>

fun first_diff :: "zword list \<Rightarrow> zword list \<Rightarrow> (zword \<times> zword) option" where
  "first_diff (x # xs) (y # ys) = (if x \<noteq> y then Some (x, y) else first_diff xs ys)"
| "first_diff _ _ = None"

lemma first_diff_None: "length xs = length ys \<Longrightarrow> first_diff xs ys = None \<longleftrightarrow> xs = ys"
  by (induction xs ys rule: first_diff.induct) auto

lemma first_diff_Some:
  "length xs = length ys \<Longrightarrow> first_diff xs ys = Some (x, y) \<Longrightarrow> if x > y then ys < xs else xs < ys"
  by (induction xs ys rule: first_diff.induct) (auto split: if_splits)

text \<open>The words of a dictionary entry, and the encoded word that is looked up.\<close>

definition entry_words :: "nat \<Rightarrow> zword \<Rightarrow> zstate \<Rightarrow> zword list" where
  "entry_words n addr s =
     map (\<lambda>i. let a = uint (addr + 2 * of_nat i) in mk_word (zmp s a) (zmp s (a + 1))) [0..<n]"

definition target_words :: "nat \<Rightarrow> zstate \<Rightarrow> zword list" where
  "target_words n s = map (\<lambda>i. encoded s (int i)) [0..<n]"

definition entry_in_mem :: "nat \<Rightarrow> zword \<Rightarrow> zstate \<Rightarrow> bool" where
  "entry_in_mem n addr s \<longleftrightarrow>
     (\<forall>i < n. in_mem (uint (addr + 2 * of_nat i)) s \<and> in_mem (uint (addr + 2 * of_nat i) + 1) s)"

lemma entry_words_Suc:
  "entry_words (Suc n) addr s = mk_word (zmp s (uint addr)) (zmp s (uint addr + 1)) # entry_words n (addr + 2) s"
  by (simp add: entry_words_def upt_conv_Cons map_Suc_upt [symmetric] comp_def algebra_simps Let_def del: upt_Suc)

lemma entry_in_mem_Suc:
  "entry_in_mem (Suc n) addr s \<longleftrightarrow>
    in_mem (uint addr) s \<and> in_mem (uint addr + 1) s \<and> entry_in_mem n (addr + 2) s"
  unfolding entry_in_mem_def All_less_Suc2 by (simp add: algebra_simps)

lemma compare_entry_diff:
  "entry_in_mem n addr s \<Longrightarrow>
    compare_entry n i addr s = Ok (first_diff (map (\<lambda>k. encoded s (i + int k)) [0..<n]) (entry_words n addr s))"
proof (induction n arbitrary: i addr)
  case 0
  then show ?case by simp
next
  case (Suc n)
  then have rest: "compare_entry n (i + 1) (addr + 2) s =
      Ok (first_diff (map (\<lambda>k. encoded s (i + 1 + int k)) [0..<n]) (entry_words n (addr + 2) s))"
    and mem: "in_mem (uint addr) s" "in_mem (uint addr + 1) s"
    by (simp_all add: entry_in_mem_Suc)
  have "map (\<lambda>k. encoded s (i + int k)) [0..<Suc n] = encoded s i # map (\<lambda>k. encoded s (i + 1 + int k)) [0..<n]"
    by (simp add: upt_conv_Cons map_Suc_upt [symmetric] comp_def algebra_simps del: upt_Suc)
  then show ?case
    using rest mem by (simp add: entry_words_Suc)
qed

lemma compare_target:
  "entry_in_mem n addr s \<Longrightarrow>
    compare_entry n 0 addr s = Ok (first_diff (target_words n s) (entry_words n addr s))"
  by (simp add: compare_entry_diff target_words_def)

lemma words_length [simp]: "length (entry_words n addr s) = n" "length (target_words n s) = n"
  by (simp_all add: entry_words_def target_words_def)

subsection \<open>Searching\<close>

definition entry_addr :: "zword \<Rightarrow> zbyte \<Rightarrow> int \<Rightarrow> zword" where
  "entry_addr dct len k = dct + word_of_int k * ucast len"

definition entry :: "zword \<Rightarrow> zbyte \<Rightarrow> zstate \<Rightarrow> int \<Rightarrow> zword list" where
  "entry dct len s k = entry_words (resolution s) (entry_addr dct len k) s"

definition target :: "zstate \<Rightarrow> zword list" where
  "target s = target_words (resolution s) s"

definition entries_in_mem :: "zword \<Rightarrow> zbyte \<Rightarrow> int \<Rightarrow> zstate \<Rightarrow> bool" where
  "entries_in_mem dct len n s \<longleftrightarrow> (\<forall>k. 0 \<le> k \<and> k < n \<longrightarrow> entry_in_mem (resolution s) (entry_addr dct len k) s)"

definition sorted_entries :: "zword \<Rightarrow> zbyte \<Rightarrow> int \<Rightarrow> zstate \<Rightarrow> bool" where
  "sorted_entries dct len n s \<longleftrightarrow>
     (\<forall>i j. 0 \<le> i \<and> i < j \<and> j < n \<longrightarrow> entry dct len s i < entry dct len s j)"

text \<open>The outcomes of one comparison.\<close>

lemma search_step:
  assumes "entries_in_mem dct len n s" and "0 \<le> k" and "k < n"
  defines "c \<equiv> compare_entry (resolution s) 0 (dct + word_of_int k * ucast len) s"
  shows "(c = Ok None \<and> entry dct len s k = target s) \<or>
    (\<exists>e x. c = Ok (Some (e, x)) \<and> (if e > x then entry dct len s k < target s else target s < entry dct len s k))"
proof -
  let ?d = "first_diff (target s) (entry dct len s k)"
  have c: "c = Ok ?d"
    using assms(1-3) by (simp add: c_def entries_in_mem_def compare_target entry_def target_def entry_addr_def)
  have len: "length (target s) = length (entry dct len s k)"
    by (simp add: target_def entry_def)
  show ?thesis
  proof (cases ?d)
    case None
    then show ?thesis
      using c first_diff_None [OF len] by simp
  next
    case (Some p)
    then show ?thesis
      using c first_diff_Some [OF len] by (cases p) auto
  qed
qed

text \<open>What the search returns: an entry equal to the word, or the gap in which the word would be.\<close>

definition search_ok :: "zword \<Rightarrow> zbyte \<Rightarrow> int \<Rightarrow> zstate \<Rightarrow> search_result \<Rightarrow> bool" where
  "search_ok dct len n s r \<longleftrightarrow>
     (case r of
        Found a \<Rightarrow> \<exists>k. 0 \<le> k \<and> k < n \<and> a = entry_addr dct len k \<and> entry dct len s k = target s
      | Not_found l u \<Rightarrow> u = l - 1 \<and> 0 \<le> l \<and> l \<le> n \<and>
          (\<forall>k. 0 \<le> k \<and> k < l \<longrightarrow> entry dct len s k < target s) \<and>
          (\<forall>k. l \<le> k \<and> k < n \<longrightarrow> target s < entry dct len s k))"

lemma binary_search:
  assumes "entries_in_mem dct len n s" and "sorted_entries dct len n s"
    and "0 \<le> lower" and "lower \<le> upper + 1" and "upper < n"
    and "\<forall>k. 0 \<le> k \<and> k < lower \<longrightarrow> entry dct len s k < target s"
    and "\<forall>k. upper < k \<and> k < n \<longrightarrow> target s < entry dct len s k"
  shows "\<exists>r. search_loop True dct len lower upper s = Ok r \<and> search_ok dct len n s r"
  using assms(3-7)
proof (induction "nat (upper - lower + 1)" arbitrary: lower upper rule: less_induct)
  case less
  show ?case
  proof (cases "lower \<le> upper")
    case False
    with less.prems show ?thesis
      by (subst search_loop.simps) (auto simp: search_ok_def)
  next
    case True
    define k where "k = (lower + upper) div 2"
    have k: "lower \<le> k" "k \<le> upper"
      using True by (auto simp: k_def)
    have mono: "entry dct len s i < entry dct len s j" if "0 \<le> i" "i < j" "j < n" for i j
      using assms(2) that by (simp add: sorted_entries_def)
    from search_step [OF assms(1), of k] k less.prems consider
        (eq) "compare_entry (resolution s) 0 (dct + word_of_int k * ucast len) s = Ok None"
          "entry dct len s k = target s"
      | (up) e x where "compare_entry (resolution s) 0 (dct + word_of_int k * ucast len) s = Ok (Some (e, x))"
          "e > x" "entry dct len s k < target s"
      | (down) e x where "compare_entry (resolution s) 0 (dct + word_of_int k * ucast len) s = Ok (Some (e, x))"
          "\<not> e > x" "target s < entry dct len s k"
      by (auto split: if_splits)
    then show ?thesis
    proof cases
      case eq
      then show ?thesis
        using True k less.prems
        by (subst search_loop.simps)
          (auto simp: search_ok_def entry_addr_def Let_def k_def [symmetric] intro!: exI [of _ k])
    next
      case up
      have "entry dct len s i < target s" if "0 \<le> i" "i < k + 1" for i
        using up(3) mono [of i k] that k less.prems(3) by (cases "i = k") (auto intro: less_trans)
      then have "\<exists>r. search_loop True dct len (k + 1) upper s = Ok r \<and> search_ok dct len n s r"
        using k less.prems by (intro less.hyps) auto
      with up True show ?thesis
        by (subst search_loop.simps) (simp add: Let_def k_def [symmetric])
    next
      case down
      have "target s < entry dct len s i" if "k - 1 < i" "i < n" for i
        using down(3) mono [of k i] that k less.prems(1) by (cases "i = k") (auto intro: less_trans)
      then have "\<exists>r. search_loop True dct len lower (k - 1) s = Ok r \<and> search_ok dct len n s r"
        using k less.prems by (intro less.hyps) auto
      with down True show ?thesis
        by (subst search_loop.simps) (simp add: Let_def k_def [symmetric])
    qed
  qed
qed

lemma linear_search:
  assumes "entries_in_mem dct len n s" and "0 \<le> lower"
  shows "\<exists>r. search_loop False dct len lower (n - 1) s = Ok r \<and>
    (case r of
       Found a \<Rightarrow> \<exists>k. lower \<le> k \<and> k < n \<and> a = entry_addr dct len k \<and> entry dct len s k = target s
     | Not_found l u \<Rightarrow> \<forall>k. lower \<le> k \<and> k < n \<longrightarrow> entry dct len s k \<noteq> target s)"
  using assms(2)
proof (induction "nat (n - lower)" arbitrary: lower rule: less_induct)
  case less
  show ?case
  proof (cases "lower < n")
    case False
    then show ?thesis
      by (subst search_loop.simps) auto
  next
    case True
    from search_step [OF assms(1) less.prems True] consider
        (eq) "compare_entry (resolution s) 0 (dct + word_of_int lower * ucast len) s = Ok None"
          "entry dct len s lower = target s"
      | (ne) e x where "compare_entry (resolution s) 0 (dct + word_of_int lower * ucast len) s = Ok (Some (e, x))"
          "entry dct len s lower \<noteq> target s"
      by (auto split: if_splits)
    then show ?thesis
    proof cases
      case eq
      with True show ?thesis
        by (subst search_loop.simps) (auto simp: entry_addr_def Let_def intro!: exI [of _ lower])
    next
      case ne
      obtain r where r: "search_loop False dct len (lower + 1) (n - 1) s = Ok r"
        "case r of
           Found a \<Rightarrow> \<exists>k. lower + 1 \<le> k \<and> k < n \<and> a = entry_addr dct len k \<and> entry dct len s k = target s
         | Not_found l u \<Rightarrow> \<forall>k. lower + 1 \<le> k \<and> k < n \<longrightarrow> entry dct len s k \<noteq> target s"
        using less.hyps [of "lower + 1"] True less.prems by auto
      have "search_loop False dct len lower (n - 1) s = Ok r"
        using ne True r(1) by (subst search_loop.simps) (simp add: Let_def)
      moreover have "case r of
           Found a \<Rightarrow> \<exists>k. lower \<le> k \<and> k < n \<and> a = entry_addr dct len k \<and> entry dct len s k = target s
         | Not_found l u \<Rightarrow> \<forall>k. lower \<le> k \<and> k < n \<longrightarrow> entry dct len s k \<noteq> target s"
      proof (cases r)
        case (Found a)
        with r(2) show ?thesis
          by auto (metis add_le_imp_le_diff le_add_diff_inverse2 less_imp_le order_trans zle_add1_eq_le
              zless_add1_eq)
      next
        case (Not_found l u)
        have "entry dct len s k \<noteq> target s" if "lower \<le> k" "k < n" for k
          using that ne(2) r(2) Not_found by (cases "k = lower") auto
        with Not_found show ?thesis by simp
      qed
      ultimately show ?thesis by blast
    qed
  qed
qed

subsection \<open>Looking a word up\<close>

text \<open>The fields of a dictionary at \<open>dct\<close>.\<close>

definition dict_header :: "zstate \<Rightarrow> zword \<Rightarrow> zword" where
  "dict_header s dct = dct + (1 + ucast (zmp s (uint dct)))"

definition dict_len :: "zstate \<Rightarrow> zword \<Rightarrow> zbyte" where
  "dict_len s dct = zmp s (uint (dict_header s dct))"

definition dict_count :: "zstate \<Rightarrow> zword \<Rightarrow> zword" where
  "dict_count s dct =
     (let a = uint (dict_header s dct + 1) in mk_word (zmp s a) (zmp s (a + 1)))"

definition dict_base :: "zstate \<Rightarrow> zword \<Rightarrow> zword" where
  "dict_base s dct = dict_header s dct + 1 + 2"

definition dict_entry :: "zstate \<Rightarrow> zword \<Rightarrow> int \<Rightarrow> zword list" where
  "dict_entry s dct k = entry (dict_base s dct) (dict_len s dct) s k"

definition dict_addr :: "zstate \<Rightarrow> zword \<Rightarrow> int \<Rightarrow> zword" where
  "dict_addr s dct k = entry_addr (dict_base s dct) (dict_len s dct) k"

text \<open>A dictionary in memory; one with a nonnegative count is sorted.\<close>

definition dictionary :: "zstate \<Rightarrow> zword \<Rightarrow> int \<Rightarrow> bool" where
  "dictionary s dct n \<longleftrightarrow>
     in_mem (uint dct) s \<and> in_mem (uint (dict_header s dct)) s \<and>
     in_mem (uint (dict_header s dct + 1)) s \<and> in_mem (uint (dict_header s dct + 1) + 1) s \<and>
     n = \<bar>sint (dict_count s dct)\<bar> \<and>
     entries_in_mem (dict_base s dct) (dict_len s dct) n s \<and>
     (0 \<le> sint (dict_count s dct) \<longrightarrow> sorted_entries (dict_base s dct) (dict_len s dct) n s)"

lemma entry_count_abs:
  "uint (if sint c < 0 then word_of_int (- sint c) else c :: zword) = \<bar>sint c\<bar>"
proof -
  have "- sint c < 65536" "\<not> sint c < 0 \<Longrightarrow> uint c = sint c"
    using uint_word_bounds [of c] unfolding sint_zword by (auto simp only: split: if_splits)
  moreover have "uint (word_of_int (- sint c) :: zword) = - sint c" if "sint c < 0"
    by (subst uint_word_of_int) (use that calculation(1) in simp)
  ultimately show ?thesis
    by auto
qed

text \<open>What \<open>lookup_text\<close> does with the answer of the search, and which search it starts.\<close>

definition found_addr_or_0 :: "zstate \<Rightarrow> search_result \<Rightarrow> (zword \<times> zstate) res" where
  "found_addr_or_0 s = case_search_result (\<lambda>a. Ok (a, s)) (\<lambda>l u. Ok (0, s))"

lemma lookup_text_searches:
  assumes "encode_text 5 s = Ok s'" and "dictionary s' dct n"
  shows "lookup_text 5 dct s = andthen (search_loop (\<not> sint (dict_count s' dct) < 0) (dict_base s' dct) (dict_len s' dct) 0 (n - 1) s')
    (found_addr_or_0 s')"
proof -
  let ?c = "dict_count s' dct"
  have mem: "in_mem (uint dct) s'" "in_mem (uint (dict_header s' dct)) s'"
      "in_mem (uint (dict_header s' dct + 1)) s'" "in_mem (uint (dict_header s' dct + 1) + 1) s'"
    and n: "n = \<bar>sint ?c\<bar>"
    using assms(2) unfolding dictionary_def by blast+
  have "lookup_text 5 dct s = andthen (search_loop (\<not> sint ?c < 0) (dict_base s' dct) (dict_len s' dct) 0
      (uint (if sint ?c < 0 then word_of_int (- sint ?c) else ?c) - 1) s') (found_addr_or_0 s')"
    using assms(1) mem
    by (simp add: lookup_text_def Let_def dict_header_def dict_count_def dict_base_def dict_len_def found_addr_or_0_def
        cong: if_cong search_result.case_cong)
  then show ?thesis
    by (simp only: entry_count_abs n)
qed

text \<open>A binary search that ends between two entries has excluded all of them.\<close>

lemma not_found_excludes:
  "search_ok b len n s (Not_found l u) \<Longrightarrow> 0 \<le> k \<Longrightarrow> k < n \<Longrightarrow> entry b len s k \<noteq> target s"
  by (cases "k < l") (simp_all add: search_ok_def, (metis order_less_irrefl not_less)+)

text \<open>
  C18. Looking a word up in a dictionary, sorted or not, gives the address of an entry equal to the
  encoded word, and 0 when there is no such entry.
\<close>

theorem lookup_text_correct:
  assumes enc: "encode_text 5 s = Ok s'" and dict: "dictionary s' dct n"
  shows "\<exists>a. lookup_text 5 dct s = Ok (a, s') \<and>
    (if \<exists>k. 0 \<le> k \<and> k < n \<and> dict_entry s' dct k = target s'
     then \<exists>k. 0 \<le> k \<and> k < n \<and> dict_entry s' dct k = target s' \<and> a = dict_addr s' dct k
     else a = 0)"
proof -
  let ?c = "dict_count s' dct" and ?b = "dict_base s' dct" and ?l = "dict_len s' dct"
  have n: "n = \<bar>sint ?c\<bar>" and entries: "entries_in_mem ?b ?l n s'"
    using dict unfolding dictionary_def by blast+
  note run = lookup_text_searches [OF enc dict]
  show ?thesis
  proof (cases "sint ?c < 0")
    case True
    obtain r where "search_loop False ?b ?l 0 (n - 1) s' = Ok r"
      "case r of
         Found a \<Rightarrow> \<exists>k. 0 \<le> k \<and> k < n \<and> a = entry_addr ?b ?l k \<and> entry ?b ?l s' k = target s'
       | Not_found l u \<Rightarrow> \<forall>k. 0 \<le> k \<and> k < n \<longrightarrow> entry ?b ?l s' k \<noteq> target s'"
      using linear_search [OF entries, of 0] by auto
    with True run show ?thesis
      by (cases r) (auto simp: found_addr_or_0_def dict_entry_def dict_addr_def)
  next
    case False
    then have "0 \<le> sint ?c"
      by simp
    then have "sorted_entries ?b ?l n s'"
      using dict unfolding dictionary_def by blast
    then have "\<exists>r. search_loop True ?b ?l 0 (n - 1) s' = Ok r \<and> search_ok ?b ?l n s' r"
      by (intro binary_search [OF entries]) (use n in auto)
    then obtain r where r: "search_loop True ?b ?l 0 (n - 1) s' = Ok r" "search_ok ?b ?l n s' r"
      by blast
    show ?thesis
    proof (cases r)
      case (Found a)
      with False run r show ?thesis
        by (auto simp: found_addr_or_0_def dict_entry_def dict_addr_def search_ok_def)
    next
      case (Not_found l u)
      with False run r(1) not_found_excludes [of ?b ?l n s' l u] r(2) show ?thesis
        by (auto simp: found_addr_or_0_def dict_entry_def)
    qed
  qed
qed

text \<open>A sorted dictionary with two entries, "go" and "in", in the encoding of V5; the word is "in".\<close>

definition word_machine :: zstate where
  "word_machine = (small_machine 5
     [1, 0x2e, 7, 0, 2, 0x32, 0x85, 0x14, 0xa5, 0x94, 0xa5, 0, 0x3a, 0x65, 0x14, 0xa5, 0x94, 0xa5, 0])
     \<lparr>decoded := (\<lambda>i. 0)(0 := 0x69, 1 := 0x6e)\<rparr>"

lemma encode_text_frame: "encode_text p s = Ok s' \<Longrightarrow> \<exists>e. s' = s\<lparr>encoded := e\<rparr>"
  by (auto simp: encode_text_def Let_def andthen_eq_Ok)

lemma dictionary_encoded: "dictionary (s\<lparr>encoded := e\<rparr>) dct n = dictionary s dct n"
  by (simp add: dictionary_def dict_header_def dict_count_def dict_base_def dict_len_def entries_in_mem_def
      entry_in_mem_def sorted_entries_def entry_def entry_words_def resolution_def)

definition entry_cell :: "zword \<Rightarrow> zstate \<Rightarrow> nat \<Rightarrow> bool" where
  "entry_cell addr s i \<longleftrightarrow>
     in_mem (uint (addr + 2 * of_nat i)) s \<and> in_mem (uint (addr + 2 * of_nat i) + 1) s"

lemma entry_in_mem_three: "entry_in_mem 3 addr s \<longleftrightarrow> list_all (entry_cell addr s) [0, 1, 2]"
  by (auto simp: entry_in_mem_def entry_cell_def numeral_3_eq_3 less_Suc_eq)

lemma below_two: "0 \<le> k \<Longrightarrow> k < 2 \<Longrightarrow> k = 0 \<or> k = (1 :: int)"
  by arith

lemma word_machine_dictionary: "dictionary word_machine 64 2"
proof -
  have fields: "dict_count word_machine 64 = 2" "dict_base word_machine 64 = 69" "dict_len word_machine 64 = 7"
    "in_mem (uint (dict_header word_machine 64)) word_machine"
    "in_mem (uint (dict_header word_machine 64 + 1)) word_machine"
    "in_mem (uint (dict_header word_machine 64 + 1) + 1) word_machine"
    by code_simp+
  have cells: "list_all (entry_cell (entry_addr 69 7 0) word_machine) [0, 1, 2]"
    "list_all (entry_cell (entry_addr 69 7 1) word_machine) [0, 1, 2]"
    by code_simp+
  then have each: "entry_in_mem 3 (entry_addr 69 7 0) word_machine" "entry_in_mem 3 (entry_addr 69 7 1) word_machine"
    unfolding entry_in_mem_three by blast+
  have res: "resolution word_machine = 3"
    by code_simp
  have "entry_in_mem 3 (entry_addr 69 7 k) word_machine" if "0 \<le> k" "k < 2" for k
    using below_two [OF that] each by blast
  then have "entries_in_mem 69 7 2 word_machine"
    unfolding entries_in_mem_def res by blast
  moreover have lt: "entry 69 7 word_machine 0 < entry 69 7 word_machine 1"
    by code_simp
  moreover have "sorted_entries 69 7 2 word_machine"
    unfolding sorted_entries_def
  proof (intro allI impI)
    fix i j :: int
    assume "0 \<le> i \<and> i < j \<and> j < 2"
    then have "i = 0" "j = 1"
      by arith+
    then show "entry 69 7 word_machine i < entry 69 7 word_machine j"
      using lt by simp
  qed
  moreover have "in_mem (uint (64 :: zword)) word_machine"
    by (simp add: word_machine_def in_mem_def)
  ultimately show ?thesis
    unfolding dictionary_def by (simp add: fields)
qed

theorem lookup_text_correct_witness:
  "\<exists>s' k. encode_text 5 word_machine = Ok s' \<and> 0 \<le> k \<and> k < 2 \<and> dict_entry s' 64 k = target s' \<and>
     lookup_text 5 64 word_machine = Ok (dict_addr s' 64 k, s')"
proof -
  have "is_ok (encode_text 5 word_machine)"
    by code_simp
  then obtain s' where s': "encode_text 5 word_machine = Ok s'"
    using is_okD by blast
  then obtain e where e: "s' = word_machine\<lparr>encoded := e\<rparr>"
    using encode_text_frame by blast
  have dict: "dictionary s' 64 2"
    unfolding e dictionary_encoded by (rule word_machine_dictionary)
  have "andthen (encode_text 5 word_machine) (\<lambda>t. Ok (dict_entry t 64 1 = target t)) = Ok True"
    by code_simp
  then have "dict_entry s' 64 1 = target s'"
    by (simp add: s')
  then have "\<exists>k. 0 \<le> k \<and> k < 2 \<and> dict_entry s' 64 k = target s'"
    by (intro exI [of _ 1]) simp
  then show ?thesis
    using lookup_text_correct [OF s' dict] s' by auto
qed

end
