(* ===== verification/Quetzal_Memory.thy ===== *)
theory Quetzal_Memory
  imports Quetzal Output_Correct
begin

text \<open>
  The memory chunk of a Quetzal file: reading files whose contents are known, writing without errors,
  the run-length encoding as a function on lists, and that the restoring loop inverts it.
\<close>

subsection \<open>Reading what is known\<close>

text \<open>A file of which \<open>A\<close> has been read and \<open>R\<close> is still to come.\<close>

definition reading :: "zbyte list \<Rightarrow> zbyte list \<Rightarrow> cfile" where
  "reading A R = \<lparr>f_bytes = A @ R, f_pos = length A\<rparr>"

named_theorems reads "reading from a file with known contents"

lemma get_c_reading [simp]:
  "get_c (reading A (b # R)) = Some (b, reading (A @ [b]) R)"
  "get_c (reading A []) = None"
  by (simp_all add: get_c_def reading_def)

lemma skip_c_reading [simp]:
  "skip_c (reading A (b # R)) = reading (A @ [b]) R"
  "skip_c (reading A []) = reading A []"
  by (simp_all add: skip_c_def)

lemma lo_ucast: "ucast w = lo w" for w :: zword
  unfolding lo_def by (rule bit_word_eqI) (auto simp: bit_simps bit_low_byte)

lemma word_bytes_hi_lo: "word_bytes w = [hi w, lo w]"
  by (simp add: word_bytes_def hi_def lo_ucast)

lemma read_word_reading [reads]:
  "read_word (reading A (word_bytes w @ R)) = Some (w, reading (A @ word_bytes w) R)"
  by (simp add: read_word_def word_bytes_hi_lo)

lemma mk_long_bytes:
  "mk_long (ucast (drop_bit 24 l)) (ucast (drop_bit 16 l)) (ucast (drop_bit 8 l)) (ucast l) = l"
proof (rule bit_word_eqI)
  fix n
  assume "n < LENGTH(32)"
  then have "n < 8 \<or> (8 \<le> n \<and> n < 16) \<or> (16 \<le> n \<and> n < 24) \<or> (24 \<le> n \<and> n < 32)"
    by auto
  then show "bit (mk_long (ucast (drop_bit 24 l)) (ucast (drop_bit 16 l)) (ucast (drop_bit 8 l))
      (ucast l)) n = bit l n"
    by (elim disjE) (auto simp: mk_long_def bit_simps)
qed

lemma read_long_reading [reads]:
  "read_long (reading A (long_bytes l @ R)) = Some (l, reading (A @ long_bytes l) R)"
  by (simp add: read_long_def long_bytes_def mk_long_bytes)

subsection \<open>Writing without errors\<close>

text \<open>No call to the outside answers -1: every \<open>fputc\<close> and \<open>ftell\<close> succeeds.\<close>

definition calm :: "zstate \<Rightarrow> bool" where
  "calm s \<longleftrightarrow> (\<forall>k. os_answer s k \<noteq> -1)"

text \<open>The only change of the state: the clock of the outside.\<close>

definition tick :: "nat \<Rightarrow> zstate \<Rightarrow> zstate" where
  "tick n s = s\<lparr>clock := clock s + n\<rparr>"

lemma tick_sel [simp]:
  "zmp (tick n s) = zmp s" "story_size (tick n s) = story_size s" "hdr (tick n s) = hdr s"
  "story_file (tick n s) = story_file s" "story_len (tick n s) = story_len s"
  "pcp (tick n s) = pcp s" "stack (tick n s) = stack s" "sp (tick n s) = sp s" "fp (tick n s) = fp s"
  "frame_count (tick n s) = frame_count s" "calm (tick n s) = calm s"
  "in_mem a (tick n s) = in_mem a s" "f_setup (tick n s) = f_setup s"
  "low_byte a (tick n s) = low_byte a s" "stack_get p (tick n s) = stack_get p s"
  "story_c k (tick n s) = story_c k s"
  by (simp_all add: tick_def calm_def in_mem_def low_byte_def stack_get_def story_c_def)

lemma tick_tick [simp]: "tick m (tick n s) = tick (n + m) s" "tick 0 s = s"
  by (simp_all add: tick_def)

lemma put_c_end: "calm s \<Longrightarrow> put_c b (reading A []) s = (True, reading (A @ [b]) [], tick 1 s)"
  by (simp add: put_c_def ask_def calm_def tick_def write_at_def reading_def)

lemma put_bytes_end:
  "calm s \<Longrightarrow> put_bytes bs (reading A []) s = (True, reading (A @ bs) [], tick (length bs) s)"
  by (induction bs arbitrary: A s) (simp_all add: put_c_end)

lemma wr_end [simp]:
  "calm s \<Longrightarrow> wr bs (reading A []) s = go_on (reading (A @ bs) [], tick (length bs) s)"
  by (simp add: wr_def put_bytes_end)

lemma tell_end [simp]: "calm s \<Longrightarrow> tell (reading A []) s = go_on (length A, tick 1 s)"
  by (simp add: tell_def ask_def calm_def tick_def reading_def)

subsection \<open>The encoding as a function on lists\<close>

text \<open>\<open>ds\<close> are the differences to the story file, \<open>j\<close> zeros come in front of them.\<close>

fun encoded_diff :: "nat \<Rightarrow> zbyte list \<Rightarrow> zbyte list" where
  "encoded_diff j [] = []"
| "encoded_diff j (c # cs) =
     (if c = 0 then encoded_diff (j + 1) cs
      else (if j > 0 then run_bytes j else []) @ c # encoded_diff 0 cs)"

definition diff_at :: "zstate \<Rightarrow> int \<Rightarrow> zbyte" where
  "diff_at s i = story_file s i XOR zmp s i"

lemma save_cmem_writes:
  assumes "calm s" "\<forall>i \<in> set is. in_mem i s \<and> i < story_len s"
  shows "\<exists>n. save_cmem is j l (reading A []) s =
    go_on (l + of_nat (length (encoded_diff j (map (diff_at s) is))),
      reading (A @ encoded_diff j (map (diff_at s) is)) [], tick n s)"
  using assms
proof (induction "is" arbitrary: j l A s)
  case Nil
  then show ?case
    by (auto intro: exI [of _ 0])
next
  case (Cons i "is")
  have here: "in_mem i s" "story_c i s = Some (story_file s i)"
    using Cons.prems by (auto simp: story_c_def in_mem_def)
  show ?case
  proof (cases "diff_at s i = 0")
    case True
    then show ?thesis
      using Cons.IH [of s "j + 1" l A] Cons.prems here by (simp add: diff_at_def)
  next
    case False
    define r where "r = (if j > 0 then run_bytes j else []) @ [diff_at s i]"
    have "diff_at (tick n s) = diff_at s" for n
      by (simp add: diff_at_def fun_eq_iff)
    then obtain n where "save_cmem is 0 (l + of_nat (length r)) (reading (A @ r) []) (tick (length r) s) =
        go_on (l + of_nat (length r) + of_nat (length (encoded_diff 0 (map (diff_at s) is))),
          reading (A @ r @ encoded_diff 0 (map (diff_at s) is)) [], tick (length r + n) s)"
      using Cons.IH [of "tick (length r) s" 0 "l + of_nat (length r)" "A @ r"] Cons.prems by auto
    moreover have "save_cmem (i # is) j l (reading A []) s =
        save_cmem is 0 (l + of_nat (length r)) (reading (A @ r) []) (tick (length r) s)"
      using False here Cons.prems by (simp add: r_def diff_at_def Let_def add_ac)
    ultimately show ?thesis
      using False by (auto simp: r_def)
  qed
qed

subsection \<open>Decoding\<close>

text \<open>Memory from \<open>i\<close> on is the story file changed by the differences \<open>ds\<close>.\<close>

definition undiff :: "zstate \<Rightarrow> nat \<Rightarrow> zbyte list \<Rightarrow> zstate" where
  "undiff t i ds = t\<lparr>zmp := (\<lambda>a.
     if int i \<le> a \<and> a < int i + int (length ds) then ds ! nat (a - int i) XOR story_file t a
     else zmp t a)\<rparr>"

definition dynamic :: "zstate \<Rightarrow> nat" where
  "dynamic t = unat (h_dynamic_size (hdr t))"

text \<open>Dynamic memory is in memory and in the story file.\<close>

definition loaded :: "zstate \<Rightarrow> bool" where
  "loaded t \<longleftrightarrow> int (dynamic t) \<le> story_size t \<and> int (dynamic t) \<le> story_len t"

lemma undiff_sel [simp]:
  "hdr (undiff t i ds) = hdr t" "story_size (undiff t i ds) = story_size t"
  "story_len (undiff t i ds) = story_len t" "story_file (undiff t i ds) = story_file t"
  "story_c k (undiff t i ds) = story_c k t" "in_mem a (undiff t i ds) = in_mem a t"
  "dynamic (undiff t i ds) = dynamic t" "loaded (undiff t i ds) = loaded t"
  by (simp_all add: undiff_def story_c_def loaded_def dynamic_def in_mem_def)

lemma undiff_Nil [simp]: "undiff t i [] = t"
proof -
  have "\<not> (int i \<le> a \<and> a < int i)" for a
    by linarith
  then show ?thesis
    by (simp add: undiff_def del: de_Morgan_conj)
qed

lemma undiff_append:
  "undiff (undiff t i xs) (i + length xs) ys = undiff t i (xs @ ys)"
proof -
  have "(if int i + int (length xs) \<le> a \<and> a < int i + int (length xs) + int (length ys)
         then ys ! nat (a - (int i + int (length xs))) XOR story_file t a
         else if int i \<le> a \<and> a < int i + int (length xs) then xs ! nat (a - int i) XOR story_file t a
         else zmp t a) =
        (if int i \<le> a \<and> a < int i + int (length (xs @ ys)) then (xs @ ys) ! nat (a - int i) XOR story_file t a
         else zmp t a)" for a
  proof -
    consider "a < int i" | "int i \<le> a" "a < int i + int (length xs)" | "int i + int (length xs) \<le> a"
      by linarith
    then show ?thesis
    proof cases
      case 2
      then have "nat (a - int i) < length xs"
        by linarith
      with 2 show ?thesis
        by (simp add: nth_append)
    next
      case 3
      then have "nat (a - (int i + int (length xs))) = nat (a - int i) - length xs"
        "\<not> nat (a - int i) < length xs"
        by linarith+
      with 3 show ?thesis
        by (simp add: nth_append)
    qed simp
  qed
  then show ?thesis
    by (simp add: undiff_def fun_eq_iff cong: if_cong)
qed

lemma undiff_Cons: "undiff (undiff t i [x]) (Suc i) ys = undiff t i (x # ys)"
  using undiff_append [of t i "[x]" ys] by simp

lemma undiff_one:
  "t\<lparr>zmp := (zmp t)(int i := x XOR story_file t (int i))\<rparr> = undiff t i [x]"
proof -
  have "(zmp t)(int i := x XOR story_file t (int i)) =
      (\<lambda>a. if int i \<le> a \<and> a < int i + 1 then [x] ! nat (a - int i) XOR story_file t a else zmp t a)"
    by (auto simp: fun_eq_iff)
  then show ?thesis
    by (simp add: undiff_def)
qed

lemma unat_small: "i \<le> unat (w :: zword) \<Longrightarrow> unat (of_nat i :: zword) = i"
proof -
  assume "i \<le> unat w"
  moreover have "unat w < 65536"
    using uint_word_bounds(2) [of w] by (metis of_nat_less_iff of_nat_numeral uint_nat)
  ultimately have "i < 2 ^ 16"
    by simp
  then show ?thesis
    by (simp add: unsigned_of_nat take_bit_nat_eq_self del: power_numeral)
qed

lemma pos_simps:
  assumes "i \<le> dynamic t"
  shows "unat (of_nat i :: zword) = i" "uint (of_nat i :: zword) = int i"
    "of_nat i < h_dynamic_size (hdr t) \<longleftrightarrow> i < dynamic t"
    "\<not> h_dynamic_size (hdr t) < of_nat i"
proof -
  show u: "unat (of_nat i :: zword) = i"
    using assms unat_small unfolding dynamic_def by blast
  then show "uint (of_nat i :: zword) = int i"
    by (metis uint_nat)
  show "of_nat i < h_dynamic_size (hdr t) \<longleftrightarrow> i < dynamic t"
    "\<not> h_dynamic_size (hdr t) < of_nat i"
    using assms u by (simp_all add: word_less_nat_alt dynamic_def)
qed

lemma loaded_at:
  assumes "loaded t" "i < dynamic t"
  shows "in_mem (int i) t" "story_c (int i) t = Some (story_file t (int i))"
  using assms by (simp_all add: loaded_def in_mem_def story_c_def)

lemma story_run_copies:
  assumes "loaded t" "i + n \<le> dynamic t"
  shows "story_run n (of_nat i) (int i) fatal t =
    go_on (of_nat (i + n), int (i + n), undiff t i (replicate n 0))"
  using assms
proof (induction n arbitrary: i t)
  case 0
  then show ?case by simp
next
  case (Suc n)
  have here: "story_run (Suc n) (of_nat i) (int i) fatal t =
      story_run n (of_nat (Suc i)) (int (Suc i)) fatal (undiff t i [0])"
    using Suc.prems loaded_at [of t i] pos_simps [of i t] undiff_one [of t i 0]
    by (simp add: add.commute)
  show ?case
    unfolding here using Suc.IH [of "undiff t i [0]" "Suc i"] Suc.prems undiff_Cons [of t i 0]
    by simp
qed

lemma length_run_bytes: "length (run_bytes j) = 2 * (if j > 0x100 then (j - 1) div 0x100 + 1 else 1)"
proof (induction j rule: run_bytes.induct)
  case (1 j)
  then show ?case
    by (subst run_bytes.simps) (auto simp: not_less)
qed

lemma cmem_run:
  assumes "loaded t" "i + j \<le> dynamic t" "0 < j"
  shows "cmem_loop (length (run_bytes j) + m) (of_nat i) (int i) fatal (reading A (run_bytes j @ R)) t =
    cmem_loop m (of_nat (i + j)) (int (i + j)) fatal (reading (A @ run_bytes j) R)
      (undiff t i (replicate j 0))"
  using assms
proof (induction j arbitrary: i A t rule: run_bytes.induct)
  case (1 j)
  have one: "cmem_loop (Suc (Suc k)) (of_nat i) (int i) fatal (reading A (0 # b # R')) t =
      cmem_loop k (of_nat (i + (unat b + 1))) (int (i + (unat b + 1))) fatal (reading (A @ [0, b]) R')
        (undiff t i (replicate (unat b + 1) 0))" if "i + (unat b + 1) \<le> dynamic t" for b k R'
    using that story_run_copies [OF 1(2) that] pos_simps [of "i + (unat b + 1)" t]
    by (simp del: replicate_Suc story_run.simps)
  show ?case
  proof (cases "j > 0x100")
    case True
    then have run: "run_bytes j = [0, 0xFF] @ run_bytes (j - 0x100)"
      by (subst run_bytes.simps) simp
    have "replicate (0xFF + 1) (0 :: zbyte) @ replicate (j - 0x100) 0 = replicate j 0"
      using True by (simp add: replicate_add [symmetric])
    then show ?thesis
      using 1(1) [OF True, of "undiff t i (replicate (0xFF + 1) 0)" "i + 0x100" "A @ [0, 0xFF]"]
        one [of "0xFF" "length (run_bytes (j - 0x100)) + m" "run_bytes (j - 0x100) @ R"]
        1(2-4) True undiff_append [of t i "replicate (0xFF + 1) 0" "replicate (j - 0x100) 0"]
      by (simp add: run del: replicate.simps)
  next
    case False
    then have run: "run_bytes j = [0, of_nat (j - 1)]"
      by (subst run_bytes.simps) simp
    have "unat (of_nat (j - 1) :: zbyte) = j - 1"
      using False by (simp add: unsigned_of_nat take_bit_nat_eq_self)
    then show ?thesis
      using one [of "of_nat (j - 1)" m R] 1(3,4) by (simp add: run)
  qed
qed

text \<open>
  The loop and the filling behind it rebuild the memory from the position on. \<open>j\<close> zeros have not been
  written yet.
\<close>

definition cmem_fill ::
    "zword \<Rightarrow> (nat \<times> zword \<times> int \<times> cfile \<times> zstate) restoring \<Rightarrow> (nat \<times> cfile \<times> zstate) restoring" where
  "cmem_fill fatal m =
     proceed m (\<lambda>(n, i, k, f, s).
     proceed (story_run (unat (h_dynamic_size (hdr s)) - unat i) i k fatal s) (\<lambda>(i, k, s).
       go_on (n, f, s)))"

lemma cmem_decodes:
  assumes "loaded t" "i + j + length ds = dynamic t"
  shows "cmem_fill fatal (cmem_loop (length (encoded_diff j ds)) (of_nat i) (int i) fatal
      (reading A (encoded_diff j ds @ R)) t) =
    go_on (0, reading (A @ encoded_diff j ds) R, undiff t i (replicate j 0 @ ds))"
  using assms
proof (induction ds arbitrary: i j t A)
  case Nil
  then have "unat (h_dynamic_size (hdr t)) - i = j"
    by (simp add: dynamic_def)
  with Nil show ?case
    using story_run_copies [of t i j fatal] pos_simps(1) [of i t]
    by (simp add: cmem_fill_def)
next
  case (Cons c cs)
  show ?case
  proof (cases "c = 0")
    case True
    have zeros: "replicate j (0 :: zbyte) @ 0 # cs = 0 # replicate j 0 @ cs"
      by (induction j) simp_all
    show ?thesis
      using True Cons.IH [of t i "j + 1" A] Cons.prems by (simp add: zeros)
  next
    case False
    define e where "e = encoded_diff 0 cs"
    have step: "cmem_loop (Suc (length e)) (of_nat k) (int k) fatal (reading B (c # e @ R)) u =
        cmem_loop (length e) (of_nat (Suc k)) (int (Suc k)) fatal (reading (B @ [c]) (e @ R)) (undiff u k [c])"
      if "loaded u" "k + 1 + length cs = dynamic u" for u k B
      using False that loaded_at [of u k] pos_simps [of k u] pos_simps(4) [of "Suc k" u]
      by (simp add: undiff_one [symmetric] Let_def add.commute)
    have rest: "cmem_fill fatal (cmem_loop (Suc (length e)) (of_nat k) (int k) fatal
          (reading B (c # e @ R)) u) =
        go_on (0, reading (B @ c # e) R, undiff u k (c # cs))"
      if "loaded u" "k + 1 + length cs = dynamic u" for u k B
      unfolding step [OF that]
      using Cons.IH [of "undiff u k [c]" "Suc k" 0 "B @ [c]"] that undiff_Cons [of u k c cs]
      by (simp add: e_def)
    show ?thesis
    proof (cases "j > 0")
      case True
      then have run: "cmem_loop (length (run_bytes j) + Suc (length e)) (of_nat i) (int i) fatal
            (reading A (run_bytes j @ c # e @ R)) t =
          cmem_loop (Suc (length e)) (of_nat (i + j)) (int (i + j)) fatal
            (reading (A @ run_bytes j) (c # e @ R)) (undiff t i (replicate j 0))"
        using cmem_run [of t i j "Suc (length e)" fatal A "c # e @ R"] Cons.prems by simp
      have "cmem_fill fatal (cmem_loop (length (run_bytes j) + Suc (length e)) (of_nat i) (int i)
            fatal (reading A (run_bytes j @ c # e @ R)) t) =
          go_on (0, reading (A @ run_bytes j @ c # e) R, undiff t i (replicate j 0 @ c # cs))"
        unfolding run
        using rest [of "undiff t i (replicate j 0)" "i + j" "A @ run_bytes j"] Cons.prems
          undiff_append [of t i "replicate j 0" "c # cs"]
        by simp
      with True False show ?thesis
        by (simp add: e_def)
    next
      case no_run: False
      with False show ?thesis
        using rest [of t i A] Cons.prems by (simp add: e_def)
    qed
  qed
qed

lemma cmem_chunk_decodes:
  assumes "loaded t" "length ds = dynamic t" "unat currlen = length (encoded_diff 0 ds)"
  shows "cmem_chunk currlen progress fatal (reading A (encoded_diff 0 ds @ R)) t =
    go_on (progress OR GOT_MEMORY, reading (A @ encoded_diff 0 ds) R, undiff t 0 ds)"
proof -
  have "cmem_chunk currlen progress fatal f t =
      proceed (cmem_fill fatal (cmem_loop (unat currlen) 0 0 fatal f t)) (\<lambda>(n, f, s).
        go_on (if n = 0 then progress OR GOT_MEMORY else progress, f, s))" for f
    by (simp add: cmem_chunk_def cmem_fill_def proceed_def go_on_def andthen_assoc split_def
        sum.case_distrib [where h = "\<lambda>m. andthen m g" for g] cong: andthen_cong sum.case_cong)
  then show ?thesis
    using cmem_decodes [of t 0 0 ds fatal A R] assms by simp
qed

text \<open>The memory that was saved is the memory that is restored.\<close>

definition differences :: "zstate \<Rightarrow> zbyte list" where
  "differences s = map (diff_at s) [0..uint (h_dynamic_size (hdr s)) - 1]"

lemma undiff_differences:
  assumes "h_dynamic_size (hdr t) = h_dynamic_size (hdr s)" "story_file t = story_file s"
  shows "undiff t 0 (differences s) =
    t\<lparr>zmp := (\<lambda>a. if 0 \<le> a \<and> a < uint (h_dynamic_size (hdr s)) then zmp s a else zmp t a)\<rparr>"
proof -
  have "differences s ! nat a XOR story_file s a = zmp s a"
    if "0 \<le> a" "a < uint (h_dynamic_size (hdr s))" for a
  proof -
    have "differences s ! nat a = diff_at s a"
      using that by (simp add: differences_def nth_map nth_upto nat_less_iff)
    then show ?thesis
      by (simp add: diff_at_def xor.commute xor.left_commute)
  qed
  moreover have "int (length (differences s)) = uint (h_dynamic_size (hdr s))"
    by (simp add: differences_def)
  ultimately show ?thesis
    using assms by (auto simp: undiff_def fun_eq_iff)
qed

text \<open>The encoding stays short.\<close>

lemma encoded_diff_length: "length (encoded_diff j ds) \<le> 3 * (j + length ds)"
proof (induction ds arbitrary: j)
  case (Cons c cs)
  have run: "length (run_bytes j) \<le> 2 * j" if "j > 0"
    using that by (simp add: length_run_bytes) (use div_le_dividend [of "j - 1" 256] in linarith)
  show ?case
    using Cons.IH [of "j + 1"] Cons.IH [of 0] run by (cases "j > 0") auto
qed simp

end
