(* ===== verification/Quetzal_Stack.thy ===== *)
theory Quetzal_Stack
  imports Quetzal_Memory
begin

text \<open>
  The stack chunk of a Quetzal file: what a well-formed stack of frames looks like, the bytes that are
  written for it, and the stack that is built from these bytes.
\<close>

subsection \<open>The numbers in a frame\<close>

definition caller_pc :: "zstate \<Rightarrow> int \<Rightarrow> 32 word" where
  "caller_pc s p = pc_of_words (stack s (p + 3)) (stack s (p + 2))"

text \<open>The masks of the source as runs of bits.\<close>

lemma frame_masks:
  "(0x0F00 :: zword) = push_bit 8 (mask 4)" "(0xF000 :: zword) = push_bit 12 (mask 4)"
  "(0x00FF :: zword) = mask 8" "(0x1FF :: 32 word) = mask 9" "(0x0F :: 32 word) = mask 4"
  "(0x10 :: 32 word) = push_bit 4 1" "(0x1000 :: zword) = push_bit 12 1"
  by (simp_all add: mask_eq_exp_minus_1 push_bit_eq_mult)

lemma small_take_bit: "uint w < 2 ^ n \<Longrightarrow> take_bit n w = w"
  by (simp add: word_uint_eq_iff unsigned_take_bit_eq take_bit_int_eq_self)

lemma frame_word: "push_bit 8 (frame_locals w) OR frame_type w OR frame_args w = w"
  unfolding frame_locals_def frame_type_def frame_args_def frame_masks
  by (rule bit_word_eqI) (auto simp: bit_simps)

lemma frame_locals_less: "frame_locals w < 16" "uint (frame_locals w) < 16"
proof -
  have "frame_locals w = take_bit 4 (drop_bit 8 w)"
    unfolding frame_locals_def frame_masks
    by (rule bit_word_eqI) (auto simp: bit_simps)
  then have "uint (frame_locals w) = take_bit 4 (uint (drop_bit 8 w))"
    by (simp add: unsigned_take_bit_eq)
  then show "uint (frame_locals w) < 16"
    using take_bit_int_less_exp [of 4 "uint (drop_bit 8 w)"] by simp
  then show "frame_locals w < 16"
    by (simp add: word_less_def)
qed

text \<open>The program counter, split into two words and put together.\<close>

lemma split_pc:
  fixes h l :: zword
  assumes "l < 512"
  defines "pc \<equiv> pc_of_words h l"
  shows "ucast (drop_bit 9 pc) = h" "ucast (pc AND 0x1FF) = l"
proof -
  have "l = take_bit 9 l"
    using assms(1) small_take_bit [of l 9] by (simp add: word_less_def)
  then have low: "bit l n \<Longrightarrow> n < 9" for n
    by (metis bit_take_bit_iff)
  show "ucast (drop_bit 9 pc) = h"
    unfolding pc_def pc_of_words_def by (rule bit_word_eqI) (auto simp: bit_simps dest: low)
  show "ucast (pc AND 0x1FF) = l"
    unfolding pc_def pc_of_words_def frame_masks by (rule bit_word_eqI) (auto simp: bit_simps dest: low)
qed

lemma bit_16: "bit (0x10 :: 32 word) n \<longleftrightarrow> n = 4"
proof -
  have "(0x10 :: 32 word) = 2 ^ 4"
    by simp
  then show ?thesis
    by (simp only: bit_exp_iff) auto
qed

text \<open>The long word of a frame, as it is written and as it is read.\<close>

lemma frame_long:
  fixes pc :: "32 word" and nv :: zword
  assumes "pc < 2 ^ 24" and "nv < 16"
  shows "drop_bit 8 (push_bit 8 pc OR ucast nv) = pc"
    "(push_bit 8 pc OR ucast nv) AND 0x10 = 0"
    "ucast ((push_bit 8 pc OR ucast nv) AND 0x0F) = nv"
    "drop_bit 8 (push_bit 8 pc OR 0x10 OR ucast nv) = pc"
    "(push_bit 8 pc OR 0x10 OR ucast nv) AND 0x10 \<noteq> 0"
    "ucast ((push_bit 8 pc OR 0x10 OR ucast nv) AND 0x0F) = nv"
proof -
  have "pc = take_bit 24 pc"
    using assms(1) small_take_bit [of pc 24] by (simp add: word_less_def)
  then have high: "bit pc n \<Longrightarrow> n < 24" for n
    by (metis bit_take_bit_iff)
  have "nv = take_bit 4 nv"
    using assms(2) small_take_bit [of nv 4] by (simp add: word_less_def)
  then have low: "bit nv n \<Longrightarrow> n < 4" for n
    by (metis bit_take_bit_iff)
  show "drop_bit 8 (push_bit 8 pc OR ucast nv) = pc"
    by (rule bit_word_eqI) (auto simp: bit_simps dest: low high)
  show "(push_bit 8 pc OR ucast nv) AND 0x10 = 0"
  proof (rule bit_word_eqI)
    fix n
    show "bit ((push_bit 8 pc OR ucast nv) AND 0x10) n = bit 0 n"
      unfolding bit_and_iff bit_16 by (auto simp: bit_simps dest: low)
  qed
  show "ucast ((push_bit 8 pc OR ucast nv) AND 0x0F) = nv"
    unfolding frame_masks by (rule bit_word_eqI) (auto simp: bit_simps dest: low)
  show "drop_bit 8 (push_bit 8 pc OR 0x10 OR ucast nv) = pc"
    unfolding frame_masks by (rule bit_word_eqI) (auto simp: bit_simps dest: low high)
  have "bit ((push_bit 8 pc OR 0x10 OR ucast nv) AND 0x10) 4"
    unfolding frame_masks by (simp add: bit_simps)
  then show "(push_bit 8 pc OR 0x10 OR ucast nv) AND 0x10 \<noteq> 0"
    by fastforce
  have "(push_bit 8 pc OR 0x10 OR ucast nv) AND mask 4 = ucast nv"
  proof (rule bit_word_eqI)
    fix n
    show "bit ((push_bit 8 pc OR 0x10 OR ucast nv) AND mask 4) n = bit (ucast nv :: 32 word) n"
      unfolding bit_and_iff bit_or_iff bit_16 by (auto simp: bit_simps dest: low)
  qed
  moreover have "ucast (ucast nv :: 32 word) = nv"
    by (rule bit_word_eqI) (auto simp: bit_simps)
  ultimately show "ucast ((push_bit 8 pc OR 0x10 OR ucast nv) AND 0x0F) = nv"
    unfolding frame_masks by simp
qed

text \<open>The mask of the arguments: \<open>n\<close> ones.\<close>

definition args_mask :: "zword \<Rightarrow> zword" where
  "args_mask nargs = (if nargs \<noteq> 0 then 2 ^ unat nargs - 1 else 0)"

lemma args_mask_read:
  assumes "nargs \<le> 8"
  defines "x \<equiv> uint (ucast (args_mask nargs) :: zbyte) + 1"
  shows "x XOR 2 ^ first_bit x = 0" "of_nat (first_bit x) = nargs"
proof -
  have "unat nargs \<in> {0, 1, 2, 3, 4, 5, 6, 7, 8}"
    using assms(1) by (auto simp: word_le_nat_alt)
  then have "(of_nat (unat nargs) :: zword) \<in> of_nat ` {0, 1, 2, 3, 4, 5, 6, 7, 8}"
    by (rule imageI)
  then have "nargs \<in> {0, 1, 2, 3, 4, 5, 6, 7, 8}"
    by simp
  moreover have "list_all (\<lambda>n. let x = uint (ucast (args_mask n) :: zbyte) + 1 in
      x XOR 2 ^ first_bit x = 0 \<and> of_nat (first_bit x) = n) [0, 1, 2, 3, 4, 5, 6, 7, 8]"
    by code_simp
  ultimately show "x XOR 2 ^ first_bit x = 0" "of_nat (first_bit x) = nargs"
    unfolding x_def by (auto simp: Let_def)
qed

subsection \<open>Stack words in a file\<close>

fun words_down :: "nat \<Rightarrow> int \<Rightarrow> zstate \<Rightarrow> zbyte list" where
  "words_down 0 p s = []"
| "words_down (Suc n) p s = word_bytes (stack s p) @ words_down n (p - 1) s"

lemma length_bytes [simp]: "length (word_bytes w) = 2" "length (long_bytes l) = 4"
  by (simp_all add: word_bytes_def long_bytes_def)

lemma length_words_down [simp]: "length (words_down n p s) = 2 * n"
  by (induction n arbitrary: p) simp_all

lemma words_down_tick [simp]: "words_down n p (tick k s) = words_down n p s"
  by (induction n arbitrary: p) simp_all

lemma save_words_writes:
  assumes "calm s" "\<forall>j < n. in_stack (p - int j)"
  shows "save_words n p (reading A []) s =
    go_on (reading (A @ words_down n p s) [], tick (2 * n) s)"
  using assms
proof (induction n arbitrary: p A s)
  case (Suc n)
  have "in_stack p"
    using Suc.prems(2) by (force dest: spec [of _ 0])
  moreover have "in_stack (p - 1 - int j)" if "j < n" for j
    using Suc.prems(2) that by (auto dest: spec [of _ "Suc j"] simp: algebra_simps)
  ultimately show ?case
    using Suc.IH [of "tick 2 s" "p - 1" "A @ word_bytes (stack s p)"] Suc.prems(1)
    by (simp add: numeral_2_eq_2)
qed simp

text \<open>
  The stack after \<open>n\<close> words have been read into it below \<open>q\<close>; word \<open>x\<close> is what \<open>s\<close> has at \<open>x + d\<close>.
\<close>

definition refill :: "zstate \<Rightarrow> int \<Rightarrow> int \<Rightarrow> int \<Rightarrow> (int \<Rightarrow> zword) \<Rightarrow> int \<Rightarrow> zword" where
  "refill s low high d k x = (if low \<le> x \<and> x < high then stack s (x + d) else k x)"

lemma pull_words_reads:
  assumes "0 \<le> sp t - int n" "sp t \<le> STACK_SIZE"
  shows "pull_words n fatal (reading A (words_down n (sp t - 1 + d) s @ R)) t =
    go_on (reading (A @ words_down n (sp t - 1 + d) s) R,
      t\<lparr>sp := sp t - int n, stack := refill s (sp t - int n) (sp t) d (stack t)\<rparr>)"
  using assms
proof (induction n arbitrary: A t)
  case 0
  have "refill s (sp t) (sp t) d (stack t) = stack t"
    by (auto simp: refill_def fun_eq_iff)
  then show ?case
    by simp
next
  case (Suc n)
  define u where "u = t\<lparr>sp := sp t - 1, stack := (stack t)(sp t - 1 := stack s (sp t - 1 + d))\<rparr>"
  have "in_stack (sp t - 1)"
    using Suc.prems by (simp add: in_stack_def)
  then have "pull_words (Suc n) fatal (reading A (words_down (Suc n) (sp t - 1 + d) s @ R)) t =
      pull_words n fatal (reading (A @ word_bytes (stack s (sp t - 1 + d)))
        (words_down n (sp u - 1 + d) s @ R)) u"
    by (simp add: u_def reads algebra_simps)
  also have "\<dots> = go_on (reading (A @ words_down (Suc n) (sp t - 1 + d) s) R,
      u\<lparr>sp := sp u - int n, stack := refill s (sp u - int n) (sp u) d (stack u)\<rparr>)"
    by (subst Suc.IH) (use Suc.prems in \<open>simp_all add: u_def algebra_simps\<close>)
  also have "u\<lparr>sp := sp u - int n, stack := refill s (sp u - int n) (sp u) d (stack u)\<rparr> =
      t\<lparr>sp := sp t - int (Suc n), stack := refill s (sp t - int (Suc n)) (sp t) d (stack t)\<rparr>"
  proof -
    have "refill s (sp u - int n) (sp u) d (stack u) = refill s (sp t - int (Suc n)) (sp t) d (stack t)"
      by (rule ext) (auto simp: u_def refill_def)
    then show ?thesis
      by (simp add: u_def)
  qed
  finally show ?case .
qed

subsection \<open>One frame\<close>

definition frame_long_of :: "zstate \<Rightarrow> int \<Rightarrow> 32 word" where
  "frame_long_of s p =
     (let nv = frame_locals (stack s p) in
      if frame_type (stack s p) = 0 then push_bit 8 (caller_pc s p + 1) OR ucast nv
      else push_bit 8 (caller_pc s p) OR 0x10 OR ucast nv)"

definition frame_var :: "zstate \<Rightarrow> int \<Rightarrow> zbyte" where
  "frame_var s p = (if frame_type (stack s p) = 0 then zmp s (uint (caller_pc s p)) else 0)"

definition frame_bytes :: "zstate \<Rightarrow> int \<Rightarrow> int \<Rightarrow> zbyte list" where
  "frame_bytes s p tos =
     long_bytes (frame_long_of s p) @ [frame_var s p, ucast (args_mask (frame_args (stack s p)))] @
     word_bytes (word_of_int (p - tos) - frame_locals (stack s p)) @
     words_down (nat (p - tos)) (p + 1) s"

text \<open>
  A frame with its frame pointer at \<open>p\<close> and its words down to \<open>tos\<close> that can be saved: there is room
  for its locals, at most eight arguments were given, and it does not belong to an interrupt.
\<close>

definition frame_ok :: "zstate \<Rightarrow> int \<Rightarrow> int \<Rightarrow> bool" where
  "frame_ok s p tos \<longleftrightarrow>
     0 < tos \<and> tos + uint (frame_locals (stack s p)) \<le> p \<and> p + 4 \<le> STACK_SIZE \<and>
     (frame_type (stack s p) = 0 \<and> in_mem (uint (caller_pc s p)) s \<or>
      frame_type (stack s p) = 0x1000) \<and>
     frame_args (stack s p) \<le> 8 \<and> stack s (p + 2) < 512 \<and> caller_pc s p < 2 ^ 24 - 1"

lemma length_frame_bytes: "tos \<le> p \<Longrightarrow> int (length (frame_bytes s p tos)) = 8 + 2 * (p - tos)"
  by (simp add: frame_bytes_def)

lemma frame_bytes_tick [simp]: "frame_bytes (tick k s) p tos = frame_bytes s p tos"
  by (simp add: frame_bytes_def frame_long_of_def frame_var_def caller_pc_def)

lemma uint_small_int: "0 \<le> k \<Longrightarrow> k < 65536 \<Longrightarrow> uint (word_of_int k :: zword) = k"
  by (simp add: uint_word_of_int)

lemma save_frame_writes:
  assumes calm: "calm s" and ok: "frame_ok s p tos"
  shows "\<exists>k. save_frame (word_of_int (p + 4)) (word_of_int tos) l (reading A []) s =
    go_on (l + of_nat (length (frame_bytes s p tos)), reading (A @ frame_bytes s p tos) [], tick k s)"
proof -
  define w where "w = stack s p"
  define nv where "nv = frame_locals w"
  have bounds: "0 < tos" "tos + uint nv \<le> p" "p + 4 \<le> 1024"
    using ok by (auto simp: frame_ok_def w_def nv_def)
  have nv: "0 \<le> uint nv" "uint nv < 16"
    using frame_locals_less(2) [of w] by (simp_all add: nv_def)
  have below: "tos \<le> p"
    using bounds nv by linarith
  have p: "uint (word_of_int (p + 4) :: zword) = p + 4"
    using bounds below by (intro uint_small_int) auto
  have cells: "in_stack p" "in_stack (p + 3)" "in_stack (p + 2)"
      "\<forall>j < nat (p - tos). in_stack (p + 1 - int j)"
    using bounds below by (auto simp: in_stack_def)
  have args: "frame_args w \<le> 8"
    using ok by (simp add: frame_ok_def w_def)
  define n where "n = word_of_int (p - tos) - nv"
  have n: "uint n = p - tos - uint nv"
  proof -
    have "n = word_of_int (p - tos - uint nv)"
      by (simp add: n_def)
    moreover have "uint (word_of_int (p - tos - uint nv) :: zword) = p - tos - uint nv"
      by (rule uint_small_int) (use bounds nv in linarith)+
    ultimately show ?thesis
      by simp
  qed
  have count: "unat nv + unat n = nat (p - tos)"
  proof -
    have "int (unat nv + unat n) = p - tos"
      using n by simp
    then show ?thesis
      by linarith
  qed
  have len: "of_nat (length (frame_bytes s p tos)) = (8 + 2 * (ucast nv + ucast n) :: 32 word)"
  proof -
    have "int (length (frame_bytes s p tos)) = 8 + 2 * (uint nv + uint n)"
      using length_frame_bytes [of tos p s] n below by simp
    then have "(word_of_int (int (length (frame_bytes s p tos))) :: 32 word) =
        word_of_int (8 + 2 * (uint nv + uint n))"
      by simp
    moreover have "word_of_int (8 + 2 * (a + b)) = (8 + 2 * (word_of_int a + word_of_int b) :: 32 word)" for a b
      by simp
    moreover have "word_of_int (uint x) = (ucast x :: 32 word)" for x :: zword
      by (simp only: ucast_eq)
    ultimately show ?thesis
      by (simp only: of_int_of_nat_eq)
  qed
  have mask: "(if frame_args w \<noteq> 0 then if 31 \<le> frame_args w then Stop (Bad_shift (uint (frame_args w)))
      else Ok (2 ^ unat (frame_args w) - 1) else Ok 0) = Ok (args_mask (frame_args w))"
    using args by (auto simp: args_mask_def dest: order_trans)
  have words: "save_words (unat nv + unat n) (p + 1) (reading B []) (tick k s) =
      go_on (reading (B @ words_down (nat (p - tos)) (p + 1) s) [], tick (k + 2 * nat (p - tos)) s)" for B k
    using save_words_writes [of "tick k s" "nat (p - tos)" "p + 1" B] calm cells(4) count by simp
  have nstk: "word_of_int (p + 4) - word_of_int tos - nv - 4 = n"
    by (simp add: n_def)
  have bytes: "frame_bytes s p tos = long_bytes (frame_long_of s p) @
      [frame_var s p, ucast (args_mask (frame_args w))] @ word_bytes n @ words_down (nat (p - tos)) (p + 1) s"
    by (simp only: frame_bytes_def n_def nv_def w_def)
  note fold = w_def [symmetric] caller_pc_def [symmetric] nv_def [symmetric]
  show ?thesis
  proof (cases "frame_type w = 0")
    case True
    then have "in_mem (uint (caller_pc s p)) s"
      using ok by (simp add: frame_ok_def w_def)
    with True show ?thesis
      using p cells(1-3) mask words nstk len calm
      by (auto simp: save_frame_def Let_def fold bytes frame_long_of_def frame_var_def add.assoc)
  next
    case False
    then have "frame_type w = 0x1000"
      using ok by (simp add: frame_ok_def w_def)
    then show ?thesis
      using p cells(1-3) mask words nstk len calm
      by (auto simp: save_frame_def Let_def fold bytes frame_long_of_def frame_var_def add.assoc)
  qed
qed

text \<open>
  The stack when the frame has been read back. The four words of the frame are in place, but the words
  below it are those that are two places higher in the saved stack.
\<close>

definition frame_stack :: "zstate \<Rightarrow> int \<Rightarrow> int \<Rightarrow> (int \<Rightarrow> zword) \<Rightarrow> int \<Rightarrow> zword" where
  "frame_stack s p tos k x =
     (if p \<le> x \<and> x < p + 4 then stack s x else refill s tos p 2 k x)"

lemma plus_one_back:
  fixes pc :: "32 word"
  assumes "pc < 2 ^ 24 - 1"
  shows "pc + 1 < 2 ^ 24" "pc < 2 ^ 24" "pc + 1 - 1 = pc"
proof -
  have "uint pc < 2 ^ 24 - 1"
    using assms by (simp add: word_less_def)
  moreover from this have "uint (pc + 1) = uint pc + 1"
    using uint_ge_0 [of pc] by (simp add: uint_word_ariths mod_pos_pos_trivial)
  ultimately show "pc + 1 < 2 ^ 24" "pc < 2 ^ 24"
    by (simp_all add: word_less_def)
qed simp

lemma frame_head_reads:
  assumes ok: "frame_ok s p tos" and mem: "zmp t = zmp s" "story_size t = story_size s"
  shows "frame_head fatal (reading A (long_bytes (frame_long_of s p) @ frame_var s p # R)) t =
    go_on (push_bit 8 (frame_locals (stack s p)) OR frame_type (stack s p), caller_pc s p,
      frame_locals (stack s p), reading (A @ long_bytes (frame_long_of s p) @ [frame_var s p]) R, t)"
proof -
  have pc: "caller_pc s p + 1 < 2 ^ 24" "caller_pc s p < 2 ^ 24"
    using ok plus_one_back unfolding frame_ok_def by blast+
  note nv = frame_locals_less(1) [of "stack s p"]
  show ?thesis
  proof (cases "frame_type (stack s p) = 0")
    case True
    then have "in_mem (uint (caller_pc s p)) t"
      using ok mem by (auto simp: frame_ok_def in_mem_def)
    with True show ?thesis
      using frame_long(1-3) [OF pc(1) nv] mem
      by (simp add: frame_head_def reads Let_def frame_long_of_def frame_var_def)
  next
    case False
    then have "frame_type (stack s p) = 0x1000"
      using ok by (auto simp: frame_ok_def)
    then show ?thesis
      using frame_long(4-6) [OF pc(2) nv]
      by (simp add: frame_head_def reads Let_def frame_long_of_def frame_var_def)
  qed
qed

lemma restore_frame_reads:
  assumes ok: "frame_ok s p tos" and mem: "zmp t = zmp s" "story_size t = story_size s"
    and at: "sp t = p + 4" and caller: "word_of_int (fp t - 1) = stack s (p + 1)"
    and len: "8 + 2 * (p - tos) \<le> uint c"
  shows "restore_frame c fatal (reading A (frame_bytes s p tos @ R)) t =
    go_on (c - word_of_int (2 * (p - tos)), reading (A @ frame_bytes s p tos) R,
      t\<lparr>sp := tos, fp := p, stack := frame_stack s p tos (stack t)\<rparr>)"
proof -
  define w where "w = stack s p"
  define nv where "nv = frame_locals w"
  define n where "n = word_of_int (p - tos) - nv"
  have bounds: "0 < tos" "tos + uint nv \<le> p" "p + 4 \<le> 1024"
    using ok by (auto simp: frame_ok_def w_def nv_def)
  have below: "tos \<le> p" "0 < p"
    using bounds uint_word_bounds(1) [of nv] by linarith+
  have cells: "in_stack p" "in_stack (p + 1)" "in_stack (p + 2)" "in_stack (p + 3)"
    using bounds below by (auto simp: in_stack_def)
  have count: "n + nv = word_of_int (p - tos)" "uint (word_of_int (p - tos) :: zword) = p - tos"
  proof -
    show "n + nv = word_of_int (p - tos)"
      by (simp add: n_def)
    show "uint (word_of_int (p - tos) :: zword) = p - tos"
      by (rule uint_small_int) (use bounds below in linarith)+
  qed
  have words: "frame_args w \<le> 8" "stack s (p + 2) < 512"
    using ok by (simp_all add: frame_ok_def w_def)
  note args = args_mask_read [OF words(1)]
  note pc = split_pc [OF words(2), of "stack s (p + 3)", folded caller_pc_def]
  have bytes: "frame_bytes s p tos = long_bytes (frame_long_of s p) @ frame_var s p #
      ucast (args_mask (frame_args w)) # word_bytes n @ words_down (nat (p - tos)) (p + 1) s"
    by (simp add: frame_bytes_def n_def nv_def w_def)
  define u where "u = t\<lparr>sp := p,
    stack := (stack t)(p + 3 := stack s (p + 3), p + 2 := stack s (p + 2), p + 1 := stack s (p + 1), p := w),
    fp := p\<rparr>"
  define d where "d = (word_of_int (2 * (p - tos)) :: 32 word)"
  define m where "m = (word_of_int (p - tos) :: zword)"
  have m: "n + nv = m" "uint m = p - tos" "unat m = nat (p - tos)" "2 * ucast m = d"
  proof -
    show "n + nv = m" "uint m = p - tos"
      using count by (simp_all only: m_def)
    then show "unat m = nat (p - tos)"
      by (simp only: unat_eq_nat_uint)
    show "2 * ucast m = d"
      unfolding ucast_eq \<open>uint m = p - tos\<close> by (simp add: d_def)
  qed
  have "uint d = 2 * (p - tos)"
    unfolding d_def by (subst uint_word_of_int) (use bounds below in simp)
  then have fits: "\<not> c < 8" "\<not> c < d" "\<not> p < 0" "\<not> p \<le> p - tos"
    using len below bounds by (simp_all add: word_less_def)
  have joined: "(push_bit 8 nv OR frame_type w) OR of_nat (first_bit
      (uint (ucast (args_mask (frame_args w)) :: zbyte) + 1)) = w"
    unfolding args(2) nv_def using frame_word [of w] by (simp only: or.assoc)
  have head: "restore_frame c fatal (reading A (frame_bytes s p tos @ R)) t =
      proceed (pull_words (nat (p - tos)) fatal
          (reading (A @ long_bytes (frame_long_of s p) @ frame_var s p #
              ucast (args_mask (frame_args w)) # word_bytes n) (words_down (nat (p - tos)) (p + 1) s @ R)) u)
        (\<lambda>(f, t). go_on (c - d, f, t))"
  proof -
    have pushes: "andthen (push (stack s (p + 3)) t) (\<lambda>t.
        andthen (push (stack s (p + 2)) t) (\<lambda>t.
        andthen (push (word_of_int (fp t) - 1) t) g)) =
        g (t\<lparr>sp := p + 1, stack := (stack t)(p + 3 := stack s (p + 3), p + 2 := stack s (p + 2),
             p + 1 := stack s (p + 1))\<rparr>)" for g :: "zstate \<Rightarrow> 'b res"
    proof -
      have p: "p = sp t - 4"
        using at by simp
      show ?thesis
        using cells caller unfolding p by (simp add: algebra_simps)
    qed
    have push_w: "push w (t\<lparr>sp := p + 1, stack := k\<rparr>) = Ok (t\<lparr>sp := p, stack := k(p := w)\<rparr>)" for k
      using cells by simp
    show ?thesis
      unfolding restore_frame_def bytes
      using fits
      by (simp add: frame_head_reads [OF ok mem] at pc pushes push_w args(1) joined Let_def
          w_def [symmetric] nv_def [symmetric] reads m u_def)
  qed
  have "pull_words (nat (p - tos)) fatal (reading B (words_down (nat (p - tos)) (p + 1) s @ R)) u =
      go_on (reading (B @ words_down (nat (p - tos)) (p + 1) s) R,
        u\<lparr>sp := tos, stack := refill s tos p 2 (stack u)\<rparr>)" for B
    using pull_words_reads [of u "nat (p - tos)" fatal B 2 s R] bounds below
    by (simp add: u_def add.commute)
  moreover have "u\<lparr>sp := tos, stack := refill s tos p 2 (stack u)\<rparr> =
      t\<lparr>sp := tos, fp := p, stack := frame_stack s p tos (stack t)\<rparr>"
  proof -
    have "x < p + 4 \<Longrightarrow> p \<le> x \<Longrightarrow> x = p \<or> x = p + 1 \<or> x = p + 2 \<or> x = p + 3" for x
      by linarith
    then have "refill s tos p 2 (stack u) = frame_stack s p tos (stack t)"
      by (auto simp: fun_eq_iff u_def w_def refill_def frame_stack_def)
    then show ?thesis
      by (simp add: u_def)
  qed
  ultimately show ?thesis
    unfolding head d_def [symmetric] by (simp add: bytes)
qed

subsection \<open>All frames\<close>

text \<open>
  The frame pointers \<open>ps\<close>, innermost first, and the top of the stack. \<open>caller\<close> is the frame pointer
  outside the innermost frame, \<open>bottom\<close> the end of the stack words outside all routines.
\<close>

definition caller :: "int list \<Rightarrow> int" where
  "caller ps = (case ps of [] \<Rightarrow> STACK_SIZE | p # ps \<Rightarrow> p)"

fun bottom :: "int list \<Rightarrow> int \<Rightarrow> int" where
  "bottom [] tos = tos"
| "bottom (p # ps) tos = bottom ps (p + 4)"

fun well_framed :: "zstate \<Rightarrow> int list \<Rightarrow> int \<Rightarrow> bool" where
  "well_framed s [] tos \<longleftrightarrow> 0 < tos \<and> tos \<le> STACK_SIZE \<and> (version s = V6 \<longrightarrow> tos = STACK_SIZE)"
| "well_framed s (p # ps) tos \<longleftrightarrow>
     frame_ok s p tos \<and> uint (stack s (p + 1)) + 1 = caller ps \<and> well_framed s ps (p + 4)"

fun frames_bytes :: "zstate \<Rightarrow> int list \<Rightarrow> int \<Rightarrow> zbyte list" where
  "frames_bytes s [] tos = []"
| "frames_bytes s (p # ps) tos = frames_bytes s ps (p + 4) @ frame_bytes s p tos"

definition base_bytes :: "zstate \<Rightarrow> int \<Rightarrow> zbyte list" where
  "base_bytes s low =
     (if version s \<noteq> V6 then
        [0, 0, 0, 0, 0, 0] @ word_bytes (word_of_int (STACK_SIZE - low)) @
        words_down (nat (STACK_SIZE - low)) (STACK_SIZE - 1) s
      else [])"

definition stks_bytes :: "zstate \<Rightarrow> int list \<Rightarrow> int \<Rightarrow> zbyte list" where
  "stks_bytes s ps tos = base_bytes s (bottom ps tos) @ frames_bytes s ps tos"

lemma frame_ok_tick [simp]: "frame_ok (tick k s) p tos = frame_ok s p tos"
  by (simp add: frame_ok_def caller_pc_def)

lemma well_framed_tick [simp]: "well_framed (tick k s) ps tos = well_framed s ps tos"
  by (induction ps arbitrary: tos) simp_all

lemma bytes_tick [simp]:
  "frames_bytes (tick k s) ps tos = frames_bytes s ps tos"
  "base_bytes (tick k s) low = base_bytes s low"
  "stks_bytes (tick k s) ps tos = stks_bytes s ps tos"
proof -
  show f: "frames_bytes (tick k s) ps tos = frames_bytes s ps tos"
    by (induction ps arbitrary: tos) simp_all
  show "base_bytes (tick k s) low = base_bytes s low"
    by (simp add: base_bytes_def)
  then show "stks_bytes (tick k s) ps tos = stks_bytes s ps tos"
    using f by (simp add: stks_bytes_def base_bytes_def)
qed

lemma frame_ok_bounds: "frame_ok s p tos \<Longrightarrow> 0 < tos \<and> tos \<le> p \<and> p + 4 \<le> STACK_SIZE"
proof -
  assume "frame_ok s p tos"
  then have "0 < tos" "tos + uint (frame_locals (stack s p)) \<le> p" "p + 4 \<le> STACK_SIZE"
    unfolding frame_ok_def by blast+
  then show ?thesis
    using uint_word_bounds(1) [of "frame_locals (stack s p)"] by linarith
qed

lemma well_framed_bounds:
  "well_framed s ps tos \<Longrightarrow> 0 < tos \<and> tos + 4 * int (length ps) \<le> bottom ps tos \<and>
    bottom ps tos \<le> STACK_SIZE \<and> (version s = V6 \<longrightarrow> bottom ps tos = STACK_SIZE) \<and>
    int (length (frames_bytes s ps tos)) = 2 * (bottom ps tos - tos)"
proof (induction ps arbitrary: tos)
  case (Cons p ps)
  from Cons.prems have "frame_ok s p tos" and rest: "well_framed s ps (p + 4)"
    by simp_all
  then have "0 < tos" "tos \<le> p"
    using frame_ok_bounds by blast+
  with Cons.IH [OF rest] show ?case
    by (simp add: length_frame_bytes)
qed simp

lemma frame_chain_finds:
  assumes "well_framed s ps tos" "length ps \<le> room"
  shows "frame_chain room (word_of_int (caller ps + 4)) s = Ok (map (\<lambda>p. word_of_int (p + 4)) ps)"
  using assms
proof (induction ps arbitrary: tos room)
  case Nil
  have "uint (word_of_int (STACK_SIZE + 4) :: zword) = STACK_SIZE + 4"
    by simp
  then show ?case
    by (cases room) (simp_all add: caller_def)
next
  case (Cons p ps)
  from Cons.prems obtain room' where room: "room = Suc room'" "length ps \<le> room'"
    by (cases room) auto
  have p: "0 < p" "p + 4 \<le> STACK_SIZE"
    using Cons.prems(1) frame_ok_bounds [of s p tos] by auto
  then have u: "uint (word_of_int (p + 4) :: zword) = p + 4"
    by (intro uint_small_int) auto
  have after: "stack s (p + 1) + 5 = word_of_int (caller ps + 4)"
  proof -
    have "caller ps + 4 = uint (stack s (p + 1)) + 5"
      using Cons.prems(1) by simp
    then have "word_of_int (caller ps + 4) = (word_of_int (uint (stack s (p + 1)) + 5) :: zword)"
      by (simp only:)
    then show ?thesis
      by simp
  qed
  have "stack_get (p + 4 - 3) s = Ok (stack s (p + 1))"
    using p by (simp add: in_stack_def add.commute)
  then show ?case
    using Cons.IH [of "p + 4" room'] Cons.prems(1) room p u after
    by (simp add: caller_def del: of_int_add)
qed

lemma save_frames_snoc:
  "save_frames (xs @ [a, b]) l f s =
    proceed (save_frames (xs @ [a]) l f s) (\<lambda>(l, f, s). save_frame a b l f s)"
proof (induction xs arbitrary: l f s)
  case Nil
  have "proceed m (\<lambda>(l, f, s). go_on (l, f, s)) = m" for m :: "(32 word \<times> cfile \<times> zstate) saving"
    by (simp add: proceed_def andthen_def go_on_def split: option.splits sum.splits)
  then show ?case
    by (simp add: split_def)
next
  case (Cons x xs)
  then show ?case
    by (cases xs) (simp_all add: proceed_assoc split_def)
qed

lemma save_frames_writes:
  assumes "calm s" "well_framed s ps tos"
  shows "\<exists>k. save_frames (rev (word_of_int tos # map (\<lambda>p. word_of_int (p + 4)) ps)) l (reading A []) s =
    go_on (l + of_nat (length (frames_bytes s ps tos)), reading (A @ frames_bytes s ps tos) [], tick k s)"
  using assms
proof (induction ps arbitrary: tos)
  case Nil
  then show ?case
    by (auto intro: exI [of _ 0])
next
  case (Cons p ps)
  from Cons.prems have ok: "frame_ok s p tos" and rest: "well_framed s ps (p + 4)"
    by simp_all
  obtain k where k: "save_frames (rev (map (\<lambda>p. word_of_int (p + 4)) (p # ps))) l (reading A []) s =
      go_on (l + of_nat (length (frames_bytes s ps (p + 4))),
        reading (A @ frames_bytes s ps (p + 4)) [], tick k s)"
    using Cons.IH [OF Cons.prems(1) rest] by auto
  obtain k' where "save_frame (word_of_int (p + 4)) (word_of_int tos)
      (l + of_nat (length (frames_bytes s ps (p + 4)))) (reading (A @ frames_bytes s ps (p + 4)) []) (tick k s) =
      go_on (l + of_nat (length (frames_bytes s ps (p + 4))) + of_nat (length (frame_bytes s p tos)),
        reading ((A @ frames_bytes s ps (p + 4)) @ frame_bytes s p tos) [], tick k' (tick k s))"
    using save_frame_writes [of "tick k s" p tos "l + of_nat (length (frames_bytes s ps (p + 4)))"
        "A @ frames_bytes s ps (p + 4)"] Cons.prems(1) ok by auto
  then show ?case
    using k save_frames_snoc [of "rev (map (\<lambda>p. word_of_int (p + 4)) ps)" "word_of_int (p + 4)" "word_of_int tos"]
    by (auto simp: add.assoc)
qed

subsection \<open>The whole chunk\<close>

lemma save_base_writes:
  assumes "calm s" "0 < low" "low + int n \<le> STACK_SIZE"
  shows "save_base (word_of_int (low + int n - 1)) (word_of_int low) (reading A []) s =
    go_on (reading (A @ words_down n (low + int n - 1) s) [], tick (2 * n) s)"
  using assms
proof (induction n arbitrary: A s)
  case 0
  then have "uint (word_of_int (low - 1) :: zword) = low - 1" "uint (word_of_int low :: zword) = low"
    by (auto intro!: uint_small_int simp del: of_int_diff)
  then have "\<not> word_of_int low \<le> (word_of_int (low - 1) :: zword)"
    by (simp add: word_le_def)
  then show ?case
    by (subst save_base.simps) simp
next
  case (Suc n)
  define j where "j = low + int n"
  have u: "uint (word_of_int j :: zword) = j" "uint (word_of_int low :: zword) = low"
    using Suc.prems by (auto intro!: uint_small_int simp: j_def simp del: of_int_add)
  have pred: "word_of_int j - 1 = (word_of_int (low + int n - 1) :: zword)"
    by (simp add: j_def)
  have "in_stack j" "word_of_int low \<le> (word_of_int j :: zword)"
    using Suc.prems u by (simp_all add: in_stack_def j_def word_le_def)
  then have "save_base (word_of_int j) (word_of_int low) (reading A []) s =
      save_base (word_of_int (low + int n - 1)) (word_of_int low)
        (reading (A @ word_bytes (stack s j)) []) (tick 2 s)"
    using Suc.prems(1) u pred by (subst save_base.simps) simp
  then show ?case
    using Suc.IH [of "tick 2 s" "A @ word_bytes (stack s j)"] Suc.prems by (simp add: j_def)
qed

lemma hd_frames:
  "hd (rev (word_of_int tos # map (\<lambda>p. word_of_int (p + 4)) ps)) = (word_of_int (bottom ps tos) :: zword)"
proof (induction ps arbitrary: tos)
  case (Cons p ps)
  have "hd (rev (word_of_int tos # map (\<lambda>p. word_of_int (p + 4)) (p # ps))) =
      (hd (rev (word_of_int (p + 4) # map (\<lambda>p. word_of_int (p + 4)) ps)) :: zword)"
    by (simp add: hd_append)
  then show ?case
    using Cons.IH [of "p + 4"] by simp
qed simp

lemma of_nat_length:
  fixes w :: zword
  assumes "int n = 8 + 2 * uint w"
  shows "of_nat n = (8 + 2 * ucast w :: 32 word)"
proof -
  have "(word_of_int (int n) :: 32 word) = word_of_int (8 + 2 * uint w)"
    by (simp only: assms)
  moreover have "word_of_int (8 + 2 * a) = (8 + 2 * word_of_int a :: 32 word)" for a
    by simp
  moreover have "word_of_int (uint w) = (ucast w :: 32 word)"
    by (simp only: ucast_eq)
  ultimately show ?thesis
    by (simp only: of_int_of_nat_eq)
qed

lemma save_stks_writes:
  assumes calm: "calm s" and framed: "well_framed s ps (sp s)" and fp: "fp s = caller ps"
  shows "\<exists>k. save_stks (reading A []) s =
    go_on (of_nat (length (stks_bytes s ps (sp s))), reading (A @ stks_bytes s ps (sp s)) [], tick k s)"
proof -
  define low where "low = bottom ps (sp s)"
  have bounds: "0 < sp s" "sp s + 4 * int (length ps) \<le> low" "low \<le> STACK_SIZE"
    using well_framed_bounds [OF framed] by (simp_all add: low_def)
  then have chain: "frame_chain 256 (word_of_int (fp s + 4)) s = Ok (map (\<lambda>p. word_of_int (p + 4)) ps)"
    using frame_chain_finds [OF framed, of 256] fp by simp
  have first: "hd (rev (word_of_int (sp s) # map (\<lambda>p. word_of_int (p + 4)) ps)) = (word_of_int low :: zword)"
    unfolding low_def by (rule hd_frames)
  define nstk where "nstk = (word_of_int (STACK_SIZE - low) :: zword)"
  have nstk: "word_of_int STACK_SIZE - word_of_int low = nstk" "uint nstk = STACK_SIZE - low"
    unfolding nstk_def using bounds by (simp, intro uint_small_int) auto
  have base: "\<exists>k. (if version s \<noteq> V6 then
        (let nstk = word_of_int STACK_SIZE - word_of_int low in
         proceed (wr [0, 0, 0, 0, 0, 0] (reading A []) s) (\<lambda>(f, s).
         proceed (wr (word_bytes nstk) f s) (\<lambda>(f, s).
         proceed (save_base (word_of_int (STACK_SIZE - 1)) (word_of_int low) f s) (\<lambda>(f, s).
           go_on (8 + 2 * ucast nstk :: 32 word, f, s)))))
      else go_on (0, reading A [], s)) =
    go_on (of_nat (length (base_bytes s low)), reading (A @ base_bytes s low) [], tick k s)"
  proof (cases "version s = V6")
    case True
    then show ?thesis
      by (auto simp: base_bytes_def intro: exI [of _ 0])
  next
    case False
    have words: "save_base (word_of_int (STACK_SIZE - 1)) (word_of_int low) (reading B []) (tick k s) =
        go_on (reading (B @ words_down (nat (STACK_SIZE - low)) (STACK_SIZE - 1) s) [],
          tick (k + 2 * nat (STACK_SIZE - low)) s)" for B k
      using save_base_writes [of "tick k s" low "nat (STACK_SIZE - low)" B] calm bounds by simp
    have len: "of_nat (length (base_bytes s low)) = (8 + 2 * ucast nstk :: 32 word)"
      using False bounds nstk(2) by (intro of_nat_length) (simp add: base_bytes_def)
    show ?thesis
      unfolding len using False words calm nstk by (auto simp: base_bytes_def)
  qed
  then obtain k where k: "(if version s \<noteq> V6 then
        (let nstk = word_of_int STACK_SIZE - word_of_int low in
         proceed (wr [0, 0, 0, 0, 0, 0] (reading A []) s) (\<lambda>(f, s).
         proceed (wr (word_bytes nstk) f s) (\<lambda>(f, s).
         proceed (save_base (word_of_int (STACK_SIZE - 1)) (word_of_int low) f s) (\<lambda>(f, s).
           go_on (8 + 2 * ucast nstk :: 32 word, f, s)))))
      else go_on (0, reading A [], s)) =
    go_on (of_nat (length (base_bytes s low)), reading (A @ base_bytes s low) [], tick k s)"
    by blast
  obtain k' where "save_frames (rev (word_of_int (sp s) # map (\<lambda>p. word_of_int (p + 4)) ps))
      (of_nat (length (base_bytes s low))) (reading (A @ base_bytes s low) []) (tick k s) =
      go_on (of_nat (length (base_bytes s low)) + of_nat (length (frames_bytes s ps (sp s))),
        reading ((A @ base_bytes s low) @ frames_bytes s ps (sp s)) [], tick k' (tick k s))"
    using save_frames_writes [of "tick k s" ps "sp s" "of_nat (length (base_bytes s low))"
        "A @ base_bytes s low"] calm framed by auto
  then show ?thesis
    unfolding save_stks_def chain andthen_simps Let_def first k [unfolded Let_def]
    by (auto simp: stks_bytes_def low_def)
qed

subsection \<open>Reading the chunk back\<close>

lemma length_left:
  assumes "k + m < 2 ^ 32"
  shows "uint (of_nat (k + m) :: 32 word) = int (k + m)"
  using assms by (simp add: unsigned_of_nat take_bit_nat_eq_self del: of_nat_add power_numeral)

lemma uint_long_of_word [simp]: "uint (ucast (w :: zword) :: 32 word) = uint w"
proof -
  have "uint w < 2 ^ 32"
    using uint_word_bounds(2) [of w] by simp
  then show ?thesis
    by (simp add: unsigned_ucast_eq take_bit_int_eq_self)
qed

lemma uint_double_word: "uint (2 * ucast (w :: zword) :: 32 word) = 2 * uint w"
  using uint_word_bounds [of w] by (simp add: uint_word_ariths mod_pos_pos_trivial)

lemma uint_minus_8: "8 \<le> uint c \<Longrightarrow> uint (c - 8) = uint c - 8" for c :: "32 word"
  using uint_bounded [of c] by (simp add: uint_word_ariths mod_pos_pos_trivial)

lemma six_zeros_reads:
  "six_zeros n fatal (reading A (replicate n 0 @ R)) t = go_on (reading (A @ replicate n 0) R)"
  by (induction n arbitrary: A) simp_all

lemma base_stack_reads:
  assumes low: "0 < low" "low \<le> STACK_SIZE" "version s = V6 \<Longrightarrow> low = STACK_SIZE"
    and t: "version t = version s" "sp t = STACK_SIZE"
    and len: "length (base_bytes s low) + m < 2 ^ 32"
  shows "base_stack (of_nat (length (base_bytes s low) + m)) fatal (reading A (base_bytes s low @ R)) t =
    go_on (of_nat m, reading (A @ base_bytes s low) R,
      t\<lparr>sp := low, stack := refill s low STACK_SIZE 0 (stack t)\<rparr>)"
proof (cases "version s = V6")
  case True
  then have "refill s low STACK_SIZE 0 (stack t) = stack t"
    using low by (auto simp: refill_def fun_eq_iff)
  with True show ?thesis
    using low t by (simp add: base_stack_def base_bytes_def)
next
  case False
  define w where "w = (word_of_int (STACK_SIZE - low) :: zword)"
  have w: "uint w = STACK_SIZE - low"
    unfolding w_def using low by (intro uint_small_int) auto
  then have n: "unat w = nat (STACK_SIZE - low)"
    by (simp only: unat_eq_nat_uint)
  define k where "k = length (base_bytes s low)"
  have k: "int k = 8 + 2 * uint w"
    using False low by (simp add: k_def base_bytes_def w)
  define c where "c = (of_nat (k + m) :: 32 word)"
  have c: "uint c = int (k + m)"
    unfolding c_def using len by (intro length_left) (simp add: k_def)
  have "c = 8 + 2 * ucast w + of_nat m"
    using of_nat_length [OF k] by (simp add: c_def)
  then have c8: "c - 8 = 2 * ucast w + of_nat m" "c - 8 - 2 * ucast w = of_nat m"
    by simp_all
  have "uint (2 * ucast w :: 32 word) = 2 * uint w" "uint (c - 8) = uint c - 8"
    using c k uint_double_word [of w] uint_minus_8 [of c] by simp_all
  then have fits: "\<not> c < 8" "\<not> c - 8 < 2 * ucast w"
    using c k low unfolding word_less_def by (simp_all add: w)
  have bytes: "base_bytes s low = replicate 6 0 @ word_bytes w @ words_down (unat w) 1023 s"
    unfolding base_bytes_def w_def [symmetric] n [symmetric] using False by (simp add: numeral_eq_Suc)
  have words: "pull_words (unat w) fatal (reading B (words_down (unat w) 1023 s @ R)) t =
      go_on (reading (B @ words_down (unat w) 1023 s) R,
        t\<lparr>sp := low, stack := refill s low STACK_SIZE 0 (stack t)\<rparr>)" for B
    using pull_words_reads [of t "unat w" fatal B 0 s R] t low n by simp
  show ?thesis
    unfolding k_def [symmetric] c_def [symmetric] unfolding bytes
    using False t low w fits c8(2)
    by (simp add: base_stack_def six_zeros_reads reads words del: replicate.simps)
qed

text \<open>
  The stack that is read back: the words outside all routines and the frames are in their places, the
  words of the routines come from two places above.
\<close>

fun saved_stack :: "zstate \<Rightarrow> int list \<Rightarrow> int \<Rightarrow> (int \<Rightarrow> zword) \<Rightarrow> int \<Rightarrow> zword" where
  "saved_stack s [] tos k = refill s tos STACK_SIZE 0 k"
| "saved_stack s (p # ps) tos k = frame_stack s p tos (saved_stack s ps (p + 4) k)"

definition same_memory :: "zstate \<Rightarrow> zstate \<Rightarrow> bool" where
  "same_memory s t \<longleftrightarrow> zmp t = zmp s \<and> story_size t = story_size s \<and> version t = version s"

lemma restore_frames_reads:
  assumes "well_framed s ps tos" "same_memory s t" "sp t = bottom ps tos" "fp t = STACK_SIZE"
    "frame_count t = 0" "stack t = refill s (bottom ps tos) STACK_SIZE 0 k"
    "length (frames_bytes s ps tos) + m < 2 ^ 32"
  shows "restore_frames (of_nat (length (frames_bytes s ps tos) + m)) fatal
      (reading A (frames_bytes s ps tos @ R)) t =
    restore_frames (of_nat m) fatal (reading (A @ frames_bytes s ps tos) R)
      (t\<lparr>sp := tos, fp := caller ps, frame_count := of_nat (length ps), stack := saved_stack s ps tos k\<rparr>)"
  using assms
proof (induction ps arbitrary: tos m R)
  case Nil
  then have "t\<lparr>sp := tos, fp := STACK_SIZE, frame_count := 0, stack := refill s tos STACK_SIZE 0 k\<rparr> = t"
    by simp
  then show ?case
    by (simp add: caller_def)
next
  case (Cons p ps)
  from Cons.prems(1) have ok: "frame_ok s p tos" and call: "uint (stack s (p + 1)) + 1 = caller ps"
    and rest: "well_framed s ps (p + 4)"
    by simp_all
  have bounds: "0 < tos" "tos \<le> p"
    using frame_ok_bounds [OF ok] by simp_all
  define l where "l = length (frame_bytes s p tos)"
  have l: "int l = 8 + 2 * (p - tos)"
    using length_frame_bytes [of tos p s] bounds by (simp add: l_def)
  define u where "u = t\<lparr>sp := p + 4, fp := caller ps, frame_count := of_nat (length ps),
    stack := saved_stack s ps (p + 4) k\<rparr>"
  have outer: "restore_frames (of_nat (length (frames_bytes s (p # ps) tos) + m)) fatal
      (reading A (frames_bytes s (p # ps) tos @ R)) t =
    restore_frames (of_nat (l + m)) fatal
      (reading (A @ frames_bytes s ps (p + 4)) (frame_bytes s p tos @ R)) u"
    using Cons.IH [of "p + 4" "l + m" "frame_bytes s p tos @ R"] rest Cons.prems
    by (simp add: u_def l_def add.assoc)
  have c: "uint (of_nat (l + m) :: 32 word) = int (l + m)"
    using Cons.prems(7) by (intro length_left) (simp add: l_def)
  have "word_of_int (fp u - 1) = stack s (p + 1)"
  proof -
    have "fp u - 1 = uint (stack s (p + 1))"
      using call by (simp add: u_def)
    then show ?thesis
      by (simp only: word_of_int_uint)
  qed
  then have one: "restore_frame (of_nat (l + m)) fatal
      (reading (A @ frames_bytes s ps (p + 4)) (frame_bytes s p tos @ R)) u =
    go_on (of_nat (l + m) - word_of_int (2 * (p - tos)),
      reading ((A @ frames_bytes s ps (p + 4)) @ frame_bytes s p tos) R,
      u\<lparr>sp := tos, fp := p, stack := frame_stack s p tos (stack u)\<rparr>)"
    using c l Cons.prems(2) by (intro restore_frame_reads [OF ok]) (simp_all add: u_def same_memory_def)
  have left: "of_nat (l + m) - word_of_int (2 * (p - tos)) - 8 = (of_nat m :: 32 word)"
  proof -
    have "(word_of_int (int l) :: 32 word) = word_of_int (8 + 2 * (p - tos))"
      by (simp only: l)
    then have "(of_nat l :: 32 word) = 8 + word_of_int (2 * (p - tos))"
      by simp
    then show ?thesis
      by simp
  qed
  have pos: "(0 :: 32 word) < of_nat (l + m)"
    using c l bounds by (simp add: word_less_def del: of_nat_add)
  have "restore_frames (of_nat (l + m)) fatal
      (reading (A @ frames_bytes s ps (p + 4)) (frame_bytes s p tos @ R)) u =
    restore_frames (of_nat m) fatal (reading ((A @ frames_bytes s ps (p + 4)) @ frame_bytes s p tos) R)
      (u\<lparr>sp := tos, fp := p, stack := frame_stack s p tos (stack u), frame_count := frame_count u + 1\<rparr>)"
    by (subst restore_frames.simps) (simp only: pos one left early_simps prod.case if_True, simp)
  moreover have "u\<lparr>sp := tos, fp := p, stack := frame_stack s p tos (stack u), frame_count := frame_count u + 1\<rparr> =
      t\<lparr>sp := tos, fp := p, frame_count := of_nat (length (p # ps)),
        stack := saved_stack s (p # ps) tos k\<rparr>"
    by (simp add: u_def add.commute)
  ultimately show ?case
    unfolding outer by (simp add: caller_def del: length_Cons saved_stack.simps)
qed

lemma stks_chunk_reads:
  assumes framed: "well_framed s ps tos" and mem: "same_memory s t" and first: "progress AND GOT_STACK = 0"
  defines "n \<equiv> length (stks_bytes s ps tos)"
  shows "n < 2 ^ 32" "stks_chunk (of_nat n) progress fatal (reading A (stks_bytes s ps tos @ R)) t =
    go_on (progress OR GOT_STACK, -1, reading (A @ stks_bytes s ps tos) R,
      t\<lparr>sp := tos, fp := caller ps, frame_count := of_nat (length ps),
        stack := saved_stack s ps tos (stack t)\<rparr>)"
proof -
  define low where "low = bottom ps tos"
  have low: "0 < tos" "tos \<le> low" "low \<le> STACK_SIZE" "version s = V6 \<longrightarrow> low = STACK_SIZE"
      "int (length (frames_bytes s ps tos)) = 2 * (low - tos)"
    using well_framed_bounds [OF framed] by (auto simp: low_def)
  have "length (base_bytes s low) \<le> 8 + 2 * 1024"
  proof -
    have "nat (STACK_SIZE - low) \<le> 1024"
      using low(1,2) by simp
    then show ?thesis
      by (simp add: base_bytes_def)
  qed
  then have n: "length (base_bytes s low) + length (frames_bytes s ps tos) < 2 ^ 32"
    using low by simp
  then show "n < 2 ^ 32"
    by (simp add: n_def stks_bytes_def low_def)
  have base: "base_stack (of_nat n) (-1) (reading A (base_bytes s low @ frames_bytes s ps tos @ R)) (t\<lparr>sp := STACK_SIZE\<rparr>) =
      go_on (of_nat (length (frames_bytes s ps tos)),
        reading (A @ base_bytes s low) (frames_bytes s ps tos @ R),
        t\<lparr>sp := low, stack := refill s low STACK_SIZE 0 (stack t)\<rparr>)"
    using base_stack_reads [of low s "t\<lparr>sp := STACK_SIZE\<rparr>" "length (frames_bytes s ps tos)" "-1" A
        "frames_bytes s ps tos @ R"] low n mem
    by (simp add: n_def stks_bytes_def low_def [symmetric] same_memory_def)
  show "stks_chunk (of_nat n) progress fatal (reading A (stks_bytes s ps tos @ R)) t =
    go_on (progress OR GOT_STACK, -1, reading (A @ stks_bytes s ps tos) R,
      t\<lparr>sp := tos, fp := caller ps, frame_count := of_nat (length ps),
        stack := saved_stack s ps tos (stack t)\<rparr>)"
    using restore_frames_reads [of s ps tos
        "t\<lparr>sp := low, stack := refill s low STACK_SIZE 0 (stack t), fp := STACK_SIZE, frame_count := 0\<rparr>"
        "stack t" 0 "-1" "A @ base_bytes s low" R] framed mem n
    by (simp add: stks_chunk_def first base low_def [symmetric] same_memory_def stks_bytes_def
        restore_frames.simps [of 0] Let_def)
qed

end
