(* ===== verification/Quetzal_Correct.thy ===== *)
theory Quetzal_Correct
  imports Quetzal_Stack
begin

text \<open>
  Saving and restoring a game in the Quetzal format: the file that \<open>save_quetzal_file\<close> writes, and what
  \<open>restore_quetzal\<close> makes of it. Memory, program counter, frames and the stack outside all routines
  come back; the words of the routines do not, because \<open>save_quetzal_file\<close> starts each frame two words too
  high. The last part is about files that \<open>save_quetzal_file\<close> did not write.
\<close>

subsection \<open>The file\<close>

definition serial_bytes :: "zstate \<Rightarrow> zbyte list" where
  "serial_bytes s = map (zmp s) [H_SERIAL..H_SERIAL + 5]"

definition ifhd_bytes :: "zstate \<Rightarrow> zbyte list" where
  "ifhd_bytes s = word_bytes (h_release (hdr s)) @ serial_bytes s @ word_bytes (h_checksum (hdr s)) @
     long_bytes (push_bit 8 (word_of_int (pcp s)))"

definition cmem_bytes :: "zstate \<Rightarrow> zbyte list" where
  "cmem_bytes s = encoded_diff 0 (differences s)"

definition padding :: "'a list \<Rightarrow> zbyte list" where
  "padding bs = (if odd (length bs) then [0] else [])"

definition quetzal_bytes :: "32 word \<Rightarrow> 32 word \<Rightarrow> 32 word \<Rightarrow> zstate \<Rightarrow> int list \<Rightarrow> zbyte list" where
  "quetzal_bytes lf lc ls s ps =
     chnk_bytes ID_FORM lf @ long_bytes ID_IFZS @
     chnk_bytes ID_IFhd 13 @ ifhd_bytes s @
     chnk_bytes ID_CMem lc @ cmem_bytes s @ padding (cmem_bytes s) @
     chnk_bytes ID_Stks ls @ stks_bytes s ps (sp s)"

text \<open>
  A state that can be saved: the story file covers dynamic memory, the program counter fits into three
  bytes, and the stack is well formed with the frame pointers \<open>ps\<close>.
\<close>

definition saveable :: "zstate \<Rightarrow> int list \<Rightarrow> bool" where
  "saveable s ps \<longleftrightarrow> loaded s \<and> 64 \<le> dynamic s \<and> 0 \<le> pcp s \<and> pcp s < 2 ^ 24 \<and>
     well_framed s ps (sp s) \<and> fp s = caller ps"

subsection \<open>Saving\<close>

lemma differences_tick [simp]: "differences (tick k s) = differences s"
  by (simp add: differences_def diff_at_def)

lemma save_serial_writes:
  assumes "calm s" "\<forall>i \<in> set is. in_mem i s"
  shows "save_serial is (reading A []) s =
    go_on (reading (A @ map (zmp s) is) [], tick (length is) s)"
  using assms by (induction "is" arbitrary: A s) simp_all

lemma dynamic_in_mem: "loaded s \<Longrightarrow> 0 \<le> i \<Longrightarrow> i < int (dynamic s) \<Longrightarrow> in_mem i s"
  by (simp add: loaded_def in_mem_def)

lemma int_dynamic: "int (dynamic s) = uint (h_dynamic_size (hdr s))"
  by (simp add: dynamic_def)

lemma put_bytes_over:
  assumes "calm s" "length Y = length bs"
  shows "put_bytes bs \<lparr>f_bytes = X @ Y @ Z, f_pos = length X\<rparr> s =
    (True, \<lparr>f_bytes = X @ bs @ Z, f_pos = length X + length bs\<rparr>, tick (length bs) s)"
  using assms
proof (induction bs arbitrary: X Y s)
  case (Cons b bs)
  then obtain y Y' where Y: "Y = y # Y'" "length Y' = length bs"
    by (cases Y) auto
  then have "put_c b \<lparr>f_bytes = X @ Y @ Z, f_pos = length X\<rparr> s =
      (True, \<lparr>f_bytes = (X @ [b]) @ Y' @ Z, f_pos = length (X @ [b])\<rparr>, tick 1 s)"
    using Cons.prems(1) by (simp add: put_c_def ask_def calm_def tick_def write_at_def)
  then show ?case
    using Cons.IH [of "tick 1 s" Y' "X @ [b]"] Cons.prems(1) Y(2) by (simp add: put_bytes.simps)
qed simp

lemma patch_long_over:
  assumes "calm s" "length X = pos"
  shows "patch_long pos l \<lparr>f_bytes = X @ long_bytes l' @ Z, f_pos = p\<rparr> s =
    go_on (\<lparr>f_bytes = X @ long_bytes l @ Z, f_pos = pos + 4\<rparr>, tick 4 s)"
  using put_bytes_over [of s "long_bytes l'" "long_bytes l" X Z] assms
  by (simp add: patch_long_def wr_def)

lemma odd_length: "(of_nat n :: 32 word) AND 1 \<noteq> 0 \<longleftrightarrow> odd n"
proof -
  have "bit (word_of_int (int n) :: 32 word) 0 \<longleftrightarrow> bit (int n) 0"
    by (simp only: bit_word_of_int_iff) simp
  then have "odd (of_nat n :: 32 word) \<longleftrightarrow> odd n"
    by (simp add: bit_0)
  then show ?thesis
    by (simp add: and_one_eq mod_2_eq_odd)
qed

lemma save_quetzal_writes:
  assumes calm: "calm s" and ok: "saveable s ps"
  defines "lc \<equiv> of_nat (length (cmem_bytes s))" and "ls \<equiv> of_nat (length (stks_bytes s ps (sp s)))"
  defines "lf \<equiv> 42 + lc + ls + (if odd (length (cmem_bytes s)) then 1 else 0)"
  shows "\<exists>p k. save_quetzal_file \<lparr>f_bytes = [], f_pos = 0\<rparr> s =
    Ok (1, \<lparr>f_bytes = quetzal_bytes lf lc ls s ps, f_pos = p\<rparr>, tick k s)"
proof -
  define C where "C = cmem_bytes s"
  define S where "S = stks_bytes s ps (sp s)"
  define H where "H = ifhd_bytes s"
  have ok': "loaded s" "64 \<le> dynamic s" "well_framed s ps (sp s)" "fp s = caller ps"
    using ok by (simp_all add: saveable_def)
  have mem: "in_mem i s" if "0 \<le> i" "i < int (dynamic s)" for i
    using dynamic_in_mem ok'(1) that by blast
  have serial: "save_serial [H_SERIAL..H_SERIAL + 5] (reading B []) (tick k s) =
      go_on (reading (B @ serial_bytes s) [], tick (k + 6) s)" for B k
    using save_serial_writes [of "tick k s" "[H_SERIAL..H_SERIAL + 5]" B] calm mem ok'(2)
    by (simp add: serial_bytes_def numeral_eq_Suc)
  define X where "X = long_bytes ID_FORM"
  define Y where "Y = long_bytes ID_IFZS @ chnk_bytes ID_IFhd 13 @ H @ long_bytes ID_CMem"
  define Z where "Z = C @ padding C @ long_bytes ID_Stks"
  have start: "\<lparr>f_bytes = [], f_pos = 0\<rparr> = reading [] []"
    by (simp add: reading_def)
  obtain k1 where head: "save_header (reading [] []) s =
      go_on (reading (X @ long_bytes 0 @ long_bytes ID_IFZS @ chnk_bytes ID_IFhd 13 @ H) [], tick k1 s)"
    using calm serial by (simp add: save_header_def Let_def chnk_bytes_def X_def H_def ifhd_bytes_def
        del: upto_rec_numeral save_serial.simps)
  have "\<forall>i \<in> set [0..uint (h_dynamic_size (hdr s)) - 1]. in_mem i s \<and> i < story_len s"
    using mem ok'(1) by (auto simp: int_dynamic loaded_def)
  then have cmem: "\<exists>n. save_cmem [0..uint (h_dynamic_size (hdr s)) - 1] 0 0 (reading B []) (tick k s) =
      go_on (of_nat (length C), reading (B @ C) [], tick (k + n) s)" for B k
    using save_cmem_writes [of "tick k s" "[0..uint (h_dynamic_size (hdr s)) - 1]" 0 0 B] calm
    by (simp add: C_def cmem_bytes_def differences_def diff_at_def [abs_def])
  have stks: "\<exists>n. save_stks (reading B []) (tick k s) =
      go_on (of_nat (length S), reading (B @ S) [], tick (k + n) s)" for B k
    using save_stks_writes [of "tick k s" ps B] calm ok' by (simp add: S_def)
  have odd_len: "(of_nat (length C) :: 32 word) AND 1 \<noteq> 0 \<longleftrightarrow> odd (length C)"
    by (rule odd_length)
  have pad: "(if (of_nat (length C) :: 32 word) AND 1 \<noteq> 0 then [0] else []) = padding C"
    by (simp add: padding_def odd_len)
  define B1 where "B1 = X @ long_bytes 0 @ long_bytes ID_IFZS @ chnk_bytes ID_IFhd 13 @ H"
  define B2 where "B2 = B1 @ chnk_bytes ID_CMem 0"
  obtain n where n: "save_cmem [0..uint (h_dynamic_size (hdr s)) - 1] 0 0 (reading B2 []) (tick (k1 + 9) s) =
      go_on (of_nat (length C), reading (B2 @ C) [], tick (k1 + 9 + n) s)"
    using cmem by blast
  define B3 where "B3 = B2 @ C @ padding C"
  define B4 where "B4 = B3 @ chnk_bytes ID_Stks 0"
  define k4 where "k4 = k1 + 9 + n + length (padding C) + 9"
  obtain m where m: "save_stks (reading B4 []) (tick k4 s) =
      go_on (of_nat (length S), reading (B4 @ S) [], tick (k4 + m) s)"
    using stks by blast
  define F where "F lf lc ls p =
    \<lparr>f_bytes = X @ long_bytes lf @ Y @ long_bytes lc @ Z @ long_bytes ls @ S, f_pos = p\<rparr>" for lf lc ls p
  have full: "reading (B4 @ S) [] = F 0 0 0 (length (B4 @ S))"
    by (simp add: reading_def F_def B4_def B3_def B2_def B1_def X_def Y_def Z_def chnk_bytes_def)
  have patches: "patch_long 4 lf (F 0 0 0 p) (tick k s) = go_on (F lf 0 0 8, tick (k + 4) s)"
    "patch_long (length B1 + 4) lc (F lf 0 0 p) (tick k s) = go_on (F lf lc 0 (length B1 + 8), tick (k + 4) s)"
    "patch_long (length B3 + 4) ls (F lf lc 0 p) (tick k s) = go_on (F lf lc ls (length B3 + 8), tick (k + 4) s)"
    for lf lc ls p k
    using patch_long_over [of "tick k s" X 4 lf 0 "Y @ long_bytes 0 @ Z @ long_bytes 0 @ S" p]
      patch_long_over [of "tick k s" "X @ long_bytes lf @ Y" "length B1 + 4" lc 0 "Z @ long_bytes 0 @ S" p]
      patch_long_over [of "tick k s" "X @ long_bytes lf @ Y @ long_bytes lc @ Z" "length B3 + 4" ls 0 S p] calm
    by (simp_all add: F_def X_def B1_def B2_def B3_def Y_def Z_def chnk_bytes_def)
  have steps: "tell (reading B1 []) (tick k1 s) = go_on (length B1, tick (k1 + 1) s)"
    "wr (chnk_bytes ID_CMem 0) (reading B1 []) (tick (k1 + 1) s) = go_on (reading B2 [], tick (k1 + 9) s)"
    "wr (padding C) (reading (B2 @ C) []) (tick (k1 + 9 + n) s) =
      go_on (reading B3 [], tick (k1 + 9 + n + length (padding C)) s)"
    "tell (reading B3 []) (tick (k1 + 9 + n + length (padding C)) s) =
      go_on (length B3, tick (k1 + 9 + n + length (padding C) + 1) s)"
    "wr (chnk_bytes ID_Stks 0) (reading B3 []) (tick (k1 + 9 + n + length (padding C) + 1) s) =
      go_on (reading B4 [], tick k4 s)"
    using calm by (simp_all add: B2_def B3_def B4_def k4_def chnk_bytes_def add.commute)
  have lf: "(if (of_nat (length C) :: 32 word) AND 1 \<noteq> 0
      then 3 * 8 + 4 + 14 + of_nat (length C) + of_nat (length S) + 1
      else 3 * 8 + 4 + 14 + of_nat (length C) + of_nat (length S)) = lf"
    unfolding odd_len by (simp add: lf_def lc_def ls_def C_def S_def)
  have l: "of_nat (length C) = lc" "of_nat (length S) = ls"
    by (simp_all add: lc_def ls_def C_def S_def)
  have result: "F lf lc ls p = \<lparr>f_bytes = quetzal_bytes lf lc ls s ps, f_pos = p\<rparr>" for p
    by (simp add: F_def quetzal_bytes_def X_def Y_def Z_def H_def C_def S_def chnk_bytes_def)
  have "save_quetzal_file \<lparr>f_bytes = [], f_pos = 0\<rparr> s = Ok (1, F lf lc ls (length B3 + 8), tick (k4 + m + 4 + 4 + 4) s)"
    unfolding save_quetzal_file_def start head B1_def [symmetric]
    by (simp only: early_simps prod.case tick_sel steps full Let_def patches
        n [unfolded l] pad [unfolded l] m [unfolded l] lf [unfolded l])
  then show ?thesis
    unfolding result by blast
qed

subsection \<open>Restoring what was saved\<close>

text \<open>
  \<open>t\<close> runs the same story as \<open>s\<close>: the same file, the same size of memory, the same contents outside
  dynamic memory, and the same release, serial number and checksum.
\<close>

definition same_story :: "zstate \<Rightarrow> zstate \<Rightarrow> bool" where
  "same_story s t \<longleftrightarrow>
     story_file t = story_file s \<and> story_len t = story_len s \<and> story_size t = story_size s \<and>
     version t = version s \<and> h_dynamic_size (hdr t) = h_dynamic_size (hdr s) \<and>
     h_release (hdr t) = h_release (hdr s) \<and> h_checksum (hdr t) = h_checksum (hdr s) \<and>
     serial_bytes t = serial_bytes s \<and>
     (\<forall>a. a < 0 \<or> int (dynamic s) \<le> a \<longrightarrow> zmp t a = zmp s a)"

lemma length_chnk_bytes [simp]: "length (chnk_bytes i l) = 8"
  by (simp add: chnk_bytes_def)

lemma chunk_ids: "ID_Stks \<noteq> ID_IFhd" "ID_CMem \<noteq> ID_IFhd" "ID_CMem \<noteq> ID_Stks"
  by code_simp+

lemma long_nat_less: "a < 2 ^ 32 \<Longrightarrow> b < 2 ^ 32 \<Longrightarrow> (of_nat a < (of_nat b :: 32 word)) = (a < b)"
  by (simp add: word_less_nat_alt unsigned_of_nat take_bit_nat_eq_self del: power_numeral)

text \<open>One chunk, with its padding; \<open>m\<close> bytes of chunks follow.\<close>

lemma restore_chunks_step:
  assumes "8 + n + n mod 2 + m < 2 ^ 32"
  shows "restore_chunks (of_nat (8 + n + n mod 2 + m)) progress fatal
      (reading A (chnk_bytes i (of_nat n) @ R)) t =
    proceed (one_chunk i (of_nat n) progress fatal (reading (A @ chnk_bytes i (of_nat n)) R) t)
      (\<lambda>(progress, fatal, f, s).
        restore_chunks (of_nat m) progress fatal (if odd n then skip_c f else f) s)"
proof -
  define l where "l = 8 + n + n mod 2 + m"
  define c where "c = (of_nat l :: 32 word)"
  have less: "\<not> c < 8" "0 < c"
    using long_nat_less [of l 8] long_nat_less [of 0 l] assms by (simp_all add: l_def c_def)
  have minus: "c - 8 = of_nat (n + n mod 2 + m)"
    by (simp add: l_def c_def)
  have fits: "\<not> c - 8 < of_nat n"
    unfolding minus using assms by (subst long_nat_less) simp_all
  have skip: "(of_nat n :: 32 word) AND 1 = of_nat (n mod 2)"
  proof (cases "odd n")
    case True
    then have "(of_nat n :: 32 word) AND 1 = 1"
      using odd_length [of n] by (auto simp: and_one_eq)
    with True show ?thesis
      by (simp add: mod_2_eq_odd)
  next
    case False
    with odd_length [of n] show ?thesis
      by (simp add: mod_2_eq_odd)
  qed
  have rest: "c - 8 - (of_nat n + of_nat (n mod 2)) = of_nat m"
    by (simp add: minus)
  have odd: "(of_nat (n mod 2) :: 32 word) \<noteq> 0 \<longleftrightarrow> odd n"
    using odd_length [of n] skip by simp
  have read: "read_long (reading A (chnk_bytes i (of_nat n) @ R)) =
      Some (i, reading (A @ long_bytes i) (long_bytes (of_nat n) @ R))"
    "read_long (reading (A @ long_bytes i) (long_bytes (of_nat n) @ R)) =
      Some (of_nat n, reading (A @ chnk_bytes i (of_nat n)) R)"
    by (simp_all add: chnk_bytes_def read_long_reading)
  show ?thesis
    unfolding l_def [symmetric] c_def [symmetric]
    by (subst restore_chunks.simps)
      (simp add: less read fits skip rest odd Let_def split_def del: of_nat_mod)
qed

lemma check_serial_passes:
  assumes "\<forall>i \<in> set is. in_mem i t"
  shows "check_serial is progress fatal (reading A (map (zmp t) is @ R)) t =
    go_on (progress, reading (A @ map (zmp t) is) R)"
  using assms by (induction "is" arbitrary: A) simp_all

lemma pc_bytes:
  fixes pc :: "32 word"
  assumes "pc < 2 ^ 24"
  shows "push_bit 16 (ucast (ucast (drop_bit 24 (push_bit 8 pc)) :: zbyte)) OR
      push_bit 8 (ucast (ucast (drop_bit 16 (push_bit 8 pc)) :: zbyte)) OR
      ucast (ucast (drop_bit 8 (push_bit 8 pc)) :: zbyte) = pc"
    "ucast (push_bit 8 pc) = (0 :: zbyte)"
proof -
  have "pc = take_bit 24 pc"
    using assms small_take_bit [of pc 24] by (simp add: word_less_def)
  then have high: "bit pc n \<Longrightarrow> n < 24" for n
    by (metis bit_take_bit_iff)
  show "push_bit 16 (ucast (ucast (drop_bit 24 (push_bit 8 pc)) :: zbyte)) OR
      push_bit 8 (ucast (ucast (drop_bit 16 (push_bit 8 pc)) :: zbyte)) OR
      ucast (ucast (drop_bit 8 (push_bit 8 pc)) :: zbyte) = pc" (is "?l = pc")
  proof (rule bit_word_eqI)
    fix n
    assume "n < LENGTH(32)"
    then have "n < 8 \<or> (8 \<le> n \<and> n < 16) \<or> (16 \<le> n \<and> n < 24) \<or> (24 \<le> n \<and> n < 32)"
      by auto
    then show "bit ?l n = bit pc n"
      by (elim disjE) (auto simp: bit_simps dest: high)
  qed
  show "ucast (push_bit 8 pc) = (0 :: zbyte)"
    by (rule bit_word_eqI) (auto simp: bit_simps)
qed

lemma ifhd_chunk_reads:
  assumes pc: "0 \<le> pcp s" "pcp s < 2 ^ 24" and same: "same_story s t"
    and mem: "\<forall>i \<in> set [H_SERIAL..H_SERIAL + 5]. in_mem i t" and long: "\<not> c < 13"
  shows "\<exists>B. ifhd_chunk c GOT_NONE 0 (reading A (ifhd_bytes s @ R)) t =
      andthen (skip_header 13 c (reading (A @ B) (0 # R))) (\<lambda>f. go_on (GOT_HEADER, -1, f, t\<lparr>pcp := pcp s\<rparr>)) \<and>
      B @ [0] = ifhd_bytes s"
proof -
  define l where "l = (word_of_int (pcp s) :: 32 word)"
  have l: "uint l = pcp s" "l < 2 ^ 24"
    using pc by (simp_all add: l_def uint_word_of_int word_less_def)
  define B where "B = word_bytes (h_release (hdr s)) @ serial_bytes s @ word_bytes (h_checksum (hdr s)) @
    [ucast (drop_bit 24 (push_bit 8 l)), ucast (drop_bit 16 (push_bit 8 l)), ucast (drop_bit 8 (push_bit 8 l))]"
  have B: "ifhd_bytes s = B @ [0]"
    using pc_bytes(2) [OF l(2)] by (simp add: ifhd_bytes_def B_def l_def long_bytes_def)
  have "serial_bytes s = map (zmp t) [H_SERIAL..H_SERIAL + 5]"
    using same unfolding same_story_def serial_bytes_def by (intro map_cong) auto
  then have serial: "check_serial [H_SERIAL..H_SERIAL + 5] p 0 (reading X (serial_bytes s @ Y)) t =
      go_on (p, reading (X @ serial_bytes s) Y)" for p X Y
    by (simp only: check_serial_passes [OF mem])
  have head: "h_release (hdr t) = h_release (hdr s)" "h_checksum (hdr t) = h_checksum (hdr s)"
    using same by (simp_all add: same_story_def)
  have last: "H_SERIAL + 5 = (23 :: int)"
    by simp
  have bit_assoc: "(a OR b) OR c = a OR (b OR c)" for a b c :: "32 word"
    by (simp add: ac_simps)
  note pc_back = pc_bytes(1) [OF l(2)]
  have "ifhd_chunk c GOT_NONE 0 (reading A (B @ 0 # R)) t =
      andthen (skip_header 13 c (reading (A @ B) (0 # R))) (\<lambda>f. go_on (GOT_HEADER, -1, f, t\<lparr>pcp := pcp s\<rparr>))"
    by (simp add: ifhd_chunk_def B_def reads serial [unfolded last] head long pc_back [unfolded bit_assoc] bit_assoc l Let_def
        del: upto_rec_numeral check_serial.simps)
  then show ?thesis
    using B by auto
qed

lemma cmem_length: "length (cmem_bytes s) < 2 ^ 20"
proof -
  have "length (cmem_bytes s) \<le> 3 * length (differences s)"
    using encoded_diff_length [of 0 "differences s"] by (simp add: cmem_bytes_def)
  moreover have "length (differences s) < 65536"
    using unsigned_less [where 'a = nat, of "h_dynamic_size (hdr s)"] by (simp add: differences_def)
  ultimately show ?thesis
    by simp
qed

lemma stks_length:
  assumes "well_framed s ps tos"
  shows "length (stks_bytes s ps tos) < 2 ^ 20" "even (length (stks_bytes s ps tos))"
proof -
  have b: "0 < tos" "tos \<le> bottom ps tos" "bottom ps tos \<le> STACK_SIZE"
      "int (length (frames_bytes s ps tos)) = 2 * (bottom ps tos - tos)"
    using well_framed_bounds [OF assms] by auto
  have base: "length (base_bytes s (bottom ps tos)) = (if version s \<noteq> V6 then 8 + 2 * nat (STACK_SIZE - bottom ps tos) else 0)"
    by (simp add: base_bytes_def)
  moreover have "nat (STACK_SIZE - bottom ps tos) \<le> 1024" "int (length (frames_bytes s ps tos)) \<le> 2048"
    using b by simp_all
  ultimately show "length (stks_bytes s ps tos) < 2 ^ 20"
    by (simp add: stks_bytes_def split: if_splits)
  have "even (length (frames_bytes s ps tos))"
    using b(4) by presburger
  then show "even (length (stks_bytes s ps tos))"
    by (simp add: stks_bytes_def base)
qed

definition restored :: "zstate \<Rightarrow> int list \<Rightarrow> zstate \<Rightarrow> zstate" where
  "restored s ps t = t\<lparr>pcp := pcp s, zmp := zmp s, sp := sp s, fp := fp s,
     frame_count := of_nat (length ps), stack := saved_stack s ps (sp s) (stack t)\<rparr>"

text \<open>The chunk of memory, with its padding.\<close>

lemma memory_chunk_reads:
  assumes t: "loaded t" and same: "same_story s t"
  defines "n \<equiv> length (cmem_bytes s)"
  shows "proceed (one_chunk ID_CMem (of_nat n) GOT_HEADER fatal (reading A (cmem_bytes s @ padding (cmem_bytes s) @ R)) t)
      (\<lambda>(progress, fatal, f, s). K progress fatal (if odd n then skip_c f else f) s) =
    K 5 fatal (reading (A @ cmem_bytes s @ padding (cmem_bytes s)) R) (t\<lparr>zmp := zmp s\<rparr>)"
proof -
  have len: "unat (of_nat n :: 32 word) = length (encoded_diff 0 (differences s))"
    using cmem_length [of s] unfolding n_def cmem_bytes_def
    by (simp add: unsigned_of_nat take_bit_nat_eq_self)
  have story: "h_dynamic_size (hdr t) = h_dynamic_size (hdr s)" "story_file t = story_file s"
    "\<forall>a. a < 0 \<or> int (dynamic s) \<le> a \<longrightarrow> zmp t a = zmp s a"
    using same by (simp_all add: same_story_def)
  have dyn: "length (differences s) = dynamic t"
    using story(1) by (simp add: differences_def dynamic_def)
  have zmp: "(\<lambda>a. if 0 \<le> a \<and> a < uint (h_dynamic_size (hdr s)) then zmp s a else zmp t a) = zmp s"
    using story(3) by (auto simp: fun_eq_iff int_dynamic)
  have "one_chunk ID_CMem (of_nat n) GOT_HEADER fatal (reading A (cmem_bytes s @ P @ R)) t =
      go_on (5, fatal, reading (A @ cmem_bytes s) (P @ R), t\<lparr>zmp := zmp s\<rparr>)" for P
    using cmem_chunk_decodes [OF t dyn len, of GOT_HEADER fatal A "P @ R"] chunk_ids
    by (simp add: one_chunk_def cmem_bytes_def undiff_differences [OF story(1,2)] zmp)
  then show ?thesis
    by (simp add: padding_def n_def)
qed

lemma stack_chunk_reads:
  assumes "well_framed s ps tos" "same_memory s t"
  shows "one_chunk ID_Stks (of_nat (length (stks_bytes s ps tos))) 5 fatal (reading A (stks_bytes s ps tos)) t =
    go_on (GOT_ALL, -1, reading (A @ stks_bytes s ps tos) [],
      t\<lparr>sp := tos, fp := caller ps, frame_count := of_nat (length ps), stack := saved_stack s ps tos (stack t)\<rparr>)"
  using stks_chunk_reads(2) [OF assms, of 5 fatal A "[]"] chunk_ids by (simp add: one_chunk_def)

lemma same_story_pcp [simp]: "same_story s (t\<lparr>pcp := p\<rparr>) = same_story s t"
  by (simp add: same_story_def serial_bytes_def dynamic_def)

lemma header_reads:
  assumes "0 \<le> pcp s" "pcp s < 2 ^ 24" "same_story s t" "loaded t" "64 \<le> dynamic t"
  shows "proceed (one_chunk ID_IFhd 13 GOT_NONE 0 (reading A (ifhd_bytes s @ R)) t)
      (\<lambda>(progress, fatal, f, s). K progress fatal (skip_c f) s) =
    K GOT_HEADER (-1) (reading (A @ ifhd_bytes s) R) (t\<lparr>pcp := pcp s\<rparr>)"
proof -
  have "\<forall>i \<in> set [H_SERIAL..H_SERIAL + 5]. in_mem i t"
    using dynamic_in_mem [OF assms(4)] assms(5) by auto
  then obtain B where "ifhd_chunk 13 GOT_NONE 0 (reading A (ifhd_bytes s @ R)) t =
      andthen (skip_header 13 13 (reading (A @ B) (0 # R))) (\<lambda>f. go_on (GOT_HEADER, -1, f, t\<lparr>pcp := pcp s\<rparr>))"
      "B @ [0] = ifhd_bytes s"
    using ifhd_chunk_reads [of s t 13 A R] assms(1-3) by auto
  moreover have "skip_header 13 13 f = Ok f" for f
    by (subst skip_header.simps) simp
  ultimately show ?thesis
    by (simp add: one_chunk_def)
qed

lemma length_ifhd_bytes: "length (ifhd_bytes s) = 14"
  by (simp add: ifhd_bytes_def serial_bytes_def)

lemma restore_reads:
  assumes ok: "saveable s ps" and same: "same_story s t" and loaded: "loaded t"
  defines "lc \<equiv> of_nat (length (cmem_bytes s))" and "ls \<equiv> of_nat (length (stks_bytes s ps (sp s)))"
  defines "lf \<equiv> 42 + lc + ls + (if odd (length (cmem_bytes s)) then 1 else 0)"
  shows "restore_quetzal \<lparr>f_bytes = quetzal_bytes lf lc ls s ps, f_pos = 0\<rparr> t = Ok (2, restored s ps t)"
proof -
  define c where "c = length (cmem_bytes s)"
  define n where "n = length (stks_bytes s ps (sp s))"
  define m2 where "m2 = 8 + n + n mod 2 + 0"
  define m1 where "m1 = 8 + c + c mod 2 + m2"
  define m0 where "m0 = 8 + 13 + 13 mod 2 + m1"
  have framed: "well_framed s ps (sp s)" "fp s = caller ps" "64 \<le> dynamic s"
    and pc: "0 \<le> pcp s" "pcp s < 2 ^ 24"
    using ok by (simp_all add: saveable_def)
  have dyn: "64 \<le> dynamic t"
    using framed(3) same by (simp add: dynamic_def same_story_def)
  have small: "c < 2 ^ 20" "n < 2 ^ 20" "even n"
    using cmem_length stks_length [OF framed(1)] by (simp_all add: c_def n_def)
  then have fits: "4 + m0 < 2 ^ 32" "m1 < 2 ^ 32 - 22" "m2 < 2 ^ 32"
    by (auto simp: m0_def m1_def m2_def)
  have lf: "lf = of_nat (4 + m0)"
    using small(3) by (simp add: lf_def lc_def ls_def m0_def m1_def m2_def c_def n_def mod_2_eq_odd)
  have "even (4 + m0)"
    using small(3) by (simp add: m0_def m1_def m2_def)
  then have even: "lf AND 1 = 0"
    using odd_length [of "4 + m0"] unfolding lf by blast
  have enough: "\<not> lf < 4" "lf - 4 = of_nat m0"
    using long_nat_less [of "4 + m0" 4] fits(1) unfolding lf by simp_all
  have memory: "same_memory s (t\<lparr>pcp := p, zmp := zmp s\<rparr>)" for p
    using same by (simp add: same_memory_def same_story_def)
  have loaded': "loaded (t\<lparr>pcp := p\<rparr>)" for p
    using loaded by (simp add: loaded_def dynamic_def)
  have finish3: "restore_chunks 0 p fatal f u = go_on (p, fatal, u)" for p fatal f u
    by (subst restore_chunks.simps) simp
  have step3: "restore_chunks (of_nat m2) 5 fatal (reading A (chnk_bytes ID_Stks ls @ stks_bytes s ps (sp s))) u =
      go_on (GOT_ALL, -1, u\<lparr>sp := sp s, fp := fp s, frame_count := of_nat (length ps),
        stack := saved_stack s ps (sp s) (stack u)\<rparr>)"
    if "same_memory s u" for fatal A u
    using restore_chunks_step [of n 0 5 fatal A ID_Stks "stks_bytes s ps (sp s)" u] fits(3)
      stack_chunk_reads [OF framed(1) that] small(3) framed(2)
    by (simp add: m2_def n_def ls_def finish3)
  have step2: "restore_chunks (of_nat m1) GOT_HEADER fatal (reading A (chnk_bytes ID_CMem lc @ cmem_bytes s @
      padding (cmem_bytes s) @ R)) (t\<lparr>pcp := p\<rparr>) =
      restore_chunks (of_nat m2) 5 fatal (reading (A @ chnk_bytes ID_CMem lc @ cmem_bytes s @ padding (cmem_bytes s)) R)
        (t\<lparr>pcp := p, zmp := zmp s\<rparr>)" for fatal A R p
    using restore_chunks_step [of c m2 GOT_HEADER fatal A ID_CMem "cmem_bytes s @ padding (cmem_bytes s) @ R"
        "t\<lparr>pcp := p\<rparr>"] fits(2) memory_chunk_reads [OF loaded', where s = s and K = "restore_chunks (of_nat m2)"] same
    by (simp add: m1_def c_def lc_def)
  have step1: "restore_chunks (of_nat m0) GOT_NONE 0 (reading A (chnk_bytes ID_IFhd 13 @ ifhd_bytes s @ R)) t =
      restore_chunks (of_nat m1) GOT_HEADER (-1) (reading (A @ chnk_bytes ID_IFhd 13 @ ifhd_bytes s) R)
        (t\<lparr>pcp := pcp s\<rparr>)" for A R
    using restore_chunks_step [of 13 m1 GOT_NONE 0 A ID_IFhd "ifhd_bytes s @ R" t] fits(1)
      header_reads [OF pc same loaded dyn, where K = "restore_chunks (of_nat m1)"]
    by (simp add: m0_def)
  have file_start: "\<lparr>f_bytes = quetzal_bytes lf lc ls s ps, f_pos = 0\<rparr> =
      reading [] (long_bytes ID_FORM @ long_bytes lf @ long_bytes ID_IFZS @ chnk_bytes ID_IFhd 13 @ ifhd_bytes s @
        chnk_bytes ID_CMem lc @ cmem_bytes s @ padding (cmem_bytes s) @ chnk_bytes ID_Stks ls @ stks_bytes s ps (sp s))"
    by (simp add: reading_def quetzal_bytes_def chnk_bytes_def)
  show ?thesis
    unfolding file_start
    by (simp add: restore_quetzal_def read_long_reading even enough step1 step2 step3 [OF memory]
        restore_result_def restored_def)
qed

subsection \<open>Saving and then restoring\<close>

lemma same_story_loaded: "same_story s t \<Longrightarrow> loaded s \<Longrightarrow> loaded t"
  by (simp add: same_story_def loaded_def dynamic_def)

lemma saved_then_restored:
  assumes "calm s" and "saveable s ps" and "same_story s t"
  obtains bs p k where "save_quetzal_file \<lparr>f_bytes = [], f_pos = 0\<rparr> s = Ok (1, \<lparr>f_bytes = bs, f_pos = p\<rparr>, tick k s)"
    "restore_quetzal \<lparr>f_bytes = bs, f_pos = 0\<rparr> t = Ok (2, restored s ps t)"
proof -
  have "loaded t"
    using same_story_loaded assms(2,3) by (simp add: saveable_def)
  with save_quetzal_writes [OF assms(1,2)] restore_reads [OF assms(2,3)] that show thesis
    by blast
qed

text \<open>The words outside all routines, and the four words at the foot of each frame.\<close>

lemma frame_ok_le: "frame_ok s p tos \<Longrightarrow> tos \<le> p"
  unfolding frame_ok_def using uint_ge_0 [of "frame_locals (stack s p)"] by linarith

lemma well_framed_above: "well_framed s ps tos \<Longrightarrow> p \<in> set ps \<Longrightarrow> tos \<le> p"
  by (induction ps arbitrary: tos) (fastforce dest: frame_ok_le)+

lemma saved_base:
  "well_framed s ps tos \<Longrightarrow> bottom ps tos \<le> x \<Longrightarrow> x < STACK_SIZE \<Longrightarrow> saved_stack s ps tos k x = stack s x"
proof (induction ps arbitrary: tos)
  case (Cons p ps)
  then show ?case
    using Cons.IH [of "p + 4"] well_framed_bounds [of s ps "p + 4"]
    by (simp add: frame_stack_def refill_def)
qed (simp add: refill_def)

lemma saved_feet:
  "well_framed s ps tos \<Longrightarrow> p \<in> set ps \<Longrightarrow> p \<le> x \<Longrightarrow> x < p + 4 \<Longrightarrow> saved_stack s ps tos k x = stack s x"
proof (induction ps arbitrary: tos)
  case (Cons q ps)
  show ?case
    using Cons.prems Cons.IH [of "q + 4"] well_framed_above [of s ps "q + 4" p]
    by (cases "p = q") (auto simp: frame_stack_def refill_def)
qed simp

text \<open>
  C34. A game that is saved in the Quetzal format and restored, in a machine that runs the same story,
  continues at the saved program counter with the saved memory, stack pointer, frame pointer and
  number of frames; the foot of every frame and the stack outside all routines are the saved ones.
\<close>

theorem quetzal_round_trip:
  assumes "calm s" and "saveable s ps" and "same_story s t"
  shows "\<exists>bs p k. save_quetzal_file \<lparr>f_bytes = [], f_pos = 0\<rparr> s = Ok (1, \<lparr>f_bytes = bs, f_pos = p\<rparr>, tick k s) \<and>
    (\<exists>m. restore_quetzal \<lparr>f_bytes = bs, f_pos = 0\<rparr> t =
       Ok (2, t\<lparr>pcp := pcp s, zmp := zmp s, sp := sp s, fp := fp s, frame_count := of_nat (length ps), stack := m\<rparr>) \<and>
     (\<forall>x. bottom ps (sp s) \<le> x \<and> x < STACK_SIZE \<longrightarrow> m x = stack s x) \<and>
     (\<forall>q \<in> set ps. \<forall>x. q \<le> x \<and> x < q + 4 \<longrightarrow> m x = stack s x))"
proof -
  have "well_framed s ps (sp s)"
    using assms(2) by (simp add: saveable_def)
  with saved_base [of s ps "sp s" _ "stack t"] saved_feet [of s ps "sp s" _ _ "stack t"]
  show ?thesis
    using saved_then_restored [OF assms] unfolding restored_def by metis
qed

text \<open>A machine inside a routine with two locals and one argument, called from address 64.\<close>

definition routine_machine :: zstate where
  "routine_machine = (small_machine 5 [])
     \<lparr>stack := (\<lambda>i. 0)(1018 := 7, 1019 := 5, 1020 := 0x0201, 1021 := 1023, 1022 := 64, 1023 := 0),
      sp := 1018, fp := 1020, frame_count := 1\<rparr>"

lemma routine_machine_ok:
  "calm routine_machine" "saveable routine_machine [1020]" "same_story routine_machine routine_machine"
proof -
  show "calm routine_machine"
    by (simp add: routine_machine_def calm_def small_machine_def initial_state_def)
  have "frame_locals 0x0201 = 2" "frame_args 0x0201 = 1" "frame_type 0x0201 = 0" "pc_of_words 0 64 = 64"
    by code_simp+
  then show "saveable routine_machine [1020]"
    by (simp add: routine_machine_def saveable_def loaded_def dynamic_def small_machine_def initial_state_def
        frame_ok_def caller_pc_def caller_def in_mem_def)
  show "same_story routine_machine routine_machine"
    by (simp add: same_story_def)
qed

theorem quetzal_round_trip_witness:
  "\<exists>bs f k m. save_quetzal_file \<lparr>f_bytes = [], f_pos = 0\<rparr> routine_machine = Ok (1, f, tick k routine_machine) \<and>
    restore_quetzal \<lparr>f_bytes = bs, f_pos = 0\<rparr> routine_machine =
      Ok (2, routine_machine\<lparr>stack := m\<rparr>) \<and> m 1020 = 0x0201 \<and> m 1022 = 64"
proof -
  have same: "routine_machine\<lparr>pcp := pcp routine_machine, zmp := zmp routine_machine, sp := sp routine_machine,
      fp := fp routine_machine, frame_count := of_nat (length [1020 :: int]), stack := n\<rparr> =
      routine_machine\<lparr>stack := n\<rparr>" for n
    by (simp add: routine_machine_def)
  obtain bs p k m where saved: "save_quetzal_file \<lparr>f_bytes = [], f_pos = 0\<rparr> routine_machine =
        Ok (1, \<lparr>f_bytes = bs, f_pos = p\<rparr>, tick k routine_machine)"
      "restore_quetzal \<lparr>f_bytes = bs, f_pos = 0\<rparr> routine_machine = Ok (2, routine_machine\<lparr>stack := m\<rparr>)"
    and feet: "\<forall>q \<in> set [1020]. \<forall>x. q \<le> x \<and> x < q + 4 \<longrightarrow> m x = stack routine_machine x"
    using quetzal_round_trip [OF routine_machine_ok] unfolding same by blast
  have "m 1020 = 0x0201" "m 1022 = 64"
    using feet by (simp_all add: routine_machine_def)
  with saved show ?thesis
    by blast
qed

text \<open>
  C35. The words of a routine do not survive: \<open>save_quetzal_file\<close> starts the words of each frame two
  words too high, so that after a restore the first local of the routine holds the word with the saved
  frame pointer, the second the word with the counts of locals and arguments, and every other local
  and every word on the routine's stack the value that lay two words above.
\<close>

theorem quetzal_shifts_locals:
  assumes "calm s" and "saveable s (p # ps)" and "same_story s t"
  shows "\<exists>bs q k t'. save_quetzal_file \<lparr>f_bytes = [], f_pos = 0\<rparr> s = Ok (1, \<lparr>f_bytes = bs, f_pos = q\<rparr>, tick k s) \<and>
    restore_quetzal \<lparr>f_bytes = bs, f_pos = 0\<rparr> t = Ok (2, t') \<and> fp t' = fp s \<and> sp t' = sp s \<and> fp s = p \<and>
    (\<forall>x. sp s \<le> x \<and> x < p \<longrightarrow> stack t' x = stack s (x + 2))"
proof -
  have "fp s = p" "stack (restored s (p # ps) t) x = stack s (x + 2)" if "sp s \<le> x" "x < p" for x
    using assms(2) that by (simp_all add: saveable_def caller_def restored_def frame_stack_def refill_def)
  moreover have "fp s = p" "fp (restored s (p # ps) t) = fp s" "sp (restored s (p # ps) t) = sp s"
    using assms(2) by (simp_all add: saveable_def caller_def restored_def)
  ultimately show ?thesis
    using saved_then_restored [OF assms] by metis
qed

theorem quetzal_shifts_locals_witness:
  "\<exists>bs f k t'. save_quetzal_file \<lparr>f_bytes = [], f_pos = 0\<rparr> routine_machine = Ok (1, f, tick k routine_machine) \<and>
    restore_quetzal \<lparr>f_bytes = bs, f_pos = 0\<rparr> routine_machine = Ok (2, t') \<and>
    stack routine_machine 1019 = 5 \<and> stack t' 1019 = 1023"
proof -
  obtain bs f k t' where saved: "save_quetzal_file \<lparr>f_bytes = [], f_pos = 0\<rparr> routine_machine =
        Ok (1, f, tick k routine_machine)"
      "restore_quetzal \<lparr>f_bytes = bs, f_pos = 0\<rparr> routine_machine = Ok (2, t')"
    and words: "\<forall>x. sp routine_machine \<le> x \<and> x < 1020 \<longrightarrow> stack t' x = stack routine_machine (x + 2)"
    using quetzal_shifts_locals [OF routine_machine_ok] by blast
  have "stack routine_machine 1019 = 5" "stack t' 1019 = 1023"
    using words by (simp_all add: routine_machine_def)
  with saved show ?thesis
    by blast
qed

subsection \<open>Files that restoring does not handle\<close>

text \<open>The first chunk of a file that starts as it should.\<close>

lemma first_chunk:
  fixes i :: "32 word"
  assumes "l AND 1 = 0" and "12 \<le> l" and "c \<le> l - 12"
  defines "X \<equiv> chnk_bytes ID_FORM l @ long_bytes ID_IFZS @ chnk_bytes i c"
  shows "restore_quetzal \<lparr>f_bytes = X @ R, f_pos = 0\<rparr> t =
    finish (proceed (proceed (one_chunk i c GOT_NONE 0 (reading X R) t) (\<lambda>(progress, fatal, f, s).
        restore_chunks (l - 12 - (c + (c AND 1))) progress fatal (if c AND 1 \<noteq> 0 then skip_c f else f) s))
      (\<lambda>(progress, fatal, s). andthen (restore_result progress fatal s) go_on))"
proof -
  have start: "\<lparr>f_bytes = X @ R, f_pos = 0\<rparr> =
      reading [] (long_bytes ID_FORM @ long_bytes l @ long_bytes ID_IFZS @ long_bytes i @ long_bytes c @ R)"
    by (simp add: reading_def chnk_bytes_def X_def)
  have "4 \<le> l"
    using assms(2) by (auto simp: word_le_def)
  then have "uint (l - 4) = uint l - 4"
    using uint_minus_simple_alt [of 4 l] by simp
  with assms(2,3) have lengths: "\<not> l < 4" "0 < l - 4" "\<not> l - 4 < 8" "\<not> l - 12 < c"
    by (auto simp: word_less_def word_le_def)
  show ?thesis
    unfolding start
    by (simp add: restore_quetzal_def read_long_reading assms(1) lengths)
      (subst restore_chunks.simps, simp add: read_long_reading lengths X_def chnk_bytes_def Let_def)
qed

lemma skip_header_short: "skip_header i n f = Some r \<Longrightarrow> uint n \<le> 65535"
proof (erule skip_header.raw_induct [rotated])
  fix skip and i :: zword and n :: "32 word" and f r
  assume 1: "\<And>i n f r. skip i n f = Some r \<Longrightarrow> uint n \<le> 65535"
    "(if ucast i < n then skip (i + 1) n (skip_c f) else Ok f) = Some r"
  show "uint n \<le> 65535"
  proof (cases "ucast i < n")
    case False
    then have "uint n \<le> uint (ucast i :: 32 word)"
      by (simp add: word_le_def not_less)
    also have "\<dots> = uint i"
      by (simp add: uint_up_ucast is_up)
    finally show ?thesis
      using uint_word_bounds(2) [of i] by simp
  next
    case True
    with 1 show ?thesis
      by auto
  qed
qed

text \<open>
  C36. A save file whose header chunk claims more than 65535 bytes hangs \<open>restore_quetzal\<close>: the loop
  that skips the rest of the chunk counts with a 16-bit variable and never ends, whatever follows.
\<close>

theorem long_header_chunk_hangs:
  assumes "l AND 1 = 0" and "12 \<le> l" and "c \<le> l - 12" and "65535 < c"
    and "\<forall>i \<in> set [H_SERIAL..H_SERIAL + 5]. in_mem i s" and "0 \<le> pcp s" and "pcp s < 2 ^ 24"
  shows "restore_quetzal
    \<lparr>f_bytes = chnk_bytes ID_FORM l @ long_bytes ID_IFZS @ chnk_bytes ID_IFhd c @ ifhd_bytes s @ rest,
     f_pos = 0\<rparr> s = None"
proof -
  have hangs: "skip_header 13 c f = None" for f
    using skip_header_short [of 13 c f] assms(4) by (cases "skip_header 13 c f") (auto simp: word_less_def)
  have "\<not> c < 13"
    using assms(4) by (auto simp: word_less_def)
  then have chunk: "one_chunk ID_IFhd c GOT_NONE 0 (reading A (ifhd_bytes s @ rest)) s = None" for A
    using ifhd_chunk_reads [of s s c A rest] assms(5-) hangs by (auto simp: one_chunk_def same_story_def)
  then show ?thesis
    using first_chunk [OF assms(1,2,3), of ID_IFhd "ifhd_bytes s @ rest" s] by (simp add: finish_def)
qed

theorem long_header_chunk_hangs_witness:
  "restore_quetzal
    \<lparr>f_bytes = chnk_bytes ID_FORM 70000 @ long_bytes ID_IFZS @ chnk_bytes ID_IFhd 65536 @ ifhd_bytes (small_machine 5 []),
     f_pos = 0\<rparr> (small_machine 5 []) = None"
  using long_header_chunk_hangs [of 70000 65536 "small_machine 5 []" "[]"] by simp

text \<open>
  C37. \<open>restore_quetzal\<close> answers 0, which stands for a file that was refused before anything was changed,
  for a file that ends right after its header chunk, although the program counter is already the saved
  one.
\<close>

theorem truncated_file_moves_pc:
  assumes "0 \<le> pcp s" and "pcp s < 2 ^ 24" and "same_story s t" and "loaded t" and "64 \<le> dynamic t"
    and "l AND 1 = 0" and "30 \<le> l"
  shows "restore_quetzal
    \<lparr>f_bytes = chnk_bytes ID_FORM l @ long_bytes ID_IFZS @ chnk_bytes ID_IFhd 13 @ ifhd_bytes s, f_pos = 0\<rparr> t =
    Ok (0, t\<lparr>pcp := pcp s\<rparr>)"
proof -
  have "12 \<le> l"
    using assms(7) by (auto simp: word_le_def)
  then have "uint (l - 12) = uint l - 12"
    using uint_minus_simple_alt [of 12 l] by simp
  then have "13 \<le> l - 12" "0 < l - 12 - 14"
    using assms(7) uint_minus_simple_alt [of 14 "l - 12"] by (auto simp: word_le_def word_less_def)
  then have stops: "restore_chunks (l - 26) p fatal (reading A []) u = leave (0, u)" for p fatal A u
    by (subst restore_chunks.simps) (simp add: read_long_def)
  show ?thesis
    using first_chunk [OF assms(6) \<open>12 \<le> l\<close> \<open>13 \<le> l - 12\<close>, of ID_IFhd "ifhd_bytes s" t]
      header_reads [OF assms(1-5), where R = "[]" and K = "restore_chunks (l - 26)"]
    by (simp add: stops)
qed

theorem truncated_file_moves_pc_witness:
  "restore_quetzal
    \<lparr>f_bytes = chnk_bytes ID_FORM 100 @ long_bytes ID_IFZS @ chnk_bytes ID_IFhd 13 @ ifhd_bytes (small_machine 5 []),
     f_pos = 0\<rparr> ((small_machine 5 [])\<lparr>pcp := 99\<rparr>) = Ok (0, small_machine 5 [])"
proof -
  have "same_story (small_machine 5 []) (small_machine 5 [])" "loaded ((small_machine 5 [])\<lparr>pcp := 99\<rparr>)"
    "dynamic ((small_machine 5 [])\<lparr>pcp := 99\<rparr>) = 4096" "((small_machine 5 [])\<lparr>pcp := 64\<rparr>) = small_machine 5 []"
    by (simp_all add: same_story_def loaded_def dynamic_def small_machine_def initial_state_def)
  then show ?thesis
    using truncated_file_moves_pc [of "small_machine 5 []" "(small_machine 5 [])\<lparr>pcp := 99\<rparr>" 100] by simp
qed

end
