(* ===== verification/SaveGame_Correct.thy ===== *)
theory SaveGame_Correct
  imports SaveGame Quetzal_Correct
begin

text \<open>
  Saving and restoring a game in frotz's old format, what the save opcodes report, and auxiliary
  files.
\<close>

subsection \<open>The old format of memory\<close>

text \<open>
  What \<open>memory_runs\<close> writes for the \<open>m\<close> bytes of memory from \<open>i\<close> on, when the \<open>j\<close> bytes before them
  equal those of the story file.
\<close>

fun runs_of :: "zstate \<Rightarrow> nat \<Rightarrow> nat \<Rightarrow> nat \<Rightarrow> zbyte list" where
  "runs_of s j i 0 = []"
| "runs_of s j i (Suc m) =
     (if diff_at s (int i) \<noteq> 0 \<or> j = 255 \<or> m = 0 then of_nat j # zmp s (int i) # runs_of s 0 (Suc i) m
      else runs_of s (Suc j) (Suc i) m)"

lemma diff_at_zero: "diff_at s i = 0 \<longleftrightarrow> story_file s i = zmp s i"
  by (auto simp: diff_at_def)

lemma memory_runs_writes:
  assumes "loaded s" "i + m = dynamic s" "j \<le> 255"
  shows "memory_runs [int i..int (i + m) - 1] (of_nat j) s = Ok (runs_of s j i m)"
  using assms
proof (induction m arbitrary: i j)
  case (Suc m)
  define a ps where "a = int i" and "ps = [int (Suc i)..int (Suc i + m) - 1]"
  have range: "[int i..int (i + Suc m) - 1] = a # ps"
    by (simp add: upto_rec1 add.commute a_def ps_def)
  have here: "low_byte a s = Ok (zmp s a)" "story_getc s a = uint (story_file s a)"
    using loaded_at [OF Suc.prems(1), of i] Suc.prems(2)
    by (simp_all add: a_def story_getc_def story_c_def split: if_splits)
  have full: "of_nat j = (255 :: zbyte) \<longleftrightarrow> j = 255"
    using Suc.prems(3) by (auto simp: word_unat_eq_iff unsigned_of_nat take_bit_nat_eq_self)
  have same: "uint (zmp s a) = uint (story_file s a) \<longleftrightarrow> diff_at s a = 0"
    by (metis diff_at_zero word_uint_eq_iff)
  have last: "a + 1 = uint (h_dynamic_size (hdr s)) \<longleftrightarrow> m = 0"
    using Suc.prems(2) int_dynamic [of s] unfolding a_def by linarith
  have IH: "memory_runs ps (of_nat k) s = Ok (runs_of s k (Suc i) m)" if "k \<le> 255" for k
    unfolding ps_def using that Suc.prems by (intro Suc.IH) simp_all
  have "memory_runs ps (of_nat j + 1) s = Ok (runs_of s (Suc j) (Suc i) m)" if "j \<noteq> 255"
    using IH [of "Suc j"] Suc.prems(3) that by (simp add: add.commute)
  then have "memory_runs (a # ps) (of_nat j) s = Ok (runs_of s j i (Suc m))"
    unfolding memory_runs.simps here same last full runs_of.simps a_def [symmetric]
    using IH [of 0] by (auto simp: same)
  then show ?case
    unfolding range .
qed simp

lemma fgetc_reading [simp]: "fgetc (reading A (b # R)) = (uint b, reading (A @ [b]) R)"
  by (simp add: fgetc_def)

lemma copy_story_copies:
  assumes "loaded t" "i + m \<le> dynamic t"
  shows "copy_story m (of_nat i) (int i) t = Ok (of_nat (i + m), int (i + m), undiff t i (replicate m 0))"
  using assms
proof (induction m arbitrary: i t)
  case (Suc m)
  have here: "copy_story (Suc m) (of_nat i) (int i) t =
      copy_story m (of_nat (Suc i)) (int (Suc i)) (undiff t i [0])"
    using Suc.prems loaded_at [of t i] pos_simps [of i t] undiff_one [of t i 0]
    by (simp add: add.commute story_getc_def story_c_def split: if_splits)
  show ?case
    unfolding here using Suc.IH [of "undiff t i [0]" "Suc i"] Suc.prems undiff_Cons [of t i 0] by simp
qed simp

text \<open>The loop of \<open>z_restore\<close> rebuilds the memory from \<open>i\<close> on.\<close>

lemma get_memory_reads:
  assumes "loaded t" "dynamic t = i + j + m" "j \<le> 255" "m = 0 \<Longrightarrow> j = 0" "story_file s = story_file t"
  shows "get_memory (h_dynamic_size (hdr t)) (of_nat i) (int i) (reading A (runs_of s j (i + j) m @ R)) t =
    Ok (h_dynamic_size (hdr t), reading (A @ runs_of s j (i + j) m) R,
      undiff t i (replicate j 0 @ map (\<lambda>k. diff_at s (int k)) [i + j..<i + j + m]))"
  using assms
proof (induction m arbitrary: i j t A)
  case 0
  then have "of_nat i = h_dynamic_size (hdr t)"
    using dynamic_def [of t] by (metis add_0_right of_nat_unat ucast_id)
  with 0 show ?case
    by (subst get_memory.simps) simp
next
  case (Suc m)
  show ?case
  proof (cases "diff_at s (int (i + j)) \<noteq> 0 \<or> j = 255 \<or> m = 0")
    case True
    define b where "b = zmp s (int (i + j))"
    have b: "b = diff_at s (int (i + j)) XOR story_file t (int (i + j))"
      by (simp add: b_def diff_at_def Suc.prems(5) xor.commute xor.left_commute)
    have skip: "unat (of_nat j :: zbyte) = j"
      using Suc.prems(3) by (simp add: unsigned_of_nat take_bit_nat_eq_self)
    define u where "u = undiff t i (replicate j 0)"
    define v where "v = undiff t i (replicate j 0 @ [diff_at s (int (i + j))])"
    have u: "copy_story j (of_nat i) (int i) t = Ok (of_nat (i + j), int (i + j), u)"
      using copy_story_copies [OF Suc.prems(1), of i j] Suc.prems(2) by (simp add: u_def)
    have "set_byte (int (i + j)) b u = Ok (u\<lparr>zmp := (zmp u)(int (i + j) := b)\<rparr>)"
      using loaded_at [of u "i + j"] Suc.prems(1,2) by (simp add: u_def)
    also have "u\<lparr>zmp := (zmp u)(int (i + j) := b)\<rparr> = v"
      using undiff_one [of u "i + j" "diff_at s (int (i + j))"]
        undiff_append [of t i "replicate j 0" "[diff_at s (int (i + j))]"] by (simp add: u_def v_def b)
    finally have v: "set_byte (int (i + j)) b u = Ok v" .
    have pos: "uint (of_nat (i + j) :: zword) = int (i + j)" "(of_nat i :: zword) < h_dynamic_size (hdr t)"
      using pos_simps [of "i + j" t] pos_simps [of i t] Suc.prems(2) by simp_all
    have "get_memory (h_dynamic_size (hdr t)) (of_nat i) (int i) (reading A (of_nat j # b # R')) t =
        get_memory (h_dynamic_size (hdr t)) (of_nat (Suc (i + j))) (int (Suc (i + j)))
          (reading (A @ [of_nat j, b]) R') v" for R'
      by (subst get_memory.simps) (simp add: u v pos skip Let_def add.commute del: of_nat_add)
    moreover have "undiff v (Suc (i + j)) ds = undiff t i (replicate j 0 @ diff_at s (int (i + j)) # ds)" for ds
      using undiff_append [of t i "replicate j 0 @ [diff_at s (int (i + j))]" ds] by (simp add: v_def)
    moreover have "loaded v" "dynamic v = dynamic t" "story_file v = story_file t" "hdr v = hdr t"
      using Suc.prems(1) by (simp_all add: v_def)
    moreover have "[i + j..<i + j + Suc m] = (i + j) # [Suc (i + j)..<Suc (i + j) + m]"
      by (simp add: upt_rec)
    ultimately show ?thesis
      using Suc.IH [of v "Suc (i + j)" 0 "A @ [of_nat j, b]"] Suc.prems True by (simp add: b_def)
  next
    case False
    then have "[i + j..<i + j + Suc m] = (i + j) # [i + Suc j..<i + Suc j + m]" "diff_at s (int (i + j)) = 0"
      by (simp_all add: upt_rec)
    with False Suc.IH [of t i "Suc j" A] Suc.prems show ?thesis
      by (simp add: replicate_app_Cons_same)
  qed
qed

subsection \<open>The old format of the registers and the stack\<close>

lemma word_of_uint_byte: "(word_of_int (uint b) :: 'a::len word) = ucast b" for b :: zbyte
  by (simp add: unsigned_ucast_eq)

lemma getc_word_reading [simp]:
  "getc_word (reading A (hi w # lo w # R)) = (w, reading (A @ [hi w, lo w]) R)"
proof -
  have "push_bit 8 (ucast (hi w)) OR ucast (lo w) = w"
    by (rule bit_word_eqI) (auto simp: hi_def lo_def bit_simps bit_low_byte)
  then show ?thesis
    by (simp add: getc_word_def)
qed

lemma getc_offset_reading [simp]:
  "getc_offset (reading A (hi w # lo w # R)) = (uint w, reading (A @ [hi w, lo w]) R)"
proof -
  have "256 * uint (hi w) + uint (lo w) = uint w"
    using uint_mk_word [of "hi w" "lo w"] by simp
  then show ?thesis
    by (simp add: getc_offset_def)
qed

lemma sint_small: "sint l = uint l" if "l < 2 ^ 24" for l :: "32 word"
proof -
  have "uint l < 16777216"
    using that by (simp add: word_less_def)
  then have "- 2147483648 \<le> uint l" "uint l < 2147483648"
    using uint_ge_0 [of l] by linarith+
  then show ?thesis
    by (simp only: sint_uint) (rule signed_take_bit_int_eq_self; simp)
qed

lemma old_pc_bytes:
  fixes pc :: "32 word"
  assumes "pc < 2 ^ 24"
  shows "push_bit 16 (ucast (ucast (drop_bit 16 pc) :: zbyte)) OR push_bit 8 (ucast (ucast (drop_bit 8 pc) :: zbyte)) OR
      ucast (ucast pc :: zbyte) = pc" (is "?l = pc")
proof (rule bit_word_eqI)
  have "pc = take_bit 24 pc"
    using assms small_take_bit [of pc 24] by (simp add: word_less_def)
  then have high: "bit pc n \<Longrightarrow> n < 24" for n
    by (metis bit_take_bit_iff)
  fix n
  assume "n < LENGTH(32)"
  then have "n < 8 \<or> (8 \<le> n \<and> n < 16) \<or> (16 \<le> n \<and> n < 24) \<or> (24 \<le> n \<and> n < 32)"
    by auto
  then show "bit ?l n = bit pc n"
    by (elim disjE) (auto simp: bit_simps dest: high)
qed

definition words_bytes :: "int list \<Rightarrow> zstate \<Rightarrow> zbyte list" where
  "words_bytes is s = concat (map (\<lambda>i. [hi (stack s i), lo (stack s i)]) is)"

lemma stack_bytes_writes:
  assumes "\<forall>i \<in> set is. 0 \<le> i \<and> i < STACK_SIZE"
  shows "stack_bytes is s = Ok (words_bytes is s)"
  using assms by (induction "is") (simp_all add: words_bytes_def stack_get_def)

lemma get_stack_reads:
  assumes "\<forall>i \<in> set is. 0 \<le> i \<and> i < STACK_SIZE"
  shows "get_stack is (reading A (words_bytes is s @ R)) t =
    Ok (reading (A @ words_bytes is s) R, t\<lparr>stack := (\<lambda>i. if i \<in> set is then stack s i else stack t i)\<rparr>)"
  using assms
proof (induction "is" arbitrary: A t)
  case (Cons j js)
  have "(\<lambda>i. if i \<in> set js then stack s i else ((stack t)(j := stack s j)) i) =
      (\<lambda>i. if i \<in> set (j # js) then stack s i else stack t i)"
    by auto
  with Cons show ?case
    by (simp add: words_bytes_def stack_set_def cong: if_cong)
qed (simp add: words_bytes_def)

lemma put_all_end: "calm s \<Longrightarrow> put_all bs (reading A []) s = (reading (A @ bs) [], tick (length bs) s)"
  by (induction bs arbitrary: A s) (simp_all add: put_c_end)

text \<open>The bytes of a file in the old format.\<close>

definition old_bytes :: "zstate \<Rightarrow> zbyte list" where
  "old_bytes s =
     (let pc = word_of_int (pcp s) :: 32 word;
          nsp = word_of_int (sp s) :: zword; nfp = word_of_int (fp s) :: zword in
      [hi (h_release (hdr s)), lo (h_release (hdr s)), hi (h_checksum (hdr s)), lo (h_checksum (hdr s)),
       ucast (drop_bit 16 pc), ucast (drop_bit 8 pc), ucast pc, hi nsp, lo nsp, hi nfp, lo nfp] @
      words_bytes [sp s..STACK_SIZE - 1] s @ runs_of s 0 0 (dynamic s))"

text \<open>A state that the old format can hold.\<close>

definition old_saveable :: "zstate \<Rightarrow> bool" where
  "old_saveable s \<longleftrightarrow> loaded s \<and> 0 \<le> pcp s \<and> pcp s < 2 ^ 24 \<and> 0 \<le> sp s \<and> sp s \<le> STACK_SIZE \<and>
     0 \<le> fp s \<and> fp s \<le> STACK_SIZE"

lemma save_old_writes:
  assumes "calm s" "old_saveable s"
  shows "save_old (reading [] []) s = Ok (reading (old_bytes s) [], tick (length (old_bytes s)) s)"
proof -
  have "uint (word_of_int (sp s) :: zword) = sp s"
    using assms(2) by (intro uint_small_int) (simp_all add: old_saveable_def)
  moreover have "stack_bytes [sp s..STACK_SIZE - 1] s = Ok (words_bytes [sp s..STACK_SIZE - 1] s)"
    using assms(2) by (intro stack_bytes_writes) (auto simp: old_saveable_def)
  moreover have "memory_runs [0..uint (h_dynamic_size (hdr s)) - 1] 0 s = Ok (runs_of s 0 0 (dynamic s))"
    using memory_runs_writes [of s 0 "dynamic s" 0] assms(2) by (simp add: old_saveable_def int_dynamic)
  ultimately show ?thesis
    using assms(1) by (simp add: save_old_def old_bytes_def Let_def put_all_end del: put_all.simps)
qed

lemma map_diff_upt: "map (\<lambda>k. diff_at s (int k)) [0..<dynamic s] = differences s"
  by (rule nth_equalityI) (auto simp: differences_def int_dynamic [symmetric] nth_upto)

lemma restore_old_reads:
  assumes ok: "old_saveable s" and same: "same_story s t"
  shows "restore_old (reading [] (old_bytes s)) t =
    Ok (2, t\<lparr>pcp := pcp s, sp := sp s, fp := fp s,
      stack := (\<lambda>i. if sp s \<le> i \<and> i \<le> STACK_SIZE - 1 then stack s i else stack t i), zmp := zmp s\<rparr>)"
proof -
  define pc where "pc = (word_of_int (pcp s) :: 32 word)"
  have pc: "uint pc = pcp s" "pc < 2 ^ 24"
    using ok by (simp_all add: old_saveable_def pc_def uint_word_of_int word_less_def)
  have small: "uint (word_of_int (sp s) :: zword) = sp s" "uint (word_of_int (fp s) :: zword) = fp s"
    using ok by (auto simp: old_saveable_def intro!: uint_small_int)
  have range: "\<forall>i \<in> set [sp s..STACK_SIZE - 1]. 0 \<le> i \<and> i < STACK_SIZE"
    using ok by (auto simp: old_saveable_def)
  define t1 where "t1 = t\<lparr>pcp := pcp s, sp := sp s, fp := fp s,
      stack := (\<lambda>i. if i \<in> set [sp s..STACK_SIZE - 1] then stack s i else stack t i)\<rparr>"
  have t1: "loaded t1" "dynamic t1 = dynamic s" "story_file t1 = story_file s"
      "h_dynamic_size (hdr t1) = h_dynamic_size (hdr s)"
    using ok same by (simp_all add: t1_def old_saveable_def loaded_def dynamic_def same_story_def)
  have "get_memory (h_dynamic_size (hdr t1)) 0 0 (reading A (runs_of s 0 0 (dynamic s))) t1 =
      Ok (h_dynamic_size (hdr t1), reading (A @ runs_of s 0 0 (dynamic s)) [], undiff t1 0 (differences s))" for A
    using get_memory_reads [of t1 0 0 "dynamic s" s A "[]"] t1
    by (simp add: map_diff_upt)
  moreover have "undiff t1 0 (differences s) = t1\<lparr>zmp := zmp s\<rparr>"
  proof -
    have "(\<lambda>a. if 0 \<le> a \<and> a < uint (h_dynamic_size (hdr s)) then zmp s a else zmp t1 a) = zmp s"
      using same by (auto simp: fun_eq_iff t1_def same_story_def int_dynamic)
    then show ?thesis
      using undiff_differences [of t1 s] t1 by simp
  qed
  moreover have "get_stack [sp s..STACK_SIZE - 1] (reading A (words_bytes [sp s..STACK_SIZE - 1] s @ R))
      (t\<lparr>pcp := pcp s, sp := sp s, fp := fp s\<rparr>) =
      Ok (reading (A @ words_bytes [sp s..STACK_SIZE - 1] s) R, t1)" for A R
    using get_stack_reads [OF range, of A s R] by (simp add: t1_def cong: if_cong)
  moreover have "sint pc = pcp s"
    using sint_small [OF pc(2)] pc(1) by simp
  moreover have "h_release (hdr t) = h_release (hdr s)"
    using same by (simp add: same_story_def)
  ultimately show ?thesis
    using t1(4) small old_pc_bytes [OF pc(2)]
    by (simp add: restore_old_def old_bytes_def Let_def pc_def [symmetric] t1_def)
qed

subsection \<open>The save opcodes\<close>

text \<open>The next two questions to the outside, for a file name and for opening the file, are granted.\<close>

definition granted :: "zstate \<Rightarrow> bool" where
  "granted s \<longleftrightarrow> os_answer s (clock s) \<noteq> 0 \<and> os_answer s (Suc (clock s)) \<noteq> 0"

definition given_name :: "zstate \<Rightarrow> string" where
  "given_name s = os_name (dev s) (clock s)"

lemma ask_twice:
  "granted s \<Longrightarrow> ask s = (os_answer s (clock s), tick 1 s)"
  by (simp add: ask_def tick_def)

text \<open>The state in which the file for a save has just been opened.\<close>

definition opened :: "zstate \<Rightarrow> zstate" where
  "opened s = store_file (given_name s) [] (upd_dev (\<lambda>d. d\<lparr>save_name := given_name s\<rparr>) (tick 2 s))"

lemma clock_last: "s\<lparr>clock := n, dev := d\<rparr> = s\<lparr>dev := d, clock := n\<rparr>"
  by simp

lemma open_write_granted:
  "granted s \<Longrightarrow> open_write (given_name s) (upd_dev (\<lambda>d. d\<lparr>save_name := given_name s\<rparr>) (tick 1 s)) =
    (Some (reading [] []), opened s)"
  by (simp add: open_write_def ask_def granted_def opened_def tick_def upd_dev_def reading_def clock_last)

lemma opened_sel [simp]:
  "zmp (opened s) = zmp s" "hdr (opened s) = hdr s" "stack (opened s) = stack s" "sp (opened s) = sp s"
  "fp (opened s) = fp s" "pcp (opened s) = pcp s"
  "story_size (opened s) = story_size s" "calm (opened s) = calm s"
  "f_setup (opened s) = f_setup s" "in_mem a (opened s) = in_mem a s"
  by (simp_all add: opened_def calm_def in_mem_def) (simp add: tick_def)

lemma opened_story:
  "\<not> names_story (dev s) (given_name s) \<Longrightarrow> story_file (opened s) = story_file s \<and> story_len (opened s) = story_len s"
  by (simp add: opened_def store_file_def Let_def tick_def upd_dev_def)

lemma save_game_opened:
  assumes "granted s"
  shows "save_game s =
    andthen
      (if save_quetzal (f_setup s) then save_quetzal_file (reading [] []) (opened s)
       else andthen (save_old (reading [] []) (opened s)) (\<lambda>(f, s). Ok (0, f, s)))
      (\<lambda>(success, f, u).
        let (closed, u) = ask (close_write (given_name s) f u) in
        if closed = -1 then andthen (complain ''Error writing save file'' u) (\<lambda>s. Ok (success, s))
        else Ok (1, u))"
  using assms ask_twice [OF assms] open_write_granted [OF assms] unfolding given_name_def granted_def
  by (simp add: save_game_def)

lemma memory_runs_cong:
  assumes "zmp t = zmp s" "story_file t = story_file s" "dynamic t = dynamic s"
  shows "runs_of t = runs_of s"
proof -
  have "runs_of t j i m = runs_of s j i m" for j i m
    using assms by (induction m arbitrary: i j) (simp_all add: diff_at_def)
  then show ?thesis
    by (simp add: fun_eq_iff)
qed

lemma old_bytes_opened:
  assumes "\<not> names_story (dev s) (given_name s)"
  shows "old_bytes (opened s) = old_bytes s" "old_saveable (opened s) = old_saveable s"
  using memory_runs_cong [of "opened s" s] opened_story [OF assms]
  by (simp_all add: old_bytes_def words_bytes_def dynamic_def old_saveable_def loaded_def)

lemma save_game_old:
  assumes "granted s" "calm s" "old_saveable s" "\<not> save_quetzal (f_setup s)" "\<not> names_story (dev s) (given_name s)"
  shows "\<exists>k. save_game s = Ok (1, tick k (upd_dev (\<lambda>d. d\<lparr>save_name := given_name s,
    disk := (disk d)(given_name s := Some (old_bytes s))\<rparr>) s))"
proof -
  have "save_old (reading [] []) (opened s) = Ok (reading (old_bytes s) [], tick (length (old_bytes s)) (opened s))"
    using save_old_writes [of "opened s"] assms(2,3) by (simp add: old_bytes_opened [OF assms(5)])
  moreover have "os_answer s k \<noteq> -1" for k
    using assms(2) by (simp add: calm_def)
  ultimately show ?thesis
    using assms(4,5) unfolding save_game_opened [OF assms(1)]
    by (intro exI [of _ "length (old_bytes s) + 3"])
      (simp add: ask_def close_write_def store_file_other upd_dev_def tick_def opened_def reading_def)
qed

definition found :: "zstate \<Rightarrow> zstate" where
  "found t = upd_dev (\<lambda>d. d\<lparr>save_name := given_name t\<rparr>) (tick 2 t)"

lemma found_sel [simp]:
  "zmp (found s) = zmp s" "hdr (found s) = hdr s" "stack (found s) = stack s" "f_setup (found s) = f_setup s"
  "story_file (found s) = story_file s" "story_size (found s) = story_size s" "story_len (found s) = story_len s"
  "frame_count (found s) = frame_count s" "in_mem a (found s) = in_mem a s"
  by (simp_all add: found_def in_mem_def)

lemma same_story_found [simp]: "same_story s (found t) = same_story s t"
  by (simp add: same_story_def serial_bytes_def)

lemma restore_game_opened:
  assumes "granted t" "disk (dev t) (given_name t) = Some bs"
  shows "restore_game sw ew t =
    andthen (if save_quetzal (f_setup t) then restore_quetzal (reading [] bs) (found t)
             else restore_old (reading [] bs) (found t))
      (\<lambda>(success, s).
        if 0 \<le> sint success then
          andthen (if 0 < sint success then restored_game sw ew s else Ok s) (\<lambda>s. Ok (success, s))
        else Stop (Os_fatal ''Error reading save file''))"
proof -
  have "open_read (given_name t) (upd_dev (\<lambda>d. d\<lparr>save_name := given_name t\<rparr>) (tick 1 t)) =
      (Some (reading [] bs), found t)"
    using assms by (simp add: open_read_def ask_def granted_def found_def tick_def upd_dev_def reading_def)
  then show ?thesis
    using assms(1) ask_twice [OF assms(1)] unfolding given_name_def granted_def by (simp add: restore_game_def)
qed

text \<open>
  C38. In the old format a saved game comes back: \<open>z_save\<close> puts a file on the disk from which
  \<open>z_restore\<close>, in any machine that runs the same story, takes the saved program counter, stack
  pointer, frame pointer, stack words and dynamic memory. The number of frames is not restored. The
  name given for the file is not the story's own (the file holds what differs from the story).
\<close>

theorem old_format_round_trip:
  assumes "granted s" and "calm s" and "old_saveable s" and "\<not> save_quetzal (f_setup s)"
    and "\<not> names_story (dev s) (given_name s)"
    and "same_story s t" and "granted t" and "\<not> save_quetzal (f_setup t)"
  shows "\<exists>s'. save_game s = Ok (1, s') \<and> zmp s' = zmp s \<and> stack s' = stack s \<and> pcp s' = pcp s \<and>
    (disk (dev t) (given_name t) = disk (dev s') (given_name s) \<longrightarrow>
      (\<exists>u. restore_game sw ew t = andthen (restored_game sw ew u) (\<lambda>u. Ok (2, u)) \<and>
        pcp u = pcp s \<and> sp u = sp s \<and> fp u = fp s \<and> zmp u = zmp s \<and> frame_count u = frame_count t \<and>
        (\<forall>i. sp s \<le> i \<and> i < STACK_SIZE \<longrightarrow> stack u i = stack s i)))"
proof -
  obtain k where saved: "save_game s = Ok (1, tick k (upd_dev (\<lambda>d. d\<lparr>save_name := given_name s,
      disk := (disk d)(given_name s := Some (old_bytes s))\<rparr>) s))"
    using save_game_old [OF assms(1-5)] by blast
  define u where "u = (found t)\<lparr>pcp := pcp s, sp := sp s, fp := fp s,
    stack := (\<lambda>i. if sp s \<le> i \<and> i \<le> STACK_SIZE - 1 then stack s i else stack (found t) i), zmp := zmp s\<rparr>"
  have "restore_game sw ew t = andthen (restored_game sw ew u) (\<lambda>u. Ok (2, u))"
    if "disk (dev t) (given_name t) = Some (old_bytes s)"
    using restore_game_opened [OF assms(7) that] restore_old_reads [OF assms(3), of "found t"] assms(6,8)
    by (simp add: u_def)
  moreover have "pcp u = pcp s" "sp u = sp s" "fp u = fp s" "zmp u = zmp s" "frame_count u = frame_count t"
    "\<forall>i. sp s \<le> i \<and> i < STACK_SIZE \<longrightarrow> stack u i = stack s i"
    by (simp_all add: u_def)
  ultimately show ?thesis
    unfolding saved by (auto simp: tick_def)
qed

text \<open>A machine with some words on its stack, whose options ask for the old format.\<close>

definition old_machine :: zstate where
  "old_machine = (small_machine 5 [1, 2, 3])
     \<lparr>stack := (\<lambda>i. if i = 1023 then 42 else 0), sp := 1023,
      f_setup := default_setup\<lparr>save_quetzal := False\<rparr>\<rparr>"

lemma old_machine_ok:
  "granted old_machine" "calm old_machine" "old_saveable old_machine" "\<not> save_quetzal (f_setup old_machine)"
  "\<not> names_story (dev old_machine) (given_name old_machine)"
  by (simp_all add: given_name_def initial_dev_def old_machine_def granted_def calm_def old_saveable_def loaded_def dynamic_def
      small_machine_def initial_state_def)

definition other_machine :: zstate where
  "other_machine = old_machine\<lparr>sp := STACK_SIZE, zmp := (\<lambda>a. 0), stack := (\<lambda>i. 7),
     dev := initial_dev\<lparr>disk := (\<lambda>n. Some (old_bytes old_machine))\<rparr>\<rparr>"

lemma other_machine_ok:
  "same_story old_machine other_machine" "granted other_machine" "\<not> save_quetzal (f_setup other_machine)"
  by (auto simp: other_machine_def old_machine_def same_story_def serial_bytes_def granted_def
      small_machine_def initial_state_def dynamic_def initial_header_def)

theorem old_format_round_trip_witness:
  "\<exists>u. restore_game (\<lambda>w. Ok) (\<lambda>w. Ok) other_machine =
      andthen (restored_game (\<lambda>w. Ok) (\<lambda>w. Ok) u) (\<lambda>u. Ok (2, u)) \<and>
    sp u = 1023 \<and> stack u 1023 = 42 \<and> zmp u 65 = 2"
proof -
  obtain s' where "save_game old_machine = Ok (1, s')"
    and restored: "disk (dev other_machine) (given_name other_machine) = disk (dev s') (given_name old_machine) \<longrightarrow>
      (\<exists>u. restore_game (\<lambda>w. Ok) (\<lambda>w. Ok) other_machine =
        andthen (restored_game (\<lambda>w. Ok) (\<lambda>w. Ok) u) (\<lambda>u. Ok (2, u)) \<and>
        pcp u = pcp old_machine \<and> sp u = sp old_machine \<and> fp u = fp old_machine \<and> zmp u = zmp old_machine \<and>
        frame_count u = frame_count other_machine \<and>
        (\<forall>i. sp old_machine \<le> i \<and> i < STACK_SIZE \<longrightarrow> stack u i = stack old_machine i))"
    using old_format_round_trip [OF old_machine_ok other_machine_ok, of "\<lambda>w. Ok" "\<lambda>w. Ok"] by blast
  moreover have "disk (dev s') (given_name old_machine) = Some (old_bytes old_machine)"
    using save_game_old [OF old_machine_ok] calculation(1) by (auto simp: tick_def)
  moreover have "disk (dev other_machine) (given_name other_machine) = Some (old_bytes old_machine)"
    by (simp add: other_machine_def)
  moreover have "sp old_machine = 1023" "stack old_machine 1023 = 42" "zmp old_machine 65 = 2"
    by (simp_all add: old_machine_def)
  ultimately show ?thesis
    by auto
qed

text \<open>
  C39. \<open>z_save\<close> ignores what \<open>save_quetzal\<close> returns: when already the first byte cannot be written, the
  opcode still reports success, and leaves an empty file behind.
\<close>

theorem save_hides_failure:
  assumes "granted s" and "save_quetzal (f_setup s)" and "os_answer s (clock s + 2) = -1"
    and "os_answer s (clock s + 3) \<noteq> -1"
  shows "\<exists>s'. save_game s = Ok (1, s') \<and> disk (dev s') (given_name s) = Some []"
proof -
  have "save_quetzal_file (reading [] []) (opened s) = Ok (0, reading [] [], tick 1 (opened s))"
    using assms(3)
    by (simp add: save_quetzal_file_def save_header_def wr_def chnk_bytes_def long_bytes_def put_c_def ask_def
        opened_def tick_def)
  then show ?thesis
    using assms(2,4) unfolding save_game_opened [OF assms(1)]
    by (simp add: ask_def close_write_def opened_def tick_def numeral_eq_Suc reading_def)
qed

theorem save_hides_failure_witness:
  "\<exists>s'. save_game ((small_machine 5 [])\<lparr>os_answer := (\<lambda>k. if k = 2 then -1 else 1)\<rparr>) = Ok (1, s')"
  using save_hides_failure [of "(small_machine 5 [])\<lparr>os_answer := (\<lambda>k. if k = 2 then -1 else 1)\<rparr>"]
  by (auto simp: granted_def small_machine_def initial_state_def default_setup_def)

subsection \<open>Auxiliary files\<close>

lemma put_mem_writes:
  assumes "0 \<le> a" "a + int (length bs) \<le> story_size t"
  shows "put_mem a bs t = Ok (t\<lparr>zmp := overwrite (zmp t) a bs\<rparr>)"
  using assms
proof (induction bs arbitrary: a t)
  case Nil
  have "\<not> (a \<le> x \<and> x < a)" for x
    by linarith
  then show ?case
    by (simp add: overwrite_def del: de_Morgan_conj)
next
  case (Cons b bs)
  have "nat (x - (a + 1)) = nat (x - a) - Suc 0" for x
    by linarith
  then have "overwrite ((zmp t)(a := b)) (a + 1) bs = overwrite (zmp t) a (b # bs)"
    by (intro ext) (auto simp: overwrite_def nth_Cons')
  then show ?case
    using Cons.IH [of "a + 1" "t\<lparr>zmp := (zmp t)(a := b)\<rparr>"] Cons.prems
    by (simp add: set_byte_def fun_upd_def)
qed

definition area :: "zstate \<Rightarrow> zbyte list" where
  "area s = map (zmp s) [uint (zargs s 0)..uint (zargs s 0) + uint (zargs s 1) - 1]"

text \<open>
  An area of memory that \<open>save\<close> puts into an auxiliary file is read back by \<open>restore\<close>, to the
  address it is given: the area comes back byte for byte, the rest of memory stays, and the two
  opcodes report 1 and the number of bytes.
\<close>

theorem area_round_trip:
  assumes "granted s" and "calm s" and "get_default_name (if 3 \<le> zargc s then zargs s 2 else 0) s = Ok d"
    and "0 < zargs s 1" and "uint (zargs s 0) + uint (zargs s 1) \<le> story_size s"
    and "granted t" and "get_default_name (if 3 \<le> zargc t then zargs t 2 else 0) t = Ok e"
    and "zargs t 1 = zargs s 1" and "uint (zargs t 0) + uint (zargs t 1) \<le> story_size t"
  shows "\<exists>s'. save_area s = Ok (1, s') \<and> zmp s' = zmp s \<and> disk (dev s') (given_name s) = Some (area s) \<and>
    (disk (dev t) (given_name t) = disk (dev s') (given_name s) \<longrightarrow>
      (\<exists>u. restore_area t = Ok (zargs s 1, u) \<and> zmp u = overwrite (zmp t) (uint (zargs t 0)) (area s)))"
proof -
  have len: "length (area s) = unat (zargs s 1)"
    by (simp add: area_def)
  define s1 where "s1 = store_file (given_name s) [] (upd_dev (\<lambda>v. v\<lparr>auxilary_name := d\<rparr>) (tick 2 s))"
  have "open_write (given_name s) (upd_dev (\<lambda>v. v\<lparr>auxilary_name := d\<rparr>) (tick 1 s)) = (Some (reading [] []), s1)"
    using assms(1) by (simp add: open_write_def ask_def granted_def s1_def tick_def upd_dev_def reading_def clock_last)
  moreover have "put_bytes (area s) (reading [] []) s1 = (True, reading (area s) [], tick (unat (zargs s 1)) s1)"
    using put_bytes_end [of s1 "area s" "[]"] assms(2) len by (simp add: s1_def calm_def tick_def)
  moreover have "zargs s1 = zargs s" "zmp s1 = zmp s" "story_size s1 = story_size s"
    by (simp_all add: s1_def tick_def)
  ultimately have saved: "save_area s =
      Ok (1, close_write (given_name s) (reading (area s) []) (tick (unat (zargs s 1)) s1))"
    using assms(1,3-5) ask_twice [OF assms(1)] unfolding given_name_def granted_def
    by (simp add: save_area_def area_def [symmetric] word_less_def del: put_bytes.simps)
  define t1 where "t1 = upd_dev (\<lambda>v. v\<lparr>auxilary_name := e\<rparr>) (tick 2 t)"
  have "open_read (given_name t) (upd_dev (\<lambda>v. v\<lparr>auxilary_name := e\<rparr>) (tick 1 t)) = (Some (reading [] (area s)), t1)"
    if "disk (dev t) (given_name t) = Some (area s)"
    using assms(6) that by (simp add: open_read_def ask_def granted_def t1_def tick_def upd_dev_def reading_def)
  moreover have "zargs t1 = zargs t" "zmp t1 = zmp t" "story_size t1 = story_size t"
    by (simp_all add: t1_def tick_def)
  moreover have "put_mem (uint (zargs t 0)) (area s) t1 = Ok (t1\<lparr>zmp := overwrite (zmp t1) (uint (zargs t 0)) (area s)\<rparr>)"
    using assms(8,9) by (intro put_mem_writes) (simp_all add: len t1_def)
  ultimately have "restore_area t = Ok (zargs s 1, t1\<lparr>zmp := overwrite (zmp t) (uint (zargs t 0)) (area s)\<rparr>)"
    if "disk (dev t) (given_name t) = Some (area s)"
    using that assms(6-9) ask_twice [OF assms(6)] len unfolding given_name_def granted_def
    by (simp add: restore_area_def reading_def)
  then show ?thesis
    unfolding saved by (auto simp: close_write_def s1_def tick_def reading_def)
qed

definition area_machine :: "zword \<Rightarrow> zbyte list \<Rightarrow> zstate" where
  "area_machine a bs = (small_machine 5 [1, 2, 3])
     \<lparr>zargs := (\<lambda>i. if i = 0 then a else 3), zargc := 2, dev := initial_dev\<lparr>disk := (\<lambda>n. Some bs)\<rparr>\<rparr>"

lemma area_machine_ok:
  "granted (area_machine a bs)" "calm (area_machine a bs)"
  "get_default_name (if 3 \<le> zargc (area_machine a bs) then zargs (area_machine a bs) 2 else 0) (area_machine a bs) =
    Ok ''story.aux''"
  by (simp_all add: area_machine_def granted_def calm_def get_default_name_def small_machine_def initial_state_def
      initial_dev_def)

theorem area_round_trip_witness:
  "\<exists>s' u. save_area (area_machine 64 []) = Ok (1, s') \<and> disk (dev s') ''game'' = Some [1, 2, 3] \<and>
    restore_area (area_machine 100 [1, 2, 3]) = Ok (3, u) \<and> zmp u 101 = 2"
proof -
  have sel: "zargs (area_machine a bs) 0 = a" "zargs (area_machine a bs) 1 = 3"
    "given_name (area_machine a bs) = ''game''" "disk (dev (area_machine a bs)) n = Some bs"
    "zmp (area_machine a bs) = zmp (small_machine 5 [1, 2, 3])" "story_size (area_machine a bs) = 4096" for a bs n
    by (simp_all add: area_machine_def given_name_def initial_dev_def)
  have "area (area_machine 64 []) = [1, 2, 3]"
    by (simp add: area_def sel upto_rec1)
  then show ?thesis
    using area_round_trip [OF area_machine_ok(1,2,3) _ _ area_machine_ok(1,3), of "64" "[]" 100 "[1, 2, 3]"]
    by (auto simp: sel overwrite_def)
qed

end
