(* ===== verification/Invariant.thy ===== *)
theory Invariant
  imports Interpreter Output_Correct
begin

text \<open>
  Invariants of the running program. The locale below says what a predicate on states must allow - any
  change of memory, output, windows, devices, registers, and whatever saving and restoring for undo do -
  and proves once that then every function of the interpreter keeps it, opcode by opcode, up to whole
  runs. An invariant is an interpretation.

  The rules are applied by their shape: a step of a program that returns a state is entered with that
  state, one that only reads is skipped.
\<close>

named_theorems inv_rules "operations that keep the invariant"

text \<open>The form in which the induction rules of loops that may not end state a postcondition.\<close>

definition okay :: "('a \<Rightarrow> bool) \<Rightarrow> stop + 'a \<Rightarrow> bool" where
  "okay Q r \<longleftrightarrow> (\<forall>x. r = Inr x \<longrightarrow> Q x)"

lemma post_okay: "post m Q \<longleftrightarrow> (\<forall>r. m = Some r \<longrightarrow> okay Q r)"
  by (auto simp: post_def okay_def)

lemma okayD: "post m Q \<Longrightarrow> m = Some r \<Longrightarrow> okay Q r"
  by (simp add: post_okay)

lemma post_read: "(\<And>x. post (f x) Q) \<Longrightarrow> post (andthen m f) Q"
  by (auto simp: post_def andthen_eq_Ok)

lemmas post_reads [inv_rules] =
  post_read [where m = m and f = f for m :: "zbyte res" and f]
  post_read [where m = m and f = f for m :: "zword res" and f]
  post_read [where m = m and f = f for m :: "int res" and f]
  post_read [where m = m and f = f for m :: "bool res" and f]
  post_read [where m = m and f = f for m :: "nat res" and f]
  post_read [where m = m and f = f for m :: "zbyte list res" and f]
  post_read [where m = m and f = f for m :: "zword list res" and f]
  post_read [where m = m and f = f for m :: "string res" and f]
  post_read [where m = m and f = f for m :: "redir res" and f]
  post_read [where m = m and f = f for m :: "cfile res" and f]
  post_read [where m = m and f = f for m :: "search_result res" and f]
  post_read [where m = m and f = f for m :: "(zword \<times> zword) option res" and f]
  post_read [where m = m and f = f for m :: "(zword \<times> zbyte) res" and f]
  post_read [where m = m and f = f for m :: "(int \<times> nat) res" and f]
  post_read [where m = m and f = f for m :: "undostate res" and f]

lemma post_if_rule [inv_rules]:
  "(b \<Longrightarrow> post m Q) \<Longrightarrow> (\<not> b \<Longrightarrow> post n Q) \<Longrightarrow> post (if b then m else n) Q"
  by simp

lemma post_option_rule [inv_rules]:
  "post m Q \<Longrightarrow> (\<And>x. post (f x) Q) \<Longrightarrow> post (case a of None \<Rightarrow> m | Some x \<Rightarrow> f x) Q"
  by (simp split: option.split)

lemma post_list_rule [inv_rules]:
  "post m Q \<Longrightarrow> (\<And>x xs. post (f x xs) Q) \<Longrightarrow> post (case a of [] \<Rightarrow> m | x # xs \<Rightarrow> f x xs) Q"
  by (simp split: list.split)

lemma post_search_rule [inv_rules]:
  "(\<And>a. post (f a) Q) \<Longrightarrow> (\<And>l u. post (g l u) Q) \<Longrightarrow>
    post (case r of Found a \<Rightarrow> f a | Not_found l u \<Rightarrow> g l u) Q"
  by (simp split: search_result.split)

lemma post_let: "(\<And>x. post (f x) Q) \<Longrightarrow> post (Let a f) Q"
  by simp

lemmas post_lets [inv_rules] =
  post_let [where a = a and f = f for a :: zbyte and f]
  post_let [where a = a and f = f for a :: zword and f]
  post_let [where a = a and f = f for a :: "32 word" and f]
  post_let [where a = a and f = f for a :: int and f]
  post_let [where a = a and f = f for a :: nat and f]
  post_let [where a = a and f = f for a :: bool and f]
  post_let [where a = a and f = f for a :: window and f]
  post_let [where a = a and f = f for a :: device and f]
  post_let [where a = a and f = f for a :: string and f]
  post_let [where a = a and f = f for a :: "zbyte list" and f]
  post_let [where a = a and f = f for a :: "zword option" and f]
  post_let [where a = a and f = f for a :: undo_t and f]
  post_let [where a = a and f = f for a :: undostate and f]
  post_let [where a = a and f = f for a :: "int \<Rightarrow> zword" and f]

lemma post_let_pair [inv_rules]:
  fixes p :: "'a \<times> 'b"
  shows "post (f p) Q \<Longrightarrow> post (Let p f) Q"
  by simp

lemma post_case: "(\<And>x y. post (f x y) Q) \<Longrightarrow> post (case p of (x, y) \<Rightarrow> f x y) Q"
  by (simp split: prod.split)

lemmas post_cases [inv_rules] =
  post_case [where p = p and f = f for p :: "zword \<times> rng" and f]
  post_case [where p = p and f = f for p :: "zword \<times> zbyte" and f]
  post_case [where p = p and f = f for p :: "zword \<times> zword" and f]
  post_case [where p = p and f = f for p :: "int \<times> nat" and f]

subsection \<open>What an invariant must allow\<close>

locale state_invariant =
  fixes I :: "zstate \<Rightarrow> bool"
  assumes core_same: "I s \<Longrightarrow> core t = core s \<Longrightarrow> I t"
    and registers [simp]: "I s \<Longrightarrow> I (s\<lparr>pcp := n\<rparr>)" "I s \<Longrightarrow> I (s\<lparr>stack := st\<rparr>)" "I s \<Longrightarrow> I (s\<lparr>sp := n\<rparr>)"
      "I s \<Longrightarrow> I (s\<lparr>fp := n\<rparr>)" "I s \<Longrightarrow> I (s\<lparr>frame_count := c\<rparr>)" "I s \<Longrightarrow> I (s\<lparr>zargs := st\<rparr>)"
      "I s \<Longrightarrow> I (s\<lparr>zargc := n\<rparr>)" "I s \<Longrightarrow> I (s\<lparr>finished := n\<rparr>)"
    and variables [simp]: "I s \<Longrightarrow> I (s\<lparr>rnd := r\<rparr>)" "I s \<Longrightarrow> I (s\<lparr>decoded := cs\<rparr>)" "I s \<Longrightarrow> I (s\<lparr>encoded := st\<rparr>)"
      "I s \<Longrightarrow> I (s\<lparr>first_restart := b\<rparr>)" "I s \<Longrightarrow> I (s\<lparr>sfx := snds\<rparr>)"
    and overwriting [simp]: "I s \<Longrightarrow> I (s\<lparr>story_file := m, story_len := n\<rparr>)"
    and watching [simp]: "I s \<Longrightarrow> I (upd_setup (\<lambda>u. u\<lparr>attribute_assignment := b\<rparr>) s)"
      "I s \<Longrightarrow> I (upd_setup (\<lambda>u. u\<lparr>attribute_testing := b\<rparr>) s)"
      "I s \<Longrightarrow> I (upd_setup (\<lambda>u. u\<lparr>object_movement := b\<rparr>) s)"
      "I s \<Longrightarrow> I (upd_setup (\<lambda>u. u\<lparr>object_locating := b\<rparr>) s)"
    and saving: "I s \<Longrightarrow> post (save_undo s) (\<lambda>(v, t). I t)"
    and restoring: "I s \<Longrightarrow> post (restore_undo s) (\<lambda>(v, t). I t)"
begin

lemma core_updates [simp]:
  assumes "I s"
  shows "I (upd_out f s)" "I (log_event e s)" "I (s\<lparr>zmp := m\<rparr>)" "I (s\<lparr>clock := n\<rparr>)" "I (upd_dev d s)"
    "I (upd_scr w s)" "I (upd_sfx g s)"
  using assms by (auto intro: core_same [OF assms] simp: upd_sfx_def)

text \<open>Functions that the output theory knows to leave the game alone.\<close>

lemma quiet_keeps: "(\<And>c. core s = c \<Longrightarrow> quiet c m) \<Longrightarrow> I s \<Longrightarrow> post m I"
  unfolding keeps_def by (rule post_mono [where P = "\<lambda>t. core t = core s"]) (auto intro: core_same)

lemma quiet2_keeps: "(\<And>c. core s = c \<Longrightarrow> quiet2 c m) \<Longrightarrow> I s \<Longrightarrow> post m (\<lambda>(x, t). I t)"
  unfolding keeps2_def by (rule post_mono [where P = "\<lambda>(x, t). core t = core s"]) (auto intro: core_same)

lemma only_screen_keeps: "only_screen s t \<Longrightarrow> I s \<Longrightarrow> I t"
  by (metis core_only_screen core_same)

text \<open>Steps that return a state, alone or in the last place of a tuple.\<close>

lemma state_steps [inv_rules]:
  fixes m1 :: "zstate res" and m2 :: "('a \<times> zstate) res" and m3 :: "('a \<times> 'b \<times> zstate) res"
    and m4 :: "('a \<times> 'b \<times> 'c \<times> zstate) res"
  shows "post m1 I \<Longrightarrow> (\<And>s. I s \<Longrightarrow> post (f1 s) Q) \<Longrightarrow> post (andthen m1 f1) Q"
    and "post m2 (\<lambda>(x, t). I t) \<Longrightarrow> (\<And>x s. I s \<Longrightarrow> post (f2 (x, s)) Q) \<Longrightarrow> post (andthen m2 f2) Q"
    and "post m3 (\<lambda>(x, y, t). I t) \<Longrightarrow> (\<And>x y s. I s \<Longrightarrow> post (f3 (x, y, s)) Q) \<Longrightarrow> post (andthen m3 f3) Q"
    and "post m4 (\<lambda>(x, y, z, t). I t) \<Longrightarrow> (\<And>x y z s. I s \<Longrightarrow> post (f4 (x, y, z, s)) Q) \<Longrightarrow>
      post (andthen m4 f4) Q"
  by (auto simp: post_def andthen_eq_Ok)

lemma state_let [inv_rules]:
  "I s \<Longrightarrow> (\<And>t. I t \<Longrightarrow> post (f t) Q) \<Longrightarrow> post (Let s f) Q"
  by simp

lemma state_cases [inv_rules]:
  fixes p2 :: "'a \<times> zstate" and p3 :: "'a \<times> 'b \<times> zstate" and p4 :: "'a \<times> 'b \<times> 'c \<times> zstate"
  shows "I (snd p2) \<Longrightarrow> (\<And>x t. I t \<Longrightarrow> post (f2 x t) Q) \<Longrightarrow> post (case p2 of (x, t) \<Rightarrow> f2 x t) Q"
    and "I (snd (snd p3)) \<Longrightarrow> (\<And>x y t. I t \<Longrightarrow> post (f3 x y t) Q) \<Longrightarrow>
      post (case p3 of (x, y, t) \<Rightarrow> f3 x y t) Q"
    and "I (snd (snd (snd p4))) \<Longrightarrow> (\<And>x y z t. I t \<Longrightarrow> post (f4 x y z t) Q) \<Longrightarrow>
      post (case p4 of (x, y, z, t) \<Rightarrow> f4 x y z t) Q"
  by (auto split: prod.splits)

text \<open>Facts on states that are computed without fail.\<close>

lemma pure_rules [inv_rules]:
  "(b \<Longrightarrow> I s) \<Longrightarrow> (\<not> b \<Longrightarrow> I t) \<Longrightarrow> I (if b then s else t)"
  "I s \<Longrightarrow> (\<And>t. I t \<Longrightarrow> I (f t)) \<Longrightarrow> I (Let s f)"
  "I (h q) \<Longrightarrow> I (Let (q :: 'a \<times> 'b) h)"
  "I (snd p) \<Longrightarrow> (\<And>x t. I t \<Longrightarrow> I (g x t)) \<Longrightarrow> I (case p of (x, t) \<Rightarrow> g x t)"
  by (auto split: prod.splits)

lemma ask_keeps [simp]: "I s \<Longrightarrow> I (snd (ask s))"
  by (simp add: ask_def)

lemma pure_output [simp]:
  assumes "I s"
  shows "I (script_char c s)" "I (stream_char c s)" "I (screen_char c s)" "I (screen_new_line s)"
    "I (screen_mssg_on s)" "I (update_cursor s)" "I (advance n s)" "I (upd_win i g s)" "I (upd_cwin g s)"
    "I (screen_word w s)" "I (record_close s)"
  using assms
  by (simp_all add: record_close_def only_screen_keeps [OF only_screen_char [OF only_screen_refl]]
      only_screen_keeps [OF only_screen_new_line [OF only_screen_refl]]
      only_screen_keeps [OF only_screen_mssg_on [OF only_screen_refl]]
      only_screen_keeps [OF only_screen_word [OF only_screen_refl]]
      only_screen_keeps [OF only_screen_parts(1) [OF only_screen_refl]]
      only_screen_keeps [OF only_screen_parts(2) [OF only_screen_refl]]
      only_screen_keeps [OF only_screen_parts(3) [OF only_screen_refl]]
      only_screen_keeps [OF only_screen_parts(4) [OF only_screen_refl]] core_same [OF assms])

lemma output_keeps [inv_rules]:
  assumes "I s"
  shows "post (print_char c s) I" "post (print_string t s) I" "post (new_line s) I" "post (flush_buffer s) I"
    "post (runtime_error e s) I" "post (storeb a v s) I" "post (storew a w s) I" "post (set_byte i x s) I"
    "post (set_word i y s) I" "post (stream_mssg_on s) I" "post (stream_mssg_off s) I"
    "post (refresh_text_style s) I" "post (z_output_stream s) I" "post (script_new_line s) I"
    "post (print_chars_h out_call t s) I" "post (record_open s) I"
  using assms unfolding refresh_text_style_def by (rule quiet_keeps [rotated]; intro quiet_rules; simp)+

subsection \<open>Stack, variables, calls\<close>

lemma stack_keeps [inv_rules]:
  assumes "I s"
  shows "post (stack_set p v s) I" "post (push v s) I" "post (pop s) (\<lambda>(x, t). I t)"
    "post (code_byte s) (\<lambda>(x, t). I t)" "post (code_word s) (\<lambda>(x, t). I t)"
  using assms by simp_all

lemma variable_keeps [inv_rules]: "I s \<Longrightarrow> post (set_var v x s) I" "I s \<Longrightarrow> post (poke_var v x s) I"
  unfolding set_var_def poke_var_def by (intro inv_rules; simp)+

lemma operand_keeps [inv_rules]: "I s \<Longrightarrow> post (load_operand ty s) I"
  unfolding load_operand_def add_arg_def by (intro inv_rules | simp only: prod.case | (simp; fail))+

lemma operands_from_keep [inv_rules]: "I s \<Longrightarrow> post (load_operands_from js spec s) I"
  by (induction js arbitrary: s) (simp, subst load_operands_from.simps, (intro inv_rules | simp only: prod.case | (simp; fail))+)

lemma operands_keep [inv_rules]: "I s \<Longrightarrow> post (load_all_operands spec s) I"
  unfolding load_all_operands_def by (rule operands_from_keep)

lemma var_operands_keep [inv_rules]: "I s \<Longrightarrow> post (load_var_operands oc s) I"
  unfolding load_var_operands_def by (intro inv_rules | simp only: prod.case | (simp; fail))+

lemma store_keeps [inv_rules]: "I s \<Longrightarrow> post (store v s) I"
  unfolding store_def by (intro inv_rules | simp only: prod.case | (simp; fail))+

lemma locals_keep [inv_rules]: "I s \<Longrightarrow> post (init_locals n i argc args v s) I"
  by (induction n arbitrary: i argc v s) (simp, subst init_locals.simps, (intro inv_rules | simp only: prod.case | (simp; fail))+)

lemma push_frame_keeps [inv_rules]: "I s \<Longrightarrow> post (push_frame argc ct s) I"
  unfolding push_frame_def by (intro inv_rules | simp only: prod.case | (simp; fail))+

lemma enter_routine_keeps [inv_rules]: "I s \<Longrightarrow> post (enter_routine pc argc args s) I"
  unfolding enter_routine_def by (intro inv_rules | simp only: prod.case | (simp; fail))+

lemma call_frame_keeps [inv_rules]: "I s \<Longrightarrow> post (call_frame r argc args ct s) I"
  unfolding call_frame_def by (intro inv_rules | simp only: prod.case | (simp; fail))+

lemma ret_keeps [inv_rules]: "I s \<Longrightarrow> post (ret v s) I"
  unfolding ret_def by (intro inv_rules | simp only: prod.case | (simp; fail))+

lemma branch_keeps [inv_rules]: "I s \<Longrightarrow> post (branch b s) I"
  unfolding branch_def by (intro inv_rules | simp only: prod.case | (simp; fail))+

lemma unwind_keeps [inv_rules]: "I s \<Longrightarrow> post (unwind target s) I"
proof (induction target s rule: unwind.induct)
  case (1 target s)
  then show ?case
    by (subst unwind.simps) (auto simp: post_def andthen_eq_Ok)
qed

lemma process_keeps [inv_rules]:
  "I s \<Longrightarrow> post (z_catch s) I" "I s \<Longrightarrow> post (z_throw s) I" "I s \<Longrightarrow> post (z_call_n s) I" "I s \<Longrightarrow> post (z_call_s s) I"
    "I s \<Longrightarrow> post (z_check_arg_count s) I" "I s \<Longrightarrow> post (z_jump s) I" "I s \<Longrightarrow> post (z_nop s) I" "I s \<Longrightarrow> post (z_quit s) I" "I s \<Longrightarrow> post (z_ret s) I"
    "I s \<Longrightarrow> post (z_ret_popped s) I" "I s \<Longrightarrow> post (z_rfalse s) I" "I s \<Longrightarrow> post (z_rtrue s) I" "I s \<Longrightarrow> post (z_piracy s) I"
    "I s \<Longrightarrow> post (illegal_opcode s) I"
  unfolding z_catch_def z_throw_def z_call_n_def z_call_s_def z_check_arg_count_def z_jump_def z_nop_def z_quit_def
    z_ret_def z_ret_popped_def z_rfalse_def z_rtrue_def z_piracy_def illegal_opcode_def
  by (intro inv_rules | simp only: prod.case | (simp; fail))+

subsection \<open>Variables, arithmetic, tables\<close>

lemma variable_opcodes_keep [inv_rules]:
  "I s \<Longrightarrow> post (z_dec s) I" "I s \<Longrightarrow> post (z_dec_chk s) I" "I s \<Longrightarrow> post (z_inc s) I" "I s \<Longrightarrow> post (z_inc_chk s) I" "I s \<Longrightarrow> post (z_load s) I"
    "I s \<Longrightarrow> post (z_pop s) I" "I s \<Longrightarrow> post (z_pop_stack s) I" "I s \<Longrightarrow> post (z_pull s) I" "I s \<Longrightarrow> post (z_push s) I" "I s \<Longrightarrow> post (z_push_stack s) I"
    "I s \<Longrightarrow> post (z_store s) I"
  unfolding z_dec_def z_dec_chk_def z_inc_def z_inc_chk_def z_load_def z_pop_def z_pop_stack_def z_pull_def
    z_push_def z_push_stack_def z_store_def
  by (intro inv_rules | simp only: prod.case | (simp; fail))+

lemma seed_random_keeps [simp]: "I s \<Longrightarrow> I (seed_random n s)"
  unfolding seed_random_def by (intro inv_rules | simp only: prod.case | (simp; fail))+

lemma arithmetic_keeps [inv_rules]:
  "I s \<Longrightarrow> post (z_add s) I" "I s \<Longrightarrow> post (z_and s) I" "I s \<Longrightarrow> post (z_art_shift s) I" "I s \<Longrightarrow> post (z_div s) I" "I s \<Longrightarrow> post (z_je s) I"
    "I s \<Longrightarrow> post (z_jg s) I" "I s \<Longrightarrow> post (z_jl s) I" "I s \<Longrightarrow> post (z_jz s) I" "I s \<Longrightarrow> post (z_log_shift s) I" "I s \<Longrightarrow> post (z_mod s) I"
    "I s \<Longrightarrow> post (z_mul s) I" "I s \<Longrightarrow> post (z_not s) I" "I s \<Longrightarrow> post (z_or s) I" "I s \<Longrightarrow> post (z_sub s) I" "I s \<Longrightarrow> post (z_test s) I"
  unfolding z_add_def z_and_def z_art_shift_def z_div_def z_je_def z_jg_def z_jl_def z_jz_def z_log_shift_def
    z_mod_def z_mul_def z_not_def z_or_def z_sub_def z_test_def
  by (intro inv_rules | simp only: prod.case | (simp; fail))+

lemma random_keeps [inv_rules]: "I s \<Longrightarrow> post (z_random s) I"
  unfolding z_random_def by (intro inv_rules | simp only: prod.case | (simp; fail))+

lemma table_loops_keep [inv_rules]:
  "I s \<Longrightarrow> post (zero_bytes a js s) I" "I s \<Longrightarrow> post (copy_bytes a b js s) I"
proof -
  show "I s \<Longrightarrow> post (zero_bytes a js s) I"
    by (induction js arbitrary: s) (simp, subst zero_bytes.simps, (intro inv_rules | simp only: prod.case | (simp; fail))+)
  show "I s \<Longrightarrow> post (copy_bytes a b js s) I"
    by (induction js arbitrary: s) (simp, subst copy_bytes.simps, (intro inv_rules | simp only: prod.case | (simp; fail))+)
qed

lemma tables_keep [inv_rules]:
  "I s \<Longrightarrow> post (z_copy_table s) I" "I s \<Longrightarrow> post (z_loadb s) I" "I s \<Longrightarrow> post (z_loadw s) I" "I s \<Longrightarrow> post (z_scan_table s) I"
    "I s \<Longrightarrow> post (z_storeb s) I" "I s \<Longrightarrow> post (z_storew s) I"
  unfolding z_copy_table_def z_loadb_def z_loadw_def z_scan_table_def z_storeb_def z_storew_def
  by (intro inv_rules | simp only: prod.case | (simp; fail))+

end

end
