(* ===== verification/Invariant_Text.thy ===== *)
theory Invariant_Text
  imports Invariant
begin

text \<open>
  The functions of text.c and object.c keep every invariant. A loop that may not end goes by induction
  over its approximations: the induction hypothesis speaks of the recursive calls.
\<close>

context state_invariant
begin

lemma number_keeps [inv_rules]: "I s \<Longrightarrow> post (print_num v s) I"
  unfolding print_num_def by (intro inv_rules | simp only: prod.case | (simp; fail))+

lemma object_address_keeps [inv_rules]: "I s \<Longrightarrow> post (object_address obj s) (\<lambda>(x, t). I t)"
  unfolding object_address_def by (intro inv_rules | simp only: prod.case | (simp; fail))+

lemma object_name_keeps [inv_rules]: "I s \<Longrightarrow> post (object_name obj s) (\<lambda>(x, t). I t)"
  unfolding object_name_def by (intro inv_rules | simp only: prod.case | (simp; fail))+

lemma decoded_keeps [inv_rules]: "I s \<Longrightarrow> post (decoded_set i c s) I"
  unfolding decoded_set_def by (intro inv_rules | simp only: prod.case | (simp; fail))+

lemma load_chars_keeps [inv_rules]: "I s \<Longrightarrow> post (load_chars n i addr len s) I"
  by (induction n arbitrary: i addr s) (simp, subst load_chars.simps, (intro inv_rules | simp only: prod.case | (simp; fail))+)

lemma load_string_keeps [inv_rules]: "I s \<Longrightarrow> post (load_string addr len s) I"
  unfolding load_string_def by (intro inv_rules | simp only: prod.case | (simp; fail))+

lemma encode_text_keeps [inv_rules]: "I s \<Longrightarrow> post (encode_text padding s) I"
  unfolding encode_text_def Let_def by (intro inv_rules | simp only: prod.case | (simp; fail))+

lemma outchar_keeps [inv_rules]: "I s \<Longrightarrow> post (outchar st c d s) (\<lambda>(x, t). I t)"
  unfolding outchar_def by (intro inv_rules | simp only: prod.case | (simp; fail))+

lemma fetch_code_keeps [inv_rules]: "I s \<Longrightarrow> post (fetch_code st d s) (\<lambda>(x, y, t). I t)"
  unfolding fetch_code_def by (intro inv_rules | simp only: prod.case | (simp; fail))+

lemma decode_zchar_keeps:
  "(\<And>a s. I s \<Longrightarrow> post (R a s) I) \<Longrightarrow> I s \<Longrightarrow> post (decode_zchar R st c d s) (\<lambda>(x, t). I t)"
  unfolding decode_zchar_def Let_def by (intro inv_rules | simp only: prod.case | (simp; fail))+

lemma decode_loop_keeps [inv_rules]: "I s \<Longrightarrow> post (decode_loop st d s) (\<lambda>(x, t). I t)"
  unfolding post_okay
proof (intro allI impI)
  fix r
  assume "decode_loop st d s = Some r" and "I s"
  then show "okay (\<lambda>(x, t). I t) r"
  proof (rule decode_loop.raw_induct [where P = "\<lambda>st d s r. I s \<longrightarrow> okay (\<lambda>(x, t). I t) r", THEN mp, rotated 1], goal_cases)
    case (1 f st d s r)
    have rec [inv_rules]: "post (f st d s) (\<lambda>(x, t). I t)" if "I s" for st d s
      using 1(1) that by (auto simp: post_okay)
    have abbr: "I s \<Longrightarrow> post (andthen (f ABBREVIATION (decoder_init a (2 * uint a)) s) (\<lambda>(d, s). Ok s)) I"
      for a s
      by (intro inv_rules | simp only: prod.case | (simp; fail))+
    note [inv_rules] = decode_zchar_keeps [OF abbr]
    show ?case
      by (rule impI, rule okayD [OF _ 1(2)])
        (intro inv_rules | simp only: prod.case | (simp; fail))+
  qed
qed

lemma decode_text_keeps [inv_rules]: "I s \<Longrightarrow> post (decode_text st addr s) I"
  unfolding decode_text_def Let_def by (intro inv_rules | simp only: prod.case | (simp; fail))+

lemma print_table_line_keeps [inv_rules]: "I s \<Longrightarrow> post (print_table_line n addr s) (\<lambda>(x, t). I t)"
  by (induction n arbitrary: addr s)
    (simp, subst print_table_line.simps, (intro inv_rules | simp only: prod.case | (simp; fail))+)

lemma print_form_loop_keeps [inv_rules]: "I s \<Longrightarrow> post (print_form_loop first addr s) I"
  unfolding post_okay
proof (intro allI impI)
  fix r
  assume "print_form_loop first addr s = Some r" and "I s"
  then show "okay I r"
  proof (rule print_form_loop.raw_induct [where P = "\<lambda>first addr s r. I s \<longrightarrow> okay I r", THEN mp, rotated 1], goal_cases)
    case (1 f first addr s r)
    have rec [inv_rules]: "post (f first addr s) I" if "I s" for first addr s
      using 1(1) that by (auto simp: post_okay)
    show ?case
      by (rule impI, rule okayD [OF _ 1(2)])
        (intro inv_rules | simp only: prod.case | (simp; fail))+
  qed
qed

lemma print_object_keeps [inv_rules]: "I s \<Longrightarrow> post (print_object obj s) I"
  unfolding print_object_def by (intro inv_rules | simp only: prod.case | (simp; fail))+

lemma printing_keeps [inv_rules]:
  "I s \<Longrightarrow> post (z_new_line s) I" "I s \<Longrightarrow> post (z_print s) I" "I s \<Longrightarrow> post (z_print_addr s) I"
  "I s \<Longrightarrow> post (z_print_char s) I" "I s \<Longrightarrow> post (z_print_form s) I" "I s \<Longrightarrow> post (z_print_obj s) I"
  "I s \<Longrightarrow> post (z_print_paddr s) I" "I s \<Longrightarrow> post (z_print_ret s) I" "I s \<Longrightarrow> post (z_print_unicode s) I"
  "I s \<Longrightarrow> post (z_check_unicode s) I" "I s \<Longrightarrow> post (z_encode_text s) I" "I s \<Longrightarrow> post (z_print_num s) I"
  unfolding z_new_line_def z_print_def z_print_addr_def z_print_char_def z_print_form_def z_print_obj_def
    z_print_paddr_def z_print_ret_def z_print_unicode_def z_check_unicode_def z_encode_text_def z_print_num_def
  by (intro inv_rules | simp only: prod.case | (simp; fail))+

lemma lookup_text_keeps [inv_rules]: "I s \<Longrightarrow> post (lookup_text padding dct s) (\<lambda>(x, t). I t)"
  unfolding lookup_text_def by (intro inv_rules | simp only: prod.case | (simp; fail))+

lemma tokenise_text_keeps [inv_rules]: "I s \<Longrightarrow> post (tokenise_text text len from parse dct flag s) I"
  unfolding tokenise_text_def by (intro inv_rules | simp only: prod.case | (simp; fail))+

lemma tokenise_loop_keeps [inv_rules]: "I s \<Longrightarrow> post (tokenise_loop tx tok dct flag len addr1 addr2 s) I"
  unfolding post_okay
proof (intro allI impI)
  fix r
  assume "tokenise_loop tx tok dct flag len addr1 addr2 s = Some r" and "I s"
  then show "okay I r"
  proof (rule tokenise_loop.raw_induct [where P = "\<lambda>tx tok dct flag len addr1 addr2 s r. I s \<longrightarrow> okay I r", THEN mp, rotated 1], goal_cases)
    case (1 f tx tok dct flag len addr1 addr2 s r)
    have rec [inv_rules]: "post (f tx tok dct flag len addr1 addr2 s) I" if "I s" for tx tok dct flag len addr1 addr2 s
      using 1(1) that by (auto simp: post_okay)
    show ?case
      by (rule impI, rule okayD [OF _ 1(2)])
        (intro inv_rules | simp only: prod.case | (simp; fail))+
  qed
qed

lemma tokenise_line_keeps [inv_rules]: "I s \<Longrightarrow> post (tokenise_line text token dct flag s) I"
  unfolding tokenise_line_def by (intro inv_rules | simp only: prod.case | (simp; fail))+

lemma z_tokenise_keeps [inv_rules]: "I s \<Longrightarrow> post (z_tokenise s) I"
  unfolding z_tokenise_def by (intro inv_rules | simp only: prod.case | (simp; fail))+

end

end
