(* ===== verification/Invariant_Objects.thy ===== *)
theory Invariant_Objects
  imports Invariant_Text
begin

text \<open>
  The object opcodes (object.c) and those of fastmem.c other than saving and restoring a file keep
  every invariant.
\<close>

context state_invariant
begin

subsection \<open>Objects\<close>

lemma link_write_keeps [inv_rules]: "I s \<Longrightarrow> post (link_write addr v s) I"
  unfolding link_write_def by (intro inv_rules | simp only: prod.case | (simp; fail))+

lemma sibling_loop_keeps [inv_rules]: "I s \<Longrightarrow> post (sibling_loop obj younger s) (\<lambda>(x, t). I t)"
  unfolding post_okay
proof (intro allI impI)
  fix r
  assume "sibling_loop obj younger s = Some r" and "I s"
  then show "okay (\<lambda>(x, t). I t) r"
  proof (rule sibling_loop.raw_induct [where P = "\<lambda>obj younger s r. I s \<longrightarrow> okay (\<lambda>(x, t). I t) r",
        THEN mp, rotated 1], goal_cases)
    case (1 f obj younger s r)
    have rec [inv_rules]: "post (f obj younger s) (\<lambda>(x, t). I t)" if "I s" for obj younger s
      using 1(1) that by (auto simp: post_okay)
    show ?case
      by (rule impI, rule okayD [OF _ 1(2)])
        (intro inv_rules | simp only: prod.case | (simp; fail))+
  qed
qed

lemma unlink_keeps [inv_rules]: "I s \<Longrightarrow> post (unlink_object obj s) I"
  unfolding unlink_object_def by (intro inv_rules | simp only: prod.case | (simp; fail))+

lemma monitor_keeps [inv_rules]: "I s \<Longrightarrow> (\<And>t. I t \<Longrightarrow> post (note_fn t) I) \<Longrightarrow> post (monitor flag note_fn s) I"
  unfolding monitor_def by (intro inv_rules | simp only: prod.case | (simp; fail))+

lemma notes_keep [inv_rules]:
  "I s \<Longrightarrow> post (note_object t obj s) I" "I s \<Longrightarrow> post (note_objects t obj1 obj2 s) I"
  "I s \<Longrightarrow> post (note_attr t obj attr s) I"
  unfolding note_object_def note_objects_def note_attr_def
  by (intro inv_rules | simp only: prod.case | (simp; fail))+

lemma tree_opcodes_keep [inv_rules]:
  "I s \<Longrightarrow> post (z_insert_obj s) I" "I s \<Longrightarrow> post (z_remove_obj s) I" "I s \<Longrightarrow> post (z_jin s) I"
  "I s \<Longrightarrow> post (z_get_child s) I" "I s \<Longrightarrow> post (z_get_parent s) I" "I s \<Longrightarrow> post (z_get_sibling s) I"
  unfolding z_insert_obj_def z_remove_obj_def z_jin_def z_get_child_def z_get_parent_def z_get_sibling_def
  by (intro inv_rules | simp only: prod.case | (simp; fail))+

lemma attribute_opcodes_keep [inv_rules]:
  "I s \<Longrightarrow> post (z_clear_attr s) I" "I s \<Longrightarrow> post (z_set_attr s) I" "I s \<Longrightarrow> post (z_test_attr s) I"
  unfolding z_clear_attr_def z_set_attr_def z_test_attr_def check_attr_def
  by (intro inv_rules | simp only: prod.case | (simp; fail))+

lemma first_property_keeps [inv_rules]: "I s \<Longrightarrow> post (first_property obj s) (\<lambda>(x, t). I t)"
  unfolding first_property_def by (intro inv_rules | simp only: prod.case | (simp; fail))+

lemma property_opcodes_keep [inv_rules]:
  "I s \<Longrightarrow> post (z_get_next_prop s) I" "I s \<Longrightarrow> post (z_get_prop s) I" "I s \<Longrightarrow> post (z_get_prop_addr s) I"
  "I s \<Longrightarrow> post (z_get_prop_len s) I" "I s \<Longrightarrow> post (z_put_prop s) I"
  unfolding z_get_next_prop_def z_get_prop_def z_get_prop_addr_def z_get_prop_len_def z_put_prop_def
  by (intro inv_rules | simp only: prod.case | (simp; fail))+

subsection \<open>Memory\<close>

lemma extension_keeps [inv_rules]: "I s \<Longrightarrow> post (set_header_extension e v s) I"
  unfolding set_header_extension_def by (intro inv_rules | simp only: prod.case | (simp; fail))+

lemma user_name_keeps [inv_rules]: "I s \<Longrightarrow> post (store_user_name js s) I"
  by (induction js arbitrary: s)
    (simp, subst store_user_name.simps, (intro inv_rules | simp only: prod.case | (simp; fail))+)

lemma restart_header_keeps [inv_rules]: "I s \<Longrightarrow> post (restart_header s) I"
  unfolding restart_header_def by (intro inv_rules | simp only: prod.case | (simp; fail))+

lemma read_story_keeps [inv_rules]: "I s \<Longrightarrow> post (read_story pos n s) I"
  unfolding read_story_def by (intro inv_rules | simp only: prod.case | (simp; fail))+

lemma undo_opcodes_keep [inv_rules]: "I s \<Longrightarrow> post (z_save_undo s) I" "I s \<Longrightarrow> post (z_restore_undo s) I"
  unfolding z_save_undo_def z_restore_undo_def
  by (intro inv_rules saving restoring | simp only: prod.case | (simp; fail))+

lemma z_restart_keeps [inv_rules]: "(\<And>t. I t \<Longrightarrow> post (R t) I) \<Longrightarrow> I s \<Longrightarrow> post (z_restart R s) I"
  unfolding z_restart_def by (intro inv_rules | simp only: prod.case | (simp; fail))+

lemma z_verify_keeps [inv_rules]: "I s \<Longrightarrow> post (z_verify s) I"
  unfolding z_verify_def by (intro inv_rules | simp only: prod.case | (simp; fail))+

end

end
