(* ===== verification/Invariant_Save.thy ===== *)
theory Invariant_Save
  imports Invariant_Objects
begin

text \<open>
  Saving and restoring a file (quetzal.c, fastmem.c) keep every invariant, however far they come. A part
  of such a function either leaves with a result or goes on; both carry the state in the last place.
\<close>

lemma post_early [simp]:
  "post (go_on x) (case_sum A B) \<longleftrightarrow> B x"
  "post (leave r) (case_sum A B) \<longleftrightarrow> A r"
  by (simp_all add: go_on_def leave_def)

lemma post_proceed:
  "post m (case_sum A B) \<Longrightarrow> (\<And>x. B x \<Longrightarrow> post (f x) (case_sum A C)) \<Longrightarrow> post (proceed m f) (case_sum A C)"
  unfolding proceed_def post_andthen by (erule post_mono) (auto split: sum.splits)

lemma post_proceed_step:
  "post m (case_sum A B) \<Longrightarrow> (\<And>x. m = go_on x \<Longrightarrow> B x \<Longrightarrow> post (f x) (case_sum A C)) \<Longrightarrow>
    post (proceed m f) (case_sum A C)"
  unfolding proceed_def post_andthen
  by (rule postI, rename_tac r, case_tac r) (auto dest: postD simp: go_on_def)

lemma post_finish [inv_rules]: "post m (case_sum A A) \<Longrightarrow> post (finish m) A"
  unfolding finish_def post_andthen by (erule post_mono) (auto split: sum.splits)

lemma post_needs [inv_rules]:
  fixes p :: "('a \<times> cfile) option" and b :: "zbyte option"
  shows "A r \<Longrightarrow> (\<And>x f. post (g (x, f)) (case_sum A B)) \<Longrightarrow> post (need p r g) (case_sum A B)"
    and "A r \<Longrightarrow> (\<And>x. post (h x) (case_sum A B)) \<Longrightarrow> post (need b r h) (case_sum A B)"
  by (auto simp: need_def split: option.split)

lemma early_reads [inv_rules]:
  fixes m1 :: "('r, cfile) early" and m2 :: "('r, zbyte \<times> cfile) early"
  shows "post m1 (case_sum A (\<lambda>x. True)) \<Longrightarrow> (\<And>f. post (f1 f) (case_sum A C)) \<Longrightarrow>
      post (proceed m1 f1) (case_sum A C)"
    and "post m2 (case_sum A (\<lambda>x. True)) \<Longrightarrow> (\<And>b f. post (f2 (b, f)) (case_sum A C)) \<Longrightarrow>
      post (proceed m2 f2) (case_sum A C)"
  by (auto elim!: post_proceed)

lemmas post_file_cases [inv_rules] =
  post_case [where p = p and f = f for p :: "zbyte \<times> cfile" and f]
  post_case [where p = p and f = f for p :: "zword \<times> cfile" and f]
  post_case [where p = p and f = f for p :: "int \<times> cfile" and f]
  post_case [where p = p and f = f for p :: "32 word \<times> cfile" and f]

lemmas post_file_lets [inv_rules] =
  post_let [where a = a and f = f for a :: cfile and f]
  post_let [where a = a and f = f for a :: "zword list" and f]

context state_invariant
begin

lemma early_steps [inv_rules]:
  fixes m2 :: "('r, 'a \<times> zstate) early" and m3 :: "('r, 'a \<times> 'b \<times> zstate) early"
    and m4 :: "('r, 'a \<times> 'b \<times> 'c \<times> zstate) early" and m5 :: "('r, 'a \<times> 'b \<times> 'c \<times> 'd \<times> zstate) early"
  shows "post m2 (case_sum A (\<lambda>(x, t). I t)) \<Longrightarrow> (\<And>x s. I s \<Longrightarrow> post (f2 (x, s)) (case_sum A C)) \<Longrightarrow>
      post (proceed m2 f2) (case_sum A C)"
    and "post m3 (case_sum A (\<lambda>(x, y, t). I t)) \<Longrightarrow>
      (\<And>x y s. I s \<Longrightarrow> post (f3 (x, y, s)) (case_sum A C)) \<Longrightarrow> post (proceed m3 f3) (case_sum A C)"
    and "post m4 (case_sum A (\<lambda>(x, y, z, t). I t)) \<Longrightarrow>
      (\<And>x y z s. I s \<Longrightarrow> post (f4 (x, y, z, s)) (case_sum A C)) \<Longrightarrow> post (proceed m4 f4) (case_sum A C)"
    and "post m5 (case_sum A (\<lambda>(x, y, z, w, t). I t)) \<Longrightarrow>
      (\<And>x y z w s. I s \<Longrightarrow> post (f5 (x, y, z, w, s)) (case_sum A C)) \<Longrightarrow> post (proceed m5 f5) (case_sum A C)"
  by (auto elim!: post_proceed)

abbreviation stays :: "('v \<times> zstate, 'a) early \<Rightarrow> ('a \<Rightarrow> bool) \<Rightarrow> bool" where
  "stays m B \<equiv> post m (case_sum (\<lambda>(x, t). I t) B)"

subsection \<open>Restoring\<close>

lemma complain_keeps [inv_rules]: "I s \<Longrightarrow> post (complain t s) I"
  unfolding complain_def by (intro inv_rules)

lemma check_serial_stays [inv_rules]: "I s \<Longrightarrow> stays (check_serial js progress fatal f s) (\<lambda>x. True)"
  by (induction js arbitrary: progress f)
    (simp, subst check_serial.simps, (intro inv_rules | simp only: prod.case | (simp; fail))+)

lemma ifhd_stays [inv_rules]: "I s \<Longrightarrow> stays (ifhd_chunk currlen progress fatal f s) (\<lambda>(x, y, z, t). I t)"
  unfolding ifhd_chunk_def by (intro inv_rules | simp only: prod.case | (simp; fail))+

lemma pull_words_stays [inv_rules]: "I s \<Longrightarrow> stays (pull_words n fatal f s) (\<lambda>(x, t). I t)"
  by (induction n arbitrary: f s)
    (simp, subst pull_words.simps, (intro inv_rules | simp only: prod.case | (simp; fail))+)

lemma too_much_stack_stays [inv_rules]: "I s \<Longrightarrow> stays (too_much_stack fatal s) B"
  unfolding too_much_stack_def by (intro inv_rules | simp only: prod.case | (simp; fail))+

lemma six_zeros_stays [inv_rules]: "I s \<Longrightarrow> stays (six_zeros n fatal f s) (\<lambda>x. True)"
  by (induction n arbitrary: f)
    (simp, subst six_zeros.simps, (intro inv_rules | simp only: prod.case | (simp; fail))+)

lemma base_stack_stays [inv_rules]: "I s \<Longrightarrow> stays (base_stack currlen fatal f s) (\<lambda>(x, y, t). I t)"
  unfolding base_stack_def by (intro inv_rules | simp only: prod.case | (simp; fail))+

lemma frame_head_stays [inv_rules]: "I s \<Longrightarrow> stays (frame_head fatal f s) (\<lambda>(x, y, z, w, t). I t)"
  unfolding frame_head_def by (intro inv_rules | simp only: prod.case | (simp; fail))+

lemma restore_frame_stays [inv_rules]: "I s \<Longrightarrow> stays (restore_frame currlen fatal f s) (\<lambda>(x, y, t). I t)"
  unfolding restore_frame_def by (intro inv_rules | simp only: prod.case | (simp; fail))+

lemma restore_frames_stays [inv_rules]: "I s \<Longrightarrow> stays (restore_frames currlen fatal f s) (\<lambda>(x, t). I t)"
proof (induction currlen fatal f s rule: restore_frames.induct)
  case (1 currlen fatal f s)
  show ?case
    by (subst restore_frames.simps, rule post_if_rule, rule post_proceed_step [OF restore_frame_stays [OF 1(2)]])
      (auto simp: 1)
qed

lemma stks_stays [inv_rules]: "I s \<Longrightarrow> stays (stks_chunk currlen progress fatal f s) (\<lambda>(x, y, z, t). I t)"
  unfolding stks_chunk_def by (intro inv_rules | simp only: prod.case | (simp; fail))+

lemma story_run_stays [inv_rules]: "I s \<Longrightarrow> stays (story_run n i k fatal s) (\<lambda>(x, y, t). I t)"
  by (induction n arbitrary: i k s)
    (simp, subst story_run.simps, (intro inv_rules | simp only: prod.case | (simp; fail))+)

lemma cmem_long_stays [inv_rules]: "I s \<Longrightarrow> stays (cmem_long n i k f s) (\<lambda>(x, y, z, w, t). I t)"
  unfolding cmem_long_def by (intro inv_rules | simp only: prod.case | (simp; fail))+

lemma post_nat_rule [inv_rules]: "post a Q \<Longrightarrow> (\<And>m. n = Suc m \<Longrightarrow> post (b m) Q) \<Longrightarrow> post (case n of 0 \<Rightarrow> a | Suc m \<Rightarrow> b m) Q"
  by (simp split: nat.split)

lemma cmem_loop_stays [inv_rules]: "I s \<Longrightarrow> stays (cmem_loop n i k fatal f s) (\<lambda>(x, y, z, w, t). I t)"
proof (induction n arbitrary: i k f s rule: less_induct)
  case (less n)
  show ?case
  proof (cases n)
    case 0
    with less show ?thesis by simp
  next
    case (Suc n')
    have rec [inv_rules]: "I s \<Longrightarrow> m \<le> n' \<Longrightarrow> stays (cmem_loop m i k fatal f s) (\<lambda>(x, y, z, w, t). I t)"
      for m i k f s
      using less(1) [of m] Suc by simp
    show ?thesis
      unfolding Suc using less(2) by - (subst cmem_loop.simps, (intro inv_rules | simp only: prod.case | (simp; fail))+)
  qed
qed

lemma cmem_stays [inv_rules]: "I s \<Longrightarrow> stays (cmem_chunk currlen progress fatal f s) (\<lambda>(x, y, t). I t)"
  unfolding cmem_chunk_def by (intro inv_rules | simp only: prod.case | (simp; fail))+

lemma put_mem_keeps [inv_rules]: "I s \<Longrightarrow> post (put_mem a bs s) I"
  by (induction bs arbitrary: a s)
    (simp, subst put_mem.simps, (intro inv_rules | simp only: prod.case | (simp; fail))+)

lemma umem_stays [inv_rules]: "I s \<Longrightarrow> stays (umem_chunk currlen progress f s) (\<lambda>(x, y, t). I t)"
  unfolding umem_chunk_def by (intro inv_rules | simp only: prod.case | (simp; fail))+

lemma one_chunk_stays [inv_rules]: "I s \<Longrightarrow> stays (one_chunk tmpl currlen progress fatal f s) (\<lambda>(x, y, z, t). I t)"
  unfolding one_chunk_def by (intro inv_rules | simp only: prod.case | (simp; fail))+

lemma restore_chunks_stays [inv_rules]: "I s \<Longrightarrow> stays (restore_chunks len progress fatal f s) (\<lambda>(x, y, t). I t)"
  unfolding post_okay
proof (intro allI impI)
  fix r
  assume "restore_chunks len progress fatal f s = Some r" and "I s"
  then show "okay (case_sum (\<lambda>(x, t). I t) (\<lambda>(x, y, t). I t)) r"
  proof (rule restore_chunks.raw_induct [where P = "\<lambda>len progress fatal f s r.
        I s \<longrightarrow> okay (case_sum (\<lambda>(x, t). I t) (\<lambda>(x, y, t). I t)) r", THEN mp, rotated 1], goal_cases)
    case (1 g len progress fatal f s r)
    have rec [inv_rules]: "stays (g len progress fatal f s) (\<lambda>(x, y, t). I t)"
      if "I s" for len progress fatal f s
      using 1(1) that by (auto simp: post_okay)
    show ?case
      by (rule impI, rule okayD [OF _ 1(2)])
        (intro inv_rules | simp only: prod.case | (simp; fail))+
  qed
qed

lemma restore_result_keeps [inv_rules]: "I s \<Longrightarrow> post (restore_result progress fatal s) (\<lambda>(x, t). I t)"
  unfolding restore_result_def by (intro inv_rules | simp only: prod.case | (simp; fail))+

lemma restore_quetzal_keeps [inv_rules]: "I s \<Longrightarrow> post (restore_quetzal f s) (\<lambda>(x, t). I t)"
  unfolding restore_quetzal_def by (intro inv_rules | simp only: prod.case | (simp; fail))+

subsection \<open>Saving\<close>

lemma files_keep [simp, inv_rules]:
  "I s \<Longrightarrow> I (snd (snd (put_c b f s)))" "I s \<Longrightarrow> I (snd (snd (put_bytes bs f s)))"
  "I s \<Longrightarrow> I (snd (put_all bs f s))" "I s \<Longrightarrow> I (snd (open_read name s))" "I s \<Longrightarrow> I (snd (open_write name s))"
  "I s \<Longrightarrow> I (close_write name f s)"
proof -
  show c: "I s \<Longrightarrow> I (snd (snd (put_c b f s)))" for b f s
    by (simp add: put_c_def split: prod.split) (metis ask_keeps snd_conv)
  show "I s \<Longrightarrow> I (snd (snd (put_bytes bs f s)))"
    using c by (induction bs arbitrary: f s) (simp_all add: case_prod_beta c)
  show "I s \<Longrightarrow> I (snd (put_all bs f s))"
    using c by (induction bs arbitrary: f s) (simp_all add: case_prod_beta c)
  show "I s \<Longrightarrow> I (snd (open_read name s))"
    by (simp add: open_read_def case_prod_beta)
  have store: "I s \<Longrightarrow> I (store_file name bs s)" for bs s
    by (simp add: store_file_def Let_def)
  then show "I s \<Longrightarrow> I (snd (open_write name s))"
    by (simp add: open_write_def case_prod_beta)
  show "I s \<Longrightarrow> I (close_write name f s)"
    by (simp add: close_write_def store)
qed

abbreviation writes :: "('v \<times> 'w \<times> zstate, 'a) early \<Rightarrow> ('a \<Rightarrow> bool) \<Rightarrow> bool" where
  "writes m B \<equiv> post m (case_sum (\<lambda>(x, y, t). I t) B)"

lemma wr_writes [inv_rules]: "I s \<Longrightarrow> writes (wr bs f s) (\<lambda>(x, t). I t)"
  unfolding wr_def by (intro inv_rules | simp only: prod.case | (simp; fail))+

lemma tell_writes [inv_rules]: "I s \<Longrightarrow> writes (tell f s) (\<lambda>(x, t). I t)"
  unfolding tell_def by (intro inv_rules | simp only: prod.case | (simp; fail))+

lemma save_cmem_keeps [inv_rules]: "I s \<Longrightarrow> writes (save_cmem js j n f s) (\<lambda>(x, y, t). I t)"
  by (induction js arbitrary: j n f s)
    (simp, subst save_cmem.simps, (intro inv_rules | simp only: prod.case | (simp; fail))+)

lemma save_base_keeps [inv_rules]: "I s \<Longrightarrow> writes (save_base j low f s) (\<lambda>(x, t). I t)"
proof (induction j low f s rule: save_base.induct)
  case (1 j low f s)
  show ?case
    by (subst save_base.simps, rule post_if_rule, unfold post_andthen, rule postI,
        rule post_proceed_step [OF wr_writes [OF 1(2)]]) (auto simp: 1)
qed

lemma save_words_keeps [inv_rules]: "I s \<Longrightarrow> writes (save_words n p f s) (\<lambda>(x, t). I t)"
  by (induction n arbitrary: p f s)
    (simp, subst save_words.simps, (intro inv_rules | simp only: prod.case | (simp; fail))+)

lemma save_frame_keeps [inv_rules]: "I s \<Longrightarrow> writes (save_frame fi fi1 n f s) (\<lambda>(x, y, t). I t)"
  unfolding save_frame_def by (intro inv_rules | simp only: prod.case | (simp; fail))+

lemma save_frames_keeps [inv_rules]: "I s \<Longrightarrow> writes (save_frames fs n f s) (\<lambda>(x, y, t). I t)"
  by (induction fs arbitrary: n f s rule: induct_list012)
    (simp, simp, subst save_frames.simps, (intro inv_rules | simp only: prod.case | (simp; fail))+)

lemma save_stks_keeps [inv_rules]: "I s \<Longrightarrow> writes (save_stks f s) (\<lambda>(x, y, t). I t)"
  unfolding save_stks_def by (intro inv_rules | simp only: prod.case | (simp; fail))+

lemma save_serial_keeps [inv_rules]: "I s \<Longrightarrow> writes (save_serial js f s) (\<lambda>(x, t). I t)"
  by (induction js arbitrary: f s)
    (simp, subst save_serial.simps, (intro inv_rules | simp only: prod.case | (simp; fail))+)

lemma save_header_keeps [inv_rules]: "I s \<Longrightarrow> writes (save_header f s) (\<lambda>(x, t). I t)"
  unfolding save_header_def by (intro inv_rules | simp only: prod.case | (simp; fail))+

lemma patch_long_writes [inv_rules]: "I s \<Longrightarrow> writes (patch_long n l f s) (\<lambda>(x, t). I t)"
  unfolding patch_long_def by (intro inv_rules | simp only: prod.case | (simp; fail))+

lemma save_quetzal_keeps [inv_rules]: "I s \<Longrightarrow> post (save_quetzal_file f s) (\<lambda>(x, y, t). I t)"
  unfolding save_quetzal_file_def by (intro inv_rules | simp only: prod.case | (simp; fail))+

subsection \<open>The opcodes\<close>

lemma save_result_keeps [inv_rules]: "I s \<Longrightarrow> post (save_result v s) I"
  unfolding save_result_def by (intro inv_rules | simp only: prod.case | (simp; fail))+

lemma post_pair [inv_rules]: "I (snd p) \<Longrightarrow> post (Ok p) (\<lambda>(x, t). I t)"
  by (simp add: case_prod_beta)

lemma save_old_keeps [inv_rules]: "I s \<Longrightarrow> post (save_old f s) (\<lambda>(x, t). I t)"
  unfolding save_old_def by (intro inv_rules | simp only: prod.case | (simp; fail))+

lemma save_parts_keep [inv_rules]:
  "I s \<Longrightarrow> post (save_area s) (\<lambda>(x, t). I t)" "I s \<Longrightarrow> post (save_game s) (\<lambda>(x, t). I t)"
  unfolding save_area_def save_game_def by (intro inv_rules | simp only: prod.case | (simp; fail))+

lemma z_save_keeps [inv_rules]: "I s \<Longrightarrow> post (z_save s) I"
  unfolding z_save_def by (intro inv_rules | simp only: prod.case | (simp; fail))+

end

end
