(* ===== verification/Invariant_Screen.thy ===== *)
theory Invariant_Screen
  imports Invariant_Save
begin

text \<open>The functions of screen.c keep every invariant.\<close>

lemmas post_screen_lets [inv_rules] =
  post_let [where a = a and f = f for a :: "zchar list" and f]

context state_invariant
begin

lemma pure_triples [inv_rules]:
  fixes p3 :: "'a \<times> 'b \<times> zstate" and p4 :: "'a \<times> 'b \<times> 'c \<times> zstate"
  shows "I (snd (snd p3)) \<Longrightarrow> (\<And>x y t. I t \<Longrightarrow> I (g3 x y t)) \<Longrightarrow> I (case p3 of (x, y, t) \<Rightarrow> g3 x y t)"
    and "I (snd (snd (snd p4))) \<Longrightarrow> (\<And>x y z t. I t \<Longrightarrow> I (g4 x y z t)) \<Longrightarrow> I (case p4 of (x, y, z, t) \<Rightarrow> g4 x y z t)"
  by (auto split: prod.splits)

subsection \<open>Functions that cannot fail\<close>

lemma ask_fixed: "ask s = (a, t) \<Longrightarrow> I s \<Longrightarrow> I t"
  using ask_keeps [of s] by simp

lemma screen_pure [simp]:
  assumes "I s"
  shows "I (set_more_prompts b s)" "I (screen_write_input cs key s)" "I (screen_erase_input cs s)"
    "I (update_attributes s)" "I (window_colour w s)" "I (clear_line_counts s)" "I (resize_screen s)"
    "I (snd (font_data s))" "I (snd (snd (snd (picture_data s))))" "I (snd (peek_colour c s))"
  using assms
  by (auto simp: set_more_prompts_def screen_write_input_def screen_erase_input_def update_attributes_def
      window_colour_def clear_line_counts_def resize_screen_def font_data_def picture_data_def peek_colour_def
      Let_def ask_fixed split: prod.split dest: ask_fixed)

lemma draw_parts_keeps [simp]: "I s \<Longrightarrow> I (draw_parts ms pic y x s)"
proof (induction ms arbitrary: s)
  case (Cons m ms)
  have "I (snd (snd (snd (picture_data t))))" if "I t" for t
    using that by simp
  with Cons show ?case
    by (cases m) (auto simp: Let_def case_prod_beta)
qed simp

lemma picture_parts_keeps [simp]: "I s \<Longrightarrow> I (snd (snd (picture_parts ms pic a h s)))"
  by (induction ms arbitrary: a h s) (auto simp: Let_def case_prod_beta)

subsection \<open>Windows\<close>

lemma window_args_keep [inv_rules]:
  "I s \<Longrightarrow> post (winarg0 s) (\<lambda>(x, t). I t)" "I s \<Longrightarrow> post (winarg2 s) (\<lambda>(x, t). I t)"
  unfolding winarg0_def winarg2_def by (intro inv_rules | simp only: prod.case | (simp; fail))+

lemma window_index_keeps [inv_rules]: "post m (\<lambda>(x, t). I t) \<Longrightarrow> post (window_index m) (\<lambda>(x, t). I t)"
  unfolding window_index_def by (intro inv_rules | simp only: prod.case | assumption | (simp; fail))+

lemma reset_cursor_keeps [inv_rules]: "I s \<Longrightarrow> post (reset_cursor w s) I"
  unfolding reset_cursor_def by (intro inv_rules | simp only: prod.case | (simp; fail))+

lemma set_window_keeps [inv_rules]: "I s \<Longrightarrow> post (set_window w s) I"
  unfolding set_window_def by (intro inv_rules | simp only: prod.case | (simp; fail))+

lemma erase_window_keeps [inv_rules]: "I s \<Longrightarrow> post (erase_window w s) I"
  unfolding erase_window_def by (intro inv_rules | simp only: prod.case | (simp; fail))+

lemma split_window_keeps [inv_rules]: "I s \<Longrightarrow> post (split_window h s) I"
  unfolding split_window_def by (intro inv_rules | simp only: prod.case | (simp; fail))+

lemma erase_screen_keeps [inv_rules]: "I s \<Longrightarrow> post (erase_screen w s) I"
  unfolding erase_screen_def by (intro inv_rules | simp only: prod.case | (simp; fail))+

lemma restart_screen_keeps [inv_rules]: "I s \<Longrightarrow> post (restart_screen s) I"
  unfolding restart_screen_def by (intro inv_rules | simp only: prod.case | (simp; fail))+

subsection \<open>The mouse and the keyboard\<close>

lemma validate_click_keeps [inv_rules]: "I s \<Longrightarrow> post (validate_click s) (\<lambda>(x, t). I t)"
  unfolding validate_click_def by (intro inv_rules | simp only: prod.case option.case | (simp; fail))+

lemma Ok_inside: "Ok (Let a f) = Let a (\<lambda>x. Ok (f x))" "Ok (case p of (x, y) \<Rightarrow> g x y) = (case p of (x, y) \<Rightarrow> Ok (g x y))"
  by (simp_all split: prod.split)

lemma console_keeps [inv_rules]:
  "I s \<Longrightarrow> post (Ok (console_read_input n buf tm c s)) (\<lambda>(x, y, t). I t)"
  "I s \<Longrightarrow> post (Ok (console_read_key tm s)) (\<lambda>(x, t). I t)"
  unfolding console_read_input_def console_read_key_def Ok_inside
  by (intro inv_rules | simp only: prod.case | (simp; fail))+

lemma post_state [inv_rules]: "I t \<Longrightarrow> post (Ok t) I"
  by simp

subsection \<open>Opcodes\<close>

lemma repeat_char_keeps [simp]: "I s \<Longrightarrow> I ((screen_char c ^^ n) s)"
  by (induction n) simp_all

lemma window_opcodes_keep [inv_rules]:
  "I s \<Longrightarrow> post (z_mouse_window s) I" "I s \<Longrightarrow> post (z_buffer_mode s) I" "I s \<Longrightarrow> post (z_erase_line s) I"
  "I s \<Longrightarrow> post (z_erase_window s) I" "I s \<Longrightarrow> post (z_get_cursor s) I" "I s \<Longrightarrow> post (z_get_wind_prop s) I"
  "I s \<Longrightarrow> post (z_put_wind_prop s) I" "I s \<Longrightarrow> post (z_move_window s) I" "I s \<Longrightarrow> post (z_scroll_window s) I"
  unfolding z_mouse_window_def z_buffer_mode_def z_erase_line_def z_erase_window_def z_get_cursor_def
    z_get_wind_prop_def z_put_wind_prop_def z_move_window_def z_scroll_window_def
  by (intro inv_rules | simp only: prod.case | (simp; fail))+

lemma style_opcodes_keep [inv_rules]:
  "I s \<Longrightarrow> post (z_set_colour s) I" "I s \<Longrightarrow> post (z_set_font s) I" "I s \<Longrightarrow> post (z_set_cursor s) I"
  "I s \<Longrightarrow> post (z_set_margins s) I" "I s \<Longrightarrow> post (z_set_text_style s) I" "I s \<Longrightarrow> post (z_set_window s) I"
  "I s \<Longrightarrow> post (z_split_window s) I" "I s \<Longrightarrow> post (z_window_size s) I" "I s \<Longrightarrow> post (z_window_style s) I"
  unfolding z_set_colour_def z_set_font_def z_set_cursor_def z_set_margins_def z_set_text_style_def
    z_set_window_def z_split_window_def z_window_size_def z_window_style_def
  by (intro inv_rules | simp only: prod.case | (simp; fail))+

lemma picture_opcodes_keep [inv_rules]:
  "I s \<Longrightarrow> post (z_draw_picture s) I" "I s \<Longrightarrow> post (z_erase_picture s) I" "I s \<Longrightarrow> post (z_picture_data s) I"
  "I s \<Longrightarrow> post (z_picture_table s) I"
  unfolding z_draw_picture_def z_erase_picture_def z_picture_data_def z_picture_table_def
  by (intro inv_rules | simp only: prod.case | (simp; fail))+

lemma table_line_keeps [inv_rules]: "I s \<Longrightarrow> post (table_line n addr s) (\<lambda>(x, t). I t)"
  by (induction n arbitrary: addr s)
    (simp, subst table_line.simps, (intro inv_rules | simp only: prod.case | (simp; fail))+)

lemma table_lines_keeps [inv_rules]: "I s \<Longrightarrow> post (table_lines n first x addr s) I"
  by (induction n arbitrary: first addr s)
    (simp, subst table_lines.simps, (intro inv_rules | simp only: prod.case | (simp; fail))+)

lemma print_table_keeps [inv_rules]: "I s \<Longrightarrow> post (z_print_table s) I"
  unfolding z_print_table_def by (intro inv_rules | simp only: prod.case | (simp; fail))+

lemma pad_keeps [inv_rules]: "I s \<Longrightarrow> post (pad_status_line column s) I"
  unfolding pad_status_line_def by (intro inv_rules | simp only: prod.case | (simp; fail))+

lemma status_keeps [inv_rules]:
  "I s \<Longrightarrow> post (print_num2 c n s) I" "I s \<Longrightarrow> post (print_time a b brief s) I"
  "I s \<Longrightarrow> post (print_score a b brief s) I" "I s \<Longrightarrow> post (z_show_status s) I"
  unfolding print_num2_def print_time_def print_score_def z_show_status_def
  by (intro inv_rules | simp only: prod.case | (simp; fail))+

end

end
