(* ===== verification/Invariant_Run.thy ===== *)
theory Invariant_Run
  imports Invariant_Screen
begin

text \<open>
  Input, hot keys, sound and the interpreter loop: an instruction keeps every invariant, and so do runs
  of the program, with the routines of timeouts that are started inside it.
\<close>

lemma table_lengths:
  "length (ext_opcodes interp) = 29" "length (op0_opcodes interp v) = 16" "length (op1_opcodes v) = 16"
  "length (var_opcodes interp) = 64"
  by (simp_all add: ext_opcodes_def op0_opcodes_def op1_opcodes_def var_opcodes_def)

lemma opcode_index [simp]:
  fixes b :: zbyte
  shows "unat (b AND 0x1f) < 64" "unat (b AND 0x0f) < 16"
    and "\<not> b < 0xb0 \<Longrightarrow> b < 0xc0 \<Longrightarrow> unat (b - 0xb0) < 16" "\<not> b < 0xc0 \<Longrightarrow> unat (b - 0xc0) < 64"
proof -
  have "b AND 0x1f \<le> 0x1f" "b AND 0x0f \<le> 0x0f"
    by (metis word_and_le1)+
  then show "unat (b AND 0x1f) < 64" "unat (b AND 0x0f) < 16"
    by (simp_all add: word_le_nat_alt)
  show "\<not> b < 0xb0 \<Longrightarrow> b < 0xc0 \<Longrightarrow> unat (b - 0xb0) < 16"
    by (simp add: word_less_nat_alt unat_sub word_le_nat_alt)
  show "\<not> b < 0xc0 \<Longrightarrow> unat (b - 0xc0) < 64"
    using unsigned_less [where 'a = nat, of b] by (simp add: word_less_nat_alt unat_sub word_le_nat_alt)
qed

context state_invariant
begin

subsection \<open>Command files and the transcript\<close>

lemma fold_keeps [simp]: "(\<And>x s. I s \<Longrightarrow> I (f x s)) \<Longrightarrow> I s \<Longrightarrow> I (fold f xs s)"
  by (induction xs arbitrary: s) simp_all

lemma script_input_keeps [inv_rules]: "I s \<Longrightarrow> post (script_write_input buf key s) I"
  unfolding script_write_input_def by (intro inv_rules | simp only: prod.case | (simp; fail))+

lemma rec_putc_keeps [simp]: "I s \<Longrightarrow> I (snd (rec_putc b s))"
  unfolding rec_putc_def by (auto simp: Let_def case_prod_beta)

lemma record_pure [simp]:
  "I s \<Longrightarrow> I (script_erase_input buf s)" "I s \<Longrightarrow> I (record_code c b s)" "I s \<Longrightarrow> I (record_end s)"
  "I s \<Longrightarrow> I (replay_close s)" "I s \<Longrightarrow> I (set_pfp f s)" "I s \<Longrightarrow> I (snd (replay_end key s))"
  unfolding script_erase_input_def record_code_def rec_bytes_def record_end_def replay_close_def set_pfp_def
    replay_end_def
  by (auto simp: Let_def case_prod_beta)

lemma record_char_keeps [inv_rules]: "I s \<Longrightarrow> post (record_char c s) I"
  unfolding record_char_def by (intro inv_rules | simp only: prod.case | (simp; fail))+

lemma record_chars_keeps [inv_rules]: "I s \<Longrightarrow> post (record_chars cs s) I"
  by (induction cs arbitrary: s)
    (simp, subst record_chars.simps, (intro inv_rules | simp only: prod.case | (simp; fail))+)

lemma record_keeps [inv_rules]:
  "I s \<Longrightarrow> post (record_write_key key s) I" "I s \<Longrightarrow> post (record_write_input buf key s) I"
  unfolding record_write_key_def record_write_input_def
  by (intro inv_rules | simp only: prod.case | (simp; fail))+

lemma replay_char_keeps [inv_rules]: "I s \<Longrightarrow> post (replay_char s) (\<lambda>(x, t). I t)"
  unfolding replay_char_def by (intro inv_rules | simp only: prod.case | (simp; fail))+

lemma replay_key_keeps [inv_rules]: "I s \<Longrightarrow> post (replay_read_key s) (\<lambda>(x, t). I t)"
  unfolding replay_read_key_def by (intro inv_rules | simp only: prod.case | (simp; fail))+

lemma replay_text_keeps [inv_rules]: "I s \<Longrightarrow> post (replay_text n i s) (\<lambda>(x, y, t). I t)"
  by (induction n arbitrary: i s)
    (subst replay_text.simps, (intro inv_rules | simp only: prod.case | (simp; fail))+)+

lemma replay_input_keeps [inv_rules]: "I s \<Longrightarrow> post (replay_read_input n s) (\<lambda>(x, y, t). I t)"
  unfolding replay_read_input_def by (intro inv_rules | simp only: prod.case | (simp; fail))+

subsection \<open>Keys and lines\<close>

lemma next_key_keeps [inv_rules]: "I s \<Longrightarrow> post (next_key tm s) (\<lambda>(x, t). I t)"
  unfolding post_okay
proof (intro allI impI)
  fix r
  assume "next_key tm s = Some r" and "I s"
  then show "okay (\<lambda>(x, t). I t) r"
  proof (rule next_key.raw_induct [where P = "\<lambda>tm s r. I s \<longrightarrow> okay (\<lambda>(x, t). I t) r",
        THEN mp, rotated 1], goal_cases)
    case (1 f tm s r)
    have rec [inv_rules]: "post (f tm s) (\<lambda>(x, t). I t)" if "I s" for tm s
      using 1(1) that by (auto simp: post_okay)
    show ?case
      by (rule impI, rule okayD [OF _ 1(2)])
        (intro inv_rules | simp only: prod.case | (simp; fail))+
  qed
qed

lemma next_line_input_keeps [inv_rules]: "I s \<Longrightarrow> post (next_line_input n m tm key buf s) (\<lambda>(x, y, t). I t)"
  unfolding post_okay
proof (intro allI impI)
  fix r
  assume "next_line_input n m tm key buf s = Some r" and "I s"
  then show "okay (\<lambda>(x, y, t). I t) r"
  proof (rule next_line_input.raw_induct [where P = "\<lambda>n m tm key buf s r. I s \<longrightarrow> okay (\<lambda>(x, y, t). I t) r",
        THEN mp, rotated 1], goal_cases)
    case (1 f n m tm key buf s r)
    have rec [inv_rules]: "post (f n m tm key buf s) (\<lambda>(x, y, t). I t)" if "I s" for n m tm key buf s
      using 1(1) that by (auto simp: post_okay)
    show ?case
      by (rule impI, rule okayD [OF _ 1(2)])
        (intro inv_rules | simp only: prod.case | (simp; fail))+
  qed
qed

lemma valid_key_keeps [inv_rules]: "I s \<Longrightarrow> post (valid_key key s) (\<lambda>(x, t). I t)"
  unfolding valid_key_def by (intro inv_rules | simp only: prod.case | (simp; fail))+

lemma call_keeps [inv_rules]: "(\<And>t. I t \<Longrightarrow> post (interp t) I) \<Longrightarrow> I s \<Longrightarrow> post (call interp r n args ct s) I"
  unfolding call_def by (intro inv_rules | simp only: prod.case | (simp; fail))+

lemma direct_call_keeps [inv_rules]: "(\<And>t. I t \<Longrightarrow> post (interp t) I) \<Longrightarrow> I s \<Longrightarrow> post (direct_call interp addr s) (\<lambda>(x, t). I t)"
  unfolding direct_call_def by (intro inv_rules | simp only: prod.case | (simp; fail))+

lemma timed_out_keeps [inv_rules]: "(\<And>t. I t \<Longrightarrow> post (interp t) I) \<Longrightarrow> I s \<Longrightarrow> post (timed_out interp routine key s) (\<lambda>(x, t). I t)"
  unfolding timed_out_def by (intro inv_rules | simp only: prod.case | (simp; fail))+

lemma read_key_loop_keeps [inv_rules]:
  assumes [inv_rules]: "\<And>k t. I t \<Longrightarrow> post (hk k t) (\<lambda>(x, t). I t)" "\<And>t. I t \<Longrightarrow> post (interp t) I"
    and "I s"
  shows "post (read_key_loop hk interp tm routine b s) (\<lambda>(x, t). I t)"
  unfolding post_okay
proof (intro allI impI)
  fix r
  assume "read_key_loop hk interp tm routine b s = Some r"
  then have "hk = hk \<longrightarrow> interp = interp \<longrightarrow> I s \<longrightarrow> okay (\<lambda>(x, t). I t) r"
  proof (rule read_key_loop.raw_induct [where
        P = "\<lambda>hk' interp' tm routine b s r. hk' = hk \<longrightarrow> interp' = interp \<longrightarrow> I s \<longrightarrow> okay (\<lambda>(x, t). I t) r", rotated 1], goal_cases)
    case (1 f hk' interp' tm routine b s r)
    have rec [inv_rules]: "post (f hk interp tm routine b s) (\<lambda>(x, t). I t)" if "I s" for tm routine b s
      using 1(1) that by (auto simp: post_okay)
    show ?case
    proof (intro impI)
      assume eq: "hk' = hk" "interp' = interp" and "I s"
      show "okay (\<lambda>(x, t). I t) r"
        by (rule okayD [OF _ 1(2) [unfolded eq]], insert \<open>I s\<close>)
          (intro inv_rules | simp only: prod.case | (simp; fail))+
    qed
  qed
  with \<open>I s\<close> show "okay (\<lambda>(x, t). I t) r"
    by blast
qed

lemma read_input_loop_keeps [inv_rules]:
  assumes [inv_rules]: "\<And>k t. I t \<Longrightarrow> post (hk k t) (\<lambda>(x, t). I t)" "\<And>t. I t \<Longrightarrow> post (interp t) I"
    and "I s"
  shows "post (read_input_loop hk interp n m tm routine b key buf s) (\<lambda>(x, y, t). I t)"
  unfolding post_okay
proof (intro allI impI)
  fix r
  assume "read_input_loop hk interp n m tm routine b key buf s = Some r"
  then have "hk = hk \<longrightarrow> interp = interp \<longrightarrow> I s \<longrightarrow> okay (\<lambda>(x, y, t). I t) r"
  proof (rule read_input_loop.raw_induct [where
        P = "\<lambda>hk' interp' n m tm routine b key buf s r. hk' = hk \<longrightarrow> interp' = interp \<longrightarrow> I s \<longrightarrow> okay (\<lambda>(x, y, t). I t) r", rotated 1], goal_cases)
    case (1 f hk' interp' n m tm routine b key buf s r)
    have rec [inv_rules]: "post (f hk interp n m tm routine b key buf s) (\<lambda>(x, y, t). I t)" if "I s" for n m tm routine b key buf s
      using 1(1) that by (auto simp: post_okay)
    show ?case
    proof (intro impI)
      assume eq: "hk' = hk" "interp' = interp" and "I s"
      show "okay (\<lambda>(x, y, t). I t) r"
        by (rule okayD [OF _ 1(2) [unfolded eq]], insert \<open>I s\<close>)
          (intro inv_rules | simp only: prod.case | (simp; fail))+
    qed
  qed
  with \<open>I s\<close> show "okay (\<lambda>(x, y, t). I t) r"
    by blast
qed

lemma streams_keep:
  "(\<And>k t. I t \<Longrightarrow> post (hk k t) (\<lambda>(x, t). I t)) \<Longrightarrow> (\<And>t. I t \<Longrightarrow> post (interp t) I) \<Longrightarrow> I s \<Longrightarrow> post (stream_read_key_h hk interp tm routine b s) (\<lambda>(x, t). I t)"
  "(\<And>k t. I t \<Longrightarrow> post (hk k t) (\<lambda>(x, t). I t)) \<Longrightarrow> (\<And>t. I t \<Longrightarrow> post (interp t) I) \<Longrightarrow> I s \<Longrightarrow> post (stream_read_input_h hk interp n m buf tm routine b ns s) (\<lambda>(x, y, t). I t)"
  unfolding stream_read_key_h_def stream_read_input_h_def by (intro inv_rules | simp only: prod.case | (simp; fail))+

lemma no_hot_key_keeps: "I s \<Longrightarrow> post (no_hot_key k s) (\<lambda>(x, t). I t)"
  by (simp add: no_hot_key_def)

lemma plain_read_keeps [inv_rules]:
  "(\<And>t. I t \<Longrightarrow> post (interp t) I) \<Longrightarrow> I s \<Longrightarrow> post (plain_read_key interp s) (\<lambda>(x, t). I t)"
  "(\<And>t. I t \<Longrightarrow> post (interp t) I) \<Longrightarrow> I s \<Longrightarrow> post (plain_read_input interp n m buf s) (\<lambda>(x, y, t). I t)"
  unfolding plain_read_key_def plain_read_input_def by (intro streams_keep no_hot_key_keeps | (simp; fail))+

lemma print_line_keeps [inv_rules]: "I s \<Longrightarrow> post (print_line t s) I"
  unfolding print_line_def by (intro inv_rules)

lemma yes_or_no_keeps [inv_rules]: "(\<And>t. I t \<Longrightarrow> post (interp t) I) \<Longrightarrow> I s \<Longrightarrow> post (read_yes_or_no interp t s) (\<lambda>(x, t). I t)"
  unfolding read_yes_or_no_def by (intro inv_rules | simp only: prod.case | (simp; fail))+

lemma read_string_loop_keeps [inv_rules]:
  assumes [inv_rules]: "\<And>t. I t \<Longrightarrow> post (interp t) I"
    and "I s"
  shows "post (read_string_loop interp n m buf s) (\<lambda>(x, t). I t)"
  unfolding post_okay
proof (intro allI impI)
  fix r
  assume "read_string_loop interp n m buf s = Some r"
  then have "interp = interp \<longrightarrow> I s \<longrightarrow> okay (\<lambda>(x, t). I t) r"
  proof (rule read_string_loop.raw_induct [where
        P = "\<lambda>interp' n m buf s r. interp' = interp \<longrightarrow> I s \<longrightarrow> okay (\<lambda>(x, t). I t) r", rotated 1], goal_cases)
    case (1 f interp' n m buf s r)
    have rec [inv_rules]: "post (f interp n m buf s) (\<lambda>(x, t). I t)" if "I s" for n m buf s
      using 1(1) that by (auto simp: post_okay)
    show ?case
    proof (intro impI)
      assume eq: "interp' = interp" and "I s"
      show "okay (\<lambda>(x, t). I t) r"
        by (rule okayD [OF _ 1(2) [unfolded eq]], insert \<open>I s\<close>)
          (intro inv_rules | simp only: prod.case | (simp; fail))+
    qed
  qed
  with \<open>I s\<close> show "okay (\<lambda>(x, t). I t) r"
    by blast
qed

lemma read_number_keeps [inv_rules]: "(\<And>t. I t \<Longrightarrow> post (interp t) I) \<Longrightarrow> I s \<Longrightarrow> post (read_number interp s) (\<lambda>(x, t). I t)"
  unfolding read_number_def read_string_def by (intro inv_rules | simp only: prod.case | (simp; fail))+

subsection \<open>Hot keys\<close>

lemma replay_open_keeps [inv_rules]: "(\<And>t. I t \<Longrightarrow> post (interp t) I) \<Longrightarrow> I s \<Longrightarrow> post (replay_open interp s) I"
  unfolding replay_open_def by (intro inv_rules | simp only: prod.case | (simp; fail))+

lemma input_stream_keeps [inv_rules]: "(\<And>t. I t \<Longrightarrow> post (interp t) I) \<Longrightarrow> I s \<Longrightarrow> post (z_input_stream interp s) I"
  unfolding z_input_stream_def by (intro inv_rules | simp only: prod.case | (simp; fail))+

lemma hot_keys_keep [inv_rules]:
  "(\<And>t. I t \<Longrightarrow> post (interp t) I) \<Longrightarrow> I s \<Longrightarrow> post (hot_key_debugging interp s) (\<lambda>(x, t). I t)"
  "(\<And>t. I t \<Longrightarrow> post (interp t) I) \<Longrightarrow> I s \<Longrightarrow> post (hot_key_playback interp s) (\<lambda>(x, t). I t)"
  "(\<And>t. I t \<Longrightarrow> post (interp t) I) \<Longrightarrow> I s \<Longrightarrow> post (hot_key_seed interp s) (\<lambda>(x, t). I t)"
  "(\<And>t. I t \<Longrightarrow> post (interp t) I) \<Longrightarrow> I s \<Longrightarrow> post (hot_key_restart interp s) (\<lambda>(x, t). I t)"
  "(\<And>t. I t \<Longrightarrow> post (interp t) I) \<Longrightarrow> I s \<Longrightarrow> post (hot_key_quit interp s) (\<lambda>(x, t). I t)"
  "I s \<Longrightarrow> post (hot_key_help s) (\<lambda>(x, t). I t)" "I s \<Longrightarrow> post (hot_key_recording s) (\<lambda>(x, t). I t)"
  "I s \<Longrightarrow> post (hot_key_undo s) (\<lambda>(x, t). I t)"
  unfolding hot_key_debugging_def hot_key_playback_def hot_key_seed_def hot_key_restart_def hot_key_quit_def
    hot_key_help_def hot_key_recording_def hot_key_undo_def
  by (intro inv_rules restoring | simp only: prod.case | (simp; fail))+

lemma handle_hot_key_keeps: "(\<And>t. I t \<Longrightarrow> post (interp t) I) \<Longrightarrow> I s \<Longrightarrow> post (handle_hot_key interp key s) (\<lambda>(x, t). I t)"
  unfolding handle_hot_key_def hot_key_action_def by (intro inv_rules | simp only: prod.case | (simp; fail))+

lemma input_keeps [inv_rules]:
  "(\<And>t. I t \<Longrightarrow> post (interp t) I) \<Longrightarrow> I s \<Longrightarrow> post (stream_read_key interp tm routine s) (\<lambda>(x, t). I t)"
  "(\<And>t. I t \<Longrightarrow> post (interp t) I) \<Longrightarrow> I s \<Longrightarrow> post (stream_read_input interp n m buf tm routine ns s) (\<lambda>(x, y, t). I t)"
  unfolding stream_read_key_def stream_read_input_def by (intro streams_keep handle_hot_key_keeps | (simp; fail))+

subsection \<open>Input opcodes\<close>

lemma store_text_keeps [inv_rules]: "I s \<Longrightarrow> post (store_text b cs addr s) I"
  by (induction cs arbitrary: addr s)
    (simp, subst store_text.simps, (intro inv_rules | simp only: prod.case | (simp; fail))+)

lemma store_line_keeps [inv_rules]: "I s \<Longrightarrow> post (store_line key buf s) I"
  unfolding store_line_def by (intro inv_rules saving | simp only: prod.case | (simp; fail))+

lemma input_opcodes_keep [inv_rules]:
  "(\<And>t. I t \<Longrightarrow> post (interp t) I) \<Longrightarrow> I s \<Longrightarrow> post (z_read interp s) I" "(\<And>t. I t \<Longrightarrow> post (interp t) I) \<Longrightarrow> I s \<Longrightarrow> post (z_read_char interp s) I"
  "I s \<Longrightarrow> post (z_read_mouse s) I" "I s \<Longrightarrow> post (z_make_menu s) I"
  unfolding z_read_def z_read_char_def z_read_mouse_def z_make_menu_def
  by (intro inv_rules | simp only: prod.case | (simp; fail))+

subsection \<open>Restoring a game\<close>

lemma copy_story_keeps [inv_rules]: "I s \<Longrightarrow> post (copy_story n addr k s) (\<lambda>(x, y, t). I t)"
  by (induction n arbitrary: addr k s)
    (simp, subst copy_story.simps, (intro inv_rules | simp only: prod.case | (simp; fail))+)

lemma get_stack_keeps [inv_rules]: "I s \<Longrightarrow> post (get_stack js f s) (\<lambda>(x, t). I t)"
  by (induction js arbitrary: f s)
    (simp, subst get_stack.simps, (intro inv_rules | simp only: prod.case | (simp; fail))+)

lemma post_step: "post m P \<Longrightarrow> (\<And>x. m = Ok x \<Longrightarrow> P x \<Longrightarrow> post (f x) Q) \<Longrightarrow> post (andthen m f) Q"
  by (auto simp: post_def andthen_eq_Ok)

lemma get_memory_keeps [inv_rules]: "I s \<Longrightarrow> post (get_memory n addr k f s) (\<lambda>(x, y, t). I t)"
proof (induction n addr k f s rule: get_memory.induct)
  case (1 n addr k f s)
  obtain skip g where f: "fgetc f = (skip, g)"
    by (cases "fgetc f")
  show ?case
  proof (subst get_memory.simps, rule post_if_rule)
    assume less: "addr < n"
    show "post (let (skip, f) = fgetc f in
         andthen (copy_story (nat skip) addr k s) (\<lambda>(addr, k, s).
         let (b, f) = fgetc f in
         andthen (set_byte (uint addr) (word_of_int b) s) (\<lambda>s. get_memory n (addr + 1) (k + 1) f s)))
       (\<lambda>(x, y, t). I t)"
      unfolding f Let_def prod.case
      by (rule post_step [OF copy_story_keeps [OF 1(2)]])
        (auto simp: case_prod_beta intro!: post_step [OF output_keeps(8)] 1(1) [OF less f [symmetric]] simp del: post_andthen)
  qed (simp add: 1(2))
qed

lemma restore_old_keeps [inv_rules]: "I s \<Longrightarrow> post (restore_old f s) (\<lambda>(x, t). I t)"
  unfolding restore_old_def by (intro inv_rules | simp only: prod.case | (simp; fail))+

lemma restored_game_keeps [inv_rules]:
  "(\<And>h t. I t \<Longrightarrow> post (sw h t) I) \<Longrightarrow> (\<And>w t. I t \<Longrightarrow> post (ew w t) I) \<Longrightarrow> I s \<Longrightarrow> post (restored_game sw ew s) I"
  unfolding restored_game_def by (intro inv_rules | simp only: prod.case | (simp; fail))+

lemma restore_parts_keep [inv_rules]:
  "I s \<Longrightarrow> post (restore_area s) (\<lambda>(x, t). I t)"
  "(\<And>h t. I t \<Longrightarrow> post (sw h t) I) \<Longrightarrow> (\<And>w t. I t \<Longrightarrow> post (ew w t) I) \<Longrightarrow> I s \<Longrightarrow> post (restore_game sw ew s) (\<lambda>(x, t). I t)"
  unfolding restore_area_def restore_game_def by (intro inv_rules | simp only: prod.case | (simp; fail))+

lemma z_restore_keeps [inv_rules]:
  "(\<And>h t. I t \<Longrightarrow> post (sw h t) I) \<Longrightarrow> (\<And>w t. I t \<Longrightarrow> post (ew w t) I) \<Longrightarrow> I s \<Longrightarrow> post (z_restore sw ew s) I"
  unfolding z_restore_def by (intro inv_rules | simp only: prod.case | (simp; fail))+

subsection \<open>Sound\<close>

lemma samples_keep [inv_rules]:
  "I s \<Longrightarrow> post (start_sample n v r e s) I" "I s \<Longrightarrow> post (start_next_sample s) I"
  unfolding start_sample_def start_next_sample_def by (intro inv_rules | simp only: prod.case | (simp; fail))+

lemma sound_keeps [inv_rules]: "(\<And>t. I t \<Longrightarrow> post (interp t) I) \<Longrightarrow> I s \<Longrightarrow> post (end_of_sound interp s) I" "I s \<Longrightarrow> post (z_sound_effect s) I"
  unfolding end_of_sound_def z_sound_effect_def delayed_sample_def sample_effect_def by (intro inv_rules | simp only: prod.case | (simp; fail))+

subsection \<open>The opcode tables and the loop\<close>

lemma post_chosen [inv_rules]:
  "(b \<Longrightarrow> post (f s) Q) \<Longrightarrow> (\<not> b \<Longrightarrow> post (g s) Q) \<Longrightarrow> post ((if b then f else g) s) Q"
  by simp

lemma ext_entry_keeps [inv_rules]:
  assumes [inv_rules]: "\<And>t. I t \<Longrightarrow> post (interp t) I" and "opcode < (0x1d :: zbyte)" and "I s"
  shows "post ((ext_opcodes interp ! unat opcode) s) I"
proof -
  have "post (f s) I" if "f \<in> set (ext_opcodes interp)" for f
    using that \<open>I s\<close> unfolding ext_opcodes_def erase_win_def
    by (simp only: list.set insert_iff empty_iff, elim disjE FalseE; simp only:)
      (intro inv_rules | (simp; fail))+
  then show ?thesis
    using assms(2) nth_mem [of "unat opcode" "ext_opcodes interp"] by (simp add: table_lengths word_less_nat_alt)
qed

lemma extended_keeps [inv_rules]: "(\<And>t. I t \<Longrightarrow> post (interp t) I) \<Longrightarrow> I s \<Longrightarrow> post (extended interp s) I"
  unfolding extended_def by (intro inv_rules | simp only: prod.case | (simp; fail))+

lemma op0_entry_keeps [inv_rules]:
  assumes [inv_rules]: "\<And>t. I t \<Longrightarrow> post (interp t) I" and "n < 16" and "I s"
  shows "post ((op0_opcodes interp v ! n) s) I"
proof -
  have "post (f s) I" if "f \<in> set (op0_opcodes interp v)" for f
    using that \<open>I s\<close> unfolding op0_opcodes_def erase_win_def
    by (simp only: list.set insert_iff empty_iff, elim disjE FalseE; simp only:)
      (intro inv_rules | (simp; fail))+
  then show ?thesis
    using assms(2) nth_mem [of n "op0_opcodes interp v"] by (simp only: table_lengths)
qed

lemma op1_entry_keeps [inv_rules]:
  assumes "n < 16" and "I s"
  shows "post ((op1_opcodes v ! n) s) I"
proof -
  have "post (f s) I" if "f \<in> set (op1_opcodes v)" for f
    using that \<open>I s\<close> unfolding op1_opcodes_def
    by (simp only: list.set insert_iff empty_iff, elim disjE FalseE; simp only:)
      (intro inv_rules | (simp; fail))+
  then show ?thesis
    using assms(1) nth_mem [of n "op1_opcodes v"] by (simp only: table_lengths)
qed

lemma var_entry_keeps [inv_rules]:
  assumes [inv_rules]: "\<And>t. I t \<Longrightarrow> post (interp t) I" and "n < 64" and "I s"
  shows "post ((var_opcodes interp ! n) s) I"
proof -
  have "post (f s) I" if "f \<in> set (var_opcodes interp)" for f
    using that \<open>I s\<close> unfolding var_opcodes_def
    by (simp only: list.set insert_iff empty_iff, elim disjE FalseE; simp only:)
      (intro inv_rules | (simp; fail))+
  then show ?thesis
    using assms(2) nth_mem [of n "var_opcodes interp"] by (simp only: table_lengths)
qed

theorem step_keeps [inv_rules]: "(\<And>t. I t \<Longrightarrow> post (interp t) I) \<Longrightarrow> I s \<Longrightarrow> post (step interp s) I"
  unfolding step_def instruction_def by (intro inv_rules | simp only: prod.case | (simp; fail))+

lemma interpret_loop_keeps [inv_rules]:
  assumes [inv_rules]: "\<And>t. I t \<Longrightarrow> post (interp t) I"
    and "I s"
  shows "post (interpret_loop interp s) I"
  unfolding post_okay
proof (intro allI impI)
  fix r
  assume "interpret_loop interp s = Some r"
  then have "interp = interp \<longrightarrow> I s \<longrightarrow> okay I r"
  proof (rule interpret_loop.raw_induct [where
        P = "\<lambda>interp' s r. interp' = interp \<longrightarrow> I s \<longrightarrow> okay I r", rotated 1], goal_cases)
    case (1 f interp' s r)
    have rec [inv_rules]: "post (f interp s) I" if "I s" for s
      using 1(1) that by (auto simp: post_okay)
    show ?case
    proof (intro impI)
      assume eq: "interp' = interp" and "I s"
      show "okay I r"
        by (rule okayD [OF _ 1(2) [unfolded eq]], insert \<open>I s\<close>)
          (intro inv_rules | simp only: prod.case | (simp; fail))+
    qed
  qed
  with \<open>I s\<close> show "okay I r"
    by blast
qed

theorem run_keeps: "I s \<Longrightarrow> post (interpret_n n s) I"
proof (induction n arbitrary: s)
  case (Suc n)
  note [inv_rules] = interpret_loop_keeps [OF Suc(1)]
  show ?case
    using Suc(2) unfolding interpret_n.simps interpret_main_def
    by - (intro inv_rules | simp only: prod.case | (simp; fail))+
qed simp

end

end
