(* ===== verification/Reachable.thy ===== *)
theory Reachable
  imports Invariant_Run Undo_Correct
begin

text \<open>
  The states that the interpreter loop passes through, as a step relation, and two invariants of it: the
  size of the story and the header stay what they are, and the undo list stays consistent, so that an
  instruction \<open>save_undo\<close> anywhere in a run saves the state to which a later \<open>restore_undo\<close> returns.
\<close>

subsection \<open>Runs of the loop\<close>

text \<open>\<open>runs interp s t\<close>: the loop of \<open>interpret\<close> started in \<open>s\<close> comes to \<open>t\<close> at the end of one of its turns.\<close>

inductive runs :: "op \<Rightarrow> zstate \<Rightarrow> zstate \<Rightarrow> bool" for interp where
  one: "step interp s = Ok t \<Longrightarrow> runs interp s t"
| more: "runs interp s t \<Longrightarrow> finished t = 0 \<Longrightarrow> step interp t = Ok u \<Longrightarrow> runs interp s u"

inductive_cases runsE: "runs interp s t"

lemma runs_front: "runs interp t u \<Longrightarrow> step interp s = Ok t \<Longrightarrow> finished t = 0 \<Longrightarrow> runs interp s u"
  by (induction rule: runs.induct) (auto intro: runs.intros)

lemma loop_after:
  "runs interp s t \<Longrightarrow> interpret_loop interp s = (if finished t = 0 then interpret_loop interp t else Ok t)"
proof (induction rule: runs.induct)
  case (one s t)
  then show ?case
    by (subst interpret_loop.simps) simp
next
  case (more s t u)
  then show ?case
    by (simp add: interpret_loop.simps [of interp t])
qed

lemma loop_runs: "interpret_loop interp s = Some r \<Longrightarrow> \<forall>t. r = Inr t \<longrightarrow> runs interp s t \<and> finished t \<noteq> 0"
proof (erule interpret_loop.raw_induct [rotated 1, where
      P = "\<lambda>interp s r. \<forall>t. r = Inr t \<longrightarrow> runs interp s t \<and> finished t \<noteq> 0"], goal_cases)
  case (1 f interp s r)
  show ?case
  proof (intro allI impI)
    fix t
    assume r: "r = Inr t"
    with 1(2) obtain u where u: "step interp s = Ok u" "(if finished u = 0 then f interp u else Ok u) = Ok t"
      by (auto simp: andthen_eq_Ok)
    then show "runs interp s t \<and> finished t \<noteq> 0"
      using 1(1) [of interp u "Inr t"] runs_front [of interp u t s] by (auto split: if_splits intro: runs.one)
  qed
qed

text \<open>
  The loop of \<open>interpret\<close> returns a state exactly when it comes to this state at the end of a turn and
  an opcode has asked it there to finish.
\<close>

theorem interpret_loop_runs:
  "interpret_loop interp s = Ok t \<longleftrightarrow> runs interp s t \<and> finished t \<noteq> 0"
  using loop_runs [of interp s "Inr t"] loop_after [of interp s t] by auto

context state_invariant
begin

lemma runs_keep: "runs interp s t \<Longrightarrow> (\<And>t. I t \<Longrightarrow> post (interp t) I) \<Longrightarrow> I s \<Longrightarrow> I t"
  by (induction rule: runs.induct) (metis postD step_keeps)+

lemma game_runs_keep: "runs (interpret_n n) s t \<Longrightarrow> I s \<Longrightarrow> I t"
  by (erule runs_keep) (rule run_keeps)

end

subsection \<open>What undo does to the rest of the state\<close>

lemma user_name_quiet [quiet_rules]: "core s = c \<Longrightarrow> quiet c (store_user_name js s)"
proof (induction js arbitrary: s)
  case (Cons j js)
  show ?case
    unfolding store_user_name.simps
  proof (rule keeps_andthen(1))
    show "quiet c (storeb (word_of_int (H_USER_NAME + j)) (h_user_name (hdr s) j) s)"
      using Cons(2) by (intro quiet_rules)
  qed (rule Cons(1))
qed simp

lemma restart_header_quiet: "core s = c \<Longrightarrow> quiet c (restart_header s)"
  unfolding restart_header_def Let_def by (intro keeps_if keeps_andthen(1) [where p = core and c = c] quiet_rules | assumption | (simp; fail))+

text \<open>The list without some of its oldest blocks.\<close>

definition trimmed :: "nat \<Rightarrow> undostate \<Rightarrow> undostate" where
  "trimmed k u = u\<lparr>undo_list := drop k (undo_list u), curr_undo := int (length (undo_list u) - k) - 1,
     undo_count := int (length (undo_list u) - k)\<rparr>"

definition newest_current :: "undostate \<Rightarrow> bool" where
  "newest_current u \<longleftrightarrow>
     undo_count u = int (length (undo_list u)) \<and> curr_undo u = int (length (undo_list u)) - 1"

lemma trimmed_none: "newest_current u \<Longrightarrow> trimmed 0 u = u"
  by (simp add: trimmed_def newest_current_def)

lemma trimmed_one:
  assumes "newest_current u" and "undo_list u = b # bs"
  shows "free_undo 1 u = Ok (trimmed 1 u)" and "trimmed k (trimmed 1 u) = trimmed (Suc k) u"
    and "newest_current (trimmed k u)" and "undo_count (trimmed 1 u) = int (length bs)"
  using assms free_undo_one [of u b bs]
  by (auto simp: trimmed_def newest_current_def drop_Cons')

lemma alloc_loop_rest:
  "newest_current u \<Longrightarrow>
    post (alloc_loop u s) (\<lambda>(p, v, t). \<exists>n k. t = s\<lparr>clock := n\<rparr> \<and> v = trimmed k u \<and> (\<not> p \<longrightarrow> undo_list v = []))"
proof (induction u s rule: alloc_loop.induct)
  case (1 u s)
  show ?case
  proof (cases "undo_list u")
    case Nil
    with 1(2) have "trimmed 0 u = u" "free_undo 1 u = Ok u" "undo_count u = 0"
      by (simp_all add: trimmed_none) (simp_all add: newest_current_def free_undo_def)
    then show ?thesis
      using Nil by (subst alloc_loop.simps) (auto simp: ask_def; metis)
  next
    case (Cons b bs)
    note one = trimmed_one [OF 1(2) Cons]
    show ?thesis
    proof (cases "os_answer s (clock s) = 0")
      case True
      show ?thesis
      proof (cases "bs = []")
        assume "bs = []"
        then have "undo_list (trimmed 1 u) = []"
          using Cons by (simp add: trimmed_def)
        with True one \<open>bs = []\<close> show ?thesis
          by (subst alloc_loop.simps) (auto simp: ask_def; metis)
      next
        assume more: "bs \<noteq> []"
        have "post (alloc_loop (trimmed 1 u) (snd (ask s))) (\<lambda>(p, v, t). \<exists>n k. t = snd (ask s)\<lparr>clock := n\<rparr> \<and>
            v = trimmed k (trimmed 1 u) \<and> (\<not> p \<longrightarrow> undo_list v = []))"
          using more True one by (intro 1(1)) (auto simp: ask_def)
        then show ?thesis
          using more True one by (subst alloc_loop.simps) (auto simp: ask_def elim!: post_mono)
      qed
    next
      case False
      then show ?thesis
        using trimmed_none [OF 1(2)] by (subst alloc_loop.simps) (auto simp: ask_def; metis)
    qed
  qed
qed

subsection \<open>The story and the header\<close>

text \<open>What \<open>init_memory\<close> has read from the story file, but for the two header fields that change.\<close>

definition story_part :: "zstate \<Rightarrow> int \<times> story \<times> header" where
  "story_part s = (story_size s, story_id s, (hdr s)\<lparr>h_flags := 0, h_line_width := 0\<rparr>)"

lemma story_part_core: "story_part (core s) = story_part s"
  by (simp add: story_part_def core_def)

lemma story_part_frame [simp]:
  "story_part (s\<lparr>pcp := a0\<rparr>) = story_part s" "story_part (s\<lparr>stack := a1\<rparr>) = story_part s"
  "story_part (s\<lparr>sp := a2\<rparr>) = story_part s" "story_part (s\<lparr>fp := a3\<rparr>) = story_part s"
  "story_part (s\<lparr>frame_count := a4\<rparr>) = story_part s" "story_part (s\<lparr>zargs := a5\<rparr>) = story_part s"
  "story_part (s\<lparr>zargc := a6\<rparr>) = story_part s" "story_part (s\<lparr>finished := a7\<rparr>) = story_part s"
  "story_part (s\<lparr>rnd := a8\<rparr>) = story_part s" "story_part (s\<lparr>decoded := a9\<rparr>) = story_part s"
  "story_part (s\<lparr>encoded := b0\<rparr>) = story_part s" "story_part (s\<lparr>first_restart := b1\<rparr>) = story_part s"
  "story_part (s\<lparr>sfx := b2\<rparr>) = story_part s" "story_part (upd_setup f s) = story_part s"
  "story_part (s\<lparr>undo := b3\<rparr>) = story_part s" "story_part (s\<lparr>clock := b4\<rparr>) = story_part s"
  "story_part (s\<lparr>zmp := b5\<rparr>) = story_part s" "story_part (s\<lparr>story_file := b6, story_len := b7\<rparr>) = story_part s"
  by (simp_all add: story_part_def upd_setup_def)

lemma save_undo_story: "post (save_undo s) (\<lambda>(v, t). story_part t = story_part s)"
proof -
  have alloc: "post (alloc_loop u s) (\<lambda>(p, v, t). story_part t = story_part s)" for u s
  proof (induction u s rule: alloc_loop.induct)
    case (1 u s)
    obtain p t where p: "ask s = (p, t)"
      by fastforce
    then have t: "story_part t = story_part s"
      by (auto simp: ask_def)
    have "post (alloc_loop v t) (\<lambda>(p, v, t). story_part t = story_part s)"
      if "p = 0" "free_undo 1 u = Ok v" "undo_count v \<noteq> 0" for v
      using 1 [OF refl p [symmetric] _ that(2,3)] that(1) t by simp
    then show ?case
      by (subst alloc_loop.simps) (auto simp: p t intro!: postI [of "free_undo 1 u"])
  qed
  have any: "(\<And>x. P x) \<Longrightarrow> post m P" "(\<And>x. P' x) \<Longrightarrow> post m' P'"
    for m :: "undostate res" and P and m' :: "zword list res" and P'
    by (simp_all add: post_def)
  show ?thesis
    unfolding save_undo_def save_block_def Let_def
    by (auto simp: ask_def intro!: any post_mono [OF alloc])
qed

lemma restore_undo_story: "post (restore_undo s) (\<lambda>(v, t). story_part t = story_part s)"
proof -
  have header: "post (restart_header t) (\<lambda>u. story_part u = story_part t)" for t
    using restart_header_quiet [of t "core t"] unfolding keeps_def
    by (auto elim!: post_mono) (metis story_part_core)
  show ?thesis
    unfolding restore_undo_def Let_def
    by (auto split: option.split intro!: post_mono [OF header])
qed

subsection \<open>The undo list\<close>

lemma stack_words_bound: "stack_words p n s = Ok ws \<Longrightarrow> length ws \<le> 1024"
  by (auto simp: stack_words_def split: if_splits)

lemma save_block_ok:
  assumes u: "newest_current u" "undo_mem u" and slots: "int (length (undo_list u)) < undo_slots (f_setup s)"
    and chain: "chain_ok (rev (undo_list u) @ old) (mem_image (dyn_size s) (prev_zmp u))"
  shows "post (save_block u s) (\<lambda>(v, t). undo_ok t)"
proof (rule postI)
  fix r
  assume r: "save_block u s = Ok r"
  define new where "new = mem_image (dyn_size s) (zmp s)"
  define prev where "prev = mem_image (dyn_size s) (prev_zmp u)"
  define u2 where "u2 = u\<lparr>prev_zmp := overwrite (prev_zmp u) 0 (diff_target new prev)\<rparr>"
  have same: "length new = length prev" "length new < 0x10000"
    using dyn_size_less [of s] by (simp_all add: new_def prev_def)
  then have target: "diff_target new prev = new"
    by (simp add: diff_target_eq)
  have image: "mem_image (dyn_size s) (prev_zmp u2) = new"
    by (simp add: u2_def target) (simp add: new_def)
  have size: "dyn_size s \<le> story_size s"
    using r by (auto simp: save_block_def split: if_splits)
  have "\<not> (dyn_size s \<noteq> 0 \<and> \<not> undo_mem u)" "\<not> story_size s < dyn_size s"
    using u(2) size by simp_all
  then have "andthen (alloc_loop u2 s) (\<lambda>(p, v, t).
      if \<not> p then Ok (-1, t\<lparr>undo := v\<rparr>)
      else andthen (stack_words (sp t) (uint (word_of_int (STACK_SIZE - sp s) :: zword)) t) (\<lambda>ws.
        Ok (1, t\<lparr>undo := v\<lparr>undo_list := undo_list v @ [\<lparr>u_pc = pcp t, u_diff = mem_diff new prev,
          u_frame_count = frame_count t, u_stack = ws, u_frame_offset = word_of_int (fp t)\<rparr>],
          curr_undo := int (length (undo_list v)), undo_count := undo_count v + 1\<rparr>\<rparr>))) = Ok r"
    using r unfolding save_block_def Let_def u2_def new_def prev_def by (simp only: if_False)
  then obtain p v t where alloc: "alloc_loop u2 s = Ok (p, v, t)"
    and rest: "if \<not> p then r = (-1, t\<lparr>undo := v\<rparr>)
      else \<exists>ws. stack_words (sp t) (uint (word_of_int (STACK_SIZE - sp s) :: zword)) t = Ok ws \<and>
        r = (1, t\<lparr>undo := v\<lparr>undo_list := undo_list v @ [\<lparr>u_pc = pcp t, u_diff = mem_diff new prev,
          u_frame_count = frame_count t, u_stack = ws, u_frame_offset = word_of_int (fp t)\<rparr>],
          curr_undo := int (length (undo_list v)), undo_count := undo_count v + 1\<rparr>\<rparr>)"
    unfolding andthen_eq_Ok by (fastforce split: if_splits simp: andthen_eq_Ok)
  have "newest_current u2"
    using u(1) by (simp add: u2_def newest_current_def)
  from postD [OF alloc_loop_rest [OF this] alloc] obtain n k where
    t: "t = s\<lparr>clock := n\<rparr>" "v = trimmed k u2" "\<not> p \<Longrightarrow> undo_list v = []"
    by auto
  have v: "undo_list v = drop k (undo_list u)" "undo_count v = int (length (undo_list v))" "undo_mem v"
    "prev_zmp v = prev_zmp u2" "curr_undo v = int (length (undo_list v)) - 1"
    using u t by (simp_all add: trimmed_def u2_def)
  have "rev (undo_list u) = rev (drop k (undo_list u)) @ rev (take k (undo_list u))"
    by (metis append_take_drop_id rev_append)
  with chain have chain': "chain_ok (rev (undo_list v)) prev"
    using take_unroll(3) [of "rev (undo_list v)" "rev (take k (undo_list u)) @ old" prev] v(1)
    by (simp add: prev_def)
  show "case r of (v, t) \<Rightarrow> undo_ok t"
  proof (cases p)
    case False
    then show ?thesis
      using rest t v slots size by (auto simp: undo_ok_def past_def)
  next
    case True
    with rest obtain ws where words: "stack_words (sp t) (uint (word_of_int (STACK_SIZE - sp s) :: zword)) t = Ok ws"
      and r: "r = (1, t\<lparr>undo := v\<lparr>undo_list := undo_list v @ [\<lparr>u_pc = pcp t, u_diff = mem_diff new prev,
          u_frame_count = frame_count t, u_stack = ws, u_frame_offset = word_of_int (fp t)\<rparr>],
          curr_undo := int (length (undo_list v)), undo_count := undo_count v + 1\<rparr>\<rparr>)" (is "r = (1, t\<lparr>undo := v\<lparr>undo_list := _ @ [?b], curr_undo := _, undo_count := _\<rparr>\<rparr>)")
      by (simp only: simp_thms if_False) blast
    define b where "b = ?b"
    have b: "u_diff b = mem_diff new prev" "u_stack b = ws" "length ws \<le> 1024"
      using stack_words_bound [OF words] by (simp_all add: b_def)
    have "mem_undiff (u_diff b) new = Some prev"
      using same b by (simp add: quetzal_diff.forth)
    then show ?thesis
      using t v slots size chain' image b unfolding r b_def [symmetric] by (simp add: undo_ok_def past_def)
  qed
qed

lemma save_undo_keeps_ok:
  assumes "undo_ok s"
  shows "post (save_undo s) (\<lambda>(v, t). undo_ok t)"
proof -
  from make_room [OF assms] obtain L old where
    room: "andthen (drop_newer (undo s)) (\<lambda>u.
       if undo_count u = undo_slots (f_setup s) then free_undo 1 u else Ok u) =
     Ok ((undo s)\<lparr>undo_list := L, curr_undo := int (length L) - 1, undo_count := int (length L)\<rparr>)"
    and L: "int (length L) < undo_slots (f_setup s)"
    and old: "rev old @ L = take (nat (curr_undo (undo s) + 1)) (undo_list (undo s))"
    by blast
  have "chain_ok (rev L @ old) (mem_image (dyn_size s) (prev_zmp (undo s)))"
    using assms unfolding undo_ok_def past_def old [symmetric] by simp
  then have "post (save_block ((undo s)\<lparr>undo_list := L, curr_undo := int (length L) - 1,
      undo_count := int (length L)\<rparr>) (s\<lparr>clock := n\<rparr>)) (\<lambda>(v, t). undo_ok t)" for n
    using L assms by (intro save_block_ok) (auto simp: newest_current_def undo_ok_def)
  then show ?thesis
    using assms by (simp add: save_undo_def ask_def room undo_ok_def flip: andthen_assoc)
qed

lemma undo_ok_core: "core t = core s \<Longrightarrow> undo_ok t = undo_ok s"
  by (rule undo_view_cong(1)) (metis core_sel dyn_size_def)+

lemma restore_undo_keeps_ok:
  assumes "undo_ok s"
  shows "post (restore_undo s) (\<lambda>(v, t). undo_ok t)"
proof (cases "snapshots s")
  case Nil
  have "past (undo s) = []"
    using Nil unfolding snapshots_def by (cases "past (undo s)") auto
  then have "curr_undo (undo s) = -1"
    using assms by (auto simp: past_def undo_ok_def)
  then show ?thesis
    by (simp add: restore_undo_def)
next
  case (Cons sn rest)
  from restore_undo_pops [OF assms Cons] obtain t where
    t: "restore_undo s = andthen (restart_header t) (\<lambda>s. Ok (2, s))" "undo_ok t" .
  show ?thesis
    unfolding t(1) post_andthen
    by (rule post_mono [OF restart_header_quiet [OF refl, unfolded keeps_def]]) (simp add: t(2) undo_ok_core [of _ t])
qed

lemma undo_ok_frame [simp]:
  "undo_ok (s\<lparr>pcp := a0\<rparr>) = undo_ok s" "undo_ok (s\<lparr>stack := a1\<rparr>) = undo_ok s"
  "undo_ok (s\<lparr>sp := a2\<rparr>) = undo_ok s" "undo_ok (s\<lparr>fp := a3\<rparr>) = undo_ok s"
  "undo_ok (s\<lparr>frame_count := a4\<rparr>) = undo_ok s" "undo_ok (s\<lparr>zargs := a5\<rparr>) = undo_ok s"
  "undo_ok (s\<lparr>zargc := a6\<rparr>) = undo_ok s" "undo_ok (s\<lparr>finished := a7\<rparr>) = undo_ok s"
  "undo_ok (s\<lparr>rnd := a8\<rparr>) = undo_ok s" "undo_ok (s\<lparr>decoded := a9\<rparr>) = undo_ok s"
  "undo_ok (s\<lparr>encoded := b0\<rparr>) = undo_ok s" "undo_ok (s\<lparr>first_restart := b1\<rparr>) = undo_ok s"
  "undo_ok (s\<lparr>sfx := b2\<rparr>) = undo_ok s" "undo_ok (s\<lparr>story_file := b3, story_len := b4\<rparr>) = undo_ok s"
  by (simp_all add: undo_ok_def dyn_size_def)

interpretation undo_kept: state_invariant undo_ok
proof
  fix s t
  assume "undo_ok s" and "core t = core s"
  then show "undo_ok t"
    using undo_ok_core [of t s] by simp
next
  fix s b
  assume s: "undo_ok s"
  show "undo_ok (upd_setup (\<lambda>u. u\<lparr>attribute_assignment := b\<rparr>) s)" "undo_ok (upd_setup (\<lambda>u. u\<lparr>attribute_testing := b\<rparr>) s)"
    "undo_ok (upd_setup (\<lambda>u. u\<lparr>object_movement := b\<rparr>) s)" "undo_ok (upd_setup (\<lambda>u. u\<lparr>object_locating := b\<rparr>) s)"
    using s by (simp_all add: undo_ok_def upd_setup_def dyn_size_def)
  show "post (save_undo s) (\<lambda>(v, t). undo_ok t)" "post (restore_undo s) (\<lambda>(v, t). undo_ok t)"
    using s by (simp_all add: save_undo_keeps_ok restore_undo_keeps_ok)
qed simp_all

interpretation story_kept: state_invariant "\<lambda>t. story_part t = c" for c
proof
  fix u t
  assume "story_part u = c" and "core t = core u"
  then show "story_part t = c"
    by (metis story_part_core)
next
  fix u
  assume u: "story_part u = c"
  show "post (save_undo u) (\<lambda>(v, t). story_part t = c)"
    using save_undo_story [of u] u by simp
  show "post (restore_undo u) (\<lambda>(v, t). story_part t = c)"
    using restore_undo_story [of u] u by simp
qed simp_all

subsection \<open>Properties\<close>

text \<open>
  Whatever instructions a run executes, and whatever the timeout routines inside it do, the sizes, the
  story's identity and the header that \<open>init_memory\<close> has read (but for the flags and the width of a
  line) stay as they are.
\<close>

theorem runs_keep_story:
  assumes "runs (interpret_n n) s t"
  shows "story_part t = story_part s"
  using assms by (rule story_kept.game_runs_keep) simp

text \<open>Storing a result leaves the undo list and what it is measured by alone.\<close>

lemma store_undo:
  assumes "store v s = Ok t"
  shows "undo t = undo s" "f_setup t = f_setup s" "story_size t = story_size s" "dyn_size t = dyn_size s"
proof -
  have word: "undo t = undo s \<and> f_setup t = f_setup s \<and> story_size t = story_size s \<and> dyn_size t = dyn_size s"
    if "set_word a v s = Ok t" for a v s
  proof -
    have "core t = core s"
      using quiet_basic(2) [OF refl, of s a v] that by (auto simp: keeps_def)
    moreover from this have "h_dynamic_size (hdr (core t)) = h_dynamic_size (hdr (core s))"
      by simp
    then have dyn: "h_dynamic_size (hdr t) = h_dynamic_size (hdr s)"
      by simp
    ultimately show ?thesis
      using core_eq_parts [of t s] dyn by (simp add: dyn_size_def)
  qed
  show "undo t = undo s" "f_setup t = f_setup s" "story_size t = story_size s" "dyn_size t = dyn_size s"
    using assms
    by (auto simp: store_def andthen_eq_Ok code_byte_def push_def stack_set_def set_var_def dyn_size_def
        split: if_splits dest!: word)
qed

text \<open>The instruction \<open>save_undo\<close>.\<close>

definition at_save_undo :: "zstate \<Rightarrow> bool" where
  "at_save_undo s \<longleftrightarrow> 0 \<le> pcp s \<and> pcp s + 2 < story_size s \<and>
     zmp s (pcp s) = 0xbe \<and> zmp s (pcp s + 1) = 0x09 \<and> zmp s (pcp s + 2) = 0xff"

lemma step_save_undo:
  "at_save_undo s \<Longrightarrow> step interp s = andthen (z_save_undo (s\<lparr>zargc := 0, pcp := pcp s + 3\<rparr>))
    (\<lambda>t. if interrupts t = interrupts s then Ok t else Stop Newline_routine)"
  by (simp add: step_def instruction_def at_save_undo_def code_byte_def low_byte_def op0_opcodes_def extended_def
      load_all_operands_def ext_opcodes_def add.assoc Let_def)

text \<open>
  C2. Undo works anywhere in a run that starts with \<open>init_undo\<close>: when the instruction \<open>save_undo\<close> is
  executed in a state \<open>t\<close> that the run reaches, and memory is granted, then in every state \<open>u\<close> that the run
  reaches afterwards with the list of saved states as the instruction left it, whatever happened in
  between, \<open>restore_undo\<close> goes on from \<open>t\<close> behind the instruction: its dynamic memory, program counter,
  stack and frame, up to the header fields that \<open>restart_header\<close> refreshes (runs in which no newline routine is called). The saved states before it are
  still there, as far as \<open>undo_slots\<close> allows, and the list never holds more blocks than that.
\<close>

theorem runs_undo_works:
  assumes "undo s = initial_undo" and "0 < undo_slots (f_setup s)" and "dyn_size s \<le> story_size s"
    and "os_answer s (clock s) \<noteq> 0"
    and "runs (interpret_n n) (init_undo 0 s) t" and "at_save_undo t"
    and "os_answer t (clock t) \<noteq> 0" and "os_answer t (Suc (clock t)) \<noteq> 0" and "0 \<le> sp t" and "sp t \<le> STACK_SIZE"
    and "step (interpret_n n) t = Ok t1" and "u = t1 \<or> runs (interpret_n n) t1 u" and "snapshots u = snapshots t1"
  shows "\<exists>r. restore_undo u = andthen (restart_header r) (\<lambda>r. Ok (2, r)) \<and>
    current r = current (t\<lparr>pcp := pcp t + 3\<rparr>) \<and>
    snapshots r = take (nat (undo_slots (f_setup t)) - 1) (snapshots t) \<and>
    int (length (undo_list (undo u))) \<le> undo_slots (f_setup u)"
proof -
  define s1 where "s1 = t\<lparr>zargc := 0, pcp := pcp t + 3\<rparr>"
  have "undo_ok t"
    using undo_kept.game_runs_keep [OF assms(5)] init_undo_establishes(1) [OF assms(1-4)] by blast
  then have "undo_ok s1"
    by (simp add: s1_def)
  moreover have "snapshots s1 = snapshots t" "current s1 = current (t\<lparr>pcp := pcp t + 3\<rparr>)" "f_setup s1 = f_setup t"
    "os_answer s1 (clock s1) \<noteq> 0" "os_answer s1 (Suc (clock s1)) \<noteq> 0" "0 \<le> sp s1" "sp s1 \<le> STACK_SIZE"
    using assms(7-10) by (simp_all add: s1_def snapshots_def current_def dyn_size_def)
  ultimately obtain v where saved: "save_undo s1 = Ok (1, s1\<lparr>clock := clock s1 + 2, undo := v\<rparr>)"
    "undo_ok (s1\<lparr>clock := clock s1 + 2, undo := v\<rparr>)" "snapshots (s1\<lparr>clock := clock s1 + 2, undo := v\<rparr>) = take (nat (undo_slots (f_setup t))) (current (t\<lparr>pcp := pcp t + 3\<rparr>) # snapshots t)"
    using save_undo_pushes [of s1] by metis
  define s2 where "s2 = s1\<lparr>clock := clock s1 + 2, undo := v\<rparr>"
  note v = saved [folded s2_def]
  have stored: "store 1 s2 = Ok t1"
    using assms(11) step_save_undo [OF assms(6)] v(1)
    by (auto simp: z_save_undo_def s1_def andthen_eq_Ok split: if_splits)
  have "undo_ok t1" "snapshots t1 = snapshots s2"
    using undo_view_cong [OF store_undo [OF stored]] v(2) by simp_all
  then have "undo_ok u" and "snapshots u = take (nat (undo_slots (f_setup t))) (current (t\<lparr>pcp := pcp t + 3\<rparr>) # snapshots t)"
    using assms(12,13) v(3) undo_kept.game_runs_keep [of n t1 u] by auto
  moreover have "0 < undo_slots (f_setup t)"
    using \<open>undo_ok t\<close> by (simp add: undo_ok_def)
  ultimately have "undo_ok u"
    "snapshots u = current (t\<lparr>pcp := pcp t + 3\<rparr>) # take (nat (undo_slots (f_setup t)) - 1) (snapshots t)"
    by (simp_all add: take_Cons')
  moreover from this(1) have "int (length (undo_list (undo u))) \<le> undo_slots (f_setup u)"
    by (simp add: undo_ok_def)
  ultimately show ?thesis
    using restore_undo_pops by metis
qed

text \<open>A game that saves, and then goes on with another instruction.\<close>

lemma step_nop:
  "0 \<le> pcp s \<Longrightarrow> pcp s < story_size s \<Longrightarrow> zmp s (pcp s) = 0xb4 \<Longrightarrow>
    step interp s = Ok (s\<lparr>pcp := pcp s + 1, zargc := 0\<rparr>)"
  by (simp add: step_def instruction_def interrupts_def code_byte_def low_byte_def op0_opcodes_def z_nop_def)

definition saving_game :: zstate where
  "saving_game = small_machine 5 [0xb4, 0xbe, 0x09, 0xff, 0x00, 0xb4]"

lemma saving_game_start:
  "undo saving_game = initial_undo" "0 < undo_slots (f_setup saving_game)"
  "dyn_size saving_game \<le> story_size saving_game" "os_answer saving_game (clock saving_game) \<noteq> 0"
  by (simp_all add: saving_game_def small_machine_def initial_state_def default_setup_def dyn_size_def)

theorem runs_undo_works_witness:
  "\<exists>t u r. runs (interpret_n 3) (init_undo 0 saving_game) t \<and> runs (interpret_n 3) t u \<and> pcp u = 70 \<and>
    restore_undo u = andthen (restart_header r) (\<lambda>r. Ok (2, r)) \<and> current r = current (t\<lparr>pcp := 68\<rparr>)"
proof -
  define s where "s = init_undo 0 saving_game"
  define t where "t = s\<lparr>pcp := 65, zargc := 0\<rparr>"
  have at: "zmp s 64 = 0xb4" "zmp s 65 = 0xbe" "zmp s 66 = 0x09" "zmp s 67 = 0xff" "zmp s 68 = 0" "zmp s 69 = 0xb4"
    "story_size s = 4096" "pcp s = 64" "finished s = 0" "sp s = STACK_SIZE" "os_answer s = (\<lambda>k. 1)"
    by (simp_all add: s_def saving_game_def init_undo_def ask_def small_machine_def initial_state_def)
  have s: "runs (interpret_n 3) s t"
    using at step_nop [of s "interpret_n 3"] by (intro runs.one) (simp add: t_def)
  have "undo_ok s"
    unfolding s_def by (rule init_undo_establishes(1) [OF saving_game_start])
  then have "undo_ok (t\<lparr>pcp := 68\<rparr>)"
    by (simp add: t_def)
  then obtain v where "save_undo (t\<lparr>pcp := 68\<rparr>) = Ok (1, t\<lparr>pcp := 68, clock := clock t + 2, undo := v\<rparr>)"
    using save_undo_pushes [of "t\<lparr>pcp := 68\<rparr>"] at by (auto simp: t_def)
  moreover define t1 where "t1 = t\<lparr>pcp := 69, clock := clock t + 2, undo := v, sp := STACK_SIZE - 1,
    stack := (stack t)(STACK_SIZE - 1 := 1)\<rparr>"
  moreover have here: "at_save_undo t"
    using at by (simp add: at_save_undo_def t_def)
  ultimately have t: "step (interpret_n 3) t = Ok t1"
    using at step_save_undo [OF here, of "interpret_n 3"]
    by (simp add: z_save_undo_def store_def code_byte_def low_byte_def push_def stack_set_def interrupts_def t_def)
  define u where "u = t1\<lparr>pcp := 70, zargc := 0\<rparr>"
  have u: "step (interpret_n 3) t1 = Ok u"
    using at step_nop [of t1 "interpret_n 3"] by (simp add: t1_def t_def u_def)
  then have "snapshots u = snapshots t1" "u = t1 \<or> runs (interpret_n 3) t1 u"
    by (simp_all add: u_def snapshots_def dyn_size_def runs.one)
  moreover have "runs (interpret_n 3) t u"
    using t u at by (auto intro!: runs.more [OF runs.one] simp: t1_def t_def)
  ultimately obtain r where "restore_undo u = andthen (restart_header r) (\<lambda>r. Ok (2, r))"
    "current r = current (t\<lparr>pcp := pcp t + 3\<rparr>)"
    using runs_undo_works [OF saving_game_start s [unfolded s_def] here _ _ _ _ t, of u] at by (auto simp: t_def)
  with s \<open>runs (interpret_n 3) t u\<close> show ?thesis
    unfolding s_def by (intro exI [of _ t] exI [of _ u] exI [of _ r]) (simp_all add: t_def u_def)
qed

text \<open>
  Every opcode byte selects an entry of the tables of process.c, in each of the four forms of an instruction and in
  the table of the extended opcodes, which has all the numbers that \<open>extended\<close> does not skip: no index is out of range.
\<close>

theorem opcode_tables_cover:
  "(if b < 0x80 then unat (b AND 0x1f) < length (var_opcodes interp)
    else if b < 0xb0 then unat (b AND 0x0f) < length (op1_opcodes v)
    else if b < 0xc0 then unat (b - 0xb0) < length (op0_opcodes interp v)
    else unat (b - 0xc0) < length (var_opcodes interp)) \<and>
   (e < 0x1d \<longleftrightarrow> unat e < length (ext_opcodes interp))" for b e :: zbyte
  by (simp add: table_lengths word_less_nat_alt)

end
