(* ===== verification/Zscii_Correct.thy ===== *)
theory Zscii_Correct
  imports Zscii Initial
begin

text \<open>
  The two translations of text.c between the characters of the interpreter (ISO Latin-1) and ZSCII: what
  can be expressed in ZSCII survives the way there and back.
\<close>

subsection \<open>Round trips\<close>

lemma latin1_search_found:
  "latin1_search c is \<noteq> CH_QUERY \<Longrightarrow> \<exists>i \<in> set is. latin1_search c is = of_nat i \<and> c = zscii_to_latin1 ! (i - 0x9b)"
  by (induction "is") (auto split: if_splits)

lemma unicode_search_found:
  "unicode_search c is s = Ok z \<Longrightarrow> z \<noteq> CH_QUERY \<Longrightarrow>
    \<exists>i \<in> set is. z = word_of_int i \<and>
      low_word (uint (hx_unicode_table (hdr s) + 1 + 2 * word_of_int (i - 0x9b))) s = Ok (ucast c)"
  by (induction "is") (auto simp: Let_def andthen_eq_Ok split: if_splits)

lemma translate_back:
  assumes "translate_to_zscii c s = Ok z" and "z = CH_QUERY \<longrightarrow> c = CH_QUERY" and "c \<notin> {0x9e, 0x9f}"
    and "story_id s \<noteq> BEYOND_ZORK"
    and "\<And>n. hx_unicode_table (hdr s) \<noteq> 0 \<Longrightarrow> low_byte (uint (hx_unicode_table (hdr s))) s = Ok n \<Longrightarrow> n \<le> 97"
  shows "translate_from_zscii z s = Ok c"
proof -
  let ?tab = "hx_unicode_table (hdr s)"
  have "c < 0x9b \<or> c = 0x9b \<or> c = 0x9c \<or> c = 0x9d \<or> c = 0x9e \<or> c = 0x9f \<or> 0xa0 \<le> c"
    by (auto simp: word_less_nat_alt word_le_nat_alt word_unat_eq_iff)
  then consider "c = ZC_SINGLE_CLICK \<or> c = ZC_DOUBLE_CLICK \<or> c = ZC_MENU_CLICK"
    | "c < 0x9b" | "ZC_LATIN1_MIN \<le> c" "?tab \<noteq> 0" | "ZC_LATIN1_MIN \<le> c" "?tab = 0"
    using assms(3) by auto
  then show ?thesis
  proof cases
    case 1
    then show ?thesis
      using assms(1) by (auto simp: translate_to_zscii_def translate_from_zscii_def)
  next
    case 2
    then have small: "\<not> 0xa0 \<le> c" "\<not> 0x9b \<le> c"
      by (simp_all add: word_less_nat_alt word_le_nat_alt)
    then have clicks: "c \<noteq> 0x9b" "c \<noteq> 0x9c" "c \<noteq> 0x9d" "c \<noteq> 0xfc" "c \<noteq> 0xfd" "c \<noteq> 0xfe"
      by auto
    have "z = c"
      using assms(1,2) small clicks by (simp add: translate_to_zscii_def split: if_splits)
    then show ?thesis
      using small clicks by (simp add: translate_from_zscii_def)
  next
    case 3
    then have c: "c \<noteq> ZC_SINGLE_CLICK" "c \<noteq> ZC_DOUBLE_CLICK" "c \<noteq> ZC_MENU_CLICK" "c \<noteq> CH_QUERY"
      by (auto simp: word_le_nat_alt)
    then obtain n where n: "low_byte (uint ?tab) s = Ok n" "unicode_search c [0x9b..0x9b + uint n - 1] s = Ok z"
      using 3 assms(1) by (auto simp: translate_to_zscii_def andthen_eq_Ok split: if_splits)
    have "uint n \<le> 97"
      using assms(5) [OF 3(2) n(1)] by (simp add: word_le_def)
    from unicode_search_found [OF n(2)] c(4) assms(2) obtain i where
      i: "0x9b \<le> i" "i < 0x9b + uint n" "z = word_of_int i"
      "low_word (uint (?tab + 1 + 2 * word_of_int (i - 0x9b))) s = Ok (ucast c)"
      by auto
    have "i < 0xfc"
      using i \<open>uint n \<le> 97\<close> by simp
    then have z: "uint z = i"
      using i by (simp add: uint_word_of_int)
    have "ucast (ucast c :: zword) = c"
      by (rule bit_word_eqI) (auto simp: bit_simps)
    moreover have "(ucast c :: zword) < 0x100"
      using uint_byte_bounds [of c] by (simp add: word_less_def)
    ultimately show ?thesis
      using 3 i n z \<open>i < 0xfc\<close> assms(4)
      by (auto simp: translate_from_zscii_def word_le_def word_uint_eq_iff)
  next
    case 4
    then have c: "c \<noteq> ZC_SINGLE_CLICK" "c \<noteq> ZC_DOUBLE_CLICK" "c \<noteq> ZC_MENU_CLICK" "c \<noteq> CH_QUERY" "c \<noteq> 0"
      by (auto simp: word_le_nat_alt)
    define ks :: "nat list" where "ks = [0x9b..<0xe0]"
    have "latin1_search c ks = z" "z \<noteq> CH_QUERY"
      using c 4 assms(1,2) unfolding translate_to_zscii_def ks_def [symmetric] by auto
    with latin1_search_found [of c ks] obtain i where
      i: "i \<in> set ks" "z = of_nat i" "c = zscii_to_latin1 ! (i - 0x9b)"
      by auto
    then have i: "0x9b \<le> i" "i < 0xe0" "z = of_nat i" "c = zscii_to_latin1 ! (i - 0x9b)"
      unfolding ks_def by (simp_all only: set_upt atLeastLessThan_iff)
    have z: "unat z = i"
      using i by (simp add: unat_of_nat)
    have "i \<noteq> 0xdc" "i \<noteq> 0xdd"
      using i c by (auto simp: zscii_to_latin1_def)
    then show ?thesis
      using 4 i z assms(4) by (auto simp: translate_from_zscii_def word_le_nat_alt word_unat_eq_iff)
  qed
qed

text \<open>
  A character that \<open>translate_to_zscii\<close> can express (it does not become a question mark) comes back
  from \<open>translate_from_zscii\<close>, whether the game has a Unicode table of its own or not. The two
  characters before the Latin-1 block and a table that reaches the codes of the mouse clicks are left out.
\<close>

theorem zscii_round_trip:
  assumes "translate_to_zscii c s = Ok z" and "z = CH_QUERY \<longrightarrow> c = CH_QUERY" and "c \<notin> {0x9e, 0x9f}"
    and "story_id s \<noteq> BEYOND_ZORK"
    and "\<And>n. hx_unicode_table (hdr s) \<noteq> 0 \<Longrightarrow> low_byte (uint (hx_unicode_table (hdr s))) s = Ok n \<Longrightarrow> n \<le> 97"
  shows "translate_from_zscii z s = Ok c"
  using assms by (rule translate_back)

theorem zscii_round_trip_witness:
  "translate_from_zscii 0x9b (small_machine 5 []) = Ok 0xe4"
  by (rule zscii_round_trip [where s = "small_machine 5 []"])
    (simp_all add: translate_to_zscii_def upt_rec zscii_to_latin1_def small_machine_def initial_state_def initial_header_def)

end
