(* ===== verification/Commands_Correct.thy ===== *)
theory Commands_Correct
  imports Commands Zscii_Correct
begin

text \<open>
  Playing back what has been recorded: the bytes that \<open>record_char\<close> appends to the command file for a
  key are read back by \<open>replay_char\<close> as this key, with the position of the mouse when it is a click, and
  so are whole lines with the key that ended them.
\<close>

subsection \<open>Reading a file at a place\<close>

text \<open>The file with the bytes \<open>pre @ rest\<close>, read up to \<open>rest\<close>.\<close>

definition at_rest :: "zbyte list \<Rightarrow> zbyte list \<Rightarrow> cfile" where
  "at_rest pre rest = \<lparr>f_bytes = pre @ rest, f_pos = length pre\<rparr>"

lemma fgetc_at [simp]: "fgetc (at_rest pre (b # rest)) = (uint b, at_rest (pre @ [b]) rest)"
  by (simp add: fgetc_def get_c_def at_rest_def)

lemma unget_at: "unget_newline (at_rest (pre @ [CH_NEWLINE]) rest) = at_rest pre (CH_NEWLINE # rest)"
  by (simp add: unget_newline_def at_rest_def)

subsection \<open>Numbers\<close>

definition digit_code :: "int \<Rightarrow> zbyte" where
  "digit_code d = word_of_int (0x30 + d)"

lemma uint_digit: "0 \<le> d \<Longrightarrow> d \<le> 9 \<Longrightarrow> uint (digit_code d) = 0x30 + d"
  unfolding digit_code_def by (subst uint_word_of_int) simp

lemma replay_digits_at:
  assumes "\<forall>d \<in> set ds. 0 \<le> d \<and> d \<le> 9" and "\<not> (0x30 \<le> uint x \<and> uint x \<le> 0x39)"
  shows "replay_digits c (at_rest pre (map digit_code ds @ x # rest)) =
    (foldl (\<lambda>a d. 10 * a + d) c ds, uint x, at_rest (pre @ map digit_code ds @ [x]) rest)"
  using assms
proof (induction ds arbitrary: c pre)
  case Nil
  then show ?case
    by (subst replay_digits.simps) auto
next
  case (Cons d ds)
  have "uint (digit_code d) = 0x30 + d" "10 * c + (0x30 + d) - 0x30 = 10 * c + d"
    using Cons(2) by (simp_all add: uint_digit)
  then show ?case
    using Cons by (subst replay_digits.simps) (simp del: add.commute)
qed

text \<open>The digits that \<open>record_code\<close> writes are those of the number.\<close>

definition decimals :: "int \<Rightarrow> int list" where
  "decimals c = map (\<lambda>i. (c div i) mod 10) (filter (\<lambda>i. c \<ge> i \<or> i = 1) [10000, 1000, 100, 10, 1])"

lemma code_digits_eq:
  assumes "0 \<le> c"
  shows "code_digits c = map digit_code (decimals c)"
proof -
  have "(c sdiv i) smod 10 = (c div i) mod 10" if "0 < i" for i
    using that assms pos_imp_zdiv_nonneg_iff [of i c]
    by (simp add: signed_divide_int_def signed_modulo_int_def sgn_if modulo_int_def minus_div_mult_eq_mod [symmetric])
  moreover have "0 < i" if "i \<in> set (filter P [10000, 1000, 100, 10, 1])" for i :: int and P
    using that unfolding set_filter by auto
  ultimately show ?thesis
    unfolding code_digits_def decimals_def digit_code_def map_map comp_def by (intro map_cong refl) metis
qed

lemma decimals_range: "\<forall>d \<in> set (decimals c). 0 \<le> d \<and> d \<le> 9"
  by (auto simp: decimals_def)

lemma decimals_value:
  assumes "0 \<le> c" and "c < 100000"
  shows "foldl (\<lambda>a d. 10 * a + d) 0 (decimals c) = c"
proof -
  define q where "q k = c div k" for k :: int
  have eqs: "c = 10 * q 10 + c mod 10" "q 10 = 10 * q 100 + q 10 mod 10"
    "q 100 = 10 * q 1000 + q 100 mod 10" "q 1000 = 10 * q 10000 + q 1000 mod 10"
  proof -
    have "x = 10 * (x div 10) + x mod 10" for x :: int
      by simp
    moreover have "q 100 = q 10 div 10" "q 1000 = q 100 div 10" "q 10000 = q 1000 div 10"
      using zdiv_zmult2_eq [of 10 c 10] zdiv_zmult2_eq [of 10 c 100] zdiv_zmult2_eq [of 10 c 1000]
      by (simp_all only: q_def)
    moreover have "q 10 = c div 10"
      by (simp only: q_def)
    ultimately show "c = 10 * q 10 + c mod 10" "q 10 = 10 * q 100 + q 10 mod 10"
      "q 100 = 10 * q 1000 + q 100 mod 10" "q 1000 = 10 * q 10000 + q 1000 mod 10"
      by metis+
  qed
  have small: "q k = 0" if "c < k" for k
    using that assms(1) by (simp add: q_def)
  have top: "q 10000 mod 10 = q 10000"
    using assms by (simp add: q_def)
  have unit: "q 1 = c"
    by (simp add: q_def)
  have list: "decimals c = map (\<lambda>i. q i mod 10) (filter (\<lambda>i. c \<ge> i \<or> i = 1) [10000, 1000, 100, 10, 1])"
    by (simp add: decimals_def q_def)
  consider "c < 10" | "10 \<le> c" "c < 100" | "100 \<le> c" "c < 1000" | "1000 \<le> c" "c < 10000" | "10000 \<le> c"
    by linarith
  then show ?thesis
  proof cases
    case 1
    with small [of 10] show ?thesis
      unfolding list by (simp add: unit) (insert eqs, linarith)
  next
    case 2
    with small [of 100] show ?thesis
      unfolding list by (simp add: unit) (insert eqs, linarith)
  next
    case 3
    with small [of 1000] show ?thesis
      unfolding list by (simp add: unit) (insert eqs, linarith)
  next
    case 4
    with small [of 10000] show ?thesis
      unfolding list by (simp add: unit) (insert eqs, linarith)
  next
    case 5
    with top show ?thesis
      unfolding list by (simp add: unit) (insert eqs, linarith)
  qed
qed

subsection \<open>One number\<close>

lemma replay_code_at:
  assumes "0 \<le> c" and "c < 100000"
  shows "replay_code (at_rest pre (code_text c b @ rest)) = (c, at_rest (pre @ code_text c b) rest)"
proof (cases "b \<or> c = 0x5b \<or> c < 0x20 \<or> c > 0x7e")
  case True
  have "uint (0x5b :: zbyte) = 0x5b" "uint (0x5d :: zbyte) = 0x5d"
    by simp_all
  with True show ?thesis
    using assms replay_digits_at [OF decimals_range, of "0x5d" 0 "pre @ [0x5b]" c rest] decimals_value [OF assms]
    by (simp add: replay_code_def code_text_def code_digits_eq)
next
  case False
  then have "uint (word_of_int c :: zbyte) = c"
    by (subst uint_word_of_int) simp
  with False show ?thesis
    by (simp add: replay_code_def code_text_def)
qed

subsection \<open>Recording\<close>

definition rec_file :: "zstate \<Rightarrow> zbyte list" where
  "rec_file s = (case disk (dev s) (rec_name (dev s)) of None \<Rightarrow> [] | Some bs \<Rightarrow> bs)"

text \<open>The bytes \<open>bs\<close> have been appended to the command file and nothing else has happened.\<close>

definition but_disk :: "zstate \<Rightarrow> zstate" where
  "but_disk s = s\<lparr>dev := (dev s)\<lparr>disk := (\<lambda>name. None)\<rparr>, clock := 0\<rparr>"

definition appended :: "zbyte list \<Rightarrow> zstate \<Rightarrow> zstate \<Rightarrow> bool" where
  "appended bs s t \<longleftrightarrow> rec_file t = rec_file s @ bs \<and> but_disk t = but_disk s"

definition rec_writable :: "zstate \<Rightarrow> bool" where
  "rec_writable s \<longleftrightarrow> (\<forall>n. os_answer s n \<noteq> -1)"

lemma appended_none: "appended [] s s"
  by (simp add: appended_def)

lemma appended_trans: "appended bs s t \<Longrightarrow> appended cs t u \<Longrightarrow> appended (bs @ cs) s u"
  by (simp add: appended_def)

lemma but_disk_view:
  assumes "but_disk t = but_disk s"
  shows "zmp t = zmp s" "hdr t = hdr s" "story_size t = story_size s" "story_id t = story_id s"
    "os_answer t = os_answer s" "mouse_x (dev t) = mouse_x (dev s)" "mouse_y (dev t) = mouse_y (dev s)"
proof -
  have "zmp (but_disk r) = zmp r" "hdr (but_disk r) = hdr r" "story_size (but_disk r) = story_size r"
    "story_id (but_disk r) = story_id r" "os_answer (but_disk r) = os_answer r"
    "mouse_x (dev (but_disk r)) = mouse_x (dev r)" "mouse_y (dev (but_disk r)) = mouse_y (dev r)" for r
    by (simp_all add: but_disk_def)
  with assms show "zmp t = zmp s" "hdr t = hdr s" "story_size t = story_size s" "story_id t = story_id s"
    "os_answer t = os_answer s" "mouse_x (dev t) = mouse_x (dev s)" "mouse_y (dev t) = mouse_y (dev s)"
    by metis+
qed

text \<open>The translations look at memory, its size, the header and the story only.\<close>

lemma translate_view:
  assumes "zmp t = zmp s" and "hdr t = hdr s" and "story_size t = story_size s" and "story_id t = story_id s"
  shows "translate_to_zscii c t = translate_to_zscii c s" and "translate_from_zscii z t = translate_from_zscii z s"
proof -
  have b: "low_byte a t = low_byte a s" for a
    using assms by (simp add: low_byte_def)
  have w: "low_word a t = low_word a s" for a
    unfolding low_word_def b ..
  have "unicode_search c is t = unicode_search c is s" for "is"
    by (induction "is") (simp_all only: unicode_search.simps w assms(2))
  then show "translate_to_zscii c t = translate_to_zscii c s" "translate_from_zscii z t = translate_from_zscii z s"
    unfolding translate_to_zscii_def translate_from_zscii_def b w assms by simp_all
qed

lemma appended_rest:
  assumes "appended bs s t"
  shows "translate_to_zscii c t = translate_to_zscii c s" "mouse_x (dev t) = mouse_x (dev s)"
    "mouse_y (dev t) = mouse_y (dev s)" "rec_writable t = rec_writable s"
proof -
  have view: "but_disk t = but_disk s"
    using assms by (simp add: appended_def)
  note [simp] = but_disk_view [OF view]
  show "translate_to_zscii c t = translate_to_zscii c s" "mouse_x (dev t) = mouse_x (dev s)"
    "mouse_y (dev t) = mouse_y (dev s)" "rec_writable t = rec_writable s"
    using translate_view(1) [of t s] by (simp_all add: rec_writable_def)
qed

lemma rec_putc_appends: "rec_writable s \<Longrightarrow> \<exists>t. rec_putc b s = (True, t) \<and> appended [b] s t"
  by (auto simp: rec_putc_def ask_def rec_writable_def appended_def but_disk_def rec_file_def upd_dev_def split: option.split)

lemma rec_bytes_appends: "rec_writable s \<Longrightarrow> appended bs s (rec_bytes bs s)"
proof (induction bs arbitrary: s)
  case Nil
  then show ?case
    by (simp add: rec_bytes_def appended_none)
next
  case (Cons b bs)
  obtain t where t: "rec_putc b s = (True, t)" "appended [b] s t"
    using rec_putc_appends [OF Cons(2)] by blast
  then have "appended bs t (rec_bytes bs t)"
    using Cons appended_rest(4) by blast
  with t show ?case
    using appended_trans [of "[b]" s t bs] by (simp add: rec_bytes_def)
qed

text \<open>What is written for a key.\<close>

definition key_text :: "zchar \<Rightarrow> zstate \<Rightarrow> zbyte list \<Rightarrow> bool" where
  "key_text c s bs \<longleftrightarrow>
     (if c = ZC_RETURN then bs = []
      else if is_hot_key c then bs = code_text (1000 + uint c - uint ZC_HKEY_MIN) True
      else \<exists>z. translate_to_zscii c s = Ok z \<and>
        bs = code_text (uint z) False @
          (if is_click c then code_text (mouse_x (dev s)) True @ code_text (mouse_y (dev s)) True else []))"

lemma record_char_appends:
  assumes "rec_writable s" and "key_text c s bs"
  obtains t where "record_char c s = Ok t" "appended bs s t"
proof -
  consider "c = ZC_RETURN" | "c \<noteq> ZC_RETURN" "is_hot_key c" | "c \<noteq> ZC_RETURN" "\<not> is_hot_key c"
    by blast
  then show ?thesis
  proof cases
    case 1
    then show ?thesis
      using that assms appended_none by (simp add: record_char_def key_text_def)
  next
    case 2
    then show ?thesis
      using that assms rec_bytes_appends by (simp add: record_char_def key_text_def record_code_def)
  next
    case 3
    with assms(2) obtain z where z: "translate_to_zscii c s = Ok z" and bs: "bs = code_text (uint z) False @
        (if is_click c then code_text (mouse_x (dev s)) True @ code_text (mouse_y (dev s)) True else [])"
      by (auto simp: key_text_def)
    define t1 where "t1 = record_code (uint z) False s"
    have t1: "appended (code_text (uint z) False) s t1"
      using rec_bytes_appends [OF assms(1)] by (simp add: t1_def record_code_def)
    define t2 where "t2 = record_code (mouse_x (dev t1)) True t1"
    have t2: "appended (code_text (mouse_x (dev t1)) True) t1 t2"
      using rec_bytes_appends t1 appended_rest(4) assms(1) by (simp add: t2_def record_code_def)
    have t3: "appended (code_text (mouse_y (dev t1)) True) t2 (record_code (mouse_y (dev t1)) True t2)"
      using rec_bytes_appends t1 t2 appended_rest(4) assms(1) by (simp add: record_code_def)
    show ?thesis
    proof (cases "is_click c")
      case True
      then have "record_char c s = Ok (record_code (mouse_y (dev t1)) True t2)"
        using 3 z by (simp add: record_char_def t2_def t1_def Let_def)
      moreover have "appended bs s (record_code (mouse_y (dev t1)) True t2)"
        using appended_trans [OF t1 appended_trans [OF t2 t3]] True bs appended_rest(2,3) [OF t1]
        by simp
      ultimately show ?thesis
        using that by blast
    next
      case False
      then have "record_char c s = Ok t1"
        using 3 z by (simp add: record_char_def t1_def)
      with False t1 bs show ?thesis
        using that by simp
    qed
  qed
qed

subsection \<open>Playing back\<close>

text \<open>
  The keys that come back: those that ZSCII can express. A line feed would be taken for the end of the
  record. \<open>same_game\<close> says that both states are of one game: what the translations look at is the same.
\<close>

definition expressible :: "zchar \<Rightarrow> zstate \<Rightarrow> bool" where
  "expressible c s \<longleftrightarrow>
     c = ZC_RETURN \<or> is_hot_key c \<or>
     c \<notin> {CH_NEWLINE, 0x9e, 0x9f} \<and> (\<exists>z. translate_to_zscii c s = Ok z \<and> (z = CH_QUERY \<longrightarrow> c = CH_QUERY))"

definition plain_tables :: "zstate \<Rightarrow> bool" where
  "plain_tables s \<longleftrightarrow> story_id s \<noteq> BEYOND_ZORK \<and>
     (hx_unicode_table (hdr s) \<noteq> 0 \<longrightarrow>
       (\<forall>n. low_byte (uint (hx_unicode_table (hdr s))) s = Ok n \<longrightarrow> n \<le> 97))"

definition same_game :: "zstate \<Rightarrow> zstate \<Rightarrow> bool" where
  "same_game t s \<longleftrightarrow> zmp t = zmp s \<and> hdr t = hdr s \<and> story_size t = story_size s \<and> story_id t = story_id s"

definition mouse_ok :: "zstate \<Rightarrow> bool" where
  "mouse_ok s \<longleftrightarrow> mouse_x (dev s) \<in> {0..<100000} \<and> mouse_y (dev s) \<in> {0..<100000}"

text \<open>The state after the key \<open>c\<close> has been played back: the file is read up to \<open>f\<close>.\<close>

definition played :: "zchar \<Rightarrow> zstate \<Rightarrow> cfile \<Rightarrow> zstate \<Rightarrow> zstate" where
  "played c s f u = upd_dev (\<lambda>d. d\<lparr>pfp := f,
     mouse_x := (if is_click c then mouse_x (dev s) else mouse_x d),
     mouse_y := (if is_click c then mouse_y (dev s) else mouse_y d)\<rparr>) u"

lemma played_same: "same_game (played c s f u) u" "pfp (dev (played c s f u)) = f"
  by (simp_all add: played_def same_game_def upd_dev_def)

lemma zscii_not_newline:
  assumes "translate_to_zscii c s = Ok z" and "c \<noteq> CH_NEWLINE" and "plain_tables s"
  shows "z \<noteq> CH_NEWLINE"
proof
  assume z: "z = CH_NEWLINE"
  show False
  proof (cases "hx_unicode_table (hdr s) = 0")
    case True
    have "latin1_search c [0x9b..<0xe0] \<noteq> CH_NEWLINE"
    proof
      define ks :: "nat list" where "ks = [0x9b..<0xe0]"
      assume "latin1_search c [0x9b..<0xe0] = CH_NEWLINE"
      then have "latin1_search c ks = CH_NEWLINE"
        by (simp only: ks_def)
      then obtain i where "i \<in> set ks" "of_nat i = (CH_NEWLINE :: zbyte)"
        using latin1_search_found [of c ks] by auto
      moreover from this(1) have "0x9b \<le> i" "i < 0xe0"
        by (simp_all only: ks_def set_upt atLeastLessThan_iff)
      ultimately show False
        by (simp add: word_unat_eq_iff unat_of_nat)
    qed
    with True assms z show False
      unfolding translate_to_zscii_def by (auto split: if_splits)
  next
    case False
    have "unicode_search c [0x9b..0x9b + uint n - 1] s \<noteq> Ok CH_NEWLINE"
      if n: "low_byte (uint (hx_unicode_table (hdr s))) s = Ok n" for n
    proof
      assume "unicode_search c [0x9b..0x9b + uint n - 1] s = Ok CH_NEWLINE"
      from unicode_search_found [OF this] obtain i where
        i: "0x9b \<le> i" "i < 0x9b + uint n" "(CH_NEWLINE :: zbyte) = word_of_int i"
        by auto
      have "uint n \<le> 97"
        using assms(3) False n by (auto simp: plain_tables_def word_le_def)
      then have "uint (word_of_int i :: zbyte) = i"
        using i(1,2) by (simp add: uint_word_of_int)
      then have "uint (CH_NEWLINE :: zbyte) = i"
        unfolding i(3) .
      with i(1) show False
        by simp
    qed
    with False assms z show False
      unfolding translate_to_zscii_def by (auto simp: andthen_eq_Ok split: if_splits)
  qed
qed

lemma replay_char_back:
  assumes bytes: "key_text c s bs" and c: "expressible c s" and s: "plain_tables s" "is_click c \<Longrightarrow> mouse_ok s"
    and u: "same_game u s" "pfp (dev u) = at_rest pre (bs @ rest)"
    and "c = ZC_RETURN \<Longrightarrow> \<exists>rest'. rest = CH_NEWLINE # rest'"
  shows "replay_char u = Ok (c, played c s (at_rest (pre @ bs) rest) u)"
proof -
  have trans: "translate_from_zscii z u = translate_from_zscii z s" for z
    using u(1) by (intro translate_view(2)) (simp_all add: same_game_def)
  consider "c = ZC_RETURN" | "c \<noteq> ZC_RETURN" "is_hot_key c" | "c \<noteq> ZC_RETURN" "\<not> is_hot_key c"
    by blast
  then show ?thesis
  proof cases
    case 1
    then obtain rest' where rest: "rest = CH_NEWLINE # rest'"
      using assms(7) by blast
    have "replay_code (at_rest pre (CH_NEWLINE # rest')) = (10, at_rest (pre @ [CH_NEWLINE]) rest')"
      by (simp add: replay_code_def)
    then show ?thesis
      using 1 bytes u(2) rest unget_at [of pre rest']
      by (simp add: replay_char_def key_text_def played_def set_pfp_def is_click_def)
  next
    case 2
    then have bs: "bs = code_text (1000 + uint c - 0x0e) True"
      using bytes by (simp add: key_text_def)
    have range: "0x0e \<le> uint c" "uint c \<le> 0x15"
      using 2(2) by (simp_all add: is_hot_key_def word_le_def)
    then have code: "replay_code (at_rest pre (bs @ rest)) = (1000 + uint c - 0x0e, at_rest (pre @ bs) rest)"
      unfolding bs by (intro replay_code_at) auto
    have "\<not> is_click c"
      using range by (auto simp: is_click_def)
    moreover have "0x0e + word_of_int (uint c - 0x0e) = c"
      by (simp add: of_int_diff)
    ultimately show ?thesis
      using code range u(2) by (simp add: replay_char_def played_def set_pfp_def)
  next
    case 3
    with c obtain z where z: "translate_to_zscii c s = Ok z" "z = CH_QUERY \<longrightarrow> c = CH_QUERY"
      "c \<notin> {CH_NEWLINE, 0x9e, 0x9f}"
      by (auto simp: expressible_def)
    have returned: "translate_from_zscii z u = Ok c"
      unfolding trans using z s(1) by (intro translate_back) (auto simp: plain_tables_def)
    have "z \<noteq> CH_NEWLINE"
      using zscii_not_newline z s(1) by auto
    then have "uint z \<noteq> 10"
      by (simp add: word_uint_eq_iff)
    have "uint z < 256" "uint z \<noteq> - 1"
      using uint_byte_bounds [of z] by linarith+
    define clicks where "clicks = (if is_click c then code_text (mouse_x (dev s)) True @ code_text (mouse_y (dev s)) True else [])"
    have bs: "bs = code_text (uint z) False @ clicks"
      using 3 bytes z(1) by (simp add: key_text_def clicks_def)
    have code: "replay_code (at_rest pre (code_text (uint z) False @ clicks @ rest)) =
        (uint z, at_rest (pre @ code_text (uint z) False) (clicks @ rest))"
      using \<open>uint z < 256\<close> by (intro replay_code_at) auto
    show ?thesis
    proof (cases "is_click c")
      case True
      then have "0 \<le> mouse_x (dev s)" "mouse_x (dev s) < 100000" "0 \<le> mouse_y (dev s)" "mouse_y (dev s) < 100000"
        using s(2) by (simp_all add: mouse_ok_def)
      note replay_code_at [OF this(1,2), of _ True] replay_code_at [OF this(3,4), of _ True]
      then show ?thesis
        using code returned True u(2) bs \<open>uint z \<noteq> 10\<close> \<open>uint z < 256\<close> \<open>uint z \<noteq> - 1\<close>
        by (simp add: replay_char_def clicks_def played_def set_pfp_def upd_dev_def)
    next
      case False
      then show ?thesis
        using code returned u(2) bs \<open>uint z \<noteq> 10\<close> \<open>uint z < 256\<close> \<open>uint z \<noteq> - 1\<close>
        by (simp add: replay_char_def clicks_def played_def set_pfp_def upd_dev_def)
    qed
  qed
qed

subsection \<open>A key\<close>

lemma key_text_exists: "expressible c s \<Longrightarrow> \<exists>bs. key_text c s bs"
  by (auto simp: expressible_def key_text_def)

lemma record_end_appends:
  assumes "rec_writable s"
  shows "appended [CH_NEWLINE] s (record_end s)"
  using rec_putc_appends [OF assms, of CH_NEWLINE] by (auto simp: record_end_def)

lemma replay_end_at:
  "pfp (dev u) = at_rest pre (CH_NEWLINE # rest) \<Longrightarrow>
    replay_end key u = (key, set_pfp (at_rest (pre @ [CH_NEWLINE]) rest) u)"
  by (simp add: replay_end_def)

text \<open>
  C0. Playing back a key that has been recorded: when the command file can be written, recording a key
  that ZSCII can express (hot keys, clicks and the return key included) succeeds, and a later playback of
  the file from the place where recording began returns this key, sets the mouse to where the click was,
  and leaves the file at the place where recording ended.
\<close>

theorem replay_recorded_key:
  assumes "rec_writable s" and "expressible key s" and "plain_tables s" and "is_click key \<longrightarrow> mouse_ok s"
  shows "\<exists>t. record_write_key key s = Ok t \<and>
    (\<exists>line. rec_file t = rec_file s @ line \<and>
      (\<forall>u later. same_game u s \<and> pfp (dev u) = \<lparr>f_bytes = rec_file t @ later, f_pos = length (rec_file s)\<rparr> \<longrightarrow>
        replay_read_key u =
          Ok (key, played key s \<lparr>f_bytes = rec_file t @ later, f_pos = length (rec_file t)\<rparr> u)))"
proof -
  obtain bs where bs: "key_text key s bs"
    using key_text_exists [OF assms(2)] by blast
  obtain s1 where s1: "record_char key s = Ok s1" "appended bs s s1"
    using record_char_appends [OF assms(1) bs] .
  have end': "appended [CH_NEWLINE] s1 (record_end s1)"
    using record_end_appends appended_rest(4) [OF s1(2)] assms(1) by simp
  let ?t = "record_end s1"
  have t: "rec_file ?t = rec_file s @ bs @ [CH_NEWLINE]"
    using appended_trans [OF s1(2) end'] by (simp add: appended_def)
  have "replay_read_key u = Ok (key, played key s \<lparr>f_bytes = rec_file ?t @ later, f_pos = length (rec_file ?t)\<rparr> u)"
    if u: "same_game u s" "pfp (dev u) = \<lparr>f_bytes = rec_file ?t @ later, f_pos = length (rec_file s)\<rparr>" for u later
  proof -
    have "pfp (dev u) = at_rest (rec_file s) (bs @ CH_NEWLINE # later)"
      using u(2) t by (simp add: at_rest_def)
    then have "replay_char u = Ok (key, played key s (at_rest (rec_file s @ bs) (CH_NEWLINE # later)) u)"
      using assms bs u(1) by (intro replay_char_back) auto
    then show ?thesis
      using t by (simp add: replay_read_key_def replay_end_at played_same)
        (simp add: played_def set_pfp_def upd_dev_def at_rest_def)
  qed
  then show ?thesis
    using s1(1) t by (auto simp: record_write_key_def)
qed

text \<open>A machine for examples: every file can be written, and nothing has been recorded yet.\<close>

lemma example_recorder:
  "rec_writable (small_machine 5 [])" "plain_tables (small_machine 5 [])" "rec_file (small_machine 5 []) = []"
  by (simp_all add: rec_writable_def plain_tables_def rec_file_def small_machine_def initial_state_def initial_header_def
      initial_dev_def)

lemma example_key:
  assumes "0x20 \<le> c" and "c < 0x7f"
  shows "expressible c s" and "\<not> is_click c"
proof -
  have "c \<noteq> 0" "c \<noteq> CH_NEWLINE" "\<not> 0x9b \<le> c" "\<not> 0xa0 \<le> c"
    using assms by (auto simp: word_le_nat_alt word_less_nat_alt)
  moreover from this(3) have "c \<noteq> 0x9b" "c \<noteq> 0x9c" "c \<noteq> 0x9d" "c \<noteq> 0x9e" "c \<noteq> 0x9f"
    by auto
  ultimately show "expressible c s" and "\<not> is_click c"
    by (simp_all add: expressible_def translate_to_zscii_def is_click_def)
qed

theorem replay_recorded_key_witness:
  "\<exists>t u. record_write_key 0x61 (small_machine 5 []) = Ok t \<and>
    replay_read_key (set_pfp \<lparr>f_bytes = rec_file t, f_pos = 0\<rparr> (small_machine 5 [])) = Ok (0x61, u)"
proof -
  let ?s = "small_machine 5 []"
  have "is_click 0x61 \<longrightarrow> mouse_ok ?s"
    by (simp add: is_click_def)
  moreover have "expressible 0x61 ?s"
    by (rule example_key) simp_all
  ultimately
  obtain t where t: "record_write_key 0x61 ?s = Ok t" and back_again:
    "\<And>u later. same_game u ?s \<Longrightarrow> pfp (dev u) = \<lparr>f_bytes = rec_file t @ later, f_pos = length (rec_file ?s)\<rparr> \<Longrightarrow>
      replay_read_key u = Ok (0x61, played 0x61 ?s \<lparr>f_bytes = rec_file t @ later, f_pos = length (rec_file t)\<rparr> u)"
    using replay_recorded_key [OF example_recorder(1) _ example_recorder(2)] by blast
  let ?u = "set_pfp \<lparr>f_bytes = rec_file t, f_pos = 0\<rparr> ?s"
  have "same_game ?u ?s" "pfp (dev ?u) = \<lparr>f_bytes = rec_file t @ [], f_pos = length (rec_file ?s)\<rparr>"
    by (simp_all add: same_game_def set_pfp_def upd_dev_def example_recorder(3))
  with back_again t show ?thesis
    by blast
qed

subsection \<open>A line\<close>

lemma same_game_view:
  assumes "same_game t s"
  shows "translate_from_zscii z t = translate_from_zscii z s" and "low_byte a t = low_byte a s"
  using assms translate_view(2) [of t s z] by (simp_all add: same_game_def low_byte_def)

lemma same_game_trans: "same_game t s \<Longrightarrow> same_game u t \<Longrightarrow> same_game u s"
  by (simp add: same_game_def)

lemma andthen_more: "andthen m f = Some r \<Longrightarrow> (\<And>x q. f x = Some q \<Longrightarrow> g x = Some q) \<Longrightarrow> andthen m g = Some r"
  by (auto simp: andthen_def split: option.splits sum.splits)

lemma terminator_loop_same:
  "terminator_loop addr key s = Some r \<Longrightarrow> \<forall>t. same_game t s \<longrightarrow> terminator_loop addr key t = Some r"
proof (erule terminator_loop.raw_induct [rotated 1, where
      P = "\<lambda>addr key s r. \<forall>t. same_game t s \<longrightarrow> terminator_loop addr key t = Some r"], goal_cases)
  case (1 f addr key s r)
  show ?case
  proof (intro allI impI)
    fix t
    assume t: "same_game t s"
    have step: "terminator_loop (addr + 1) key t = Some q" if "f (addr + 1) key s = Some q" for q
      using 1(1) [OF that, rule_format, OF t] .
    show "terminator_loop addr key t = Some r"
      unfolding terminator_loop.simps [of addr key t] same_game_view [OF t]
      by (rule andthen_more [OF 1(2)], erule andthen_more) (auto dest: step split: if_splits)
  qed
qed

lemma is_terminator_same:
  assumes "same_game t s" and "is_terminator c s = Ok b"
  shows "is_terminator c t = Ok b"
proof -
  have "h_terminating_keys (hdr t) = h_terminating_keys (hdr s)"
    using assms(1) by (simp add: same_game_def)
  then show ?thesis
    using assms terminator_loop_same [of "h_terminating_keys (hdr s)" c s "Inr b"]
    by (auto simp: is_terminator_def split: if_splits)
qed

primrec line_text :: "zchar list \<Rightarrow> zstate \<Rightarrow> zbyte list \<Rightarrow> bool" where
  "line_text [] s bs \<longleftrightarrow> bs = []"
| "line_text (c # cs) s bs \<longleftrightarrow> (\<exists>bs1 bs2. key_text c s bs1 \<and> line_text cs s bs2 \<and> bs = bs1 @ bs2)"

lemma key_text_appended: "appended xs s t \<Longrightarrow> key_text c t bs = key_text c s bs"
  using appended_rest [of xs s t] by (simp add: key_text_def)

lemma line_text_appended: "appended xs s t \<Longrightarrow> line_text cs t bs = line_text cs s bs"
  by (induction cs arbitrary: bs) (simp_all add: key_text_appended)

lemma line_text_exists: "\<forall>c \<in> set cs. expressible c s \<Longrightarrow> \<exists>bs. line_text cs s bs"
  using key_text_exists by (induction cs) fastforce+

lemma record_chars_appends:
  assumes "rec_writable s" and "line_text cs s bs"
  shows "\<exists>t. record_chars cs s = Ok t \<and> appended bs s t"
  using assms
proof (induction cs arbitrary: s bs)
  case Nil
  then show ?case
    by (simp add: appended_none)
next
  case (Cons c cs)
  then obtain bs1 bs2 where bs: "key_text c s bs1" "line_text cs s bs2" "bs = bs1 @ bs2"
    by auto
  obtain s1 where s1: "record_char c s = Ok s1" "appended bs1 s s1"
    using record_char_appends [OF Cons(2) bs(1)] .
  then have "rec_writable s1" "line_text cs s1 bs2"
    using Cons(2) bs(2) appended_rest(4) line_text_appended by blast+
  then obtain t where "record_chars cs s1 = Ok t" "appended bs2 s1 t"
    using Cons(1) by blast
  with s1 bs(3) show ?case
    using appended_trans by (auto simp: andthen_eq_Ok)
qed

definition line_chars :: "zchar list \<Rightarrow> zstate \<Rightarrow> bool" where
  "line_chars cs s \<longleftrightarrow>
     (\<forall>c \<in> set cs. expressible c s \<and> (is_click c \<longrightarrow> mouse_ok s) \<and> c \<noteq> 0 \<and> c \<noteq> ZC_BAD \<and> is_terminator c s = Ok False)"

text \<open>The state after a line has been played back, up to the mouse.\<close>

definition line_played :: "zchar \<Rightarrow> zstate \<Rightarrow> cfile \<Rightarrow> zstate \<Rightarrow> zstate \<Rightarrow> bool" where
  "line_played key s f u v \<longleftrightarrow>
     pfp (dev v) = f \<and> (\<exists>x y. v = upd_dev (\<lambda>d. d\<lparr>pfp := f, mouse_x := x, mouse_y := y\<rparr>) u) \<and>
     (is_click key \<longrightarrow> mouse_x (dev v) = mouse_x (dev s) \<and> mouse_y (dev v) = mouse_y (dev s))"

lemma line_played_key: "line_played key s f u (played key s f u)"
proof -
  have "played key s f u = upd_dev (\<lambda>d. d\<lparr>pfp := f,
      mouse_x := (if is_click key then mouse_x (dev s) else mouse_x (dev u)),
      mouse_y := (if is_click key then mouse_y (dev s) else mouse_y (dev u))\<rparr>) u"
    by (simp add: played_def upd_dev_def)
  then show ?thesis
    unfolding line_played_def by (intro conjI exI impI) (assumption | simp add: played_def upd_dev_def)+
qed

lemma line_played_end: "line_played key s f u v \<Longrightarrow> line_played key s g u (set_pfp g v)"
proof -
  assume "line_played key s f u v"
  then obtain x y where v: "v = upd_dev (\<lambda>d. d\<lparr>pfp := f, mouse_x := x, mouse_y := y\<rparr>) u"
    and mouse: "is_click key \<longrightarrow> mouse_x (dev v) = mouse_x (dev s) \<and> mouse_y (dev v) = mouse_y (dev s)"
    unfolding line_played_def by blast
  have "set_pfp g v = upd_dev (\<lambda>d. d\<lparr>pfp := g, mouse_x := x, mouse_y := y\<rparr>) u"
    by (simp add: v set_pfp_def upd_dev_def)
  moreover have "dev (set_pfp g v) = (dev v)\<lparr>pfp := g\<rparr>"
    by (simp add: set_pfp_def upd_dev_def)
  ultimately show ?thesis
    using mouse unfolding line_played_def by auto
qed

lemma replay_text_back:
  assumes "line_text cs s bs" and "line_chars cs s" and "plain_tables s"
    and "key_text key s kb" and "expressible key s" and "is_click key \<Longrightarrow> mouse_ok s" and "is_terminator key s = Ok True"
    and "same_game u s" and "pfp (dev u) = at_rest pre (bs @ kb @ CH_NEWLINE # later)" and "length cs < n"
  shows "\<exists>v. replay_text n i u = Ok (key, cs, v) \<and>
    line_played key s (at_rest (pre @ bs @ kb) (CH_NEWLINE # later)) u v"
  using assms
proof (induction cs arbitrary: n i u pre bs)
  case Nil
  then obtain m where n: "n = Suc m"
    by (cases n) auto
  have "replay_char u = Ok (key, played key s (at_rest (pre @ kb) (CH_NEWLINE # later)) u)"
    using Nil by (intro replay_char_back) auto
  moreover have "is_terminator key (played key s (at_rest (pre @ kb) (CH_NEWLINE # later)) u) = Ok True"
    using Nil same_game_trans played_same(1) is_terminator_same by blast
  ultimately show ?case
    using Nil(1) n line_played_key
    by (intro exI [of _ "played key s (at_rest (pre @ kb) (CH_NEWLINE # later)) u"] conjI) simp_all
next
  case (Cons c cs)
  then obtain m where n: "n = Suc m" "length cs < m"
    by (cases n) auto
  from Cons(2) obtain bs1 bs2 where bs: "key_text c s bs1" "line_text cs s bs2" "bs = bs1 @ bs2"
    by auto
  have c: "expressible c s" "is_click c \<Longrightarrow> mouse_ok s" "c \<noteq> ZC_BAD" "is_terminator c s = Ok False" "line_chars cs s"
    using Cons(3) by (simp_all add: line_chars_def)
  have ret: "c \<noteq> ZC_RETURN"
    using c(4) by (auto simp: is_terminator_def)
  let ?u = "played c s (at_rest (pre @ bs1) (bs2 @ kb @ CH_NEWLINE # later)) u"
  have char: "replay_char u = Ok (c, ?u)"
    using Cons bs c ret by (intro replay_char_back) auto
  have same: "same_game ?u s"
    using Cons(9) played_same(1) same_game_trans by blast
  have "\<exists>v. replay_text m (i + 1) ?u = Ok (key, cs, v) \<and>
      line_played key s (at_rest ((pre @ bs1) @ bs2 @ kb) (CH_NEWLINE # later)) ?u v"
    by (rule Cons(1) [OF bs(2) c(5) Cons(4-8) same _ n(2)]) (simp_all add: played_same)
  then obtain v where v: "replay_text m (i + 1) ?u = Ok (key, cs, v)"
    "line_played key s (at_rest (pre @ bs @ kb) (CH_NEWLINE # later)) ?u v"
    using bs(3) by auto
  have "line_played key s (at_rest (pre @ bs @ kb) (CH_NEWLINE # later)) u v"
    using v(2) by (auto simp: line_played_def played_def upd_dev_def)
  moreover have "is_terminator c ?u = Ok False"
    using same c(4) is_terminator_same by blast
  ultimately show ?case
    using char v(1) n(1) c(3) by auto
qed

text \<open>
  C28. Playing back a line that has been recorded: the line and the key that ended it come back as they
  were, when the characters of the line are ones that ZSCII can express and that do not end a line, and
  the buffer has room for them and the final zero.
\<close>

theorem replay_recorded_line:
  assumes "rec_writable s" and "plain_tables s" and "line_chars buf s"
    and "expressible key s" and "is_click key \<longrightarrow> mouse_ok s" and "is_terminator key s = Ok True"
  shows "\<exists>t. record_write_input buf key s = Ok t \<and>
    (\<exists>line. rec_file t = rec_file s @ line \<and>
      (\<forall>u later room. same_game u s \<and> length buf < room \<and>
        pfp (dev u) = \<lparr>f_bytes = rec_file t @ later, f_pos = length (rec_file s)\<rparr> \<longrightarrow>
        (\<exists>v. replay_read_input room u = Ok (key, buf, v) \<and>
          line_played key s \<lparr>f_bytes = rec_file t @ later, f_pos = length (rec_file t)\<rparr> u v)))"
proof -
  obtain bs where bs: "line_text buf s bs"
    using line_text_exists [of buf s] assms(3) unfolding line_chars_def by blast
  obtain kb where kb: "key_text key s kb"
    using key_text_exists [OF assms(4)] by blast
  obtain s1 where s1: "record_chars buf s = Ok s1" "appended bs s s1"
    using record_chars_appends [OF assms(1) bs] by blast
  have w1: "rec_writable s1"
    using s1(2) assms(1) appended_rest(4) by simp
  obtain s2 where s2: "record_char key s1 = Ok s2" "appended kb s1 s2"
    using record_char_appends [OF w1] key_text_appended [OF s1(2)] kb by blast
  have "appended [CH_NEWLINE] s2 (record_end s2)"
    using record_end_appends s2(2) w1 appended_rest(4) by blast
  then have t: "rec_file (record_end s2) = rec_file s @ bs @ kb @ [CH_NEWLINE]"
    using s1(2) s2(2) by (simp add: appended_def)
  let ?t = "record_end s2"
  have "\<exists>v. replay_read_input room u = Ok (key, buf, v) \<and>
      line_played key s \<lparr>f_bytes = rec_file ?t @ later, f_pos = length (rec_file ?t)\<rparr> u v"
    if u: "same_game u s" "length buf < room" "pfp (dev u) = \<lparr>f_bytes = rec_file ?t @ later, f_pos = length (rec_file s)\<rparr>"
    for u later room
  proof -
    have "pfp (dev u) = at_rest (rec_file s) (bs @ kb @ CH_NEWLINE # later)"
      using u(3) t by (simp add: at_rest_def)
    from replay_text_back [OF bs assms(3,2) kb assms(4) _ assms(6) u(1) this u(2), of 0] assms(5)
    obtain v where v: "replay_text room 0 u = Ok (key, buf, v)"
      "line_played key s (at_rest (rec_file s @ bs @ kb) (CH_NEWLINE # later)) u v"
      by auto
    have "c_text buf = buf"
      using assms(3) by (auto simp: c_text_def line_chars_def takeWhile_eq_all_conv)
    moreover have "replay_end key v = (key, set_pfp (at_rest (rec_file s @ bs @ kb @ [CH_NEWLINE]) later) v)"
      using v(2) replay_end_at [of v "rec_file s @ bs @ kb" later key] by (simp add: line_played_def)
    moreover have "at_rest (rec_file s @ bs @ kb @ [CH_NEWLINE]) later =
        \<lparr>f_bytes = rec_file ?t @ later, f_pos = length (rec_file ?t)\<rparr>"
      using t by (simp add: at_rest_def)
    ultimately show ?thesis
      using v line_played_end by (simp add: replay_read_input_def)
  qed
  moreover have "record_write_input buf key s = Ok ?t"
    using s1(1) s2(1) by (simp add: record_write_input_def)
  ultimately show ?thesis
    using t by blast
qed

theorem replay_recorded_line_witness:
  "\<exists>t u. record_write_input (zs ''go'') ZC_RETURN (small_machine 5 []) = Ok t \<and>
    replay_read_input 200 (set_pfp \<lparr>f_bytes = rec_file t, f_pos = 0\<rparr> (small_machine 5 [])) =
      Ok (ZC_RETURN, zs ''go'', u)"
proof -
  let ?s = "small_machine 5 []"
  have letters: "set (zs ''go'') = {0x67, 0x6f}"
    by (simp add: zs_def)
  have "h_terminating_keys (hdr ?s) = 0"
    by (simp add: small_machine_def initial_state_def initial_header_def)
  then have "is_terminator 0x67 ?s = Ok False" "is_terminator 0x6f ?s = Ok False"
    by (simp_all add: is_terminator_def is_hot_key_def)
  moreover have "expressible 0x67 ?s" "expressible 0x6f ?s" "\<not> is_click 0x67" "\<not> is_click 0x6f"
    by (rule example_key; simp)+
  ultimately have "line_chars (zs ''go'') ?s"
    unfolding line_chars_def letters by simp
  moreover have "is_terminator ZC_RETURN ?s = Ok True" "expressible ZC_RETURN ?s" "is_click ZC_RETURN \<longrightarrow> mouse_ok ?s"
    by (simp_all add: is_terminator_def expressible_def is_click_def)
  ultimately obtain t where t: "record_write_input (zs ''go'') ZC_RETURN ?s = Ok t" and again:
    "\<And>u later room. same_game u ?s \<Longrightarrow> length (zs ''go'') < room \<Longrightarrow>
      pfp (dev u) = \<lparr>f_bytes = rec_file t @ later, f_pos = length (rec_file ?s)\<rparr> \<Longrightarrow>
      \<exists>v. replay_read_input room u = Ok (ZC_RETURN, zs ''go'', v)"
    using replay_recorded_line [OF example_recorder(1,2), of "zs ''go''" ZC_RETURN] by meson
  let ?u = "set_pfp \<lparr>f_bytes = rec_file t, f_pos = 0\<rparr> ?s"
  have "\<exists>v. replay_read_input 200 ?u = Ok (ZC_RETURN, zs ''go'', v)"
    by (rule again [of _ _ "[]"]) (simp_all add: zs_def same_game_def set_pfp_def upd_dev_def example_recorder(3))
  with t show ?thesis
    by blast
qed

end
