(* ===== verification/Screen_Correct.thy ===== *)
theory Screen_Correct
  imports ScreenOps Output_Correct
begin

text \<open>
  The window opcodes of screen.c: splitting the screen tiles it and leaves the cursor where it is, and a
  window property that has been written is the one that is read.
\<close>

subsection \<open>Flushing and the cursor\<close>

lemma flush_again:
  assumes "flush_buffer s = Ok u" and "out t = out u"
  shows "flush_buffer t = Ok t"
proof -
  have "locked (out u) \<or> bufpos (out u) = 0"
    using assms(1) by (auto simp: flush_buffer_def flush_buffer_h_def upd_out_def andthen_eq_Ok split: if_splits)
  then show ?thesis
    using assms(2) by (simp add: flush_buffer_def flush_buffer_h_def)
qed

lemma flush_core: "flush_buffer s = Ok u \<Longrightarrow> core u = core s"
  unfolding flush_buffer_def by (rule keepsD [OF out_io.quiet_flush_buffer [OF refl]])

lemma core_header:
  assumes "core u = core s"
  shows "version u = version s" "h_screen_height (hdr u) = h_screen_height (hdr s)" "zargs u = zargs s" "zargc u = zargc s"
proof -
  have "version (core r) = version r" "h_screen_height (hdr (core r)) = h_screen_height (hdr r)"
    "zargs (core r) = zargs r" "zargc (core r) = zargc r" for r
    by (simp_all add: core_def)
  then show "version u = version s" "h_screen_height (hdr u) = h_screen_height (hdr s)" "zargs u = zargs s"
    "zargc u = zargc s"
    using assms by metis+
qed

text \<open>\<open>reset_cursor\<close> and \<open>erase_window\<close> move the cursor of one window only.\<close>

definition but_cursor :: "window \<Rightarrow> window" where
  "but_cursor w = w\<lparr>y_cursor := 0, x_cursor := 0, line_count := 0\<rparr>"

definition cursor_moved :: "int \<Rightarrow> zstate \<Rightarrow> zstate \<Rightarrow> bool" where
  "cursor_moved win s t \<longleftrightarrow> hdr t = hdr s \<and> (\<forall>i. i \<noteq> win \<longrightarrow> wp (scr t) i = wp (scr s) i) \<and>
     but_cursor (wp (scr t) win) = but_cursor (wp (scr s) win)"

lemma cursor_stays [simp]: "cursor_moved win s s"
  by (simp add: cursor_moved_def)

lemma cursor_moved_trans: "cursor_moved win s t \<Longrightarrow> cursor_moved win t u \<Longrightarrow> cursor_moved win s u"
  by (simp add: cursor_moved_def)

lemma cursor_moved_log [simp]: "cursor_moved win s (log_event e t) = cursor_moved win s t"
  "cursor_moved win s (update_cursor t) = cursor_moved win s t"
  by (simp_all add: cursor_moved_def log_event_def upd_out_def update_cursor_def Let_def)

lemma reset_cursor_moves: "post (reset_cursor win s) (cursor_moved win s)"
proof -
  have "cursor_moved win s (upd_win win (\<lambda>w. w\<lparr>y_cursor := a w, x_cursor := b w\<rparr>) s)" for a b
    by (simp add: cursor_moved_def upd_win_def upd_scr_def but_cursor_def)
  then show ?thesis
    unfolding reset_cursor_def Let_def by (auto simp: post_def andthen_eq_Ok)
qed

lemma erase_window_moves: "post (erase_window win s) (cursor_moved win s)"
proof -
  have log: "cursor_moved win s (window_colour w t) = cursor_moved win s t" for w t
    by (simp add: window_colour_def)
  have count: "cursor_moved win t (upd_win win (\<lambda>w. w\<lparr>line_count := 0\<rparr>) t)" for t
    by (simp add: cursor_moved_def upd_win_def upd_scr_def but_cursor_def)
  show ?thesis
    unfolding erase_window_def Let_def post_andthen
    by (rule post_mono [OF reset_cursor_moves]) (auto intro!: cursor_moved_trans [OF _ count] elim!: cursor_moved_trans [rotated] simp: log)
qed

lemma cursor_moved_fields:
  assumes "cursor_moved win s t"
  shows "hdr t = hdr s" "y_pos (the_window i t) = y_pos (the_window i s)" "y_size (the_window i t) = y_size (the_window i s)"
    "w_font_size (the_window i t) = w_font_size (the_window i s)" "i \<noteq> win \<Longrightarrow> the_window i t = the_window i s"
proof -
  have "y_pos (but_cursor w) = y_pos w" "y_size (but_cursor w) = y_size w" "w_font_size (but_cursor w) = w_font_size w" for w
    by (simp_all add: but_cursor_def)
  with assms show "hdr t = hdr s" "y_pos (the_window i t) = y_pos (the_window i s)"
    "y_size (the_window i t) = y_size (the_window i s)" "w_font_size (the_window i t) = w_font_size (the_window i s)"
    "i \<noteq> win \<Longrightarrow> the_window i t = the_window i s"
    unfolding cursor_moved_def the_window_def by metis+
qed

subsection \<open>Splitting the screen\<close>

text \<open>The heights of the status line and of the upper window after a split, in units of the screen.\<close>

definition stat_height :: "zstate \<Rightarrow> zword" where
  "stat_height s = (if version s \<le> V3 then ucast (hi (w_font_size (the_window 7 s))) else 0)"

definition upper_height :: "zword \<Rightarrow> zstate \<Rightarrow> zword" where
  "upper_height h s = (if version s \<noteq> V6 then h * ucast (hi (w_font_size (the_window 1 s))) else h)"

lemma the_window_upd: "the_window i (upd_win j f s) = (if i = j then f (the_window i s) else the_window i s)"
  by (simp add: the_window_def upd_win_def upd_scr_def)

lemma hdr_upd_win [simp]: "hdr (upd_win j f s) = hdr s" "version (upd_win j f s) = version s"
  by (simp_all add: upd_win_def upd_scr_def)

definition upper_split :: "zword \<Rightarrow> zword \<Rightarrow> zstate \<Rightarrow> zstate" where
  "upper_split S H = upd_win 1 (\<lambda>w. w\<lparr>y_cursor := y_cursor w + (y_pos w - 1 - S), y_pos := 1 + S, y_size := H\<rparr>)"

definition lower_split :: "zword \<Rightarrow> zword \<Rightarrow> zstate \<Rightarrow> zstate" where
  "lower_split S H s = upd_win 0 (\<lambda>w. w\<lparr>y_cursor := y_cursor w + (y_pos w - 1 - S - H), y_pos := 1 + S + H,
     y_size := h_screen_height (hdr s) - S - H\<rparr>) s"

definition fit_upper :: "zstate \<Rightarrow> zstate res" where
  "fit_upper s = (if sint (y_cursor (the_window 1 s)) > sint (y_size (the_window 1 s)) then reset_cursor 1 s else Ok s)"

definition fit_lower :: "zstate \<Rightarrow> zstate res" where
  "fit_lower s = (if sint (y_cursor (the_window 0 s)) < 1 then reset_cursor 0 s else Ok s)"

lemma split_window_parts:
  "split_window h s = andthen (flush_buffer s) (\<lambda>u.
     andthen (fit_upper (upper_split (stat_height u) (upper_height h u) u)) (\<lambda>a.
     andthen (fit_lower (lower_split (stat_height u) (upper_height h u) a)) (\<lambda>b.
       if version b = V3 \<and> upper_height h u \<noteq> 0 then erase_window 1 b else Ok b)))"
  by (simp add: split_window_def Let_def upper_split_def lower_split_def fit_upper_def fit_lower_def stat_height_def
    upper_height_def)

lemma fit_upper_moves: "fit_upper s = Ok t \<Longrightarrow> cursor_moved 1 s t"
  using reset_cursor_moves [of 1 s] by (auto simp: fit_upper_def post_def split: if_splits)

lemma fit_lower_moves: "fit_lower s = Ok t \<Longrightarrow> cursor_moved 0 s t"
  using reset_cursor_moves [of 0 s] by (auto simp: fit_lower_def post_def split: if_splits)

definition lower_font :: "zstate \<Rightarrow> int" where
  "lower_font s = uint (hi (w_font_size (the_window 0 s)))"

lemma window_update_cursor [simp]: "the_window i (update_cursor s) = the_window i s"
  by (simp add: the_window_def update_cursor_def Let_def log_event_def upd_out_def)

lemma sdiv_unsigned: "uint (a :: 'a::len word) sdiv uint (b :: 'b::len word) = uint a div uint b"
proof -
  have "0 \<le> uint a" "uint b = 0 \<or> 0 < uint b"
    using uint_ge_0 [of a] uint_ge_0 [of b] by linarith+
  then show ?thesis
    by (auto simp: signed_divide_int_def sgn_if)
qed

lemma reset_lower_cursor:
  "reset_cursor 0 s = Ok t \<Longrightarrow> y_cursor (the_window 0 t) =
     (if version s \<le> V4 then word_of_int (lower_font s * (uint (y_size (the_window 0 s)) div lower_font s - 1) + 1) else 1)"
  by (auto simp: reset_cursor_def Let_def andthen_eq_Ok the_window_upd window_update_cursor lower_font_def div_c_def
    sdiv_unsigned split: if_splits)

lemma fit_lower_cursor:
  "fit_lower s = Ok t \<Longrightarrow> y_cursor (the_window 0 t) =
     (if sint (y_cursor (the_window 0 s)) < 1
      then (if version s \<le> V4 then word_of_int (lower_font s * (uint (y_size (the_window 0 s)) div lower_font s - 1) + 1) else 1)
      else y_cursor (the_window 0 s))"
  using reset_lower_cursor [of s t] by (auto simp: fit_lower_def split: if_splits)

text \<open>
  C31. \<open>split_window\<close> (screen.c) tiles the screen: with \<open>S\<close> the height of the status line (V1 to V3 only) and \<open>H\<close> the
  height asked for, in units of the screen, the upper window starts below the status line and has height \<open>H\<close>,
  the lower window starts where the upper one ends, and the three heights add up to the height of the
  screen. The windows 2 to 7 are not touched. When the place of the cursor of the lower window is still
  inside of it the cursor stays where it is on the screen, else it is moved into the window.
\<close>

theorem split_window_tiles:
  assumes "flush_buffer s = Ok u" and "split_window h s = Ok t"
  defines "S \<equiv> stat_height u" and "H \<equiv> upper_height h u"
  shows "y_pos (the_window 1 t) = 1 + S \<and> y_size (the_window 1 t) = H \<and>
    y_pos (the_window 0 t) = y_pos (the_window 1 t) + y_size (the_window 1 t) \<and>
    S + y_size (the_window 1 t) + y_size (the_window 0 t) = h_screen_height (hdr u) \<and>
    (\<forall>i. i \<noteq> 0 \<and> i \<noteq> 1 \<longrightarrow> the_window i t = the_window i u) \<and>
    (if 1 \<le> sint (y_cursor (the_window 0 u) + (y_pos (the_window 0 u) - 1 - S - H))
     then y_pos (the_window 0 t) + y_cursor (the_window 0 t) = y_pos (the_window 0 u) + y_cursor (the_window 0 u)
     else y_cursor (the_window 0 t) =
       (if version u \<le> V4 then word_of_int (lower_font u * (uint (y_size (the_window 0 t)) div lower_font u - 1) + 1) else 1))"
proof -
  obtain a b where a: "cursor_moved 1 (upper_split S H u) a" and b: "fit_lower (lower_split S H a) = Ok b"
    and t: "(if version b = V3 \<and> H \<noteq> 0 then erase_window 1 b else Ok b) = Ok t"
    using assms(1,2) fit_upper_moves unfolding split_window_parts S_def H_def andthen_eq_Ok by auto
  have "cursor_moved 1 b t"
    using t erase_window_moves [of 1 b] by (auto simp: post_def split: if_splits)
  note a = cursor_moved_fields [OF a] and t = cursor_moved_fields [OF this]
    and b' = cursor_moved_fields [OF fit_lower_moves [OF b]]
  note windows = the_window_upd upper_split_def lower_split_def
  have cursor: "y_cursor (the_window 0 t) = (if sint (y_cursor (the_window 0 (lower_split S H a))) < 1
      then (if version u \<le> V4 then word_of_int (lower_font u * (uint (y_size (the_window 0 t)) div lower_font u - 1) + 1) else 1)
      else y_cursor (the_window 0 (lower_split S H a)))"
    using fit_lower_cursor [OF b] by (simp add: a t b' windows lower_font_def cong: if_cong)
  have "y_cursor (the_window 0 (lower_split S H a)) = y_cursor (the_window 0 u) + (y_pos (the_window 0 u) - 1 - S - H)"
    by (simp add: a windows)
  note cursor = cursor [unfolded this]
  have "y_pos (the_window 0 t) = 1 + S + H"
    by (simp add: t b' windows)
  then show ?thesis
    unfolding cursor by (simp add: a t b' windows)
qed

text \<open>From version 5 on nothing is divided, and the split always returns.\<close>

lemma fit_upper_returns: "\<exists>t. fit_upper s = Ok t"
  by (simp add: fit_upper_def reset_cursor_def Let_def)

lemma fit_lower_returns: "V4 < version s \<Longrightarrow> \<exists>t. fit_lower s = Ok t"
  using linorder_not_less [of "V4" "version s"] by (simp add: fit_lower_def reset_cursor_def Let_def)

lemma split_window_returns:
  assumes "flush_buffer s = Ok u" and "V4 < version u"
  shows "\<exists>t. split_window h s = Ok t"
proof -
  let ?S = "stat_height u" and ?H = "upper_height h u"
  obtain a where a: "fit_upper (upper_split ?S ?H u) = Ok a"
    using fit_upper_returns by blast
  then have "version (lower_split ?S ?H a) = version u"
    using cursor_moved_fields(1) [OF fit_upper_moves [OF a]] by (simp add: upper_split_def lower_split_def)
  with fit_lower_returns assms(2) obtain b where b: "fit_lower (lower_split ?S ?H a) = Ok b"
    by metis
  then have "version b = version u"
    using cursor_moved_fields(1) [OF fit_lower_moves [OF b]] \<open>version (lower_split ?S ?H a) = version u\<close> by simp
  then show ?thesis
    using assms a b by (auto simp: split_window_parts)
qed

text \<open>A screen of 25 lines of one unit each, and a font one unit high in each window.\<close>

definition text_screen :: zstate where
  "text_screen = upd_scr (\<lambda>c. c\<lparr>wp := (\<lambda>i. initial_window\<lparr>y_pos := 1, y_cursor := 5, w_font_size := 0x0101\<rparr>)\<rparr>)
     ((small_machine 5 [])\<lparr>hdr := (hdr (small_machine 5 []))\<lparr>h_screen_height := 25\<rparr>\<rparr>)"

lemma text_screen_sel [simp]: "flush_buffer text_screen = Ok text_screen" "version text_screen = 5"
  "h_screen_height (hdr text_screen) = 25" "cwin (scr text_screen) = 0"
  "the_window i text_screen = initial_window\<lparr>y_pos := 1, y_cursor := 5, w_font_size := 0x0101\<rparr>"
  by (simp_all add: text_screen_def upd_scr_def flush_buffer_def flush_buffer_h_def small_machine_def initial_state_def
    initial_out_def initial_header_def the_window_def initial_scr_def)

theorem split_window_tiles_witness:
  "\<exists>t. split_window 3 text_screen = Ok t \<and> y_pos (the_window 0 t) = 4 \<and> y_cursor (the_window 0 t) = 2"
proof -
  obtain t where t: "split_window 3 text_screen = Ok t"
    using split_window_returns [OF text_screen_sel(1)] by auto
  have "stat_height text_screen = 0" "upper_height 3 text_screen = 3"
    by (simp_all add: stat_height_def upper_height_def hi_def)
  then show ?thesis
    using split_window_tiles [OF text_screen_sel(1) t] t by (simp add: initial_window_def eq_diff_eq [symmetric] add.commute)
qed

subsection \<open>Window properties\<close>

text \<open>The window an opcode is about, by the rule of the macro \<open>winarg0\<close>, and when there is one.\<close>

definition legal_window :: "zstate \<Rightarrow> bool" where
  "legal_window s \<longleftrightarrow>
     (if version s \<noteq> V6 then zargs s 0 < 2
      else if sint (zargs s 0) = -3 then 0 \<le> cwin (scr s) \<and> cwin (scr s) < 8 else zargs s 0 < 8)"

definition chosen_window :: "zstate \<Rightarrow> int" where
  "chosen_window s = (if version s = V6 \<and> sint (zargs s 0) = -3 then cwin (scr s) else uint (zargs s 0))"

lemma winarg0_index:
  assumes "legal_window s"
  shows "window_index (winarg0 s) = Ok (chosen_window s, s)" and "0 \<le> chosen_window s" and "chosen_window s < 8"
proof -
  have small: "uint (zargs s 0) < 8" if "zargs s 0 < 8"
    using that by (simp add: word_less_def)
  have low: "zargs s 0 < 2 \<Longrightarrow> zargs s 0 < 8"
    by (erule order_less_trans) simp
  have cwin: "word_of_int (cwin (scr s)) < (8 :: zword) \<and> uint (word_of_int (cwin (scr s)) :: zword) = cwin (scr s)"
    if "0 \<le> cwin (scr s)" "cwin (scr s) < 8"
    using that by (simp add: word_less_def take_bit_int_eq_self uint_word_of_int)
  show "window_index (winarg0 s) = Ok (chosen_window s, s)" "0 \<le> chosen_window s" "chosen_window s < 8"
    using assms small low cwin
    by (auto simp: legal_window_def window_index_def winarg0_def chosen_window_def linorder_not_le [symmetric] split: if_splits)
qed

text \<open>The word an opcode asks for, where it is in the window array.\<close>

definition window_word :: "zstate \<Rightarrow> zword" where
  "window_word s = window_words (the_window (chosen_window s) s) ! unat (zargs s 1)"

lemma prop_place_legal:
  assumes "0 \<le> win" "win < 8" "p < 16"
  shows "prop_place win p = Ok (win, unat p)"
proof -
  have "uint p < 16"
    using assms(3) by (simp add: word_less_def)
  then show ?thesis
    using assms by (simp add: prop_place_def Let_def)
qed

lemma get_wind_prop_legal:
  assumes "flush_buffer s = Ok s" "legal_window s" "zargs s 1 < 16"
  shows "z_get_wind_prop s = store (window_word s) s"
  using assms linorder_not_le [THEN iffD2, OF assms(3)] by (simp add: z_get_wind_prop_def winarg0_index prop_place_legal window_word_def)

lemma put_wind_prop_legal:
  assumes "flush_buffer s = Ok u" "legal_window u" "zargs u 1 < 16"
  shows "z_put_wind_prop s =
    Ok (upd_win (chosen_window u) (\<lambda>v. window_of_words ((window_words v)[unat (zargs u 1) := zargs u 2])) u)"
  using assms linorder_not_le [THEN iffD2, OF assms(3)] by (simp add: z_put_wind_prop_def winarg0_index prop_place_legal)

lemma words_of_window [simp]: "length ws = 16 \<Longrightarrow> window_words (window_of_words ws) = ws"
  by (auto simp: window_words_def window_of_words_def numeral_eq_Suc length_Suc_conv)

lemma length_window_words [simp]: "length (window_words w) = 16"
  by (simp add: window_words_def)

text \<open>
  The opcodes \<open>put_wind_prop\<close> and \<open>get_wind_prop\<close> treat the sixteen properties of the eight windows as an array:
  after a write to the window and property of the operands, a read with any legal operands \<open>a\<close> stores the word that
  was written when window and property are the same, and otherwise the word that was there before.
\<close>

theorem wind_prop_read_write:
  assumes "flush_buffer s = Ok u" and "legal_window u" and "zargs u 1 < 16" and "z_put_wind_prop s = Ok t"
    and "legal_window (t\<lparr>zargs := a\<rparr>)" and "a 1 < 16"
  shows "z_get_wind_prop (t\<lparr>zargs := a\<rparr>) =
    store (if chosen_window (t\<lparr>zargs := a\<rparr>) = chosen_window u \<and> a 1 = zargs u 1 then zargs u 2
           else window_word (u\<lparr>zargs := a\<rparr>)) (t\<lparr>zargs := a\<rparr>)"
proof -
  let ?t = "t\<lparr>zargs := a\<rparr>"
  note t = assms(4) [unfolded put_wind_prop_legal [OF assms(1-3)], simplified, symmetric]
  have "flush_buffer ?t = Ok ?t"
    by (rule flush_again [OF assms(1)]) (simp add: t upd_win_def upd_scr_def)
  then have "z_get_wind_prop ?t = store (window_word ?t) ?t"
    using assms(5,6) by (simp add: get_wind_prop_legal)
  moreover have "chosen_window ?t = chosen_window (u\<lparr>zargs := a\<rparr>)"
    by (simp add: chosen_window_def t upd_win_def upd_scr_def)
  moreover have "the_window i ?t = the_window i t" "the_window i (u\<lparr>zargs := a\<rparr>) = the_window i u" for i
    by (simp_all add: the_window_def)
  moreover have "unat (zargs u 1) < 16"
    using assms(3) by (simp add: word_less_nat_alt)
  ultimately show ?thesis
    by (auto simp: window_word_def t the_window_upd nth_list_update word_unat_eq_iff)
qed

text \<open>The height of the lower window, and the word next to it, after a write of 7.\<close>

theorem wind_prop_read_write_witness:
  "\<exists>t. z_put_wind_prop (text_screen\<lparr>zargs := (\<lambda>i. [0, 2, 7] ! nat i)\<rparr>) = Ok t \<and>
     z_get_wind_prop (t\<lparr>zargs := (\<lambda>i. [0, 2] ! nat i)\<rparr>) = store 7 (t\<lparr>zargs := (\<lambda>i. [0, 2] ! nat i)\<rparr>) \<and>
     z_get_wind_prop (t\<lparr>zargs := (\<lambda>i. [0, 4] ! nat i)\<rparr>) = store 5 (t\<lparr>zargs := (\<lambda>i. [0, 4] ! nat i)\<rparr>)"
proof -
  let ?s = "text_screen\<lparr>zargs := (\<lambda>i. [0, 2, 7] ! nat i)\<rparr>"
  have s: "flush_buffer ?s = Ok ?s"
    by (rule flush_again [OF text_screen_sel(1)]) simp
  have v: "version ?s = 5" "legal_window ?s" "zargs ?s 1 < 16"
    by (simp_all add: legal_window_def)
  obtain t where t: "z_put_wind_prop ?s = Ok t" "version t = 5"
    using v by (simp add: put_wind_prop_legal [OF s])
  have window: "the_window i (text_screen\<lparr>zargs := a\<rparr>) = the_window i text_screen" for i a
    by (simp add: the_window_def)
  have legal: "legal_window (t\<lparr>zargs := (\<lambda>i. [0, p] ! nat i)\<rparr>)" for p
    using t(2) by (simp add: legal_window_def)
  note read = wind_prop_read_write [OF s v(2,3) t(1) legal]
  show ?thesis
    using t(1) read [of 2] read [of 4] v t(2)
    by (simp add: window_word_def chosen_window_def window window_words_def initial_window_def)
qed

end
