(* ===== verification/Input_Correct.thy ===== *)
theory Input_Correct
  imports Input Zscii_Correct Tables_Correct
begin

text \<open>
  Reading keys and lines (stream.c, input.c): a key is delivered once the player presses one, a line that a
  timeout interrupts is there again at the next read, and the length of the text in the game's buffer is
  trusted.
\<close>

subsection \<open>Waiting for a key\<close>

text \<open>No command file is written or read.\<close>

definition live_input :: "zstate \<Rightarrow> bool" where
  "live_input s \<longleftrightarrow> \<not> ostream_record (out s) \<and> \<not> istream_replay (out s)"

text \<open>The answer of the front end to the next call of \<open>os_read_key\<close>, the calls numbered from now.\<close>

definition key_at :: "zstate \<Rightarrow> nat \<Rightarrow> zchar" where
  "key_at s n = word_of_int (os_answer s (clock s + n))"

definition ordinary :: "zchar \<Rightarrow> bool" where
  "ordinary k \<longleftrightarrow> k \<noteq> ZC_BAD \<and> k \<noteq> ZC_TIME_OUT \<and> \<not> is_click k \<and> \<not> is_hot_key k"

lemma console_key:
  assumes "console_read_key timeout s = (k, t)" and "live_input s"
  shows "k = key_at s 0" "live_input t" "key_at t n = key_at s (Suc n)" "clock t = Suc (clock s)"
  using assms
  by (auto simp: console_read_key_def Let_def ask_def key_at_def live_input_def log_event_def upd_out_def clear_line_counts_def
    upd_scr_def split: if_splits)

lemma skip_bad_key:
  assumes "console_read_key timeout s = (ZC_BAD, t)" and "live_input s"
  shows "read_key_loop hk interp timeout routine hot s = read_key_loop hk interp timeout routine hot t"
proof -
  have "next_key timeout s = next_key timeout t"
    using assms by (subst next_key.simps) (simp add: live_input_def)
  then show ?thesis
    by (subst (1 2) read_key_loop.simps) simp
qed

lemma skip_timeout:
  assumes "console_read_key timeout s = (ZC_TIME_OUT, t)" and "live_input s"
  shows "read_key_loop hk interp timeout 0 hot s = read_key_loop hk interp timeout 0 hot t"
proof -
  have "next_key timeout s = Ok (ZC_TIME_OUT, t)"
    using assms by (subst next_key.simps) (simp add: live_input_def)
  moreover have "\<not> recording t"
    using console_key(2) [OF assms] by (simp add: live_input_def recording_def)
  ultimately show ?thesis
    by (subst read_key_loop.simps) (simp add: valid_key_def is_click_def timed_out_def direct_call_def)
qed

lemma take_ordinary_key:
  assumes "console_read_key timeout s = (k, t)" and "live_input s" and "ordinary k"
  shows "read_key_loop hk interp timeout routine hot s = Ok (k, t)"
proof -
  have "next_key timeout s = Ok (k, t)"
    using assms by (subst next_key.simps) (simp add: live_input_def ordinary_def)
  moreover have "\<not> recording t"
    using console_key(2) [OF assms(1,2)] by (simp add: live_input_def recording_def)
  ultimately show ?thesis
    using assms(3) by (subst read_key_loop.simps) (simp add: valid_key_def ordinary_def timed_out_def)
qed

lemma read_key_loop_delivers:
  assumes "live_input s" and "\<And>i. i < n \<Longrightarrow> key_at s i = ZC_BAD \<or> key_at s i = ZC_TIME_OUT" and "ordinary (key_at s n)"
  shows "\<exists>t. read_key_loop hk interp timeout 0 hot s = Ok (key_at s n, t) \<and> clock t = clock s + n + 1"
  using assms
proof (induction n arbitrary: s)
  case 0
  obtain k t where t: "console_read_key timeout s = (k, t)"
    by (cases "console_read_key timeout s")
  then show ?case
    using take_ordinary_key [OF t] console_key [OF t] 0 by simp
next
  case (Suc n)
  obtain k t where t: "console_read_key timeout s = (k, t)"
    by (cases "console_read_key timeout s")
  note step = console_key [OF t Suc.prems(1)]
  have "k = ZC_BAD \<or> k = ZC_TIME_OUT"
    using Suc.prems(2) [of 0] step(1) by simp
  then have "read_key_loop hk interp timeout 0 hot s = read_key_loop hk interp timeout 0 hot t"
    using skip_bad_key skip_timeout t Suc.prems(1) by blast
  moreover have "\<exists>u. read_key_loop hk interp timeout 0 hot t = Ok (key_at t n, u) \<and> clock u = clock t + n + 1"
    using Suc.prems step by (intro Suc.IH) auto
  ultimately show ?case
    using step by simp
qed

text \<open>
  C26. \<open>stream_read_key\<close> delivers a key: however many times the front end answers with a timeout or with no
  usable key at all, when the player presses an ordinary key the function returns with it, after exactly
  as many calls of \<open>os_read_key\<close>. The call has no routine for timeouts and no command file is open.
\<close>

theorem key_is_delivered:
  assumes "flush_buffer s = Ok u" and "live_input u"
    and "\<And>i. i < n \<Longrightarrow> key_at u i = ZC_BAD \<or> key_at u i = ZC_TIME_OUT" and "ordinary (key_at u n)"
  shows "\<exists>t. stream_read_key interp timeout 0 s = Ok (key_at u n, t) \<and> clock t = clock u + n + 1"
  using read_key_loop_delivers [OF assms(2-4)] assms(1) by (simp add: stream_read_key_def stream_read_key_h_def)

text \<open>Two timeouts, a key that is no character, then the letter a.\<close>

theorem key_is_delivered_witness:
  "\<exists>t. stream_read_key (\<lambda>s. Ok s) 10 0 ((small_machine 5 [])\<lparr>os_answer := (\<lambda>k. [0, 0, 0x7f, 0x61] ! k)\<rparr>) = Ok (0x61, t) \<and> clock t = 4"
proof -
  let ?s = "(small_machine 5 [])\<lparr>os_answer := (\<lambda>k. [0, 0, 0x7f, 0x61] ! k)\<rparr>"
  have "flush_buffer ?s = Ok ?s"
    by (simp add: flush_buffer_def flush_buffer_h_def small_machine_def initial_state_def initial_out_def)
  moreover have "live_input ?s" "clock ?s = 0"
    by (simp_all add: live_input_def small_machine_def initial_state_def initial_out_def)
  moreover have "key_at ?s i = ZC_BAD \<or> key_at ?s i = ZC_TIME_OUT" if "i < 3" for i
    using that \<open>clock ?s = 0\<close> by (auto simp: key_at_def less_Suc_eq numeral_eq_Suc)
  moreover have "key_at ?s 3 = 0x61" "ordinary 0x61"
    using \<open>clock ?s = 0\<close> by (simp_all add: key_at_def ordinary_def is_click_def is_hot_key_def)
  ultimately show ?thesis
    using key_is_delivered [of ?s ?s 3 "\<lambda>s. Ok s" 10] by auto
qed

subsection \<open>A line in memory\<close>

text \<open>Memory with the bytes \<open>bs\<close> from the address \<open>b\<close> on.\<close>

definition text_at :: "int \<Rightarrow> zbyte list \<Rightarrow> (int \<Rightarrow> zbyte) \<Rightarrow> int \<Rightarrow> zbyte" where
  "text_at b bs m = (\<lambda>x. if b \<le> x \<and> x < b + int (length bs) then bs ! nat (x - b) else m x)"

lemma text_at_Nil [simp]: "text_at b [] m = m"
  by (auto simp: text_at_def fun_eq_iff)

lemma text_at_Cons: "text_at (b + 1) bs (m(b := z)) = text_at b (z # bs) m"
proof
  fix x
  show "text_at (b + 1) bs (m(b := z)) x = text_at b (z # bs) m x"
    by (cases "x = b") (auto simp: text_at_def nth_Cons intro!: arg_cong [where f = "(!) bs"] split: nat.split)
qed

text \<open>Without a Unicode table the translations do not read memory.\<close>

lemma to_zscii_frame: "hx_unicode_table (hdr s) = 0 \<Longrightarrow> translate_to_zscii c (s\<lparr>zmp := m\<rparr>) = translate_to_zscii c s"
  by (simp add: translate_to_zscii_def)

lemma store_text_writes:
  assumes "writable a n s" and "0 \<le> i" and "i + int (length cs) \<le> n" and "hx_unicode_table (hdr s) = 0"
    and "list_all2 (\<lambda>c z. translate_to_zscii (if lower then lower_char c else c) s = Ok z) cs bs"
  shows "store_text lower cs (a + word_of_int i) s = Ok (s\<lparr>zmp := text_at (uint a + i) bs (zmp s)\<rparr>)"
  using assms
proof (induction cs arbitrary: i bs s)
  case Nil
  then show ?case by simp
next
  case (Cons c cs)
  from Cons.prems(5) obtain z bs' where bs: "bs = z # bs'"
    "translate_to_zscii (if lower then lower_char c else c) s = Ok z"
    "list_all2 (\<lambda>c z. translate_to_zscii (if lower then lower_char c else c) s = Ok z) cs bs'"
    by (auto simp: list_all2_Cons1)
  let ?t = "s\<lparr>zmp := (zmp s)(uint a + i := z)\<rparr>"
  have "storeb (a + word_of_int i) z s = Ok ?t"
    using Cons.prems by (intro storeb_writable) auto
  moreover have "store_text lower cs (a + word_of_int (i + 1)) ?t = Ok (?t\<lparr>zmp := text_at (uint a + (i + 1)) bs' (zmp ?t)\<rparr>)"
    using Cons.prems bs(3) by (intro Cons.IH) (auto simp: to_zscii_frame)
  moreover have "text_at (uint a + (i + 1)) bs' (zmp ?t) = text_at (uint a + i) bs (zmp s)"
    using text_at_Cons [of "uint a + i" bs' "zmp s" z] by (simp add: bs(1) add.assoc)
  ultimately show ?case
    using bs(2) by (simp add: add.assoc)
qed

lemma initial_text_reads:
  assumes "region a n s" and "0 \<le> j" and "j + int (length bs) \<le> n" and "i + int (length bs) < 200"
    and "list_all2 (\<lambda>c z. translate_from_zscii z s = Ok c) cs bs"
    and "\<And>k. k < length bs \<Longrightarrow> zmp s (uint a + j + int k) = bs ! k"
  shows "initial_text (length bs) i (a + word_of_int (j - 1)) s = Ok cs"
  using assms
proof (induction bs arbitrary: i j cs)
  case Nil
  then show ?case by simp
next
  case (Cons z bs)
  from Cons.prems(5) obtain c cs' where cs: "cs = c # cs'" "translate_from_zscii z s = Ok c"
    "list_all2 (\<lambda>c z. translate_from_zscii z s = Ok c) cs' bs"
    by (auto simp: list_all2_Cons2)
  have addr: "a + word_of_int (j - 1) + 1 = a + word_of_int (j + 1 - 1)"
    by simp
  have "initial_text (length bs) (i + 1) (a + word_of_int (j + 1 - 1)) s = Ok cs'"
    using Cons.prems(1-4) Cons.prems(6) [of "Suc k" for k] cs(3) by (intro Cons.IH) (auto simp: algebra_simps)
  moreover have "uint (a + word_of_int j) = uint a + j" "in_mem (uint a + j) s"
    using Cons.prems by (auto intro: region_uint region_in_mem)
  moreover have "zmp s (uint a + j) = z"
    using Cons.prems(6) [of 0] by simp
  ultimately show ?case
    using Cons.prems(4) cs(1,2) unfolding initial_text.simps length_Cons addr by simp
qed

text \<open>Text that ZSCII has codes for, and these codes.\<close>

definition zscii_text :: "zchar list \<Rightarrow> zbyte list \<Rightarrow> zstate \<Rightarrow> bool" where
  "zscii_text cs bs s \<longleftrightarrow>
     list_all2 (\<lambda>c z. translate_to_zscii c s = Ok z \<and> (z = CH_QUERY \<longrightarrow> c = CH_QUERY) \<and> c \<notin> {0, 0x9e, 0x9f}) cs bs"

lemma zscii_text_back:
  assumes "zscii_text cs bs s" and "hx_unicode_table (hdr s) = 0" and "story_id s \<noteq> BEYOND_ZORK"
    and "hdr t = hdr s" and "story_id t = story_id s"
  shows "list_all2 (\<lambda>c z. translate_from_zscii z t = Ok c) cs bs"
proof -
  have "translate_from_zscii z t = translate_from_zscii z s" for z
    using assms by (simp add: translate_from_zscii_def)
  then show ?thesis
    using assms unfolding zscii_text_def by (elim list_all2_mono) (auto intro!: translate_back)
qed

text \<open>A result that goes to the stack or to a local variable leaves memory alone.\<close>

lemma store_local:
  assumes "store v s = Ok t" and "zmp s (pcp s) < 16"
  shows "zmp t = zmp s" "hdr t = hdr s" "story_id t = story_id s" "story_size t = story_size s"
proof -
  have "ucast (zmp s (pcp s)) < (16 :: zword)"
    using assms(2) by (simp add: word_less_def uint_up_ucast is_up)
  then show "zmp t = zmp s" "hdr t = hdr s" "story_id t = story_id s" "story_size t = story_size s"
    using assms by (auto simp: store_def code_byte_def low_byte_def andthen_eq_Ok push_def set_var_def stack_set_def split: if_splits)
qed

text \<open>What the second half of \<open>z_read\<close> leaves in the buffer, from version 5 on.\<close>

lemma store_line_writes:
  assumes "V5 \<le> version s" and "hx_unicode_table (hdr s) = 0" and "zscii_text buf bs s" and "key \<noteq> ZC_RETURN"
    and "writable (zargs s 0) (2 + int (length buf)) s" and "store_line key buf s = Ok t"
    and "zmp s (pcp s) < 16" and "pcp s \<notin> {uint (zargs s 0) ..< uint (zargs s 0) + 2 + int (length buf)}"
  shows "zmp t = (text_at (uint (zargs s 0) + 2) bs (zmp s))(uint (zargs s 0) + 1 := word_of_int (int (length buf)))"
    and "hdr t = hdr s" "story_id t = story_id s" "story_size t = story_size s"
proof -
  let ?a = "zargs s 0"
  let ?u = "s\<lparr>zmp := text_at (uint ?a + 2) bs (zmp s)\<rparr>"
  let ?w = "?u\<lparr>zmp := (zmp ?u)(uint ?a + 1 := word_of_int (int (length buf)))\<rparr>"
  have codes: "list_all2 (\<lambda>c z. translate_to_zscii (if key = ZC_RETURN then lower_char c else c) s = Ok z) buf bs"
    using assms(3,4) unfolding zscii_text_def by (elim list_all2_mono) auto
  then have len: "length bs = length buf"
    by (auto dest: list_all2_lengthD)
  have old: "\<not> version s \<le> V4"
    using assms(1) by (auto simp: word_le_nat_alt)
  have body: "store_text (key = ZC_RETURN) buf (?a + 2) s = Ok ?u"
    using store_text_writes [OF assms(5) _ _ assms(2) codes, of 2] by simp
  have count: "storeb (?a + 1) (word_of_int (int (length buf))) ?u = Ok ?w"
    using storeb_writable [of ?a "2 + int (length buf)" ?u 1] assms(5) by simp
  have narrow: "(ucast (word_of_nat n :: zword) :: zbyte) = word_of_nat n" for n
    by (rule bit_word_eqI) (simp add: bit_simps)
  obtain z where store: "store z ?w = Ok t"
    using narrow assms(4,6) body count old by (auto simp: store_line_def Let_def andthen_eq_Ok)
  have "zmp ?w (pcp ?w) = zmp s (pcp s)"
    using assms(8) len by (auto simp: text_at_def)
  then show "zmp t = (text_at (uint ?a + 2) bs (zmp s))(uint ?a + 1 := word_of_int (int (length buf)))"
    "hdr t = hdr s" "story_id t = story_id s" "story_size t = story_size s"
    using store_local [OF store] assms(7) by simp_all
qed

text \<open>
  C27. A line that is interrupted is not lost: when \<open>z_read\<close> (from version 5 on) stores a line that was ended by
  anything but the return key, the next \<open>z_read\<close> with the same text buffer hands exactly this text to
  \<open>stream_read_input\<close> as the beginning of the new line. The text has less than 200 characters, all of them in
  ZSCII; there is no Unicode table; the buffer lies in dynamic memory, away from the code, and the result goes to
  the stack or to a local variable.
\<close>

theorem interrupted_line_resumes:
  assumes "V5 \<le> version s" and "hx_unicode_table (hdr s) = 0" and "story_id s \<noteq> BEYOND_ZORK"
    and "zscii_text buf bs s" and "length buf < 200" and "key \<noteq> ZC_RETURN"
    and "writable (zargs s 0) (2 + int (length buf)) s" and "store_line key buf s = Ok t"
    and "zmp s (pcp s) < 16" and "pcp s \<notin> {uint (zargs s 0) ..< uint (zargs s 0) + 2 + int (length buf)}"
    and "a 0 = zargs s 0" and "3 \<le> n"
  defines "u \<equiv> t\<lparr>zargs := a, zargc := n\<rparr>"
  shows "z_read interp u =
    andthen (stream_read_input interp 200 (min 199 (uint (zmp s (uint (zargs s 0))))) buf (a 2) (a 3) (version s = V6) u)
      (\<lambda>(key, buf, v). if key = ZC_BAD then Ok v else store_line key buf v)"
proof -
  let ?a = "zargs s 0" and ?n = "2 + int (length buf)"
  note t = store_line_writes [OF assms(1,2,4,6,7,8,9,10)]
  have len: "length bs = length buf"
    using assms(4) by (auto simp: zscii_text_def dest: list_all2_lengthD)
  have region: "region ?a ?n u"
    using assms(7) by (simp add: writable_def region_def u_def t)
  have first: "low_byte (uint ?a) u = Ok (zmp s (uint ?a))" "low_byte (uint (?a + 1)) u = Ok (word_of_nat (length buf))"
    using region_in_mem [OF region, of 0] region_in_mem [OF region, of 1] region_uint [OF region, of 1]
    by (simp_all add: u_def t text_at_def)
  have "initial_text (length bs) 0 (?a + word_of_int (2 - 1)) u = Ok buf"
  proof (rule initial_text_reads [OF region])
    show "list_all2 (\<lambda>c z. translate_from_zscii z u = Ok c) buf bs"
      by (rule zscii_text_back [OF assms(4,2,3)]) (simp_all add: u_def t)
    show "zmp u (uint ?a + 2 + int k) = bs ! k" if "k < length bs" for k
      using that by (simp add: u_def t text_at_def)
  qed (use assms(5) len in simp_all)
  then have initial: "initial_text (length buf) 0 (?a + 1) u = Ok buf"
    using len by simp
  have "c_text buf = buf"
    using assms(4) by (auto simp: c_text_def takeWhile_eq_all_conv zscii_text_def list_all2_conv_all_nth in_set_conv_nth)
  moreover have "unat (word_of_nat (length buf) :: zbyte) = length buf"
    using assms(5) by (simp add: unat_of_nat)
  moreover have "\<not> version u \<le> V4" "\<not> version u \<le> V3" "\<not> n < 3" "V5 \<le> version u" "zargs u = a" "zargc u = n"
    "version u = version s"
    using assms(1,12) by (auto simp: word_le_nat_alt u_def t)
  moreover have "(if int 200 \<le> x then int 200 - 1 else x) = min 199 x" for x
    by simp
  ultimately show ?thesis
    using first initial assms(11) unfolding z_read_def Let_def by simp
qed

text \<open>A buffer at address 128 for up to 30 characters; the player has typed "go" when the time is over.\<close>

definition reading_machine :: zstate where
  "reading_machine = (small_machine 5 [])\<lparr>zmp := (\<lambda>x. if x = 128 then 30 else 0), zargs := (\<lambda>i. if i = 0 then 128 else 0)\<rparr>"

lemma reading_machine_sel [simp]:
  "zmp reading_machine = (\<lambda>x. if x = 128 then 30 else 0)" "zargs reading_machine = (\<lambda>i. if i = 0 then 128 else 0)"
  "hdr reading_machine = hdr (small_machine 5 [])" "story_size reading_machine = 4096" "pcp reading_machine = 64"
  "story_id reading_machine = UNKNOWN" "sp reading_machine = STACK_SIZE"
  by (simp_all add: reading_machine_def)

lemma reading_machine_writable: "writable 128 n reading_machine" if "n \<le> 1000"
proof -
  have "plain (128 + word_of_int i) reading_machine" if "0 \<le> i" "i < n" for i
  proof -
    have "uint (128 + word_of_int i :: zword) = 128 + i"
      using uint_plus_offset [of i 128] that \<open>n \<le> 1000\<close> by simp
    then show ?thesis
      using that \<open>n \<le> 1000\<close> by (auto simp: plain_def word_less_def word_uint_eq_iff)
  qed
  then show ?thesis
    using that by (simp add: writable_def region_def)
qed

theorem interrupted_line_resumes_witness:
  "\<exists>t. store_line ZC_TIME_OUT (zs ''go'') reading_machine = Ok t \<and>
    z_read (\<lambda>s. Ok s) (t\<lparr>zargs := (\<lambda>i. if i = 0 then 128 else 0), zargc := 4\<rparr>) =
      andthen (stream_read_input (\<lambda>s. Ok s) 200 30 (zs ''go'') 0 0 False (t\<lparr>zargs := (\<lambda>i. if i = 0 then 128 else 0), zargc := 4\<rparr>))
        (\<lambda>(key, buf, v). if key = ZC_BAD then Ok v else store_line key buf v)"
proof -
  let ?s = reading_machine
  have go: "zs ''go'' = [0x67, 0x6f]"
    by (simp add: zs_def)
  have v: "version ?s = 5" "hx_unicode_table (hdr ?s) = 0"
    by (simp_all add: initial_header_def)
  have codes: "zscii_text (zs ''go'') [0x67, 0x6f] ?s"
    by (simp add: go zscii_text_def translate_to_zscii_def)
  have buffer: "writable (zargs ?s 0) (2 + int (length (zs ''go''))) ?s"
    using reading_machine_writable [of 4] by (simp add: go)
  obtain t where t: "store_line ZC_TIME_OUT (zs ''go'') ?s = Ok t"
    using v by (simp add: store_line_def Let_def go translate_to_zscii_def plain_def in_mem_def initial_header_def store_def
      code_byte_def push_def stack_set_def)
  show ?thesis
    using interrupted_line_resumes [OF _ v(2) _ codes _ _ buffer t, of "\<lambda>i. if i = 0 then 128 else 0" 4 "\<lambda>s. Ok s"] t v
    by (simp add: go)
qed

subsection \<open>A text that is too long\<close>

lemma initial_text_overflows:
  assumes "region a n s" and "0 \<le> j" and "j + int m \<le> n" and "i \<le> 200" and "200 \<le> i + int m"
    and "\<And>z. \<exists>c. translate_from_zscii z s = Ok c"
  shows "initial_text m i (a + word_of_int (j - 1)) s = Stop (Bad_buffer 200)"
  using assms
proof (induction m arbitrary: i j)
  case 0
  then show ?case by simp
next
  case (Suc m)
  have addr: "a + word_of_int (j - 1) + 1 = a + word_of_int (j + 1 - 1)"
    by simp
  have "in_mem (uint (a + word_of_int j)) s"
    using Suc.prems region_uint [of a n s j] region_in_mem [of a n s j] by simp
  moreover obtain c where "translate_from_zscii (zmp s (uint (a + word_of_int j))) s = Ok c"
    using Suc.prems(6) by blast
  moreover have "initial_text m (i + 1) (a + word_of_int (j + 1 - 1)) s = Stop (Bad_buffer 200)" if "i < 200"
    using Suc.prems that by (intro Suc.IH) auto
  ultimately show ?case
    using Suc.prems(4) unfolding initial_text.simps addr by (cases "i < 200") simp_all
qed

text \<open>
  From version 5 on the length of the text that is already in the game's buffer is a byte of memory. With 200 or
  more the loop of \<open>z_read\<close> (input.c) writes behind the end of its local buffer, whatever size the game has given.
\<close>

theorem long_initial_text_overflows:
  assumes "V5 \<le> version s" and "hx_unicode_table (hdr s) = 0" and "3 \<le> zargc s"
    and "region (zargs s 0) (2 + uint (zmp s (uint (zargs s 0 + 1)))) s" and "200 \<le> uint (zmp s (uint (zargs s 0 + 1)))"
  shows "z_read interp s = Stop (Bad_buffer 200)"
proof -
  let ?a = "zargs s 0" and ?m = "unat (zmp s (uint (zargs s 0 + 1)))"
  have m: "int ?m = uint (zmp s (uint (?a + 1)))"
    by simp
  have "\<exists>c. translate_from_zscii z s = Ok c" for z
    using assms(2) by (simp add: translate_from_zscii_def)
  then have "initial_text ?m 0 (?a + word_of_int (2 - 1)) s = Stop (Bad_buffer 200)"
    using assms(4,5) m by (intro initial_text_overflows) auto
  moreover have "in_mem (uint ?a) s" "in_mem (uint (?a + 1)) s"
    using region_in_mem [OF assms(4), of 0] region_in_mem [OF assms(4), of 1] region_uint [OF assms(4), of 1] assms(5) by simp_all
  ultimately show ?thesis
    using assms(1,3) by (simp add: z_read_def Let_def)
qed

end
