(* ===== verification/Sound_Correct.thy ===== *)
theory Sound_Correct
  imports Sound Initial
begin

text \<open>
  The delayed samples of The Lurking Horror (sound.c): while a sample is playing a second one waits, and
  the end of the first starts it.
\<close>

text \<open>The samples the game plays one after the other.\<close>

definition delayed :: "zword \<Rightarrow> bool" where
  "delayed number \<longleftrightarrow> number = 9 \<or> number = 16"

lemma upd_sfx_sel [simp]:
  "sfx (upd_sfx f s) = f (sfx s)" "out (upd_sfx f s) = out s" "story_id (upd_sfx f s) = story_id s"
  "zargs (upd_sfx f s) = zargs s" "zargc (upd_sfx f s) = zargc s"
  by (simp_all add: upd_sfx_def)

lemma delayed_repeats:
  "delayed number \<Longrightarrow> story_id s = LURKING_HORROR \<Longrightarrow> start_sample (uint number) volume repeats eos s =
     Ok (upd_sfx (\<lambda>t. t\<lparr>snd_routine := eos, playing := True\<rparr>)
       (log_event (Os_start_sample (uint number) volume (if number = 9 then 1 else 255) eos) s))"
  by (auto simp: delayed_def start_sample_def lh_repeats_def)

text \<open>
  In The Lurking Horror a sample 9 or 16 that is asked for while another one is playing waits: the opcode
  starts nothing. The end of the sample that is playing starts the last sample that was asked for, with its
  volume and the number of repeats the table has for it, and without a routine; after that none is waiting.
\<close>

theorem delayed_samples_queue:
  assumes "story_id s = LURKING_HORROR" and "playing (sfx s)" and "3 \<le> zargc s" and "delayed (zargs s 0)" and "zargs s 1 = 2"
    and "0 < zargs s 2"
  shows "\<exists>t u. z_sound_effect s = Ok t \<and> out t = out s \<and> playing (sfx t) \<and> end_of_sound interp t = Ok u \<and>
    io_log (out u) = io_log (out s) @ [Os_start_sample (uint (zargs s 0)) (uint (zargs s 2)) (if zargs s 0 = 9 then 1 else 255) 0] \<and>
    playing (sfx u) \<and> next_sample (sfx u) = 0 \<and>
    (\<exists>v. end_of_sound interp u = Ok v \<and> io_log (out v) = io_log (out u) \<and> \<not> playing (sfx v))"
proof -
  have number: "3 \<le> zargs s 0" "uint (zargs s 0) \<noteq> 0" "zargs s 0 = 9 \<or> zargs s 0 = 16"
    using assms(4) by (auto simp: delayed_def)
  show ?thesis
    using assms number
    by (auto simp: z_sound_effect_def Let_def delayed_sample_def end_of_sound_def start_next_sample_def delayed_repeats direct_call_def
      log_event_def upd_out_def)
qed

text \<open>The sample 16 with volume 8, after a sample that is still playing.\<close>

theorem delayed_samples_queue_witness:
  "\<exists>s t. story_id s = LURKING_HORROR \<and> zargs s 0 = 16 \<and> playing (sfx s) \<and> z_sound_effect s = Ok t \<and> out t = out s"
proof -
  let ?s = "upd_sfx (\<lambda>t. t\<lparr>playing := True\<rparr>) ((small_machine 3 [])\<lparr>story_id := LURKING_HORROR, zargc := 3,
    zargs := (\<lambda>i. if i = 0 then 16 else if i = 1 then 2 else 8)\<rparr>)"
  have "story_id ?s = LURKING_HORROR" "playing (sfx ?s)" "3 \<le> zargc ?s" "delayed (zargs ?s 0)" "zargs ?s 1 = 2" "0 < zargs ?s 2"
    by (simp_all add: delayed_def)
  moreover from delayed_samples_queue [OF this, of "\<lambda>s. Ok s"] obtain t where "z_sound_effect ?s = Ok t" "out t = out ?s"
    by blast
  moreover have "zargs ?s 0 = 16"
    by simp
  ultimately show ?thesis
    by blast
qed

end
