(* ===== verification/Number.thy ===== *)
theory Number
  imports Main
begin

text \<open>
  Arbitrary precision decimal numbers (lib/number.c of bc): the data structure, comparison, the tests for zero,
  addition and subtraction.

  A number is a value here: the storage of the digits, the reference counts and the free list are left out.
  \<open>n_value\<close> is what the pointer \<open>n_value\<close> points to, up to the end of the storage, the most significant digit first;
  it can be longer than \<open>n_len + n_scale\<close> digits after the scale has been made smaller. The source only ever
  changes a number that it has just made, before anybody else has it.

  Most loops of the source walk from the last digit to the first. They are recursions over the reversed lists.
\<close>

subsection \<open>Numbers\<close>

datatype sign = PLUS | MINUS

record bc_num =
  n_sign :: sign
  n_len :: nat
  n_scale :: nat
  n_value :: "int list"

abbreviation (input) BASE :: int where
  "BASE \<equiv> 10"

definition bc_new_num :: "nat \<Rightarrow> nat \<Rightarrow> bc_num" where
  "bc_new_num len scale = \<lparr>n_sign = PLUS, n_len = len, n_scale = scale, n_value = replicate (len + scale) 0\<rparr>"

definition num_zero :: bc_num where
  "num_zero = bc_new_num 1 0"

definition num_one :: bc_num where
  "num_one = (bc_new_num 1 0)\<lparr>n_value := [1]\<rparr>"

definition num_two :: bc_num where
  "num_two = (bc_new_num 1 0)\<lparr>n_value := [2]\<rparr>"

text \<open>The digits of a number, and those of its integer part.\<close>

definition num_digits :: "bc_num \<Rightarrow> int list" where
  "num_digits n = take (n_len n + n_scale n) (n_value n)"

fun skip_leading :: "nat \<Rightarrow> int list \<Rightarrow> nat \<times> int list" where
  "skip_leading len (d # ds) = (if d = 0 \<and> 1 < len then skip_leading (len - 1) ds else (len, d # ds))"
| "skip_leading len [] = (len, [])"

definition rm_leading_zeros :: "bc_num \<Rightarrow> bc_num" where
  "rm_leading_zeros n =
     (let (len, ds) = skip_leading (n_len n) (n_value n) in n\<lparr>n_len := len, n_value := ds\<rparr>)"

subsection \<open>Comparison\<close>

text \<open>The loop over equal digits: how many are left, and the digits from there on.\<close>

fun skip_equal :: "nat \<Rightarrow> int list \<Rightarrow> int list \<Rightarrow> nat \<times> int list \<times> int list" where
  "skip_equal (Suc count) (x # xs) (y # ys) =
     (if x = y then skip_equal count xs ys else (Suc count, x # xs, y # ys))"
| "skip_equal count xs ys = (count, xs, ys)"

text \<open>The answer for a larger or a smaller magnitude of the first number.\<close>

definition larger :: "bool \<Rightarrow> bc_num \<Rightarrow> int" where
  "larger use_sign n1 = (if \<not> use_sign \<or> n_sign n1 = PLUS then 1 else -1)"

definition smaller :: "bool \<Rightarrow> bc_num \<Rightarrow> int" where
  "smaller use_sign n1 = (if \<not> use_sign \<or> n_sign n1 = PLUS then -1 else 1)"

definition do_compare :: "bc_num \<Rightarrow> bc_num \<Rightarrow> bool \<Rightarrow> bool \<Rightarrow> int" where
  "do_compare n1 n2 use_sign ignore_last =
     (if use_sign \<and> n_sign n1 \<noteq> n_sign n2 then (if n_sign n1 = PLUS then 1 else -1)
      else if n_len n1 \<noteq> n_len n2 then
        (if n_len n1 > n_len n2 then larger use_sign n1 else smaller use_sign n1)
      else
        (let (count, p, q) =
           skip_equal (n_len n1 + min (n_scale n1) (n_scale n2)) (n_value n1) (n_value n2) in
         if ignore_last \<and> count = 1 \<and> n_scale n1 = n_scale n2 then 0
         else if count \<noteq> 0 then
           (if hd p > hd q then larger use_sign n1 else smaller use_sign n1)
         else if n_scale n1 > n_scale n2 then
           (if \<exists>d \<in> set (take (n_scale n1 - n_scale n2) p). d \<noteq> 0 then larger use_sign n1 else 0)
         else if n_scale n1 < n_scale n2 then
           (if \<exists>d \<in> set (take (n_scale n2 - n_scale n1) q). d \<noteq> 0 then smaller use_sign n1 else 0)
         else 0))"

definition bc_compare :: "bc_num \<Rightarrow> bc_num \<Rightarrow> int" where
  "bc_compare n1 n2 = do_compare n1 n2 True False"

definition bc_is_neg :: "bc_num \<Rightarrow> bool" where
  "bc_is_neg n \<longleftrightarrow> n_sign n = MINUS"

text \<open>The loop over zeros: how many digits are left, and the digits from there on.\<close>

fun skip_zeros :: "nat \<Rightarrow> int list \<Rightarrow> nat \<times> int list" where
  "skip_zeros (Suc count) (d # ds) = (if d = 0 then skip_zeros count ds else (Suc count, d # ds))"
| "skip_zeros count ds = (count, ds)"

definition bc_is_zero :: "bc_num \<Rightarrow> bool" where
  "bc_is_zero n \<longleftrightarrow> fst (skip_zeros (n_len n + n_scale n) (n_value n)) = 0"

definition bc_is_near_zero :: "bc_num \<Rightarrow> nat \<Rightarrow> bool" where
  "bc_is_near_zero n scale =
     (let scale = min scale (n_scale n); (count, ds) = skip_zeros (n_len n + scale) (n_value n) in
      \<not> (count \<noteq> 0 \<and> (count \<noteq> 1 \<or> hd ds \<noteq> 1)))"

subsection \<open>Addition\<close>

text \<open>
  The second and the third loop of \<open>_bc_do_add\<close>, over the digits from the last to the first; the carry that is
  left goes to the first digit of the sum, which was zero.
\<close>

fun carry_loop :: "int \<Rightarrow> int list \<Rightarrow> int list" where
  "carry_loop carry [] = [carry]"
| "carry_loop carry (x # xs) =
     (let s = x + carry in if s > BASE - 1 then (s - BASE) # carry_loop 1 xs else s # carry_loop 0 xs)"

fun add_loop :: "int \<Rightarrow> int list \<Rightarrow> int list \<Rightarrow> int list" where
  "add_loop carry (x # xs) (y # ys) =
     (let s = x + y + carry in if s > BASE - 1 then (s - BASE) # add_loop 1 xs ys else s # add_loop 0 xs ys)"
| "add_loop carry [] ys = carry_loop carry ys"
| "add_loop carry xs [] = carry_loop carry xs"

definition do_add :: "bc_num \<Rightarrow> bc_num \<Rightarrow> nat \<Rightarrow> bc_num" where
  "do_add n1 n2 scale_min =
     (let sum_scale = max (n_scale n1) (n_scale n2);
          sum_digits = max (n_len n1) (n_len n2) + 1;
          sum = bc_new_num sum_digits (max sum_scale scale_min);
          a = rev (num_digits n1); b = rev (num_digits n2);
          longer1 = n_scale n1 - n_scale n2; longer2 = n_scale n2 - n_scale n1;
          copied = (if n_scale n1 > n_scale n2 then take longer1 a else take longer2 b) in
      rm_leading_zeros
        (sum\<lparr>n_value :=
          rev (copied @ add_loop 0 (drop longer1 a) (drop longer2 b)) @ replicate (scale_min - sum_scale) 0\<rparr>))"

subsection \<open>Subtraction\<close>

text \<open>One digit of a difference and the next borrow.\<close>

definition borrow_digit :: "int \<Rightarrow> int \<times> int" where
  "borrow_digit val = (if val < 0 then (val + BASE, 1) else (val, 0))"

text \<open>
  The loops of \<open>_bc_do_sub\<close>: the digits of a longer fraction of the second number, the digits both have, and the
  digits of a longer integer part of the first number, which is the larger one. (When it is not, the C function
  would read in front of its digits.)
\<close>

fun neg_loop :: "int \<Rightarrow> int list \<Rightarrow> int list \<times> int" where
  "neg_loop borrow [] = ([], borrow)"
| "neg_loop borrow (y # ys) =
     (let (d, borrow) = borrow_digit (- y - borrow); (ds, borrow) = neg_loop borrow ys in (d # ds, borrow))"

fun borrow_loop :: "int \<Rightarrow> int list \<Rightarrow> int list" where
  "borrow_loop borrow [] = []"
| "borrow_loop borrow (x # xs) = (let (d, borrow) = borrow_digit (x - borrow) in d # borrow_loop borrow xs)"

fun sub_loop :: "int \<Rightarrow> int list \<Rightarrow> int list \<Rightarrow> int list" where
  "sub_loop borrow (x # xs) (y # ys) = (let (d, borrow) = borrow_digit (x - y - borrow) in d # sub_loop borrow xs ys)"
| "sub_loop borrow xs ys = borrow_loop borrow xs"

definition do_sub :: "bc_num \<Rightarrow> bc_num \<Rightarrow> nat \<Rightarrow> bc_num" where
  "do_sub n1 n2 scale_min =
     (let diff_len = max (n_len n1) (n_len n2);
          diff_scale = max (n_scale n1) (n_scale n2);
          min_scale = min (n_scale n1) (n_scale n2);
          diff = bc_new_num diff_len (max diff_scale scale_min);
          a = rev (num_digits n1); b = rev (num_digits n2);
          longer1 = n_scale n1 - min_scale; longer2 = n_scale n2 - min_scale;
          (first, borrow) = (if n_scale n1 \<noteq> min_scale then (take longer1 a, 0) else neg_loop 0 (take longer2 b)) in
      rm_leading_zeros
        (diff\<lparr>n_value :=
          rev (first @ sub_loop borrow (drop longer1 a) (drop longer2 b)) @ replicate (scale_min - diff_scale) 0\<rparr>))"

subsection \<open>With signs\<close>

definition bc_sub :: "bc_num \<Rightarrow> bc_num \<Rightarrow> nat \<Rightarrow> bc_num" where
  "bc_sub n1 n2 scale_min =
     (if n_sign n1 \<noteq> n_sign n2 then (do_add n1 n2 scale_min)\<lparr>n_sign := n_sign n1\<rparr>
      else
        (let cmp_res = do_compare n1 n2 False False in
         if cmp_res = -1 then
           (do_sub n2 n1 scale_min)\<lparr>n_sign := (if n_sign n2 = PLUS then MINUS else PLUS)\<rparr>
         else if cmp_res = 0 then bc_new_num 1 (max scale_min (max (n_scale n1) (n_scale n2)))
         else (do_sub n1 n2 scale_min)\<lparr>n_sign := n_sign n1\<rparr>))"

definition bc_add :: "bc_num \<Rightarrow> bc_num \<Rightarrow> nat \<Rightarrow> bc_num" where
  "bc_add n1 n2 scale_min =
     (if n_sign n1 = n_sign n2 then (do_add n1 n2 scale_min)\<lparr>n_sign := n_sign n1\<rparr>
      else
        (let cmp_res = do_compare n1 n2 False False in
         if cmp_res = -1 then (do_sub n2 n1 scale_min)\<lparr>n_sign := n_sign n2\<rparr>
         else if cmp_res = 0 then bc_new_num 1 (max scale_min (max (n_scale n1) (n_scale n2)))
         else (do_sub n1 n2 scale_min)\<lparr>n_sign := n_sign n1\<rparr>))"

end
