(* ===== verification/Number_Mul.thy ===== *)
theory Number_Mul
  imports Number
begin

text \<open>
  Multiplication (lib/number.c of bc): the schoolbook method for short numbers, and the recursive method of
  Karatsuba that cuts long numbers in halves.

  The result is \<open>None\<close> when the program ends in the assertion of \<open>_bc_shift_addsub\<close>, or when a carry would go
  beyond the first digit of the product there.
\<close>

abbreviation (input) mul_base_digits :: nat where
  "mul_base_digits \<equiv> 80"

abbreviation (input) MUL_SMALL_DIGITS :: nat where
  "MUL_SMALL_DIGITS \<equiv> mul_base_digits div 4"

subsection \<open>The schoolbook method\<close>

text \<open>
  The inner loop of \<open>_bc_simp_mul\<close>, on the digits of both numbers from the last to the first: the first pointer
  is at place \<open>i\<close> and goes up, the second is at place \<open>j - 1\<close> and goes down.
\<close>

fun mul_column :: "int list \<Rightarrow> int list \<Rightarrow> nat \<Rightarrow> nat \<Rightarrow> int \<Rightarrow> int" where
  "mul_column a b i 0 acc = acc"
| "mul_column a b i (Suc j) acc = (if i < length a then mul_column a b (Suc i) j (acc + a ! i * b ! j) else acc)"

text \<open>The outer loop: \<open>k\<close> more digits from place \<open>indx\<close> on, and the rest of the sum as the first digit.\<close>

fun product_loop :: "int list \<Rightarrow> int list \<Rightarrow> nat \<Rightarrow> nat \<Rightarrow> int \<Rightarrow> int list" where
  "product_loop a b indx 0 acc = [acc]"
| "product_loop a b indx (Suc k) acc =
     (let acc = mul_column a b (indx + 1 - length b) (min (indx + 1) (length b)) acc in
      acc mod BASE # product_loop a b (Suc indx) k (acc div BASE))"

definition simp_mul :: "bc_num \<Rightarrow> nat \<Rightarrow> bc_num \<Rightarrow> nat \<Rightarrow> bc_num" where
  "simp_mul n1 n1len n2 n2len =
     (let prodlen = n1len + n2len + 1;
          a = rev (take n1len (n_value n1)); b = rev (take n2len (n_value n2)) in
      (bc_new_num prodlen 0)\<lparr>n_value := rev (product_loop a b 0 (prodlen - 1) 0)\<rparr>)"

subsection \<open>Shifted addition and subtraction\<close>

text \<open>The loops of \<open>_bc_shift_addsub\<close>: over the digits of the value, and over the carries behind them.\<close>

fun carry_add :: "int \<Rightarrow> int list \<Rightarrow> int list option" where
  "carry_add carry [] = None"
| "carry_add carry (x # xs) =
     (if x + carry > BASE - 1 then map_option ((#) (x + carry - BASE)) (carry_add carry xs)
      else Some ((x + carry) # xs))"

fun carry_sub :: "int \<Rightarrow> int list \<Rightarrow> int list option" where
  "carry_sub carry [] = None"
| "carry_sub carry (x # xs) =
     (if x - carry < 0 then map_option ((#) (x - carry + BASE)) (carry_sub carry xs)
      else Some ((x - carry) # xs))"

fun acc_add :: "int \<Rightarrow> int list \<Rightarrow> int list \<Rightarrow> int list option" where
  "acc_add carry xs [] = (if carry = 0 then Some xs else carry_add carry xs)"
| "acc_add carry [] (v # vs) = None"
| "acc_add carry (x # xs) (v # vs) =
     (let s = x + (v + carry) in
      if s > BASE - 1 then map_option ((#) (s - BASE)) (acc_add 1 xs vs) else map_option ((#) s) (acc_add 0 xs vs))"

fun acc_sub :: "int \<Rightarrow> int list \<Rightarrow> int list \<Rightarrow> int list option" where
  "acc_sub carry xs [] = (if carry = 0 then Some xs else carry_sub carry xs)"
| "acc_sub carry [] (v # vs) = None"
| "acc_sub carry (x # xs) (v # vs) =
     (let s = x - (v + carry) in
      if s < 0 then map_option ((#) (s + BASE)) (acc_sub 1 xs vs) else map_option ((#) s) (acc_sub 0 xs vs))"

definition shift_addsub :: "bc_num \<Rightarrow> bc_num \<Rightarrow> nat \<Rightarrow> bool \<Rightarrow> bc_num option" where
  "shift_addsub accum val shift sub =
     (let count = (if hd (n_value val) = 0 then n_len val - 1 else n_len val);
          len = n_len accum + n_scale accum in
      if \<not> len \<ge> shift + count then None
      else
        (let acc = rev (take len (n_value accum)); v = take count (rev (take (n_len val) (n_value val))) in
         map_option
           (\<lambda>ds. accum\<lparr>n_value := rev (take shift acc @ ds) @ drop len (n_value accum)\<rparr>)
           (if sub then acc_sub 0 (drop shift acc) v else acc_add 0 (drop shift acc) v)))"

subsection \<open>The recursive method\<close>

text \<open>A number inside another one.\<close>

definition new_sub_num :: "nat \<Rightarrow> nat \<Rightarrow> int list \<Rightarrow> bc_num" where
  "new_sub_num len scale value = \<lparr>n_sign = PLUS, n_len = len, n_scale = scale, n_value = value\<rparr>"

text \<open>The two parts of the first \<open>len\<close> digits: those before the last \<open>n\<close>, and the last \<open>n\<close>.\<close>

definition split_num :: "bc_num \<Rightarrow> nat \<Rightarrow> nat \<Rightarrow> bc_num \<times> bc_num" where
  "split_num u ulen n =
     (if ulen < n then (rm_leading_zeros num_zero, rm_leading_zeros (new_sub_num ulen 0 (n_value u)))
      else
        (rm_leading_zeros (new_sub_num (ulen - n) 0 (n_value u)),
         rm_leading_zeros (new_sub_num n 0 (drop (ulen - n) (n_value u)))))"

lemma skip_leading_len: "fst (skip_leading len ds) \<le> len"
  by (induction len ds rule: skip_leading.induct) auto

lemma rm_leading_zeros_len: "n_len (rm_leading_zeros n) \<le> n_len n"
  using skip_leading_len [of "n_len n" "n_value n"] by (auto simp: rm_leading_zeros_def split: prod.split)

lemma split_num_len:
  assumes "len \<le> 2 * n" and "1 \<le> n"
  shows "n_len (fst (split_num u len n)) \<le> n" "n_len (snd (split_num u len n)) \<le> n"
proof -
  have "n_len (rm_leading_zeros m) \<le> n" if "n_len m \<le> n" for m
    using rm_leading_zeros_len [of m] that by linarith
  then show "n_len (fst (split_num u len n)) \<le> n" "n_len (snd (split_num u len n)) \<le> n"
    using assms by (auto simp: split_num_def new_sub_num_def num_zero_def bc_new_num_def)
qed

lemma split_num_plus: "n_sign (fst (split_num u len n)) = PLUS" "n_sign (snd (split_num u len n)) = PLUS"
  by (simp_all add: split_num_def rm_leading_zeros_def new_sub_num_def num_zero_def bc_new_num_def split: prod.split)

lemma do_sub_len: "n_len (do_sub a b m) \<le> max (n_len a) (n_len b)"
  unfolding do_sub_def Let_def
  by (auto split: prod.split intro!: order_trans [OF rm_leading_zeros_len] simp: bc_new_num_def)

lemma bc_sub_len:
  assumes "n_sign a = PLUS" "n_sign b = PLUS" "n_len a \<le> n" "n_len b \<le> n" "1 \<le> n"
  shows "n_len (bc_sub a b m) \<le> n"
  using assms do_sub_len [of a b m] do_sub_len [of b a m] by (auto simp: bc_sub_def Let_def bc_new_num_def)

text \<open>Every recursive call is about numbers of at most half the length, rounded up.\<close>

lemma half_smaller:
  assumes "\<not> (ulen + vlen < mul_base_digits \<or> ulen < MUL_SMALL_DIGITS \<or> vlen < MUL_SMALL_DIGITS)"
    and "n = (max ulen vlen + 1) div 2"
  shows "n < max ulen vlen" "ulen \<le> 2 * n" "vlen \<le> 2 * n" "1 \<le> n"
  using assms by auto

function rec_mul :: "bc_num \<Rightarrow> nat \<Rightarrow> bc_num \<Rightarrow> nat \<Rightarrow> bc_num option" where
  "rec_mul u ulen v vlen =
     (if ulen + vlen < mul_base_digits \<or> ulen < MUL_SMALL_DIGITS \<or> vlen < MUL_SMALL_DIGITS
      then Some (simp_mul u ulen v vlen)
      else
        (let n = (max ulen vlen + 1) div 2;
             u1 = fst (split_num u ulen n); u0 = snd (split_num u ulen n);
             v1 = fst (split_num v vlen n); v0 = snd (split_num v vlen n);
             m1zero = (bc_is_zero u1 \<or> bc_is_zero v1);
             d1 = bc_sub u1 u0 0; d2 = bc_sub v0 v1 0 in
         Option.bind
           (if m1zero then Some num_zero else rec_mul u1 (n_len u1) v1 (n_len v1)) (\<lambda>m1.
         Option.bind
           (if bc_is_zero d1 \<or> bc_is_zero d2 then Some num_zero else rec_mul d1 (n_len d1) d2 (n_len d2)) (\<lambda>m2.
         Option.bind
           (if bc_is_zero u0 \<or> bc_is_zero v0 then Some num_zero else rec_mul u0 (n_len u0) v0 (n_len v0)) (\<lambda>m3.
         let prod = bc_new_num (ulen + vlen + 1) 0 in
         Option.bind
           (if \<not> m1zero then
              Option.bind (shift_addsub prod m1 (2 * n) False) (\<lambda>prod. shift_addsub prod m1 n False)
            else Some prod) (\<lambda>prod.
         Option.bind (shift_addsub prod m3 n False) (\<lambda>prod.
         Option.bind (shift_addsub prod m3 0 False) (\<lambda>prod.
           shift_addsub prod m2 n (n_sign d1 \<noteq> n_sign d2)))))))))"
proof (goal_cases)
  case (1 P x)
  then show ?case
    by (cases x rule: prod_cases4) blast
next
  case (2 u ulen v vlen u' ulen' v' vlen')
  then have "u' = u" "ulen' = ulen" "v' = v" "vlen' = vlen"
    by simp_all
  then show ?case
    by (simp only:)
qed

termination
proof (relation "measure (\<lambda>(u, ulen, v, vlen). max ulen vlen)", goal_cases)
  case 1
  show ?case by simp
next
  case (2 u ulen v vlen n u1 u0 v1 v0 m1zero d1 d2)
  note half = half_smaller [OF 2(1,2)]
  have "n_len u1 \<le> n" "n_len v1 \<le> n"
    unfolding 2(3,5) using split_num_len(1) half by blast+
  then show ?case
    using half(1) by simp
next
  case (3 u ulen v vlen n u1 u0 v1 v0 m1zero d1 d2)
  note half = half_smaller [OF 3(1,2)]
  have "n_len d1 \<le> n" "n_len d2 \<le> n"
    unfolding 3(3-6,8,9) using split_num_len half by (blast intro!: bc_sub_len split_num_plus)+
  then show ?case
    using half(1) by simp
next
  case (4 u ulen v vlen n u1 u0 v1 v0 m1zero d1 d2)
  note half = half_smaller [OF 4(1,2)]
  have "n_len u0 \<le> n" "n_len v0 \<le> n"
    unfolding 4(4,6) using split_num_len(2) half by blast+
  then show ?case
    using half(1) by simp
qed

declare rec_mul.simps [simp del]

definition bc_multiply :: "bc_num \<Rightarrow> bc_num \<Rightarrow> nat \<Rightarrow> bc_num option" where
  "bc_multiply n1 n2 scale =
     (let len1 = n_len n1 + n_scale n1;
          len2 = n_len n2 + n_scale n2;
          full_scale = n_scale n1 + n_scale n2;
          prod_scale = min full_scale (max scale (max (n_scale n1) (n_scale n2))) in
      map_option
        (\<lambda>pval.
          let pval = rm_leading_zeros
            (pval\<lparr>n_sign := (if n_sign n1 = n_sign n2 then PLUS else MINUS),
               n_len := len2 + len1 + 1 - full_scale, n_scale := prod_scale\<rparr>) in
          if bc_is_zero pval then pval\<lparr>n_sign := PLUS\<rparr> else pval)
        (rec_mul n1 len1 n2 len2))"

end
