(* ===== verification/Digits.thy ===== *)
theory Digits
  imports Complex_Main Number
begin

text \<open>
  Lists of decimal digits as integers, and numbers as rationals. \<open>lval\<close> is the value of a list with the last digit
  first, the order in which the loops of number.c go.
\<close>

subsection \<open>Values of digit lists\<close>

primrec lval :: "int list \<Rightarrow> int" where
  "lval [] = 0"
| "lval (x # xs) = x + 10 * lval xs"

abbreviation digs :: "int list \<Rightarrow> bool" where
  "digs xs \<equiv> set xs \<subseteq> {0..9}"

lemma lval_append: "lval (xs @ ys) = lval xs + 10 ^ length xs * lval ys"
  by (induction xs) (simp_all add: algebra_simps)

lemma lval_zeros [simp]: "lval (replicate n 0) = 0"
  by (induction n) simp_all

lemma lval_take_drop: "lval xs = lval (take n xs) + 10 ^ min n (length xs) * lval (drop n xs)"
  using lval_append [of "take n xs" "drop n xs"] by (simp add: min.commute)

lemma lval_nonneg: "digs xs \<Longrightarrow> 0 \<le> lval xs"
  by (induction xs) auto

lemma lval_less: "digs xs \<Longrightarrow> lval xs < 10 ^ length xs"
  by (induction xs) auto

lemma lval_mod_div:
  assumes "digs xs" and "k \<le> length xs"
  shows "lval xs mod 10 ^ k = lval (take k xs)" "lval xs div 10 ^ k = lval (drop k xs)"
proof -
  have "lval xs = lval (take k xs) + 10 ^ k * lval (drop k xs)"
    using lval_take_drop [of xs k] assms(2) by (simp add: min_def)
  moreover have "digs (take k xs)"
    using assms(1) set_take_subset [of k xs] by (rule order_trans [rotated])
  then have "0 \<le> lval (take k xs)" "lval (take k xs) < 10 ^ k"
    using lval_nonneg [of "take k xs"] lval_less [of "take k xs"] assms(2) by (simp_all add: min_absorb2)
  ultimately show "lval xs mod 10 ^ k = lval (take k xs)" "lval xs div 10 ^ k = lval (drop k xs)"
    by simp_all
qed

lemma lval_eq_0: "digs xs \<Longrightarrow> lval xs = 0 \<longleftrightarrow> (\<forall>x \<in> set xs. x = 0)"
proof (induction xs)
  case (Cons x xs)
  then show ?case
    using lval_nonneg [of xs] by auto
qed simp

text \<open>Lists with the first digit first.\<close>

definition nval :: "int list \<Rightarrow> int" where
  "nval xs = lval (rev xs)"

lemma nval_simps [simp]: "nval [] = 0" "nval (xs @ [x]) = 10 * nval xs + x"
  by (simp_all add: nval_def)

lemma nval_append: "nval (xs @ ys) = nval xs * 10 ^ length ys + nval ys"
  by (simp add: nval_def lval_append)

lemma nval_Cons: "nval (x # xs) = x * 10 ^ length xs + nval xs"
  using nval_append [of "[x]" xs] by (simp add: nval_def)

lemma nval_zeros [simp]: "nval (replicate n 0) = 0"
  by (simp add: nval_def)

lemma nval_nonneg: "digs xs \<Longrightarrow> 0 \<le> nval xs"
  by (simp add: nval_def lval_nonneg)

lemma nval_less: "digs xs \<Longrightarrow> nval xs < 10 ^ length xs"
  using lval_less [of "rev xs"] by (simp add: nval_def)

lemma nval_eq_0: "digs xs \<Longrightarrow> nval xs = 0 \<longleftrightarrow> (\<forall>x \<in> set xs. x = 0)"
  using lval_eq_0 [of "rev xs"] by (simp add: nval_def)

lemma nval_head: "digs (x # xs) \<Longrightarrow> x \<noteq> 0 \<Longrightarrow> 10 ^ length xs \<le> nval (x # xs)"
proof -
  assume "digs (x # xs)" "x \<noteq> 0"
  then have "1 \<le> x" "0 \<le> nval xs"
    by (auto intro: nval_nonneg)
  moreover from this have "1 * 10 ^ length xs \<le> x * 10 ^ length xs"
    by (intro mult_right_mono) auto
  ultimately show ?thesis
    by (simp only: nval_Cons mult_1)
qed

subsection \<open>Numbers\<close>

text \<open>Well-formed numbers, and those without superfluous zeros in front, and those that are not a negative zero.\<close>

definition num_ok :: "bc_num \<Rightarrow> bool" where
  "num_ok n \<longleftrightarrow> digs (n_value n) \<and> n_len n + n_scale n \<le> length (n_value n)"

definition normal :: "bc_num \<Rightarrow> bool" where
  "normal n \<longleftrightarrow> num_ok n \<and> 1 \<le> n_len n \<and> (1 < n_len n \<longrightarrow> hd (n_value n) \<noteq> 0)"

definition mag :: "bc_num \<Rightarrow> int" where
  "mag n = nval (num_digits n)"

definition abs_val :: "bc_num \<Rightarrow> rat" where
  "abs_val n = of_int (mag n) / 10 ^ n_scale n"

definition sign_val :: "sign \<Rightarrow> rat" where
  "sign_val s = (if s = MINUS then - 1 else 1)"

definition num_val :: "bc_num \<Rightarrow> rat" where
  "num_val n = sign_val (n_sign n) * abs_val n"

lemma num_digits_ok: "num_ok n \<Longrightarrow> digs (num_digits n)" "num_ok n \<Longrightarrow> length (num_digits n) = n_len n + n_scale n"
  by (auto simp: num_ok_def num_digits_def dest: in_set_takeD)

lemma mag_nonneg: "num_ok n \<Longrightarrow> 0 \<le> mag n"
  by (simp add: mag_def nval_nonneg num_digits_ok)

lemma mag_less: "num_ok n \<Longrightarrow> mag n < 10 ^ (n_len n + n_scale n)"
  using nval_less [of "num_digits n"] by (simp add: mag_def num_digits_ok)

lemma mag_sign [simp]: "mag (n\<lparr>n_sign := s\<rparr>) = mag n" "abs_val (n\<lparr>n_sign := s\<rparr>) = abs_val n"
    "num_ok (n\<lparr>n_sign := s\<rparr>) = num_ok n" "normal (n\<lparr>n_sign := s\<rparr>) = normal n"
  by (simp_all add: mag_def abs_val_def num_ok_def num_digits_def normal_def)

lemma abs_val_nonneg: "num_ok n \<Longrightarrow> 0 \<le> abs_val n"
  by (simp add: abs_val_def mag_nonneg)

lemma new_num_ok [simp]: "num_ok (bc_new_num len scale)" "mag (bc_new_num len scale) = 0" "abs_val (bc_new_num len scale) = 0"
    "num_val (bc_new_num len scale) = 0"
  by (auto simp: num_ok_def bc_new_num_def mag_def num_digits_def abs_val_def num_val_def)

lemma new_num_sel [simp]: "n_sign (bc_new_num len scale) = PLUS" "n_len (bc_new_num len scale) = len"
    "n_scale (bc_new_num len scale) = scale" "n_value (bc_new_num len scale) = replicate (len + scale) 0"
  by (simp_all add: bc_new_num_def)

lemma new_num_normal [simp]: "normal (bc_new_num 1 scale)"
  by (simp add: normal_def)

lemma numerals_ok [simp]: "normal num_zero" "normal num_one" "normal num_two"
    "num_val num_zero = 0" "num_val num_one = 1" "num_val num_two = 2"
  by (simp_all add: normal_def num_ok_def num_zero_def num_one_def num_two_def num_val_def abs_val_def mag_def num_digits_def
    sign_val_def nval_Cons)

subsection \<open>Leading zeros and zero tests\<close>

lemma skip_leading_drops: "\<exists>k. skip_leading len ds = (len - k, drop k ds) \<and> k \<le> len - 1 \<and> k \<le> length ds \<and> (\<forall>d \<in> set (take k ds). d = 0)"
proof (induction len ds rule: skip_leading.induct)
  case (1 len d ds)
  show ?case
  proof (cases "d = 0 \<and> 1 < len")
    case True
    then obtain k where "skip_leading (len - 1) ds = (len - 1 - k, drop k ds)" "k \<le> len - 1 - 1" "k \<le> length ds" "\<forall>d \<in> set (take k ds). d = 0"
      using 1 by blast
    then show ?thesis
      using True by (intro exI [of _ "Suc k"]) auto
  qed (auto intro: exI [of _ 0])
qed (auto intro: exI [of _ 0])

lemma skip_leading_head: "skip_leading len ds = (l, es) \<Longrightarrow> 1 < l \<Longrightarrow> es \<noteq> [] \<Longrightarrow> hd es \<noteq> 0"
  by (induction len ds rule: skip_leading.induct) (auto split: if_splits)

lemma rm_leading_zeros_ok:
  assumes "num_ok n"
  shows "num_ok (rm_leading_zeros n)" "mag (rm_leading_zeros n) = mag n" "n_scale (rm_leading_zeros n) = n_scale n"
    "n_sign (rm_leading_zeros n) = n_sign n" "n_len (rm_leading_zeros n) \<le> n_len n" "1 \<le> n_len n \<Longrightarrow> normal (rm_leading_zeros n)"
proof -
  obtain k where k: "skip_leading (n_len n) (n_value n) = (n_len n - k, drop k (n_value n))" "k \<le> n_len n - 1" "k \<le> length (n_value n)"
    "\<forall>d \<in> set (take k (n_value n)). d = 0"
    using skip_leading_drops by blast
  have rm: "rm_leading_zeros n = n\<lparr>n_len := n_len n - k, n_value := drop k (n_value n)\<rparr>"
    by (simp add: rm_leading_zeros_def k(1))
  show ok: "num_ok (rm_leading_zeros n)"
    using assms k(2) by (auto simp: rm num_ok_def dest: in_set_dropD)
  have "num_digits n = take k (n_value n) @ num_digits (rm_leading_zeros n)"
    using k(2) take_add [of k "n_len n - k + n_scale n" "n_value n"] by (simp add: num_digits_def rm)
  moreover have "nval (take k (n_value n)) = 0"
    using assms k(4) nval_eq_0 [of "take k (n_value n)"] by (auto simp: num_ok_def dest: in_set_takeD)
  ultimately show "mag (rm_leading_zeros n) = mag n"
    by (simp add: mag_def nval_append)
  show "n_scale (rm_leading_zeros n) = n_scale n" "n_sign (rm_leading_zeros n) = n_sign n" "n_len (rm_leading_zeros n) \<le> n_len n"
    by (simp_all add: rm)
  assume "1 \<le> n_len n"
  moreover have "drop k (n_value n) \<noteq> []" if "1 < n_len n - k"
    using assms that k(2) by (auto simp: num_ok_def)
  ultimately show "normal (rm_leading_zeros n)"
    using k(2) ok skip_leading_head [OF k(1)] by (auto simp: normal_def rm)
qed

lemma skip_zeros_drops:
  "\<exists>k. skip_zeros c ds = (c - k, drop k ds) \<and> k \<le> c \<and> k \<le> length ds \<and> (\<forall>d \<in> set (take k ds). d = 0) \<and> (k < c \<longrightarrow> k < length ds \<longrightarrow> ds ! k \<noteq> 0)"
proof (induction c ds rule: skip_zeros.induct)
  case (1 c d ds)
  show ?case
  proof (cases "d = 0")
    case True
    then obtain k where "skip_zeros c ds = (c - k, drop k ds)" "k \<le> c" "k \<le> length ds" "\<forall>d \<in> set (take k ds). d = 0"
      "k < c \<longrightarrow> k < length ds \<longrightarrow> ds ! k \<noteq> 0"
      using 1 by blast
    then show ?thesis
      using True by (intro exI [of _ "Suc k"]) auto
  qed (auto intro: exI [of _ 0])
qed (auto intro: exI [of _ 0])

lemma is_zero_mag: "num_ok n \<Longrightarrow> bc_is_zero n \<longleftrightarrow> mag n = 0"
proof -
  assume ok: "num_ok n"
  obtain k where k: "skip_zeros (n_len n + n_scale n) (n_value n) = (n_len n + n_scale n - k, drop k (n_value n))"
    "k \<le> n_len n + n_scale n" "\<forall>d \<in> set (take k (n_value n)). d = 0"
    "k < n_len n + n_scale n \<longrightarrow> k < length (n_value n) \<longrightarrow> n_value n ! k \<noteq> 0"
    using skip_zeros_drops by blast
  have "bc_is_zero n \<longleftrightarrow> k = n_len n + n_scale n"
    using k by (auto simp: bc_is_zero_def)
  also have "\<dots> \<longleftrightarrow> (\<forall>d \<in> set (num_digits n). d = 0)"
  proof
    assume zeros: "\<forall>d \<in> set (num_digits n). d = 0"
    show "k = n_len n + n_scale n"
    proof (rule ccontr)
      assume "k \<noteq> n_len n + n_scale n"
      then have "k < length (num_digits n)" "num_digits n ! k \<noteq> 0"
        using k ok by (auto simp: num_digits_def num_ok_def)
      then show False
        using zeros nth_mem by blast
    qed
  qed (use k in \<open>auto simp: num_digits_def\<close>)
  also have "\<dots> \<longleftrightarrow> mag n = 0"
    using ok by (simp add: mag_def nval_eq_0 num_digits_ok)
  finally show ?thesis .
qed

lemma is_zero_val: "num_ok n \<Longrightarrow> bc_is_zero n \<longleftrightarrow> num_val n = 0"
  by (simp add: is_zero_mag num_val_def abs_val_def sign_val_def)

subsection \<open>Truncation\<close>

text \<open>The value \<open>x\<close> with the places after the first \<open>s\<close> decimals cut off.\<close>

definition cut :: "rat \<Rightarrow> nat \<Rightarrow> rat" where
  "cut x s = sgn x * (of_int \<lfloor>\<bar>x\<bar> * 10 ^ s\<rfloor> / 10 ^ s)"

lemma cut_sign_val: "0 \<le> a \<Longrightarrow> cut (sign_val sg * a) s = sign_val sg * (of_int \<lfloor>a * 10 ^ s\<rfloor> / 10 ^ s)"
  by (cases "a = 0") (auto simp: cut_def sign_val_def sgn_if)

lemma cut_of_int_div:
  assumes "s \<le> f" and "0 \<le> (m :: int)"
  shows "cut (sign_val sg * (of_int m / 10 ^ f)) s = sign_val sg * (of_int (m div 10 ^ (f - s)) / 10 ^ s)"
proof -
  have "(10 :: rat) ^ f = 10 ^ (f - s) * 10 ^ s"
    using assms(1) by (simp flip: power_add)
  then have "of_int m / 10 ^ f * 10 ^ s = (of_int m / of_int (10 ^ (f - s)) :: rat)"
    by simp
  then have "\<lfloor>of_int m / 10 ^ f * 10 ^ s :: rat\<rfloor> = m div 10 ^ (f - s)"
    by (simp only: floor_divide_of_int_eq)
  moreover have "0 \<le> (of_int m / 10 ^ f :: rat)"
    using assms(2) by simp
  ultimately show ?thesis
    by (simp only: cut_sign_val)
qed

lemma cut_error: "\<bar>x - cut x s\<bar> < 1 / 10 ^ s" "\<bar>cut x s\<bar> \<le> \<bar>x\<bar>"
proof -
  define y where "y = (of_int \<lfloor>\<bar>x\<bar> * 10 ^ s\<rfloor> / 10 ^ s :: rat)"
  have "of_int \<lfloor>\<bar>x\<bar> * 10 ^ s\<rfloor> \<le> \<bar>x\<bar> * 10 ^ s" "\<bar>x\<bar> * 10 ^ s < of_int \<lfloor>\<bar>x\<bar> * 10 ^ s\<rfloor> + 1"
    by linarith+
  then have "0 \<le> y" "y \<le> \<bar>x\<bar>" "\<bar>x\<bar> < y + 1 / 10 ^ s"
    by (simp_all add: y_def field_simps)
  moreover have "cut x s = sgn x * y"
    by (simp add: cut_def y_def)
  ultimately show "\<bar>x - cut x s\<bar> < 1 / 10 ^ s" "\<bar>cut x s\<bar> \<le> \<bar>x\<bar>"
    by (cases x "0 :: rat" rule: linorder_cases; simp)+
qed

lemma nval_take:
  assumes "digs ds" and "k \<le> length ds"
  shows "nval (take k ds) = nval ds div 10 ^ (length ds - k)"
  using lval_mod_div(2) [of "rev ds" "length ds - k"] assms by (simp add: nval_def drop_rev)

text \<open>A zero is never negative.\<close>

definition zero_plus :: "bc_num \<Rightarrow> bool" where
  "zero_plus n \<longleftrightarrow> (num_val n = 0 \<longrightarrow> n_sign n = PLUS)"

text \<open>What every arithmetic function expects, and all but one of them give.\<close>

definition good :: "bc_num \<Rightarrow> bool" where
  "good n \<longleftrightarrow> normal n \<and> zero_plus n"

lemma goodD: "good n \<Longrightarrow> normal n" "good n \<Longrightarrow> num_ok n" "good n \<Longrightarrow> zero_plus n"
  by (simp_all add: good_def normal_def)

lemma good_minus: "good n \<Longrightarrow> n_sign n = MINUS \<Longrightarrow> abs_val n \<noteq> 0"
  by (auto simp: good_def zero_plus_def num_val_def)

lemma good_numerals [simp]: "good num_zero" "good num_one" "good num_two" "n_scale num_zero = 0" "n_scale num_one = 0" "n_scale num_two = 0"
  by (simp_all add: good_def zero_plus_def) (simp_all add: num_zero_def num_one_def num_two_def)

end
