(* ===== verification/Number_Correct.thy ===== *)
theory Number_Correct
  imports Digits
begin

text \<open>
  Comparison, addition and subtraction of number.c: they are those of the rational numbers, and exact.
\<close>

subsection \<open>Loops over digits\<close>

lemma carry_loop_val: "lval (carry_loop c xs) = c + lval xs"
  by (induction c xs rule: carry_loop.induct) (auto simp: Let_def)

lemma carry_loop_digs: "digs xs \<Longrightarrow> c \<in> {0, 1} \<Longrightarrow> digs (carry_loop c xs)"
  by (induction c xs rule: carry_loop.induct) (auto simp: Let_def)

lemma carry_loop_length [simp]: "length (carry_loop c xs) = Suc (length xs)"
  by (induction c xs rule: carry_loop.induct) (auto simp: Let_def)

lemma add_loop_val: "lval (add_loop c xs ys) = c + lval xs + lval ys"
  by (induction c xs ys rule: add_loop.induct) (auto simp: Let_def carry_loop_val)

lemma add_loop_digs: "digs xs \<Longrightarrow> digs ys \<Longrightarrow> c \<in> {0, 1} \<Longrightarrow> digs (add_loop c xs ys)"
proof (induction c xs ys rule: add_loop.induct)
  case (1 carry x xs y ys)
  then show ?case by (auto simp: Let_def)
qed (simp_all add: carry_loop_digs del: carry_loop.simps)

lemma add_loop_length [simp]: "length (add_loop c xs ys) = Suc (max (length xs) (length ys))"
  by (induction c xs ys rule: add_loop.induct) (auto simp: Let_def)

lemma borrow_digit_val: "borrow_digit v = (d, b) \<Longrightarrow> d = v + 10 * b \<and> b \<in> {0, 1}"
  by (auto simp: borrow_digit_def split: if_splits)

lemma borrow_digit_dig: "borrow_digit v = (d, b) \<Longrightarrow> - 10 \<le> v \<Longrightarrow> v \<le> 9 \<Longrightarrow> 0 \<le> d \<and> d \<le> 9"
  by (auto simp: borrow_digit_def split: if_splits)

lemma neg_loop_val:
  assumes "neg_loop b ys = (ds, b')"
  shows "lval ds = 10 ^ length ys * b' - lval ys - b" and "length ds = length ys"
    and "digs ys \<Longrightarrow> b \<in> {0, 1} \<Longrightarrow> digs ds \<and> b' \<in> {0, 1}"
  using assms
proof (induction ys arbitrary: b ds b')
  case Nil
  {
    case 1
    then show ?case by simp
  next
    case 2
    then show ?case by simp
  next
    case 3
    then show ?case by auto
  }
next
  case (Cons y ys)
  have step: "\<exists>d c es. borrow_digit (- y - b) = (d, c) \<and> neg_loop c ys = (es, b') \<and> ds = d # es" if "neg_loop b (y # ys) = (ds, b')" for b ds b'
    using that by (auto split: prod.splits)
  {
    case 1
    then obtain d c es where *: "borrow_digit (- y - b) = (d, c)" "neg_loop c ys = (es, b')" "ds = d # es"
      using step by blast
    then show ?case
      using Cons.IH(1) [OF *(2)] borrow_digit_val [OF *(1)] by (simp add: algebra_simps)
  next
    case 2
    then obtain d c es where "neg_loop c ys = (es, b')" "ds = d # es"
      using step by blast
    then show ?case
      using Cons.IH(2) by simp
  next
    case 3
    then obtain d c es where *: "borrow_digit (- y - b) = (d, c)" "neg_loop c ys = (es, b')" "ds = d # es"
      using step by blast
    have "0 \<le> d \<and> d \<le> 9"
      by (rule borrow_digit_dig [OF *(1)]) (use 3 in auto)
    moreover have "c \<in> {0, 1}"
      using borrow_digit_val [OF *(1)] by simp
    ultimately show ?case
      using 3 Cons.IH(3) [OF _ _ *(2)] *(3) by auto
  }
qed

lemma borrow_loop_props:
  "\<exists>b' \<in> {0, 1}. lval (borrow_loop b xs) = 10 ^ length xs * b' + lval xs - b \<and> length (borrow_loop b xs) = length xs \<and>
    (digs xs \<longrightarrow> digs (borrow_loop b xs))" if "b \<in> {0, 1}"
  using that
proof (induction b xs rule: borrow_loop.induct)
  case (2 b x xs)
  obtain d c where *: "borrow_digit (x - b) = (d, c)"
    by fastforce
  from borrow_digit_val [OF *] have c: "c \<in> {0, 1}" "d = x - b + 10 * c"
    by simp_all
  obtain b' where b': "b' \<in> {0, 1}" "lval (borrow_loop c xs) = 10 ^ length xs * b' + lval xs - c"
    "length (borrow_loop c xs) = length xs" "digs xs \<longrightarrow> digs (borrow_loop c xs)"
    using 2(1) [OF *[symmetric] refl c(1)] by blast
  have "digs (x # xs) \<longrightarrow> 0 \<le> d \<and> d \<le> 9"
    using borrow_digit_dig [OF *] 2(2) by auto
  then show ?case
    using b' c * by (intro bexI [of _ b']) (auto simp: algebra_simps)
qed auto

lemma sub_loop_props:
  assumes "b \<in> {0, 1}" and "length ys \<le> length xs"
  shows "\<exists>b' \<in> {0, 1}. lval (sub_loop b xs ys) = 10 ^ length xs * b' + lval xs - lval ys - b \<and>
    length (sub_loop b xs ys) = length xs \<and> (digs xs \<longrightarrow> digs ys \<longrightarrow> digs (sub_loop b xs ys))"
  using assms
proof (induction b xs ys rule: sub_loop.induct)
  case (1 b x xs y ys)
  obtain d c where *: "borrow_digit (x - y - b) = (d, c)"
    by fastforce
  from borrow_digit_val [OF *] have c: "c \<in> {0, 1}" "d = x - y - b + 10 * c"
    by simp_all
  obtain b' where b': "b' \<in> {0, 1}" "lval (sub_loop c xs ys) = 10 ^ length xs * b' + lval xs - lval ys - c"
    "length (sub_loop c xs ys) = length xs" "digs xs \<longrightarrow> digs ys \<longrightarrow> digs (sub_loop c xs ys)"
    using 1(1) [OF *[symmetric] refl c(1)] 1(3) by auto
  have "digs (x # xs) \<longrightarrow> digs (y # ys) \<longrightarrow> 0 \<le> d \<and> d \<le> 9"
    using borrow_digit_dig [OF *] 1(2) by auto
  then show ?case
    using b' c * by (intro bexI [of _ b']) (auto simp: algebra_simps)
qed (use borrow_loop_props in \<open>simp_all del: borrow_loop.simps(2)\<close>)

text \<open>With a difference that is not negative there is no borrow at the end.\<close>

lemma sub_loop_val:
  assumes "b \<in> {0, 1}" and "length ys \<le> length xs" and "digs xs" and "digs ys" and "lval ys + b \<le> lval xs"
  shows "lval (sub_loop b xs ys) = lval xs - lval ys - b" "length (sub_loop b xs ys) = length xs" "digs (sub_loop b xs ys)"
proof -
  obtain b' where b': "b' \<in> {0, 1}" "lval (sub_loop b xs ys) = 10 ^ length xs * b' + lval xs - lval ys - b"
    "length (sub_loop b xs ys) = length xs" "digs (sub_loop b xs ys)"
    using sub_loop_props [OF assms(1,2)] assms(3,4) by blast
  moreover from this have "lval (sub_loop b xs ys) < 10 ^ length xs"
    using lval_less by fastforce
  ultimately show "lval (sub_loop b xs ys) = lval xs - lval ys - b" "length (sub_loop b xs ys) = length xs" "digs (sub_loop b xs ys)"
    using assms(5) by auto
qed

subsection \<open>Sums and differences of magnitudes\<close>

lemma rev_digits:
  "num_ok n \<Longrightarrow> digs (rev (num_digits n)) \<and> length (rev (num_digits n)) = n_len n + n_scale n"
  "lval (rev (num_digits n)) = mag n"
  by (simp_all add: num_digits_ok mag_def nval_def)

lemma digs_parts: "digs xs \<Longrightarrow> digs (take k xs)" "digs xs \<Longrightarrow> digs (drop k xs)"
  by (auto dest: in_set_takeD in_set_dropD)

text \<open>A number made of all its digits, last digit first, and zeros behind them.\<close>

definition packed :: "nat \<Rightarrow> nat \<Rightarrow> nat \<Rightarrow> int list \<Rightarrow> bc_num" where
  "packed len s m xs = (bc_new_num len (max s m))\<lparr>n_value := rev xs @ replicate (m - s) 0\<rparr>"

lemma packed_sel [simp]: "n_len (packed len s m xs) = len" "n_scale (packed len s m xs) = max s m" "n_sign (packed len s m xs) = PLUS"
  by (simp_all add: packed_def)

lemma packed_val:
  assumes "length xs = len + s" and "digs xs"
  shows "num_ok (packed len s m xs)" "abs_val (packed len s m xs) = of_int (lval xs) / 10 ^ s"
proof -
  have scale: "max s m = s + (m - s)"
    by simp
  have "num_digits (packed len s m xs) = rev xs @ replicate (m - s) 0"
    using assms(1) by (simp add: num_digits_def packed_def scale)
  then have "mag (packed len s m xs) = lval xs * 10 ^ (m - s)"
    by (simp add: mag_def nval_append) (simp add: nval_def)
  then show "abs_val (packed len s m xs) = of_int (lval xs) / 10 ^ s"
    by (simp add: abs_val_def scale power_add)
  show "num_ok (packed len s m xs)"
    using assms by (auto simp: num_ok_def packed_def)
qed

lemma rm_leading_zeros_val: "num_ok n \<Longrightarrow> abs_val (rm_leading_zeros n) = abs_val n"
  by (simp add: abs_val_def rm_leading_zeros_ok)

lemma rescale: "of_int (10 ^ (t - s) * x) / 10 ^ max s t = (of_int x / 10 ^ s :: rat)"
  "of_int (10 ^ (t - s) * x) / 10 ^ max t s = (of_int x / 10 ^ s :: rat)"
proof -
  have "max s t = (t - s) + s" "max t s = (t - s) + s"
    by auto
  then show "of_int (10 ^ (t - s) * x) / 10 ^ max s t = (of_int x / 10 ^ s :: rat)"
    "of_int (10 ^ (t - s) * x) / 10 ^ max t s = (of_int x / 10 ^ s :: rat)"
    by (simp_all only: power_add of_int_mult of_int_power of_int_numeral) simp_all
qed

lemma do_add_val:
  assumes "num_ok n1" and "num_ok n2"
  shows "abs_val (do_add n1 n2 m) = abs_val n1 + abs_val n2" "normal (do_add n1 n2 m)"
    "n_scale (do_add n1 n2 m) = max (max (n_scale n1) (n_scale n2)) m" "n_sign (do_add n1 n2 m) = PLUS"
proof -
  let ?a = "rev (num_digits n1)" and ?b = "rev (num_digits n2)"
  let ?k1 = "n_scale n1 - n_scale n2" and ?k2 = "n_scale n2 - n_scale n1"
  let ?s = "max (n_scale n1) (n_scale n2)" and ?len = "max (n_len n1) (n_len n2) + 1"
  define xs where "xs = (if n_scale n1 > n_scale n2 then take ?k1 ?a else take ?k2 ?b) @ add_loop 0 (drop ?k1 ?a) (drop ?k2 ?b)"
  have sum: "do_add n1 n2 m = rm_leading_zeros (packed ?len ?s m xs)"
    by (simp add: do_add_def Let_def packed_def xs_def)
  have a: "length ?a = n_len n1 + n_scale n1" "digs ?a" and b: "length ?b = n_len n2 + n_scale n2" "digs ?b"
    using rev_digits(1) [OF assms(1)] rev_digits(1) [OF assms(2)] by auto
  have "length xs = ?len + ?s"
    using a b by (auto simp: xs_def)
  moreover have "digs xs"
    using a b digs_parts [of ?a] digs_parts [of ?b] by (simp add: xs_def add_loop_digs)
  ultimately have ok: "num_ok (packed ?len ?s m xs)" "abs_val (packed ?len ?s m xs) = of_int (lval xs) / 10 ^ ?s"
    using packed_val by blast+
  have "lval xs = 10 ^ ?k2 * mag n1 + 10 ^ ?k1 * mag n2"
  proof (cases "n_scale n1 > n_scale n2")
    case True
    then show ?thesis
      using a lval_take_drop [of ?a ?k1] by (simp add: xs_def lval_append add_loop_val rev_digits(2) algebra_simps)
  next
    case False
    then show ?thesis
      using b lval_take_drop [of ?b ?k2] by (simp add: xs_def lval_append add_loop_val rev_digits(2) algebra_simps)
  qed
  then have "of_int (lval xs) / 10 ^ ?s = abs_val n1 + abs_val n2"
    using rescale(1) [of "n_scale n2" "n_scale n1" "mag n1"] rescale(2) [of "n_scale n1" "n_scale n2" "mag n2"]
    by (simp only: of_int_add add_divide_distrib abs_val_def)
  then show "abs_val (do_add n1 n2 m) = abs_val n1 + abs_val n2"
    using ok by (simp add: sum rm_leading_zeros_val)
  show "normal (do_add n1 n2 m)" "n_scale (do_add n1 n2 m) = max ?s m" "n_sign (do_add n1 n2 m) = PLUS"
    unfolding sum using rm_leading_zeros_ok [OF ok(1)] by simp_all
qed

lemma do_sub_val:
  assumes "num_ok n1" and "num_ok n2" and "abs_val n2 \<le> abs_val n1" and "n_len n2 \<le> n_len n1"
  shows "abs_val (do_sub n1 n2 m) = abs_val n1 - abs_val n2" "1 \<le> n_len n1 \<Longrightarrow> normal (do_sub n1 n2 m)" "num_ok (do_sub n1 n2 m)"
    "n_scale (do_sub n1 n2 m) = max (max (n_scale n1) (n_scale n2)) m" "n_sign (do_sub n1 n2 m) = PLUS" "n_len (do_sub n1 n2 m) \<le> n_len n1"
proof -
  let ?a = "rev (num_digits n1)" and ?b = "rev (num_digits n2)"
  let ?k1 = "n_scale n1 - min (n_scale n1) (n_scale n2)" and ?k2 = "n_scale n2 - min (n_scale n1) (n_scale n2)"
  let ?s = "max (n_scale n1) (n_scale n2)" and ?len = "max (n_len n1) (n_len n2)"
  obtain first b where first: "(if n_scale n1 \<noteq> min (n_scale n1) (n_scale n2) then (take ?k1 ?a, 0) else neg_loop 0 (take ?k2 ?b)) = (first, b)"
    by fastforce
  define xs where "xs = first @ sub_loop b (drop ?k1 ?a) (drop ?k2 ?b)"
  have diff: "do_sub n1 n2 m = rm_leading_zeros (packed ?len ?s m xs)"
    unfolding do_sub_def Let_def first by (simp add: packed_def xs_def)
  have a: "length ?a = n_len n1 + n_scale n1" "digs ?a" and b: "length ?b = n_len n2 + n_scale n2" "digs ?b"
    using rev_digits(1) [OF assms(1)] rev_digits(1) [OF assms(2)] by auto
  have k: "?k1 = n_scale n1 - n_scale n2" "?k2 = n_scale n2 - n_scale n1"
    by auto
  have scaled: "abs_val n1 = of_int (10 ^ ?k2 * mag n1) / 10 ^ ?s" "abs_val n2 = of_int (10 ^ ?k1 * mag n2) / 10 ^ ?s"
    unfolding k abs_val_def by (simp_all only: rescale)
  then have less: "10 ^ ?k1 * mag n2 \<le> 10 ^ ?k2 * mag n1"
    using assms(3) by (simp only: scaled divide_le_cancel of_int_le_iff) simp
  have "length xs = ?len + ?s \<and> digs xs \<and> lval xs = 10 ^ ?k2 * mag n1 - 10 ^ ?k1 * mag n2"
  proof (cases "n_scale n1 > n_scale n2")
    case True
    then have b0: "first = take ?k1 ?a" "b = 0" "?k2 = 0" and take: "lval (take ?k1 ?a) < 10 ^ ?k1"
      using first a lval_less [OF digs_parts(1) [OF a(2)], of ?k1] by auto
    note val = lval_take_drop [of ?a ?k1]
    have "10 ^ ?k1 * mag n2 < 10 ^ ?k1 * (lval (drop ?k1 ?a) + 1)"
      using less take val a(1) b0(3) True by (simp add: rev_digits(2) algebra_simps)
    then have "lval ?b + 0 \<le> lval (drop ?k1 ?a)"
      by (simp add: rev_digits(2))
    note sub = sub_loop_val [OF _ _ _ _ this]
    have "lval (sub_loop 0 (drop ?k1 ?a) ?b) = lval (drop ?k1 ?a) - mag n2"
      "length (sub_loop 0 (drop ?k1 ?a) ?b) = n_len n1 + n_scale n2" "digs (sub_loop 0 (drop ?k1 ?a) ?b)"
      using sub True a b assms(4) digs_parts [of ?a] by (simp_all add: rev_digits(2))
    then show ?thesis
      using True a b b0 val assms(4) digs_parts [of ?a]
      by (simp add: xs_def lval_append rev_digits(2) right_diff_distrib)
  next
    case False
    then have neg: "neg_loop 0 (take ?k2 ?b) = (first, b)" and k1: "?k1 = 0"
      using first by auto
    have first: "lval first = 10 ^ ?k2 * b - lval (take ?k2 ?b)" "length first = ?k2" "digs first" "b \<in> {0, 1}"
      using neg_loop_val [OF neg] False a b digs_parts [of ?b] by auto
    note val = lval_take_drop [of ?b ?k2]
    have "10 ^ ?k2 * (lval (drop ?k2 ?b) + b) < 10 ^ ?k2 * (lval ?a + 1)"
      using less val b(1) k1 first False lval_less [OF first(3)] by (simp add: rev_digits(2) algebra_simps)
    then have "lval (drop ?k2 ?b) + b \<le> lval ?a"
      by (simp add: rev_digits(2))
    note sub = sub_loop_val [OF first(4) _ _ _ this]
    have "lval (sub_loop b ?a (drop ?k2 ?b)) = mag n1 - lval (drop ?k2 ?b) - b"
      "length (sub_loop b ?a (drop ?k2 ?b)) = n_len n1 + n_scale n1" "digs (sub_loop b ?a (drop ?k2 ?b))"
      using sub False a b assms(4) digs_parts [of ?b] by (simp_all add: rev_digits(2))
    then show ?thesis
      using False a b k1 first val assms(4) digs_parts [of ?b]
      by (simp add: xs_def lval_append rev_digits(2) right_diff_distrib)
  qed
  then have ok: "num_ok (packed ?len ?s m xs)" "abs_val (packed ?len ?s m xs) = abs_val n1 - abs_val n2"
    using packed_val [of xs ?len ?s m] by (simp_all only: scaled of_int_diff diff_divide_distrib)
  then show "abs_val (do_sub n1 n2 m) = abs_val n1 - abs_val n2" "num_ok (do_sub n1 n2 m)"
    unfolding diff using rm_leading_zeros_ok [OF ok(1)] by (simp_all add: rm_leading_zeros_val)
  show "n_scale (do_sub n1 n2 m) = max ?s m" "n_sign (do_sub n1 n2 m) = PLUS" "n_len (do_sub n1 n2 m) \<le> n_len n1"
    "1 \<le> n_len n1 \<Longrightarrow> normal (do_sub n1 n2 m)"
    unfolding diff using rm_leading_zeros_ok [OF ok(1)] assms(4) by auto
qed

subsection \<open>Comparison\<close>

lemma skip_equal_splits:
  "skip_equal c xs ys = (c', p, q) \<Longrightarrow> c \<le> length xs \<Longrightarrow> c \<le> length ys \<Longrightarrow>
    \<exists>zs. xs = zs @ p \<and> ys = zs @ q \<and> length zs + c' = c \<and> (c' \<noteq> 0 \<longrightarrow> p \<noteq> [] \<and> q \<noteq> [] \<and> hd p \<noteq> hd q)"
proof (induction c xs ys rule: skip_equal.induct)
  case (1 c x xs y ys)
  show ?case
  proof (cases "x = y")
    case True
    then obtain zs where "xs = zs @ p" "ys = zs @ q" "length zs + c' = c" "c' \<noteq> 0 \<longrightarrow> p \<noteq> [] \<and> q \<noteq> [] \<and> hd p \<noteq> hd q"
      using 1 by auto
    then show ?thesis
      using True by (intro exI [of _ "x # zs"]) simp
  qed (use 1 in auto)
qed auto

text \<open>Two lists of the same length compare as at their first difference.\<close>

lemma nval_compare:
  assumes "digs (x # xs)" "digs (y # ys)" "x < y" "length xs = length ys"
  shows "nval (x # xs) < nval (y # ys)"
proof -
  have "nval xs < 10 ^ length xs" "0 \<le> nval ys"
    using assms nval_less [of xs] nval_nonneg [of ys] by auto
  moreover have "(x + 1) * 10 ^ length xs \<le> y * 10 ^ length xs"
    using assms(3) by (intro mult_right_mono) auto
  ultimately show ?thesis
    using assms(4) by (simp add: nval_Cons algebra_simps)
qed

text \<open>
  A number and its first digits up to \<open>k\<close> places after the point.
\<close>

lemma first_places:
  assumes "num_ok n" and "k \<le> n_scale n"
  defines "A \<equiv> nval (take (n_len n + k) (n_value n))" and "r \<equiv> nval (take (n_scale n - k) (drop (n_len n + k) (n_value n)))"
  shows "abs_val n = of_int A / 10 ^ k + of_int r / 10 ^ n_scale n" "of_int r / 10 ^ n_scale n < 1 / (10 ^ k :: rat)" "0 \<le> r"
    "0 \<le> of_int r / (10 ^ n_scale n :: rat)"
proof -
  let ?v = "n_value n" and ?j = "n_scale n - k"
  have "n_scale n = ?j + k"
    using assms(2) by simp
  then have pow: "(10 :: rat) ^ n_scale n = 10 ^ ?j * 10 ^ k"
    by (metis power_add)
  have digs: "digs (take ?j (drop (n_len n + k) ?v))"
    using assms(1) by (auto simp: num_ok_def dest: in_set_takeD in_set_dropD)
  then show "0 \<le> r" "0 \<le> of_int r / (10 ^ n_scale n :: rat)"
    by (simp_all add: r_def nval_nonneg)
  have len: "length (take ?j (drop (n_len n + k) ?v)) = ?j"
    using assms(1,2) by (auto simp: num_ok_def min_def)
  have "num_digits n = take (n_len n + k) ?v @ take ?j (drop (n_len n + k) ?v)"
    using take_add [of "n_len n + k" ?j ?v] assms(2) by (simp add: num_digits_def)
  then have "mag n = A * 10 ^ ?j + r"
    by (simp only: mag_def nval_append len A_def r_def)
  then show "abs_val n = of_int A / 10 ^ k + of_int r / 10 ^ n_scale n"
    by (simp add: abs_val_def add_divide_distrib pow)
  have "r < 10 ^ ?j"
    using nval_less [OF digs] len by (simp add: r_def)
  then have "of_int r < (10 :: rat) ^ ?j"
    by (metis of_int_less_iff of_int_numeral of_int_power)
  then have "of_int r / 10 ^ ?j < (1 :: rat)"
    by (simp add: divide_less_eq_1)
  from divide_strict_right_mono [OF this, of "10 ^ k"] show "of_int r / 10 ^ n_scale n < 1 / (10 ^ k :: rat)"
    by (simp add: pow)
qed

lemma longer_larger:
  assumes "normal n1" and "normal n2" and "n_len n2 < n_len n1"
  shows "abs_val n2 < abs_val n1"
proof -
  have ok: "num_ok n1" "num_ok n2" "hd (n_value n1) \<noteq> 0"
    using assms by (auto simp: normal_def)
  obtain d ds where d: "num_digits n1 = d # ds"
    using assms num_digits_ok(2) [OF ok(1)] by (cases "num_digits n1") auto
  moreover have "hd (num_digits n1) = hd (n_value n1)"
    using assms by (simp add: num_digits_def hd_take)
  ultimately have "d \<noteq> 0" "digs (d # ds)" "length ds = n_len n1 - 1 + n_scale n1"
    using ok assms num_digits_ok [OF ok(1)] by auto
  then have "10 ^ (n_len n1 - 1 + n_scale n1) \<le> mag n1"
    using nval_head [of d ds] by (simp add: mag_def d)
  then have "(10 :: rat) ^ (n_len n1 - 1 + n_scale n1) \<le> of_int (mag n1)"
    by (metis of_int_le_iff of_int_numeral of_int_power)
  then have "10 ^ (n_len n1 - 1) \<le> abs_val n1"
    by (simp add: abs_val_def le_divide_eq power_add)
  moreover have "of_int (mag n2) < (10 :: rat) ^ (n_len n2 + n_scale n2)"
    using mag_less [OF ok(2)] by (metis of_int_less_iff of_int_numeral of_int_power)
  then have "abs_val n2 < 10 ^ n_len n2"
    by (simp add: abs_val_def divide_less_eq power_add)
  moreover have "(10 :: rat) ^ n_len n2 \<le> 10 ^ (n_len n1 - 1)"
    using assms(3) by (intro power_increasing) auto
  ultimately show ?thesis
    by linarith
qed

lemma smaller_first_places:
  assumes "num_ok n1" "num_ok n2" "k \<le> n_scale n1" "k \<le> n_scale n2"
    and "nval (take (n_len n1 + k) (n_value n1)) < nval (take (n_len n2 + k) (n_value n2))"
  shows "abs_val n1 < abs_val n2"
proof -
  let ?A = "nval (take (n_len n1 + k) (n_value n1))" and ?B = "nval (take (n_len n2 + k) (n_value n2))"
  have "abs_val n1 < of_int ?A / 10 ^ k + 1 / 10 ^ k"
    using first_places(1,2) [OF assms(1,3)] by linarith
  also have "\<dots> = of_int (?A + 1) / 10 ^ k"
    by (simp add: add_divide_distrib)
  also have "of_int (?A + 1) \<le> (of_int ?B :: rat)"
    using assms(5) by (subst of_int_le_iff) simp
  then have "of_int (?A + 1) / 10 ^ k \<le> (of_int ?B / 10 ^ k :: rat)"
    by (rule divide_right_mono) simp
  also have "\<dots> \<le> abs_val n2"
    using first_places(1,3) [OF assms(2,4)] by simp
  finally show ?thesis .
qed

text \<open>The comparison of the digits, for integer parts of the same length.\<close>

lemma compare_digits:
  assumes "num_ok n1" "num_ok n2" "n_len n1 = n_len n2"
  shows "do_compare n1 n2 False False = (if abs_val n1 < abs_val n2 then -1 else if abs_val n1 = abs_val n2 then 0 else 1)"
proof -
  let ?k = "min (n_scale n1) (n_scale n2)"
  obtain c p q where c: "skip_equal (n_len n1 + ?k) (n_value n1) (n_value n2) = (c, p, q)"
    by (metis prod_cases3)
  have len: "n_len n1 + ?k \<le> length (n_value n1)" "n_len n1 + ?k \<le> length (n_value n2)"
    using assms by (auto simp: num_ok_def)
  obtain zs where zs: "n_value n1 = zs @ p" "n_value n2 = zs @ q" "length zs + c = n_len n1 + ?k"
    "c \<noteq> 0 \<longrightarrow> p \<noteq> [] \<and> q \<noteq> [] \<and> hd p \<noteq> hd q"
    using skip_equal_splits [OF c len] by blast
  have digs: "digs p" "digs q"
    using assms zs(1,2) by (auto simp: num_ok_def)
  have first: "take (n_len n1 + ?k) (n_value n1) = zs @ take c p" "take (n_len n1 + ?k) (n_value n2) = zs @ take c q"
    by (simp_all add: zs(1,2) flip: zs(3))
  have cmp_res: "do_compare n1 n2 False False =
      (if c \<noteq> 0 then (if hd q < hd p then 1 else -1)
       else if n_scale n2 < n_scale n1 then (if \<exists>d \<in> set (take (n_scale n1 - n_scale n2) p). d \<noteq> 0 then 1 else 0)
       else if n_scale n1 < n_scale n2 then (if \<exists>d \<in> set (take (n_scale n2 - n_scale n1) q). d \<noteq> 0 then -1 else 0)
       else 0)"
    using assms(3) c by (simp add: do_compare_def larger_def smaller_def)
  show ?thesis
  proof (cases c)
    case (Suc m)
    then obtain x xs y ys where p: "p = x # xs" "q = y # ys" "x \<noteq> y"
      using zs(4) by (cases p; cases q) auto
    have len: "length (take m xs) = m" "length (take m ys) = m"
      using len zs(1-3) p Suc by auto
    have part: "digs (x # take m xs)" "digs (y # take m ys)"
      using digs p by (auto dest: in_set_takeD)
    have cmp: "x < y \<Longrightarrow> nval (zs @ take c p) < nval (zs @ take c q)" "y < x \<Longrightarrow> nval (zs @ take c q) < nval (zs @ take c p)"
      using nval_compare [OF part] nval_compare [OF part(2,1)] len by (simp_all add: p Suc nval_append)
    show ?thesis
      using smaller_first_places [of n1 n2 ?k] smaller_first_places [of n2 n1 ?k] assms cmp p(3) first
      by (cases x y rule: linorder_cases) (auto simp: cmp_res Suc p)
  next
    case 0
    then have "take (n_len n1 + ?k) (n_value n1) = take (n_len n1 + ?k) (n_value n2)"
      using first by simp
    moreover have "drop (n_len n1 + ?k) (n_value n1) = p" "drop (n_len n1 + ?k) (n_value n2) = q"
      using zs 0 by simp_all
    moreover have nonzero: "(\<exists>d \<in> set (take j ds). d \<noteq> 0) \<longleftrightarrow> 0 < rat_of_int (nval (take j ds)) / 10 ^ m" if "digs ds" for j m ds
      using nval_eq_0 [of "take j ds"] nval_nonneg [of "take j ds"] digs_parts [OF that] by (auto simp: zero_less_divide_iff)
    moreover note nonzero [OF digs(1), of "n_scale n1 - n_scale n2" "n_scale n1"] nonzero [OF digs(2), of "n_scale n2 - n_scale n1" "n_scale n2"]
    ultimately show ?thesis
      using first_places(1,4) [of n1 ?k] first_places(1,4) [of n2 ?k] assms 0
      by (auto simp: cmp_res min_def split: if_splits)
  qed
qed

text \<open>
  Numbers as the multiplication cuts them out of others: the integer part can be empty.
\<close>

definition slim :: "bc_num \<Rightarrow> bool" where
  "slim n \<longleftrightarrow> num_ok n \<and> (1 < n_len n \<longrightarrow> hd (n_value n) \<noteq> 0) \<and> (n_len n = 0 \<longrightarrow> n_scale n = 0)"

lemma normal_slim: "normal n \<Longrightarrow> slim n"
  by (simp add: normal_def slim_def)

lemma slim_empty: "slim n \<Longrightarrow> n_len n = 0 \<Longrightarrow> abs_val n = 0"
  by (simp add: slim_def abs_val_def mag_def num_digits_def)

lemma do_compare_slim:
  assumes "slim n1" and "slim n2"
  shows "do_compare n1 n2 False False = -1 \<Longrightarrow> abs_val n1 \<le> abs_val n2 \<and> n_len n1 \<le> n_len n2"
    "do_compare n1 n2 False False = 0 \<Longrightarrow> abs_val n1 = abs_val n2"
    "do_compare n1 n2 False False = 1 \<Longrightarrow> abs_val n2 \<le> abs_val n1 \<and> n_len n2 \<le> n_len n1"
    "do_compare n1 n2 False False \<in> {-1, 0, 1}"
proof -
  have less: "abs_val a \<le> abs_val b" if "slim a" "slim b" "n_len a < n_len b" for a b
  proof (cases "n_len a = 0")
    case True
    then show ?thesis
      using that slim_empty [of a] abs_val_nonneg [of b] by (simp add: slim_def)
  next
    case False
    then have "normal a" "normal b"
      using that by (auto simp: slim_def normal_def)
    then show ?thesis
      using longer_larger that(3) by fastforce
  qed
  have "num_ok n1" "num_ok n2"
    using assms by (simp_all add: slim_def)
  note same = compare_digits [OF this]
  consider "n_len n1 < n_len n2" "do_compare n1 n2 False False = -1" | "n_len n2 < n_len n1" "do_compare n1 n2 False False = 1"
    | "n_len n1 = n_len n2"
    using linorder_less_linear [of "n_len n1" "n_len n2"] by (auto simp: do_compare_def larger_def smaller_def)
  then have "(do_compare n1 n2 False False = -1 \<longrightarrow> abs_val n1 \<le> abs_val n2 \<and> n_len n1 \<le> n_len n2) \<and>
    (do_compare n1 n2 False False = 0 \<longrightarrow> abs_val n1 = abs_val n2) \<and>
    (do_compare n1 n2 False False = 1 \<longrightarrow> abs_val n2 \<le> abs_val n1 \<and> n_len n2 \<le> n_len n1) \<and>
    do_compare n1 n2 False False \<in> {-1, 0, 1}"
    by cases (use less assms same in auto)
  then show "do_compare n1 n2 False False = -1 \<Longrightarrow> abs_val n1 \<le> abs_val n2 \<and> n_len n1 \<le> n_len n2"
    "do_compare n1 n2 False False = 0 \<Longrightarrow> abs_val n1 = abs_val n2"
    "do_compare n1 n2 False False = 1 \<Longrightarrow> abs_val n2 \<le> abs_val n1 \<and> n_len n2 \<le> n_len n1"
    "do_compare n1 n2 False False \<in> {-1, 0, 1}"
    by blast+
qed

lemma do_compare_normal:
  assumes "normal n1" and "normal n2"
  shows "do_compare n1 n2 False False = (if abs_val n1 < abs_val n2 then -1 else if abs_val n1 = abs_val n2 then 0 else 1)"
proof -
  have ok: "num_ok n1" "num_ok n2"
    using assms by (simp_all add: normal_def)
  consider "n_len n1 < n_len n2" | "n_len n2 < n_len n1" | "n_len n1 = n_len n2"
    by linarith
  then show ?thesis
    by cases (use longer_larger [OF assms] longer_larger [OF assms(2,1)] compare_digits [OF ok]
      in \<open>auto simp: do_compare_def larger_def smaller_def\<close>)
qed

lemma do_compare_signs:
  "n_sign n1 = n_sign n2 \<Longrightarrow> do_compare n1 n2 True False = (if n_sign n1 = PLUS then 1 else -1) * do_compare n1 n2 False False"
  by (auto simp: do_compare_def larger_def smaller_def split: prod.splits)

text \<open>
  C6. \<open>bc_compare\<close> (lib/number.c) compares the values of two numbers, with their signs and whatever their numbers of
  decimal places: the answer is the sign of the difference.
\<close>

theorem bc_compare_order:
  assumes "good n1" and "good n2"
  shows "of_int (bc_compare n1 n2) = sgn (num_val n1 - num_val n2)"
proof (cases "n_sign n1 = n_sign n2")
  case True
  then show ?thesis
    using do_compare_normal [OF goodD(1,1), OF assms] do_compare_signs [OF True]
    by (cases "n_sign n2") (auto simp: bc_compare_def num_val_def sign_val_def sgn_if)
next
  case False
  have pos: "0 \<le> abs_val n1" "0 \<le> abs_val n2"
    using assms goodD(2) abs_val_nonneg by blast+
  with False good_minus [OF assms(1)] good_minus [OF assms(2)] show ?thesis
    by (cases "n_sign n1"; cases "n_sign n2") (auto simp: bc_compare_def do_compare_def num_val_def sign_val_def sgn_if)
qed

theorem bc_compare_order_witness:
  "of_int (bc_compare num_one num_two) = sgn (num_val num_one - num_val num_two)"
  by (rule bc_compare_order) simp_all

subsection \<open>Sums and differences\<close>

lemma numbers_ok: "normal n \<Longrightarrow> num_ok n"
  by (simp add: normal_def)

text \<open>The part that \<open>bc_add\<close> and \<open>bc_sub\<close> have in common: magnitudes are subtracted, the smaller one from the larger one.\<close>

definition opposite :: "sign \<Rightarrow> sign" where
  "opposite s = (if s = PLUS then MINUS else PLUS)"

lemma sign_val_opposite [simp]: "sign_val (opposite s) = - sign_val s"
  by (cases s) (simp_all add: opposite_def sign_val_def)

definition subtracted :: "bc_num \<Rightarrow> bc_num \<Rightarrow> nat \<Rightarrow> bc_num" where
  "subtracted n1 n2 m =
     (if do_compare n1 n2 False False = -1 then (do_sub n2 n1 m)\<lparr>n_sign := opposite (n_sign n1)\<rparr>
      else if do_compare n1 n2 False False = 0 then bc_new_num 1 (max m (max (n_scale n1) (n_scale n2)))
      else (do_sub n1 n2 m)\<lparr>n_sign := n_sign n1\<rparr>)"

lemma add_sub_cases:
  "n_sign n1 = n_sign n2 \<Longrightarrow> bc_add n1 n2 m = (do_add n1 n2 m)\<lparr>n_sign := n_sign n1\<rparr>"
  "n_sign n1 \<noteq> n_sign n2 \<Longrightarrow> bc_add n1 n2 m = subtracted n1 n2 m"
  "n_sign n1 = n_sign n2 \<Longrightarrow> bc_sub n1 n2 m = subtracted n1 n2 m"
  "n_sign n1 \<noteq> n_sign n2 \<Longrightarrow> bc_sub n1 n2 m = (do_add n1 n2 m)\<lparr>n_sign := n_sign n1\<rparr>"
  by (cases "n_sign n1"; cases "n_sign n2"; simp add: bc_add_def bc_sub_def subtracted_def opposite_def Let_def)+

lemma num_val_sign: "num_val (n\<lparr>n_sign := s\<rparr>) = sign_val s * abs_val n"
  by (simp add: num_val_def)

lemma subtracted_val:
  assumes "slim n1" and "slim n2"
  shows "num_val (subtracted n1 n2 m) = sign_val (n_sign n1) * (abs_val n1 - abs_val n2)" "num_ok (subtracted n1 n2 m)"
    "n_scale (subtracted n1 n2 m) = max (max (n_scale n1) (n_scale n2)) m"
    "1 \<le> n_len n1 \<Longrightarrow> 1 \<le> n_len n2 \<Longrightarrow> normal (subtracted n1 n2 m)"
    "n_len (subtracted n1 n2 m) \<le> max (max (n_len n1) (n_len n2)) 1"
proof -
  have ok: "num_ok n1" "num_ok n2"
    using assms by (simp_all add: slim_def)
  note cmp = do_compare_slim [OF assms]
  consider "do_compare n1 n2 False False = -1" | "do_compare n1 n2 False False = 0" | "do_compare n1 n2 False False = 1"
    using cmp(4) by blast
  then have "num_val (subtracted n1 n2 m) = sign_val (n_sign n1) * (abs_val n1 - abs_val n2) \<and> num_ok (subtracted n1 n2 m) \<and>
    n_scale (subtracted n1 n2 m) = max (max (n_scale n1) (n_scale n2)) m \<and>
    (1 \<le> n_len n1 \<longrightarrow> 1 \<le> n_len n2 \<longrightarrow> normal (subtracted n1 n2 m)) \<and>
    n_len (subtracted n1 n2 m) \<le> max (max (n_len n1) (n_len n2)) 1"
  proof cases
    case 1
    with do_sub_val [OF ok(2,1), of m] cmp(1) show ?thesis
      by (simp add: subtracted_def num_val_sign max.commute right_diff_distrib le_max_iff_disj)
  next
    case 2
    with new_num_normal cmp(2) show ?thesis
      by (simp add: subtracted_def max.commute)
  next
    case 3
    with do_sub_val [OF ok, of m] cmp(3) show ?thesis
      by (simp add: subtracted_def num_val_sign)
  qed
  then show "num_val (subtracted n1 n2 m) = sign_val (n_sign n1) * (abs_val n1 - abs_val n2)" "num_ok (subtracted n1 n2 m)"
    "n_scale (subtracted n1 n2 m) = max (max (n_scale n1) (n_scale n2)) m"
    "1 \<le> n_len n1 \<Longrightarrow> 1 \<le> n_len n2 \<Longrightarrow> normal (subtracted n1 n2 m)"
    "n_len (subtracted n1 n2 m) \<le> max (max (n_len n1) (n_len n2)) 1"
    by blast+
qed

lemma other_sign: "n_sign n1 \<noteq> n_sign n2 \<Longrightarrow> sign_val (n_sign n2) = - sign_val (n_sign n1)"
  by (cases "n_sign n1"; cases "n_sign n2") (simp_all add: sign_val_def)

lemma bc_add_val:
  assumes "normal n1" and "normal n2"
  shows "num_val (bc_add n1 n2 m) = num_val n1 + num_val n2 \<and> normal (bc_add n1 n2 m) \<and>
    n_scale (bc_add n1 n2 m) = max (max (n_scale n1) (n_scale n2)) m"
proof (cases "n_sign n1 = n_sign n2")
  case True
  with do_add_val [OF numbers_ok numbers_ok, OF assms] show ?thesis
    by (simp add: add_sub_cases num_val_def distrib_left)
next
  case False
  have "num_val n1 + num_val n2 = sign_val (n_sign n1) * (abs_val n1 - abs_val n2)"
    by (simp add: num_val_def other_sign [OF False] right_diff_distrib)
  with False assms subtracted_val [OF normal_slim normal_slim, OF assms] show ?thesis
    by (simp add: add_sub_cases normal_def)
qed

lemma bc_sub_val:
  assumes "normal n1" and "normal n2"
  shows "num_val (bc_sub n1 n2 m) = num_val n1 - num_val n2 \<and> normal (bc_sub n1 n2 m) \<and>
    n_scale (bc_sub n1 n2 m) = max (max (n_scale n1) (n_scale n2)) m"
proof (cases "n_sign n1 = n_sign n2")
  case True
  then have "num_val n1 - num_val n2 = sign_val (n_sign n1) * (abs_val n1 - abs_val n2)"
    by (simp add: num_val_def right_diff_distrib)
  with True assms subtracted_val [OF normal_slim normal_slim, OF assms] show ?thesis
    by (simp add: add_sub_cases normal_def)
next
  case False
  with do_add_val [OF numbers_ok numbers_ok, OF assms] show ?thesis
    by (simp add: add_sub_cases num_val_def other_sign [OF False] distrib_left)
qed

text \<open>
  C5. \<open>bc_add\<close> and \<open>bc_sub\<close> (lib/number.c) are exact: the result has the value of the sum or the difference, with the
  larger of the two scales and the minimal scale asked for, and no superfluous zeros in front.
\<close>

theorem bc_add_sub_exact:
  assumes "normal n1" and "normal n2"
  shows "num_val (bc_add n1 n2 m) = num_val n1 + num_val n2 \<and> num_val (bc_sub n1 n2 m) = num_val n1 - num_val n2 \<and>
    normal (bc_add n1 n2 m) \<and> normal (bc_sub n1 n2 m) \<and>
    n_scale (bc_add n1 n2 m) = max (max (n_scale n1) (n_scale n2)) m \<and>
    n_scale (bc_sub n1 n2 m) = max (max (n_scale n1) (n_scale n2)) m"
  using bc_add_val [OF assms] bc_sub_val [OF assms] by blast

text \<open>The numbers 1.5 and -20.25.\<close>

theorem bc_add_sub_exact_witness:
  "num_val (bc_add \<lparr>n_sign = PLUS, n_len = 1, n_scale = 1, n_value = [1, 5]\<rparr>
     \<lparr>n_sign = MINUS, n_len = 2, n_scale = 2, n_value = [2, 0, 2, 5]\<rparr> 0) = - 18.75"
proof -
  let ?a = "\<lparr>n_sign = PLUS, n_len = 1, n_scale = 1, n_value = [1, 5]\<rparr>"
  let ?b = "\<lparr>n_sign = MINUS, n_len = 2, n_scale = 2, n_value = [2, 0, 2, 5]\<rparr>"
  have "normal ?a" "normal ?b"
    by (simp_all add: normal_def num_ok_def)
  moreover have "num_val ?a = 3 / 2" "num_val ?b = - (81 / 4)"
    by (simp_all add: num_val_def sign_val_def abs_val_def mag_def num_digits_def nval_Cons)
  ultimately show ?thesis
    using bc_add_sub_exact [of ?a ?b 0] by simp
qed

end
