(* ===== verification/Number_Mul_Correct.thy ===== *)
theory Number_Mul_Correct
  imports Number_Mul Number_Correct
begin

text \<open>
  Multiplication: the schoolbook method and the recursive one give the digits of the product, the recursive
  one never ends in its assertion, and \<open>bc_multiply\<close> cuts the product off at the scale it has computed.
\<close>

subsection \<open>The schoolbook method\<close>

text \<open>The products that belong to one place of the result.\<close>

definition conv :: "int list \<Rightarrow> int list \<Rightarrow> nat \<Rightarrow> int" where
  "conv a b k = (\<Sum>q<length b. if q \<le> k \<and> k - q < length a then a ! (k - q) * b ! q else 0)"

lemma mul_column_sum:
  "mul_column a b i j s = s + (\<Sum>q<j. if i + (j - 1 - q) < length a then a ! (i + (j - 1 - q)) * b ! q else 0)"
proof (induction j arbitrary: i s)
  case (Suc j)
  let ?f = "\<lambda>i j q. if i + (j - 1 - q) < length a then a ! (i + (j - 1 - q)) * b ! q else 0"
  have shift: "(\<Sum>q<j. ?f (Suc i) j q) = (\<Sum>q<j. ?f i (Suc j) q)"
  proof (rule sum.cong [OF refl])
    fix q
    assume "q \<in> {..<j}"
    then have "Suc i + (j - 1 - q) = i + (Suc j - 1 - q)"
      by simp
    then show "?f (Suc i) j q = ?f i (Suc j) q"
      by (simp only:)
  qed
  show ?case
  proof (cases "i < length a")
    case True
    then show ?thesis
      using Suc.IH [of "Suc i" "s + a ! i * b ! j"] shift by simp
  next
    case False
    then show ?thesis
      by (auto intro!: sum.neutral)
  qed
qed simp

lemma mul_column_conv:
  "mul_column a b (k + 1 - length b) (min (k + 1) (length b)) s = s + conv a b k"
proof -
  let ?j = "min (k + 1) (length b)"
  have "(\<Sum>q<?j. if k + 1 - length b + (?j - 1 - q) < length a then a ! (k + 1 - length b + (?j - 1 - q)) * b ! q else 0) =
      (\<Sum>q<?j. if k - q < length a then a ! (k - q) * b ! q else 0)"
    by (rule sum.cong) (auto simp: min_def)
  also have "\<dots> = (\<Sum>q<?j. if q \<le> k \<and> k - q < length a then a ! (k - q) * b ! q else 0)"
    by (rule sum.cong) auto
  also have "\<dots> = conv a b k"
    unfolding conv_def by (rule sum.mono_neutral_left) auto
  finally show ?thesis
    by (simp only: mul_column_sum)
qed

lemma product_loop_val: "lval (product_loop a b i k s) = s + (\<Sum>t<k. conv a b (i + t) * 10 ^ t)"
proof (induction k arbitrary: i s)
  case (Suc k)
  let ?s = "s + conv a b i"
  have "lval (product_loop a b i (Suc k) s) = ?s mod 10 + 10 * lval (product_loop a b (Suc i) k (?s div 10))"
    by (simp only: product_loop.simps Let_def mul_column_conv lval.simps)
  also have "\<dots> = ?s + 10 * (\<Sum>t<k. conv a b (Suc i + t) * 10 ^ t)"
    using mult_div_mod_eq [of 10 ?s] unfolding Suc.IH by simp
  also have "\<dots> = s + (\<Sum>t<Suc k. conv a b (i + t) * 10 ^ t)"
    by (simp add: sum.lessThan_Suc_shift sum_distrib_left mult.assoc mult.left_commute del: sum.lessThan_Suc)
  finally show ?case .
qed simp

lemma lval_sum: "lval xs = (\<Sum>i<length xs. xs ! i * 10 ^ i)"
proof (induction xs)
  case (Cons x xs)
  then show ?case
    by (simp add: sum.lessThan_Suc_shift sum_distrib_left mult.left_commute del: sum.lessThan_Suc)
qed simp

lemma conv_product: "(\<Sum>t<length a + length b. conv a b t * 10 ^ t) = lval a * lval b"
proof -
  let ?g = "\<lambda>t q. if q \<le> t \<and> t - q < length a then a ! (t - q) * 10 ^ (t - q) * (b ! q * 10 ^ q) else 0"
  have "(\<Sum>t<length a + length b. conv a b t * 10 ^ t) = (\<Sum>t<length a + length b. \<Sum>q<length b. ?g t q)"
    unfolding conv_def sum_distrib_right
    by (intro sum.cong refl) (auto simp: algebra_simps simp flip: power_add)
  also have "\<dots> = (\<Sum>q<length b. \<Sum>t<length a + length b. ?g t q)"
    by (rule sum.swap)
  also have "\<dots> = (\<Sum>q<length b. lval a * (b ! q * 10 ^ q))"
  proof (rule sum.cong [OF refl])
    fix q
    assume q: "q \<in> {..<length b}"
    have "(\<Sum>t<length a + length b. ?g t q) = (\<Sum>t\<in>{q..<q + length a}. a ! (t - q) * 10 ^ (t - q) * (b ! q * 10 ^ q))"
      using q by (intro sum.mono_neutral_cong_right) auto
    also have "\<dots> = (\<Sum>i<length a. a ! i * 10 ^ i * (b ! q * 10 ^ q))"
      by (rule sum.reindex_bij_witness [where i = "\<lambda>i. i + q" and j = "\<lambda>t. t - q"]) auto
    also have "\<dots> = lval a * (b ! q * 10 ^ q)"
      by (simp add: lval_sum sum_distrib_right)
    finally show "(\<Sum>t<length a + length b. ?g t q) = lval a * (b ! q * 10 ^ q)" .
  qed
  also have "\<dots> = lval a * lval b"
    by (simp add: lval_sum [of b] sum_distrib_left)
  finally show ?thesis .
qed

lemma conv_nonneg: "digs a \<Longrightarrow> digs b \<Longrightarrow> 0 \<le> conv a b k"
  unfolding conv_def by (intro sum_nonneg) (auto simp: subset_iff)

lemma product_loop_parts:
  assumes "digs a" and "digs b" and "0 \<le> s"
  shows "length (product_loop a b i k s) = Suc k \<and> digs (take k (product_loop a b i k s)) \<and> 0 \<le> product_loop a b i k s ! k"
  using assms(3)
proof (induction k arbitrary: i s)
  case (Suc k)
  let ?s = "s + conv a b i"
  have "0 \<le> ?s"
    using conv_nonneg [OF assms(1,2)] Suc.prems by simp
  then show ?case
    using Suc.IH [of "?s div 10" "Suc i"] by (simp add: Let_def mul_column_conv [simplified])
qed simp

lemma product_loop_digs:
  assumes "digs a" and "digs b"
  defines "ds \<equiv> product_loop a b 0 (length a + length b) 0"
  shows "lval ds = lval a * lval b" "digs ds" "length ds = length a + length b + 1" "last ds = 0"
proof -
  let ?k = "length a + length b"
  show val: "lval ds = lval a * lval b"
    by (simp add: ds_def product_loop_val conv_product)
  have parts: "length ds = Suc ?k" "digs (take ?k ds)" "0 \<le> ds ! ?k"
    using product_loop_parts [OF assms(1,2), of 0 0 ?k] by (simp_all add: ds_def)
  have ds: "ds = take ?k ds @ [ds ! ?k]"
    using parts(1) take_Suc_conv_app_nth [of ?k ds] by simp
  have "lval a * lval b < 10 ^ length a * 10 ^ length b"
    using assms by (intro mult_strict_mono') (simp_all add: lval_less lval_nonneg)
  moreover have "lval ds = lval (take ?k ds) + 10 ^ ?k * ds ! ?k"
    using parts(1) by (subst ds) (simp add: lval_append)
  moreover have "0 \<le> lval (take ?k ds)"
    using parts(2) by (rule lval_nonneg)
  ultimately have "10 ^ ?k * ds ! ?k < 10 ^ ?k * 1"
    using val by (simp only: power_add)
  then have "ds ! ?k < 1"
    by (rule mult_left_less_imp_less) simp
  then have top: "ds ! ?k = 0"
    using parts(3) by simp
  then show "digs ds" "length ds = length a + length b + 1" "last ds = 0"
    using parts by (subst ds; simp)+
qed

text \<open>
  The numbers that are multiplied are given by their first \<open>len\<close> digits. A product of \<open>k\<close> digits has a zero in front of them.
\<close>

definition part_ok :: "bc_num \<Rightarrow> nat \<Rightarrow> bool" where
  "part_ok u len \<longleftrightarrow> digs (n_value u) \<and> len \<le> length (n_value u)"

definition part_val :: "bc_num \<Rightarrow> nat \<Rightarrow> int" where
  "part_val u len = nval (take len (n_value u))"

definition product_of :: "bc_num \<Rightarrow> nat \<Rightarrow> int \<Rightarrow> bool" where
  "product_of p k x \<longleftrightarrow> n_sign p = PLUS \<and> n_len p = k + 1 \<and> n_scale p = 0 \<and> length (n_value p) = k + 1 \<and> digs (n_value p) \<and>
     nval (n_value p) = x \<and> hd (n_value p) = 0"

lemma part_bounds: "part_ok u len \<Longrightarrow> 0 \<le> part_val u len \<and> part_val u len < 10 ^ len"
  using nval_less [of "take len (n_value u)"] nval_nonneg [of "take len (n_value u)"]
  by (auto simp: part_ok_def part_val_def min_absorb2 dest: in_set_takeD)

lemma simp_mul_product:
  assumes "part_ok u ulen" and "part_ok v vlen"
  shows "product_of (simp_mul u ulen v vlen) (ulen + vlen) (part_val u ulen * part_val v vlen)"
proof -
  let ?a = "rev (take ulen (n_value u))" and ?b = "rev (take vlen (n_value v))"
  have ab: "digs ?a" "digs ?b" "length ?a = ulen" "length ?b = vlen"
    using assms by (auto simp: part_ok_def dest: in_set_takeD)
  note ds = product_loop_digs [OF ab(1,2), unfolded ab(3,4)]
  have "product_loop ?a ?b 0 (ulen + vlen) 0 \<noteq> []"
    using ds(3) by auto
  then show ?thesis
    using ds by (simp add: product_of_def simp_mul_def Let_def part_val_def nval_def hd_rev)
qed

subsection \<open>Shifted addition and subtraction\<close>

lemma carry_add_val:
  "digs xs \<Longrightarrow> c \<in> {0, 1} \<Longrightarrow> c + lval xs < 10 ^ length xs \<Longrightarrow> xs \<noteq> [] \<or> c = 1 \<Longrightarrow>
    \<exists>zs. carry_add c xs = Some zs \<and> lval zs = c + lval xs \<and> digs zs \<and> length zs = length xs"
proof (induction xs arbitrary: c)
  case (Cons x xs)
  show ?case
  proof (cases "x + c > 9")
    case True
    then have c: "x = 9" "c = 1"
      using Cons.prems(1,2) by auto
    then have "1 + lval xs < 10 ^ length xs"
      using Cons.prems(3) by simp
    with Cons.IH [of 1] Cons.prems(1) obtain zs where "carry_add 1 xs = Some zs" "lval zs = 1 + lval xs" "digs zs" "length zs = length xs"
      by auto
    then show ?thesis
      using c by simp
  qed (use Cons.prems in auto)
qed auto

lemma acc_add_val:
  "digs xs \<Longrightarrow> digs vs \<Longrightarrow> c \<in> {0, 1} \<Longrightarrow> length vs \<le> length xs \<Longrightarrow> c + lval xs + lval vs < 10 ^ length xs \<Longrightarrow>
    \<exists>zs. acc_add c xs vs = Some zs \<and> lval zs = c + lval xs + lval vs \<and> digs zs \<and> length zs = length xs"
proof (induction c xs vs rule: acc_add.induct)
  case (1 c xs)
  then show ?case
    using carry_add_val [of xs c] by auto
next
  case (2 c v vs)
  then show ?case by simp
next
  case (3 c x xs v vs)
  let ?s = "x + (v + c)"
  show ?case
  proof (cases "?s > 10 - 1")
    case True
    then have "1 + lval xs + lval vs < 10 ^ length xs"
      using 3(7) by simp
    with 3(1) [OF refl True] 3(3-6) obtain zs where "acc_add 1 xs vs = Some zs" "lval zs = 1 + lval xs + lval vs" "digs zs" "length zs = length xs"
      by auto
    then show ?thesis
      using True 3(3-6) by auto
  next
    case False
    then have "10 * (0 + lval xs + lval vs) < 10 * 10 ^ length xs"
      using 3(3-7) by auto
    then have "0 + lval xs + lval vs < 10 ^ length xs"
      by simp
    with 3(2) [OF refl False] 3(3-6) obtain zs where "acc_add 0 xs vs = Some zs" "lval zs = lval xs + lval vs" "digs zs" "length zs = length xs"
      by auto
    then show ?thesis
      using False 3(3-6) by auto
  qed
qed

lemma carry_sub_val:
  "digs xs \<Longrightarrow> c \<in> {0, 1} \<Longrightarrow> c \<le> lval xs \<Longrightarrow> xs \<noteq> [] \<or> c = 1 \<Longrightarrow>
    \<exists>zs. carry_sub c xs = Some zs \<and> lval zs = lval xs - c \<and> digs zs \<and> length zs = length xs"
proof (induction xs arbitrary: c)
  case (Cons x xs)
  show ?case
  proof (cases "x - c < 0")
    case True
    then have c: "x = 0" "c = 1"
      using Cons.prems(1,2) by auto
    then have "1 \<le> lval xs"
      using Cons.prems(3) by simp
    with Cons.IH [of 1] Cons.prems(1) obtain zs where "carry_sub 1 xs = Some zs" "lval zs = lval xs - 1" "digs zs" "length zs = length xs"
      by auto
    then show ?thesis
      using c by simp
  qed (use Cons.prems in auto)
qed auto

lemma acc_sub_val:
  "digs xs \<Longrightarrow> digs vs \<Longrightarrow> c \<in> {0, 1} \<Longrightarrow> length vs \<le> length xs \<Longrightarrow> lval vs + c \<le> lval xs \<Longrightarrow>
    \<exists>zs. acc_sub c xs vs = Some zs \<and> lval zs = lval xs - lval vs - c \<and> digs zs \<and> length zs = length xs"
proof (induction c xs vs rule: acc_sub.induct)
  case (1 c xs)
  then show ?case
    using carry_sub_val [of xs c] by auto
next
  case (2 c v vs)
  then show ?case by simp
next
  case (3 c x xs v vs)
  let ?s = "x - (v + c)"
  show ?case
  proof (cases "?s < 0")
    case True
    then have "lval vs + 1 \<le> lval xs"
      using 3(3-7) by simp
    with 3(1) [OF refl True] 3(3-6) obtain zs where "acc_sub 1 xs vs = Some zs" "lval zs = lval xs - lval vs - 1" "digs zs" "length zs = length xs"
      by auto
    then show ?thesis
      using True 3(3-6) by auto
  next
    case False
    then have "10 * (lval vs + 0) < 10 * (lval xs + 1)"
      using 3(3-7) by auto
    then have "lval vs + 0 \<le> lval xs"
      by simp
    with 3(2) [OF refl False] 3(3-6) obtain zs where "acc_sub 0 xs vs = Some zs" "lval zs = lval xs - lval vs" "digs zs" "length zs = length xs"
      by auto
    then show ?thesis
      using False 3(3-6) by auto
  qed
qed

text \<open>The two operations on a product that is being built.\<close>

definition exact :: "bc_num \<Rightarrow> nat \<Rightarrow> int \<Rightarrow> bool" where
  "exact p len x \<longleftrightarrow> n_sign p = PLUS \<and> n_len p = len \<and> n_scale p = 0 \<and> length (n_value p) = len \<and> digs (n_value p) \<and> nval (n_value p) = x"

lemma product_exact: "product_of p k x \<longleftrightarrow> exact p (k + 1) x \<and> hd (n_value p) = 0"
  by (auto simp: product_of_def exact_def)

lemma exact_head:
  assumes "exact p (k + 1) x" and "x < 10 ^ k"
  shows "product_of p k x"
proof -
  obtain d ds where d: "n_value p = d # ds" "length ds = k" "digs (d # ds)"
    using assms(1) by (cases "n_value p") (auto simp: exact_def)
  have "d = 0"
    using nval_head [OF d(3)] assms d(1,2) by (auto simp: exact_def)
  then show ?thesis
    using assms(1) d(1) by (simp add: product_exact)
qed

lemma product_digits:
  assumes "product_of m k y"
  shows "lval (take k (rev (n_value m))) = y" "digs (take k (rev (n_value m)))" "length (take k (rev (n_value m))) = k"
proof -
  obtain ds where ds: "n_value m = 0 # ds" "length ds = k"
    using assms by (cases "n_value m") (auto simp: product_of_def)
  then show "lval (take k (rev (n_value m))) = y" "digs (take k (rev (n_value m)))" "length (take k (rev (n_value m))) = k"
    using assms by (auto simp: product_of_def nval_Cons nval_def lval_append)
qed

lemma shift_addsub_exact:
  assumes "exact acc len x" and "product_of m k y" and "shift + k \<le> len"
    and "if sub then y * 10 ^ shift \<le> x else x + y * 10 ^ shift < 10 ^ len"
  shows "\<exists>p. shift_addsub acc m shift sub = Some p \<and> exact p len (if sub then x - y * 10 ^ shift else x + y * 10 ^ shift)"
proof -
  let ?xs = "rev (n_value acc)" and ?vs = "take k (rev (n_value m))"
  note vs = product_digits [OF assms(2)]
  have acc: "n_len acc + n_scale acc = len" "length (n_value acc) = len" "digs ?xs" "lval ?xs = x"
    using assms(1) by (simp_all add: exact_def nval_def)
  have m: "(if hd (n_value m) = 0 then n_len m - 1 else n_len m) = k" "take (n_len m) (n_value m) = n_value m"
    using assms(2) by (simp_all add: product_of_def)
  have val: "x = lval (take shift ?xs) + 10 ^ shift * lval (drop shift ?xs)"
    using lval_take_drop [of ?xs shift] acc assms(3) by (simp add: min_def)
  have low: "0 \<le> lval (take shift ?xs)" "lval (take shift ?xs) < 10 ^ shift"
    using lval_nonneg [OF digs_parts(1) [OF acc(3)], of shift] lval_less [OF digs_parts(1) [OF acc(3)], of shift] acc(2) assms(3)
    by (simp_all add: min_absorb2)
  have len: "10 ^ len = (10 ^ shift * 10 ^ (len - shift) :: int)"
    using assms(3) by (simp flip: power_add)
  have "\<exists>zs. (if sub then acc_sub 0 (drop shift ?xs) ?vs else acc_add 0 (drop shift ?xs) ?vs) = Some zs \<and>
      lval zs = (if sub then lval (drop shift ?xs) - y else lval (drop shift ?xs) + y) \<and> digs zs \<and> length zs = len - shift"
  proof (cases sub)
    case True
    then have "10 ^ shift * (lval ?vs + 0) < 10 ^ shift * (lval (drop shift ?xs) + 1)"
      using assms(4) val low vs(1) by (simp add: algebra_simps)
    then have "lval ?vs + 0 \<le> lval (drop shift ?xs)"
      by simp
    from acc_sub_val [OF _ _ _ _ this] show ?thesis
      using True acc(2,3) vs assms(3) digs_parts(2) [OF acc(3)] by simp
  next
    case False
    then have "10 ^ shift * (0 + lval (drop shift ?xs) + lval ?vs) < 10 ^ shift * 10 ^ (len - shift)"
      using assms(4) val low vs(1) len by (simp add: algebra_simps)
    then have "0 + lval (drop shift ?xs) + lval ?vs < 10 ^ length (drop shift ?xs)"
      using acc(2) by simp
    from acc_add_val [OF _ _ _ _ this] show ?thesis
      using False acc(2,3) vs assms(3) digs_parts(2) [OF acc(3)] by simp
  qed
  then obtain zs where zs: "(if sub then acc_sub 0 (drop shift ?xs) ?vs else acc_add 0 (drop shift ?xs) ?vs) = Some zs"
    "lval zs = (if sub then lval (drop shift ?xs) - y else lval (drop shift ?xs) + y)" "digs zs" "length zs = len - shift"
    by blast
  let ?p = "acc\<lparr>n_value := rev (take shift ?xs @ zs)\<rparr>"
  have "shift_addsub acc m shift sub = Some ?p"
    using assms(3) acc(1,2) m zs(1) by (simp add: shift_addsub_def Let_def)
  moreover have "nval (n_value ?p) = (if sub then x - y * 10 ^ shift else x + y * 10 ^ shift)"
    using val zs(2) acc(2) assms(3) by (simp add: nval_def lval_append min_def algebra_simps)
  ultimately show ?thesis
    using assms(1,3) zs(3,4) acc(2) digs_parts(1) [OF acc(3), of shift] by (auto simp: exact_def)
qed

subsection \<open>The recursive method\<close>

text \<open>A part of a number, without leading zeros: what \<open>split_num\<close> and \<open>bc_sub\<close> give.\<close>

definition piece :: "bc_num \<Rightarrow> nat \<Rightarrow> int \<Rightarrow> bool" where
  "piece u len x \<longleftrightarrow> slim u \<and> n_sign u = PLUS \<and> n_scale u = 0 \<and> n_len u \<le> len \<and> mag u = x"

lemma piece_rm:
  assumes "digs ds" and "len \<le> length ds"
  shows "piece (rm_leading_zeros (new_sub_num len 0 ds)) len (nval (take len ds))"
proof (cases "len = 0")
  case True
  then show ?thesis
    using assms(1) by (cases ds) (auto simp: piece_def slim_def num_ok_def rm_leading_zeros_def new_sub_num_def mag_def num_digits_def)
next
  case False
  have "num_ok (new_sub_num len 0 ds)"
    using assms by (simp add: num_ok_def new_sub_num_def)
  note rm = rm_leading_zeros_ok [OF this]
  have "mag (new_sub_num len 0 ds) = nval (take len ds)"
    by (simp add: mag_def num_digits_def new_sub_num_def)
  then show ?thesis
    using rm False normal_slim by (simp add: piece_def new_sub_num_def)
qed

lemma split_num_pieces:
  assumes "part_ok u len" and "n \<le> 2 * n" and "1 \<le> len"
  obtains x1 x0 where "piece (fst (split_num u len n)) (max 1 (len - n)) x1" "piece (snd (split_num u len n)) (min n len) x0"
    "part_val u len = x1 * 10 ^ n + x0" "len \<le> n \<Longrightarrow> x1 = 0"
proof (cases "len < n")
  case True
  then have "piece (fst (split_num u len n)) 1 0" "piece (snd (split_num u len n)) (min n len) (part_val u len)"
    using assms(1) piece_rm [of "n_value u" len] piece_rm [of "[0]" 1]
    by (simp_all add: split_num_def part_ok_def part_val_def num_zero_def bc_new_num_def new_sub_num_def nval_Cons)
  then show thesis
    using True that [of 0 "part_val u len"] by simp
next
  case False
  let ?v = "n_value u"
  have take: "take len ?v = take (len - n) ?v @ take n (drop (len - n) ?v)"
    using take_add [of "len - n" n ?v] False by simp
  have "digs ?v" "len - n \<le> length ?v" "digs (drop (len - n) ?v)" "n \<le> length (drop (len - n) ?v)"
    using assms(1) False digs_parts(2) [of ?v] by (auto simp: part_ok_def)
  then have low: "piece (snd (split_num u len n)) (min n len) (nval (take n (drop (len - n) ?v)))"
    and high: "piece (fst (split_num u len n)) (len - n) (nval (take (len - n) ?v))"
    using False piece_rm [of ?v "len - n"] piece_rm [of "drop (len - n) ?v" n] by (simp_all add: split_num_def)
  moreover have "part_val u len = nval (take (len - n) ?v) * 10 ^ n + nval (take n (drop (len - n) ?v))"
    unfolding part_val_def take using assms(1) False \<open>n \<le> length (drop (len - n) ?v)\<close>
    by (simp add: nval_append part_ok_def min_absorb2 del: length_drop)
  ultimately show thesis
    using that [of "nval (take (len - n) ?v)" "nval (take n (drop (len - n) ?v))"] by (simp add: piece_def le_max_iff_disj)
qed

lemma piece_part:
  assumes "piece u len x"
  shows "part_ok u (n_len u)" "part_val u (n_len u) = x" "0 \<le> x" "x < 10 ^ n_len u" "bc_is_zero u \<longleftrightarrow> x = 0"
proof -
  have u: "num_ok u" "n_scale u = 0" "mag u = x"
    using assms by (simp_all add: piece_def slim_def)
  then show "part_ok u (n_len u)" "part_val u (n_len u) = x"
    by (simp_all add: part_ok_def num_ok_def part_val_def mag_def num_digits_def)
  then show "0 \<le> x" "x < 10 ^ n_len u"
    using part_bounds by blast+
  show "bc_is_zero u \<longleftrightarrow> x = 0"
    using u is_zero_mag by simp
qed

text \<open>The difference of two pieces: a piece but for its sign.\<close>

lemma piece_diff:
  assumes "piece a len x" and "piece b len y" and "1 \<le> len"
  defines "d \<equiv> bc_sub a b 0"
  shows "part_ok d (n_len d)" "n_len d \<le> len" "part_val d (n_len d) = \<bar>x - y\<bar>" "bc_is_zero d \<longleftrightarrow> x = y"
    "x \<noteq> y \<Longrightarrow> n_sign d = (if x < y then MINUS else PLUS)"
proof -
  have ab: "slim a" "slim b" "n_sign a = n_sign b" "sign_val (n_sign a) = 1" "abs_val a = of_int x" "abs_val b = of_int y"
    "max (n_scale a) (n_scale b) = 0" "n_len a \<le> len" "n_len b \<le> len"
    using assms(1,2) by (simp_all add: piece_def abs_val_def sign_val_def)
  note sub = subtracted_val [OF ab(1,2), of 0]
  have d: "d = subtracted a b 0"
    unfolding d_def by (rule add_sub_cases(3)) (fact ab(3))
  have ok: "num_ok d" "n_scale d = 0"
    using sub(2,3) ab(7) by (simp_all add: d)
  show "n_len d \<le> len"
    using sub(5) ab(8,9) assms(3) by (simp add: d)
  show "part_ok d (n_len d)"
    using ok by (simp add: part_ok_def num_ok_def)
  have mag: "part_val d (n_len d) = mag d"
    using ok by (simp add: part_val_def mag_def num_digits_def)
  have val: "sign_val (n_sign d) * of_int (mag d) = of_int (x - y)"
    using sub(1) ab ok(2) by (simp add: d num_val_def abs_val_def)
  have int: "mag d = \<bar>x - y\<bar> \<and> (x \<noteq> y \<longrightarrow> n_sign d = (if x < y then MINUS else PLUS))"
  proof (cases "n_sign d")
    case PLUS
    then have "mag d = x - y"
      using val by (simp add: sign_val_def del: of_int_diff)
    then show ?thesis
      using PLUS mag_nonneg [OF ok(1)] by simp
  next
    case MINUS
    then have "mag d = - (x - y)"
      using val by (simp add: sign_val_def del: of_int_diff flip: of_int_minus)
    then show ?thesis
      using MINUS mag_nonneg [OF ok(1)] by simp
  qed
  then show "part_val d (n_len d) = \<bar>x - y\<bar>" "bc_is_zero d \<longleftrightarrow> x = y" "x \<noteq> y \<Longrightarrow> n_sign d = (if x < y then MINUS else PLUS)"
    using mag is_zero_mag [OF ok(1)] by auto
qed

text \<open>The sums that are built up never exceed the product's digits.\<close>

lemma low_parts_bound:
  fixes u0 v0 :: int
  assumes "0 \<le> u0" "0 \<le> v0" "u0 < 10 ^ n" "v0 < 10 ^ k" "2 * n + k \<le> len"
  shows "u0 * v0 * 10 ^ n + u0 * v0 < 10 ^ len"
proof -
  have "u0 * (10 ^ n + 1) \<le> (10 ^ n - 1) * (10 ^ n + 1)"
    using assms by (intro mult_right_mono) auto
  also have "\<dots> \<le> (10 ^ (2 * n) :: int)"
    by (simp add: algebra_simps power_mult power2_eq_square flip: power_mult_distrib)
  finally have "u0 * (10 ^ n + 1) * v0 \<le> 10 ^ (2 * n) * v0"
    using assms(2) by (intro mult_right_mono)
  also have "\<dots> < 10 ^ (2 * n) * 10 ^ k"
    using assms(4) by simp
  also have "\<dots> \<le> (10 ^ len :: int)"
    using assms(5) by (simp flip: power_add)
  finally show ?thesis
    by (simp add: algebra_simps)
qed

lemma high_part_less:
  assumes "(u1 :: int) * 10 ^ n + u0 < 10 ^ len" "0 \<le> u0" "n \<le> len" "len \<le> 2 * n"
  shows "u1 < 10 ^ n"
proof -
  have "u1 * 10 ^ n < 10 ^ (len - n) * 10 ^ n"
    using assms by (simp flip: power_add)
  then have "u1 < 10 ^ (len - n)"
    by simp
  also have "\<dots> \<le> (10 ^ n :: int)"
    using assms(4) by (intro power_increasing) auto
  finally show ?thesis .
qed

lemma karatsuba_bound:
  fixes u1 u0 v1 v0 :: int
  assumes "0 \<le> u1" "0 \<le> u0" "0 \<le> v1" "0 \<le> v0" "u0 < 10 ^ min n ulen" "v0 < 10 ^ min n vlen"
    and "u1 * 10 ^ n + u0 < 10 ^ ulen" "v1 * 10 ^ n + v0 < 10 ^ vlen" "n = (max ulen vlen + 1) div 2"
    and "ulen \<le> n \<Longrightarrow> u1 = 0" "vlen \<le> n \<Longrightarrow> v1 = 0"
  shows "u1 * v1 * 10 ^ (2 * n) + u1 * v1 * 10 ^ n + u0 * v0 * 10 ^ n + u0 * v0 < 10 ^ (ulen + vlen + 1)"
proof (cases "n < ulen \<and> n < vlen")
  case True
  have half: "ulen \<le> 2 * n" "vlen \<le> 2 * n" "3 * n \<le> ulen + vlen"
    using assms(9) True by auto
  have small: "u1 < 10 ^ n" "v1 < 10 ^ n" "u0 < 10 ^ n" "v0 < 10 ^ n"
    using high_part_less [OF assms(7,2) _ half(1)] high_part_less [OF assms(8,4) _ half(2)] True assms(5,6) by simp_all
  have "\<bar>u1 - u0\<bar> * \<bar>v1 - v0\<bar> \<le> 10 ^ n * 10 ^ n"
    using small assms(1-4) by (intro mult_mono) auto
  then have "(u1 - u0) * (v1 - v0) \<le> 10 ^ n * 10 ^ n"
    by (metis abs_ge_self abs_mult order_trans)
  then have "10 ^ n * ((u1 - u0) * (v1 - v0)) \<le> 10 ^ n * (10 ^ n * 10 ^ n)"
    by simp
  also have "\<dots> = (10 ^ (3 * n) :: int)"
    by (simp add: power_mult power3_eq_cube flip: power_mult_distrib)
  also have "\<dots> \<le> 10 ^ (ulen + vlen)"
    using half(3) by (intro power_increasing) auto
  finally have mixed: "10 ^ n * ((u1 - u0) * (v1 - v0)) \<le> 10 ^ (ulen + vlen)" .
  have "(u1 * 10 ^ n + u0) * (v1 * 10 ^ n + v0) < 10 ^ ulen * 10 ^ vlen"
    using assms(1-4,7,8) by (intro mult_strict_mono') auto
  then have "(u1 * 10 ^ n + u0) * (v1 * 10 ^ n + v0) + 10 ^ n * ((u1 - u0) * (v1 - v0)) < 10 ^ (ulen + vlen) + 10 ^ (ulen + vlen)"
    using mixed by (simp only: power_add)
  also have "\<dots> \<le> (10 ^ (ulen + vlen + 1) :: int)"
    by simp
  finally show ?thesis
    by (simp add: algebra_simps power_mult power2_eq_square power_mult_distrib)
next
  case False
  then have "u1 * v1 = 0"
    using assms(10,11) by auto
  moreover have "u0 * v0 * 10 ^ n + u0 * v0 < 10 ^ (ulen + vlen + 1)"
  proof (cases "n \<le> ulen")
    case True
    then show ?thesis
      using assms(2,4,5,6,9) False by (intro low_parts_bound [where k = "min n vlen"]) auto
  next
    case False
    then have "v0 * u0 * 10 ^ n + v0 * u0 < 10 ^ (ulen + vlen + 1)"
      using assms(2,4,5,6,9) by (intro low_parts_bound [where k = "min n ulen"]) auto
    then show ?thesis
      by (simp add: mult.commute)
  qed
  ultimately show ?thesis
    by auto
qed

text \<open>The shifted sums of the three partial products.\<close>

definition build_product :: "nat \<Rightarrow> nat \<Rightarrow> bool \<Rightarrow> bool \<Rightarrow> bc_num \<Rightarrow> bc_num \<Rightarrow> bc_num \<Rightarrow> bc_num option" where
  "build_product len n m1zero sub m1 m2 m3 =
     Option.bind
       (if \<not> m1zero then Option.bind (shift_addsub (bc_new_num len 0) m1 (2 * n) False) (\<lambda>p. shift_addsub p m1 n False)
        else Some (bc_new_num len 0)) (\<lambda>p.
     Option.bind (shift_addsub p m3 n False) (\<lambda>p. Option.bind (shift_addsub p m3 0 False) (\<lambda>p. shift_addsub p m2 n sub)))"

lemma rec_mul_unfold:
  fixes u v :: bc_num and ulen vlen :: nat
  assumes "\<not> (ulen + vlen < mul_base_digits \<or> ulen < MUL_SMALL_DIGITS \<or> vlen < MUL_SMALL_DIGITS)"
  defines "n \<equiv> (max ulen vlen + 1) div 2"
  defines "u1 \<equiv> fst (split_num u ulen n)" and "u0 \<equiv> snd (split_num u ulen n)"
    and "v1 \<equiv> fst (split_num v vlen n)" and "v0 \<equiv> snd (split_num v vlen n)"
  defines "d1 \<equiv> bc_sub u1 u0 0" and "d2 \<equiv> bc_sub v0 v1 0"
  shows "rec_mul u ulen v vlen =
    Option.bind (if bc_is_zero u1 \<or> bc_is_zero v1 then Some num_zero else rec_mul u1 (n_len u1) v1 (n_len v1)) (\<lambda>m1.
    Option.bind (if bc_is_zero d1 \<or> bc_is_zero d2 then Some num_zero else rec_mul d1 (n_len d1) d2 (n_len d2)) (\<lambda>m2.
    Option.bind (if bc_is_zero u0 \<or> bc_is_zero v0 then Some num_zero else rec_mul u0 (n_len u0) v0 (n_len v0)) (\<lambda>m3.
      build_product (ulen + vlen + 1) n (bc_is_zero u1 \<or> bc_is_zero v1) (n_sign d1 \<noteq> n_sign d2) m1 m2 m3)))"
  unfolding build_product_def d1_def d2_def u1_def u0_def v1_def v0_def n_def
  by (subst rec_mul.simps) (simp only: assms(1) if_False Let_def)

lemma build_product_val:
  assumes "product_of m1 k1 a" "product_of m2 k2 b" "product_of m3 k3 c" "0 \<le> a" "0 \<le> b" "0 \<le> c"
    and "m1zero \<Longrightarrow> a = 0" "\<not> m1zero \<Longrightarrow> 2 * n + k1 \<le> len" "n + k2 \<le> len" "n + k3 \<le> len"
  defines "s \<equiv> a * 10 ^ (2 * n) + a * 10 ^ n + c * 10 ^ n + c"
  assumes "s < 10 ^ len" "if sub then b * 10 ^ n \<le> s else s + b * 10 ^ n < 10 ^ len"
  shows "\<exists>p. build_product len n m1zero sub m1 m2 m3 = Some p \<and> exact p len (if sub then s - b * 10 ^ n else s + b * 10 ^ n)"
proof -
  have new: "exact (bc_new_num len 0) len 0"
    by (auto simp: exact_def)
  have "0 \<le> a * 10 ^ (2 * n)" "0 \<le> a * 10 ^ n" "0 \<le> c * 10 ^ n"
    using assms(4,6) by simp_all
  then have bounds: "0 + a * 10 ^ (2 * n) < 10 ^ len" "a * 10 ^ (2 * n) + a * 10 ^ n < 10 ^ len"
    "a * 10 ^ (2 * n) + a * 10 ^ n + c * 10 ^ n < 10 ^ len"
    using assms(6,12) unfolding s_def by linarith+
  have "\<exists>p. (if \<not> m1zero then Option.bind (shift_addsub (bc_new_num len 0) m1 (2 * n) False) (\<lambda>p. shift_addsub p m1 n False)
        else Some (bc_new_num len 0)) = Some p \<and> exact p len (a * 10 ^ (2 * n) + a * 10 ^ n)"
  proof (cases m1zero)
    case False
    with assms(8) have k: "2 * n + k1 \<le> len" "n + k1 \<le> len"
      by simp_all
    obtain p where p: "shift_addsub (bc_new_num len 0) m1 (2 * n) False = Some p" "exact p len (a * 10 ^ (2 * n))"
      using shift_addsub_exact [OF new assms(1) k(1), of False] bounds(1) by auto
    obtain q where "shift_addsub p m1 n False = Some q" "exact q len (a * 10 ^ (2 * n) + a * 10 ^ n)"
      using shift_addsub_exact [OF p(2) assms(1) k(2), of False] bounds(2) by auto
    then show ?thesis
      using False p(1) by simp
  qed (use assms(7) new in simp)
  then obtain p where p: "(if \<not> m1zero then Option.bind (shift_addsub (bc_new_num len 0) m1 (2 * n) False) (\<lambda>p. shift_addsub p m1 n False)
        else Some (bc_new_num len 0)) = Some p" "exact p len (a * 10 ^ (2 * n) + a * 10 ^ n)"
    by blast
  obtain q where q: "shift_addsub p m3 n False = Some q" "exact q len (a * 10 ^ (2 * n) + a * 10 ^ n + c * 10 ^ n)"
    using shift_addsub_exact [OF p(2) assms(3,10), of False] bounds(3) by auto
  have "0 + k3 \<le> len"
    using assms(10) by simp
  then obtain r where r: "shift_addsub q m3 0 False = Some r" "exact r len s"
    using shift_addsub_exact [OF q(2) assms(3), of 0 False] assms(12) by (auto simp: s_def)
  show ?thesis
    using shift_addsub_exact [OF r(2) assms(2,9,13)] p(1) q(1) r(1) by (simp add: build_product_def del: if_split)
qed

lemma piece_mono: "piece u k x \<Longrightarrow> k \<le> len \<Longrightarrow> piece u len x"
  by (simp add: piece_def)

lemma num_zero_product: "product_of num_zero 0 0"
  by (simp add: product_of_def num_zero_def nval_Cons)

text \<open>The signs of the two differences say how their product is to be used.\<close>

lemma middle_product:
  fixes x1 x0 y1 y0 :: int
  assumes "x1 \<noteq> x0 \<Longrightarrow> s = (if x1 < x0 then MINUS else PLUS)" "y0 \<noteq> y1 \<Longrightarrow> t = (if y0 < y1 then MINUS else PLUS)"
  shows "(if s \<noteq> t then - (\<bar>x1 - x0\<bar> * \<bar>y0 - y1\<bar>) else \<bar>x1 - x0\<bar> * \<bar>y0 - y1\<bar>) = (x1 - x0) * (y0 - y1)"
proof (cases "x1 = x0 \<or> y0 = y1")
  case False
  then show ?thesis
    using assms by (auto simp: abs_if algebra_simps)
qed auto

text \<open>
  The recursion: the product of the differences is needed with the sign that the program derives from their two signs.
\<close>

lemma rec_mul_product:
  "part_ok u ulen \<Longrightarrow> part_ok v vlen \<Longrightarrow>
    \<exists>p. rec_mul u ulen v vlen = Some p \<and> product_of p (ulen + vlen) (part_val u ulen * part_val v vlen)"
proof (induction "max ulen vlen" arbitrary: u ulen v vlen rule: less_induct)
  case less
  show ?case
  proof (cases "ulen + vlen < mul_base_digits \<or> ulen < MUL_SMALL_DIGITS \<or> vlen < MUL_SMALL_DIGITS")
    case True
    then have "rec_mul u ulen v vlen = Some (simp_mul u ulen v vlen)"
      by (subst rec_mul.simps) (simp only: if_True)
    then show ?thesis
      using simp_mul_product [OF less.prems] by simp
  next
    case False
    define n where "n = (max ulen vlen + 1) div 2"
    note half = half_smaller [OF False n_def]
    define u1 u0 v1 v0 where "u1 = fst (split_num u ulen n)" and "u0 = snd (split_num u ulen n)"
      and "v1 = fst (split_num v vlen n)" and "v0 = snd (split_num v vlen n)"
    define d1 d2 where "d1 = bc_sub u1 u0 0" and "d2 = bc_sub v0 v1 0"
    have pos: "1 \<le> ulen" "1 \<le> vlen" "n \<le> 2 * n" "20 \<le> ulen" "20 \<le> vlen" "80 \<le> ulen + vlen"
      using False by auto
    obtain x1 x0 where u: "piece u1 (max 1 (ulen - n)) x1" "piece u0 (min n ulen) x0" "part_val u ulen = x1 * 10 ^ n + x0" "ulen \<le> n \<Longrightarrow> x1 = 0"
      using split_num_pieces [OF less.prems(1) pos(3,1)] unfolding u1_def u0_def by blast
    obtain y1 y0 where v: "piece v1 (max 1 (vlen - n)) y1" "piece v0 (min n vlen) y0" "part_val v vlen = y1 * 10 ^ n + y0" "vlen \<le> n \<Longrightarrow> y1 = 0"
      using split_num_pieces [OF less.prems(2) pos(3,2)] unfolding v1_def v0_def by blast
    have "max 1 (ulen - n) \<le> min n ulen" "max 1 (vlen - n) \<le> min n vlen" "1 \<le> min n ulen" "1 \<le> min n vlen"
      using half pos by auto
    note small = this piece_mono [OF u(1) this(1)] piece_mono [OF v(1) this(2)]
    note d1 = piece_diff [OF small(5) u(2) small(3), folded d1_def]
    note d2 = piece_diff [OF v(2) small(6) small(4), folded d2_def]
    note u1 = piece_part [OF u(1)] and u0 = piece_part [OF u(2)] and v1 = piece_part [OF v(1)] and v0 = piece_part [OF v(2)]
    have lens: "n_len u1 \<le> max 1 (ulen - n)" "n_len u0 \<le> min n ulen" "n_len v1 \<le> max 1 (vlen - n)" "n_len v0 \<le> min n vlen"
      using u v by (simp_all add: piece_def)
    then have halves: "n_len u1 \<le> n" "n_len u0 \<le> n" "n_len v1 \<le> n" "n_len v0 \<le> n" "n_len d1 \<le> n" "n_len d2 \<le> n"
      using d1(2) d2(2) small(1,2) by linarith+
    have partial: "\<exists>m k. (if zero then Some num_zero else rec_mul a (n_len a) b (n_len b)) = Some m \<and>
        product_of m k (part_val a (n_len a) * part_val b (n_len b)) \<and> k \<le> n_len a + n_len b"
      if "part_ok a (n_len a)" "part_ok b (n_len b)" "n_len a \<le> n" "n_len b \<le> n"
        "zero \<longleftrightarrow> part_val a (n_len a) = 0 \<or> part_val b (n_len b) = 0" for a b zero
    proof (cases zero)
      case True
      then show ?thesis
        using num_zero_product that(5) by auto
    next
      case False
      then show ?thesis
        using less.hyps [OF _ that(1,2)] that(3,4) half(1) by auto
    qed
    obtain m1 k1 where m1: "(if bc_is_zero u1 \<or> bc_is_zero v1 then Some num_zero else rec_mul u1 (n_len u1) v1 (n_len v1)) = Some m1"
      "product_of m1 k1 (x1 * y1)" "k1 \<le> n_len u1 + n_len v1"
      using partial [OF u1(1) v1(1) halves(1,3), of "bc_is_zero u1 \<or> bc_is_zero v1"] unfolding u1(2,5) v1(2,5) by blast
    obtain m2 k2 where m2: "(if bc_is_zero d1 \<or> bc_is_zero d2 then Some num_zero else rec_mul d1 (n_len d1) d2 (n_len d2)) = Some m2"
      "product_of m2 k2 (\<bar>x1 - x0\<bar> * \<bar>y0 - y1\<bar>)" "k2 \<le> n_len d1 + n_len d2"
      using partial [OF d1(1) d2(1) halves(5,6), of "bc_is_zero d1 \<or> bc_is_zero d2"] unfolding d1(3,4) d2(3,4) by auto
    obtain m3 k3 where m3: "(if bc_is_zero u0 \<or> bc_is_zero v0 then Some num_zero else rec_mul u0 (n_len u0) v0 (n_len v0)) = Some m3"
      "product_of m3 k3 (x0 * y0)" "k3 \<le> n_len u0 + n_len v0"
      using partial [OF u0(1) v0(1) halves(2,4), of "bc_is_zero u0 \<or> bc_is_zero v0"] unfolding u0(2,5) v0(2,5) by blast
    let ?len = "ulen + vlen + 1" and ?zero = "bc_is_zero u1 \<or> bc_is_zero v1" and ?b = "\<bar>x1 - x0\<bar> * \<bar>y0 - y1\<bar>"
    let ?s = "x1 * y1 * 10 ^ (2 * n) + x1 * y1 * 10 ^ n + x0 * y0 * 10 ^ n + x0 * y0" and ?prod = "part_val u ulen * part_val v vlen"
    have nonneg: "0 \<le> x1 * y1" "0 \<le> x0 * y0" "0 \<le> ?b"
      using u1(3) u0(3) v1(3) v0(3) by simp_all
    have prod: "0 \<le> ?prod" "?prod < 10 ^ (ulen + vlen)"
      using part_bounds [OF less.prems(1)] part_bounds [OF less.prems(2)] by (auto simp: power_add intro!: mult_strict_mono')
    have "?prod = ?s + (x1 - x0) * (y0 - y1) * 10 ^ n"
      by (simp add: u(3) v(3) algebra_simps power_mult power2_eq_square power_mult_distrib)
    then have "?prod = ?s + (if n_sign d1 \<noteq> n_sign d2 then - ?b else ?b) * 10 ^ n"
      by (subst middle_product [OF d1(5) d2(5)])
    then have mid: "(if n_sign d1 \<noteq> n_sign d2 then ?s - ?b * 10 ^ n else ?s + ?b * 10 ^ n) = ?prod"
      by simp
    then have room: "if n_sign d1 \<noteq> n_sign d2 then ?b * 10 ^ n \<le> ?s else ?s + ?b * 10 ^ n < 10 ^ ?len"
      using prod by (cases "n_sign d1 \<noteq> n_sign d2") auto
    have bound: "?s < 10 ^ ?len"
    proof (rule karatsuba_bound [OF u1(3) u0(3) v1(3) v0(3) _ _ _ _ n_def u(4) v(4)])
      show "x0 < 10 ^ min n ulen" "y0 < 10 ^ min n vlen"
        using u0(4) v0(4) lens(2,4) by (auto elim!: less_le_trans intro!: power_increasing)
      show "x1 * 10 ^ n + x0 < 10 ^ ulen" "y1 * 10 ^ n + y0 < 10 ^ vlen"
        using part_bounds [OF less.prems(1)] part_bounds [OF less.prems(2)] u(3) v(3) by simp_all
    qed
    have "n + (min n ulen + min n vlen) \<le> ?len"
      unfolding n_def by linarith
    then have places: "n + k2 \<le> ?len" "n + k3 \<le> ?len"
      using m2(3) m3(3) d1(2) d2(2) lens(2,4) by linarith+
    have high: "2 * n + k1 \<le> ?len" if "\<not> ?zero"
    proof -
      have "n < ulen" "n < vlen"
        using that u(4) v(4) u1(5) v1(5) by (meson not_le)+
      then show ?thesis
        using m1(3) lens(1,3) by linarith
    qed
    have zero: "?zero \<Longrightarrow> x1 * y1 = 0"
      using u1(5) v1(5) by auto
    obtain p where p: "build_product ?len n ?zero (n_sign d1 \<noteq> n_sign d2) m1 m2 m3 = Some p" "exact p ?len ?prod"
      using build_product_val [OF m1(2) m2(2) m3(2) nonneg(1,3,2) zero high places bound room] unfolding mid by blast
    have "rec_mul u ulen v vlen = Some p"
      using rec_mul_unfold [OF False, of u v, folded n_def, folded u1_def u0_def v1_def v0_def, folded d1_def d2_def] m1(1) m2(1) m3(1) p(1)
      by (simp only: bind.simps)
    then show ?thesis
      using exact_head [OF p(2) prod(2)] by simp
  qed
qed

subsection \<open>The routine\<close>

lemma part_mag: "num_ok n \<Longrightarrow> part_ok n (n_len n + n_scale n) \<and> part_val n (n_len n + n_scale n) = mag n"
  by (simp add: part_ok_def num_ok_def part_val_def mag_def num_digits_def)

lemma finish_product:
  assumes "num_ok p" and "1 \<le> n_len p"
  defines "r \<equiv> rm_leading_zeros p"
  defines "q \<equiv> if bc_is_zero r then r\<lparr>n_sign := PLUS\<rparr> else r"
  shows "num_val q = num_val p" "normal q" "zero_plus q" "n_scale q = n_scale p" "n_sign q = (if mag p = 0 then PLUS else n_sign p)"
proof -
  note r = rm_leading_zeros_ok [OF assms(1), folded r_def]
  have q: "bc_is_zero r \<longleftrightarrow> mag p = 0"
    using is_zero_mag [OF r(1)] r(2) by simp
  show "num_val q = num_val p" "n_scale q = n_scale p" "n_sign q = (if mag p = 0 then PLUS else n_sign p)"
    using r q by (simp_all add: q_def num_val_def abs_val_def)
  show "normal q"
    using r(6) assms(2) by (simp add: q_def)
  show "zero_plus q"
    using r q by (auto simp: q_def zero_plus_def num_val_def abs_val_def sign_val_def)
qed

lemma bc_multiply_val:
  fixes scale :: nat
  assumes "num_ok n1" and "num_ok n2"
  defines "s \<equiv> min (n_scale n1 + n_scale n2) (max scale (max (n_scale n1) (n_scale n2)))"
  shows "\<exists>p. bc_multiply n1 n2 scale = Some p \<and> num_val p = cut (num_val n1 * num_val n2) s \<and> n_scale p = s \<and> normal p \<and> zero_plus p"
proof -
  let ?len1 = "n_len n1 + n_scale n1" and ?len2 = "n_len n2 + n_scale n2" and ?full = "n_scale n1 + n_scale n2"
  let ?sign = "if n_sign n1 = n_sign n2 then PLUS else MINUS"
  obtain r where r: "rec_mul n1 ?len1 n2 ?len2 = Some r" "product_of r (?len1 + ?len2) (mag n1 * mag n2)"
    using rec_mul_product [of n1 ?len1 n2 ?len2] part_mag [OF assms(1)] part_mag [OF assms(2)] by auto
  define p where "p = r\<lparr>n_sign := ?sign, n_len := ?len2 + ?len1 + 1 - ?full, n_scale := s\<rparr>"
  have digits: "digs (n_value r)" "length (n_value r) = ?len1 + ?len2 + 1" "nval (n_value r) = mag n1 * mag n2"
    using r(2) by (simp_all add: product_of_def)
  have s: "s \<le> ?full"
    by (simp add: s_def)
  have p: "num_ok p" "1 \<le> n_len p"
    using digits s by (simp_all add: p_def num_ok_def)
  have "mag p = mag n1 * mag n2 div 10 ^ (?full - s)"
    using nval_take [OF digits(1), of "?len2 + ?len1 + 1 - ?full + s"] digits(2,3) s
    by (simp add: p_def mag_def num_digits_def)
  moreover have "num_val n1 * num_val n2 = sign_val ?sign * (of_int (mag n1 * mag n2) / 10 ^ ?full)"
    by (cases "n_sign n1"; cases "n_sign n2") (simp_all add: num_val_def abs_val_def sign_val_def power_add)
  moreover have "0 \<le> mag n1 * mag n2"
    using mag_nonneg [OF assms(1)] mag_nonneg [OF assms(2)] by simp
  ultimately have "num_val p = cut (num_val n1 * num_val n2) s"
    using cut_of_int_div [OF s, of "mag n1 * mag n2" ?sign] by (simp only: num_val_def abs_val_def) (simp add: p_def)
  moreover have "bc_multiply n1 n2 scale =
      Some (if bc_is_zero (rm_leading_zeros p) then (rm_leading_zeros p)\<lparr>n_sign := PLUS\<rparr> else rm_leading_zeros p)"
    using r(1) by (simp add: bc_multiply_def Let_def p_def s_def)
  ultimately show ?thesis
    using finish_product [OF p] by (auto simp: p_def)
qed

text \<open>
  C3. \<open>bc_multiply\<close> (lib/number.c), with the recursive method of \<open>_bc_rec_mul\<close> and its base case \<open>_bc_simp_mul\<close>, always
  gives a result, never runs into the assertion of \<open>_bc_shift_addsub\<close> or beyond the product's storage, and the result
  is the exact product cut off after MIN (s1 + s2, MAX (scale, s1, s2)) decimals, without superfluous zeros in
  front and never a negative zero.
\<close>

theorem bc_multiply_truncates:
  assumes "normal n1" and "normal n2" and "s = min (n_scale n1 + n_scale n2) (max scale (max (n_scale n1) (n_scale n2)))"
  shows "\<exists>p. bc_multiply n1 n2 scale = Some p \<and> num_val p = cut (num_val n1 * num_val n2) s \<and> n_scale p = s \<and>
    normal p \<and> zero_plus p"
  unfolding assms(3) by (rule bc_multiply_val) (use assms(1,2) in \<open>simp_all add: normal_def\<close>)

text \<open>The square of -0.5 with one decimal.\<close>

theorem bc_multiply_truncates_witness:
  "\<exists>p. bc_multiply \<lparr>n_sign = MINUS, n_len = 1, n_scale = 1, n_value = [0, 5]\<rparr>
     \<lparr>n_sign = MINUS, n_len = 1, n_scale = 1, n_value = [0, 5]\<rparr> 0 = Some p \<and> num_val p = 0.2"
proof -
  let ?a = "\<lparr>n_sign = MINUS, n_len = 1, n_scale = 1, n_value = [0, 5]\<rparr>"
  have "normal ?a" "num_val ?a = - (1 / 2)"
    by (simp_all add: normal_def num_ok_def num_val_def sign_val_def abs_val_def mag_def num_digits_def nval_Cons)
  moreover have "cut (1 / 4) 1 = 0.2"
    by (simp add: cut_def floor_eq_iff)
  ultimately show ?thesis
    using bc_multiply_truncates [of ?a ?a 1 0] by auto
qed

end
