(* ===== verification/Number_Div.thy ===== *)
theory Number_Div
  imports Number
begin

text \<open>
  Division (lib/number.c of bc): \<open>bc_divide\<close>, Knuth's long division with a guess for every digit of the quotient.

  The arrays of the source are lists. \<open>num1\<close> is the dividend with a zero in front and zeros behind; the list that
  the loop has is \<open>num1 + qdig\<close>, what is in front of the pointer is never read again. \<open>n2ptr\<close> is the divisor
  without its leading zeros, and with the zero behind its last digit. The result is \<open>None\<close> for a zero divisor, where
  the source returns -1.

  For a divisor of one the source first makes a copy of the dividend and stores it as the quotient, but then goes on
  and divides all the same; the copy is thrown away in the end and left out here.
\<close>

text \<open>The unsigned numbers of the source.\<close>

definition unsigned_int :: "int \<Rightarrow> int" where
  "unsigned_int x = x mod 2 ^ 32"

subsection \<open>Multiplication by one digit\<close>

fun one_mult_loop :: "int \<Rightarrow> int \<Rightarrow> int list \<Rightarrow> int list \<times> int" where
  "one_mult_loop digit carry [] = ([], carry)"
| "one_mult_loop digit carry (x # xs) =
     (let v = x * digit + carry; (ds, c) = one_mult_loop digit (v div BASE) xs in (v mod BASE # ds, c))"

text \<open>The digits of the product, and the carry that is stored in front of them if it is not zero.\<close>

definition one_mult :: "int list \<Rightarrow> int \<Rightarrow> int list \<times> int" where
  "one_mult num digit =
     (if digit = 0 then (replicate (length num) 0, 0)
      else if digit = 1 then (num, 0)
      else (let (ds, carry) = one_mult_loop digit 0 (rev num) in (rev ds, carry)))"

subsection \<open>One digit of the quotient\<close>

definition test_guess :: "int list \<Rightarrow> int list \<Rightarrow> int \<Rightarrow> bool" where
  "test_guess n2ptr num1 qguess \<longleftrightarrow>
     unsigned_int (n2ptr ! 1 * qguess) >
     unsigned_int ((num1 ! 0 * 10 + num1 ! 1 - n2ptr ! 0 * qguess) * 10 + num1 ! 2)"

definition guess_digit :: "int list \<Rightarrow> int list \<Rightarrow> int" where
  "guess_digit n2ptr num1 =
     (let qguess = (if n2ptr ! 0 = num1 ! 0 then 9 else (num1 ! 0 * 10 + num1 ! 1) div n2ptr ! 0) in
      if test_guess n2ptr num1 qguess then
        (let qguess = unsigned_int (qguess - 1) in
         if test_guess n2ptr num1 qguess then unsigned_int (qguess - 1) else qguess)
      else qguess)"

text \<open>The loops that subtract the product and that add the divisor back, from the last digit to the first.\<close>

fun subtract_loop :: "int \<Rightarrow> int list \<Rightarrow> int list \<Rightarrow> int list \<times> int" where
  "subtract_loop borrow (x # xs) (y # ys) =
     (let (d, borrow) = borrow_digit (x - y - borrow); (ds, borrow) = subtract_loop borrow xs ys in (d # ds, borrow))"
| "subtract_loop borrow xs ys = (xs, borrow)"

fun add_back_loop :: "int \<Rightarrow> int list \<Rightarrow> int list \<Rightarrow> int list" where
  "add_back_loop carry (x # xs) (y # ys) =
     (let v = x + y + carry in
      if v > 9 then (v - 10) # add_back_loop 1 xs ys else v # add_back_loop 0 xs ys)"
| "add_back_loop carry (x # xs) [] = (if carry = 1 then (x + 1) mod 10 # xs else x # xs)"
| "add_back_loop carry [] ys = []"

definition quotient_digit :: "int list \<Rightarrow> nat \<Rightarrow> int list \<Rightarrow> int \<times> int list" where
  "quotient_digit n2ptr len2 num1 =
     (let qguess = guess_digit n2ptr num1;
          window = rev (take (len2 + 1) num1);
          (window, borrow) =
            (if qguess \<noteq> 0 then
               (let (m, c) = one_mult (take len2 n2ptr) qguess in subtract_loop 0 window (rev (c # m)))
             else (window, 0));
          (qguess, window) =
            (if borrow = 1 then (unsigned_int (qguess - 1), add_back_loop 0 window (rev (take len2 n2ptr)))
             else (qguess, window)) in
      (qguess, rev window @ drop (len2 + 1) num1))"

fun divide_loop :: "nat \<Rightarrow> int list \<Rightarrow> nat \<Rightarrow> int list \<Rightarrow> int list" where
  "divide_loop 0 n2ptr len2 num1 = []"
| "divide_loop (Suc count) n2ptr len2 num1 =
     (let (qguess, num1) = quotient_digit n2ptr len2 num1 in qguess # divide_loop count n2ptr len2 (tl num1))"

subsection \<open>The routine\<close>

text \<open>The scale of the divisor without the zeros at its end, on its digits from the last to the first.\<close>

fun strip_scale :: "nat \<Rightarrow> int list \<Rightarrow> nat" where
  "strip_scale (Suc scale2) (d # ds) = (if d = 0 then strip_scale scale2 ds else Suc scale2)"
| "strip_scale scale2 ds = scale2"

fun skip_first :: "nat \<Rightarrow> int list \<Rightarrow> nat \<times> int list" where
  "skip_first len2 (d # ds) = (if d = 0 then skip_first (len2 - 1) ds else (len2, d # ds))"
| "skip_first len2 [] = (len2, [])"

definition bc_divide :: "bc_num \<Rightarrow> bc_num \<Rightarrow> nat \<Rightarrow> bc_num option" where
  "bc_divide n1 n2 scale =
     (if bc_is_zero n2 then None
      else
        (let scale2 = strip_scale (n_scale n2) (rev (num_digits n2));
             len1 = n_len n1 + scale2;
             scale1 = int (n_scale n1) - int scale2;
             extra = (if scale1 < int scale then nat (int scale - scale1) else 0);
             num1 = 0 # num_digits n1 @ replicate (extra + 1) 0;
             (len2, n2ptr) = skip_first (n_len n2 + scale2) (take (n_len n2 + scale2) (n_value n2) @ [0]);
             zero = (len2 > len1 + scale);
             qdigits = (if zero \<or> len2 > len1 then scale + 1 else len1 - len2 + scale + 1);
             digits =
               (if zero then replicate qdigits 0
                else
                  (let norm = 10 div (hd n2ptr + 1);
                       size1 = nat (int len1 + scale1 + int extra + 1);
                       num1 = (if norm \<noteq> 1 then fst (one_mult (take size1 num1) norm) @ drop size1 num1 else num1);
                       n2ptr = (if norm \<noteq> 1 then fst (one_mult (take len2 n2ptr) norm) @ drop len2 n2ptr else n2ptr) in
                   replicate (if len2 > len1 then len2 - len1 else 0) 0 @
                   divide_loop (len1 + scale + 1 - len2) n2ptr len2 num1));
             qval = \<lparr>n_sign = (if n_sign n1 = n_sign n2 then PLUS else MINUS), n_len = qdigits - scale, n_scale = scale,
               n_value = digits\<rparr> in
         Some (rm_leading_zeros (if bc_is_zero qval then qval\<lparr>n_sign := PLUS\<rparr> else qval))))"

end
