(* ===== verification/Number_Div_Correct.thy ===== *)
theory Number_Div_Correct
  imports Number_Div Number_Correct
begin

text \<open>
  Division: every digit of the quotient is guessed at most one too large after the two tests, which is what adding
  back corrects; \<open>bc_divide\<close> gives the exact quotient cut off at the scale asked for.
\<close>

subsection \<open>Multiplication by one digit\<close>

lemma one_mult_loop_val:
  assumes "0 \<le> digit" "digit \<le> 9"
  shows "digs xs \<Longrightarrow> 0 \<le> carry \<Longrightarrow> carry \<le> 9 \<Longrightarrow> one_mult_loop digit carry xs = (ds, c) \<Longrightarrow>
    lval ds + 10 ^ length xs * c = lval xs * digit + carry \<and> digs ds \<and> length ds = length xs \<and> 0 \<le> c \<and> c \<le> 9"
proof (induction xs arbitrary: carry ds)
  case (Cons x xs)
  let ?v = "x * digit + carry"
  obtain es where es: "one_mult_loop digit (?v div 10) xs = (es, c)" "ds = ?v mod 10 # es"
    using Cons.prems(4) by (auto simp: Let_def split: prod.splits)
  have "x * digit \<le> 9 * 9" "0 \<le> x * digit"
    using mult_mono [of x 9 digit 9] Cons.prems(1) assms by auto
  then have "0 \<le> ?v div 10" "?v div 10 \<le> 9"
    using Cons.prems(2,3) by simp_all
  with Cons.IH [OF _ _ _ es(1)] Cons.prems(1) have "lval es + 10 ^ length xs * c = lval xs * digit + ?v div 10" "digs es" "length es = length xs"
    "0 \<le> c" "c \<le> 9"
    by auto
  moreover have "?v mod 10 + 10 * (lval xs * digit + ?v div 10) = lval (x # xs) * digit + carry"
    using mult_div_mod_eq [of 10 ?v] by (simp add: algebra_simps)
  moreover have "lval (?v mod 10 # es) + 10 ^ length (x # xs) * c = ?v mod 10 + 10 * (lval es + 10 ^ length xs * c)"
    by simp
  ultimately show ?case
    by (simp add: es(2) del: lval.simps)
qed simp

lemma one_mult_val:
  assumes "digs xs" "0 \<le> digit" "digit \<le> 9"
  shows "\<exists>ds c. one_mult xs digit = (ds, c) \<and> nval (c # ds) = nval xs * digit \<and> digs (c # ds) \<and> length ds = length xs"
proof -
  consider "digit = 0" | "digit = 1" | "digit \<noteq> 0" "digit \<noteq> 1"
    by blast
  then show ?thesis
  proof cases
    case 3
    obtain ds c where ds: "one_mult_loop digit 0 (rev xs) = (ds, c)"
      by fastforce
    with 3 one_mult_loop_val [OF assms(2,3) _ _ _ ds] assms(1) show ?thesis
      by (auto simp: one_mult_def nval_def lval_append)
  qed (use assms in \<open>auto simp: one_mult_def nval_Cons\<close>)
qed

subsection \<open>Subtraction and adding back\<close>

lemma subtract_loop_val:
  "digs xs \<Longrightarrow> digs ys \<Longrightarrow> length xs = length ys \<Longrightarrow> b \<in> {0, 1} \<Longrightarrow> subtract_loop b xs ys = (ds, c) \<Longrightarrow>
    lval ds = lval xs - lval ys - b + 10 ^ length xs * c \<and> digs ds \<and> length ds = length xs \<and> c \<in> {0, 1}"
proof (induction b xs ys arbitrary: ds rule: subtract_loop.induct)
  case (1 b x xs y ys)
  obtain d e es where d: "borrow_digit (x - y - b) = (d, e)" and es: "subtract_loop e xs ys = (es, c)" "ds = d # es"
    using 1(6) by (auto simp: Let_def split: prod.splits)
  have "d = x - y - b + 10 * e" "e \<in> {0, 1}" "0 \<le> d" "d \<le> 9"
    using borrow_digit_val [OF d] borrow_digit_dig [OF d] 1(2-5) by auto
  moreover have "lval es = lval xs - lval ys - e + 10 ^ length xs * c \<and> digs es \<and> length es = length xs \<and> c \<in> {0, 1}"
    using 1(1) [OF d [symmetric] refl _ _ _ _ es(1)] 1(2-4) calculation(2) by simp
  ultimately show ?case
    by (simp add: es(2))
qed auto

lemma digit_mod:
  assumes "0 \<le> t" "t \<le> 9" "0 \<le> m"
  shows "(t + 10 * y) mod (10 * m) = t + 10 * (y mod m :: int)"
  using zmod_zmult2_eq [of m "t + 10 * y" 10] assms by simp

lemma add_back_loop_val:
  "digs xs \<Longrightarrow> digs ys \<Longrightarrow> length xs = Suc (length ys) \<Longrightarrow> c \<in> {0, 1} \<Longrightarrow>
    lval (add_back_loop c xs ys) = (lval xs + lval ys + c) mod 10 ^ length xs \<and> digs (add_back_loop c xs ys) \<and>
    length (add_back_loop c xs ys) = length xs"
proof (induction c xs ys rule: add_back_loop.induct)
  case (1 c x xs y ys)
  define v where "v = x + y + c"
  define e where "e = (if v > 9 then 1 else 0 :: int)"
  have v: "add_back_loop c (x # xs) (y # ys) = (v - 10 * e) # add_back_loop e xs ys" "0 \<le> v - 10 * e" "v - 10 * e \<le> 9" "e \<in> {0, 1}"
    using 1(3,4,6) by (auto simp: v_def e_def Let_def)
  have IH: "lval (add_back_loop e xs ys) = (lval xs + lval ys + e) mod 10 ^ length xs" "digs (add_back_loop e xs ys)"
    "length (add_back_loop e xs ys) = length xs"
    using 1(1) [OF v_def] 1(2) [OF v_def] 1(3-5) by (auto simp: e_def split: if_splits)
  have "(lval (x # xs) + lval (y # ys) + c) mod 10 ^ length (x # xs) = (v - 10 * e + 10 * (lval xs + lval ys + e)) mod (10 * 10 ^ length xs)"
    by (simp add: v_def algebra_simps)
  also have "\<dots> = v - 10 * e + 10 * ((lval xs + lval ys + e) mod 10 ^ length xs)"
    using v(2,3) by (rule digit_mod) simp
  finally show ?case
    using v IH by simp
next
  case (2 c x xs)
  then show ?case
    by auto
qed auto

subsection \<open>The guess\<close>

text \<open>
  The window of the dividend and the divisor, by their first digits and the value of the rest: the first digit \<open>a\<close>
  and its followers \<open>b\<close> and \<open>c\<close> on one hand, \<open>d\<close> and \<open>e\<close> on the other.
\<close>

definition guess_setting :: "int \<Rightarrow> int \<Rightarrow> int \<Rightarrow> int \<Rightarrow> int \<Rightarrow> int \<Rightarrow> int \<Rightarrow> bool" where
  "guess_setting a b c d e W D \<longleftrightarrow>
     0 \<le> a \<and> a \<le> 9 \<and> 0 \<le> b \<and> b \<le> 9 \<and> 0 \<le> c \<and> c \<le> 9 \<and> 5 \<le> d \<and> d \<le> 9 \<and> 0 \<le> e \<and> e \<le> 9 \<and> 0 \<le> W \<and> W < 10 * D \<and>
     (\<exists>P > 0. \<exists>s \<in> {0..<P}. \<exists>r \<in> {0..<P}. W = (100 * a + 10 * b + c) * P + s \<and> D = (10 * d + e) * P + r)"

lemma guess_settingI:
  assumes "0 \<le> a" "a \<le> 9" "0 \<le> b" "b \<le> 9" "0 \<le> c" "c \<le> 9" "5 \<le> d" "d \<le> 9" "0 \<le> e" "e \<le> 9" "0 \<le> W" "W < 10 * D"
    and "0 < P" "0 \<le> s" "s < P" "0 \<le> r" "r < P" "W = (100 * a + 10 * b + c) * P + s" "D = (10 * d + e) * P + r"
  shows "guess_setting a b c d e W D"
  unfolding guess_setting_def using assms by (blast intro: atLeastLessThan_iff [THEN iffD2])

text \<open>The test of the source in integers, without the wrap-around.\<close>

lemma guess_bounds:
  assumes "guess_setting a b c d e W D"
  defines "q \<equiv> W div D" and "g \<equiv> (if d = a then 9 else (a * 10 + b) div d)"
  shows "0 \<le> q" "q \<le> g" "g \<le> 9" "d * g \<le> a * 10 + b" "g \<le> q + 2"
    "\<And>h. e * h > (a * 10 + b - d * h) * 10 + c \<Longrightarrow> 0 \<le> h \<Longrightarrow> q < h"
    "\<And>h. 0 \<le> h \<Longrightarrow> h \<le> 9 \<Longrightarrow> \<not> e * h > (a * 10 + b - d * h) * 10 + c \<Longrightarrow> h \<le> q + 1"
proof -
  obtain P s r where P: "0 < P" "0 \<le> s" "s < P" "0 \<le> r" "r < P" "W = (100 * a + 10 * b + c) * P + s" "D = (10 * d + e) * P + r"
    using assms(1) unfolding guess_setting_def by auto
  have digits: "0 \<le> a" "a \<le> 9" "0 \<le> b" "b \<le> 9" "0 \<le> c" "c \<le> 9" "5 \<le> d" "d \<le> 9" "0 \<le> e" "e \<le> 9" "0 \<le> W" "W < 10 * D"
    using assms(1) by (simp_all add: guess_setting_def)
  have "50 * P \<le> (10 * d + e) * P"
    using P(1) digits by (intro mult_right_mono) auto
  then have D: "50 * P \<le> D"
    using P(4) unfolding P(7) by linarith
  then have pos: "0 < D"
    using P(1) by simp
  show q0: "0 \<le> q"
    using pos digits by (simp add: q_def pos_imp_zdiv_nonneg_iff)
  have q: "q * D \<le> W" "W < (q + 1) * D"
  proof -
    have "W = q * D + W mod D" "(q + 1) * D = q * D + D"
      by (simp_all add: q_def distrib_right)
    with pos_mod_bound [OF pos, of W] pos_mod_sign [OF pos, of W] show "q * D \<le> W" "W < (q + 1) * D"
      by linarith+
  qed
  have "q * D < 10 * D"
    using q(1) digits(12) by linarith
  then have q9: "q \<le> 9"
    using pos by simp
  have "D < (10 * d + e + 1) * P" "W < (100 * a + 10 * b + c + 1) * P"
    using P by (simp_all add: algebra_simps)
  let ?X = "a * 10 + b"
  have DW: "10 * d * P \<le> D" "D < (d + 1) * 10 * P" "10 * ?X * P \<le> W" "W < (10 * ?X + c + 1) * P" "W < (?X + 1) * 10 * P"
  proof -
    have "r + P * e < P * 10" "s + P * c < P * 10" "0 \<le> P * c" "0 \<le> P * e"
      using mult_left_mono [of e 9 P] mult_left_mono [of c 9 P] P digits by (linarith, linarith, simp_all)
    then show "10 * d * P \<le> D" "D < (d + 1) * 10 * P" "10 * ?X * P \<le> W" "W < (10 * ?X + c + 1) * P" "W < (?X + 1) * 10 * P"
      using P(2-5) unfolding P(6,7) by (simp_all add: algebra_simps)
  qed
  have "10 * ?X * P < (d + 1) * 100 * P"
    using DW digits(12) by linarith
  then have "10 * ?X < (d + 1) * 100"
    using P(1) by simp
  then have ad: "a \<le> d"
    using digits(3) by simp
  have "q * (10 * d * P) < (?X + 1) * 10 * P"
    using mult_left_mono [OF DW(1) q0] q(1) DW(5) by linarith
  then have "(q * d * 10) * P < ((?X + 1) * 10) * P"
    by (simp add: algebra_simps)
  then have "q * d * 10 < (?X + 1) * 10"
    using P(1) by (rule mult_right_less_imp_less [OF _ less_imp_le])
  then have qd: "q * d \<le> ?X"
    by simp
  show g1: "q \<le> g"
    using q9 qd zdiv_mono1 [OF qd, of d] digits(7) by (simp add: g_def)
  have le: "d * (?X div d) \<le> ?X"
    using mult_div_mod_eq [of d ?X] pos_mod_sign [of d ?X] digits(7) by linarith
  show g9: "g \<le> 9"
  proof (cases "d = a")
    case False
    then have "?X < 10 * d"
      using ad digits by linarith
    then have "?X div d < 10"
      using le digits(7) mult_less_cancel_left_pos [of d "?X div d" 10] by linarith
    then show ?thesis
      by (simp add: g_def)
  qed (simp add: g_def)
  show gd: "d * g \<le> ?X"
    using digits le by (auto simp: g_def)
  have "g * D \<le> g * ((d + 1) * 10 * P)"
    using DW(2) g1 q0 by (intro mult_left_mono) auto
  also have "\<dots> = (d * g + g) * (10 * P)"
    by (simp add: algebra_simps)
  also have "\<dots> \<le> (?X + 9) * (10 * P)"
    using gd g9 P(1) by (intro mult_right_mono) auto
  also have "\<dots> < (q + 3) * D"
    using DW(3) q(2) D P(1) by (simp add: algebra_simps)
  finally have "g < q + 3"
    using pos by simp
  then show "g \<le> q + 2"
    by simp
  show "q < h" if "e * h > (?X - d * h) * 10 + c" "0 \<le> h" for h
  proof (rule ccontr)
    assume "\<not> q < h"
    then have "h * D \<le> q * D"
      using pos by simp
    have "(10 * ?X + c + 1) * P \<le> ((10 * d + e) * h) * P"
      using that(1) P(1) by (intro mult_right_mono) (auto simp: algebra_simps)
    also have "\<dots> \<le> h * D"
      using that(2) P(4) by (simp add: P(7) algebra_simps)
    finally show False
      using \<open>h * D \<le> q * D\<close> q(1) DW(4) by linarith
  qed
  show "h \<le> q + 1" if "0 \<le> h" "h \<le> 9" "\<not> e * h > (?X - d * h) * 10 + c" for h
  proof -
    have "h * r \<le> 9 * P"
      using that P by (intro mult_mono) auto
    moreover have "((10 * d + e) * h) * P \<le> (10 * ?X + c) * P"
      using that(3) P(1) by (intro mult_right_mono) (auto simp: algebra_simps)
    moreover have "h * D = ((10 * d + e) * h) * P + h * r"
      by (simp add: P(7) algebra_simps)
    moreover have "(10 * ?X + c) * P \<le> W"
      using P(2) by (simp add: P(6))
    ultimately have "h * D < (q + 2) * D"
      using q(2) D P(1) by (simp add: algebra_simps)
    then show ?thesis
      using pos by simp
  qed
qed

lemma guess_digit_bounds:
  assumes "guess_setting (num1 ! 0) (num1 ! 1) (num1 ! 2) (n2ptr ! 0) (n2ptr ! 1) W D"
  shows "guess_digit n2ptr num1 \<in> {W div D, W div D + 1}" "guess_digit n2ptr num1 \<le> 9" "0 \<le> W div D"
proof -
  let ?a = "num1 ! 0" and ?b = "num1 ! 1" and ?c = "num1 ! 2" and ?d = "n2ptr ! 0" and ?e = "n2ptr ! 1" and ?q = "W div D"
  define g where "g = (if ?d = ?a then 9 else (?a * 10 + ?b) div ?d)"
  note bounds = guess_bounds [OF assms, folded g_def]
  note digits = assms [unfolded guess_setting_def]
  have test: "test_guess n2ptr num1 h \<longleftrightarrow> ?e * h > (?a * 10 + ?b - ?d * h) * 10 + ?c" if "0 \<le> h" "h \<le> g" for h
  proof -
    have "?e * h \<le> 9 * 9" "0 \<le> ?e * h" "?d * h \<le> ?d * g" "0 \<le> ?d * h"
      using digits that bounds(3) mult_mono [of ?e 9 h 9] by (auto intro: mult_left_mono)
    then have "0 \<le> ?a * 10 + ?b - ?d * h" "?a * 10 + ?b - ?d * h \<le> 99"
      using bounds(4) digits by linarith+
    with digits \<open>?e * h \<le> 9 * 9\<close> \<open>0 \<le> ?e * h\<close> show ?thesis
      by (simp add: test_guess_def unsigned_int_def)
  qed
  have less: "unsigned_int (h - 1) = h - 1" if "?q < h" "h \<le> 9" for h
    using that bounds(1) by (simp add: unsigned_int_def)
  consider "\<not> test_guess n2ptr num1 g" | "test_guess n2ptr num1 g" "\<not> test_guess n2ptr num1 (g - 1)"
    | "test_guess n2ptr num1 g" "test_guess n2ptr num1 (g - 1)"
    by blast
  then have "guess_digit n2ptr num1 \<in> {?q, ?q + 1} \<and> guess_digit n2ptr num1 \<le> 9"
  proof cases
    case 1
    then have "guess_digit n2ptr num1 = g"
      by (simp add: guess_digit_def g_def)
    moreover have "g \<le> ?q + 1"
      using 1 test [of g] bounds by auto
    ultimately show ?thesis
      using bounds(2,3) by auto
  next
    case 2
    then have q: "?q < g"
      using test [of g] bounds by auto
    then have "guess_digit n2ptr num1 = g - 1"
      using 2 less [OF q bounds(3)] by (simp add: guess_digit_def g_def)
    moreover have "g - 1 \<le> ?q + 1"
      using 2(2) test [of "g - 1"] bounds(7) [of "g - 1"] bounds(1,3) q by auto
    ultimately show ?thesis
      using q bounds(3) by auto
  next
    case 3
    then have q: "?q < g"
      using test [of g] bounds by auto
    then have q': "?q < g - 1"
      using 3(2) test [of "g - 1"] bounds(6) [of "g - 1"] bounds(1) by auto
    then have "guess_digit n2ptr num1 = g - 1 - 1"
      using 3 less [OF q bounds(3)] less [OF q'] bounds(3) by (simp add: guess_digit_def g_def)
    then show ?thesis
      using q' bounds(3,5) by auto
  qed
  then show "guess_digit n2ptr num1 \<in> {?q, ?q + 1}" "guess_digit n2ptr num1 \<le> 9" "0 \<le> W div D"
    using bounds(1) by blast+
qed

subsection \<open>One digit of the quotient\<close>

text \<open>The divisor after it has been normalized: the first digit is at least 5, and there is a zero behind the last one.\<close>

definition divisor_ok :: "int list \<Rightarrow> nat \<Rightarrow> bool" where
  "divisor_ok n2ptr len2 \<longleftrightarrow> digs n2ptr \<and> length n2ptr = len2 + 1 \<and> 1 \<le> len2 \<and> n2ptr ! len2 = 0 \<and> 5 \<le> n2ptr ! 0"

lemma nval_take_Suc: "k < length xs \<Longrightarrow> nval (take (Suc k) xs) = 10 * nval (take k xs) + xs ! k"
  by (simp add: take_Suc_conv_app_nth)

lemma digs_nth: "digs xs \<Longrightarrow> k < length xs \<Longrightarrow> 0 \<le> xs ! k \<and> xs ! k \<le> 9"
  using nth_mem [of k xs] by (auto simp: subset_iff)

lemma divisor_value:
  assumes "divisor_ok n2ptr len2"
  shows "nval n2ptr = 10 * nval (take len2 n2ptr)" "5 * 10 ^ (len2 - 1) \<le> nval (take len2 n2ptr)" "0 < nval (take len2 n2ptr)"
    "nval (take len2 n2ptr) < 10 ^ len2" "digs (take len2 n2ptr)"
proof -
  have d: "digs n2ptr" "length n2ptr = len2 + 1"
    using assms by (auto simp: divisor_ok_def)
  show "nval n2ptr = 10 * nval (take len2 n2ptr)"
    using nval_take_Suc [of len2 n2ptr] assms d by (simp add: divisor_ok_def)
  obtain x xs where x: "take len2 n2ptr = x # xs" "x = n2ptr ! 0" "length xs = len2 - 1"
    using assms by (cases n2ptr; cases len2) (auto simp: divisor_ok_def)
  show digs: "digs (take len2 n2ptr)"
    using d(1) by (rule digs_parts)
  then show "nval (take len2 n2ptr) < 10 ^ len2"
    using nval_less [of "take len2 n2ptr"] d(2) by (simp add: min_absorb2)
  have "0 \<le> nval xs" "5 * 10 ^ (len2 - 1) \<le> x * 10 ^ (len2 - 1)"
    using digs x assms by (auto intro!: nval_nonneg simp: divisor_ok_def)
  then show "5 * 10 ^ (len2 - 1) \<le> nval (take len2 n2ptr)"
    unfolding x(1) nval_Cons x(3) by linarith
  then show "0 < nval (take len2 n2ptr)"
    by (rule less_le_trans [rotated]) simp
qed

lemma guess_window:
  assumes "divisor_ok n2ptr len2" "digs num1" "len2 + 2 \<le> length num1" "nval (take len2 num1) < nval (take len2 n2ptr)"
  defines "W \<equiv> nval (take (len2 + 1) num1)" and "D \<equiv> nval (take len2 n2ptr)"
  shows "guess_digit n2ptr num1 \<in> {W div D, W div D + 1}" "guess_digit n2ptr num1 \<le> 9" "0 \<le> W div D"
proof -
  have digits: "0 \<le> num1 ! k \<and> num1 ! k \<le> 9" if "k < len2 + 2" for k
    using digs_nth [OF assms(2)] assms(3) that by simp
  have W: "W = 10 * nval (take len2 num1) + num1 ! len2" "nval (take (len2 + 2) num1) = 10 * W + num1 ! (len2 + 1)"
    using nval_take_Suc [of len2 num1] nval_take_Suc [of "Suc len2" num1] assms(3) by (simp_all add: W_def)
  have D: "nval n2ptr = 10 * D" "0 < D"
    using divisor_value [OF assms(1)] by (simp_all add: D_def)
  have "10 * W + num1 ! (len2 + 1) < 10 * (10 * D)"
    using W(1) assms(4) digits [of len2] digits [of "len2 + 1"] by (simp add: D_def)
  moreover have "0 \<le> W"
    using assms(2) digs_parts by (auto intro!: nval_nonneg simp: W_def)
  moreover obtain a b c cs where c: "take (len2 + 2) num1 = a # b # c # cs" "length cs = len2 - 1"
  proof -
    have "length (take (len2 + 2) num1) = Suc (Suc (Suc (len2 - 1)))"
      using assms(1,3) by (simp add: divisor_ok_def)
    then show thesis
      using that by (metis length_Suc_conv)
  qed
  moreover have "num1 ! k = take (len2 + 2) num1 ! k" if "k < 3" for k
    using that assms(1) by (simp add: divisor_ok_def)
  then have abc: "num1 ! 0 = a" "num1 ! 1 = b" "num1 ! 2 = c"
    using c by simp_all
  moreover obtain d e es where e: "n2ptr = d # e # es" "length es = len2 - 1"
    using assms(1) by (cases n2ptr; cases "tl n2ptr") (auto simp: divisor_ok_def)
  moreover have "0 \<le> nval cs" "nval cs < 10 ^ length cs" "0 \<le> nval es" "nval es < 10 ^ length es"
    using nval_nonneg nval_less assms(1,2) digs_parts(1) [OF assms(2), of "len2 + 2"] c(1) e(1) by (auto simp: divisor_ok_def)
  moreover have "nval (take (len2 + 2) num1) = (100 * a + 10 * b + c) * 10 ^ (len2 - 1) + nval cs"
    "nval n2ptr = (10 * d + e) * 10 ^ (len2 - 1) + nval es"
    unfolding c(1) e(1) nval_Cons length_Cons c(2) e(2) by (simp_all add: algebra_simps)
  moreover have "0 \<le> a" "a \<le> 9" "0 \<le> b" "b \<le> 9" "0 \<le> c" "c \<le> 9" "5 \<le> d" "d \<le> 9" "0 \<le> e" "e \<le> 9"
    using assms(1,2) digs_parts(1) [OF assms(2), of "len2 + 2"] c(1) e(1) by (auto simp: divisor_ok_def)
  ultimately have "guess_setting (num1 ! 0) (num1 ! 1) (num1 ! 2) (n2ptr ! 0) (n2ptr ! 1) (10 * W + num1 ! (len2 + 1)) (10 * D)"
    using digits [of "len2 + 1"] D(1) W(2) unfolding abc
    by (intro guess_settingI [where P = "10 ^ (len2 - 1)" and s = "nval cs" and r = "nval es"]) auto
  note guess_digit_bounds [OF this]
  moreover have "(10 * W + num1 ! (len2 + 1)) div (10 * D) = W div D"
    using digits [of "len2 + 1"] D(2) zdiv_zmult2_eq [of D "10 * W + num1 ! (len2 + 1)" 10] by simp
  ultimately show "guess_digit n2ptr num1 \<in> {W div D, W div D + 1}" "guess_digit n2ptr num1 \<le> 9" "0 \<le> W div D"
    by simp_all
qed

lemma quotient_digit_val:
  assumes "divisor_ok n2ptr len2" "digs num1" "len2 + 2 \<le> length num1" "nval (take len2 num1) < nval (take len2 n2ptr)"
  defines "W \<equiv> nval (take (len2 + 1) num1)" and "D \<equiv> nval (take len2 n2ptr)"
  shows "\<exists>xs. quotient_digit n2ptr len2 num1 = (W div D, xs @ drop (len2 + 1) num1) \<and> digs xs \<and> length xs = len2 + 1 \<and>
    nval xs = W mod D \<and> 0 \<le> W div D \<and> W div D \<le> 9"
proof -
  let ?g = "guess_digit n2ptr num1" and ?q = "W div D" and ?win = "take (len2 + 1) num1"
  note g = guess_window [OF assms(1-4), folded W_def D_def]
  note D = divisor_value [OF assms(1), folded D_def]
  have win: "digs ?win" "length ?win = len2 + 1" "lval (rev ?win) = W"
    using assms(3) digs_parts(1) [OF assms(2)] by (simp_all add: W_def nval_def)
  have lenD: "length (take len2 n2ptr) = len2"
    using assms(1) by (simp add: divisor_ok_def)
  have mod: "W mod D = W - ?q * D" "0 \<le> W mod D" "W mod D < D"
    using D(3) by (simp_all add: minus_div_mult_eq_mod)
  have D10: "D < 10 ^ (len2 + 1)"
    using D(4) by (rule less_le_trans) simp
  show ?thesis
  proof (cases "?g = 0")
    case True
    then have "?q = 0"
      using g by auto
    moreover have "quotient_digit n2ptr len2 num1 = (0, ?win @ drop (len2 + 1) num1)"
      by (simp add: quotient_digit_def True)
    moreover have "nval ?win = W mod D"
      using mod(1) \<open>?q = 0\<close> by (simp add: W_def)
    ultimately show ?thesis
      using win by (intro exI [of _ ?win]) simp
  next
    case False
    have "0 \<le> ?g"
      using g(1,3) by auto
    from one_mult_val [OF D(5) this g(2), folded D_def, unfolded lenD]
    obtain m c where m: "one_mult (take len2 n2ptr) ?g = (m, c)" "nval (c # m) = D * ?g" "digs (c # m)" "length m = len2"
      by blast
    obtain ds b where ds: "subtract_loop 0 (rev ?win) (rev (c # m)) = (ds, b)"
      by fastforce
    have "digs (rev ?win)" "digs (rev (c # m))" "length (rev ?win) = length (rev (c # m))" "(0 :: int) \<in> {0, 1}"
      using win(1,2) m(3,4) by simp_all
    note sub = subtract_loop_val [OF this ds]
    have val: "lval ds = W - D * ?g + 10 ^ (len2 + 1) * b" "digs ds" "length ds = len2 + 1" "b \<in> {0, 1}"
      using sub win(2,3) m(2) by (simp_all add: nval_def)
    show ?thesis
    proof (cases "b = 1")
      case True
      have "lval ds < 10 ^ (len2 + 1)"
        using lval_less [OF val(2)] val(3) by simp
      then have "W < D * ?g"
        using val(1) True by simp
      then have g': "?g = ?q + 1"
        using g(1) mod by (auto simp: mult.commute)
      let ?sum = "add_back_loop 0 ds (rev (take len2 n2ptr))"
      have added: "lval ?sum = (lval ds + D) mod 10 ^ (len2 + 1)" "digs ?sum" "length ?sum = len2 + 1"
        using add_back_loop_val [of ds "rev (take len2 n2ptr)" 0] val(2,3) D(5) lenD by (simp_all add: D_def nval_def)
      have "lval ds + D = W mod D + 10 ^ (len2 + 1)"
      proof -
        have "D * ?g = ?q * D + D"
          by (simp add: g' algebra_simps)
        then show ?thesis
          using val(1) [unfolded True] mod(1) by linarith
      qed
      then have "lval ?sum = W mod D"
        using added(1) mod(2,3) D10 by simp
      moreover have "unsigned_int (?g - 1) = ?q" "?q \<le> 9"
        using g g' by (simp_all add: unsigned_int_def)
      moreover have "quotient_digit n2ptr len2 num1 = (unsigned_int (?g - 1), rev ?sum @ drop (len2 + 1) num1)"
        using False True ds m(1) by (simp add: quotient_digit_def)
      ultimately show ?thesis
        using added(2,3) g(3) by (intro exI [of _ "rev ?sum"]) (simp add: nval_def)
    next
      case False
      then have "lval ds = W - D * ?g"
        using val(1,4) by simp
      moreover have "0 \<le> lval ds"
        using val(2) by (rule lval_nonneg)
      moreover have "D * (?q + 1) = ?q * D + D" "D * ?q = ?q * D"
        by (simp_all add: algebra_simps)
      ultimately have "?g \<noteq> ?q + 1"
        using mod(1,3) by force
      then have "?g = ?q"
        using g(1) by simp
      moreover from this have "lval ds = W mod D"
        using \<open>lval ds = W - D * ?g\<close> \<open>D * ?q = ?q * D\<close> mod(1) by simp
      moreover have "quotient_digit n2ptr len2 num1 = (?g, rev ds @ drop (len2 + 1) num1)"
        using False \<open>?g \<noteq> 0\<close> ds m(1) by (simp add: quotient_digit_def)
      ultimately show ?thesis
        using val(2,3) g(2,3) by (intro exI [of _ "rev ds"]) (simp add: nval_def)
    qed
  qed
qed

subsection \<open>The loop\<close>

lemma divide_loop_val:
  assumes "divisor_ok n2ptr len2"
  shows "digs num1 \<Longrightarrow> len2 + k + 1 \<le> length num1 \<Longrightarrow> nval (take len2 num1) < nval (take len2 n2ptr) \<Longrightarrow>
    nval (divide_loop k n2ptr len2 num1) = nval (take (len2 + k) num1) div nval (take len2 n2ptr) \<and>
    digs (divide_loop k n2ptr len2 num1) \<and> length (divide_loop k n2ptr len2 num1) = k"
proof (induction k arbitrary: num1)
  case 0
  then show ?case
    using nval_nonneg [OF digs_parts(1) [OF 0(1)], of len2] by (simp add: div_pos_pos_trivial)
next
  case (Suc k)
  let ?D = "nval (take len2 n2ptr)"
  define W where "W = nval (take (len2 + 1) num1)"
  have "len2 + 2 \<le> length num1"
    using Suc.prems(2) by simp
  from quotient_digit_val [OF assms Suc.prems(1) this Suc.prems(3), folded W_def] obtain xs where
    xs: "quotient_digit n2ptr len2 num1 = (W div ?D, xs @ drop (len2 + 1) num1)" "digs xs" "length xs = len2 + 1" "nval xs = W mod ?D"
      "0 \<le> W div ?D" "W div ?D \<le> 9"
    by blast
  note D = divisor_value [OF assms]
  have "nval xs < 10 ^ len2"
    using D(3,4) pos_mod_bound [OF D(3), of W] xs(4) by linarith
  moreover obtain y ys where ys: "xs = y # ys" "length ys = len2"
    using xs(3) by (cases xs) auto
  moreover from this have "digs (y # ys)"
    using xs(2) by simp
  ultimately have "y = 0"
    using nval_head [of y ys] by force
  then have low: "nval ys = W mod ?D"
    using xs(4) ys(1) by (simp add: nval_Cons)
  define rest where "rest = drop (len2 + 1) num1"
  have T: "length (take k rest) = k" "digs rest" "len2 + k + 1 \<le> length (ys @ rest)"
    using Suc.prems(1,2) digs_parts ys(2) by (auto simp: rest_def)
  have "digs (ys @ rest)" "nval (take len2 (ys @ rest)) < ?D"
    using \<open>digs (y # ys)\<close> T(2) ys(2) low pos_mod_bound [OF D(3)] by simp_all
  note IH = Suc.IH [OF this(1) T(3) this(2)]
  have take: "take (len2 + Suc k) num1 = take (len2 + 1) num1 @ take k rest"
    using take_add [of "len2 + 1" k num1] by (simp add: rest_def)
  have loop: "divide_loop (Suc k) n2ptr len2 num1 = W div ?D # divide_loop k n2ptr len2 (ys @ rest)"
    using xs(1) ys(1) by (simp add: rest_def)
  have "W * 10 ^ k = (?D * (W div ?D) + W mod ?D) * 10 ^ k"
    by (simp only: mult_div_mod_eq)
  also have "\<dots> = ?D * (W div ?D * 10 ^ k) + nval ys * 10 ^ k"
    by (simp only: low distrib_right mult.assoc)
  finally have "nval (take (len2 + Suc k) num1) = ?D * (W div ?D * 10 ^ k) + (nval ys * 10 ^ k + nval (take k rest))"
    by (simp only: take nval_append T(1) W_def add.assoc)
  then have "nval (take (len2 + Suc k) num1) div ?D = W div ?D * 10 ^ k + (nval ys * 10 ^ k + nval (take k rest)) div ?D"
    using D(3) by simp
  moreover have "nval (take (len2 + k) (ys @ rest)) = nval ys * 10 ^ k + nval (take k rest)"
    using ys(2) T(1) by (simp add: nval_append)
  ultimately show ?case
    using IH xs(5,6) unfolding loop by (simp add: nval_Cons)
qed

subsection \<open>Normalization\<close>

lemma one_mult_fits:
  assumes "digs xs" "0 \<le> digit" "digit \<le> 9" "nval xs * digit < 10 ^ length xs"
  shows "digs (fst (one_mult xs digit))" "nval (fst (one_mult xs digit)) = nval xs * digit" "length (fst (one_mult xs digit)) = length xs"
proof -
  obtain ds c where ds: "one_mult xs digit = (ds, c)" "nval (c # ds) = nval xs * digit" "digs (c # ds)" "length ds = length xs"
    using one_mult_val [OF assms(1-3)] by blast
  have "c = 0"
    using nval_head [OF ds(3)] ds(2,4) assms(4) by force
  then show "digs (fst (one_mult xs digit))" "nval (fst (one_mult xs digit)) = nval xs * digit" "length (fst (one_mult xs digit)) = length xs"
    using ds by (simp_all add: nval_Cons)
qed

text \<open>The factor that makes the divisor's first digit at least 5 without making the divisor longer.\<close>

lemma norm_factor:
  assumes "1 \<le> (d :: int)" "d \<le> 9"
  defines "nf \<equiv> 10 div (d + 1)"
  shows "1 \<le> nf" "nf \<le> 5" "nf * (d + 1) \<le> 10" "5 \<le> nf * d"
proof -
  have "d \<in> {1, 2, 3, 4, 5, 6, 7, 8, 9}"
    using assms(1,2) by auto
  then show "1 \<le> nf" "nf \<le> 5" "nf * (d + 1) \<le> 10" "5 \<le> nf * d"
    by (auto simp: nf_def)
qed

text \<open>The part of \<open>bc_divide\<close> that gives the digits of a quotient that is not known to be zero.\<close>

definition normalized :: "int \<Rightarrow> nat \<Rightarrow> int list \<Rightarrow> int list" where
  "normalized nf sz xs = (if nf \<noteq> 1 then fst (one_mult (take sz xs) nf) @ drop sz xs else xs)"

lemma normalized_val:
  assumes "digs xs" "sz \<le> length xs" "0 \<le> nf" "nf \<le> 9" "nval (take sz xs) * nf < 10 ^ sz"
  shows "digs (normalized nf sz xs)" "length (normalized nf sz xs) = length xs"
    "nval (take sz (normalized nf sz xs)) = nval (take sz xs) * nf" "drop sz (normalized nf sz xs) = drop sz xs"
proof -
  have "digs (take sz xs)" "length (take sz xs) = sz"
    using assms(1,2) digs_parts by simp_all
  note fits = one_mult_fits [OF this(1) assms(3,4), unfolded this(2), OF assms(5)]
  have "nf = 1 \<or> normalized nf sz xs = fst (one_mult (take sz xs) nf) @ drop sz xs"
    by (simp add: normalized_def)
  then show "digs (normalized nf sz xs)" "length (normalized nf sz xs) = length xs"
    "nval (take sz (normalized nf sz xs)) = nval (take sz xs) * nf" "drop sz (normalized nf sz xs) = drop sz xs"
    using assms(1,2) fits digs_parts(2) [OF assms(1), of sz] by (auto simp: normalized_def)
qed

lemma normalized_divisor:
  assumes "digs n2ptr" "length n2ptr = len2 + 1" "1 \<le> len2" "n2ptr ! len2 = 0" "n2ptr ! 0 \<noteq> 0"
  defines "nf \<equiv> 10 div (n2ptr ! 0 + 1)"
  shows "divisor_ok (normalized nf len2 n2ptr) len2"
    "nval (take len2 (normalized nf len2 n2ptr)) = nval (take len2 n2ptr) * nf" "1 \<le> nf" "nf \<le> 5"
    "10 ^ (len2 - 1) \<le> nval (take len2 n2ptr)"
proof -
  let ?d = "n2ptr ! 0" and ?n = "normalized nf len2 n2ptr" and ?P = "10 ^ (len2 - 1) :: int"
  have "0 \<le> ?d \<and> ?d \<le> 9"
    using digs_nth [OF assms(1), of 0] assms(2) by simp
  then have d: "1 \<le> ?d" "?d \<le> 9"
    using assms(5) by auto
  note nf = norm_factor [OF d, folded nf_def]
  show "1 \<le> nf" "nf \<le> 5"
    by (fact nf)+
  obtain xs where xs: "take len2 n2ptr = ?d # xs" "length xs = len2 - 1"
    using assms(2,3) by (cases n2ptr; cases len2) auto
  then have "digs xs"
    using digs_parts(1) [OF assms(1), of len2] by simp
  then have rest: "0 \<le> nval xs" "nval xs < ?P"
    using nval_nonneg nval_less [of xs] xs(2) by auto
  have val: "nval (take len2 n2ptr) = ?d * ?P + nval xs"
    using xs by (simp add: nval_Cons)
  have "1 * ?P \<le> ?d * ?P"
    using d by (intro mult_right_mono) auto
  then show "?P \<le> nval (take len2 n2ptr)"
    using rest val by linarith
  have "nval (take len2 n2ptr) * nf < (?d + 1) * ?P * nf"
    using rest nf(1) unfolding val by (intro mult_strict_right_mono) (auto simp: algebra_simps)
  also have "\<dots> = (nf * (?d + 1)) * ?P"
    by (simp add: mult.commute mult.left_commute)
  also have "\<dots> \<le> 10 * ?P"
    using nf(3) by (intro mult_right_mono) auto
  also have "\<dots> = 10 ^ len2"
    using assms(3) by (simp flip: power_Suc)
  finally have fits: "nval (take len2 n2ptr) * nf < 10 ^ len2" .
  have "len2 \<le> length n2ptr" "0 \<le> nf" "nf \<le> 9"
    using assms(2) nf(1,2) by simp_all
  note n = normalized_val [OF assms(1) this fits]
  show "nval (take len2 ?n) = nval (take len2 n2ptr) * nf"
    by (fact n(3))
  obtain y ys where ys: "take len2 ?n = y # ys" "length ys = len2 - 1" "y = ?n ! 0"
    using n(2) assms(2,3) by (cases ?n; cases len2) auto
  then have "digs (y # ys)"
    using digs_parts(1) [OF n(1), of len2] by simp
  then have "nval ys < ?P"
    using nval_less [of ys] ys(2) by simp
  have "5 * ?P \<le> (nf * ?d) * ?P"
    using nf(4) by (intro mult_right_mono) auto
  also have "\<dots> \<le> nval (take len2 n2ptr) * nf"
    using rest(1) nf(1) by (simp add: val algebra_simps)
  also have "\<dots> = y * ?P + nval ys"
    using n(3) by (simp add: ys(1) nval_Cons ys(2))
  also have "\<dots> < (y + 1) * ?P"
    using \<open>nval ys < ?P\<close> by (simp add: algebra_simps)
  finally have "5 \<le> y"
    by simp
  moreover have "?n ! len2 = 0"
    using n(2,4) assms(2,4) by (metis add.commute hd_drop_conv_nth less_add_one plus_1_eq_Suc)
  ultimately show "divisor_ok ?n len2"
    using n(1,2) assms(2,3) ys(3) by (simp add: divisor_ok_def)
qed

lemma zdiv_less:
  assumes "0 < (p :: int)" "a < b * p"
  shows "a div p < b"
proof -
  have "p * (a div p) \<le> a"
    using mult_div_mod_eq [of p a] pos_mod_sign [OF assms(1), of a] by linarith
  then have "p * (a div p) < p * b"
    using assms(2) by (simp add: mult.commute)
  then show ?thesis
    using assms(1) by simp
qed

text \<open>The digits of the quotient, from the dividend with its zero in front and the divisor with its zero behind.\<close>

definition quotient_digits :: "int list \<Rightarrow> nat \<Rightarrow> int list \<Rightarrow> nat \<Rightarrow> nat \<Rightarrow> int list" where
  "quotient_digits n2ptr len2 num1 size1 count =
     (let nf = 10 div (hd n2ptr + 1) in
      divide_loop (count + 1 - len2) (normalized nf len2 n2ptr) len2 (normalized nf size1 num1))"

lemma quotient_digits_val:
  assumes "digs n2ptr" "length n2ptr = len2 + 1" "1 \<le> len2" "n2ptr ! len2 = 0" "n2ptr ! 0 \<noteq> 0"
    and "digs num1" "length num1 = size1 + 1" "num1 ! 0 = 0" "len2 \<le> count" "count < size1"
  defines "qs \<equiv> quotient_digits n2ptr len2 num1 size1 count"
  shows "nval qs = nval (take (count + 1) num1) div nval (take len2 n2ptr)" "digs qs" "length qs = count + 1 - len2"
proof -
  define nf where "nf = 10 div (n2ptr ! 0 + 1)"
  define X D where "X = nval (take size1 num1)" and "D = nval (take len2 n2ptr)"
  define n num where "n = normalized nf len2 n2ptr" and "num = normalized nf size1 num1"
  note divisor = normalized_divisor [OF assms(1-5), folded nf_def D_def, folded n_def]
  have hd: "hd n2ptr = n2ptr ! 0"
    using assms(2) by (cases n2ptr) auto
  have "digs (take size1 num1)" "length (take size1 num1) = size1"
    using assms(6,7) digs_parts by simp_all
  moreover obtain xs where xs: "take size1 num1 = 0 # xs"
    using assms(7,8,10) by (cases num1; cases size1) auto
  ultimately have "X < 10 ^ (size1 - 1)" "0 \<le> X" "length xs = size1 - 1"
    using nval_less [of xs] nval_nonneg [of xs] by (auto simp: X_def nval_Cons)
  note X = this(1,2)
  have pos: "1 \<le> D" "1 \<le> D * nf"
    using divisor(3,5) order_trans [OF one_le_power [of "10 :: int" "len2 - 1"] divisor(5)]
      mult_mono [of 1 D 1 nf] by auto
  have "X * nf < 10 ^ (size1 - 1) * 10"
    using X divisor(3,4) mult_strict_mono [of X "10 ^ (size1 - 1)" nf 10] by simp
  then have fits: "X * nf < 10 ^ size1"
    using assms(10) by (cases size1) (simp_all add: mult.commute)
  have sz: "size1 \<le> length num1" "0 \<le> nf" "nf \<le> 9"
    using assms(7) divisor(3,4) by simp_all
  note num = normalized_val [OF assms(6) sz, folded X_def, OF fits, folded num_def]
  have part: "nval (take k num) = X * nf div 10 ^ (size1 - k)" if "k \<le> size1" for k
    using nval_take [of "take size1 num" k] digs_parts(1) [OF num(1), of size1] num(2,3) assms(7) that by (simp add: min_absorb2)
  have part1: "nval (take k num1) = X div 10 ^ (size1 - k)" if "k \<le> size1" for k
    using nval_take [of "take size1 num1" k] digs_parts(1) [OF assms(6), of size1] assms(7) that by (simp add: min_absorb2 X_def)
  have "(10 :: int) ^ (size1 - 1) = 10 ^ (len2 - 1) * 10 ^ (size1 - len2)"
    using assms(3,9,10) by (simp flip: power_add)
  moreover have "10 ^ (len2 - 1) * 10 ^ (size1 - len2) \<le> D * 10 ^ (size1 - len2)"
    using divisor(5) by (rule mult_right_mono) simp
  ultimately have "X < D * 10 ^ (size1 - len2)"
    using X(1) by linarith
  then have "X * nf < (D * nf) * 10 ^ (size1 - len2)"
    using divisor(3) mult_strict_right_mono [of X "D * 10 ^ (size1 - len2)" nf] by (simp add: mult.commute mult.left_commute)
  then have "X * nf div 10 ^ (size1 - len2) < D * nf"
    by (intro zdiv_less) simp_all
  then have start: "nval (take len2 num) < nval (take len2 n)"
    using part [of len2] assms(9,10) divisor(2) by simp
  have len: "len2 + (count + 1 - len2) + 1 \<le> length num" "len2 + (count + 1 - len2) = count + 1"
    using num(2) assms(7,9,10) by simp_all
  note loop = divide_loop_val [OF divisor(1) num(1) len(1) start, unfolded len(2)]
  have qs: "qs = divide_loop (count + 1 - len2) n len2 num"
    by (simp add: qs_def quotient_digits_def hd n_def num_def nf_def Let_def)
  show "digs qs" "length qs = count + 1 - len2"
    using loop by (simp_all only: qs)
  have "nval (take (count + 1) num) div (D * nf) = X * nf div 10 ^ (size1 - (count + 1)) div (D * nf)"
    using part assms(10) by simp
  also have "\<dots> = X * nf div ((10 ^ (size1 - (count + 1)) * D) * nf)"
    using pos(2) by (simp add: zdiv_zmult2_eq mult.assoc)
  also have "\<dots> = X div (10 ^ (size1 - (count + 1)) * D)"
    using divisor(3) by (intro div_mult_mult2) simp
  also have "\<dots> = X div 10 ^ (size1 - (count + 1)) div D"
    using pos(1) by (simp add: zdiv_zmult2_eq)
  also have "\<dots> = nval (take (count + 1) num1) div D"
    using part1 assms(10) by simp
  finally show "nval qs = nval (take (count + 1) num1) div nval (take len2 n2ptr)"
    using loop divisor(2) by (simp add: qs D_def)
qed

subsection \<open>The routine\<close>

lemma strip_scale_val:
  "\<exists>k. strip_scale s ds = s - k \<and> k \<le> s \<and> k \<le> length ds \<and> (\<forall>d \<in> set (take k ds). d = 0)"
proof (induction s ds rule: strip_scale.induct)
  case (1 s d ds)
  show ?case
  proof (cases "d = 0")
    case True
    then obtain k where "strip_scale s ds = s - k" "k \<le> s" "k \<le> length ds" "\<forall>d \<in> set (take k ds). d = 0"
      using 1 by blast
    with True show ?thesis
      by (intro exI [of _ "Suc k"]) simp
  qed (auto intro: exI [of _ 0])
qed (auto intro: exI [of _ 0])

lemma skip_first_val:
  "\<exists>x \<in> set ds. x \<noteq> 0 \<Longrightarrow> \<exists>k. skip_first len (ds @ es) = (len - k, drop k ds @ es) \<and> k < length ds \<and> (\<forall>d \<in> set (take k ds). d = 0) \<and> ds ! k \<noteq> 0"
proof (induction ds arbitrary: len)
  case (Cons d ds)
  show ?case
  proof (cases "d = 0")
    case True
    then have "\<exists>x \<in> set ds. x \<noteq> 0"
      using Cons.prems by simp
    from Cons.IH [OF this, of "len - 1"] obtain k where
      "skip_first (len - 1) (ds @ es) = (len - 1 - k, drop k ds @ es)" "k < length ds" "\<forall>d \<in> set (take k ds). d = 0" "ds ! k \<noteq> 0"
      by blast
    with True show ?thesis
      by (intro exI [of _ "Suc k"]) simp
  qed (auto intro: exI [of _ 0])
qed simp

text \<open>The divisor without the zeros at its ends.\<close>

lemma divisor_parts:
  assumes "num_ok n2" "\<not> bc_is_zero n2"
  defines "scale2 \<equiv> strip_scale (n_scale n2) (rev (num_digits n2))"
  obtains len2 n2ptr where "skip_first (n_len n2 + scale2) (take (n_len n2 + scale2) (n_value n2) @ [0]) = (len2, n2ptr)"
    "digs n2ptr" "length n2ptr = len2 + 1" "1 \<le> len2" "n2ptr ! len2 = 0" "n2ptr ! 0 \<noteq> 0"
    "abs_val n2 = of_int (nval (take len2 n2ptr)) / 10 ^ scale2" "0 < nval (take len2 n2ptr)"
proof -
  let ?ds = "num_digits n2" and ?V = "take (n_len n2 + scale2) (n_value n2)"
  note ds = num_digits_ok [OF assms(1)]
  obtain k where k: "scale2 = n_scale n2 - k" "k \<le> n_scale n2" "\<forall>d \<in> set (take k (rev ?ds)). d = 0"
    using strip_scale_val [of "n_scale n2" "rev ?ds"] by (auto simp: scale2_def)
  have V: "?V = take (length ?ds - k) ?ds" "length ?V = n_len n2 + scale2"
    using k(1,2) assms(1) by (auto simp: num_digits_def num_ok_def min_def)
  have digsV: "digs ?V"
    unfolding V(1) using ds(1) by (rule digs_parts)
  have "nval (drop (length ?ds - k) ?ds) = 0"
    using k(2,3) ds digs_parts(2) [OF ds(1)] by (subst nval_eq_0) (auto simp: take_rev)
  moreover have "?ds = ?V @ drop (length ?ds - k) ?ds"
    by (simp add: V(1))
  then have "nval ?ds = nval ?V * 10 ^ length (drop (length ?ds - k) ?ds) + nval (drop (length ?ds - k) ?ds)"
    using nval_append by metis
  moreover have "length (drop (length ?ds - k) ?ds) = k"
    using k(2) ds(2) by simp
  ultimately have mag: "mag n2 = nval ?V * 10 ^ k"
    by (simp only: mag_def)
  then have nonzero: "nval ?V \<noteq> 0"
    using assms(1,2) is_zero_mag by force
  then obtain j where j: "skip_first (n_len n2 + scale2) (?V @ [0]) = (n_len n2 + scale2 - j, drop j ?V @ [0])" "j < length ?V"
    "\<forall>d \<in> set (take j ?V). d = 0" "?V ! j \<noteq> 0"
    using skip_first_val [of ?V "n_len n2 + scale2" "[0]"] nval_eq_0 [OF digsV] by blast
  have "nval (take j ?V) = 0"
    using j(3) digs_parts(1) [OF digsV] by (subst nval_eq_0) auto
  then have val: "nval (drop j ?V) = nval ?V"
    using nval_append [of "take j ?V" "drop j ?V"] unfolding append_take_drop_id by simp
  have "(10 :: rat) ^ n_scale n2 = 10 ^ k * 10 ^ scale2"
    using k(1,2) by (simp flip: power_add)
  then have "abs_val n2 = of_int (nval ?V) / 10 ^ scale2"
    by (simp add: abs_val_def mag)
  moreover have "0 < nval ?V"
    using nonzero nval_nonneg [OF digsV] by simp
  ultimately show thesis
    using that [OF j(1)] j(2,4) V(2) digs_parts(2) [OF digsV, of j] val by (auto simp: nth_append Suc_le_eq)
qed

text \<open>The dividend: a zero in front, the digits, and the zeros behind.\<close>

lemma dividend_val:
  fixes n1 scale2 scale
  assumes "num_ok n1"
  defines "extra \<equiv> scale2 + scale - n_scale n1"
  defines "num1 \<equiv> 0 # num_digits n1 @ replicate (extra + 1) 0"
  shows "digs num1" "length num1 = n_len n1 + n_scale n1 + extra + 2" "num1 ! 0 = 0"
    "nval (take (n_len n1 + scale2 + scale + 1) num1) = \<lfloor>abs_val n1 * 10 ^ (scale2 + scale)\<rfloor>"
    "nval (take (n_len n1 + scale2 + scale + 1) num1) < 10 ^ (n_len n1 + scale2 + scale)"
proof -
  let ?ds = "num_digits n1" and ?m = "n_len n1 + scale2 + scale"
  note ds = num_digits_ok [OF assms(1)]
  show "digs num1" "length num1 = n_len n1 + n_scale n1 + extra + 2" "num1 ! 0 = 0"
    using ds by (auto simp: num1_def)
  have take: "take (?m + 1) num1 = 0 # take ?m (?ds @ replicate extra 0)"
    using ds(2) replicate_add [of extra 1 "0 :: int"] by (simp add: num1_def extra_def del: replicate_Suc)
  have "digs (?ds @ replicate extra 0)" "length (?ds @ replicate extra 0) = n_len n1 + n_scale n1 + extra" "?m \<le> n_len n1 + n_scale n1 + extra"
    using ds by (auto simp: extra_def)
  note padded = nval_take [OF this(1), unfolded this(2), OF this(3)] digs_parts(1) [OF this(1), of ?m] this
  show "nval (take (?m + 1) num1) < 10 ^ ?m"
    using nval_less [OF padded(2), unfolded length_take padded(4)] padded(5) unfolding take by (simp add: nval_Cons min_absorb2)
  have "nval (take (?m + 1) num1) = mag n1 * 10 ^ extra div 10 ^ (n_len n1 + n_scale n1 + extra - ?m)"
    using padded(1) unfolding take by (simp add: nval_Cons nval_append mag_def)
  also have "\<dots> = \<lfloor>of_int (mag n1 * 10 ^ extra) / of_int (10 ^ (n_len n1 + n_scale n1 + extra - ?m)) :: rat\<rfloor>"
    by (simp only: floor_divide_of_int_eq)
  also have "(of_int (mag n1 * 10 ^ extra) / of_int (10 ^ (n_len n1 + n_scale n1 + extra - ?m)) :: rat) = abs_val n1 * 10 ^ (scale2 + scale)"
  proof (cases "n_scale n1 \<le> scale2 + scale")
    case True
    then have "(10 :: rat) ^ (scale2 + scale) = 10 ^ n_scale n1 * 10 ^ extra"
      by (simp add: extra_def flip: power_add)
    then show ?thesis
      using True by (simp add: abs_val_def extra_def)
  next
    case False
    then have "(10 :: rat) ^ n_scale n1 = 10 ^ (scale2 + scale) * 10 ^ (n_len n1 + n_scale n1 + extra - ?m)"
      by (simp add: extra_def flip: power_add)
    then show ?thesis
      using False by (simp add: abs_val_def extra_def)
  qed
  finally show "nval (take (?m + 1) num1) = \<lfloor>abs_val n1 * 10 ^ (scale2 + scale)\<rfloor>" .
qed

lemma floor_div_int:
  assumes "0 < (d :: int)"
  shows "\<lfloor>x / of_int d :: rat\<rfloor> = \<lfloor>x\<rfloor> div d"
proof (rule floor_unique)
  let ?q = "\<lfloor>x\<rfloor> div d"
  have q: "\<lfloor>x\<rfloor> = d * ?q + \<lfloor>x\<rfloor> mod d" "0 \<le> \<lfloor>x\<rfloor> mod d" "\<lfloor>x\<rfloor> mod d < d"
    using assms by simp_all
  then have "?q * d \<le> \<lfloor>x\<rfloor>"
    using mult.commute [of d ?q] by linarith
  then have "of_int (?q * d) \<le> x"
    by (simp only: le_floor_iff)
  then show "of_int ?q \<le> x / of_int d"
    using assms by (simp add: pos_le_divide_eq)
  have "\<lfloor>x\<rfloor> < (?q + 1) * d"
    using q mult.commute [of d ?q] unfolding distrib_right by linarith
  then have "x < of_int ((?q + 1) * d)"
    by (simp only: floor_less_iff)
  then show "x / of_int d < of_int ?q + 1"
    using assms by (simp add: pos_divide_less_eq)
qed

lemma finish_quotient:
  assumes "num_ok q" and "1 \<le> n_len q"
  defines "r \<equiv> rm_leading_zeros (if bc_is_zero q then q\<lparr>n_sign := PLUS\<rparr> else q)"
  shows "num_val r = num_val q" "normal r" "zero_plus r" "n_scale r = n_scale q"
proof -
  let ?p = "if bc_is_zero q then q\<lparr>n_sign := PLUS\<rparr> else q"
  have p: "num_ok ?p" "1 \<le> n_len ?p" "num_val ?p = num_val q" "n_scale ?p = n_scale q" "zero_plus ?p"
    using assms(1,2) is_zero_val [OF assms(1)] by (auto simp: zero_plus_def num_val_def sign_val_def split: if_splits)
  note r = rm_leading_zeros_ok [OF p(1), folded r_def]
  have val: "num_val r = num_val ?p" "n_sign r = n_sign ?p"
    using r by (simp_all add: num_val_def abs_val_def)
  then show "num_val r = num_val q" "normal r" "zero_plus r" "n_scale r = n_scale q"
    using r(3,6) p by (simp_all add: zero_plus_def)
qed

lemma bc_divide_val:
  fixes n1 n2 scale
  assumes "num_ok n1" "num_ok n2" "\<not> bc_is_zero n2"
  shows "\<exists>q. bc_divide n1 n2 scale = Some q \<and> num_val q = cut (num_val n1 / num_val n2) scale \<and> n_scale q = scale \<and> normal q \<and> zero_plus q"
proof -
  define scale2 where "scale2 = strip_scale (n_scale n2) (rev (num_digits n2))"
  obtain len2 n2ptr where n2: "skip_first (n_len n2 + scale2) (take (n_len n2 + scale2) (n_value n2) @ [0]) = (len2, n2ptr)"
    "digs n2ptr" "length n2ptr = len2 + 1" "1 \<le> len2" "n2ptr ! len2 = 0" "n2ptr ! 0 \<noteq> 0"
    "abs_val n2 = of_int (nval (take len2 n2ptr)) / 10 ^ scale2" "0 < nval (take len2 n2ptr)"
    using divisor_parts [OF assms(2,3)] unfolding scale2_def by blast
  define extra where "extra = scale2 + scale - n_scale n1"
  define num1 where "num1 = 0 # num_digits n1 @ replicate (extra + 1) 0"
  note num1 = dividend_val [OF assms(1), of scale2 scale, folded extra_def, folded num1_def]
  define len1 where "len1 = n_len n1 + scale2"
  define count where "count = len1 + scale"
  define size1 where "size1 = n_len n1 + n_scale n1 + extra + 1"
  define D where "D = nval (take len2 n2ptr)"
  define qdigits where "qdigits = (if len2 > len1 + scale \<or> len2 > len1 then scale + 1 else len1 - len2 + scale + 1)"
  define ds where "ds = (if len2 > len1 + scale then replicate qdigits 0 else
     replicate (if len2 > len1 then len2 - len1 else 0) 0 @ quotient_digits n2ptr len2 num1 size1 count)"
  define s where "s = (if n_sign n1 = n_sign n2 then PLUS else MINUS)"
  define qval where "qval = \<lparr>n_sign = s, n_len = qdigits - scale, n_scale = scale, n_value = ds\<rparr>"
  have ds: "nval ds = \<lfloor>abs_val n1 * 10 ^ (scale2 + scale)\<rfloor> div D \<and> digs ds \<and> length ds = qdigits"
  proof (cases "len2 > len1 + scale")
    case True
    have "nval (take (count + 1) num1) < 10 ^ (len1 + scale)"
      using num1(5) by (simp add: count_def len1_def)
    also have "(10 :: int) ^ (len1 + scale) \<le> 10 ^ (len2 - 1)"
      using True by (intro power_increasing) auto
    also have "\<dots> \<le> D"
      using normalized_divisor(5) [OF n2(2-6)] by (simp add: D_def)
    finally have "\<lfloor>abs_val n1 * 10 ^ (scale2 + scale)\<rfloor> < D"
      using num1(4) by (simp add: count_def len1_def)
    moreover have "0 \<le> \<lfloor>abs_val n1 * 10 ^ (scale2 + scale)\<rfloor>"
      using abs_val_nonneg [OF assms(1)] by simp
    ultimately show ?thesis
      using True by (auto simp: ds_def div_pos_pos_trivial)
  next
    case False
    have "length num1 = size1 + 1" "len2 \<le> count" "count < size1"
      using num1(2) False by (simp_all add: size1_def count_def len1_def extra_def)
    note qs = quotient_digits_val [OF n2(2-6) num1(1) this(1) num1(3) this(2,3)]
    have "take (count + 1) num1 = take (n_len n1 + scale2 + scale + 1) num1"
      by (simp add: count_def len1_def)
    then show ?thesis
      using False qs num1(4) by (auto simp: ds_def nval_append D_def qdigits_def count_def)
  qed
  have q: "num_ok qval" "1 \<le> n_len qval" "mag qval = \<lfloor>abs_val n1 * 10 ^ (scale2 + scale)\<rfloor> div D"
  proof -
    have "scale + 1 \<le> qdigits"
      by (auto simp: qdigits_def)
    then show "num_ok qval" "1 \<le> n_len qval" "mag qval = \<lfloor>abs_val n1 * 10 ^ (scale2 + scale)\<rfloor> div D"
      using ds by (simp_all add: qval_def num_ok_def mag_def num_digits_def)
  qed
  have sizes: "nat (int len1 + (int (n_scale n1) - int scale2) + int extra + 1) = size1"
    "(if int (n_scale n1) - int scale2 < int scale then nat (int scale - (int (n_scale n1) - int scale2)) else 0) = extra"
    by (auto simp: len1_def size1_def extra_def)
  have run: "bc_divide n1 n2 scale = Some (rm_leading_zeros (if bc_is_zero qval then qval\<lparr>n_sign := PLUS\<rparr> else qval))"
    unfolding bc_divide_def Let_def scale2_def [symmetric] n2(1) prod.case sizes(2) len1_def [symmetric] sizes(1) num1_def [symmetric]
    using assms(3) by (simp only: if_False qval_def ds_def qdigits_def s_def quotient_digits_def normalized_def count_def Let_def)
  have "abs_val n1 / abs_val n2 * 10 ^ scale = abs_val n1 * 10 ^ (scale2 + scale) / of_int D"
    by (simp add: n2(7) D_def power_add)
  then have "\<lfloor>abs_val n1 / abs_val n2 * 10 ^ scale\<rfloor> = mag qval"
    using n2(8) by (simp add: D_def floor_div_int q(3))
  moreover have "num_val n1 / num_val n2 = sign_val s * (abs_val n1 / abs_val n2)"
    by (cases "n_sign n1"; cases "n_sign n2") (simp_all add: num_val_def s_def sign_val_def)
  moreover have "0 \<le> abs_val n1 / abs_val n2"
    using abs_val_nonneg assms(1,2) by simp
  moreover have "num_val qval = sign_val s * (of_int (mag qval) / 10 ^ scale)"
    unfolding num_val_def abs_val_def by (simp add: qval_def)
  ultimately have "num_val qval = cut (num_val n1 / num_val n2) scale"
    by (simp only: cut_sign_val)
  moreover note finish_quotient [OF q(1,2)]
  ultimately show ?thesis
    using run by (auto simp: qval_def)
qed

text \<open>
  C4. \<open>bc_divide\<close> (lib/number.c) refuses a zero divisor, and divides by any other number exactly, cut off after
  \<open>scale\<close> decimals: the quotient has no superfluous zeros in front and is never a negative zero. So every guessed
  digit of Knuth's method, with its two tests in unsigned arithmetic, is right after the step that adds the divisor back.
\<close>

theorem bc_divide_truncates:
  assumes "normal n1" and "normal n2"
  shows "(bc_divide n1 n2 scale = None \<longleftrightarrow> num_val n2 = 0) \<and>
    (\<forall>q. bc_divide n1 n2 scale = Some q \<longrightarrow>
      num_val q = cut (num_val n1 / num_val n2) scale \<and> n_scale q = scale \<and> normal q \<and> zero_plus q)"
proof (cases "bc_is_zero n2")
  case True
  then show ?thesis
    using is_zero_val [OF numbers_ok [OF assms(2)]] by (simp add: bc_divide_def)
next
  case False
  then have "num_val n2 \<noteq> 0"
    using is_zero_val [OF numbers_ok [OF assms(2)]] by simp
  then show ?thesis
    using bc_divide_val [OF numbers_ok numbers_ok, OF assms False, of scale] by auto
qed

text \<open>200 divided by -3 with two decimals.\<close>

theorem bc_divide_truncates_witness:
  "\<exists>q. bc_divide \<lparr>n_sign = PLUS, n_len = 3, n_scale = 0, n_value = [2, 0, 0]\<rparr>
     \<lparr>n_sign = MINUS, n_len = 1, n_scale = 0, n_value = [3]\<rparr> 2 = Some q \<and> num_val q = - 66.66"
proof -
  let ?a = "\<lparr>n_sign = PLUS, n_len = 3, n_scale = 0, n_value = [2, 0, 0]\<rparr>"
  let ?b = "\<lparr>n_sign = MINUS, n_len = 1, n_scale = 0, n_value = [3]\<rparr>"
  have "normal ?a" "normal ?b"
    by (simp_all add: normal_def num_ok_def)
  moreover have "num_val ?a = 200" "num_val ?b = - 3"
    by (simp_all add: num_val_def sign_val_def abs_val_def mag_def num_digits_def nval_Cons)
  moreover have "cut (- (200 / 3)) 2 = - 66.66"
    by (simp add: cut_def floor_eq_iff)
  ultimately show ?thesis
    using bc_divide_truncates [of ?a ?b 2] by auto
qed

end
