(* ===== verification/Number_Arith.thy ===== *)
theory Number_Arith
  imports Number_Mul Number_Div "HOL-Library.Signed_Division"
begin

text \<open>
  The rest of the arithmetic (lib/number.c of bc): conversion from and to machine integers, remainders, powers, powers
  reduced by a modulus, square roots.

  \<open>int\<close> and \<open>long\<close> have 32 bits. \<open>LONG_MAX\<close> is an argument of the functions that use it: the source includes no
  header that has to define it, and number.h then sets it to \<open>number_h_long_max\<close>, which is less than the largest \<open>long\<close>.

  Functions whose loops need not end are \<open>partial_function\<close>s: their \<open>None\<close> stands for that, and for the failures of the
  functions they call (a zero divisor that the source has excluded before, a failed assertion). The return value -1 or 0
  for an error is a \<open>None\<close> inside.
\<close>

definition wrap32 :: "int \<Rightarrow> int" where
  "wrap32 x = (x + 2 ^ 31) mod 2 ^ 32 - 2 ^ 31"

definition number_h_long_max :: int where
  "number_h_long_max = 0x7ffffff"

subsection \<open>Machine integers\<close>

fun num2long_loop :: "int \<Rightarrow> nat \<Rightarrow> int list \<Rightarrow> int \<Rightarrow> nat \<times> int" where
  "num2long_loop LONG_MAX (Suc index) (d # ds) val =
     (if val \<le> LONG_MAX div BASE then num2long_loop LONG_MAX index ds (wrap32 (val * BASE + d)) else (Suc index, val))"
| "num2long_loop LONG_MAX index ds val = (index, val)"

definition bc_num2long :: "int \<Rightarrow> bc_num \<Rightarrow> int" where
  "bc_num2long LONG_MAX num =
     (let (index, val) = num2long_loop LONG_MAX (n_len num) (n_value num) 0;
          val = (if index > 0 then 0 else val);
          val = (if val < 0 then 0 else val) in
      if n_sign num = PLUS then val else wrap32 (- val))"

text \<open>The digits of the buffer in \<open>bc_int2num\<close>, the last one first, with the division of C.\<close>

function int_digits :: "int \<Rightarrow> int list" where
  "int_digits val = val smod BASE # (if val sdiv BASE \<noteq> 0 then int_digits (val sdiv BASE) else [])"
  by auto
termination
  by (relation "measure (\<lambda>val. nat \<bar>val\<bar>)") (auto simp: signed_divide_int_def abs_mult sgn_if split: if_splits)

declare int_digits.simps [simp del]

definition bc_int2num :: "int \<Rightarrow> bc_num" where
  "bc_int2num val =
     (let neg = (val < 0); val = (if neg then wrap32 (- val) else val); buffer = int_digits val in
      \<lparr>n_sign = (if neg then MINUS else PLUS), n_len = length buffer, n_scale = 0, n_value = rev buffer\<rparr>)"

subsection \<open>Remainders\<close>

text \<open>The quotient and the remainder.\<close>

definition bc_divmod :: "bc_num \<Rightarrow> bc_num \<Rightarrow> nat \<Rightarrow> (bc_num \<times> bc_num) option" where
  "bc_divmod num1 num2 scale =
     (if bc_is_zero num2 then None
      else
        (let rscale = max (n_scale num1) (n_scale num2 + scale) in
         Option.bind (bc_divide num1 num2 scale) (\<lambda>quotient.
         Option.bind (bc_multiply quotient num2 rscale) (\<lambda>temp.
         Some (quotient, bc_sub num1 temp rscale)))))"

definition bc_modulo :: "bc_num \<Rightarrow> bc_num \<Rightarrow> nat \<Rightarrow> bc_num option" where
  "bc_modulo num1 num2 scale = map_option snd (bc_divmod num1 num2 scale)"

subsection \<open>Powers reduced by a modulus\<close>

partial_function (option) raisemod_loop ::
    "bc_num \<Rightarrow> nat \<Rightarrow> nat \<Rightarrow> bc_num \<Rightarrow> bc_num \<Rightarrow> bc_num \<Rightarrow> bc_num option" where
  [code]: "raisemod_loop modulus scale rscale exponent pow temp =
     (if bc_is_zero exponent then Some temp
      else
        Option.bind (bc_divmod exponent num_two 0) (\<lambda>qr.
        Option.bind
          (if \<not> bc_is_zero (snd qr) then Option.bind (bc_multiply temp pow rscale) (\<lambda>t. bc_modulo t modulus scale)
           else Some temp) (\<lambda>temp.
        Option.bind (bc_multiply pow pow rscale) (\<lambda>p.
        Option.bind (bc_modulo p modulus scale) (\<lambda>pow.
        raisemod_loop modulus scale rscale (fst qr) pow temp)))))"

text \<open>The result of \<open>bc_raisemod\<close> and the warnings it gives; \<open>Some None\<close> is the return value -1.\<close>

definition bc_raisemod :: "bc_num \<Rightarrow> bc_num \<Rightarrow> bc_num \<Rightarrow> nat \<Rightarrow> (bc_num \<times> string list) option option" where
  "bc_raisemod base expo modulus scale =
     (if bc_is_zero modulus \<or> bc_is_neg expo then Some None
      else
        (let warnings =
            (if n_scale base \<noteq> 0 then [''non-zero scale in base''] else []) @
            (if n_scale expo \<noteq> 0 then [''non-zero scale in exponent''] else []) @
            (if n_scale modulus \<noteq> 0 then [''non-zero scale in modulus''] else []) in
         Option.bind (if n_scale expo \<noteq> 0 then bc_divide expo num_one 0 else Some expo) (\<lambda>exponent.
         Option.bind (raisemod_loop modulus scale (max scale (n_scale base)) exponent base num_one) (\<lambda>temp.
         Some (Some (temp, warnings))))))"

subsection \<open>Powers\<close>

text \<open>The loop over the zeros at the end of the exponent: the scale, the power and the exponent after it.\<close>

partial_function (option) raise_squares :: "int \<Rightarrow> nat \<Rightarrow> bc_num \<Rightarrow> (int \<times> nat \<times> bc_num) option" where
  [code]: "raise_squares exponent pwrscale pow =
     (if exponent mod 2 = 0 then
        Option.bind (bc_multiply pow pow (2 * pwrscale)) (\<lambda>pow. raise_squares (exponent div 2) (2 * pwrscale) pow)
      else Some (exponent, pwrscale, pow))"

partial_function (option) raise_loop :: "int \<Rightarrow> nat \<Rightarrow> bc_num \<Rightarrow> nat \<Rightarrow> bc_num \<Rightarrow> bc_num option" where
  [code]: "raise_loop exponent pwrscale pow calcscale temp =
     (if exponent > 0 then
        Option.bind (bc_multiply pow pow (2 * pwrscale)) (\<lambda>pow.
        if exponent mod 2 = 1 then
          Option.bind (bc_multiply temp pow (2 * pwrscale + calcscale)) (\<lambda>temp.
          raise_loop (exponent div 2) (2 * pwrscale) pow (2 * pwrscale + calcscale) temp)
        else raise_loop (exponent div 2) (2 * pwrscale) pow calcscale temp)
      else Some temp)"

text \<open>
  \<open>bc_raise\<close> gives the new value of \<open>result\<close> and its messages. The error message does not end the function; and when
  the division of one by the power fails, \<open>result\<close> keeps its value, \<open>old\<close>.
\<close>

definition bc_raise :: "int \<Rightarrow> bc_num \<Rightarrow> bc_num \<Rightarrow> bc_num \<Rightarrow> nat \<Rightarrow> (bc_num \<times> string list) option" where
  "bc_raise LONG_MAX num1 num2 old scale =
     (let exponent = bc_num2long LONG_MAX num2;
          messages =
            (if n_scale num2 \<noteq> 0 then [''non-zero scale in exponent''] else []) @
            (if exponent = 0 \<and> (n_len num2 > 1 \<or> hd (n_value num2) \<noteq> 0) then [''exponent too large in raise''] else []) in
      if exponent = 0 then Some (num_one, messages)
      else
        (let neg = (exponent < 0);
             exponent = (if neg then wrap32 (- exponent) else exponent);
             rscale = (if neg then scale else min (n_scale num1 * nat exponent) (max scale (n_scale num1))) in
         Option.bind (raise_squares exponent (n_scale num1) num1) (\<lambda>(exponent, pwrscale, pow).
         Option.bind (raise_loop (exponent div 2) pwrscale pow pwrscale pow) (\<lambda>temp.
         Some
           (if neg then (case bc_divide num_one temp rscale of None \<Rightarrow> old | Some q \<Rightarrow> q)
            else if n_scale temp > rscale then temp\<lparr>n_scale := rscale\<rparr> else temp, messages)))))"

subsection \<open>Square roots\<close>

definition point5 :: bc_num where
  "point5 = (bc_new_num 1 1)\<lparr>n_value := [0, 5]\<rparr>"

partial_function (option) sqrt_loop :: "bc_num \<Rightarrow> nat \<Rightarrow> nat \<Rightarrow> bc_num \<Rightarrow> bc_num option" where
  [code]: "sqrt_loop num rscale cscale guess1 =
     Option.bind (bc_divide num guess1 cscale) (\<lambda>guess.
     Option.bind (bc_multiply (bc_add guess guess1 0) point5 cscale) (\<lambda>guess.
     if bc_is_near_zero (bc_sub guess guess1 (cscale + 1)) cscale then
       if cscale < rscale + 1 then sqrt_loop num rscale (min (cscale * 3) (rscale + 1)) guess else Some guess
     else sqrt_loop num rscale cscale guess))"

text \<open>The first guess and the first scale, and the messages of \<open>bc_raise\<close>.\<close>

definition first_guess :: "int \<Rightarrow> bc_num \<Rightarrow> int \<Rightarrow> (bc_num \<times> nat \<times> string list) option" where
  "first_guess LONG_MAX num cmp_res =
     (if cmp_res < 0 then Some (num_one, n_scale num, [])
      else
        Option.bind (bc_multiply (bc_int2num (int (n_len num))) point5 0) (\<lambda>guess1.
        map_option (\<lambda>(guess, messages). (guess, 3, messages))
          (bc_raise LONG_MAX (bc_int2num 10) (guess1\<lparr>n_scale := 0\<rparr>) (bc_int2num 10) 0)))"

text \<open>The new value of the number; \<open>Some None\<close> is the return value 0.\<close>

definition bc_sqrt :: "int \<Rightarrow> bc_num \<Rightarrow> nat \<Rightarrow> (bc_num \<times> string list) option option" where
  "bc_sqrt LONG_MAX num scale =
     (if bc_compare num num_zero < 0 then Some None
      else if bc_compare num num_zero = 0 then Some (Some (num_zero, []))
      else if bc_compare num num_one = 0 then Some (Some (num_one, []))
      else
        (let rscale = max scale (n_scale num) in
         Option.bind (first_guess LONG_MAX num (bc_compare num num_one)) (\<lambda>(guess, cscale, messages).
         Option.bind (sqrt_loop num rscale cscale guess) (\<lambda>guess.
         Option.bind (bc_divide guess num_one rscale) (\<lambda>num.
         Some (Some (num, messages)))))))"

end
