(* ===== verification/Number_Arith_Correct.thy ===== *)
theory Number_Arith_Correct
  imports Number_Arith Number_Mul_Correct Number_Div_Correct
begin

text \<open>
  Machine integers, remainders and powers: what the functions of \<open>Number_Arith\<close> compute, as rationals and integers.
\<close>

subsection \<open>Well-formed numbers\<close>

lemma num_val_scaled: "num_ok n \<Longrightarrow> \<exists>i. num_val n * 10 ^ n_scale n = of_int i"
  by (intro exI [of _ "(if n_sign n = MINUS then - 1 else 1) * mag n"]) (simp add: num_val_def abs_val_def sign_val_def)

lemma cut_exact:
  assumes "x * 10 ^ s = of_int i"
  shows "cut x s = x"
proof -
  have int: "\<bar>x\<bar> * 10 ^ s = of_int \<bar>i\<bar>"
    using arg_cong [OF assms, of abs] by (simp add: abs_mult)
  then have "\<lfloor>\<bar>x\<bar> * 10 ^ s\<rfloor> = \<bar>i\<bar>"
    by (simp only: floor_of_int)
  then have "cut x s = sgn x * (\<bar>x\<bar> * 10 ^ s / 10 ^ s)"
    by (simp only: cut_def int)
  then show ?thesis
    by (simp add: sgn_mult_abs)
qed

lemma bc_multiply_exact:
  assumes "good n1" "good n2" "n_scale n1 + n_scale n2 \<le> scale"
  shows "\<exists>p. bc_multiply n1 n2 scale = Some p \<and> num_val p = num_val n1 * num_val n2 \<and> n_scale p = n_scale n1 + n_scale n2 \<and> good p"
proof -
  let ?s = "n_scale n1 + n_scale n2"
  obtain i j where "num_val n1 * 10 ^ n_scale n1 = of_int i" "num_val n2 * 10 ^ n_scale n2 = of_int j"
    using num_val_scaled goodD assms(1,2) by meson
  then have "num_val n1 * num_val n2 * 10 ^ ?s = of_int (i * j)"
    unfolding of_int_mult by (metis (no_types, lifting) mult.assoc mult.left_commute power_add)
  note cut = cut_exact [OF this]
  have "min ?s (max scale (max (n_scale n1) (n_scale n2))) = ?s"
    using assms(3) by simp
  then show ?thesis
    using bc_multiply_val [OF goodD(2) [OF assms(1)] goodD(2) [OF assms(2)], of scale] cut by (auto simp: good_def)
qed

lemma subtracted_zero_plus:
  assumes "normal n1" "normal n2"
  shows "zero_plus (subtracted n1 n2 m)"
proof (unfold zero_plus_def, rule impI)
  assume "num_val (subtracted n1 n2 m) = 0"
  then have "abs_val n1 = abs_val n2"
    using subtracted_val(1) [OF normal_slim normal_slim, OF assms, of m] by (auto simp: sign_val_def split: if_splits)
  then show "n_sign (subtracted n1 n2 m) = PLUS"
    using do_compare_normal [OF assms] by (simp add: subtracted_def)
qed

lemma added_zero_plus:
  assumes "good n1" "good n2"
  shows "zero_plus ((do_add n1 n2 m)\<lparr>n_sign := n_sign n1\<rparr>)"
proof (cases "n_sign n1")
  case MINUS
  then have "0 < abs_val n1" "0 \<le> abs_val n2"
    using good_minus [OF assms(1)] abs_val_nonneg [OF goodD(2)] assms by (auto simp: order_less_le)
  then show ?thesis
    using do_add_val(1) [OF goodD(2,2), OF assms, of m] MINUS by (simp add: zero_plus_def num_val_sign sign_val_def)
qed (simp add: zero_plus_def)

lemma bc_add_good:
  assumes "good n1" "good n2"
  shows "good (bc_add n1 n2 m)" "good (bc_sub n1 n2 m)"
proof -
  note sums = bc_add_val [OF goodD(1,1), OF assms, of m] bc_sub_val [OF goodD(1,1), OF assms, of m]
  note zeros = subtracted_zero_plus [OF goodD(1,1), OF assms, of m] added_zero_plus [OF assms, of m]
  show "good (bc_add n1 n2 m)" "good (bc_sub n1 n2 m)"
    using sums zeros by (cases "n_sign n1 = n_sign n2"; simp add: good_def add_sub_cases)+
qed

subsection \<open>Machine integers\<close>

lemma wrap32_id: "- (2 ^ 31) \<le> x \<Longrightarrow> x < 2 ^ 31 \<Longrightarrow> wrap32 x = x"
  by (simp add: wrap32_def)

text \<open>The loop stops before the last digit exactly when the number is too large.\<close>

lemma num2long_loop_val:
  "0 \<le> L \<Longrightarrow> L div 10 * 10 + 9 < 2 ^ 31 \<Longrightarrow> digs ds \<Longrightarrow> k \<le> length ds \<Longrightarrow> 0 \<le> val \<Longrightarrow> num2long_loop L k ds val = (i, v) \<Longrightarrow>
    (i = 0 \<longleftrightarrow> k = 0 \<or> (val * 10 ^ k + nval (take k ds)) div 10 \<le> L div 10) \<and>
    (i = 0 \<longrightarrow> v = val * 10 ^ k + nval (take k ds))"
proof (induction L k ds val rule: num2long_loop.induct)
  case (1 L k d ds val)
  let ?total = "val * 10 ^ Suc k + nval (take (Suc k) (d # ds))"
  have total: "?total = (val * 10 + d) * 10 ^ k + nval (take k ds)"
    using 1(5) by (simp add: nval_Cons min_absorb2 algebra_simps)
  have rest: "digs ds" "k \<le> length ds" "0 \<le> d" "d \<le> 9"
    using 1(4,5) by auto
  show ?case
  proof (cases "val \<le> L div 10")
    case True
    then have "0 \<le> val * 10 + d" "val * 10 + d < 2 ^ 31"
      using 1(3,6) rest(3,4) by linarith+
    then have wrap: "wrap32 (val * 10 + d) = val * 10 + d"
      by (intro wrap32_id) linarith+
    then have loop: "num2long_loop L k ds (val * 10 + d) = (i, v)"
      using True 1(7) by simp
    have "(val * 10 + d) div 10 = val"
      using rest(3,4) by simp
    then show ?thesis
      using 1(1) [OF True 1(2,3) rest(1,2), unfolded wrap, OF \<open>0 \<le> val * 10 + d\<close> loop] True
      unfolding total by (cases "k = 0") auto
  next
    case False
    have "0 \<le> nval (take (Suc k) (d # ds))" "val * 10 * 1 \<le> val * 10 * 10 ^ k"
      using nval_nonneg [OF digs_parts(1) [OF 1(4)]] 1(6) by (blast, intro mult_left_mono) auto
    then have "val * 10 \<le> ?total"
      by simp
    then have "val \<le> ?total div 10"
      by simp
    then show ?thesis
      using False 1(7) by auto
  qed
qed auto

lemma integer_part:
  assumes "num_ok n"
  shows "nval (take (n_len n) (n_value n)) = \<lfloor>abs_val n\<rfloor>" "digs (n_value n)" "n_len n \<le> length (n_value n)"
proof -
  show digits: "digs (n_value n)" "n_len n \<le> length (n_value n)"
    using assms by (simp_all add: num_ok_def)
  have "take (n_len n) (n_value n) = take (n_len n) (num_digits n)"
    by (simp add: num_digits_def)
  then have "nval (take (n_len n) (n_value n)) = mag n div 10 ^ n_scale n"
    using nval_take [OF num_digits_ok(1) [OF assms], of "n_len n"] num_digits_ok(2) [OF assms] by (simp add: mag_def)
  also have "\<dots> = \<lfloor>of_int (mag n) / of_int (10 ^ n_scale n) :: rat\<rfloor>"
    by (simp only: floor_divide_of_int_eq)
  finally show "nval (take (n_len n) (n_value n)) = \<lfloor>abs_val n\<rfloor>"
    by (simp add: abs_val_def)
qed

text \<open>
  C23. \<open>bc_num2long\<close> (lib/number.c) gives the integer part of a number with its sign, and 0 when the number without
  its last integer digit exceeds a tenth of \<open>LONG_MAX\<close>, provided that no product in its loop can overflow a \<open>long\<close> of 32 bits, as
  with the value of \<open>LONG_MAX\<close> in number.h.
\<close>

theorem bc_num2long_bounds:
  assumes "num_ok n" and "1 \<le> n_len n" and "0 \<le> LONG_MAX" and "LONG_MAX div 10 * 10 + 9 < 2 ^ 31"
  shows "bc_num2long LONG_MAX n =
    (if \<lfloor>abs_val n\<rfloor> div 10 \<le> LONG_MAX div 10 then (if n_sign n = MINUS then - \<lfloor>abs_val n\<rfloor> else \<lfloor>abs_val n\<rfloor>) else 0)"
proof -
  note part = integer_part [OF assms(1)]
  obtain i v where loop: "num2long_loop LONG_MAX (n_len n) (n_value n) 0 = (i, v)"
    by fastforce
  have "0 \<le> \<lfloor>abs_val n\<rfloor>"
    using abs_val_nonneg [OF assms(1)] by simp
  moreover have "(i = 0 \<longleftrightarrow> \<lfloor>abs_val n\<rfloor> div 10 \<le> LONG_MAX div 10) \<and> (i = 0 \<longrightarrow> v = \<lfloor>abs_val n\<rfloor>)"
    using num2long_loop_val [OF assms(3,4) part(2,3) order_refl loop] assms(2) by (simp add: part(1))
  moreover have "wrap32 (- \<lfloor>abs_val n\<rfloor>) = - \<lfloor>abs_val n\<rfloor>" if "\<lfloor>abs_val n\<rfloor> div 10 \<le> LONG_MAX div 10"
  proof (rule wrap32_id)
    have "\<lfloor>abs_val n\<rfloor> \<le> LONG_MAX div 10 * 10 + 9"
      using that by linarith
    then show "- (2 ^ 31) \<le> - \<lfloor>abs_val n\<rfloor>" "- \<lfloor>abs_val n\<rfloor> < 2 ^ 31"
      using assms(4) \<open>0 \<le> \<lfloor>abs_val n\<rfloor>\<close> by linarith+
  qed
  ultimately show ?thesis
    using loop wrap32_id [of 0] by (cases "n_sign n") (auto simp: bc_num2long_def)
qed

text \<open>The largest number that is accepted is a little more than the \<open>LONG_MAX\<close> of number.h.\<close>

theorem bc_num2long_bounds_witness:
  "bc_num2long number_h_long_max \<lparr>n_sign = MINUS, n_len = 9, n_scale = 1, n_value = [1, 3, 4, 2, 1, 7, 7, 2, 9, 5]\<rparr> = - 134217729"
proof -
  let ?n = "\<lparr>n_sign = MINUS, n_len = 9, n_scale = 1, n_value = [1, 3, 4, 2, 1, 7, 7, 2, 9, 5]\<rparr>"
  have "num_ok ?n" "1 \<le> n_len ?n" "0 \<le> number_h_long_max" "number_h_long_max div 10 * 10 + 9 < 2 ^ 31"
    by (simp_all add: num_ok_def number_h_long_max_def)
  moreover have "\<lfloor>abs_val ?n\<rfloor> = 134217729"
    by (simp add: abs_val_def mag_def num_digits_def nval_Cons floor_eq_iff)
  ultimately show ?thesis
    using bc_num2long_bounds [of ?n number_h_long_max] by (simp add: number_h_long_max_def)
qed

text \<open>With the largest \<open>long\<close> for \<open>LONG_MAX\<close> and products that wrap around, the test for negative values comes too late.\<close>

lemma num2long_overflow:
  "bc_num2long (2 ^ 31 - 1) \<lparr>n_sign = PLUS, n_len = 11, n_scale = 0, n_value = [2, 1, 4, 7, 4, 8, 3, 6, 4, 8, 1]\<rparr> = 1"
  by code_simp

lemma int_digits_val:
  "0 \<le> val \<Longrightarrow> lval (int_digits val) = val \<and> digs (int_digits val) \<and> int_digits val \<noteq> [] \<and>
    (1 < length (int_digits val) \<longrightarrow> last (int_digits val) \<noteq> 0)"
proof (induction val rule: int_digits.induct)
  case (1 val)
  have c: "val sdiv 10 = val div 10" "val smod 10 = val mod 10"
    using 1(2) by (simp_all add: signed_divide_int_def signed_modulo_int_def sgn_if)
  show ?case
  proof (cases "val div 10 = 0")
    case True
    then have "int_digits val = [val]"
      using 1(2) by (subst int_digits.simps) (simp add: c)
    then show ?thesis
      using True 1(2) by auto
  next
    case False
    then have digits: "int_digits val = val mod 10 # int_digits (val div 10)"
      by (subst int_digits.simps) (simp add: c)
    have IH: "lval (int_digits (val div 10)) = val div 10" "digs (int_digits (val div 10))" "int_digits (val div 10) \<noteq> []"
      "1 < length (int_digits (val div 10)) \<longrightarrow> last (int_digits (val div 10)) \<noteq> 0"
      using 1(1) [unfolded c] False 1(2) by auto
    then have "last (int_digits (val div 10)) \<noteq> 0"
      using False by (cases "int_digits (val div 10)") auto
    then show ?thesis
      using IH 1(2) by (simp add: digits)
  qed
qed

lemma bc_int2num_val:
  assumes "- (2 ^ 31) < val" "val < 2 ^ 31"
  shows "num_val (bc_int2num val) = of_int val" "good (bc_int2num val)" "n_scale (bc_int2num val) = 0" "n_sign (bc_int2num val) = (if val < 0 then MINUS else PLUS)"
    "abs_val (bc_int2num val) = of_int \<bar>val\<bar>"
proof -
  have wrap: "(if val < 0 then wrap32 (- val) else val) = \<bar>val\<bar>"
    using assms wrap32_id [of "- val"] by auto
  have digits: "lval (int_digits \<bar>val\<bar>) = \<bar>val\<bar>" "digs (int_digits \<bar>val\<bar>)" "int_digits \<bar>val\<bar> \<noteq> []"
    "1 < length (int_digits \<bar>val\<bar>) \<longrightarrow> last (int_digits \<bar>val\<bar>) \<noteq> 0"
    using int_digits_val [of "\<bar>val\<bar>"] by auto
  have num: "bc_int2num val = \<lparr>n_sign = (if val < 0 then MINUS else PLUS), n_len = length (int_digits \<bar>val\<bar>), n_scale = 0,
      n_value = rev (int_digits \<bar>val\<bar>)\<rparr>"
    by (simp add: bc_int2num_def Let_def wrap)
  show abs: "abs_val (bc_int2num val) = of_int \<bar>val\<bar>"
    using digits(1) by (simp add: num abs_val_def mag_def num_digits_def nval_def)
  show val: "num_val (bc_int2num val) = of_int val"
    by (simp add: num_val_def abs) (simp add: num sign_val_def)
  show sign: "n_scale (bc_int2num val) = 0" "n_sign (bc_int2num val) = (if val < 0 then MINUS else PLUS)"
    by (simp_all add: num)
  have "normal (bc_int2num val)"
    using digits by (auto simp: num normal_def num_ok_def hd_rev Suc_le_eq)
  then show "good (bc_int2num val)"
    using val sign(2) by (auto simp: good_def zero_plus_def)
qed

text \<open>
  A machine integer survives the translation to a number and back (\<open>bc_int2num\<close> and \<open>bc_num2long\<close> of lib/number.c), if
  it is small enough for \<open>bc_num2long\<close>; the number has the value of the integer.
\<close>

theorem int2num_num2long:
  assumes "0 \<le> LONG_MAX" and "LONG_MAX div 10 * 10 + 9 < 2 ^ 31" and "\<bar>val\<bar> div 10 \<le> LONG_MAX div 10"
  shows "num_val (bc_int2num val) = of_int val \<and> good (bc_int2num val) \<and> bc_num2long LONG_MAX (bc_int2num val) = val"
proof -
  have "\<bar>val\<bar> \<le> LONG_MAX div 10 * 10 + 9"
    using assms(3) by linarith
  then have "- (2 ^ 31) < val" "val < 2 ^ 31"
    using assms(2) by linarith+
  note val = bc_int2num_val [OF this]
  show ?thesis
    using bc_num2long_bounds [OF goodD(2) [OF val(2)] _ assms(1,2)] val assms(3) by (auto simp: good_def normal_def)
qed

theorem int2num_num2long_witness:
  "bc_num2long number_h_long_max (bc_int2num (- 70)) = - 70"
  using int2num_num2long [of number_h_long_max "- 70"] by (simp add: number_h_long_max_def)

subsection \<open>Remainders\<close>

lemma bc_divide_good:
  assumes "good n1" "good n2" "num_val n2 \<noteq> 0"
  shows "\<exists>q. bc_divide n1 n2 scale = Some q \<and> num_val q = cut (num_val n1 / num_val n2) scale \<and> n_scale q = scale \<and> good q"
  using bc_divide_val [OF goodD(2,2), OF assms(1,2), of scale] is_zero_val [OF goodD(2) [OF assms(2)]] assms(3) by (auto simp: good_def)

lemma bc_divmod_val:
  assumes "good n1" "good n2" "num_val n2 \<noteq> 0"
  shows "\<exists>q r. bc_divmod n1 n2 scale = Some (q, r) \<and> num_val q = cut (num_val n1 / num_val n2) scale \<and> n_scale q = scale \<and> good q \<and>
    num_val r = num_val n1 - num_val q * num_val n2 \<and> n_scale r = max (n_scale n1) (n_scale n2 + scale) \<and> good r"
proof -
  let ?rscale = "max (n_scale n1) (n_scale n2 + scale)"
  obtain q where q: "bc_divide n1 n2 scale = Some q" "num_val q = cut (num_val n1 / num_val n2) scale" "n_scale q = scale" "good q"
    using bc_divide_good [OF assms] by blast
  have "n_scale q + n_scale n2 \<le> ?rscale"
    using q(3) by simp
  from bc_multiply_exact [OF q(4) assms(2) this] obtain p where
    p: "bc_multiply q n2 ?rscale = Some p" "num_val p = num_val q * num_val n2" "n_scale p = scale + n_scale n2" "good p"
    unfolding q(3) by blast
  have "num_val (bc_sub n1 p ?rscale) = num_val n1 - num_val p" "n_scale (bc_sub n1 p ?rscale) = ?rscale"
    using bc_sub_val [OF goodD(1) [OF assms(1)] goodD(1) [OF p(4)], of ?rscale] p(3) by auto
  then show ?thesis
    using q p bc_add_good(2) [OF assms(1) p(4)] is_zero_val [OF goodD(2) [OF assms(2)]] assms(3) by (simp add: bc_divmod_def)
qed

lemma tremainder_small:
  assumes "num_val r = a - num_val q * b" "num_val q = cut (a / b) scale" "b \<noteq> 0"
  shows "\<bar>num_val r\<bar> < \<bar>b\<bar> / 10 ^ scale"
proof -
  have "num_val r = (a / b - num_val q) * b"
    using assms(1,3) by (simp add: left_diff_distrib)
  then have "\<bar>num_val r\<bar> = \<bar>a / b - num_val q\<bar> * \<bar>b\<bar>"
    by (simp add: abs_mult)
  also have "\<dots> < 1 / 10 ^ scale * \<bar>b\<bar>"
    unfolding assms(2) using cut_error(1) [of "a / b" scale] assms(3) by (intro mult_strict_right_mono) auto
  finally show ?thesis
    by simp
qed

lemma bc_modulo_good:
  assumes "good n1" "good n2" "num_val n2 \<noteq> 0"
  shows "\<exists>r. bc_modulo n1 n2 scale = Some r \<and> good r \<and> \<bar>num_val r\<bar> < \<bar>num_val n2\<bar> / 10 ^ scale"
  using bc_divmod_val [OF assms, of scale] tremainder_small assms(3) by (fastforce simp: bc_modulo_def)

text \<open>Division of integers with remainder, rounding toward zero.\<close>

definition trem :: "int \<Rightarrow> int \<Rightarrow> int" where
  "trem a m = sgn a * (\<bar>a\<bar> mod \<bar>m\<bar>)"

definition tquot :: "int \<Rightarrow> int \<Rightarrow> int" where
  "tquot a m = sgn a * sgn m * (\<bar>a\<bar> div \<bar>m\<bar>)"

lemma tquot_trem: "a = tquot a m * m + trem a m"
proof -
  have sgn: "sgn a * sgn m * q * m = sgn a * (\<bar>m\<bar> * q)" for q
    by (simp add: abs_sgn [of m] mult_ac)
  have "a = sgn a * \<bar>a\<bar>"
    by (simp add: sgn_mult_abs)
  also have "\<bar>a\<bar> = \<bar>m\<bar> * (\<bar>a\<bar> div \<bar>m\<bar>) + \<bar>a\<bar> mod \<bar>m\<bar>"
    by (simp only: mult_div_mod_eq)
  finally show ?thesis
    by (simp only: tquot_def trem_def sgn distrib_left)
qed

lemma trem_small: "m \<noteq> 0 \<Longrightarrow> \<bar>trem a m\<bar> < \<bar>m\<bar>"
  by (simp add: trem_def abs_mult sgn_if)

lemma trem_mult: "trem (trem a m * b) m = trem (a * b) m"
proof -
  have "\<bar>trem a m\<bar> = \<bar>a\<bar> mod \<bar>m\<bar>"
    by (cases "a = 0"; cases "m = 0") (simp_all add: trem_def abs_mult sgn_if)
  then have mod: "\<bar>trem a m * b\<bar> mod \<bar>m\<bar> = \<bar>a * b\<bar> mod \<bar>m\<bar>"
    by (simp add: abs_mult mod_mult_left_eq)
  show ?thesis
  proof (cases "trem a m = 0")
    case True
    then have "\<bar>a * b\<bar> mod \<bar>m\<bar> = 0"
      using mod by simp
    then show ?thesis
      by (simp only: True trem_def [of "a * b"]) (simp add: trem_def)
  next
    case False
    then have "0 < \<bar>a\<bar> mod \<bar>m\<bar>"
      using \<open>\<bar>trem a m\<bar> = \<bar>a\<bar> mod \<bar>m\<bar>\<close> by simp
    then have "sgn (trem a m) = sgn a"
      by (simp add: trem_def sgn_mult)
    then show ?thesis
      by (simp only: trem_def [of "trem a m * b"] trem_def [of "a * b"] mod sgn_mult)
  qed
qed

lemma cut_int_div: "cut (of_int a / of_int m) 0 = of_int (tquot a m)"
proof -
  have "\<lfloor>\<bar>of_int a / of_int m :: rat\<bar>\<rfloor> = \<bar>a\<bar> div \<bar>m\<bar>"
    using floor_divide_of_int_eq [of "\<bar>a\<bar>" "\<bar>m\<bar>", where 'a = rat] by simp
  moreover have "sgn (of_int a / of_int m :: rat) = of_int (sgn a * sgn m)"
    by (auto simp: sgn_if divide_less_0_iff zero_less_divide_iff)
  ultimately show ?thesis
    by (simp add: cut_def tquot_def)
qed

text \<open>Integers among the numbers.\<close>

definition int_num :: "bc_num \<Rightarrow> int \<Rightarrow> bool" where
  "int_num n i \<longleftrightarrow> good n \<and> n_scale n = 0 \<and> num_val n = of_int i"

lemma int_num_numerals [simp]: "int_num num_zero 0" "int_num num_one 1" "int_num num_two 2"
  by (simp_all add: int_num_def)

lemma int_num_zero: "int_num n i \<Longrightarrow> bc_is_zero n \<longleftrightarrow> i = 0"
  using is_zero_val [OF goodD(2)] by (auto simp: int_num_def)

lemma bc_divmod_int:
  assumes "int_num n1 a" "int_num n2 m" "m \<noteq> 0"
  shows "\<exists>q r. bc_divmod n1 n2 0 = Some (q, r) \<and> int_num q (tquot a m) \<and> int_num r (trem a m)"
proof -
  have n: "good n1" "good n2" "num_val n2 \<noteq> 0" "n_scale n1 = 0" "n_scale n2 = 0" "num_val n1 = of_int a" "num_val n2 = of_int m"
    using assms by (simp_all add: int_num_def)
  obtain q r where q: "bc_divmod n1 n2 0 = Some (q, r)" "num_val q = of_int (tquot a m)" "n_scale q = 0" "good q"
    "num_val r = of_int a - num_val q * of_int m" "n_scale r = 0" "good r"
    using bc_divmod_val [OF n(1-3), of 0] unfolding n(4-7) cut_int_div by auto
  have "of_int a - of_int (tquot a m) * of_int m = (of_int (trem a m) :: rat)"
    using tquot_trem [of a m] by (metis add_diff_cancel_left' of_int_diff of_int_mult)
  then show ?thesis
    using q by (simp add: int_num_def)
qed

lemma bc_modulo_int:
  "int_num n1 a \<Longrightarrow> int_num n2 m \<Longrightarrow> m \<noteq> 0 \<Longrightarrow> \<exists>r. bc_modulo n1 n2 0 = Some r \<and> int_num r (trem a m)"
  using bc_divmod_int [of n1 a n2 m] by (auto simp: bc_modulo_def)

lemma bc_multiply_int:
  "int_num n1 a \<Longrightarrow> int_num n2 b \<Longrightarrow> \<exists>p. bc_multiply n1 n2 0 = Some p \<and> int_num p (a * b)"
  using bc_multiply_exact [of n1 n2 0] by (auto simp: int_num_def)

text \<open>
  C22. \<open>bc_divmod\<close> (lib/number.c) refuses a zero divisor; otherwise dividend = quotient * divisor + remainder holds exactly, with the
  quotient of \<open>bc_divide\<close>, a remainder that is smaller than one unit in the last place of the quotient times the divisor,
  and that never has the sign opposite to the dividend's.
\<close>

theorem bc_divmod_exact:
  assumes "good n1" and "good n2"
  shows "(bc_divmod n1 n2 scale = None \<longleftrightarrow> num_val n2 = 0) \<and>
    (\<forall>q r. bc_divmod n1 n2 scale = Some (q, r) \<longrightarrow>
      num_val n1 = num_val q * num_val n2 + num_val r \<and> num_val q = cut (num_val n1 / num_val n2) scale \<and>
      \<bar>num_val r\<bar> < \<bar>num_val n2\<bar> / 10 ^ scale \<and> 0 \<le> num_val r * num_val n1 \<and> good q \<and> good r)"
proof (cases "num_val n2 = 0")
  case True
  then show ?thesis
    using is_zero_val [OF goodD(2) [OF assms(2)]] by (simp add: bc_divmod_def)
next
  case False
  let ?a = "num_val n1" and ?b = "num_val n2"
  obtain q r where q: "bc_divmod n1 n2 scale = Some (q, r)" "num_val q = cut (?a / ?b) scale" "good q"
    "num_val r = ?a - num_val q * ?b" "good r"
    using bc_divmod_val [OF assms False] by blast
  have small: "\<bar>num_val r\<bar> < \<bar>?b\<bar> / 10 ^ scale"
    using q(4,2) False by (rule tremainder_small)
  have "\<bar>num_val q * ?b\<bar> \<le> \<bar>?a\<bar>"
    using mult_right_mono [OF cut_error(2) [of "?a / ?b" scale], of "\<bar>?b\<bar>"] False by (simp add: q(2) abs_mult)
  then have "\<bar>num_val q * ?b\<bar> * \<bar>?a\<bar> \<le> \<bar>?a\<bar> * \<bar>?a\<bar>"
    by (rule mult_right_mono) simp
  moreover have "num_val q * ?b * ?a \<le> \<bar>num_val q * ?b\<bar> * \<bar>?a\<bar>"
    using abs_ge_self [of "num_val q * ?b * ?a"] by (simp only: abs_mult)
  ultimately have "num_val q * ?b * ?a \<le> ?a * ?a"
    by (simp only: abs_mult_self_eq)
  then have "0 \<le> num_val r * ?a"
    by (simp add: q(4) left_diff_distrib)
  then show ?thesis
    using q small False by simp
qed

text \<open>-7.5 by 2 with one decimal: -3.7 and the rest -0.1.\<close>

theorem bc_divmod_exact_witness:
  "\<exists>q r. bc_divmod \<lparr>n_sign = MINUS, n_len = 1, n_scale = 1, n_value = [7, 5]\<rparr> num_two 1 = Some (q, r) \<and>
     num_val q = - 3.7 \<and> num_val r = - 0.1"
proof -
  let ?a = "\<lparr>n_sign = MINUS, n_len = 1, n_scale = 1, n_value = [7, 5]\<rparr>"
  have a: "num_val ?a = - 7.5"
    by (simp add: num_val_def sign_val_def abs_val_def mag_def num_digits_def nval_Cons)
  then have "good ?a"
    by (simp add: good_def zero_plus_def normal_def num_ok_def)
  note exact = bc_divmod_exact [OF this good_numerals(3), of 1]
  then have "bc_divmod ?a num_two 1 \<noteq> None"
    by (simp del: not_None_eq)
  then obtain q r where run: "bc_divmod ?a num_two 1 = Some (q, r)"
    by (cases "bc_divmod ?a num_two 1") auto
  have cut: "cut (num_val ?a / num_val num_two) 1 = - 3.7"
    unfolding a by (simp add: cut_def floor_eq_iff)
  from run exact have exact: "num_val ?a = num_val q * num_val num_two + num_val r" "num_val q = cut (num_val ?a / num_val num_two) 1"
    by blast+
  have q: "num_val q = - 3.7"
    using exact(2) cut by (rule trans)
  moreover have "num_val r = num_val ?a - num_val q * num_val num_two"
    using exact(1) by (simp only: add_diff_cancel_left')
  then have "num_val r = - 0.1"
    unfolding a q by simp
  ultimately have "num_val q = - 3.7 \<and> num_val r = - 0.1" ..
  then show ?thesis
    using run by blast
qed

end
