(* ===== verification/Number_Power_Correct.thy ===== *)
theory Number_Power_Correct
  imports Number_Arith_Correct
begin

text \<open>
  Powers by repeated squaring: one locale for the steps that \<open>bc_raise\<close> and \<open>bc_raisemod\<close> have in common, and what the
  two functions compute.
\<close>

subsection \<open>Repeated squaring\<close>

text \<open>
  Numbers \<open>'n\<close> that denote values \<open>'v\<close>, and a multiplication that gives the product of the denoted values up to a reduction.
\<close>

locale reduced_product =
  fixes ok :: "'n \<Rightarrow> bool" and den :: "'n \<Rightarrow> 'v :: comm_monoid_mult" and mul :: "'n \<Rightarrow> 'n \<Rightarrow> 'n option" and red :: "'v \<Rightarrow> 'v"
  assumes mul_ok: "ok x \<Longrightarrow> ok y \<Longrightarrow> \<exists>z. mul x y = Some z \<and> ok z \<and> den z = red (den x * den y)"
    and red_mult: "red (red a * b) = red (a * b)"
begin

lemma red_power: "red (red a ^ k * b) = red (a ^ k * b)"
proof (induction k arbitrary: b)
  case (Suc k)
  have "red (red a ^ Suc k * b) = red (red a * (red a ^ k * b))"
    by (simp add: mult.assoc)
  also have "\<dots> = red (red a ^ k * (a * b))"
    unfolding red_mult by (simp add: ac_simps)
  also have "\<dots> = red (a ^ Suc k * b)"
    unfolding Suc.IH by (simp add: ac_simps)
  finally show ?case .
qed simp

lemma square_step:
  assumes "ok p"
  shows "\<exists>q. mul p p = Some q \<and> ok q \<and> (\<forall>k b. red (den q ^ k * b) = red (den p ^ (2 * k) * b))"
proof -
  obtain q where "mul p p = Some q" "ok q" "den q = red (den p * den p)"
    using mul_ok [OF assms assms] by blast
  then show ?thesis
    by (simp add: red_power power_mult power2_eq_square)
qed

text \<open>One turn for an odd exponent, before and after the squaring.\<close>

lemma odd_step:
  assumes "ok t" "ok p" "odd e"
  shows "\<exists>u. mul t p = Some u \<and> ok u \<and> red (den p ^ (2 * (e div 2)) * den u) = red (den p ^ e * den t) \<and> red (den u) = den u"
proof -
  obtain u where u: "mul t p = Some u" "ok u" "den u = red (den t * den p)"
    using mul_ok [OF assms(1,2)] by blast
  have "red (den p ^ (2 * (e div 2)) * den u) = red (den u * den p ^ (2 * (e div 2)))"
    by (simp only: mult.commute)
  also have "\<dots> = red (den t * den p * den p ^ (2 * (e div 2)))"
    by (simp only: u(3) red_mult)
  also have "den t * den p * den p ^ (2 * (e div 2)) = den p ^ Suc (2 * (e div 2)) * den t"
    by (simp only: power_Suc ac_simps)
  also have "Suc (2 * (e div 2)) = e"
    using assms(3) by simp
  finally have "red (den p ^ (2 * (e div 2)) * den u) = red (den p ^ e * den t)" .
  moreover have "red (den u) = den u"
    using red_mult [of "den t * den p" 1] by (simp add: u(3))
  ultimately show ?thesis
    using u(1,2) by blast
qed

text \<open>The whole turn: the result of the rest of the computation does not change.\<close>

lemma turn:
  assumes "ok t" "ok p"
  shows "\<exists>u q. (if odd e then mul t p else Some t) = Some u \<and> mul p p = Some q \<and> ok u \<and> ok q \<and>
    red (den q ^ (e div 2) * den u) = red (den p ^ e * den t) \<and> (odd e \<longrightarrow> red (den u) = den u)"
proof -
  obtain q where q: "mul p p = Some q" "ok q" "\<And>k b. red (den q ^ k * b) = red (den p ^ (2 * k) * b)"
    using square_step [OF assms(2)] by blast
  show ?thesis
  proof (cases "odd e")
    case True
    then show ?thesis
      using odd_step [OF assms True] q by auto
  next
    case False
    then show ?thesis
      using assms(1) q by simp
  qed
qed

end

subsection \<open>Powers reduced by a modulus\<close>

text \<open>The numbers that occur for an integer modulus, and their multiplication.\<close>

definition int_of :: "bc_num \<Rightarrow> int" where
  "int_of n = \<lfloor>num_val n\<rfloor>"

lemma int_num_int_of: "int_num n i \<Longrightarrow> int_of n = i"
  by (simp add: int_num_def int_of_def)

definition residue_ok :: "bc_num \<Rightarrow> bc_num \<Rightarrow> bool" where
  "residue_ok M n \<longleftrightarrow> int_num n (int_of n) \<and> int_num M (int_of M) \<and> int_of M \<noteq> 0"

definition residue_mul :: "bc_num \<Rightarrow> bc_num \<Rightarrow> bc_num \<Rightarrow> bc_num option" where
  "residue_mul M x y = Option.bind (bc_multiply x y 0) (\<lambda>t. bc_modulo t M 0)"

interpretation residues: reduced_product "residue_ok M" int_of "residue_mul M" "\<lambda>a. trem a (int_of M)" for M
proof
  fix x y
  assume "residue_ok M x" "residue_ok M y"
  then have ints: "int_num x (int_of x)" "int_num y (int_of y)" and M: "int_num M (int_of M)" "int_of M \<noteq> 0"
    by (simp_all add: residue_ok_def)
  obtain t where t: "bc_multiply x y 0 = Some t" "int_num t (int_of x * int_of y)"
    using bc_multiply_int [OF ints] by blast
  obtain z where z: "bc_modulo t M 0 = Some z" "int_num z (trem (int_of x * int_of y) (int_of M))"
    using bc_modulo_int [OF t(2) M] by blast
  from int_num_int_of [OF z(2)] z t M
  show "\<exists>z. residue_mul M x y = Some z \<and> residue_ok M z \<and> int_of z = trem (int_of x * int_of y) (int_of M)"
    by (simp add: residue_mul_def residue_ok_def)
qed (rule trem_mult)

lemma halve:
  assumes "int_num x (int e)"
  shows "\<exists>q r. bc_divmod x num_two 0 = Some (q, r) \<and> int_num q (int (e div 2)) \<and> (bc_is_zero r \<longleftrightarrow> even e)"
proof -
  have "tquot (int e) 2 = int (e div 2)" "trem (int e) 2 = int (e mod 2)"
    by (simp_all add: tquot_def trem_def sgn_if zdiv_int zmod_int)
  then show ?thesis
    using bc_divmod_int [OF assms int_num_numerals(3)] int_num_zero by (fastforce simp: even_iff_mod_2_eq_zero)
qed

lemma raisemod_loop_val:
  "residue_ok M t \<Longrightarrow> residue_ok M p \<Longrightarrow> int_num x (int e) \<Longrightarrow> 0 < e \<Longrightarrow>
    \<exists>u. raisemod_loop M 0 0 x p t = Some u \<and> residue_ok M u \<and> int_of u = trem (int_of p ^ e * int_of t) (int_of M)"
proof (induction e arbitrary: t p x rule: less_induct)
  case (less e)
  obtain q r where q: "bc_divmod x num_two 0 = Some (q, r)" "int_num q (int (e div 2))" "bc_is_zero r \<longleftrightarrow> even e"
    using halve [OF less.prems(3)] by blast
  obtain u p' where u: "(if odd e then residue_mul M t p else Some t) = Some u" "residue_mul M p p = Some p'" "residue_ok M u" "residue_ok M p'"
    "trem (int_of p' ^ (e div 2) * int_of u) (int_of M) = trem (int_of p ^ e * int_of t) (int_of M)"
    "odd e \<Longrightarrow> trem (int_of u) (int_of M) = int_of u"
    using residues.turn [OF less.prems(1,2), of e] by blast
  have "\<not> bc_is_zero x"
    using int_num_zero [OF less.prems(3)] less.prems(4) by simp
  moreover have "Option.bind (bc_multiply p p 0) (\<lambda>p. Option.bind (bc_modulo p M 0) f) = f p'" for f :: "bc_num \<Rightarrow> bc_num option"
    using u(2) by (auto simp: residue_mul_def bind_eq_Some_conv)
  moreover have "(if \<not> bc_is_zero r then Option.bind (bc_multiply t p 0) (\<lambda>t. bc_modulo t M 0) else Some t) = Some u"
    using u(1) q(3) by (auto simp: residue_mul_def split: if_splits)
  ultimately have loop: "raisemod_loop M 0 0 x p t = raisemod_loop M 0 0 q p' u"
    using q(1) by (subst raisemod_loop.simps) simp
  show ?case
  proof (cases "e div 2 = 0")
    case True
    then have "odd e"
      using less.prems(4) by presburger
    have "raisemod_loop M 0 0 q p' u = Some u"
      using int_num_zero [OF q(2)] True by (subst raisemod_loop.simps) simp
    then show ?thesis
      using loop u(3,5) u(6) [OF \<open>odd e\<close>] True by simp
  next
    case False
    then show ?thesis
      using less.IH [OF _ u(3,4) q(2)] less.prems(4) loop u(5) by simp
  qed
qed

lemma int_num_integer:
  assumes "good n" "n_scale n = 0"
  shows "int_num n (int_of n)"
  using num_val_scaled [OF goodD(2) [OF assms(1)]] assms by (auto simp: int_num_def int_of_def)

text \<open>The loop for any scale: it comes to an end, and for an exponent other than zero the last step is a remainder.\<close>

lemma raisemod_loop_good:
  assumes "good M" "num_val M \<noteq> 0"
  shows "good t \<Longrightarrow> good p \<Longrightarrow> int_num x (int e) \<Longrightarrow>
    \<exists>u. raisemod_loop M s rs x p t = Some u \<and> good u \<and> (0 < e \<longrightarrow> \<bar>num_val u\<bar> < \<bar>num_val M\<bar> / 10 ^ s) \<and> (e = 0 \<longrightarrow> u = t)"
proof (induction e arbitrary: t p x rule: less_induct)
  case (less e)
  show ?case
  proof (cases "e = 0")
    case True
    then show ?thesis
      using int_num_zero [OF less.prems(3)] less.prems(1) by (subst raisemod_loop.simps) simp
  next
    case False
    have turn: "\<exists>v. Option.bind (bc_multiply y z rs) (\<lambda>w. bc_modulo w M s) = Some v \<and> good v \<and> \<bar>num_val v\<bar> < \<bar>num_val M\<bar> / 10 ^ s"
      if "good y" "good z" for y z
      using bc_multiply_val [OF goodD(2,2), OF that, of rs] bc_modulo_good [OF _ assms] by (force simp: good_def)
    obtain q r where q: "bc_divmod x num_two 0 = Some (q, r)" "int_num q (int (e div 2))" "bc_is_zero r \<longleftrightarrow> even e"
      using halve [OF less.prems(3)] by blast
    obtain v where v: "(if \<not> bc_is_zero r then Option.bind (bc_multiply t p rs) (\<lambda>w. bc_modulo w M s) else Some t) = Some v" "good v"
      "odd e \<longrightarrow> \<bar>num_val v\<bar> < \<bar>num_val M\<bar> / 10 ^ s"
      using turn [OF less.prems(1,2)] less.prems(1) q(3) by (cases "even e") auto
    obtain p' where p': "Option.bind (bc_multiply p p rs) (\<lambda>w. bc_modulo w M s) = Some p'" "good p'"
      using turn [OF less.prems(2,2)] by blast
    have "Option.bind (bc_multiply p p rs) (\<lambda>w. Option.bind (bc_modulo w M s) f) = f p'" for f :: "bc_num \<Rightarrow> bc_num option"
      using p'(1) by (auto simp: bind_eq_Some_conv)
    then have "raisemod_loop M s rs x p t = raisemod_loop M s rs q p' v"
      using q(1) v(1) int_num_zero [OF less.prems(3)] False by (subst raisemod_loop.simps) simp
    moreover have "e div 2 = 0 \<Longrightarrow> odd e" "e div 2 < e"
      using False by presburger+
    ultimately show ?thesis
      using less.IH [OF _ v(2) p'(2) q(2)] v(3) False by (cases "e div 2 = 0") auto
  qed
qed

text \<open>The exponent that counts.\<close>

lemma whole_exponent:
  assumes "good expo" "0 \<le> num_val expo"
  shows "\<exists>x. (if n_scale expo \<noteq> 0 then bc_divide expo num_one 0 else Some expo) = Some x \<and> int_num x (int (nat (int_of expo)))"
proof (cases "n_scale expo = 0")
  case True
  then show ?thesis
    using int_num_integer [OF assms(1)] assms(2) by (simp add: int_of_def)
next
  case False
  have "cut (num_val expo / num_val num_one) 0 = of_int (int_of expo)"
    using assms(2) by (auto simp: cut_def int_of_def sgn_if)
  then show ?thesis
    using bc_divide_good [OF assms(1) good_numerals(2), of 0] False assms(2) by (auto simp: int_num_def int_of_def)
qed

text \<open>
  C21. \<open>bc_raisemod\<close> (lib/number.c) gives its error value for a negative exponent; otherwise, with a modulus other than zero, it
  returns for every base and every scale, and only the integer part of the exponent counts. For an exponent of zero the
  result is 1, whatever the modulus (also for the modulus 1, which does not reduce it). For a larger one the result is less than one
  unit in the last place of the scale times the modulus; and when the scale is 0 and base and modulus are integers without decimals, it is
  the remainder of the power by the modulus, with the sign of the power. With another scale it is a remainder in the sense of \<open>bc_modulo\<close>,
  after a quotient with decimals, and not the remainder of the division of integers.
\<close>

theorem bc_raisemod_power:
  assumes "good base" and "good expo" and "good modulus" and "num_val modulus \<noteq> 0"
  defines "e \<equiv> nat (int_of expo)"
  shows "if num_val expo < 0 then bc_raisemod base expo modulus scale = Some None
    else \<exists>r warnings. bc_raisemod base expo modulus scale = Some (Some (r, warnings)) \<and> good r \<and>
      (e = 0 \<longrightarrow> r = num_one) \<and>
      (0 < e \<longrightarrow> \<bar>num_val r\<bar> < \<bar>num_val modulus\<bar> / 10 ^ scale) \<and>
      (0 < e \<and> scale = 0 \<and> n_scale base = 0 \<and> n_scale modulus = 0 \<longrightarrow>
        num_val r = of_int (trem (int_of base ^ e) (int_of modulus)))"
proof (cases "num_val expo < 0")
  case True
  then have "bc_is_neg expo"
    using abs_val_nonneg [OF goodD(2) [OF assms(2)]] by (cases "n_sign expo") (auto simp: num_val_def sign_val_def bc_is_neg_def)
  then show ?thesis
    using True by (simp add: bc_raisemod_def)
next
  case False
  then have nonneg: "0 \<le> num_val expo"
    by simp
  obtain x where x: "(if n_scale expo \<noteq> 0 then bc_divide expo num_one 0 else Some expo) = Some x" "int_num x (int e)"
    using whole_exponent [OF assms(2) nonneg] by (auto simp: e_def)
  have zero: "\<not> bc_is_zero modulus"
    using is_zero_val [OF goodD(2) [OF assms(3)]] assms(4) by simp
  have "n_sign expo = PLUS"
    using assms(2) nonneg abs_val_nonneg [OF goodD(2) [OF assms(2)]] good_minus [OF assms(2)]
    by (cases "n_sign expo") (auto simp: num_val_def sign_val_def)
  then have pos: "\<not> bc_is_neg expo"
    by (simp add: bc_is_neg_def)
  define rs where "rs = max scale (n_scale base)"
  obtain r where r: "raisemod_loop modulus scale rs x base num_one = Some r" "good r"
    "0 < e \<longrightarrow> \<bar>num_val r\<bar> < \<bar>num_val modulus\<bar> / 10 ^ scale" "e = 0 \<longrightarrow> r = num_one"
    using raisemod_loop_good [OF assms(3,4) good_numerals(2) assms(1) x(2)] by blast
  have "num_val r = of_int (trem (int_of base ^ e) (int_of modulus))"
    if ints: "0 < e" "scale = 0" "n_scale base = 0" "n_scale modulus = 0"
  proof -
    have n: "int_num base (int_of base)" "int_num modulus (int_of modulus)"
      using int_num_integer assms(1,3) ints(3,4) by blast+
    then have "residue_ok modulus base" "residue_ok modulus num_one"
      using assms(4) int_num_int_of [OF int_num_numerals(2)] by (auto simp: residue_ok_def int_num_def)
    from raisemod_loop_val [OF this(2,1) x(2) ints(1)] r(1) ints show ?thesis
      using int_num_int_of [OF int_num_numerals(2)] by (auto simp: rs_def residue_ok_def int_num_def)
  qed
  moreover have "\<exists>warnings. bc_raisemod base expo modulus scale = Some (Some (r, warnings))"
    using x(1) r(1) zero pos by (simp add: bc_raisemod_def Let_def rs_def)
  ultimately show ?thesis
    using r(2-4) False by auto
qed

text \<open>(-7) to the power of 5, modulo 10.\<close>

theorem bc_raisemod_power_witness:
  "\<exists>r warnings. bc_raisemod (bc_int2num (- 7)) (bc_int2num 5) (bc_int2num 10) 0 = Some (Some (r, warnings)) \<and> num_val r = - 7"
proof -
  have "int_num (bc_int2num (- 7)) (- 7)" "int_num (bc_int2num 5) 5" "int_num (bc_int2num 10) 10"
    using bc_int2num_val [of "- 7"] bc_int2num_val [of 5] bc_int2num_val [of 10] by (simp_all add: int_num_def)
  note n = this [THEN int_num_int_of] this [unfolded int_num_def]
  have "good (bc_int2num (- 7))" "good (bc_int2num 5)" "good (bc_int2num 10)" "num_val (bc_int2num 10) \<noteq> 0"
    using n by simp_all
  from bc_raisemod_power [OF this, of 0] show ?thesis
    using n by (auto simp: trem_def)
qed

text \<open>With two decimals in the quotients nothing remains of 7 modulo 10.\<close>

lemma raisemod_with_scale:
  "map_option (map_option (\<lambda>(r, warnings). (bc_is_zero r, warnings))) (bc_raisemod (bc_int2num 7) num_one (bc_int2num 10) 2) =
    Some (Some (True, []))"
  by code_simp

text \<open>The case that the modulus of 1 gets wrong: the result should be 0.\<close>

lemma raisemod_zero_exponent:
  assumes "good base" and "good modulus" and "num_val modulus \<noteq> 0"
  shows "\<exists>warnings. bc_raisemod base num_zero modulus scale = Some (Some (num_one, warnings))"
proof -
  have "bc_is_zero num_zero" "\<not> bc_is_neg num_zero" "\<not> bc_is_zero modulus"
    using is_zero_val [OF goodD(2)] assms(2,3) good_numerals(1) by (auto simp: bc_is_neg_def num_zero_def)
  then show ?thesis
    by (simp add: bc_raisemod_def Let_def raisemod_loop.simps)
qed

subsection \<open>Powers\<close>

interpretation products: reduced_product good num_val "\<lambda>x y. bc_multiply x y (n_scale x + n_scale y)" "\<lambda>a. a"
proof
  fix x y
  assume "good x" "good y"
  then show "\<exists>z. bc_multiply x y (n_scale x + n_scale y) = Some z \<and> good z \<and> num_val z = num_val x * num_val y"
    using bc_multiply_exact [of x y] by fastforce
qed simp

lemma product_scale:
  "good x \<Longrightarrow> good y \<Longrightarrow> bc_multiply x y (n_scale x + n_scale y) = Some z \<Longrightarrow> n_scale z = n_scale x + n_scale y"
  using bc_multiply_exact [of x y] by fastforce

lemma square_scaled:
  assumes "good p" "n_scale p = s"
  shows "\<exists>q. bc_multiply p p (2 * s) = Some q \<and> good q \<and> n_scale q = 2 * s \<and> (\<forall>k. num_val q ^ k = num_val p ^ (2 * k))"
  using products.square_step [OF assms(1)] product_scale [OF assms(1,1)] assms(2) by (metis mult_2 mult.right_neutral)

lemma halves: "int e div 2 = int (e div 2)" "int e mod 2 = int (e mod 2)"
  by (simp_all add: zdiv_int zmod_int)

lemma raise_squares_val:
  "0 < e \<Longrightarrow> good p \<Longrightarrow> n_scale p = s \<Longrightarrow>
    \<exists>d t q. raise_squares (int e) s p = Some (int d, t, q) \<and> odd d \<and> good q \<and> n_scale q = t \<and>
      num_val q ^ d = num_val p ^ e \<and> t * d = s * e"
proof (induction e arbitrary: p s rule: less_induct)
  case (less e)
  show ?case
  proof (cases "even e")
    case True
    obtain q where q: "bc_multiply p p (2 * s) = Some q" "good q" "n_scale q = 2 * s" "\<And>k. num_val q ^ k = num_val p ^ (2 * k)"
      using square_scaled [OF less.prems(2,3)] by blast
    have "raise_squares (int e) s p = raise_squares (int (e div 2)) (2 * s) q"
      using True q(1) by (subst raise_squares.simps) (simp add: halves even_iff_mod_2_eq_zero)
    moreover have "e div 2 < e" "0 < e div 2" "2 * (e div 2) = e"
      using less.prems(1) True by auto
    ultimately show ?thesis
      using less.IH [of "e div 2" q "2 * s"] q(2,3) q(4) [of "e div 2"] by (auto simp: mult.assoc mult.left_commute)
  next
    case False
    then have "raise_squares (int e) s p = Some (int e, s, p)"
      by (subst raise_squares.simps) (simp add: halves odd_iff_mod_2_eq_one)
    then show ?thesis
      using False less.prems by auto
  qed
qed

lemma raise_loop_val:
  "good p \<Longrightarrow> n_scale p = s \<Longrightarrow> good t \<Longrightarrow> n_scale t = c \<Longrightarrow>
    \<exists>u. raise_loop (int e) s p c t = Some u \<and> good u \<and> num_val u = num_val p ^ (2 * e) * num_val t \<and> n_scale u = 2 * e * s + c"
proof (induction e arbitrary: p s c t rule: less_induct)
  case (less e)
  show ?case
  proof (cases "e = 0")
    case True
    then show ?thesis
      using less.prems by (subst raise_loop.simps) simp
  next
    case False
    obtain q where q: "bc_multiply p p (2 * s) = Some q" "good q" "n_scale q = 2 * s" "\<And>k. num_val q ^ k = num_val p ^ (2 * k)"
      using square_scaled [OF less.prems(1,2)] by blast
    have small: "e div 2 < e"
      using False by simp
    show ?thesis
    proof (cases "odd e")
      case True
      obtain u where u: "bc_multiply t q (n_scale t + n_scale q) = Some u" "good u" "num_val q ^ (2 * (e div 2)) * num_val u = num_val q ^ e * num_val t"
        using products.odd_step [OF less.prems(3) q(2) True] by blast
      have scale: "n_scale u = 2 * s + c" "n_scale t + n_scale q = 2 * s + c"
        using product_scale [OF less.prems(3) q(2) u(1)] q(3) less.prems(4) by simp_all
      have "raise_loop (int e) s p c t = raise_loop (int (e div 2)) (2 * s) q (2 * s + c) u"
        using False True q(1) u(1) scale(2) by (subst raise_loop.simps) (simp add: halves odd_iff_mod_2_eq_one)
      moreover have "2 * (e div 2) * (2 * s) + (2 * s + c) = 2 * e * s + c"
        using odd_two_times_div_two_succ [OF True] by (metis add.assoc mult.assoc mult.left_commute mult_Suc add.commute Suc_eq_plus1)
      ultimately show ?thesis
        using less.IH [OF small q(2,3) u(2) scale(1)] u(3) q(4) [of e] by auto
    next
      case False
      then have "raise_loop (int e) s p c t = raise_loop (int (e div 2)) (2 * s) q c t"
        using \<open>e \<noteq> 0\<close> q(1) by (subst raise_loop.simps) (simp add: halves even_iff_mod_2_eq_zero)
      then show ?thesis
        using less.IH [OF small q(2,3) less.prems(3,4)] q(4) [of e] False by (auto simp: mult.assoc)
    qed
  qed
qed

text \<open>Setting the scale of a number cuts it off.\<close>

lemma shorten_val:
  assumes "normal n" "s \<le> n_scale n"
  shows "num_val (n\<lparr>n_scale := s\<rparr>) = cut (num_val n) s" "normal (n\<lparr>n_scale := s\<rparr>)"
proof -
  let ?n = "n\<lparr>n_scale := s\<rparr>"
  have ok: "num_ok n"
    using assms(1) by (simp add: normal_def)
  have "num_digits ?n = take (n_len n + s) (num_digits n)"
    using assms(2) by (simp add: num_digits_def min_absorb1)
  then have "mag ?n = mag n div 10 ^ (n_scale n - s)"
    using nval_take [OF num_digits_ok(1) [OF ok], of "n_len n + s"] num_digits_ok(2) [OF ok] assms(2) by (simp add: mag_def)
  then have "num_val ?n = sign_val (n_sign n) * (of_int (mag n div 10 ^ (n_scale n - s)) / 10 ^ s)"
    by (simp add: num_val_def abs_val_def)
  also have "\<dots> = cut (num_val n) s"
    unfolding num_val_def abs_val_def using assms(2) mag_nonneg [OF ok] by (rule cut_of_int_div [symmetric])
  finally show "num_val ?n = cut (num_val n) s" .
  show "normal ?n"
    using assms by (simp add: normal_def num_ok_def)
qed

definition exponent_of :: "bc_num \<Rightarrow> int" where
  "exponent_of n = (if n_sign n = MINUS then - \<lfloor>abs_val n\<rfloor> else \<lfloor>abs_val n\<rfloor>)"

lemma raise_positive:
  assumes "good num1" "0 < e"
  shows "\<exists>d t q u. raise_squares (int e) (n_scale num1) num1 = Some (d, t, q) \<and> raise_loop (d div 2) t q t q = Some u \<and>
    good u \<and> num_val u = num_val num1 ^ e \<and> n_scale u = n_scale num1 * e"
proof -
  obtain d t q where q: "raise_squares (int e) (n_scale num1) num1 = Some (int d, t, q)" "odd d" "good q" "n_scale q = t"
    "num_val q ^ d = num_val num1 ^ e" "t * d = n_scale num1 * e"
    using raise_squares_val [OF assms(2,1) refl] by blast
  obtain u where u: "raise_loop (int (d div 2)) t q t q = Some u" "good u" "num_val u = num_val q ^ (2 * (d div 2)) * num_val q"
    "n_scale u = 2 * (d div 2) * t + t"
    using raise_loop_val [OF q(3,4,3,4)] by blast
  have d: "d = Suc (2 * (d div 2))"
    using q(2) by simp
  then have "num_val u = num_val q ^ d" "n_scale u = t * d"
    using u(3,4) by (metis power_Suc mult.commute, metis mult_Suc add.commute mult.commute)
  then show ?thesis
    using q u(1,2) by (auto simp: halves)
qed

text \<open>The exponent as \<open>bc_raise\<close> reads it, without its two error messages.\<close>

lemma exponent_read:
  assumes "good num2" and "0 \<le> LONG_MAX" and "LONG_MAX div 10 * 10 + 9 < 2 ^ 31"
    and "\<bar>exponent_of num2\<bar> div 10 \<le> LONG_MAX div 10" and "e = exponent_of num2"
  shows "bc_num2long LONG_MAX num2 = e" "wrap32 (- e) = - e" "\<not> (e = 0 \<and> (n_len num2 > 1 \<or> hd (n_value num2) \<noteq> 0))"
proof -
  have num2: "num_ok num2" "1 \<le> n_len num2" "normal num2" "0 \<le> \<lfloor>abs_val num2\<rfloor>"
    using assms(1) abs_val_nonneg by (auto simp: good_def normal_def)
  have abs: "\<bar>e\<bar> = \<lfloor>abs_val num2\<rfloor>"
    using num2(4) by (simp add: assms(5) exponent_of_def)
  then have "\<lfloor>abs_val num2\<rfloor> div 10 \<le> LONG_MAX div 10"
    using assms(4,5) by simp
  then show "bc_num2long LONG_MAX num2 = e"
    using bc_num2long_bounds [OF num2(1,2) assms(2,3)] by (simp add: assms(5) exponent_of_def)
  have "\<bar>e\<bar> \<le> LONG_MAX div 10 * 10 + 9"
    using assms(4,5) by linarith
  then show "wrap32 (- e) = - e"
    using assms(3) by (intro wrap32_id) linarith+
  show "\<not> (e = 0 \<and> (n_len num2 > 1 \<or> hd (n_value num2) \<noteq> 0))"
  proof
    assume error: "e = 0 \<and> (n_len num2 > 1 \<or> hd (n_value num2) \<noteq> 0)"
    then have "hd (n_value num2) \<noteq> 0"
      using num2(3) by (auto simp: normal_def)
    moreover obtain d ds where d: "take (n_len num2) (n_value num2) = d # ds" "d = hd (n_value num2)"
      using num2(1,2) by (cases "n_value num2"; cases "n_len num2") (auto simp: num_ok_def)
    ultimately have "10 ^ length ds \<le> nval (d # ds)"
      using nval_head [of d ds] digs_parts(1) [OF integer_part(2) [OF num2(1)], of "n_len num2"] by simp
    then have "0 < nval (d # ds)"
      using zero_less_power [of "10 :: int" "length ds"] by linarith
    then show False
      using integer_part(1) [OF num2(1)] abs error by (simp add: d(1))
  qed
qed

text \<open>The end of a positive power: its scale is cut.\<close>

lemma shorten_to:
  assumes "good u" and "R \<le> n_scale u"
  shows "num_val (if n_scale u > R then u\<lparr>n_scale := R\<rparr> else u) = cut (num_val u) R"
    "normal (if n_scale u > R then u\<lparr>n_scale := R\<rparr> else u)" "n_scale (if n_scale u > R then u\<lparr>n_scale := R\<rparr> else u) = R"
proof -
  have "num_val u = cut (num_val u) R" if "n_scale u = R"
    using num_val_scaled [OF goodD(2) [OF assms(1)]] cut_exact that by auto
  then show "num_val (if n_scale u > R then u\<lparr>n_scale := R\<rparr> else u) = cut (num_val u) R"
    "normal (if n_scale u > R then u\<lparr>n_scale := R\<rparr> else u)" "n_scale (if n_scale u > R then u\<lparr>n_scale := R\<rparr> else u) = R"
    using shorten_val [OF goodD(1) [OF assms(1)], of R] goodD(1) [OF assms(1)] assms(2) by auto
qed

text \<open>
  C8. \<open>bc_raise\<close> (lib/number.c) returns for every base and every exponent that fits a \<open>long\<close>, of which the integer part counts,
  without its error message. A power with a positive exponent is exact, then cut off after MIN (scale of the base * exponent, MAX (scale,
  scale of the base)) decimals; one with a negative exponent is the reciprocal of the exact power, cut off at \<open>scale\<close>, and the
  result variable keeps its old value when the base is zero.
\<close>

theorem bc_raise_power:
  assumes "good num1" and "good num2" and "0 \<le> LONG_MAX" and "LONG_MAX div 10 * 10 + 9 < 2 ^ 31"
    and "\<bar>exponent_of num2\<bar> div 10 \<le> LONG_MAX div 10" and "e = exponent_of num2"
  shows "\<exists>r messages. bc_raise LONG_MAX num1 num2 old scale = Some (r, messages) \<and> ''exponent too large in raise'' \<notin> set messages \<and>
    num_val r =
     (if e = 0 then 1
      else if 0 < e then cut (num_val num1 ^ nat e) (min (n_scale num1 * nat e) (max scale (n_scale num1)))
      else if num_val num1 = 0 then num_val old
      else cut (1 / num_val num1 ^ nat (- e)) scale) \<and>
    (0 \<le> e \<longrightarrow> normal r \<and> n_scale r = (if e = 0 then 0 else min (n_scale num1 * nat e) (max scale (n_scale num1))))"
proof -
  note long = exponent_read(1) [OF assms(2-6)] and fits = exponent_read(2) [OF assms(2-6)] and no_error = exponent_read(3) [OF assms(2-6)]
  define k where "k = nat \<bar>e\<bar>"
  show ?thesis
  proof (cases "e = 0")
    case True
    then show ?thesis
      using long no_error by (auto simp: bc_raise_def Let_def)
  next
    case False
    then have "0 < k"
      by (simp add: k_def)
    then obtain d t q u where run: "raise_squares (int k) (n_scale num1) num1 = Some (d, t, q)" "raise_loop (d div 2) t q t q = Some u"
      and u: "good u" "num_val u = num_val num1 ^ k" "n_scale u = n_scale num1 * k"
      using raise_positive [OF assms(1)] by blast
    show ?thesis
    proof (cases "0 < e")
      case True
      let ?rscale = "min (n_scale num1 * k) (max scale (n_scale num1))"
      define r where "r = (if n_scale u > ?rscale then u\<lparr>n_scale := ?rscale\<rparr> else u)"
      have "num_val r = cut (num_val u) ?rscale \<and> normal r \<and> n_scale r = ?rscale"
        using shorten_to [OF u(1), of ?rscale] u(3) by (simp add: r_def)
      moreover have "e = int k" "\<not> e < 0"
        using True by (simp_all add: k_def)
      ultimately show ?thesis
        using \<open>e \<noteq> 0\<close> run u(2) long no_error True by (auto simp: bc_raise_def Let_def r_def split: if_splits)
    next
      case False
      then have e: "e < 0" "wrap32 (- e) = int k" "nat (- e) = k"
        using \<open>e \<noteq> 0\<close> fits by (simp_all add: k_def)
      have "bc_divide num_one u scale = None \<longleftrightarrow> num_val num1 = 0"
        "\<And>q. bc_divide num_one u scale = Some q \<Longrightarrow> num_val q = cut (1 / num_val num1 ^ k) scale"
        using bc_divide_truncates [OF numerals_ok(2) goodD(1) [OF u(1)], of scale] u(2) \<open>0 < k\<close> by auto
      then show ?thesis
        using \<open>e \<noteq> 0\<close> run long no_error e by (auto simp: bc_raise_def Let_def split: option.splits)
    qed
  qed
qed

text \<open>1.5 squared, with the one decimal it has itself.\<close>

theorem bc_raise_power_witness:
  "\<exists>r messages. bc_raise number_h_long_max \<lparr>n_sign = PLUS, n_len = 1, n_scale = 1, n_value = [1, 5]\<rparr> num_two num_zero 0 = Some (r, messages) \<and>
     num_val r = 2.2"
proof -
  let ?a = "\<lparr>n_sign = PLUS, n_len = 1, n_scale = 1, n_value = [1, 5]\<rparr>"
  have a: "num_val ?a = 1.5"
    by (simp add: num_val_def sign_val_def abs_val_def mag_def num_digits_def nval_Cons)
  then have good: "good ?a"
    by (simp add: good_def zero_plus_def normal_def num_ok_def)
  have e: "exponent_of num_two = 2"
    by (simp add: exponent_of_def num_two_def abs_val_def mag_def num_digits_def nval_Cons)
  have "0 \<le> number_h_long_max" "number_h_long_max div 10 * 10 + 9 < 2 ^ 31" "\<bar>exponent_of num_two\<bar> div 10 \<le> number_h_long_max div 10"
    by (simp_all add: number_h_long_max_def e)
  note power = bc_raise_power [OF good good_numerals(3) this refl, of num_zero 0]
  have "cut (2.25 :: rat) 1 = 2.2"
    by (simp add: cut_def floor_eq_iff)
  then show ?thesis
    using power unfolding e a by (auto simp: power2_eq_square)
qed

text \<open>
  When the scale is cut off in the end, nobody looks at the sign again: -0.1 to the power of 3 is a negative zero, which is
  printed with its sign and compares as less than zero.
\<close>

lemma raise_gives_negative_zero:
  "map_option (\<lambda>(r, messages). (n_sign r, bc_is_zero r, bc_compare r num_zero))
     (bc_raise number_h_long_max \<lparr>n_sign = MINUS, n_len = 1, n_scale = 1, n_value = [0, 1]\<rparr>
       \<lparr>n_sign = PLUS, n_len = 1, n_scale = 0, n_value = [3]\<rparr> num_zero 0) = Some (MINUS, True, -1)"
  by code_simp

text \<open>An exponent that is too large gives 1 and an error message.\<close>

lemma raise_too_large:
  assumes "good num2" and "0 \<le> LONG_MAX" and "LONG_MAX div 10 * 10 + 9 < 2 ^ 31" and "LONG_MAX div 10 < \<lfloor>abs_val num2\<rfloor> div 10"
  shows "\<exists>messages. bc_raise LONG_MAX num1 num2 old scale = Some (num_one, messages) \<and> ''exponent too large in raise'' \<in> set messages"
proof -
  have num2: "num_ok num2" "1 \<le> n_len num2" "n_len num2 \<le> length (n_value num2)"
    using assms(1) integer_part(3) by (auto simp: good_def normal_def)
  have "bc_num2long LONG_MAX num2 = 0"
    using bc_num2long_bounds [OF num2(1,2) assms(2,3)] assms(4) by simp
  moreover have "n_len num2 > 1"
  proof (rule ccontr)
    assume "\<not> n_len num2 > 1"
    then have "nval (take (n_len num2) (n_value num2)) < 10 ^ 1"
      using nval_less [OF digs_parts(1) [OF integer_part(2) [OF num2(1)]], of "n_len num2"] num2 by (simp add: min_absorb2 le_antisym)
    then have "\<lfloor>abs_val num2\<rfloor> < 10"
      by (simp only: integer_part(1) [OF num2(1)] power_one_right)
    moreover have "\<not> l div 10 < x div 10" if "x < 10" "0 \<le> l" for x l :: int
      using that by presburger
    ultimately show False
      using assms(2,4) by blast
  qed
  ultimately show ?thesis
    by (simp add: bc_raise_def Let_def)
qed

end
