(* ===== verification/Number_Sqrt_Correct.thy ===== *)
theory Number_Sqrt_Correct
  imports Number_Power_Correct
begin

text \<open>
  Square roots: on the integers that the guesses are in units of the last place, the loop of \<open>bc_sqrt\<close> is Heron's method
  with rounding down, which reaches the integer square root from above and then moves by at most one.
\<close>

subsection \<open>Heron's method on integers\<close>

definition heron :: "int \<Rightarrow> int \<Rightarrow> int" where
  "heron m i = (m div i + i) div 2"

definition is_root :: "int \<Rightarrow> int \<Rightarrow> bool" where
  "is_root m r \<longleftrightarrow> 0 \<le> r \<and> r * r \<le> m \<and> m < (r + 1) * (r + 1)"

lemma is_root_exists: "0 \<le> m \<Longrightarrow> \<exists>r. is_root m r"
proof (induction m rule: int_ge_induct)
  case base
  then show ?case
    by (auto simp: is_root_def intro: exI [of _ 0])
next
  case (step m)
  then obtain r where r: "0 \<le> r" "r * r \<le> m" "m < (r + 1) * (r + 1)"
    by (auto simp: is_root_def)
  show ?case
  proof (cases "m + 1 < (r + 1) * (r + 1)")
    case True
    then show ?thesis
      using r by (auto simp: is_root_def)
  next
    case False
    then have "is_root (m + 1) (r + 1)"
      using r by (auto simp: is_root_def algebra_simps)
    then show ?thesis ..
  qed
qed

lemma div_bounds:
  assumes "1 \<le> (i :: int)"
  shows "i * (m div i) \<le> m" "m < i * (m div i + 1)"
proof -
  have "m = i * (m div i) + m mod i" "0 \<le> m mod i" "m mod i < i"
    using assms by simp_all
  then show "i * (m div i) \<le> m" "m < i * (m div i + 1)"
    unfolding distrib_left by linarith+
qed

lemma heron_above:
  assumes "is_root m r" "1 \<le> i"
  shows "r \<le> heron m i"
proof (rule ccontr)
  assume "\<not> r \<le> heron m i"
  then have "(m div i + 1) + i \<le> 2 * r"
    by (simp add: heron_def)
  moreover have "0 \<le> m div i"
    using assms by (simp add: is_root_def pos_imp_zdiv_nonneg_iff order_trans [of 0 "r * r"])
  ultimately have "((m div i + 1) + i) * ((m div i + 1) + i) \<le> (2 * r) * (2 * r)"
    using assms by (intro mult_mono) auto
  moreover have "4 * (i * (m div i + 1)) \<le> ((m div i + 1) + i) * ((m div i + 1) + i)"
    using zero_le_square [of "m div i + 1 - i"] by (simp add: algebra_simps)
  ultimately show False
    using div_bounds(2) [OF assms(2), of m] assms(1) by (simp add: is_root_def)
qed

lemma heron_decreases:
  assumes "is_root m r" "r < i"
  shows "heron m i < i"
proof -
  have "(r + 1) * (r + 1) \<le> i * i"
    using assms by (intro mult_mono) (auto simp: is_root_def)
  then have "i * (m div i) < i * i"
    using div_bounds(1) [of i m] assms unfolding is_root_def by linarith
  then have "m div i < i"
    using assms by (simp add: is_root_def)
  then show ?thesis
    by (simp add: heron_def)
qed

lemma heron_at_root:
  assumes "is_root m r" "1 \<le> r"
  shows "heron m r \<le> r + 1"
proof -
  have "m < r * (r + 3)"
    using assms by (simp add: is_root_def algebra_simps)
  then have "r * (m div r) < r * (r + 3)"
    using div_bounds(1) [OF assms(2), of m] by linarith
  then have "m div r < r + 3"
    using assms(2) by simp
  then show ?thesis
    by (simp add: heron_def)
qed

text \<open>When the guess moves by at most one, it has arrived.\<close>

lemma heron_stops:
  assumes "is_root m r" "1 \<le> i" "\<bar>heron m i - i\<bar> \<le> 1"
  shows "heron m i = r \<or> heron m i = r + 1"
proof -
  note above = heron_above [OF assms(1,2)]
  consider "i < r" | "i = r" | "r < i"
    by linarith
  then have "heron m i \<le> r + 1"
  proof cases
    case 3
    then have "heron m i = i - 1"
      using heron_decreases [OF assms(1)] assms(3) by force
    then have "i - 2 \<le> m div i"
      by (simp add: heron_def)
    then have "i * (i - 2) \<le> m"
      using div_bounds(1) [OF assms(2), of m] mult_left_mono [of "i - 2" "m div i" i] assms(2) by linarith
    have "i \<le> r + 2"
    proof (rule ccontr)
      assume "\<not> i \<le> r + 2"
      then have "(r + 3) * (r + 1) \<le> i * (i - 2)"
        using assms(1) by (intro mult_mono) (auto simp: is_root_def)
      then show False
        using \<open>i * (i - 2) \<le> m\<close> assms(1) by (simp add: is_root_def algebra_simps)
    qed
    then show ?thesis
      using \<open>heron m i = i - 1\<close> by simp
  qed (use assms heron_at_root in auto)
  then show ?thesis
    using above by linarith
qed

subsection \<open>One turn of the loop\<close>

lemma skip_zeros_near:
  "digs ds \<Longrightarrow> k \<le> length ds \<Longrightarrow> skip_zeros k ds = (c, es) \<Longrightarrow> c = 0 \<or> c = 1 \<and> hd es = 1 \<longleftrightarrow> nval (take k ds) \<in> {0, 1}"
proof (induction k ds rule: skip_zeros.induct)
  case (1 k d ds)
  show ?case
  proof (cases "d = 0")
    case True
    then show ?thesis
      using 1 by (simp add: nval_Cons)
  next
    case False
    then have c: "c = Suc k" "es = d # ds"
      using 1(4) by simp_all
    have digits: "digs (d # take k ds)" "length (take k ds) = k"
      using 1(2,3) by (auto dest: in_set_takeD)
    then have "10 ^ k \<le> nval (take (Suc k) (d # ds))"
      using nval_head [of d "take k ds"] False by simp
    moreover have "10 \<le> (10 :: int) ^ k" if "k \<noteq> 0"
      using that by (cases k) auto
    ultimately show ?thesis
      using c False digits by (cases "k = 0") (force simp: nval_Cons)+
  qed
qed auto

lemma near_zero:
  assumes "num_ok n" "n_scale n = Suc c" "abs_val n * 10 ^ c = of_int i"
  shows "bc_is_near_zero n c \<longleftrightarrow> i \<in> {0, 1}"
proof -
  have "nval (take (n_len n + c) (n_value n)) = nval (take (n_len n + c) (num_digits n))"
    using assms(2) by (simp add: num_digits_def min_absorb1)
  also have "\<dots> = mag n div 10"
    using nval_take [OF num_digits_ok(1) [OF assms(1)], of "n_len n + c"] num_digits_ok(2) [OF assms(1)] assms(2) by (simp add: mag_def)
  also have "mag n = 10 * i"
  proof -
    have "of_int (mag n) = (10 * (abs_val n * 10 ^ c) :: rat)"
      using assms(2) by (simp add: abs_val_def)
    also have "\<dots> = of_int (10 * i)"
      by (simp add: assms(3))
    finally show ?thesis
      by (simp only: of_int_eq_iff)
  qed
  finally have "nval (take (n_len n + c) (n_value n)) = i"
    by simp
  moreover obtain k ds where "skip_zeros (n_len n + c) (n_value n) = (k, ds)"
    by fastforce
  ultimately show ?thesis
    using skip_zeros_near [of "n_value n" "n_len n + c"] assms(1,2) by (auto simp: bc_is_near_zero_def num_ok_def)
qed

lemma point5_val: "good point5" "n_scale point5 = 1" "num_val point5 = 1 / 2"
  by (simp_all add: point5_def good_def zero_plus_def normal_def num_ok_def num_val_def sign_val_def abs_val_def mag_def num_digits_def nval_Cons)

lemma cut_positive: "0 < x \<Longrightarrow> cut x s = of_int \<lfloor>x * 10 ^ s\<rfloor> / 10 ^ s"
  by (simp add: cut_def)

lemma cut_nonneg: "0 \<le> x \<Longrightarrow> 0 \<le> cut x s"
  by (cases "x = 0") (simp_all add: cut_def)

lemma sqrt_step:
  assumes "good num" "0 < num_val num" "1 \<le> c" "good g" "n_scale g \<le> c" "num_val g * 10 ^ c = of_int i" "1 \<le> i"
  defines "m \<equiv> \<lfloor>num_val num * 10 ^ (2 * c)\<rfloor>"
  shows "\<exists>h. good h \<and> n_scale h = c \<and> num_val h * 10 ^ c = of_int (heron m i) \<and>
    sqrt_loop num R c g =
      (if \<bar>heron m i - i\<bar> \<le> 1 then if c < R + 1 then sqrt_loop num R (min (c * 3) (R + 1)) h else Some h
       else sqrt_loop num R c h)"
proof -
  let ?N = "num_val num" and ?G = "num_val g"
  have G: "?G = of_int i / 10 ^ c" "0 < ?G"
    using assms(6,7) by (simp_all add: field_simps) (smt (verit) of_int_0_less_iff zero_less_mult_pos2 zero_less_power zero_less_numeral)
  obtain q where q: "bc_divide num g c = Some q" "num_val q = cut (?N / ?G) c" "n_scale q = c" "good q"
    using bc_divide_good [OF assms(1,4)] G(2) by fastforce
  have "?N / ?G * 10 ^ c = ?N * 10 ^ (2 * c) / of_int i"
    by (simp add: G(1) power_add mult_2)
  then have "\<lfloor>?N / ?G * 10 ^ c\<rfloor> = m div i"
    using floor_div_int [of i "?N * 10 ^ (2 * c)"] assms(7) by (simp add: m_def)
  moreover have "0 < ?N / ?G"
    using G(2) assms(2) by simp
  ultimately have quot: "num_val q * 10 ^ c = of_int (m div i)"
    by (simp only: q(2) cut_positive) simp
  define t where "t = bc_add q g 0"
  have t: "num_val t = num_val q + ?G" "n_scale t = c" "good t"
    using bc_add_val [OF goodD(1,1), OF q(4) assms(4), of 0] bc_add_good(1) [OF q(4) assms(4)] q(3) assms(5) by (simp_all add: t_def)
  then have sum: "num_val t * 10 ^ c = of_int (m div i + i)"
    using quot assms(6) by (simp add: distrib_right)
  have "min (n_scale t + n_scale point5) (max c (max (n_scale t) (n_scale point5))) = c"
    using assms(3) t(2) point5_val(2) by simp
  then obtain h where h: "bc_multiply t point5 c = Some h" "num_val h = cut (num_val t * (1 / 2)) c" "n_scale h = c" "good h"
    using bc_multiply_val [OF goodD(2,2), OF t(3) point5_val(1), of c] point5_val(3) by (auto simp: good_def)
  have "\<lfloor>num_val t * (1 / 2) * 10 ^ c\<rfloor> = (m div i + i) div 2"
  proof -
    have "num_val t * (1 / 2) * 10 ^ c = of_int (m div i + i) / of_int 2"
      using sum by simp
    then show ?thesis
      by (simp only: floor_divide_of_int_eq)
  qed
  moreover have "0 \<le> num_val q"
    unfolding q(2) using \<open>0 < ?N / ?G\<close> by (intro cut_nonneg) simp
  then have "0 < num_val t * (1 / 2)"
    using t(1) G(2) by simp
  ultimately have guess: "num_val h * 10 ^ c = of_int (heron m i)"
    by (simp only: h(2) cut_positive heron_def) simp
  define diff where "diff = bc_sub h g (c + 1)"
  have d: "num_val diff = num_val h - ?G" "n_scale diff = Suc c" "num_ok diff"
    using bc_sub_val [OF goodD(1,1), OF h(4) assms(4), of "c + 1"] h(3) assms(5) by (simp_all add: diff_def normal_def)
  have "abs_val diff = \<bar>num_val diff\<bar>"
    using abs_val_nonneg [OF d(3)] by (simp add: num_val_def abs_mult sign_val_def)
  then have "abs_val diff * 10 ^ c = \<bar>num_val h * 10 ^ c - ?G * 10 ^ c\<bar>"
    by (simp add: d(1) abs_mult flip: left_diff_distrib)
  also have "\<dots> = of_int \<bar>heron m i - i\<bar>"
    by (simp add: guess assms(6))
  finally have near: "bc_is_near_zero diff c \<longleftrightarrow> \<bar>heron m i - i\<bar> \<le> 1"
    using near_zero [OF d(3,2), of "\<bar>heron m i - i\<bar>"] by auto
  have "sqrt_loop num R c g =
      (if \<bar>heron m i - i\<bar> \<le> 1 then if c < R + 1 then sqrt_loop num R (min (c * 3) (R + 1)) h else Some h
       else sqrt_loop num R c h)"
    using q(1) h(1) near by (subst sqrt_loop.simps) (simp add: t_def diff_def)
  then show ?thesis
    using h(3,4) guess by blast
qed

subsection \<open>The loop\<close>

text \<open>One value of \<open>cscale\<close>: the guess gets to the root, in units of the last place, or the next integer.\<close>

definition near_root :: "bc_num \<Rightarrow> nat \<Rightarrow> bc_num \<Rightarrow> bool" where
  "near_root num c g \<longleftrightarrow> good g \<and> n_scale g = c \<and>
     (\<exists>r i. is_root \<lfloor>num_val num * 10 ^ (2 * c)\<rfloor> r \<and> 1 \<le> r \<and> num_val g * 10 ^ c = of_int i \<and> (i = r \<or> i = r + 1))"

lemma sqrt_phase:
  assumes "good num" "0 < num_val num" "1 \<le> c" "is_root \<lfloor>num_val num * 10 ^ (2 * c)\<rfloor> r" "1 \<le> r"
  shows "good g \<Longrightarrow> n_scale g \<le> c \<Longrightarrow> num_val g * 10 ^ c = of_int (int i) \<Longrightarrow> 1 \<le> i \<Longrightarrow> r \<le> int i \<Longrightarrow>
    \<exists>h. near_root num c h \<and> sqrt_loop num R c g = (if c < R + 1 then sqrt_loop num R (min (c * 3) (R + 1)) h else Some h)"
proof (induction i arbitrary: g rule: less_induct)
  case (less i)
  let ?m = "\<lfloor>num_val num * 10 ^ (2 * c)\<rfloor>"
  have "1 \<le> int i"
    using less.prems(4) by simp
  then obtain h where h: "good h" "n_scale h = c" "num_val h * 10 ^ c = of_int (heron ?m (int i))"
    "sqrt_loop num R c g = (if \<bar>heron ?m (int i) - int i\<bar> \<le> 1 then if c < R + 1 then sqrt_loop num R (min (c * 3) (R + 1)) h else Some h
       else sqrt_loop num R c h)"
    using sqrt_step [OF assms(1-3) less.prems(1-3)] by blast
  note above = heron_above [OF assms(4) \<open>1 \<le> int i\<close>]
  show ?case
  proof (cases "\<bar>heron ?m (int i) - int i\<bar> \<le> 1")
    case True
    then have "near_root num c h"
      using heron_stops [OF assms(4) \<open>1 \<le> int i\<close>] h(1-3) assms(4,5) unfolding near_root_def by blast
    then show ?thesis
      using h(4) True by auto
  next
    case False
    have "int i \<noteq> r"
      using heron_at_root [OF assms(4,5)] above False by auto
    then have "heron ?m (int i) < int i"
      using heron_decreases [OF assms(4)] less.prems(5) by simp
    define j where "j = nat (heron ?m (int i))"
    have j: "int j = heron ?m (int i)" "j < i"
      using above assms(5) \<open>heron ?m (int i) < int i\<close> by (simp_all add: j_def)
    have "1 \<le> j" "r \<le> int j"
      using j(1) above assms(5) by simp_all
    then show ?thesis
      using less.IH [OF j(2) h(1) eq_refl [OF h(2)]] h(3,4) False j(1) by simp
  qed
qed

lemma sqrt_phase_start:
  assumes "good num" "0 < num_val num" "1 \<le> c" "1 \<le> num_val num * 10 ^ (2 * c)"
    and "good g" "n_scale g \<le> c" "num_val g * 10 ^ c = of_int i" "1 \<le> i"
  shows "\<exists>h. near_root num c h \<and> sqrt_loop num R c g = (if c < R + 1 then sqrt_loop num R (min (c * 3) (R + 1)) h else Some h)"
proof -
  let ?m = "\<lfloor>num_val num * 10 ^ (2 * c)\<rfloor>"
  have m: "1 \<le> ?m"
    using assms(4) by simp
  then obtain r where r: "is_root ?m r"
    using is_root_exists [of ?m] by auto
  have "r \<noteq> 0"
    using r m by (auto simp: is_root_def)
  then have r1: "1 \<le> r"
    using r by (simp add: is_root_def)
  obtain h where h: "good h" "n_scale h = c" "num_val h * 10 ^ c = of_int (heron ?m i)"
    "sqrt_loop num R c g = (if \<bar>heron ?m i - i\<bar> \<le> 1 then if c < R + 1 then sqrt_loop num R (min (c * 3) (R + 1)) h else Some h
       else sqrt_loop num R c h)"
    using sqrt_step [OF assms(1-3,5-8)] by blast
  note above = heron_above [OF r assms(8)]
  show ?thesis
  proof (cases "\<bar>heron ?m i - i\<bar> \<le> 1")
    case True
    then have "near_root num c h"
      using heron_stops [OF r assms(8)] h(1-3) r r1 unfolding near_root_def by blast
    then show ?thesis
      using h(4) True by auto
  next
    case False
    define j where "j = nat (heron ?m i)"
    have "int j = heron ?m i" "1 \<le> j" "r \<le> int j"
      using above r1 by (simp_all add: j_def)
    then show ?thesis
      using sqrt_phase [OF assms(1-3) r r1 h(1) eq_refl [OF h(2)], of j R] h(3,4) False by simp
  qed
qed

lemma sqrt_loop_val:
  assumes "good num" "0 < num_val num"
  shows "1 \<le> c \<Longrightarrow> 1 \<le> num_val num * 10 ^ (2 * c) \<Longrightarrow> good g \<Longrightarrow> n_scale g \<le> c \<Longrightarrow> num_val g * 10 ^ c = of_int i \<Longrightarrow> 1 \<le> i \<Longrightarrow>
    \<exists>h k. sqrt_loop num R c g = Some h \<and> R + 1 \<le> k \<and> near_root num k h"
proof (induction "R + 1 - c" arbitrary: c g i rule: less_induct)
  case less
  obtain h where h: "near_root num c h" "sqrt_loop num R c g = (if c < R + 1 then sqrt_loop num R (min (c * 3) (R + 1)) h else Some h)"
    using sqrt_phase_start [OF assms less.prems] by blast
  show ?case
  proof (cases "c < R + 1")
    case False
    then have "R + 1 \<le> c"
      by simp
    then show ?thesis
      using h by auto
  next
    case True
    define d where "d = min (c * 3) (R + 1)"
    have d: "c < d" "R + 1 - d < R + 1 - c" "1 \<le> d"
      using True less.prems(1) by (auto simp: d_def)
    obtain j where j: "good h" "n_scale h = c" "num_val h * 10 ^ c = of_int j" "1 \<le> j"
      using h(1) unfolding near_root_def by force
    have unit: "num_val h * 10 ^ d = of_int (j * 10 ^ (d - c))"
    proof -
      have "(10 :: rat) ^ d = 10 ^ c * 10 ^ (d - c)"
        using d(1) by (simp flip: power_add)
      then show ?thesis
        by (simp add: j(3) flip: mult.assoc)
    qed
    have pos: "1 \<le> j * 10 ^ (d - c)"
      using j(4) mult_mono [of 1 j 1 "10 ^ (d - c)"] by simp
    have "num_val num * 10 ^ (2 * c) \<le> num_val num * 10 ^ (2 * d)"
      using d(1) assms(2) by (intro mult_left_mono power_increasing) auto
    then have room: "1 \<le> num_val num * 10 ^ (2 * d)"
      using less.prems(2) by linarith
    have "n_scale h \<le> d"
      using j(2) d(1) by simp
    from less.hyps [OF d(2,3) room j(1) this unit pos] show ?thesis
      using h(2) True by (simp add: d_def)
  qed
qed

subsection \<open>The routine\<close>

lemma first_guess_small:
  assumes "good num" "0 < num_val num" "num_val num < 1"
  shows "1 \<le> n_scale num" "1 \<le> num_val num * 10 ^ (2 * n_scale num)"
proof -
  obtain i where i: "num_val num * 10 ^ n_scale num = of_int i"
    using num_val_scaled goodD(2) assms(1) by blast
  then have "0 < i"
    using assms(2) by (metis mult_pos_pos of_int_0_less_iff zero_less_numeral zero_less_power)
  then have ge: "1 \<le> num_val num * 10 ^ n_scale num"
    by (simp add: i)
  then show "1 \<le> n_scale num"
    using assms(3) by (cases "n_scale num") auto
  have "num_val num * 10 ^ n_scale num * 1 \<le> num_val num * 10 ^ n_scale num * 10 ^ n_scale num"
    using ge by (intro mult_left_mono) auto
  then show "1 \<le> num_val num * 10 ^ (2 * n_scale num)"
    using ge by (simp add: mult_2 power_add mult.assoc)
qed

text \<open>The first guess for a number above one: a power of ten with about half the digits.\<close>

lemma first_guess_large:
  assumes "good num" "0 \<le> LONG_MAX" "LONG_MAX div 10 * 10 + 9 < 2 ^ 31" "int (n_len num) \<le> LONG_MAX" "\<not> cmp < 0"
  shows "\<exists>g messages k. first_guess LONG_MAX num cmp = Some (g, 3, messages) \<and> good g \<and> n_scale g = 0 \<and> num_val g = 10 ^ k"
proof -
  let ?len = "int (n_len num)"
  have len: "1 \<le> ?len" "?len < 2 ^ 31"
    using assms by (auto simp: good_def normal_def)
  then have half: "num_val (bc_int2num ?len) = of_int ?len" "good (bc_int2num ?len)" "n_scale (bc_int2num ?len) = 0"
    and ten: "num_val (bc_int2num 10) = 10" "good (bc_int2num 10)" "n_scale (bc_int2num 10) = 0"
    using bc_int2num_val [of ?len] bc_int2num_val [of 10] by simp_all
  obtain p where p: "bc_multiply (bc_int2num ?len) point5 0 = Some p" "num_val p = cut (of_int ?len * (1 / 2)) 1" "n_scale p = 1" "good p"
    using bc_multiply_val [OF goodD(2,2), OF half(2) point5_val(1), of 0] half(1,3) point5_val(2,3) by (auto simp: good_def)
  have "of_int ?len * (1 / 2) * 10 ^ 1 = (of_int (?len * 5) :: rat)"
    by simp
  from cut_exact [OF this] have val: "num_val p = of_int ?len / 2"
    unfolding p(2) by simp
  define e where "e = p\<lparr>n_scale := 0\<rparr>"
  have "n_sign p = PLUS"
    using val len(1) abs_val_nonneg [OF goodD(2) [OF p(4)]] by (cases "n_sign p") (auto simp: num_val_def sign_val_def)
  then have e: "num_val e = of_int (?len div 2)" "good e" "n_sign e = PLUS"
  proof -
    have "cut (of_int ?len / of_int 2) 0 = (of_int (?len div 2) :: rat)"
      unfolding cut_int_div by (simp add: tquot_def sgn_if)
    then show "num_val e = of_int (?len div 2)"
      using shorten_val(1) [OF goodD(1) [OF p(4)], of 0] val by (simp add: e_def)
    show "n_sign e = PLUS"
      using \<open>n_sign p = PLUS\<close> by (simp add: e_def)
    then show "good e"
      using shorten_val(2) [OF goodD(1) [OF p(4)], of 0] by (simp add: good_def zero_plus_def e_def)
  qed
  then have exponent: "exponent_of e = ?len div 2"
    by (simp add: exponent_of_def num_val_def sign_val_def)
  have "\<bar>exponent_of e\<bar> div 10 \<le> LONG_MAX div 10"
    using assms(4) len(1) unfolding exponent by (intro zdiv_mono1) auto
  from bc_raise_power [OF ten(2) e(2) assms(2,3) this refl, of "bc_int2num 10" 0]
  obtain g messages where g: "bc_raise LONG_MAX (bc_int2num 10) e (bc_int2num 10) 0 = Some (g, messages)"
    "num_val g = (if ?len div 2 = 0 then 1 else cut (10 ^ nat (?len div 2)) 0)" "normal g" "n_scale g = 0"
    unfolding exponent using ten len(1) by auto
  have "cut (10 ^ k) 0 = 10 ^ k" for k
    using cut_exact [of "10 ^ k" 0 "10 ^ k"] by simp
  then have "num_val g = 10 ^ nat (?len div 2)"
    using g(2) by simp
  moreover from this have "good g"
    using g(3) by (simp add: good_def zero_plus_def)
  ultimately show ?thesis
    using p(1) g(1,4) assms(5) by (auto simp: first_guess_def e_def)
qed

lemma near_root_bounds:
  assumes "near_root num k h" "0 \<le> num_val num"
  shows "real_of_rat (num_val h) - 1 / 10 ^ k \<le> sqrt (real_of_rat (num_val num))"
    "sqrt (real_of_rat (num_val num)) < real_of_rat (num_val h) + 1 / 10 ^ k" "0 < num_val h"
proof -
  let ?X = "real_of_rat (num_val num)" and ?m = "\<lfloor>num_val num * 10 ^ (2 * k)\<rfloor>"
  obtain r i where ri: "is_root ?m r" "1 \<le> r" "num_val h * 10 ^ k = of_int i" "i = r \<or> i = r + 1"
    using assms(1) unfolding near_root_def by blast
  then have r: "0 \<le> r" "r * r \<le> ?m" "?m < (r + 1) * (r + 1)" "1 \<le> r" and i: "num_val h * 10 ^ k = of_int i" "r \<le> i" "i \<le> r + 1"
    by (auto simp: is_root_def)
  have h: "num_val h = of_int i / 10 ^ k"
    using i(1) by (simp add: field_simps)
  then show "0 < num_val h"
    using r(4) i(2) by simp
  have H: "real_of_rat (num_val h) = of_int i / 10 ^ k"
    by (simp add: h of_rat_divide of_rat_power)
  have "of_int (r * r) \<le> num_val num * 10 ^ (2 * k)" "num_val num * 10 ^ (2 * k) < of_int ((r + 1) * (r + 1))"
    using r(2,3) by (simp_all only: le_floor_iff floor_less_iff)
  then have "real_of_rat (of_int (r * r)) \<le> real_of_rat (num_val num * 10 ^ (2 * k))"
    "real_of_rat (num_val num * 10 ^ (2 * k)) < real_of_rat (of_int ((r + 1) * (r + 1)))"
    by (simp_all only: of_rat_less_eq of_rat_less)
  then have "of_int (r * r) \<le> ?X * (10 ^ k * 10 ^ k)" "?X * (10 ^ k * 10 ^ k) < of_int ((r + 1) * (r + 1))"
    by (simp_all only: of_rat_of_int_eq of_rat_mult of_rat_power of_rat_numeral_eq mult_2 power_add)
  then have sq: "(of_int r / 10 ^ k)\<^sup>2 \<le> ?X" "?X < ((of_int r + 1) / 10 ^ k)\<^sup>2"
    by (simp_all add: power2_eq_square field_simps)
  have "of_int i / 10 ^ k - 1 / 10 ^ k \<le> (of_int r / 10 ^ k :: real)"
    using i(3) by (simp add: divide_right_mono flip: diff_divide_distrib)
  also have "\<dots> \<le> sqrt ?X"
    using sq(1) by (rule real_le_rsqrt)
  finally show "real_of_rat (num_val h) - 1 / 10 ^ k \<le> sqrt ?X"
    by (simp only: H)
  have "sqrt ?X < (of_int r + 1) / 10 ^ k"
    using sq(2) r(1) by (intro real_less_lsqrt) simp_all
  also have "\<dots> \<le> of_int i / 10 ^ k + 1 / 10 ^ k"
    using i(2) by (simp add: divide_right_mono flip: add_divide_distrib)
  finally show "sqrt ?X < real_of_rat (num_val h) + 1 / 10 ^ k"
    by (simp only: H)
qed

lemma cut_room:
  assumes "x * 10 ^ k = of_int i" "0 < x" "R \<le> k"
  shows "x + 1 / 10 ^ k \<le> cut x R + 1 / 10 ^ R" "cut x R \<le> x"
proof -
  define j where "j = \<lfloor>x * 10 ^ R\<rfloor>"
  have cut: "cut x R = of_int j / 10 ^ R"
    using assms(2) by (simp add: cut_positive j_def)
  have j: "of_int j \<le> x * 10 ^ R" "x * 10 ^ R < of_int (j + 1)"
    unfolding j_def by linarith+
  show "cut x R \<le> x"
    using j(1) by (simp add: cut pos_divide_le_eq)
  have k: "(10 :: rat) ^ k = 10 ^ R * 10 ^ (k - R)"
    using assms(3) by (simp flip: power_add)
  have "of_int i < (of_int ((j + 1) * 10 ^ (k - R)) :: rat)"
  proof -
    have "of_int i = x * 10 ^ R * 10 ^ (k - R)"
      using assms(1) by (simp only: k mult.assoc)
    also have "\<dots> < of_int (j + 1) * 10 ^ (k - R)"
      using j(2) by (rule mult_strict_right_mono) simp
    finally show ?thesis
      by simp
  qed
  then have "i + 1 \<le> (j + 1) * 10 ^ (k - R)"
    by (simp only: of_int_less_iff)
  then have "of_int (i + 1) \<le> (of_int ((j + 1) * 10 ^ (k - R)) :: rat)"
    by (simp only: of_int_le_iff)
  then have "(x + 1 / 10 ^ k) * 10 ^ k \<le> (cut x R + 1 / 10 ^ R) * 10 ^ k"
    using assms(1) by (simp add: distrib_right cut k)
  then show "x + 1 / 10 ^ k \<le> cut x R + 1 / 10 ^ R"
    by simp
qed

text \<open>What the loop starts from.\<close>

lemma first_guess_starts:
  assumes "good num" and "0 \<le> LONG_MAX" and "LONG_MAX div 10 * 10 + 9 < 2 ^ 31" and "int (n_len num) \<le> LONG_MAX"
    and "0 < num_val num" and "cmp < 0 \<longleftrightarrow> num_val num < 1"
  obtains g c messages i where "first_guess LONG_MAX num cmp = Some (g, c, messages)" "good g" "n_scale g \<le> c"
    "1 \<le> c" "1 \<le> num_val num * 10 ^ (2 * c)" "num_val g * 10 ^ c = of_int i" "1 \<le> i"
proof (cases "num_val num < 1")
  case True
  then show thesis
    using that [of num_one "n_scale num" "[]" "10 ^ n_scale num"] first_guess_small [OF assms(1,5)] assms(6)
    by (auto simp: first_guess_def)
next
  case False
  then obtain g messages k where g: "first_guess LONG_MAX num cmp = Some (g, 3, messages)" "good g" "n_scale g = 0" "num_val g = 10 ^ k"
    using first_guess_large [OF assms(1-4)] assms(6) by blast
  show thesis
  proof (rule that [OF g(1,2)])
    show "num_val g * 10 ^ 3 = of_int (10 ^ (k + 3))" "1 \<le> (10 :: int) ^ (k + 3)"
      using g(4) by (simp add: power_add) (rule one_le_power, simp)
  qed (use False g(3) in auto)
qed

text \<open>The bounds of the root survive the division by 1 at the end.\<close>

lemma root_after_cut:
  assumes "near_root num k h" and "0 < num_val num" and "R + 1 \<le> k"
  shows "\<exists>s. bc_divide h num_one R = Some s \<and> good s \<and>
    real_of_rat (num_val s) \<le> sqrt (real_of_rat (num_val num)) + 1 / 10 ^ (R + 1) \<and>
    sqrt (real_of_rat (num_val num)) < real_of_rat (num_val s) + 1 / 10 ^ R"
proof -
  note root = near_root_bounds [OF assms(1) less_imp_le [OF assms(2)]]
  obtain i where "good h" "num_val h * 10 ^ k = of_int i"
    using assms(1) unfolding near_root_def by blast
  then obtain s where s: "bc_divide h num_one R = Some s" "num_val s = cut (num_val h) R" "good s"
    using bc_divide_good [OF _ good_numerals(2), of h R] by auto
  have "num_val h + 1 / 10 ^ k \<le> num_val s + 1 / 10 ^ R" "num_val s \<le> num_val h"
    unfolding s(2) using cut_room [OF \<open>num_val h * 10 ^ k = of_int i\<close> root(3)] assms(3) by auto
  then have "real_of_rat (num_val h + 1 / 10 ^ k) \<le> real_of_rat (num_val s + 1 / 10 ^ R)" "real_of_rat (num_val s) \<le> real_of_rat (num_val h)"
    by (simp_all only: of_rat_less_eq)
  moreover have "1 / 10 ^ k \<le> (1 / 10 ^ (R + 1) :: real)"
    using assms(3) by (intro divide_left_mono power_increasing) auto
  ultimately show ?thesis
    using root(1,2) s(1,3) by (simp add: of_rat_add of_rat_divide of_rat_power)
qed

text \<open>
  C7. \<open>bc_sqrt\<close> (lib/number.c) returns for every number that is not negative, and its answer, with MAX (scale, scale of the number)
  decimals, is less than one unit in the last place below the square root and at most a tenth of one above it; a negative number is refused.
  (The number must have at most \<open>LONG_MAX\<close> digits before the point; no product of \<open>bc_num2long\<close> may overflow.)
\<close>

theorem bc_sqrt_root:
  assumes "good num" and "0 \<le> LONG_MAX" and "LONG_MAX div 10 * 10 + 9 < 2 ^ 31" and "int (n_len num) \<le> LONG_MAX"
    and "R = max scale (n_scale num)"
  shows "if num_val num < 0 then bc_sqrt LONG_MAX num scale = Some None
    else \<exists>s messages. bc_sqrt LONG_MAX num scale = Some (Some (s, messages)) \<and> good s \<and>
      real_of_rat (num_val s) \<le> sqrt (real_of_rat (num_val num)) + 1 / 10 ^ (R + 1) \<and>
      sqrt (real_of_rat (num_val num)) < real_of_rat (num_val s) + 1 / 10 ^ R"
proof -
  have zero: "of_int (bc_compare num num_zero) = sgn (num_val num)" and one: "of_int (bc_compare num num_one) = sgn (num_val num - 1)"
    using bc_compare_order [OF assms(1) good_numerals(1)] bc_compare_order [OF assms(1) good_numerals(2)] by simp_all
  consider "num_val num < 0" | "num_val num = 0" | "num_val num = 1" | "0 < num_val num" "num_val num \<noteq> 1"
    by linarith
  then show ?thesis
  proof cases
    case 1
    then show ?thesis
      using zero by (simp add: bc_sqrt_def)
  next
    case 2
    then show ?thesis
      using zero by (auto simp: bc_sqrt_def add_nonneg_pos)
  next
    case 3
    then show ?thesis
      using zero one by (auto simp: bc_sqrt_def)
  next
    case 4
    let ?cmp = "bc_compare num num_one"
    have signs: "bc_compare num num_zero = 1" "?cmp \<noteq> 0" "?cmp < 0 \<longleftrightarrow> num_val num < 1"
      using zero one 4 by (auto simp: sgn_if split: if_splits)
    obtain g c messages i where g: "first_guess LONG_MAX num ?cmp = Some (g, c, messages)" "good g" "n_scale g \<le> c"
      "1 \<le> c" "1 \<le> num_val num * 10 ^ (2 * c)" "num_val g * 10 ^ c = of_int i" "1 \<le> i"
      using first_guess_starts [OF assms(1-4) 4(1) signs(3)] by blast
    then obtain h k where h: "sqrt_loop num R c g = Some h" "R + 1 \<le> k" "near_root num k h"
      using sqrt_loop_val [OF assms(1) 4(1), of c g _ R] by blast
    then show ?thesis
      using root_after_cut [OF h(3) 4(1) h(2)] signs g(1) 4(1) assms(5) by (auto simp: bc_sqrt_def Let_def)
  qed
qed

theorem bc_sqrt_root_witness:
  "\<exists>s messages. bc_sqrt number_h_long_max num_two 3 = Some (Some (s, messages)) \<and> real_of_rat (num_val s) \<le> sqrt 2 + 0.0001 \<and>
     sqrt 2 < real_of_rat (num_val s) + 0.001"
proof -
  have "0 \<le> number_h_long_max" "number_h_long_max div 10 * 10 + 9 < 2 ^ 31" "int (n_len num_two) \<le> number_h_long_max"
    by (simp_all add: number_h_long_max_def num_two_def)
  then show ?thesis
    using bc_sqrt_root [OF good_numerals(3), of number_h_long_max 3 3] by auto
qed

end
