(* ===== verification/Number_Text.thy ===== *)
theory Number_Text
  imports Number_Arith
begin

text \<open>
  Numbers and text (lib/number.c of bc): reading decimal numerals, writing numbers in decimal and in any other base.
  The characters that go to \<open>out_char\<close> are the value of the output functions.
\<close>

definition CH_VAL :: "char \<Rightarrow> int" where
  "CH_VAL c = of_char c - 48"

definition BCD_CHAR :: "int \<Rightarrow> char" where
  "BCD_CHAR d = char_of (d + 48)"

subsection \<open>Decimal\<close>

definition num2str :: "bc_num \<Rightarrow> string" where
  "num2str num =
     (if n_sign num = PLUS then [] else ''-'') @
     map BCD_CHAR (take (n_len num) (n_value num)) @
     (if n_scale num > 0 then CHR ''.'' # map BCD_CHAR (take (n_scale num) (drop (n_len num) (n_value num))) else [])"

definition is_digit :: "char \<Rightarrow> bool" where
  "is_digit c \<longleftrightarrow> 0 \<le> CH_VAL c \<and> CH_VAL c \<le> 9"

definition skip_sign :: "string \<Rightarrow> string" where
  "skip_sign str = (if str \<noteq> [] \<and> (hd str = CHR ''+'' \<or> hd str = CHR ''-'') then tl str else str)"

definition bc_str2num :: "string \<Rightarrow> nat \<Rightarrow> bc_num" where
  "bc_str2num str scale =
     (let ptr = dropWhile (\<lambda>c. c = CHR ''0'') (skip_sign str);
          digits = length (takeWhile is_digit ptr);
          behind = drop digits ptr;
          behind = (if behind \<noteq> [] \<and> hd behind = CHR ''.'' then tl behind else behind);
          strscale = length (takeWhile is_digit behind) in
      if drop strscale behind \<noteq> [] \<or> digits + strscale = 0 then num_zero
      else
        (let strscale = min strscale scale;
             zero_int = (digits = 0);
             fraction = (if strscale > 0 then map CH_VAL (take strscale (drop (digits + 1) ptr)) else []) in
         \<lparr>n_sign = (if str \<noteq> [] \<and> hd str = CHR ''-'' then MINUS else PLUS),
          n_len = (if zero_int then 1 else digits), n_scale = strscale,
          n_value = (if zero_int then [0] else map CH_VAL (take digits ptr)) @ fraction\<rparr>))"

subsection \<open>Any base\<close>

text \<open>What \<open>sprintf\<close> writes for \<open>%ld\<close>.\<close>

definition decimal :: "int \<Rightarrow> string" where
  "decimal val = (if val < 0 then ''-'' else []) @ map BCD_CHAR (rev (int_digits \<bar>val\<bar>))"

definition bc_out_long :: "int \<Rightarrow> nat \<Rightarrow> bool \<Rightarrow> string" where
  "bc_out_long val width space =
     (let digits = decimal val in
      (if space then '' '' else []) @ replicate (width - length digits) (CHR ''0'') @ digits)"

definition ref_str :: string where
  "ref_str = ''0123456789ABCDEF''"

text \<open>The stack of the digits of the integer part, the last one pushed first.\<close>

partial_function (option) out_int_loop :: "int \<Rightarrow> bc_num \<Rightarrow> bc_num \<Rightarrow> int list \<Rightarrow> int list option" where
  [code]: "out_int_loop LONG_MAX base int_part digits =
     (if bc_is_zero int_part then Some digits
      else
        Option.bind (bc_modulo int_part base 0) (\<lambda>cur_dig.
        Option.bind (bc_divide int_part base 0) (\<lambda>int_part.
        out_int_loop LONG_MAX base int_part (bc_num2long LONG_MAX cur_dig # digits))))"

text \<open>One digit in a base up to 16 or above.\<close>

definition out_digit :: "int \<Rightarrow> nat \<Rightarrow> bool \<Rightarrow> int \<Rightarrow> string" where
  "out_digit o_base width space digit =
     (if o_base \<le> 16 then [ref_str ! nat digit] else bc_out_long digit width space)"

partial_function (option) out_frac_loop ::
    "int \<Rightarrow> int \<Rightarrow> bc_num \<Rightarrow> nat \<Rightarrow> nat \<Rightarrow> bc_num \<Rightarrow> bc_num \<Rightarrow> bool \<Rightarrow> string option" where
  [code]: "out_frac_loop LONG_MAX o_base base width scale frac_part t_num pre_space =
     (if n_len t_num \<le> scale then
        Option.bind (bc_multiply frac_part base scale) (\<lambda>frac_part.
        Option.bind (bc_multiply t_num base 0) (\<lambda>t_num.
        Option.bind
          (out_frac_loop LONG_MAX o_base base width scale
            (bc_sub frac_part (bc_int2num (bc_num2long LONG_MAX frac_part)) 0) t_num True) (\<lambda>rest.
        Some (out_digit o_base width pre_space (bc_num2long LONG_MAX frac_part) @ rest))))
      else Some [])"

text \<open>The way for any base.\<close>

definition out_num_general :: "int \<Rightarrow> bc_num \<Rightarrow> int \<Rightarrow> bool \<Rightarrow> string option" where
  "out_num_general LONG_MAX num o_base leading_zero =
     Option.bind (bc_divide num num_one 0) (\<lambda>int_part.
     let frac_part = (bc_sub num int_part 0)\<lparr>n_sign := PLUS\<rparr>;
         base = bc_int2num o_base;
         width = n_len (bc_int2num (o_base - 1)) in
     Option.bind (out_int_loop LONG_MAX base (int_part\<lparr>n_sign := PLUS\<rparr>) []) (\<lambda>digits.
     Option.bind
       (if n_scale num > 0 then
          map_option (\<lambda>ds. CHR ''.'' # ds)
            (out_frac_loop LONG_MAX o_base base width (n_scale num) frac_part num_one False)
        else Some []) (\<lambda>fraction.
     Some
       ((if leading_zero \<and> bc_is_zero num then ''0'' else []) @
        concat (map (out_digit o_base width True) digits) @ fraction))))"

text \<open>The fast way for base 10.\<close>

definition out_num_fast :: "bc_num \<Rightarrow> bool \<Rightarrow> string" where
  "out_num_fast num leading_zero =
     (if n_len num > 1 \<or> hd (n_value num) \<noteq> 0 then map BCD_CHAR (take (n_len num) (n_value num)) else []) @
     (if leading_zero \<and> bc_is_zero num then ''0'' else []) @
     (if n_scale num > 0 then CHR ''.'' # map BCD_CHAR (take (n_scale num) (drop (n_len num) (n_value num))) else [])"

definition bc_out_num :: "int \<Rightarrow> bc_num \<Rightarrow> int \<Rightarrow> bool \<Rightarrow> string option" where
  "bc_out_num LONG_MAX num o_base leading_zero =
     map_option (\<lambda>body. (if n_sign num = MINUS then ''-'' else []) @ body)
     (if bc_is_zero num then Some ''0''
      else if o_base = 10 then Some (out_num_fast num leading_zero)
      else out_num_general LONG_MAX num o_base leading_zero)"

end
