(* ===== verification/Number_Text_Correct.thy ===== *)
theory Number_Text_Correct
  imports Number_Text Number_Arith_Correct
begin

text \<open>
  Numbers and text: a number written in decimal is read back as it was, and the digits written in any other base stand for
  the number.
\<close>

subsection \<open>Decimal\<close>

lemma BCD_CHAR_val: "0 \<le> d \<Longrightarrow> d \<le> 9 \<Longrightarrow> CH_VAL (BCD_CHAR d) = d"
  by (simp add: CH_VAL_def BCD_CHAR_def)

lemma BCD_CHAR_inj:
  assumes "0 \<le> d" "d \<le> 9"
  shows "is_digit (BCD_CHAR d)" "BCD_CHAR d = CHR ''0'' \<longleftrightarrow> d = 0" "BCD_CHAR d \<noteq> CHR ''.''" "BCD_CHAR d \<noteq> CHR ''+''" "BCD_CHAR d \<noteq> CHR ''-''"
proof -
  have "CH_VAL (BCD_CHAR d) = d"
    using assms by (rule BCD_CHAR_val)
  then show "is_digit (BCD_CHAR d)" "BCD_CHAR d \<noteq> CHR ''.''" "BCD_CHAR d \<noteq> CHR ''+''" "BCD_CHAR d \<noteq> CHR ''-''"
    using assms by (auto simp: is_digit_def CH_VAL_def)
  show "BCD_CHAR d = CHR ''0'' \<longleftrightarrow> d = 0"
  proof
    assume "BCD_CHAR d = CHR ''0''"
    then show "d = 0"
      using \<open>CH_VAL (BCD_CHAR d) = d\<close> by (simp add: CH_VAL_def)
  next
    have "BCD_CHAR 0 = CHR ''0''"
      by code_simp
    then show "d = 0 \<Longrightarrow> BCD_CHAR d = CHR ''0''"
      by simp
  qed
qed

lemma digits_text:
  assumes "digs ds"
  shows "map CH_VAL (map BCD_CHAR ds) = ds" "\<forall>c \<in> set (map BCD_CHAR ds). is_digit c"
proof -
  show "map CH_VAL (map BCD_CHAR ds) = ds"
    using assms by (induction ds) (auto simp: BCD_CHAR_val)
  show "\<forall>c \<in> set (map BCD_CHAR ds). is_digit c"
    using assms BCD_CHAR_inj(1) by auto
qed

lemma takeWhile_digits:
  assumes "\<forall>c \<in> set xs. is_digit c" "ys = [] \<or> \<not> is_digit (hd ys)"
  shows "takeWhile is_digit (xs @ ys) = xs"
  using assms by (cases ys) (auto simp: takeWhile_append)

text \<open>What \<open>bc_str2num\<close> makes of a sign, digits without a zero in front, and maybe a point and more digits.\<close>

lemma str2num_digits:
  assumes "digs ds" "digs fs" "ds = [] \<or> hd ds \<noteq> 0" "sg \<in> {[], ''-''}" "length fs \<le> scale" "ds \<noteq> [] \<or> fs \<noteq> []"
    and "z = [] \<or> z = ''0''" "ds = [] \<or> z = []"
  shows "bc_str2num (sg @ z @ map BCD_CHAR ds @ (if fs \<noteq> [] then CHR ''.'' # map BCD_CHAR fs else [])) scale =
    \<lparr>n_sign = (if sg = [] then PLUS else MINUS), n_len = (if ds = [] then 1 else length ds), n_scale = length fs,
     n_value = (if ds = [] then [0] else ds) @ fs\<rparr>"
proof -
  let ?tail = "if fs \<noteq> [] then CHR ''.'' # map BCD_CHAR fs else []"
  let ?body = "map BCD_CHAR ds @ ?tail"
  note chars = digits_text [OF assms(1)] digits_text [OF assms(2)]
  have tail: "?tail = [] \<or> \<not> is_digit (hd ?tail)"
    by (simp add: is_digit_def CH_VAL_def)
  have head: "?body = [] \<or> hd ?body \<noteq> CHR ''0'' \<and> hd ?body \<noteq> CHR ''+'' \<and> hd ?body \<noteq> CHR ''-''"
    using assms(1,3) BCD_CHAR_inj by (cases ds) auto
  have "skip_sign (sg @ z @ ?body) = z @ ?body"
    using assms(4,7) head by (auto simp: skip_sign_def)
  moreover have "dropWhile (\<lambda>c. c = CHR ''0'') (z @ ?body) = ?body"
    using assms(7) head by (cases ?body) auto
  ultimately have ptr: "dropWhile (\<lambda>c. c = CHR ''0'') (skip_sign (sg @ z @ ?body)) = ?body"
    by simp
  have digits: "length (takeWhile is_digit ?body) = length ds"
    using takeWhile_digits [OF chars(2) tail] by simp
  have behind: "drop (length ds) ?body = ?tail" "take (length ds) ?body = map BCD_CHAR ds" "drop (length ds + 1) ?body = map BCD_CHAR fs"
    by simp_all
  have fraction: "length (takeWhile is_digit (map BCD_CHAR fs)) = length fs"
    using takeWhile_digits [OF chars(4), of "[]"] by (metis append_Nil2 length_map)
  have sign: "sg @ z @ ?body \<noteq> [] \<and> hd (sg @ z @ ?body) = CHR ''-'' \<longleftrightarrow> sg \<noteq> []"
    using assms(4,7) head by auto
  show ?thesis
  proof (cases "fs = []")
    case True
    then show ?thesis
      using ptr digits behind sign assms(6,8) chars(1) by (auto simp: bc_str2num_def Let_def)
  next
    case False
    then have "drop (length (takeWhile is_digit (map BCD_CHAR fs))) (map BCD_CHAR fs) = []" "take (length fs) (map BCD_CHAR fs) = map BCD_CHAR fs"
      by (simp_all add: fraction)
    then show ?thesis
      using ptr digits behind sign assms(5,6,8) chars(1,3) fraction False by (auto simp: bc_str2num_def Let_def min_absorb1)
  qed
qed

text \<open>Whatever the text, the number read is well-formed; only a negative zero can come out.\<close>

lemma str2num_normal: "normal (bc_str2num str scale)" "n_scale (bc_str2num str scale) \<le> scale"
proof -
  define ptr where "ptr = dropWhile (\<lambda>c. c = CHR ''0'') (skip_sign str)"
  define whole where "whole = takeWhile is_digit ptr"
  define behind where "behind = (let b = drop (length whole) ptr in if b \<noteq> [] \<and> hd b = CHR ''.'' then tl b else b)"
  define frac where "frac = takeWhile is_digit behind"
  have rest: "drop (length whole) ptr = dropWhile is_digit ptr"
    by (simp add: whole_def dropWhile_eq_drop)
  have whole: "take (length whole) ptr = whole" "\<forall>c \<in> set whole. is_digit c"
    by (auto simp: whole_def dest: set_takeWhileD simp flip: takeWhile_eq_take)
  have frac: "take (min (length frac) scale) (drop (length whole + 1) ptr) = take (min (length frac) scale) frac"
  proof (cases "drop (length whole) ptr \<noteq> [] \<and> hd (drop (length whole) ptr) = CHR ''.''")
    case True
    then have "behind = drop (length whole + 1) ptr"
      by (simp add: behind_def tl_drop drop_Suc)
    moreover have "take (length frac) behind = frac"
      by (simp add: frac_def flip: takeWhile_eq_take)
    then have "take (min (length frac) scale) behind = take (min (length frac) scale) frac"
      by (metis min.cobounded1 min.commute min_def take_take)
    ultimately show ?thesis
      by simp
  next
    case False
    then have "behind = dropWhile is_digit ptr"
      unfolding behind_def Let_def rest by (rule if_not_P)
    then have "frac = []"
      using hd_dropWhile [of is_digit ptr] by (auto simp: frac_def takeWhile_eq_Nil_iff)
    then show ?thesis
      by simp
  qed
  have zero: "hd (map CH_VAL whole) \<noteq> 0" if "whole \<noteq> []"
  proof -
    have "ptr \<noteq> []" "hd whole = hd ptr"
      using that by (cases ptr; simp add: whole_def split: if_splits)+
    moreover have "hd ptr \<noteq> CHR ''0''" if "ptr \<noteq> []"
      using hd_dropWhile that unfolding ptr_def by blast
    ultimately have "hd whole \<noteq> CHR ''0''"
      by simp
    then have "of_char (hd whole) \<noteq> (of_char (CHR ''0'') :: int)"
      unfolding of_char_eq_iff .
    then show ?thesis
      using that by (simp add: hd_map CH_VAL_def)
  qed
  have digits: "digs (map CH_VAL whole)" "digs (map CH_VAL (take k frac))" for k
    using whole(2) by (auto simp: is_digit_def frac_def dest!: in_set_takeD set_takeWhileD)
  have num: "bc_str2num str scale =
     (if drop (length frac) behind \<noteq> [] \<or> length whole + length frac = 0 then num_zero
      else \<lparr>n_sign = (if str \<noteq> [] \<and> hd str = CHR ''-'' then MINUS else PLUS),
          n_len = (if whole = [] then 1 else length whole), n_scale = min (length frac) scale,
          n_value = (if whole = [] then [0] else map CH_VAL whole) @ map CH_VAL (take (min (length frac) scale) frac)\<rparr>)"
    using whole(1) frac unfolding bc_str2num_def Let_def ptr_def [symmetric] whole_def [symmetric] behind_def [unfolded Let_def, symmetric]
      frac_def [symmetric] by simp
  show "normal (bc_str2num str scale)" "n_scale (bc_str2num str scale) \<le> scale"
    using digits zero numerals_ok(1) by (simp_all add: num normal_def num_ok_def Suc_le_eq)
qed

text \<open>The digits of a number as they are printed: the zero in front of the point is dropped by \<open>bc_str2num\<close>.\<close>

lemma printed_digits:
  assumes "good n" "length (n_value n) = n_len n + n_scale n"
  shows "\<exists>z ds fs. take (n_len n) (n_value n) = (if ds = [] then [0] else ds) \<and> drop (n_len n) (n_value n) = fs \<and> length fs = n_scale n \<and>
    digs ds \<and> digs fs \<and> (ds = [] \<or> hd ds \<noteq> 0) \<and> n_len n = (if ds = [] then 1 else length ds) \<and>
    z = (if ds = [] then ''0'' else []) \<and> map BCD_CHAR (take (n_len n) (n_value n)) = z @ map BCD_CHAR ds \<and>
    (n_len n > 1 \<or> hd (n_value n) \<noteq> 0 \<longleftrightarrow> ds \<noteq> []) \<and> n_value n = (if ds = [] then [0] else ds) @ fs"
proof -
  let ?whole = "take (n_len n) (n_value n)" and ?fs = "drop (n_len n) (n_value n)"
  have ok: "digs (n_value n)" "1 \<le> n_len n" "1 < n_len n \<longrightarrow> hd (n_value n) \<noteq> 0" "n_len n \<le> length (n_value n)"
    using assms by (auto simp: good_def normal_def num_ok_def)
  then have digits: "digs ?whole" "digs ?fs" "length ?whole = n_len n" "hd ?whole = hd (n_value n)" "length ?fs = n_scale n"
    using assms(2) by (auto dest: in_set_takeD in_set_dropD)
  show ?thesis
  proof (cases "n_len n > 1 \<or> hd (n_value n) \<noteq> 0")
    case True
    then have "hd ?whole \<noteq> 0" "?whole \<noteq> []"
      using digits(3,4) ok by auto
    then show ?thesis
      using True digits by (intro exI [of _ "[]"] exI [of _ ?whole] exI [of _ ?fs]) simp
  next
    case False
    then have "n_len n = 1" "hd ?whole = 0"
      using ok(2) digits(4) by simp_all
    then have whole: "?whole = [0]"
      using ok(4) by (cases "n_value n") (simp_all add: \<open>n_len n = 1\<close>)
    have "BCD_CHAR 0 = CHR ''0''"
      by code_simp
    then show ?thesis
      using False whole digits(2,5) \<open>n_len n = 1\<close> append_take_drop_id [of "n_len n" "n_value n"]
      by (intro exI [of _ "''0''"] exI [of _ "[]"] exI [of _ ?fs]) (simp add: whole)
  qed
qed

text \<open>
  C11. \<open>bc_str2num\<close> reads what \<open>num2str\<close> has written, and what \<open>bc_out_num\<close> prints in base 10 (lib/number.c): the result has
  the same sign, the same digits and the same scale. Only a zero with decimals comes back from \<open>bc_out_num\<close> as a plain zero.
\<close>

theorem decimal_round_trip:
  assumes "good n" and "length (n_value n) = n_len n + n_scale n" and "n_scale n \<le> scale"
  shows "bc_str2num (num2str n) scale = n \<and>
    (\<exists>t. bc_out_num LONG_MAX n 10 leading_zero = Some t \<and> bc_str2num t scale = (if bc_is_zero n then num_zero else n))"
proof -
  obtain z ds fs where n: "map BCD_CHAR (take (n_len n) (n_value n)) = z @ map BCD_CHAR ds" "drop (n_len n) (n_value n) = fs"
    "length fs = n_scale n" "digs ds" "digs fs" "ds = [] \<or> hd ds \<noteq> 0" "n_len n = (if ds = [] then 1 else length ds)"
    "z = (if ds = [] then ''0'' else [])" "n_len n > 1 \<or> hd (n_value n) \<noteq> 0 \<longleftrightarrow> ds \<noteq> []" "n_value n = (if ds = [] then [0] else ds) @ fs"
    using printed_digits [OF assms(1,2)] by blast
  let ?tail = "if fs \<noteq> [] then CHR ''.'' # map BCD_CHAR fs else []" and ?sg = "if n_sign n = PLUS then [] else ''-''"
  have tail: "(if n_scale n > 0 then CHR ''.'' # map BCD_CHAR (take (n_scale n) (drop (n_len n) (n_value n))) else []) = ?tail"
    using n(2,3) by auto
  have written: "num2str n = ?sg @ z @ map BCD_CHAR ds @ ?tail"
    by (simp only: num2str_def n(1) tail append_assoc)
  have sign: "?sg \<in> {[], ''-''}" "(if ?sg = [] then PLUS else MINUS) = n_sign n"
    by (cases "n_sign n"; simp)+
  have zero: "bc_str2num ''0'' scale = num_zero"
    by (simp add: bc_str2num_def skip_sign_def)
  have read: "bc_str2num (?sg @ z' @ map BCD_CHAR ds @ ?tail) scale = n"
    if "ds \<noteq> [] \<or> fs \<noteq> []" "z' = [] \<or> z' = ''0''" "ds = [] \<or> z' = []" for z'
    using str2num_digits [OF n(4,5,6) sign(1) _ that, of scale] assms(3) n(3,7,10) sign(2) by simp
  have "bc_str2num (num2str n) scale = n"
  proof (cases "ds = [] \<and> fs = []")
    case True
    then have n0: "n_len n = 1" "n_value n = [0]" "n_scale n = 0"
      using n(3,7,10) by simp_all
    then have "num_val n = 0"
      by (simp add: num_val_def abs_val_def mag_def num_digits_def nval_Cons)
    then have "n_sign n = PLUS"
      using goodD(3) [OF assms(1)] by (simp add: zero_plus_def)
    then show ?thesis
      using True n(8) zero n0 unfolding written by (simp add: num_zero_def bc_new_num_def)
  next
    case False
    then show ?thesis
      using read [of z] n(8) unfolding written by auto
  qed
  moreover have "\<exists>t. bc_out_num LONG_MAX n 10 leading_zero = Some t \<and> bc_str2num t scale = (if bc_is_zero n then num_zero else n)"
  proof (cases "bc_is_zero n")
    case True
    then have "n_sign n = PLUS"
      using goodD(2,3) [OF assms(1)] is_zero_val by (simp add: zero_plus_def)
    then show ?thesis
      using True zero by (simp add: bc_out_num_def)
  next
    case False
    have "ds \<noteq> [] \<or> fs \<noteq> []"
      using False n by (auto simp: bc_is_zero_def)
    moreover have "bc_out_num LONG_MAX n 10 leading_zero = Some (?sg @ [] @ map BCD_CHAR ds @ ?tail)"
      using False n(1,8,9) tail by (cases "n_sign n") (simp_all add: bc_out_num_def out_num_fast_def)
    ultimately show ?thesis
      using False read [of "[]"] by simp
  qed
  ultimately show ?thesis ..
qed

theorem decimal_round_trip_witness:
  "\<exists>t. bc_out_num 0 \<lparr>n_sign = MINUS, n_len = 1, n_scale = 2, n_value = [0, 2, 5]\<rparr> 10 True = Some t \<and>
    bc_str2num t 3 = \<lparr>n_sign = MINUS, n_len = 1, n_scale = 2, n_value = [0, 2, 5]\<rparr>"
proof -
  let ?n = "\<lparr>n_sign = MINUS, n_len = 1, n_scale = 2, n_value = [0, 2, 5]\<rparr>"
  have "good ?n"
    by (simp add: good_def zero_plus_def normal_def num_ok_def num_val_def sign_val_def abs_val_def mag_def num_digits_def nval_Cons)
  moreover have "\<not> bc_is_zero ?n"
    by code_simp
  ultimately show ?thesis
    using decimal_round_trip [of ?n 3 0 True] by simp
qed

subsection \<open>Any base\<close>

text \<open>The value of digits with the first digit first, in any base.\<close>

definition base_val :: "int \<Rightarrow> int list \<Rightarrow> int" where
  "base_val b ds = foldl (\<lambda>a d. a * b + d) 0 ds"

lemma base_val_simps [simp]: "base_val b [] = 0" "base_val b (ds @ [d]) = base_val b ds * b + d"
  by (simp_all add: base_val_def)

lemma base_val_append: "base_val b (ds @ fs) = base_val b ds * b ^ length fs + base_val b fs"
  by (induction fs rule: rev_induct) (simp_all add: algebra_simps flip: append_assoc)

lemma base_val_Cons: "base_val b (d # ds) = d * b ^ length ds + base_val b ds"
  by (induction ds rule: rev_induct) (simp_all add: base_val_def algebra_simps)

lemma good_nonneg: "good n \<Longrightarrow> 0 \<le> num_val n \<Longrightarrow> n_sign n = PLUS \<and> abs_val n = num_val n"
  using good_minus [of n] abs_val_nonneg [OF goodD(2), of n] by (cases "n_sign n") (auto simp: num_val_def sign_val_def)

lemma good_plus: "good n \<Longrightarrow> good (n\<lparr>n_sign := PLUS\<rparr>) \<and> num_val (n\<lparr>n_sign := PLUS\<rparr>) = \<bar>num_val n\<bar>"
  using abs_val_nonneg [OF goodD(2), of n] by (simp add: good_def zero_plus_def num_val_def sign_val_def)

text \<open>What the conversions need of \<open>LONG_MAX\<close> for the digits of a base.\<close>

definition base_fits :: "int \<Rightarrow> int \<Rightarrow> bool" where
  "base_fits LONG_MAX b \<longleftrightarrow> 2 \<le> b \<and> 0 \<le> LONG_MAX \<and> LONG_MAX div 10 * 10 + 9 < 2 ^ 31 \<and> b div 10 \<le> LONG_MAX div 10"

lemma base_fits_small: "base_fits L b \<Longrightarrow> b < 2 ^ 31"
  unfolding base_fits_def by linarith

lemma digit_num2long:
  assumes "good n" "0 \<le> num_val n" "num_val n < of_int b" "base_fits L b"
  shows "bc_num2long L n = \<lfloor>num_val n\<rfloor>" "0 \<le> \<lfloor>num_val n\<rfloor>" "\<lfloor>num_val n\<rfloor> < b"
proof -
  show bounds: "0 \<le> \<lfloor>num_val n\<rfloor>" "\<lfloor>num_val n\<rfloor> < b"
    using assms(2,3) by (simp_all add: floor_less_iff)
  then have "\<lfloor>num_val n\<rfloor> div 10 \<le> L div 10"
    using assms(4) zdiv_mono1 [of "\<lfloor>num_val n\<rfloor>" b 10] by (simp add: base_fits_def)
  then show "bc_num2long L n = \<lfloor>num_val n\<rfloor>"
    using bc_num2long_bounds [OF goodD(2) [OF assms(1)], of L] assms(1,4) good_nonneg [OF assms(1,2)]
    by (simp add: base_fits_def good_def normal_def)
qed

lemma out_int_loop_digits:
  assumes "int_num base b" "base_fits L b" "int_num n i" "0 \<le> i"
  shows "\<exists>ds. out_int_loop L base n stack = Some (ds @ stack) \<and> set ds \<subseteq> {0..<b} \<and> base_val b ds = i \<and> (ds \<noteq> [] \<longrightarrow> hd ds \<noteq> 0)"
  using assms(3,4)
proof (induction "nat i" arbitrary: n i stack rule: less_induct)
  case less
  have b: "2 \<le> b"
    using assms(2) by (simp add: base_fits_def)
  show ?case
  proof (cases "i = 0")
    case True
    then have "out_int_loop L base n stack = Some stack"
      using int_num_zero [OF less(2)] by (subst out_int_loop.simps) simp
    then show ?thesis
      using True by (intro exI [of _ "[]"]) simp
  next
    case False
    have c: "tquot i b = i div b" "trem i b = i mod b"
      using less(3) b False by (simp_all add: tquot_def trem_def)
    obtain q r where qr: "bc_divmod n base 0 = Some (q, r)" "int_num q (i div b)" "int_num r (i mod b)"
      using bc_divmod_int [OF less(2) assms(1)] b unfolding c by auto
    have "bc_divide n base 0 = Some q" "bc_modulo n base 0 = Some r"
      using qr(1) by (auto simp: bc_divmod_def bc_modulo_def Let_def bind_eq_Some_conv split: if_splits)
    moreover have r: "good r" "num_val r = of_int (i mod b)"
      using qr(3) by (simp_all add: int_num_def)
    have "bc_num2long L r = i mod b"
      using digit_num2long(1) [OF r(1) _ _ assms(2)] b by (simp add: r(2))
    ultimately have step: "out_int_loop L base n stack = out_int_loop L base q (i mod b # stack)"
      using False int_num_zero [OF less(2)] by (subst out_int_loop.simps) simp
    have "nat (i div b) < nat i"
      using False less(3) b by (simp add: int_div_less_self)
    moreover have "0 \<le> i div b"
      using less(3) b by (simp add: pos_imp_zdiv_nonneg_iff)
    ultimately obtain ds where ds: "out_int_loop L base q (i mod b # stack) = Some (ds @ i mod b # stack)" "set ds \<subseteq> {0..<b}"
      "base_val b ds = i div b" "ds \<noteq> [] \<longrightarrow> hd ds \<noteq> 0"
      using less(1) [OF _ qr(2), of "i mod b # stack"] by blast
    moreover have "i mod b \<noteq> 0" if "ds = []"
      using ds(3) that False div_mult_mod_eq [of i b] by auto
    ultimately show ?thesis
      using step b by (intro exI [of _ "ds @ [i mod b]"]) (auto simp: hd_append)
  qed
qed

text \<open>The digits after the point as they are printed: no space before the first one.\<close>

fun frac_text :: "int \<Rightarrow> nat \<Rightarrow> bool \<Rightarrow> int list \<Rightarrow> string" where
  "frac_text b width space [] = []"
| "frac_text b width space (d # ds) = out_digit b width space d @ frac_text b width True ds"

lemma int_num_len:
  assumes "int_num n i" "0 < i"
  shows "n_len n \<le> s \<longleftrightarrow> i < 10 ^ s"
proof -
  have n: "normal n" "num_ok n" "n_scale n = 0"
    using assms(1) goodD by (simp_all add: int_num_def)
  have "(of_int (mag n) :: rat) = of_int i"
    using assms good_nonneg [of n] n(3) by (simp add: int_num_def abs_val_def)
  then have mag: "mag n = i"
    by (simp only: of_int_eq_iff)
  have upper: "i < 10 ^ n_len n"
    using mag_less [OF n(2)] by (simp add: mag n(3))
  have lower: "10 ^ (n_len n - 1) \<le> i"
  proof (cases "1 < n_len n")
    case True
    then obtain d ds where ds: "num_digits n = d # ds" "d \<noteq> 0" "length ds = n_len n - 1"
      using n num_digits_ok(2) [OF n(2)] by (cases "n_value n"; cases "n_len n") (auto simp: normal_def num_digits_def num_ok_def)
    then show ?thesis
      using nval_head [of d ds] num_digits_ok(1) [OF n(2)] mag by (simp add: mag_def)
  qed (use assms(2) in simp)
  show ?thesis
  proof
    assume "n_len n \<le> s"
    then have "(10 :: int) ^ n_len n \<le> 10 ^ s"
      by (intro power_increasing) auto
    then show "i < 10 ^ s"
      using upper by linarith
  next
    assume "i < 10 ^ s"
    then have "(10 :: int) ^ (n_len n - 1) < 10 ^ s"
      using lower by linarith
    then have "n_len n - 1 < s"
      by (rule power_less_imp_less_exp [rotated]) simp
    then show "n_len n \<le> s"
      by simp
  qed
qed

text \<open>One digit of the fraction: the integer part of the fraction times the base, and what is left.\<close>

lemma frac_step:
  assumes "int_num base b" "base_fits L b" "good f" "n_scale f = s" "0 \<le> num_val f" "num_val f < 1"
  shows "\<exists>p. bc_multiply f base s = Some p \<and> bc_num2long L p = \<lfloor>num_val f * of_int b\<rfloor> \<and> \<lfloor>num_val f * of_int b\<rfloor> \<in> {0..<b} \<and>
    good (bc_sub p (bc_int2num (bc_num2long L p)) 0) \<and> n_scale (bc_sub p (bc_int2num (bc_num2long L p)) 0) = s \<and>
    num_val (bc_sub p (bc_int2num (bc_num2long L p)) 0) = num_val f * of_int b - of_int \<lfloor>num_val f * of_int b\<rfloor>"
proof -
  have b: "2 \<le> b" "b < 2 ^ 31" "num_val base = of_int b" "good base" "n_scale base = 0"
    using assms(1,2) base_fits_small by (simp_all add: base_fits_def int_num_def)
  obtain p where p: "bc_multiply f base s = Some p" "num_val p = num_val f * of_int b" "n_scale p = s" "good p"
    using bc_multiply_exact [OF assms(3) b(4), of s] assms(4) b(3,5) by auto
  have "num_val f * of_int b < 1 * of_int b"
    using assms(6) b(1) by (intro mult_strict_right_mono) auto
  then have range: "0 \<le> num_val p" "num_val p < of_int b"
    using assms(5) b(1) by (simp_all add: p(2))
  note digit = digit_num2long [OF p(4) range assms(2)]
  define d where "d = \<lfloor>num_val p\<rfloor>"
  have "- (2 ^ 31) < d" "d < 2 ^ 31"
    using digit(2,3) b(2) unfolding d_def by linarith+
  note int = bc_int2num_val [OF this]
  show ?thesis
    using p digit bc_add_good(2) [OF p(4) int(2)] bc_sub_val [OF goodD(1,1), OF p(4) int(2), of 0] int(1,3)
    by (simp add: d_def)
qed

lemma out_frac_loop_digits:
  assumes "int_num base b" "base_fits L b" "int_num t (b ^ k)" "good f" "n_scale f = s" "0 \<le> num_val f" "num_val f < 1"
  shows "\<exists>ds. out_frac_loop L b base w s f t space = Some (frac_text b w space ds) \<and> set ds \<subseteq> {0..<b} \<and>
    of_int (base_val b ds) \<le> num_val f * of_int b ^ length ds \<and> num_val f * of_int b ^ length ds < of_int (base_val b ds) + 1 \<and>
    10 ^ s \<le> b ^ (k + length ds) \<and> (ds \<noteq> [] \<longrightarrow> b ^ (k + length ds - 1) < 10 ^ s)"
  using assms(3-)
proof (induction "nat (10 ^ s - b ^ k)" arbitrary: k t f space rule: less_induct)
  case less
  have b: "2 \<le> b"
    using assms(2) by (simp add: base_fits_def)
  then have len: "n_len t \<le> s \<longleftrightarrow> b ^ k < 10 ^ s"
    using int_num_len [OF less(2)] by simp
  show ?case
  proof (cases "b ^ k < 10 ^ s")
    case False
    then have "out_frac_loop L b base w s f t space = Some []"
      using len by (subst out_frac_loop.simps) simp
    then show ?thesis
      using False less(5,6) by (intro exI [of _ "[]"]) simp
  next
    case True
    define d where "d = \<lfloor>num_val f * of_int b\<rfloor>"
    obtain p where p: "bc_multiply f base s = Some p" "bc_num2long L p = d" "d \<in> {0..<b}" "good (bc_sub p (bc_int2num d) 0)"
      "n_scale (bc_sub p (bc_int2num d) 0) = s" "num_val (bc_sub p (bc_int2num d) 0) = num_val f * of_int b - of_int d"
      using frac_step [OF assms(1,2) less(3-6)] unfolding d_def by metis
    obtain t' where t': "bc_multiply t base 0 = Some t'" "int_num t' (b ^ Suc k)"
      using bc_multiply_int [OF less(2) assms(1)] by (auto simp: mult.commute)
    have range: "0 \<le> num_val (bc_sub p (bc_int2num d) 0)" "num_val (bc_sub p (bc_int2num d) 0) < 1"
      unfolding p(6) unfolding d_def by linarith+
    have "b ^ k * 1 < b ^ k * b"
      using b by (intro mult_strict_left_mono) auto
    then have "b ^ k < b ^ Suc k"
      by (simp add: mult.commute)
    then have "nat (10 ^ s - b ^ Suc k) < nat (10 ^ s - b ^ k)"
      using True by linarith
    then obtain ds where ds: "out_frac_loop L b base w s (bc_sub p (bc_int2num d) 0) t' True = Some (frac_text b w True ds)"
      "set ds \<subseteq> {0..<b}"
      "of_int (base_val b ds) \<le> (num_val f * of_int b - of_int d) * of_int b ^ length ds"
      "(num_val f * of_int b - of_int d) * of_int b ^ length ds < of_int (base_val b ds) + 1"
      "10 ^ s \<le> b ^ (Suc k + length ds)" "ds \<noteq> [] \<longrightarrow> b ^ (Suc k + length ds - 1) < 10 ^ s"
      using less(1) [OF _ t'(2) p(4,5) range, of True] unfolding p(6) by blast
    have "out_frac_loop L b base w s f t space = Some (frac_text b w space (d # ds))"
      using True len p(1,2) t'(1) ds(1) by (subst out_frac_loop.simps) simp
    moreover have "num_val f * of_int b ^ length (d # ds) =
        of_int (d * b ^ length ds) + (num_val f * of_int b - of_int d) * of_int b ^ length ds"
      by (simp add: algebra_simps)
    ultimately show ?thesis
      using ds p(3) True by (intro exI [of _ "d # ds"]) (cases "ds = []"; simp add: base_val_Cons)
  qed
qed

lemma sgn_diff: "0 \<le> y \<Longrightarrow> y \<le> \<bar>x\<bar> \<Longrightarrow> \<bar>x - sgn x * y\<bar> = \<bar>x\<bar> - (y :: rat)"
  by (auto simp: sgn_if abs_if)

text \<open>The integer part and the fraction that \<open>bc_out_num\<close> starts with.\<close>

lemma out_parts:
  assumes "good n"
  shows "\<exists>i. bc_divide n num_one 0 = Some i \<and> int_num (i\<lparr>n_sign := PLUS\<rparr>) \<lfloor>\<bar>num_val n\<bar>\<rfloor> \<and>
    good ((bc_sub n i 0)\<lparr>n_sign := PLUS\<rparr>) \<and> n_scale (bc_sub n i 0) = n_scale n \<and>
    num_val ((bc_sub n i 0)\<lparr>n_sign := PLUS\<rparr>) = \<bar>num_val n\<bar> - of_int \<lfloor>\<bar>num_val n\<bar>\<rfloor>"
proof -
  let ?x = "num_val n"
  obtain i where i: "bc_divide n num_one 0 = Some i" "num_val i = cut ?x 0" "n_scale i = 0" "good i"
    using bc_divide_good [OF assms, of num_one 0] by auto
  have cut: "num_val i = sgn ?x * of_int \<lfloor>\<bar>?x\<bar>\<rfloor>"
    by (simp add: i(2) cut_def)
  have floor: "0 \<le> \<lfloor>\<bar>?x\<bar>\<rfloor>" "of_int \<lfloor>\<bar>?x\<bar>\<rfloor> \<le> \<bar>?x\<bar>"
    by simp_all
  have "\<bar>num_val i\<bar> = of_int \<lfloor>\<bar>?x\<bar>\<rfloor>"
    using floor(1) by (cases "?x = 0") (simp_all add: cut abs_mult)
  moreover have "\<bar>?x - num_val i\<bar> = \<bar>?x\<bar> - of_int \<lfloor>\<bar>?x\<bar>\<rfloor>"
    unfolding cut using floor by (intro sgn_diff) simp_all
  moreover have "num_val (bc_sub n i 0) = ?x - num_val i" "n_scale (bc_sub n i 0) = n_scale n"
    using bc_sub_val [OF goodD(1,1), OF assms i(4), of 0] i(3) by simp_all
  ultimately show ?thesis
    using i(1,3) good_plus [OF i(4)] good_plus [OF bc_add_good(2) [OF assms i(4), of 0]] by (simp add: int_num_def)
qed

text \<open>The general way, in any base.\<close>

lemma out_num_general_digits:
  assumes "good n" and "num_val n \<noteq> 0" and "base_fits LONG_MAX b"
  defines "width \<equiv> n_len (bc_int2num (b - 1))"
  shows "\<exists>ds fs. out_num_general LONG_MAX n b leading_zero =
      Some (concat (map (out_digit b width True) ds) @ (if n_scale n > 0 then CHR ''.'' # frac_text b width False fs else [])) \<and>
    set ds \<subseteq> {0..<b} \<and> set fs \<subseteq> {0..<b} \<and> base_val b ds = \<lfloor>\<bar>num_val n\<bar>\<rfloor> \<and> (ds \<noteq> [] \<longrightarrow> hd ds \<noteq> 0) \<and>
    of_int (base_val b fs) \<le> (\<bar>num_val n\<bar> - of_int \<lfloor>\<bar>num_val n\<bar>\<rfloor>) * of_int b ^ length fs \<and>
    (\<bar>num_val n\<bar> - of_int \<lfloor>\<bar>num_val n\<bar>\<rfloor>) * of_int b ^ length fs < of_int (base_val b fs) + 1 \<and>
    10 ^ n_scale n \<le> b ^ length fs \<and> (fs \<noteq> [] \<longrightarrow> b ^ (length fs - 1) < 10 ^ n_scale n)"
proof -
  let ?x = "\<bar>num_val n\<bar>" and ?s = "n_scale n"
  obtain i where i: "bc_divide n num_one 0 = Some i" "int_num (i\<lparr>n_sign := PLUS\<rparr>) \<lfloor>?x\<rfloor>" "good ((bc_sub n i 0)\<lparr>n_sign := PLUS\<rparr>)"
    "n_scale (bc_sub n i 0) = ?s" "num_val ((bc_sub n i 0)\<lparr>n_sign := PLUS\<rparr>) = ?x - of_int \<lfloor>?x\<rfloor>"
    using out_parts [OF assms(1)] by blast
  define f where "f = (bc_sub n i 0)\<lparr>n_sign := PLUS\<rparr>"
  have f: "good f" "n_scale f = ?s" "0 \<le> num_val f" "num_val f < 1"
    using i(3,4) unfolding f_def i(5) by (simp, simp) linarith+
  have b: "- (2 ^ 31) < b" "b < 2 ^ 31"
    using base_fits_small [OF assms(3)] assms(3) unfolding base_fits_def by linarith+
  have base: "int_num (bc_int2num b) b"
    using bc_int2num_val(1-3) [OF b] by (simp add: int_num_def)
  obtain ds where ds: "out_int_loop LONG_MAX (bc_int2num b) (i\<lparr>n_sign := PLUS\<rparr>) [] = Some (ds @ [])" "set ds \<subseteq> {0..<b}"
    "base_val b ds = \<lfloor>?x\<rfloor>" "ds \<noteq> [] \<longrightarrow> hd ds \<noteq> 0"
    using out_int_loop_digits [OF base assms(3) i(2), of "[]"] by auto
  have one: "int_num num_one (b ^ 0)"
    by simp
  obtain fs where fs: "out_frac_loop LONG_MAX b (bc_int2num b) width ?s f num_one False = Some (frac_text b width False fs)"
    "set fs \<subseteq> {0..<b}" "of_int (base_val b fs) \<le> num_val f * of_int b ^ length fs"
    "num_val f * of_int b ^ length fs < of_int (base_val b fs) + 1" "10 ^ ?s \<le> b ^ (0 + length fs)"
    "fs \<noteq> [] \<longrightarrow> b ^ (0 + length fs - 1) < 10 ^ ?s"
    using out_frac_loop_digits [OF base assms(3) one f, of width False] by blast
  have "\<not> bc_is_zero n"
    using is_zero_val [OF goodD(2) [OF assms(1)]] assms(2) by simp
  then have "out_num_general LONG_MAX n b leading_zero =
      Some (concat (map (out_digit b width True) ds) @ (if ?s > 0 then CHR ''.'' # frac_text b width False fs else []))"
    using i(1) ds(1) fs(1) by (simp add: out_num_general_def Let_def f_def width_def)
  then show ?thesis
    using ds(2-4) fs(2-6) unfolding f_def i(5) by (intro exI [of _ ds] exI [of _ fs]) simp
qed

text \<open>
  C9. \<open>bc_out_num\<close> (lib/number.c) prints a number that is not zero, in any base from 2 up except 10: a minus sign, the digits of the
  integer part without a leading zero, and after a point those of the fraction. The digits are those of the base, they
  stand for the number rounded toward zero to the places printed, and there are just as many places as are needed to
  have no less precision than the decimals of the number.
\<close>

theorem out_num_base:
  assumes "good n" and "num_val n \<noteq> 0" and "base_fits LONG_MAX b" and "b \<noteq> 10"
  defines "width \<equiv> n_len (bc_int2num (b - 1))"
  shows "\<exists>ds fs. bc_out_num LONG_MAX n b leading_zero =
      Some ((if n_sign n = MINUS then ''-'' else []) @ concat (map (out_digit b width True) ds) @
        (if n_scale n > 0 then CHR ''.'' # frac_text b width False fs else [])) \<and>
    set (ds @ fs) \<subseteq> {0..<b} \<and> base_val b ds = \<lfloor>\<bar>num_val n\<bar>\<rfloor> \<and> (ds \<noteq> [] \<longrightarrow> hd ds \<noteq> 0) \<and>
    of_int (base_val b (ds @ fs)) \<le> \<bar>num_val n\<bar> * of_int b ^ length fs \<and>
    \<bar>num_val n\<bar> * of_int b ^ length fs < of_int (base_val b (ds @ fs)) + 1 \<and>
    10 ^ n_scale n \<le> b ^ length fs \<and> (fs \<noteq> [] \<longrightarrow> b ^ (length fs - 1) < 10 ^ n_scale n)"
proof -
  let ?x = "\<bar>num_val n\<bar>"
  obtain ds fs where ds: "out_num_general LONG_MAX n b leading_zero =
      Some (concat (map (out_digit b width True) ds) @ (if n_scale n > 0 then CHR ''.'' # frac_text b width False fs else []))"
    "set ds \<subseteq> {0..<b}" "set fs \<subseteq> {0..<b}" "base_val b ds = \<lfloor>?x\<rfloor>" "ds \<noteq> [] \<longrightarrow> hd ds \<noteq> 0"
    "of_int (base_val b fs) \<le> (?x - of_int \<lfloor>?x\<rfloor>) * of_int b ^ length fs"
    "(?x - of_int \<lfloor>?x\<rfloor>) * of_int b ^ length fs < of_int (base_val b fs) + 1"
    "10 ^ n_scale n \<le> b ^ length fs" "fs \<noteq> [] \<longrightarrow> b ^ (length fs - 1) < 10 ^ n_scale n"
    using out_num_general_digits [OF assms(1-3)] unfolding width_def by blast
  have "\<not> bc_is_zero n"
    using is_zero_val [OF goodD(2) [OF assms(1)]] assms(2) by simp
  then have "bc_out_num LONG_MAX n b leading_zero =
      Some ((if n_sign n = MINUS then ''-'' else []) @ concat (map (out_digit b width True) ds) @
        (if n_scale n > 0 then CHR ''.'' # frac_text b width False fs else []))"
    using assms(4) ds(1) by (simp add: bc_out_num_def)
  moreover have "base_val b (ds @ fs) = \<lfloor>?x\<rfloor> * b ^ length fs + base_val b fs"
    using base_val_append [of b ds fs] ds(4) by simp
  moreover have "?x * of_int b ^ length fs = of_int (\<lfloor>?x\<rfloor> * b ^ length fs) + (?x - of_int \<lfloor>?x\<rfloor>) * of_int b ^ length fs"
    by (simp add: algebra_simps)
  ultimately show ?thesis
    using ds(2-9) by (intro exI [of _ ds] exI [of _ fs]) simp
qed

text \<open>10.5 is A.8 in base 16, with one digit for the one decimal.\<close>

theorem out_num_base_witness:
  "\<exists>ds fs. bc_out_num number_h_long_max \<lparr>n_sign = PLUS, n_len = 2, n_scale = 1, n_value = [1, 0, 5]\<rparr> 16 False =
      Some (concat (map (out_digit 16 2 True) ds) @ CHR ''.'' # frac_text 16 2 False fs) \<and> base_val 16 ds = 10"
proof -
  let ?n = "\<lparr>n_sign = PLUS, n_len = 2, n_scale = 1, n_value = [1, 0, 5]\<rparr>"
  have val: "num_val ?n = 10.5"
    by (simp add: num_val_def sign_val_def abs_val_def mag_def num_digits_def nval_Cons)
  then have good: "good ?n"
    by (simp add: good_def zero_plus_def normal_def num_ok_def)
  have fits: "base_fits number_h_long_max 16"
    by (simp add: base_fits_def number_h_long_max_def)
  have "n_len (bc_int2num (16 - 1)) = 2"
    by code_simp
  moreover have "\<lfloor>\<bar>num_val ?n\<bar>\<rfloor> = 10"
    unfolding val by (simp add: floor_eq_iff)
  moreover have "num_val ?n \<noteq> 0"
    unfolding val by simp
  ultimately show ?thesis
    using out_num_base [OF good _ fits, of False] by auto
qed

subsection \<open>The fast way for base 10\<close>

lemma base_val_ten: "base_val 10 ds = nval ds"
  by (induction ds rule: rev_induct) simp_all

lemma nval_unique:
  "digs xs \<Longrightarrow> digs ys \<Longrightarrow> length xs = length ys \<Longrightarrow> nval xs = nval ys \<Longrightarrow> xs = ys"
proof (induction xs arbitrary: ys rule: rev_induct)
  case (snoc x xs)
  then obtain y zs where ys: "ys = zs @ [y]"
    by (cases ys rule: rev_exhaust) auto
  then have "10 * nval xs + x = 10 * nval zs + y" "0 \<le> x" "x \<le> 9" "0 \<le> y" "y \<le> 9"
    using snoc.prems by auto
  then have "nval xs = nval zs" "x = y"
    by presburger+
  then show ?case
    using snoc ys by auto
qed simp

text \<open>Digits without a zero in front are determined by their value.\<close>

lemma nval_unique_head:
  assumes "digs xs" "digs ys" "xs = [] \<or> hd xs \<noteq> 0" "ys = [] \<or> hd ys \<noteq> 0" "nval xs = nval ys"
  shows "xs = ys"
proof -
  have len: "10 ^ (length zs - 1) \<le> nval zs" "nval zs < 10 ^ length zs" if "digs zs" "hd zs \<noteq> 0" "zs \<noteq> []" for zs
    using that nval_head [of "hd zs" "tl zs"] nval_less [of zs] by (cases zs; simp)+
  have empty: "zs = []" if "digs zs" "zs = [] \<or> hd zs \<noteq> 0" "nval zs = 0" for zs
    using len [of zs] that zero_less_power [of "10 :: int" "length zs - 1"] by fastforce
  have less: "length zs \<le> length ws" if "digs zs" "digs ws" "zs \<noteq> []" "ws \<noteq> []" "hd zs \<noteq> 0" "hd ws \<noteq> 0" "nval zs = nval ws" for zs ws
  proof -
    have "10 ^ (length zs - 1) \<le> nval zs" "nval zs < 10 ^ length ws"
      using len(1) [OF that(1,5,3)] len(2) [OF that(2,6,4)] unfolding that(7) by blast+
    then have "(10 :: int) ^ (length zs - 1) < 10 ^ length ws"
      by (rule order_le_less_trans)
    then have "length zs - 1 < length ws"
      by (rule power_less_imp_less_exp [rotated]) simp
    then show ?thesis
      by simp
  qed
  show ?thesis
  proof (cases "xs = [] \<or> ys = []")
    case True
    then show ?thesis
      using empty [OF assms(1,3)] empty [OF assms(2,4)] assms(5) nval_simps(1) by metis
  next
    case False
    then have "length xs = length ys"
      using less [of xs ys] less [of ys xs] assms by simp
    then show ?thesis
      using nval_unique assms by blast
  qed
qed

lemma ten_digit: "0 \<le> d \<Longrightarrow> d \<le> 9 \<Longrightarrow> out_digit 10 w space d = [BCD_CHAR d]"
proof -
  assume "0 \<le> d" "d \<le> 9"
  then have "d = 0 \<or> d = 1 \<or> d = 2 \<or> d = 3 \<or> d = 4 \<or> d = 5 \<or> d = 6 \<or> d = 7 \<or> d = 8 \<or> d = 9"
    by presburger
  then show ?thesis
    by (auto simp: out_digit_def ref_str_def BCD_CHAR_def char_of_def)
qed

lemma ten_digits:
  assumes "digs ds"
  shows "concat (map (out_digit 10 w space) ds) = map BCD_CHAR ds" "frac_text 10 w space ds = map BCD_CHAR ds"
proof -
  show "concat (map (out_digit 10 w space) ds) = map BCD_CHAR ds"
    using assms by (induction ds) (auto simp: ten_digit)
  show "frac_text 10 w space ds = map BCD_CHAR ds"
    using assms by (induction ds arbitrary: space) (auto simp: ten_digit)
qed

text \<open>The two parts of a number, as integers.\<close>

lemma two_parts:
  assumes "good n" "length (n_value n) = n_len n + n_scale n"
  shows "\<lfloor>\<bar>num_val n\<bar>\<rfloor> = nval (take (n_len n) (n_value n))"
    "\<bar>num_val n\<bar> - of_int \<lfloor>\<bar>num_val n\<bar>\<rfloor> = of_int (nval (drop (n_len n) (n_value n))) / 10 ^ n_scale n"
proof -
  let ?w = "take (n_len n) (n_value n)" and ?f = "drop (n_len n) (n_value n)"
  have abs: "\<bar>num_val n\<bar> = abs_val n"
    using abs_val_nonneg [OF goodD(2) [OF assms(1)]] by (simp add: num_val_def sign_val_def abs_mult)
  show floor: "\<lfloor>\<bar>num_val n\<bar>\<rfloor> = nval ?w"
    unfolding abs by (rule integer_part(1) [OF goodD(2) [OF assms(1)], symmetric])
  have "mag n = nval (?w @ ?f)"
    using assms(2) by (simp add: mag_def num_digits_def)
  then have "abs_val n = of_int (nval ?w) + of_int (nval ?f) / 10 ^ n_scale n"
    using assms(2) by (simp only: abs_val_def nval_append) (simp add: add_divide_distrib)
  then show "\<bar>num_val n\<bar> - of_int \<lfloor>\<bar>num_val n\<bar>\<rfloor> = of_int (nval ?f) / 10 ^ n_scale n"
    unfolding floor unfolding abs by simp
qed

text \<open>
  C10. The fast way in which \<open>bc_out_num\<close> (lib/number.c) prints a number in base 10, its stored digits one after the other, prints the
  same characters as the way for any base, by divisions and multiplications, would for base 10.
\<close>

theorem out_num_fast_general:
  assumes "good n" and "length (n_value n) = n_len n + n_scale n" and "num_val n \<noteq> 0" and "base_fits LONG_MAX 10"
  shows "out_num_general LONG_MAX n 10 leading_zero = Some (out_num_fast n leading_zero)"
proof -
  obtain z ds fs where n: "take (n_len n) (n_value n) = (if ds = [] then [0] else ds)" "drop (n_len n) (n_value n) = fs"
    "length fs = n_scale n" "digs ds" "digs fs" "ds = [] \<or> hd ds \<noteq> 0" "n_len n > 1 \<or> hd (n_value n) \<noteq> 0 \<longleftrightarrow> ds \<noteq> []"
    using printed_digits [OF assms(1,2)] by blast
  let ?x = "\<bar>num_val n\<bar>" and ?w = "n_len (bc_int2num (10 - 1))"
  obtain ds' fs' where general: "out_num_general LONG_MAX n 10 leading_zero =
      Some (concat (map (out_digit 10 ?w True) ds') @ (if n_scale n > 0 then CHR ''.'' # frac_text 10 ?w False fs' else []))"
    and ds': "set ds' \<subseteq> {0..<10}" "base_val 10 ds' = \<lfloor>?x\<rfloor>" "ds' \<noteq> [] \<longrightarrow> hd ds' \<noteq> 0"
    and fs': "set fs' \<subseteq> {0..<10}" "of_int (base_val 10 fs') \<le> (?x - of_int \<lfloor>?x\<rfloor>) * of_int 10 ^ length fs'"
      "(?x - of_int \<lfloor>?x\<rfloor>) * of_int 10 ^ length fs' < of_int (base_val 10 fs') + 1"
      "10 ^ n_scale n \<le> (10 :: int) ^ length fs'" "fs' \<noteq> [] \<longrightarrow> (10 :: int) ^ (length fs' - 1) < 10 ^ n_scale n"
    using out_num_general_digits [OF assms(1,3,4), of leading_zero] by blast
  have digits: "digs ds'" "digs fs'"
    using ds'(1) fs'(1) by auto
  have "nval ds' = nval ds"
    using ds'(2) two_parts(1) [OF assms(1,2)] n(1) by (auto simp: base_val_ten nval_Cons)
  then have "ds' = ds"
    using ds'(3) n(4,6) digits(1) by (intro nval_unique_head) auto
  moreover have "fs' = fs"
  proof -
    have "n_scale n \<le> length fs'"
      using fs'(4) by (simp add: power_increasing_iff)
    moreover have "length fs' \<le> n_scale n"
      using fs'(5) by (cases "fs' = []") (auto simp: power_strict_increasing_iff)
    ultimately have len: "length fs' = n_scale n"
      by simp
    have "(?x - of_int \<lfloor>?x\<rfloor>) * of_int 10 ^ length fs' = of_int (nval fs)"
      unfolding two_parts(2) [OF assms(1,2)] n(2) len by simp
    then have "nval fs' = nval fs"
      using fs'(2,3) unfolding base_val_ten by linarith
    then show ?thesis
      using nval_unique [OF digits(2) n(5)] len n(3) by simp
  qed
  moreover have "\<not> bc_is_zero n"
    using is_zero_val [OF goodD(2) [OF assms(1)]] assms(3) by simp
  ultimately show ?thesis
    using general ten_digits n(1-5,7) by (auto simp: out_num_fast_def)
qed

theorem out_num_fast_general_witness:
  "out_num_general number_h_long_max \<lparr>n_sign = MINUS, n_len = 2, n_scale = 1, n_value = [1, 0, 5]\<rparr> 10 True =
    Some (out_num_fast \<lparr>n_sign = MINUS, n_len = 2, n_scale = 1, n_value = [1, 0, 5]\<rparr> True)"
proof -
  let ?n = "\<lparr>n_sign = MINUS, n_len = 2, n_scale = 1, n_value = [1, 0, 5]\<rparr>"
  have val: "num_val ?n = - 10.5"
    by (simp add: num_val_def sign_val_def abs_val_def mag_def num_digits_def nval_Cons)
  then have "good ?n" "num_val ?n \<noteq> 0"
    by (simp_all add: good_def zero_plus_def normal_def num_ok_def)
  moreover have "base_fits number_h_long_max 10"
    by (simp add: base_fits_def number_h_long_max_def)
  ultimately show ?thesis
    by (intro out_num_fast_general) simp_all
qed

end
