(* ===== verification/Number_Types.thy ===== *)
theory Number_Types
  imports Number_Sqrt_Correct Number_Text_Correct
begin

text \<open>
  The representation invariant of numbers, for every function of number.c that makes one and for all arguments, those
  included that the theorems about values leave out: exponents that are too large, any scale, any \<open>LONG_MAX\<close>.
\<close>

subsection \<open>Products and the loops of powers\<close>








subsection \<open>Powers\<close>



subsection \<open>Division and square roots\<close>








subsection \<open>All functions\<close>



end
