(* ===== verification/Spec2Isabelle.thy ===== *)
theory Spec2Isabelle
  imports Interpreter Output_Correct Print_Correct Undo_Correct Variables_Correct Stack_Correct Arith_Correct
    Tables_Correct Objects_Correct Attributes_Correct Properties_Correct Text_Correct Dictionary_Correct Quetzal_Correct SaveGame_Correct
    Reachable Commands_Correct Screen_Correct Input_Correct Sound_Correct
    Number_Mul_Correct Number_Div_Correct Number_Power_Correct Number_Sqrt_Correct Number_Text_Correct Number_Types
begin

text \<open>
  A verification library for programs of the KBOX distribution. KBOX packs C programs for a terminal on
  Android; this development is about two that carry an algorithmic core of their own: the Z-machine interpreter
  frotz, whose front-end independent part is source/frotz-2.43d/src/common, and the decimal arithmetic of the calculators bc and
  dc, source/bc-1.06/lib/number.c. The two parts share no code and no theories.

  \<^bold>\<open>The interpreter and its state.\<close> A story file is loaded to memory and its instructions are executed one by one; an
  instruction reads operands, works on memory, stack, objects and text, prints through output streams, asks for keys
  and lines, and saves and restores games. All global variables of the program are fields of the record \<open>zstate\<close>
  (\<open>Machine\<close>): memory \<open>zmp\<close>, the program counter \<open>pcp\<close>, the stack with \<open>sp\<close>, \<open>fp\<close> and \<open>frame_count\<close>, the operands
  \<open>zargs\<close> and \<open>zargc\<close>, the header \<open>hdr\<close>, the user's options \<open>f_setup\<close>, and a record each for output (\<open>out\<close>), undo
  (\<open>undo\<close>), windows (\<open>scr\<close>), files and the mouse (\<open>dev\<close>), sound (\<open>sfx\<close>) and the random generator (\<open>rnd\<close>). What comes from the
  front end or the operating system (a key, a font size, whether a file can be written) is the next value of
  the stream \<open>os_answer\<close>; what goes to it is appended to the log \<open>io_log\<close>. So every theorem holds for all behaviours of the front
  end.

  A C function is a function from state to \<open>zstate res\<close> (\<open>Prelude\<close>): \<open>Ok\<close> with a result, \<open>Stop\<close> when the program
  ends there by \<open>os_fatal\<close> or does what the C standard leaves undefined (an index outside an array, a null pointer, a
  division by zero, a shift by too much), \<open>None\<close> when it does not return. Loops that may run for ever are \<open>partial_function\<close>s.

  \<^bold>\<open>Which theory models which file\<close> (definitions have the names of the C functions, with \<open>_h\<close> for a version that takes the functions
  it calls back as an argument, and with a name of their own for a loop):
    \<^item> \<open>Machine\<close>, \<open>Initial\<close>: frotz.h, setup.h, the global variables, the initial state;
    \<^item> \<open>Zscii\<close>, \<open>ObjectBase\<close>, \<open>Text\<close>: text.c; \<open>Objects\<close>: object.c; \<open>Arith\<close>: math.c and random.c; \<open>Variables\<close>: variable.c; \<open>Tables\<close>: table.c;
    \<^item> \<open>Output\<close>: buffer.c, stream.c, redirect.c, files.c, err.c and \<open>storeb\<close>, \<open>storew\<close> of fastmem.c. These call each other in a circle (a write to
      memory can print an error, printing can write to memory), so the functions take a handler for the inner calls and \<open>out_call\<close> ties the knot;
    \<^item> \<open>ScreenText\<close>, \<open>Screen\<close>, \<open>ScreenOps\<close>: screen.c; \<open>Commands\<close>: command files and input lines of files.c; \<open>Input\<close>: input.c, hotkey.c and the
      reading part of stream.c; \<open>Sound\<close>: sound.c;
    \<^item> \<open>MemDiff\<close>, \<open>Memory\<close>, \<open>Files\<close>, \<open>Quetzal\<close>, \<open>SaveGame\<close>: fastmem.c and quetzal.c;
    \<^item> \<open>Process\<close>, \<open>Interpreter\<close>: process.c and main.c. An opcode table is the list of its entries; \<open>step\<close> is one turn of the loop of \<open>interpret\<close>,
      \<open>interpret_loop\<close> the loop, \<open>interpret_n n\<close> the interpreter with routines started by the program itself (timeouts, end of a sound) nested
      at most \<open>n\<close> deep.

  \<^bold>\<open>What is proved.\<close>
    \<^item> Interfaces are locales: \<open>cells\<close> (storage that is read and written: bytes, words, variables, links of objects), \<open>diff_codec\<close> (a difference of two
      memory images and its inverse: the undo format and the Quetzal format), \<open>silent_handler\<close> (calls that only touch the output), and \<open>state_invariant\<close> (what a
      predicate on states must allow so that the whole interpreter keeps it). Each is interpreted on the model's own functions.
    \<^item> \<open>Process_Correct\<close>, \<open>Stack_Correct\<close>, \<open>Variables_Correct\<close>: calls and returns, locals, branches, catch and throw, the stack as a list, operand decoding.
    \<^item> \<open>Objects_Correct\<close> over \<open>Object_Tree\<close>, \<open>Attributes_Correct\<close>, \<open>Properties_Correct\<close>: the object opcodes refine operations on a tree, on a set and on an
      association list.
    \<^item> \<open>Text_Correct\<close>, \<open>Dictionary_Correct\<close>, \<open>Zscii_Correct\<close>, \<open>Arith_Correct\<close>, \<open>Tables_Correct\<close>, \<open>Output_Correct\<close>, \<open>Print_Correct\<close>: numbers, look-up
      in sorted and unsorted dictionaries, translation of characters, wrap-around arithmetic, copying of overlapping tables, stores that stay in
      dynamic memory, and that printing returns and the text buffer loses nothing.
    \<^item> \<open>Undo_Correct\<close>: the undo list as a stack of snapshots. \<open>Quetzal_Memory\<close>, \<open>Quetzal_Stack\<close>, \<open>Quetzal_Correct\<close>, \<open>SaveGame_Correct\<close>: what is written to a file and
      what is read back, with the errors that were found.
    \<^item> \<open>Commands_Correct\<close>, \<open>Input_Correct\<close>, \<open>Screen_Correct\<close>, \<open>Sound_Correct\<close>: recording and playing back, waiting for a key, interrupted lines, windows, delayed samples.
    \<^item> \<open>Invariant\<close> to \<open>Invariant_Run\<close>: every function of the interpreter keeps any invariant of the locale; \<open>Reachable\<close>: the states of a run, two
      invariants of it, and that undo works anywhere in it.

  \<^bold>\<open>Decimal numbers.\<close> A \<open>bc_num\<close> is a sign, the numbers of digits before and after the point, and the digits, the first one first. It is a value
  here: the C functions never change a number that has been handed out (apart from \<open>bc_raise\<close>, which cuts off the scale of a number it has just
  made), so sharing by reference counts cannot be observed. \<open>Number\<close>: comparison, addition, subtraction;
  \<open>Number_Mul\<close>: the schoolbook and the recursive multiplication; \<open>Number_Div\<close>: the long division; \<open>Number_Arith\<close>: machine integers, remainders,
  powers, square roots; \<open>Number_Text\<close>: reading and printing. \<open>Digits\<close> gives numbers their values as
  rationals (\<open>num_val\<close>) and says what well-formed numbers are (\<open>good\<close>). \<open>Number_Correct\<close>, \<open>Number_Mul_Correct\<close>, \<open>Number_Div_Correct\<close> prove the four
  operations right: sums are exact, products and quotients the exact values cut off at their scale (\<open>cut\<close>). On these rest
  \<open>Number_Arith_Correct\<close>; \<open>Number_Power_Correct\<close>, where the locale \<open>reduced_product\<close> has the loop over the binary digits of an exponent once, interpreted
  on the products of the numbers and on their residues; \<open>Number_Sqrt_Correct\<close>, Heron's iteration with rounding errors: it comes to an end and within one unit of
  the root; \<open>Number_Text_Correct\<close>, digits in any base, where the fast way of printing decimals is the general one; and \<open>Number_Types\<close>, that every
  function keeps numbers well-formed. \<open>None\<close> is the error value of the function, the failure of an assertion or, for a
  \<open>partial_function\<close>, that it does not return; the theorems show that it does. \<open>LONG_MAX\<close> is an argument, because the sources leave its value to the headers of
  the system; what is needed of it, that no product in \<open>bc_num2long\<close> overflows, holds for the value in number.h (\<open>number_h_long_max\<close>).

  \<^bold>\<open>Bounds.\<close> \<open>out_call\<close> nests at most 64 deep and gives \<open>Stop Call_depth\<close> beyond (in C that exhausts the stack); as long as errors are fatal,
  the default, no run nests deeper than a few levels. The interpreter nests 17 deep in \<open>interpret_main\<close>. \<open>long\<close> has 32 bits, as on ARM.

  \<^bold>\<open>Not modelled:\<close> the front ends (calls of terminal libraries); newline interrupts (a call of such a routine is logged where the source
  makes it, and the model of a run ends after that instruction, \<open>Stop Newline_routine\<close>); a font height of zero; an
  overflow of \<open>int\<close> in the number of a played back key; reading errors other than the end of a file. The player may give the name of the story file
  (\<open>names_story\<close>) for a file to be written: a saved game or an auxiliary file then replaces what \<open>story_fp\<close> reads (the buffer of stdio, which may
  still hold old bytes of the story, is left out), while a transcript or a command file stops the model (\<open>Story_overwritten\<close>). Not modelled in number.c:
  the storage management, numbers whose lengths do not fit an \<open>int\<close>, negative scales, and the printing for the debugger. The other programs of the
  distribution are third-party tools around system calls.
\<close>

end
